(* ===== verification/Cindral_Prelude.thy ===== *)
theory Cindral_Prelude
  imports Complex_Main
    "HOL-Library.Sublist"
    "HOL-Library.Char_ord"
    "HOL-Library.List_Lexorder"
    "HOL-Library.Product_Lexorder"
begin

text \<open>
  What every component of the development shares: the Python exceptions the broker raises as
  values, the string operations the source applies, \<open>min\<close> with a key and a default, the SQL
  statements of the broker's stores (\<open>UPDATE ... WHERE\<close> on a table that is a list of rows in
  rowid order, \<open>SELECT ... ORDER BY\<close>), and two interfaces: a row update that keeps the
  table's key, and a transition system with an inductive invariant.

  Python floats are modelled by exact reals, Python integers by \<open>int\<close>, strings by lists of
  characters. Case folding is that of ASCII.
\<close>

named_theorems table_simps \<open>rewrite rules for updates of keyed tables\<close>
named_theorems text_simps \<open>rewrite rules for the string operations\<close>

section \<open>Exceptions as values\<close>

datatype py_exn =
    ValueError string
  | KeyError string
  | TypeError string
  | RuntimeError string
  | IntegrityError
  | RecursionError

type_synonym 'a result = "py_exn + 'a"

definition rbind :: "'e + 'a \<Rightarrow> ('a \<Rightarrow> 'e + 'b) \<Rightarrow> 'e + 'b" where
  "rbind r f = (case r of Inl e \<Rightarrow> Inl e | Inr x \<Rightarrow> f x)"

lemma rbind_simps [simp]:
  "rbind (Inl e) f = Inl e"
  "rbind (Inr x) f = f x"
  by (simp_all add: rbind_def)

lemma rbind_Inr_conv: "rbind r f = Inr y \<longleftrightarrow> (\<exists>x. r = Inr x \<and> f x = Inr y)"
  by (cases r) auto

lemma rbind_Inl_conv: "rbind r f = Inl e \<longleftrightarrow> r = Inl e \<or> (\<exists>x. r = Inr x \<and> f x = Inl e)"
  by (cases r) auto

fun traverse :: "('a \<Rightarrow> 'e + 'b) \<Rightarrow> 'a list \<Rightarrow> 'e + 'b list" where
  "traverse f [] = Inr []"
| "traverse f (x # xs) = rbind (f x) (\<lambda>y. rbind (traverse f xs) (\<lambda>ys. Inr (y # ys)))"

lemma traverse_Inr_iff:
  "traverse f xs = Inr ys \<longleftrightarrow> list_all2 (\<lambda>x y. f x = Inr y) xs ys"
  by (induction xs arbitrary: ys) (auto simp: rbind_Inr_conv list_all2_Cons1)

lemma traverse_in: "traverse f xs = Inr ys \<Longrightarrow> y \<in> set ys \<Longrightarrow> \<exists>x \<in> set xs. f x = Inr y"
  by (induction xs arbitrary: ys) (auto simp: rbind_Inr_conv)

section \<open>Strings\<close>

definition lower_char :: "char \<Rightarrow> char" where
  "lower_char c = (if CHR ''A'' \<le> c \<and> c \<le> CHR ''Z'' then char_of (of_char c + (32 :: nat)) else c)"

definition lower :: "string \<Rightarrow> string" where
  "lower s = map lower_char s"

lemma of_char_lower:
  "CHR ''A'' \<le> c \<Longrightarrow> c \<le> CHR ''Z'' \<Longrightarrow>
   of_char (lower_char c) = (of_char c + (32 :: nat))"
  by (simp add: lower_char_def less_eq_char_def)

lemma lower_char_idem [text_simps, simp]: "lower_char (lower_char c) = lower_char c"
proof (cases "CHR ''A'' \<le> c \<and> c \<le> CHR ''Z''")
  case True
  then have "\<not> lower_char c \<le> CHR ''Z''"
    using of_char_lower [of c] by (auto simp: less_eq_char_def)
  then show ?thesis by (simp add: lower_char_def [of "lower_char c"])
next
  case False
  then show ?thesis by (auto simp: lower_char_def)
qed

lemma lower_idem [text_simps, simp]: "lower (lower s) = lower s"
  by (simp add: lower_def)

lemma lower_append [text_simps]: "lower (s @ t) = lower s @ lower t"
  by (simp add: lower_def)

lemma lower_Nil [simp]: "lower [] = []"
  by (simp add: lower_def)

lemma length_lower [simp]: "length (lower s) = length s"
  by (simp add: lower_def)

text \<open>\<open>str.isspace\<close> on one ASCII character, and \<open>str.strip\<close>.\<close>

definition is_space :: "char \<Rightarrow> bool" where
  "is_space c \<longleftrightarrow> c = CHR '' '' \<or> (9 \<le> (of_char c :: nat) \<and> (of_char c :: nat) \<le> 13) \<or>
     (28 \<le> (of_char c :: nat) \<and> (of_char c :: nat) \<le> 31)"

definition strip :: "string \<Rightarrow> string" where
  "strip s = rev (dropWhile is_space (rev (dropWhile is_space s)))"

lemma length_strip_le: "length (strip s) \<le> length s"
  by (simp add: strip_def) (metis length_dropWhile_le length_rev order_trans)

text \<open>
  \<open>s.split(c, 1)[0]\<close> is what precedes the first separator, or the whole string;
  \<open>s.endswith(t)\<close>, \<open>s.startswith(t)\<close> and \<open>t in s\<close> are \<open>suffix\<close>,
  \<open>prefix\<close> and \<open>sublist\<close> of the library.
\<close>

definition removeprefix :: "string \<Rightarrow> string \<Rightarrow> string" where
  "removeprefix p s = (if prefix p s then drop (length p) s else s)"

definition before :: "char \<Rightarrow> string \<Rightarrow> string" where
  "before c s = takeWhile (\<lambda>x. x \<noteq> c) s"

text \<open>\<open>s.split(c)\<close> for one character.\<close>

fun split_char :: "char \<Rightarrow> string \<Rightarrow> string list" where
  "split_char c [] = [[]]"
| "split_char c (x # s) =
     (if x = c then [] # split_char c s
      else case split_char c s of [] \<Rightarrow> [[x]] | l # ls \<Rightarrow> (x # l) # ls)"

definition drop_last :: "nat \<Rightarrow> string \<Rightarrow> string" where
  "drop_last n s = take (length s - n) s"

definition tail_chars :: "nat \<Rightarrow> string \<Rightarrow> string" where
  "tail_chars n s = drop (length s - n) s"

lemma length_tail_chars [simp]: "length (tail_chars n s) = min n (length s)"
  by (simp add: tail_chars_def)

fun join_with :: "string \<Rightarrow> string list \<Rightarrow> string" where
  "join_with sep [] = []"
| "join_with sep [s] = s"
| "join_with sep (s # ss) = s @ sep @ join_with sep ss"

text \<open>\<open>str\<close> of an integer.\<close>

fun nat_str :: "nat \<Rightarrow> string" where
  "nat_str n = (if n < 10 then [char_of (48 + n)] else nat_str (n div 10) @ [char_of (48 + n mod 10)])"

declare nat_str.simps [simp del]

definition int_str :: "int \<Rightarrow> string" where
  "int_str i = (if i < 0 then ''-'' @ nat_str (nat (- i)) else nat_str (nat i))"

section \<open>JSON values\<close>

text \<open>
  A decoded JSON (or TOML, or YAML) document: what \<open>json.loads\<close> hands to the code. An object
  is an association list with the dictionary's order. Encoding and decoding are the identity of
  this type, so a column that stores \<open>json.dumps(x)\<close> stores \<open>x\<close>.
\<close>

datatype json =
    JNull
  | JBool bool
  | JInt int
  | JFloat real
  | JStr string
  | JList "json list"
  | JObj "(string \<times> json) list"

type_synonym jobj = "(string \<times> json) list"

text \<open>\<open>str\<close> of a decoded value; \<open>shown\<close> is the text of a float, a list or an object.\<close>

fun py_str :: "(json \<Rightarrow> string) \<Rightarrow> json \<Rightarrow> string" where
  "py_str shown (JStr s) = s"
| "py_str shown (JInt i) = int_str i"
| "py_str shown (JBool b) = (if b then ''True'' else ''False'')"
| "py_str shown JNull = ''None''"
| "py_str shown v = shown v"

text \<open>Python truthiness of a decoded value.\<close>

fun truthy :: "json \<Rightarrow> bool" where
  "truthy JNull = False"
| "truthy (JBool b) = b"
| "truthy (JInt i) = (i \<noteq> 0)"
| "truthy (JFloat x) = (x \<noteq> 0)"
| "truthy (JStr s) = (s \<noteq> [])"
| "truthy (JList xs) = (xs \<noteq> [])"
| "truthy (JObj kvs) = (kvs \<noteq> [])"

section \<open>\<open>min\<close> with a key and a default\<close>

text \<open>Python's \<open>min(xs, key=f, default=None)\<close>: the first of the least elements.\<close>

definition min_by :: "('a \<Rightarrow> 'k :: linorder) \<Rightarrow> 'a list \<Rightarrow> 'a option" where
  "min_by f xs =
     (case xs of [] \<Rightarrow> None
      | x # ys \<Rightarrow> Some (foldl (\<lambda>b y. if f y < f b then y else b) x ys))"

lemma foldl_min_in:
  "foldl (\<lambda>b y. if f y < (f b :: 'k :: linorder) then y else b) x ys \<in> insert x (set ys)"
  by (induction ys arbitrary: x) (auto split: if_splits)

lemma foldl_min_le:
  "z \<in> insert x (set ys) \<Longrightarrow>
   f (foldl (\<lambda>b y. if f y < (f b :: 'k :: linorder) then y else b) x ys) \<le> f z"
proof (induction ys arbitrary: x z)
  case Nil
  then show ?case by simp
next
  case (Cons y ys)
  let ?b = "if f y < f x then y else x"
  let ?m = "foldl (\<lambda>b y. if f y < f b then y else b) ?b ys"
  have b: "f ?m \<le> f ?b" by (rule Cons.IH) simp
  have x: "f ?m \<le> f x" by (rule order_trans [OF b]) auto
  have y: "f ?m \<le> f y" by (rule order_trans [OF b]) auto
  have ys: "f ?m \<le> f w" if "w \<in> set ys" for w
    by (rule Cons.IH) (simp add: that)
  from Cons.prems have "z = x \<or> z = y \<or> z \<in> set ys" by simp
  with x y ys have "f ?m \<le> f z" by blast
  then show ?case by simp
qed

lemma min_by_None_iff [simp]: "min_by f xs = None \<longleftrightarrow> xs = []"
  by (auto simp: min_by_def split: list.splits)

lemma min_by_in: "min_by f xs = Some x \<Longrightarrow> x \<in> set xs"
  using foldl_min_in [of f] by (auto simp: min_by_def split: list.splits)

lemma min_by_le: "min_by f xs = Some x \<Longrightarrow> y \<in> set xs \<Longrightarrow> f x \<le> f y"
  using foldl_min_le [of y _ _ f] by (auto simp: min_by_def split: list.splits)

lemma min_by_unique:
  assumes "x \<in> set xs" and "\<And>y. y \<in> set xs \<Longrightarrow> f x \<le> f y" and "inj_on f (set xs)"
  shows "min_by f xs = Some x"
proof -
  from assms(1) obtain m where m: "min_by f xs = Some m" by (cases "min_by f xs") auto
  then have "f m = f x" using assms min_by_le [OF m] min_by_in [OF m]
    by (meson order_antisym)
  then show ?thesis using m assms(1,3) min_by_in [OF m] by (auto dest: inj_onD)
qed

lemma min_by_set_cong:
  assumes "set xs = set ys" and "inj_on f (set xs)"
  shows "min_by f xs = min_by f ys"
proof (cases "min_by f ys")
  case None
  then show ?thesis using assms by simp
next
  case (Some m)
  then show ?thesis
    using assms min_by_in [OF Some] min_by_le [OF Some] by (auto intro: min_by_unique)
qed

section \<open>Tables\<close>

text \<open>
  \<open>UPDATE t SET ... WHERE P\<close>. The statement's row count is the number of rows that matched.
\<close>

definition update_where :: "('r \<Rightarrow> bool) \<Rightarrow> ('r \<Rightarrow> 'r) \<Rightarrow> 'r list \<Rightarrow> 'r list" where
  "update_where P f t = map (\<lambda>r. if P r then f r else r) t"

definition rowcount :: "('r \<Rightarrow> bool) \<Rightarrow> 'r list \<Rightarrow> nat" where
  "rowcount P t = length (filter P t)"

lemma length_update_where [simp]: "length (update_where P f t) = length t"
  by (simp add: update_where_def)

lemma update_where_Nil [simp]: "update_where P f [] = []"
  by (simp add: update_where_def)

lemma update_where_Cons:
  "update_where P f (r # t) = (if P r then f r else r) # update_where P f t"
  by (simp add: update_where_def)

lemma set_update_where: "set (update_where P f t) = (\<lambda>r. if P r then f r else r) ` set t"
  by (simp add: update_where_def)

lemma in_update_whereE:
  assumes "r \<in> set (update_where P f t)"
  obtains r0 where "r0 \<in> set t" and "r = (if P r0 then f r0 else r0)"
  using assms by (auto simp: set_update_where)

lemma map_update_where [table_simps]:
  assumes "\<And>r. P r \<Longrightarrow> k (f r) = k r"
  shows "map k (update_where P f t) = map k t"
  using assms by (simp add: update_where_def)

lemma list_all_update_where:
  assumes "list_all Q t" and "\<And>r. r \<in> set t \<Longrightarrow> P r \<Longrightarrow> Q r \<Longrightarrow> Q (f r)"
  shows "list_all Q (update_where P f t)"
  using assms by (auto simp: list_all_iff update_where_def)

lemma update_where_cong_False: "(\<And>r. r \<in> set t \<Longrightarrow> \<not> P r) \<Longrightarrow> update_where P f t = t"
  by (simp add: update_where_def map_idI)

lemma filter_update_where_frame:
  assumes "\<And>r. P r \<Longrightarrow> Q (f r) = Q r" and "\<And>r. P r \<Longrightarrow> \<not> Q r"
  shows "filter Q (update_where P f t) = filter Q t"
  using assms by (induction t) (auto simp: update_where_Cons)

text \<open>The row a primary key names: at most one where the keys are distinct.\<close>

definition lookup_by :: "('r \<Rightarrow> 'k) \<Rightarrow> 'k \<Rightarrow> 'r list \<Rightarrow> 'r option" where
  "lookup_by k x t = find (\<lambda>r. k r = x) t"

lemma lookup_by_Nil [simp]: "lookup_by k x [] = None"
  by (simp add: lookup_by_def)

lemma lookup_by_Cons: "lookup_by k x (r # t) = (if k r = x then Some r else lookup_by k x t)"
  by (simp add: lookup_by_def)

lemma lookup_by_Some_in: "lookup_by k x t = Some r \<Longrightarrow> r \<in> set t \<and> k r = x"
  by (auto simp: lookup_by_def find_Some_iff)

lemma lookup_by_None_iff: "lookup_by k x t = None \<longleftrightarrow> x \<notin> k ` set t"
  by (auto simp: lookup_by_def find_None_iff)

lemma lookup_by_unique:
  "distinct (map k t) \<Longrightarrow> r \<in> set t \<Longrightarrow> lookup_by k (k r) t = Some r"
  by (induction t) (auto simp: lookup_by_Cons image_iff)

lemma lookup_by_distinct_iff:
  "distinct (map k t) \<Longrightarrow> lookup_by k x t = Some r \<longleftrightarrow> r \<in> set t \<and> k r = x"
  using lookup_by_Some_in lookup_by_unique by fastforce

lemma lookup_by_append:
  "lookup_by k x (s @ t) = (case lookup_by k x s of None \<Rightarrow> lookup_by k x t | Some r \<Rightarrow> Some r)"
  by (induction s) (auto simp: lookup_by_Cons)

lemma distinct_key_eq:
  "distinct (map k t) \<Longrightarrow> r \<in> set t \<Longrightarrow> s \<in> set t \<Longrightarrow> k r = k s \<Longrightarrow> r = s"
  by (metis lookup_by_unique option.inject)

lemma rowcount_key_le_1: "distinct (map k t) \<Longrightarrow> rowcount (\<lambda>r. k r = x \<and> P r) t \<le> 1"
proof (induction t)
  case (Cons r t)
  have "rowcount (\<lambda>r. k r = x \<and> P r) t = 0" if "k r = x"
    using that Cons.prems by (auto simp: rowcount_def filter_empty_conv image_iff)
  with Cons show ?case by (auto simp: rowcount_def)
qed (simp add: rowcount_def)

lemma rowcount_key_eq_1:
  assumes "distinct (map k t)"
  shows "rowcount (\<lambda>r. k r = x \<and> P r) t = 1 \<longleftrightarrow> (\<exists>r. lookup_by k x t = Some r \<and> P r)"
proof -
  have "rowcount (\<lambda>r. k r = x \<and> P r) t \<noteq> 0 \<longleftrightarrow> (\<exists>r \<in> set t. k r = x \<and> P r)"
    by (auto simp: rowcount_def filter_empty_conv)
  also have "\<dots> \<longleftrightarrow> (\<exists>r. lookup_by k x t = Some r \<and> P r)"
    using assms by (auto simp: lookup_by_distinct_iff)
  finally show ?thesis
    using rowcount_key_le_1 [OF assms, of x P] by (auto simp: le_Suc_eq)
qed

lemma update_where_conj:
  "update_where (\<lambda>r. P r \<and> Q r) f t = update_where P (\<lambda>r. if Q r then f r else r) t"
  by (auto simp: update_where_def)

text \<open>
  A statement run once per element of a list of distinct keys rewrites each row by the element
  of its key, if there is one.
\<close>

lemma foldl_update_where_keyed:
  assumes "distinct (map kj js)" and "\<And>j r. k (g j r) = k r"
  shows "foldl (\<lambda>t j. update_where (\<lambda>r. k r = kj j) (g j) t) t js =
         map (\<lambda>r. case lookup_by kj (k r) js of None \<Rightarrow> r | Some j \<Rightarrow> g j r) t"
  using assms(1)
proof (induction js arbitrary: t)
  case (Cons j js)
  have no: "lookup_by kj (kj j) js = None"
    using Cons.prems by (auto simp: lookup_by_None_iff)
  show ?case
    using Cons by (auto simp: update_where_def lookup_by_Cons assms(2) no)
qed simp

lemma rowcount_update_one:
  assumes "distinct (map k t)" and "p \<in> set t" and "P p" and "\<not> Q p" and "Q (f p)"
  shows "rowcount Q (update_where (\<lambda>r. k r = k p \<and> P r) f t) = Suc (rowcount Q t)"
  using assms(1,2)
proof (induction t)
  case (Cons r t)
  show ?case
  proof (cases "r = p")
    case True
    with Cons.prems(1) have "\<And>q. q \<in> set t \<Longrightarrow> k q \<noteq> k p" by (auto simp: rev_image_eqI)
    then have "update_where (\<lambda>r. k r = k p \<and> P r) f t = t" by (intro update_where_cong_False) auto
    with True assms(3-5) show ?thesis by (simp add: update_where_Cons rowcount_def)
  next
    case False
    with Cons.prems have "k r \<noteq> k p" by auto
    with False Cons show ?thesis by (auto simp: update_where_Cons rowcount_def)
  qed
qed simp

lemma rowcount_update_frame:
  assumes "\<And>r. P r \<Longrightarrow> Q (f r) = Q r"
  shows "rowcount Q (update_where P f t) = rowcount Q t"
  using assms by (induction t) (auto simp: update_where_Cons rowcount_def)

subsection \<open>An update that keeps the key\<close>

text \<open>
  The contract of every \<open>UPDATE\<close> of the broker's stores: it assigns columns other than the
  primary key, so the table keeps its keys and every other row.
\<close>

locale row_update =
  fixes key :: "'r \<Rightarrow> 'k" and upd :: "'r \<Rightarrow> 'r"
  assumes key_upd: "key (upd r) = key r"
begin

lemma keys: "map key (update_where P upd t) = map key t"
  by (simp add: map_update_where key_upd)

lemma key_set: "key ` set (update_where P upd t) = key ` set t"
  by (metis keys list.set_map)

lemma lookup:
  "lookup_by key x (update_where P upd t) =
     map_option (\<lambda>r. if P r then upd r else r) (lookup_by key x t)"
  by (induction t) (auto simp: lookup_by_Cons update_where_Cons key_upd)

lemma lookup_other:
  assumes "\<And>r. P r \<Longrightarrow> key r \<noteq> x"
  shows "lookup_by key x (update_where P upd t) = lookup_by key x t"
  using assms lookup_by_Some_in [of key x t]
  by (cases "lookup_by key x t") (auto simp: lookup)

end

section \<open>\<open>ORDER BY\<close>\<close>

text \<open>
  \<open>ORDER BY c ASC\<close> is the library's stable sort by key: rows with equal keys stay in rowid
  order.
\<close>

abbreviation order_by :: "('r \<Rightarrow> 'k :: linorder) \<Rightarrow> 'r list \<Rightarrow> 'r list" where
  "order_by \<equiv> sort_key"

section \<open>Transition systems with an inductive invariant\<close>

text \<open>
  A component is a start state and a step function over its events. The contract of an
  invariant is that it holds at the start and every step keeps it; what a client gets is that
  it holds after every run.
\<close>

fun run_steps :: "('s \<Rightarrow> 'e \<Rightarrow> 's) \<Rightarrow> 's \<Rightarrow> 'e list \<Rightarrow> 's" where
  "run_steps step s [] = s"
| "run_steps step s (e # es) = run_steps step (step s e) es"

lemma run_steps_append: "run_steps step s (es @ fs) = run_steps step (run_steps step s es) fs"
  by (induction es arbitrary: s) auto

locale invariant_system =
  fixes start :: "'s" and step :: "'s \<Rightarrow> 'e \<Rightarrow> 's" and inv :: "'s \<Rightarrow> bool"
  assumes inv_start: "inv start"
    and inv_step: "inv s \<Longrightarrow> inv (step s e)"
begin

lemma inv_run_from: "inv s \<Longrightarrow> inv (run_steps step s es)"
  by (induction es arbitrary: s) (auto intro: inv_step)

lemma inv_run: "inv (run_steps step start es)"
  by (rule inv_run_from [OF inv_start])

lemma preserved_along:
  assumes "\<And>t e. inv t \<Longrightarrow> Q t \<Longrightarrow> Q (step t e)" and "inv s" and "Q s"
  shows "Q (run_steps step s es)"
proof -
  have "inv (run_steps step s es) \<and> Q (run_steps step s es)"
    using assms(2,3) by (induction es arbitrary: s) (auto intro: inv_step assms(1))
  then show ?thesis ..
qed

lemma ordered_along:
  fixes m :: "'s \<Rightarrow> 'o :: preorder"
  assumes "\<And>t e. inv t \<Longrightarrow> m t \<le> m (step t e)" and "inv s"
  shows "m s \<le> m (run_steps step s es)"
  using assms(2)
proof (induction es arbitrary: s)
  case (Cons e es)
  then have "m (step s e) \<le> m (run_steps step (step s e) es)"
    by (auto intro: inv_step)
  with assms(1) [OF Cons.prems, of e] show ?case by (auto intro: order_trans)
qed simp

end

end
