(* ===== verification/Step_Records.thy ===== *)
theory Step_Records
  imports Cindral_Prelude
begin

text \<open>
  The per-step records of a run (\<open>steps.py\<close>): parsing the device's log into steps, keeping the
  record set inside the report budget on the device (\<open>_within_budget\<close>), and validating a
  reported set before the broker stores it (\<open>encode_steps\<close>). The lemmas show that a stored set
  is bounded, that no step is lost without being counted, that storing is idempotent, and that
  the broker stores exactly what a device built.
\<close>

section \<open>Bounds and records\<close>

definition MAX_STEP_CHARS :: nat where "MAX_STEP_CHARS = 16384"
definition MAX_STEP_NAME_CHARS :: nat where "MAX_STEP_NAME_CHARS = 500"
definition MAX_STEPS :: nat where "MAX_STEPS = 64"
definition MAX_TOTAL_CHARS :: nat where "MAX_TOTAL_CHARS = 65536"

lemmas step_bounds = MAX_STEP_CHARS_def MAX_STEP_NAME_CHARS_def MAX_STEPS_def MAX_TOTAL_CHARS_def

record step =
  st_index :: int
  st_name :: string
  st_output :: string
  st_completed :: bool
  st_truncated :: bool
  st_dropped :: int

definition step_as_dict :: "step \<Rightarrow> json" where
  "step_as_dict s = JObj
     [(''index'', JInt (st_index s)), (''name'', JStr (st_name s)),
      (''output'', JStr (st_output s)), (''completed'', JBool (st_completed s)),
      (''truncated'', JBool (st_truncated s)), (''dropped'', JInt (st_dropped s))]"

definition bound_text :: "string \<Rightarrow> string \<times> bool" where
  "bound_text text = (if length text \<le> MAX_STEP_CHARS then (text, False)
                      else (tail_chars MAX_STEP_CHARS text, True))"

definition step_cost :: "step \<Rightarrow> nat" where
  "step_cost s = length (st_output s) + length (st_name s)"

lemma length_bound_text: "length (fst (bound_text t)) \<le> MAX_STEP_CHARS"
  by (simp add: bound_text_def)

lemma bound_text_id [simp]: "length t \<le> MAX_STEP_CHARS \<Longrightarrow> bound_text t = (t, False)"
  by (simp add: bound_text_def)

section \<open>Markers in a log\<close>

text \<open>
  \<open>STEP_MARKER\<close> and \<open>STEP_END\<close> are anchored to one line of the log, so a log is read as its
  lines. \<open>cindral: step <digits> <32 hex digits>: <text>\<close> opens a step and
  \<open>cindral: step <digits> <32 hex digits> end\<close> closes it.
\<close>

definition is_digit :: "char \<Rightarrow> bool" where
  "is_digit c \<longleftrightarrow> CHR ''0'' \<le> c \<and> c \<le> CHR ''9''"

definition is_hex :: "char \<Rightarrow> bool" where
  "is_hex c \<longleftrightarrow> is_digit c \<or> (CHR ''a'' \<le> c \<and> c \<le> CHR ''f'')"

definition digits_value :: "string \<Rightarrow> int" where
  "digits_value ds = foldl (\<lambda>n d. 10 * n + (int (of_char d) - 48)) 0 ds"

definition strip_prefix :: "string \<Rightarrow> string \<Rightarrow> string option" where
  "strip_prefix p s = (if prefix p s then Some (drop (length p) s) else None)"

text \<open>The part both markers share: the index, the nonce and what follows them.\<close>

definition marker_head :: "string \<Rightarrow> (int \<times> string \<times> string) option" where
  "marker_head line =
     (case strip_prefix ''cindral: step '' line of None \<Rightarrow> None
      | Some s \<Rightarrow>
         (let ds = takeWhile is_digit s; s2 = dropWhile is_digit s in
          if ds = [] then None
          else case strip_prefix '' '' s2 of None \<Rightarrow> None
               | Some s3 \<Rightarrow>
                  if length s3 \<ge> 32 \<and> list_all is_hex (take 32 s3)
                  then Some (digits_value ds, take 32 s3, drop 32 s3) else None))"

definition step_marker :: "string \<Rightarrow> string \<Rightarrow> (int \<times> string) option" where
  "step_marker nonce line =
     (case marker_head line of None \<Rightarrow> None
      | Some (i, n, rest) \<Rightarrow>
         if n = nonce then map_option (Pair i) (strip_prefix '': '' rest) else None)"

definition step_end :: "string \<Rightarrow> string \<Rightarrow> int option" where
  "step_end nonce line =
     (case marker_head line of None \<Rightarrow> None
      | Some (i, n, rest) \<Rightarrow> if n = nonce \<and> rest = '' end'' then Some i else None)"

definition newline :: char where "newline = CHR 0x0A"

fun split_lines :: "string \<Rightarrow> string list" where
  "split_lines [] = [[]]"
| "split_lines (c # s) =
     (if c = newline then [] # split_lines s
      else case split_lines s of [] \<Rightarrow> [[c]] | l # ls \<Rightarrow> (c # l) # ls)"

text \<open>
  \<open>_boundaries\<close>: the lines that open a step, each with the lines that follow it up to the next
  one. The first marker sets the sequence, and a marker that is not the next number is output.
\<close>

fun boundaries :: "string \<Rightarrow> int option \<Rightarrow> string list \<Rightarrow> (int \<times> string \<times> string list) list" where
  "boundaries nonce prev [] = []"
| "boundaries nonce prev (l # ls) =
     (case step_marker nonce l of
        Some (i, name) \<Rightarrow>
          (if prev = None \<or> prev = Some (i - 1)
           then (i, name, takeWhile (\<lambda>l. map_option fst (step_marker nonce l) \<noteq> Some (i + 1)) ls)
                  # boundaries nonce (Some i) ls
           else boundaries nonce prev ls)
      | None \<Rightarrow> boundaries nonce prev ls)"

text \<open>The text between two offsets of the log, rebuilt from whole lines.\<close>

definition closed_lines :: "string list \<Rightarrow> string" where
  "closed_lines ls = newline # concat (map (\<lambda>l. l @ [newline]) ls)"

definition open_lines :: "string list \<Rightarrow> string" where
  "open_lines ls = concat (map (\<lambda>l. newline # l) ls)"

definition step_body :: "string \<Rightarrow> bool \<Rightarrow> string list \<Rightarrow> string \<times> bool" where
  "step_body nonce lst ls =
     (let pre = takeWhile (\<lambda>l. step_end nonce l = None) ls in
      if length pre < length ls then (closed_lines pre, True)
      else if lst then (open_lines ls, False)
      else (closed_lines ls, False))"

fun parse_marks :: "string \<Rightarrow> int list \<Rightarrow> (int \<times> string \<times> string list) list \<Rightarrow> step list" where
  "parse_marks nonce finished [] = []"
| "parse_marks nonce finished ((i, name, ls) # ms) =
     (let lst = (ms = []); (text, ended) = step_body nonce lst ls;
          (output, truncated) = bound_text text in
      \<lparr>st_index = i, st_name = strip name, st_output = output,
       st_completed = ended \<or> i \<in> set finished \<or> \<not> lst,
       st_truncated = truncated, st_dropped = 0\<rparr> # parse_marks nonce finished ms)"

section \<open>The device's budget\<close>

fun fill_budget :: "nat \<Rightarrow> step list \<Rightarrow> step list" where
  "fill_budget spent [] = []"
| "fill_budget spent (s # ss) =
     (if spent + step_cost s > MAX_TOTAL_CHARS then []
      else s # fill_budget (spent + step_cost s) ss)"

definition bound_name :: "step \<Rightarrow> step" where
  "bound_name s = (if length (st_name s) \<le> MAX_STEP_NAME_CHARS then s
     else s\<lparr>st_name := take MAX_STEP_NAME_CHARS (st_name s), st_truncated := True\<rparr>)"

definition add_dropped :: "int \<Rightarrow> step \<Rightarrow> step" where
  "add_dropped d s = s\<lparr>st_dropped := st_dropped s + d\<rparr>"

definition on_last :: "('a \<Rightarrow> 'a) \<Rightarrow> 'a list \<Rightarrow> 'a list" where
  "on_last f xs = (if xs = [] then [] else butlast xs @ [f (last xs)])"

definition within_budget :: "step list \<Rightarrow> step list" where
  "within_budget steps0 =
     (let steps1 = map bound_name steps0;
          dropped = (if length steps1 > MAX_STEPS then int (length steps1) - int MAX_STEPS else 0);
          steps2 = (if length steps1 > MAX_STEPS
                    then take (MAX_STEPS - 1) steps1 @ [last steps1] else steps1)
      in if length steps2 \<le> 1 then (if dropped \<noteq> 0 then on_last (add_dropped dropped) steps2 else steps2)
         else if sum_list (map step_cost steps2) \<le> MAX_TOTAL_CHARS
              then (if dropped = 0 then steps2 else on_last (add_dropped dropped) steps2)
         else (let final = last steps2;
                   kept = fill_budget (step_cost final) (butlast steps2);
                   final2 = final\<lparr>st_output := take MAX_STEP_CHARS (st_output final),
                                  st_truncated := st_truncated final
                                     \<or> length (st_output final) > MAX_STEP_CHARS\<rparr>;
                   kept2 = kept @ [final2]
               in on_last (add_dropped (dropped + (int (length steps2) - int (length kept2)))) kept2))"

definition parse_steps :: "string \<Rightarrow> string \<Rightarrow> step list" where
  "parse_steps text nonce =
     (let ls = split_lines text; marks = boundaries nonce None ls in
      if marks = [] then []
      else within_budget (parse_marks nonce (List.map_filter (step_end nonce) ls) marks))"

definition unfinished_step :: "step list \<Rightarrow> step option" where
  "unfinished_step steps = find (\<lambda>s. \<not> st_completed s) (rev steps)"

section \<open>The broker's validation\<close>

fun is_step :: "json \<Rightarrow> bool" where
  "is_step (JObj kvs) =
     ((case map_of kvs ''index'' of Some (JInt _) \<Rightarrow> True | _ \<Rightarrow> False) \<and>
      (case map_of kvs ''name'' of Some (JStr _) \<Rightarrow> True | _ \<Rightarrow> False))"
| "is_step _ = False"

fun entry_field :: "string \<Rightarrow> json \<Rightarrow> json option" where
  "entry_field k (JObj kvs) = map_of kvs k"
| "entry_field k _ = None"

definition stated_dropped :: "json option \<Rightarrow> int" where
  "stated_dropped v = (case v of Some (JInt i) \<Rightarrow> if i < 0 then 0 else i | _ \<Rightarrow> 0)"

definition reported_total :: "json list \<Rightarrow> int" where
  "reported_total entries =
     (let valid = int (length (filter is_step entries)) in
      case find (\<lambda>e. is_step e \<and> stated_dropped (entry_field ''dropped'' e) > 0) (rev entries) of
        None \<Rightarrow> valid
      | Some e \<Rightarrow> valid + stated_dropped (entry_field ''dropped'' e))"

definition entry_int :: "string \<Rightarrow> json \<Rightarrow> int" where
  "entry_int k e = (case entry_field k e of Some (JInt i) \<Rightarrow> i | _ \<Rightarrow> 0)"

definition entry_str :: "string \<Rightarrow> json \<Rightarrow> string" where
  "entry_str k e = (case entry_field k e of Some (JStr s) \<Rightarrow> s | _ \<Rightarrow> [])"

definition entry_true :: "string \<Rightarrow> json \<Rightarrow> bool" where
  "entry_true k e = (case entry_field k e of Some v \<Rightarrow> truthy v | None \<Rightarrow> False)"

definition encoded_step :: "json \<Rightarrow> step" where
  "encoded_step e =
     (let (text, truncated) = bound_text (entry_str ''output'' e) in
      \<lparr>st_index = entry_int ''index'' e,
       st_name = take MAX_STEP_NAME_CHARS (entry_str ''name'' e),
       st_output = text,
       st_completed = entry_true ''completed'' e,
       st_truncated = truncated \<or> entry_true ''truncated'' e,
       st_dropped = stated_dropped (entry_field ''dropped'' e)\<rparr>)"

definition set_dropped :: "int \<Rightarrow> step \<Rightarrow> step" where
  "set_dropped d s = s\<lparr>st_dropped := d\<rparr>"

definition note_lost :: "json list \<Rightarrow> step list \<Rightarrow> step list" where
  "note_lost all_entries steps =
     on_last (set_dropped (max 0 (reported_total all_entries - int (length steps)))) steps"

fun encode_loop :: "json list \<Rightarrow> nat \<Rightarrow> step list \<Rightarrow> json list \<Rightarrow> step list" where
  "encode_loop all_entries spent steps [] = steps"
| "encode_loop all_entries spent steps (e # es) =
     (if \<not> is_step e then encode_loop all_entries spent steps es
      else let s = encoded_step e in
        if spent + step_cost s > MAX_TOTAL_CHARS then note_lost all_entries steps
        else encode_loop all_entries (spent + step_cost s) (steps @ [s]) es)"

fun encode_steps :: "json \<Rightarrow> step list" where
  "encode_steps (JList entries) =
     (let steps = encode_loop entries 0 [] (take MAX_STEPS entries) in
      if length entries > MAX_STEPS then note_lost entries steps else steps)"
| "encode_steps _ = []"

section \<open>Facts about the last record\<close>

lemma on_last_simps [simp]:
  "on_last f [] = []"
  "on_last f (xs @ [x]) = xs @ [f x]"
  by (simp_all add: on_last_def)

lemma length_on_last [simp]: "length (on_last f xs) = length xs"
  by (cases xs rule: rev_cases) auto

lemma on_last_eq_Nil [simp]: "on_last f xs = [] \<longleftrightarrow> xs = []"
  by (simp add: on_last_def)

lemma last_on_last [simp]: "xs \<noteq> [] \<Longrightarrow> last (on_last f xs) = f (last xs)"
  by (simp add: on_last_def)

lemma map_on_last: "(\<And>x. g (f x) = g x) \<Longrightarrow> map g (on_last f xs) = map g xs"
  by (cases xs rule: rev_cases) auto

lemma set_on_last: "x \<in> set (on_last f xs) \<Longrightarrow> x \<in> set xs \<or> (xs \<noteq> [] \<and> x = f (last xs))"
  by (cases xs rule: rev_cases) auto

lemma dropped_frame [simp]:
  "step_cost (set_dropped d s) = step_cost s"
  "step_cost (add_dropped d s) = step_cost s"
  "st_index (set_dropped d s) = st_index s"
  "st_index (add_dropped d s) = st_index s"
  "st_name (set_dropped d s) = st_name s"
  "st_name (add_dropped d s) = st_name s"
  "st_output (set_dropped d s) = st_output s"
  "st_output (add_dropped d s) = st_output s"
  "st_dropped (set_dropped d s) = d"
  "st_dropped (add_dropped d s) = st_dropped s + d"
  by (simp_all add: step_cost_def set_dropped_def add_dropped_def)

text \<open>What a stored record satisfies: bounded text and a count that is not negative.\<close>

definition step_ok :: "step \<Rightarrow> bool" where
  "step_ok s \<longleftrightarrow> length (st_name s) \<le> MAX_STEP_NAME_CHARS \<and>
     length (st_output s) \<le> MAX_STEP_CHARS \<and> 0 \<le> st_dropped s"

lemma step_ok_dropped [simp]:
  "step_ok (set_dropped d s) \<longleftrightarrow> 0 \<le> d \<and> step_ok (set_dropped 0 s)"
  by (auto simp: step_ok_def)

lemma step_ok_cost: "step_ok s \<Longrightarrow> step_cost s \<le> MAX_STEP_CHARS + MAX_STEP_NAME_CHARS"
  by (simp add: step_ok_def step_cost_def)

lemma encoded_step_ok [simp]: "step_ok (encoded_step e)"
  using length_bound_text [of "entry_str ''output'' e"]
  by (auto simp: step_ok_def encoded_step_def stated_dropped_def split: prod.splits option.splits json.splits)

section \<open>The stored set is bounded\<close>

lemma note_lost_frame:
  "length (note_lost es ss) = length ss"
  "map step_cost (note_lost es ss) = map step_cost ss"
  by (simp_all add: note_lost_def map_on_last)

lemma note_lost_ok: "list_all step_ok ss \<Longrightarrow> list_all step_ok (note_lost es ss)"
  by (cases ss rule: rev_cases) (auto simp: note_lost_def step_ok_def)

lemma encode_loop_ok: "list_all step_ok ss \<Longrightarrow> list_all step_ok (encode_loop es n ss xs)"
  by (induction xs arbitrary: n ss) (auto simp: Let_def note_lost_ok)

lemma encode_loop_cost:
  "sum_list (map step_cost ss) \<le> MAX_TOTAL_CHARS \<Longrightarrow>
   sum_list (map step_cost (encode_loop es (sum_list (map step_cost ss)) ss xs)) \<le> MAX_TOTAL_CHARS"
proof (induction xs arbitrary: ss)
  case (Cons x xs)
  then show ?case
    using Cons.IH [of "ss @ [encoded_step x]"] by (simp add: Let_def note_lost_frame)
qed simp

lemma encode_loop_length: "length (encode_loop es n ss xs) \<le> length ss + length xs"
proof (induction xs arbitrary: n ss)
  case (Cons x xs)
  have "length (encode_loop es m (ss @ [t]) xs) \<le> Suc (length ss + length xs)" for m t
    using Cons.IH [of m "ss @ [t]"] by simp
  moreover have "length (encode_loop es m ss xs) \<le> Suc (length ss + length xs)" for m
    using Cons.IH [of m ss] by simp
  ultimately show ?case by (simp add: Let_def note_lost_frame)
qed simp

lemma encode_steps_bounded_aux:
  "length (encode_steps v) \<le> MAX_STEPS \<and> list_all step_ok (encode_steps v) \<and>
   sum_list (map step_cost (encode_steps v)) \<le> MAX_TOTAL_CHARS"
proof (cases v)
  case (JList entries)
  let ?r = "encode_loop entries 0 [] (take MAX_STEPS entries)"
  have "length ?r \<le> MAX_STEPS"
    using encode_loop_length [of entries 0 "[]" "take MAX_STEPS entries"] by simp
  moreover have "list_all step_ok ?r" by (rule encode_loop_ok) simp
  moreover have "sum_list (map step_cost ?r) \<le> MAX_TOTAL_CHARS"
    using encode_loop_cost [of "[]" entries "take MAX_STEPS entries"] by simp
  ultimately show ?thesis
    unfolding JList encode_steps.simps Let_def by (auto simp only: note_lost_frame intro: note_lost_ok split: if_split)
qed simp_all

section \<open>No step is lost without being counted\<close>

lemma reported_total_ge: "int (length (filter is_step es)) \<le> reported_total es"
  by (auto simp: reported_total_def Let_def find_Some_iff split: option.splits)

lemma note_lost_counts:
  "ss \<noteq> [] \<Longrightarrow> int (length (filter is_step es)) \<le>
     int (length (note_lost es ss)) + st_dropped (last (note_lost es ss))"
  using reported_total_ge [of es] by (simp add: note_lost_def)

lemma encode_loop_cases:
  "encode_loop es n ss xs = ss @ map encoded_step (filter is_step xs) \<or>
   (\<exists>r. encode_loop es n ss xs = note_lost es r)"
proof (induction xs arbitrary: n ss)
  case (Cons x xs)
  then show ?case
    using Cons.IH [of "n + step_cost (encoded_step x)" "ss @ [encoded_step x]"]
    by (auto simp: Let_def)
qed simp

lemma encode_loop_complete_dropped:
  "0 \<le> st_dropped (last (map encoded_step (e # es)))"
proof -
  have "last (map encoded_step (e # es)) \<in> set (map encoded_step (e # es))"
    by (rule last_in_set) simp
  then obtain x where "last (map encoded_step (e # es)) = encoded_step x" by auto
  then show ?thesis using encoded_step_ok [of x] by (simp add: step_ok_def)
qed

lemma encode_steps_counts_lost_aux:
  assumes "encode_steps (JList es) \<noteq> []"
  shows "int (length (filter is_step es)) \<le>
     int (length (encode_steps (JList es))) + st_dropped (last (encode_steps (JList es)))"
proof (cases "length es > MAX_STEPS")
  case True
  with assms show ?thesis
    by (simp add: Let_def note_lost_counts) (metis note_lost_counts note_lost_frame(1) length_0_conv)
next
  case False
  then have eq: "encode_steps (JList es) = encode_loop es 0 [] es" by (simp add: Let_def)
  from encode_loop_cases [of es 0 "[]" es] show ?thesis
  proof
    assume r: "encode_loop es 0 [] es = [] @ map encoded_step (filter is_step es)"
    show ?thesis
    proof (cases "filter is_step es")
      case (Cons x xs)
      then show ?thesis
        using eq r encode_loop_complete_dropped [of x xs] by simp
    qed (use assms eq r in simp)
  next
    assume "\<exists>r. encode_loop es 0 [] es = note_lost es r"
    then show ?thesis
      using assms eq note_lost_counts
      by (metis length_0_conv note_lost_frame(1))
  qed
qed

lemma encode_loop_nonempty:
  assumes "ss \<noteq> [] \<or> (n = 0 \<and> (\<exists>x \<in> set xs. is_step x))"
  shows "encode_loop es n ss xs \<noteq> []"
  using assms
proof (induction xs arbitrary: n ss)
  case (Cons x xs)
  have "\<not> step_cost (encoded_step x) > MAX_TOTAL_CHARS"
    using step_ok_cost [OF encoded_step_ok, of x] by (simp add: step_bounds)
  with Cons show ?case
    by (auto simp: Let_def note_lost_def)
qed simp

section \<open>Storing is idempotent, and stores what a device built\<close>

lemma map_of_step_dict [simp]:
  "entry_field ''index'' (step_as_dict s) = Some (JInt (st_index s))"
  "entry_field ''name'' (step_as_dict s) = Some (JStr (st_name s))"
  "entry_field ''output'' (step_as_dict s) = Some (JStr (st_output s))"
  "entry_field ''completed'' (step_as_dict s) = Some (JBool (st_completed s))"
  "entry_field ''truncated'' (step_as_dict s) = Some (JBool (st_truncated s))"
  "entry_field ''dropped'' (step_as_dict s) = Some (JInt (st_dropped s))"
  by (simp_all add: step_as_dict_def)

lemma is_step_as_dict [simp]: "is_step (step_as_dict s)"
  by (simp add: step_as_dict_def)

lemma encoded_step_as_dict: "step_ok s \<Longrightarrow> encoded_step (step_as_dict s) = s"
  by (simp add: encoded_step_def step_ok_def entry_int_def entry_str_def entry_true_def stated_dropped_def)

lemma encode_loop_as_dict:
  "list_all step_ok ts \<Longrightarrow> n + sum_list (map step_cost ts) \<le> MAX_TOTAL_CHARS \<Longrightarrow>
   encode_loop es n ss (map step_as_dict ts) = ss @ ts"
  by (induction ts arbitrary: n ss) (auto simp: Let_def encoded_step_as_dict)

lemma encode_steps_as_dict:
  "length ts \<le> MAX_STEPS \<Longrightarrow> list_all step_ok ts \<Longrightarrow>
   sum_list (map step_cost ts) \<le> MAX_TOTAL_CHARS \<Longrightarrow>
   encode_steps (JList (map step_as_dict ts)) = ts"
  using encode_loop_as_dict [of ts 0 "map step_as_dict ts" "[]"] by (simp add: Let_def)

section \<open>The device's budget\<close>

lemma bound_name_ok [simp]:
  "length (st_name (bound_name s)) \<le> MAX_STEP_NAME_CHARS"
  "st_output (bound_name s) = st_output s"
  "st_dropped (bound_name s) = st_dropped s"
  "st_index (bound_name s) = st_index s"
  by (simp_all add: bound_name_def)

lemma fill_budget_cost:
  "spent \<le> MAX_TOTAL_CHARS \<Longrightarrow> spent + sum_list (map step_cost (fill_budget spent ss)) \<le> MAX_TOTAL_CHARS"
proof (induction ss arbitrary: spent)
  case (Cons s ss)
  then show ?case using Cons.IH [of "spent + step_cost s"] by (simp add: algebra_simps)
qed simp

lemma fill_budget_prefix: "prefix (fill_budget spent ss) ss"
  by (induction ss arbitrary: spent) auto

lemma fill_budget_length: "length (fill_budget spent ss) \<le> length ss"
  by (simp add: fill_budget_prefix prefix_length_le)

lemma fill_budget_subset: "set (fill_budget spent ss) \<subseteq> set ss"
  by (simp add: fill_budget_prefix set_mono_prefix)

text \<open>The record set after the count bound, before the size bound.\<close>

definition count_bounded :: "step list \<Rightarrow> step list" where
  "count_bounded steps1 =
     (if length steps1 > MAX_STEPS then take (MAX_STEPS - 1) steps1 @ [last steps1] else steps1)"

definition count_dropped :: "step list \<Rightarrow> int" where
  "count_dropped steps1 = int (length steps1) - int (length (count_bounded steps1))"

lemma count_bounded_facts:
  "length (count_bounded ss) \<le> MAX_STEPS"
  "length (count_bounded ss) \<le> length ss"
  "count_bounded ss = [] \<longleftrightarrow> ss = []"
  "ss \<noteq> [] \<Longrightarrow> last (count_bounded ss) = last ss"
  "set (count_bounded ss) \<subseteq> set ss"
  by (auto simp: count_bounded_def step_bounds dest: in_set_takeD intro!: last_in_set)

lemma count_dropped_eq:
  "(if length ss > MAX_STEPS then int (length ss) - int MAX_STEPS else 0) = count_dropped ss"
  by (simp add: count_dropped_def count_bounded_def step_bounds)

definition size_bounded :: "step list \<Rightarrow> step list" where
  "size_bounded ss =
     (if length ss \<le> 1 \<or> sum_list (map step_cost ss) \<le> MAX_TOTAL_CHARS then ss
      else fill_budget (step_cost (last ss)) (butlast ss) @
           [(last ss)\<lparr>st_output := take MAX_STEP_CHARS (st_output (last ss)),
                      st_truncated := st_truncated (last ss)
                        \<or> length (st_output (last ss)) > MAX_STEP_CHARS\<rparr>])"

text \<open>
  \<open>_within_budget\<close> in one equation: bound the names, then the count, then the size, and write
  what both bounds dropped on the last record that is kept.
\<close>

lemma within_budget_eq:
  "within_budget steps0 =
     (let ss = map bound_name steps0; kept = size_bounded (count_bounded ss)
      in on_last (add_dropped (int (length ss) - int (length kept))) kept)"
proof -
  let ?ss = "map bound_name steps0"
  let ?cb = "count_bounded ?ss"
  have id: "on_last (add_dropped 0) xs = xs" for xs
    by (cases xs rule: rev_cases) (simp_all add: add_dropped_def)
  have "within_budget steps0 =
     (if length ?cb \<le> 1 then on_last (add_dropped (count_dropped ?ss)) ?cb
      else if sum_list (map step_cost ?cb) \<le> MAX_TOTAL_CHARS
           then on_last (add_dropped (count_dropped ?ss)) ?cb
      else on_last (add_dropped (count_dropped ?ss + (int (length ?cb) - int (length (size_bounded ?cb)))))
             (size_bounded ?cb))"
    unfolding within_budget_def Let_def count_dropped_eq count_bounded_def [symmetric]
    by (auto simp: id size_bounded_def)
  then show ?thesis
    by (auto simp: Let_def count_dropped_def size_bounded_def algebra_simps)
qed

lemma size_bounded_facts:
  "length (size_bounded ss) \<le> length ss"
  "size_bounded ss = [] \<longleftrightarrow> ss = []"
  "ss \<noteq> [] \<Longrightarrow> st_index (last (size_bounded ss)) = st_index (last ss)"
  "ss \<noteq> [] \<Longrightarrow> st_dropped (last (size_bounded ss)) = st_dropped (last ss)"
  "list_all step_ok ss \<Longrightarrow> list_all step_ok (size_bounded ss)"
proof -
  show "length (size_bounded ss) \<le> length ss"
    using fill_budget_length [of "step_cost (last ss)" "butlast ss"]
    by (auto simp: size_bounded_def)
  show "list_all step_ok ss \<Longrightarrow> list_all step_ok (size_bounded ss)"
    using fill_budget_subset [of "step_cost (last ss)" "butlast ss"]
    by (cases ss rule: rev_cases) (auto simp: size_bounded_def list_all_iff step_ok_def)
qed (auto simp: size_bounded_def)

lemma size_bounded_cost:
  assumes "list_all step_ok ss"
  shows "sum_list (map step_cost (size_bounded ss)) \<le> MAX_TOTAL_CHARS"
proof (cases "length ss \<le> 1 \<or> sum_list (map step_cost ss) \<le> MAX_TOTAL_CHARS")
  case True
  then show ?thesis
    using assms step_ok_cost [of "hd ss"]
    by (cases ss; cases "tl ss") (auto simp: size_bounded_def step_bounds)
next
  case False
  then have ok: "step_ok (last ss)" using assms by (cases ss rule: rev_cases) auto
  have "step_cost (last ss) \<le> MAX_TOTAL_CHARS"
    using step_ok_cost [OF ok] by (simp add: step_bounds)
  from fill_budget_cost [OF this, of "butlast ss"] show ?thesis
    using False ok by (auto simp: size_bounded_def step_cost_def step_ok_def)
qed

lemma bound_name_all_ok:
  "list_all (\<lambda>s. length (st_output s) \<le> MAX_STEP_CHARS \<and> 0 \<le> st_dropped s) ss \<Longrightarrow>
   list_all step_ok (map bound_name ss)"
  by (auto simp: list_all_iff step_ok_def)

lemma within_budget_accounting_aux:
  assumes "ss \<noteq> []"
  shows "int (length (within_budget ss)) + st_dropped (last (within_budget ss)) =
         int (length ss) + st_dropped (last ss)"
    and "st_index (last (within_budget ss)) = st_index (last ss)"
  using assms
  by (simp_all add: within_budget_eq Let_def count_bounded_facts size_bounded_facts last_map)

lemma within_budget_ok_aux:
  assumes "list_all (\<lambda>s. length (st_output s) \<le> MAX_STEP_CHARS \<and> 0 \<le> st_dropped s) ss"
  shows "length (within_budget ss) \<le> MAX_STEPS \<and> list_all step_ok (within_budget ss) \<and>
         sum_list (map step_cost (within_budget ss)) \<le> MAX_TOTAL_CHARS"
proof -
  let ?ss = "map bound_name ss"
  let ?kept = "size_bounded (count_bounded ?ss)"
  have cb: "list_all step_ok (count_bounded ?ss)"
    using bound_name_all_ok [OF assms] count_bounded_facts(5) [of ?ss]
    by (auto simp: list_all_iff)
  have len: "length ?kept \<le> length (count_bounded ?ss)" by (rule size_bounded_facts(1))
  then have d: "0 \<le> int (length ?ss) - int (length ?kept)"
    using count_bounded_facts(2) [of ?ss] by simp
  have "list_all step_ok ?kept" by (rule size_bounded_facts(5) [OF cb])
  with d have "list_all step_ok (within_budget ss)"
    by (cases ?kept rule: rev_cases) (auto simp: within_budget_eq Let_def step_ok_def)
  moreover have "map step_cost (within_budget ss) = map step_cost ?kept"
    by (simp add: within_budget_eq Let_def map_on_last)
  moreover have "length (within_budget ss) = length ?kept"
    by (simp add: within_budget_eq Let_def)
  ultimately show ?thesis
    using size_bounded_cost [OF cb] len count_bounded_facts(1) [of ?ss] by simp
qed

lemma parse_marks_ok:
  "list_all (\<lambda>s. length (st_output s) \<le> MAX_STEP_CHARS \<and> 0 \<le> st_dropped s) (parse_marks nonce fin ms)"
proof (induction nonce fin ms rule: parse_marks.induct)
  case (2 nonce fin i name ls ms)
  then show ?case
    using length_bound_text [of "fst (step_body nonce (ms = []) ls)"]
    by (auto simp: Let_def split: prod.splits)
qed simp

lemma boundaries_consecutive_aux:
  "successively (\<lambda>a b. fst b = fst a + 1) (boundaries nonce prev ls) \<and>
   (\<forall>p. prev = Some p \<longrightarrow> boundaries nonce prev ls \<noteq> [] \<longrightarrow>
      fst (hd (boundaries nonce prev ls)) = p + 1)"
proof (induction ls arbitrary: prev)
  case (Cons l ls)
  show ?case
  proof (cases "step_marker nonce l")
    case None
    then show ?thesis using Cons.IH [of prev] by simp
  next
    case (Some im)
    then show ?thesis
      using Cons.IH [of prev] Cons.IH [of "Some (fst im)"]
      by (cases im) (auto simp: successively_Cons)
  qed
qed simp

lemma parse_marks_index: "map st_index (parse_marks nonce fin ms) = map fst ms"
  by (induction nonce fin ms rule: parse_marks.induct) (auto simp: Let_def split: prod.splits)

section \<open>Properties\<close>

text \<open>
  A record set the broker stores is bounded whatever a device reported: at most
  \<open>MAX_STEPS\<close> records, every name and output inside its own bound, no negative count, and the
  whole set inside the log budget.
\<close>

theorem encode_steps_bounded:
  "length (encode_steps v) \<le> MAX_STEPS \<and> list_all step_ok (encode_steps v) \<and>
   sum_list (map step_cost (encode_steps v)) \<le> MAX_TOTAL_CHARS"
  by (rule encode_steps_bounded_aux)

text \<open>
  A report that holds a step among its first \<open>MAX_STEPS\<close> entries stores at least one
  record, and every reported step is either stored or counted as dropped on the last record
  that is stored, so a truncated set is never shape-identical to a complete one.
\<close>

theorem encode_steps_counts_lost:
  assumes "\<exists>x \<in> set (take MAX_STEPS es). is_step x"
  shows "encode_steps (JList es) \<noteq> [] \<and>
    int (length (filter is_step es)) \<le>
      int (length (encode_steps (JList es))) + st_dropped (last (encode_steps (JList es)))"
proof -
  have "encode_loop es 0 [] (take MAX_STEPS es) \<noteq> []"
    by (rule encode_loop_nonempty) (use assms in blast)
  then have "encode_steps (JList es) \<noteq> []"
    by (auto simp: Let_def note_lost_def)
  with encode_steps_counts_lost_aux [OF this] show ?thesis by blast
qed

theorem encode_steps_counts_lost_witness:
  "(\<exists>x \<in> set (take MAX_STEPS [JNull, JObj [(''index'', JInt 1), (''name'', JStr ''make'')]]). is_step x) \<and>
   encode_steps (JList [JNull, JObj [(''index'', JInt 1), (''name'', JStr ''make'')]]) \<noteq> []"
proof -
  have h: "\<exists>x \<in> set (take MAX_STEPS [JNull, JObj [(''index'', JInt 1), (''name'', JStr ''make'')]]). is_step x"
    by (simp add: step_bounds)
  with encode_steps_counts_lost [OF h] show ?thesis by blast
qed

text \<open>
  The broker stores exactly the records a device parsed out of its log: re-reading the
  reported records of any log, with any nonce, changes nothing, so the two bounds agree.
\<close>

theorem encode_parse_roundtrip:
  "encode_steps (JList (map step_as_dict (parse_steps text nonce))) = parse_steps text nonce"
proof -
  have "length (parse_steps text nonce) \<le> MAX_STEPS \<and> list_all step_ok (parse_steps text nonce) \<and>
        sum_list (map step_cost (parse_steps text nonce)) \<le> MAX_TOTAL_CHARS"
    using within_budget_ok_aux [OF parse_marks_ok]
    by (simp add: parse_steps_def Let_def)
  then show ?thesis using encode_steps_as_dict by blast
qed

text \<open>
  Keeping a record set inside the report budget never miscounts: what is kept plus what
  the last record says was dropped is what there was, and the last step, the one the run
  stopped in, is always kept.
\<close>

theorem within_budget_accounting:
  assumes "ss \<noteq> []"
  shows "int (length (within_budget ss)) + st_dropped (last (within_budget ss)) =
           int (length ss) + st_dropped (last ss) \<and>
         st_index (last (within_budget ss)) = st_index (last ss)"
  using within_budget_accounting_aux [OF assms] by blast

theorem within_budget_accounting_witness:
  "int (length (within_budget [\<lparr>st_index = 1, st_name = ''a'', st_output = ''b'',
      st_completed = True, st_truncated = False, st_dropped = 2\<rparr>])) +
   st_dropped (last (within_budget [\<lparr>st_index = 1, st_name = ''a'', st_output = ''b'',
      st_completed = True, st_truncated = False, st_dropped = 2\<rparr>])) = 3"
  using within_budget_accounting [of "[\<lparr>st_index = 1, st_name = ''a'', st_output = ''b'',
      st_completed = True, st_truncated = False, st_dropped = 2\<rparr>]"] by simp

text \<open>
  The steps read out of a log are numbered consecutively from the first marker, whatever
  the steps printed: a line shaped like a marker that is not the next number never opens a
  step.
\<close>

theorem parse_marks_consecutive:
  "successively (\<lambda>a b. st_index b = st_index a + 1)
     (parse_marks nonce fin (boundaries nonce None (split_lines text)))"
proof -
  have "successively (\<lambda>a b. b = a + 1) (map fst (boundaries nonce None (split_lines text)))"
    using boundaries_consecutive_aux [of nonce None "split_lines text"]
    by (simp add: successively_map)
  then show ?thesis
    by (simp add: successively_map parse_marks_index [of nonce fin, symmetric])
qed

end
