(* ===== verification/Job_Queue.thy ===== *)
theory Job_Queue
  imports Step_Records
begin

text \<open>
  The durable job queue of direct device execution: the tables of \<open>schema.py\<close>, the stored record
  (\<open>jobrecord.py\<close>), the retry policy (\<open>retry.py\<close>), the fair pick (\<open>scheduling.py\<close>), device
  presence (\<open>agents_table.py\<close>), what a lapsed lease does (\<open>lease_reclaim.py\<close>), what a verdict
  does (\<open>verdicts.py\<close>), the verdicts still owed to a commit (\<open>status_ledger.py\<close>) and the store
  that runs them (\<open>jobs.py\<close>).

  One operation is one SQLite transaction, so it is one function of the database; an operation
  that raises leaves the database as it was (\<open>ROLLBACK\<close>). The clock, the fresh job id and the
  text a release owes are arguments.
\<close>

section \<open>Retry policy\<close>

definition MAX_ATTEMPTS :: int where "MAX_ATTEMPTS = 3"
definition BASE_BACKOFF_SECONDS :: real where "BASE_BACKOFF_SECONDS = 30"
definition MAX_BACKOFF_SECONDS :: real where "MAX_BACKOFF_SECONDS = 300"
definition MAX_ERROR_CHARS :: nat where "MAX_ERROR_CHARS = 200"
definition MAX_LOG_CHARS :: nat where "MAX_LOG_CHARS = 64 * 1024"
definition LEASE_LOST :: string where
  "LEASE_LOST = ''the device lease expired before the run finished''"

definition backoff_seconds :: "int \<Rightarrow> real" where
  "backoff_seconds attempts =
     min (BASE_BACKOFF_SECONDS * 2 ^ nat (max 0 (attempts - 1))) MAX_BACKOFF_SECONDS"

definition parked :: "int \<Rightarrow> bool" where
  "parked attempts \<longleftrightarrow> attempts \<ge> MAX_ATTEMPTS"

section \<open>Tables\<close>

datatype job_status = Pending | Running | Success | Failure | Dead

text \<open>
  The text of an owed commit status: the JSON of a state and a description, or a text that does
  not decode to such a pair.
\<close>

datatype owed_text = Json_Pair string string | Other_Text string

record job_row =
  r_id :: string
  r_repository :: string
  r_sha :: string
  r_ref :: string
  r_command :: "string list"
  r_labels :: "string list"
  r_timeout :: int
  r_created_at :: real
  r_status :: job_status
  r_device :: "string option"
  r_lease_expires :: "real option"
  r_exit_code :: "int option"
  r_attempts :: int
  r_delivery :: "string option"
  r_status_sha :: "string option"
  r_last_error :: "string option"
  r_available_at :: "real option"
  r_log :: "string option"
  r_steps :: "step list option"
  r_pending_status :: "owed_text option"
  r_status_seq :: int

record agent_row =
  a_device :: string
  a_labels :: "string list"
  a_max_concurrency :: int
  a_last_seen :: real
  a_build :: "(string \<times> string) list"

record db =
  jobs :: "job_row list"
  agents :: "agent_row list"
  meta :: "string \<rightharpoonup> int"

definition schema_db :: db where
  "schema_db = \<lparr>jobs = [], agents = [], meta = [''reclaims'' \<mapsto> 0]\<rparr>"

text \<open>The record a caller reads, and how a row maps onto it.\<close>

record job =
  job_id :: string
  job_repository :: string
  job_sha :: string
  job_ref :: string
  job_labels :: "string list"
  job_timeout :: int
  job_created_at :: real
  job_status_of :: job_status
  job_command :: "string list"
  job_device :: "string option"
  job_lease_expires :: "real option"
  job_exit_code :: "int option"
  job_attempts :: int
  job_delivery :: "string option"
  job_status_sha :: "string option"
  job_log :: string
  job_last_error :: "string option"
  job_steps :: "step list"

definition row_job :: "job_row \<Rightarrow> job" where
  "row_job r =
     \<lparr>job_id = r_id r, job_repository = r_repository r, job_sha = r_sha r, job_ref = r_ref r,
      job_labels = r_labels r, job_timeout = r_timeout r, job_created_at = r_created_at r,
      job_status_of = r_status r, job_command = r_command r, job_device = r_device r,
      job_lease_expires = r_lease_expires r, job_exit_code = r_exit_code r,
      job_attempts = r_attempts r, job_delivery = r_delivery r, job_status_sha = r_status_sha r,
      job_log = (case r_log r of None \<Rightarrow> [] | Some s \<Rightarrow> s), job_last_error = r_last_error r,
      job_steps = (case r_steps r of None \<Rightarrow> [] | Some ss \<Rightarrow> ss)\<rparr>"

definition head_sha_for :: "string \<Rightarrow> string option \<Rightarrow> string" where
  "head_sha_for sha status_sha =
     (case status_sha of Some s \<Rightarrow> if s = [] then sha else s | None \<Rightarrow> sha)"

definition row_of :: "db \<Rightarrow> string \<Rightarrow> job_row option" where
  "row_of d i = lookup_by r_id i (jobs d)"

definition on_jobs :: "(job_row list \<Rightarrow> job_row list) \<Rightarrow> db \<Rightarrow> db" where
  "on_jobs f d = d\<lparr>jobs := f (jobs d)\<rparr>"

definition get :: "db \<Rightarrow> string \<Rightarrow> job option" where
  "get d i = map_option row_job (row_of d i)"

definition list_jobs :: "job_status option \<Rightarrow> db \<Rightarrow> job list" where
  "list_jobs status d =
     map row_job (order_by r_created_at
       (filter (\<lambda>r. case status of None \<Rightarrow> True | Some s \<Rightarrow> r_status r = s) (jobs d)))"

section \<open>Enqueue\<close>

definition new_row ::
  "string \<Rightarrow> string \<Rightarrow> string \<Rightarrow> string \<Rightarrow> string list \<Rightarrow> string list \<Rightarrow> int \<Rightarrow>
   string option \<Rightarrow> string option \<Rightarrow> real \<Rightarrow> job_row" where
  "new_row i repository sha ref command labels timeout delivery status_sha created =
     \<lparr>r_id = i, r_repository = repository, r_sha = sha, r_ref = ref, r_command = command,
      r_labels = labels, r_timeout = timeout, r_created_at = created, r_status = Pending,
      r_device = None, r_lease_expires = None, r_exit_code = None, r_attempts = 0,
      r_delivery = delivery, r_status_sha = status_sha, r_last_error = None,
      r_available_at = None, r_log = None, r_steps = None, r_pending_status = None,
      r_status_seq = 0\<rparr>"

definition enqueue ::
  "string \<Rightarrow> string \<Rightarrow> string \<Rightarrow> string \<Rightarrow> string list \<Rightarrow> string list \<Rightarrow> int \<Rightarrow>
   string option \<Rightarrow> string option \<Rightarrow> real \<Rightarrow> db \<Rightarrow> (db \<times> job) result" where
  "enqueue i repository sha ref command labels timeout delivery status_sha now d =
     (if sha = [] then Inl (ValueError ''job requires a commit sha'')
      else if i \<in> r_id ` set (jobs d) \<or>
              (delivery \<noteq> None \<and> delivery \<in> r_delivery ` set (jobs d))
      then (if delivery = None \<or> delivery = Some [] then Inl IntegrityError
            else case find (\<lambda>r. r_delivery r = delivery) (jobs d) of
                   None \<Rightarrow> Inl IntegrityError
                 | Some r \<Rightarrow> Inr (d, row_job r))
      else let r = new_row i repository sha ref command labels timeout delivery status_sha now
           in Inr (on_jobs (\<lambda>js. js @ [r]) d, row_job r))"

section \<open>Scheduling and claims\<close>

definition active_count :: "job_row list \<Rightarrow> string \<Rightarrow> nat" where
  "active_count js repository =
     length (filter (\<lambda>r. r_status r = Running \<and> r_repository r = repository) js)"

definition job_eligible :: "db \<Rightarrow> string set \<Rightarrow> int option \<Rightarrow> job_row \<Rightarrow> bool" where
  "job_eligible d advertised cap r \<longleftrightarrow>
     set (r_labels r) \<subseteq> advertised \<and>
     (case cap of None \<Rightarrow> True | Some m \<Rightarrow> int (active_count (jobs d) (r_repository r)) < m)"

definition pick_key :: "db \<Rightarrow> job_row \<Rightarrow> nat \<times> real \<times> string" where
  "pick_key d r = (active_count (jobs d) (r_repository r), r_created_at r, r_id r)"

definition pick_job :: "db \<Rightarrow> job_row list \<Rightarrow> string set \<Rightarrow> int option \<Rightarrow> job_row option" where
  "pick_job d rows advertised cap = min_by (pick_key d) (filter (job_eligible d advertised cap) rows)"

definition claimable :: "real \<Rightarrow> job_row \<Rightarrow> bool" where
  "claimable now r \<longleftrightarrow> r_status r = Pending \<and>
     (case r_available_at r of None \<Rightarrow> True | Some t \<Rightarrow> t \<le> now)"

definition take_lease :: "string \<Rightarrow> real \<Rightarrow> job_row \<Rightarrow> job_row" where
  "take_lease device expires r =
     r\<lparr>r_status := Running, r_device := Some device, r_lease_expires := Some expires,
       r_attempts := r_attempts r + 1\<rparr>"

definition claim ::
  "string \<Rightarrow> string list \<Rightarrow> int \<Rightarrow> real \<Rightarrow> int option \<Rightarrow> db \<Rightarrow> (db \<times> job option) result" where
  "claim device labels lease_seconds now cap d =
     (if lease_seconds \<le> 0 then Inl (ValueError ''lease_seconds must be positive'')
      else if (case cap of None \<Rightarrow> False | Some m \<Rightarrow> m \<le> 0)
      then Inl (ValueError ''max_repository_running must be positive'')
      else case pick_job d (order_by r_created_at (filter (claimable now) (jobs d))) (set labels) cap of
             None \<Rightarrow> Inr (d, None)
           | Some p \<Rightarrow>
              let d' = on_jobs (update_where (\<lambda>r. r_id r = r_id p \<and> r_status r = Pending)
                         (take_lease device (now + of_int lease_seconds))) d
              in Inr (d', get d' (r_id p)))"

section \<open>Leases\<close>

definition LIVE_DEVICE_GRACE_SECONDS :: real where "LIVE_DEVICE_GRACE_SECONDS = 60"
definition AGENT_RETENTION_SECONDS :: real where "AGENT_RETENTION_SECONDS = 30 * 24 * 60 * 60"

definition present :: "db \<Rightarrow> real \<Rightarrow> string \<Rightarrow> bool" where
  "present d cutoff device \<longleftrightarrow>
     list_ex (\<lambda>a. a_device a = device \<and> a_last_seen a \<ge> cutoff) (agents d)"

definition spent_lease :: "db \<Rightarrow> real \<Rightarrow> job_row \<Rightarrow> bool" where
  "spent_lease d now r =
     (case r_lease_expires r of None \<Rightarrow> False
      | Some e \<Rightarrow> e < now \<and>
          (e < now - LIVE_DEVICE_GRACE_SECONDS \<or>
           (case r_device r of None \<Rightarrow> True
            | Some dev \<Rightarrow> \<not> present d (now - LIVE_DEVICE_GRACE_SECONDS) dev)))"

definition leased_to :: "db \<Rightarrow> string \<Rightarrow> string \<Rightarrow> real \<Rightarrow> job_row \<Rightarrow> bool" where
  "leased_to d i device now r \<longleftrightarrow>
     r_id r = i \<and> r_status r = Running \<and> r_device r = Some device \<and> \<not> spent_lease d now r"

definition set_lease :: "real \<Rightarrow> job_row \<Rightarrow> job_row" where
  "set_lease expires r = r\<lparr>r_lease_expires := Some expires\<rparr>"

definition renew :: "string \<Rightarrow> string \<Rightarrow> int \<Rightarrow> real \<Rightarrow> db \<Rightarrow> (db \<times> bool) result" where
  "renew i device lease_seconds now d =
     (if lease_seconds \<le> 0 then Inl (ValueError ''lease_seconds must be positive'')
      else Inr (on_jobs (update_where (leased_to d i device now) (set_lease (now + of_int lease_seconds))) d,
                rowcount (leased_to d i device now) (jobs d) = 1))"

definition holds_lease :: "string \<Rightarrow> string \<Rightarrow> real \<Rightarrow> db \<Rightarrow> bool" where
  "holds_lease i device now d \<longleftrightarrow> list_ex (leased_to d i device now) (jobs d)"

definition prune_agents :: "real \<Rightarrow> db \<Rightarrow> db" where
  "prune_agents now d =
     d\<lparr>agents := filter (\<lambda>a. \<not> a_last_seen a < now - AGENT_RETENTION_SECONDS) (agents d)\<rparr>"

definition record_heartbeat ::
  "string \<Rightarrow> string list \<Rightarrow> int \<Rightarrow> real \<Rightarrow> (string \<times> string) list \<Rightarrow> db \<Rightarrow> db \<times> real" where
  "record_heartbeat device labels max_concurrency now build d =
     (let d1 = prune_agents now d;
          a = \<lparr>a_device = device, a_labels = labels, a_max_concurrency = max_concurrency,
               a_last_seen = now, a_build = build\<rparr>
      in (d1\<lparr>agents := filter (\<lambda>x. a_device x \<noteq> device) (agents d1) @ [a]\<rparr>, now))"

section \<open>Releases and verdicts\<close>

definition release_row :: "int \<Rightarrow> real \<Rightarrow> string \<Rightarrow> owed_text option \<Rightarrow> job_row \<Rightarrow> job_row" where
  "release_row attempts now error pending r =
     r\<lparr>r_status := (if parked attempts then Dead else Pending),
       r_device := None,
       r_lease_expires := None,
       r_last_error := Some (take MAX_ERROR_CHARS error),
       r_available_at := Some (now + backoff_seconds attempts),
       r_pending_status := (case pending of None \<Rightarrow> r_pending_status r | Some s \<Rightarrow> Some s),
       r_status_seq := r_status_seq r + (if pending \<noteq> None then 1 else 0)\<rparr>"

definition release :: "string \<Rightarrow> int \<Rightarrow> real \<Rightarrow> string \<Rightarrow> owed_text option \<Rightarrow> db \<Rightarrow> db" where
  "release i attempts now error pending d =
     on_jobs (update_where (\<lambda>r. r_id r = i) (release_row attempts now error pending)) d"

definition lapsed_rows :: "real \<Rightarrow> db \<Rightarrow> job_row list" where
  "lapsed_rows now d = filter (\<lambda>r. r_status r = Running \<and> spent_lease d now r) (jobs d)"

definition count_reclaims :: "job_row list \<Rightarrow> real \<Rightarrow> db \<Rightarrow> db" where
  "count_reclaims lapsed now d =
     (let live = int (length (filter (\<lambda>r. case r_device r of None \<Rightarrow> False
                | Some dev \<Rightarrow> present d (now - LIVE_DEVICE_GRACE_SECONDS) dev) lapsed));
          m1 = (case meta d ''reclaims'' of None \<Rightarrow> meta d
                | Some v \<Rightarrow> (meta d)(''reclaims'' \<mapsto> v + int (length lapsed)));
          m2 = m1(''reclaims_live'' \<mapsto>
                 (case m1 ''reclaims_live'' of None \<Rightarrow> live | Some v \<Rightarrow> v + live))
      in d\<lparr>meta := m2\<rparr>)"

definition expire :: "real \<Rightarrow> (job \<Rightarrow> owed_text) option \<Rightarrow> db \<Rightarrow> db \<times> job list" where
  "expire now publish d =
     (let lapsed = lapsed_rows now d in
      if lapsed = [] then (d, [])
      else let expired = map row_job (filter (\<lambda>r. r_id r \<in> r_id ` set lapsed) (jobs d));
               d1 = foldl (\<lambda>d j. release (job_id j) (job_attempts j) now LEASE_LOST
                             (map_option (\<lambda>p. p j) publish) d) d expired
           in (count_reclaims lapsed now d1, expired))"

definition reclaim_expired :: "real \<Rightarrow> (job \<Rightarrow> owed_text) option \<Rightarrow> db \<Rightarrow> db \<times> job list" where
  "reclaim_expired now publish d = expire now publish d"

definition supersede_row :: "job_row \<Rightarrow> job_row" where
  "supersede_row r = r\<lparr>r_pending_status := None, r_status_seq := r_status_seq r + 1\<rparr>"

definition verdict_row :: "int \<Rightarrow> string \<Rightarrow> json list \<Rightarrow> job_row \<Rightarrow> job_row" where
  "verdict_row exit_code log_text steps r =
     r\<lparr>r_status := (if exit_code = 0 then Success else Failure),
       r_exit_code := Some exit_code,
       r_lease_expires := None,
       r_last_error := None,
       r_log := (if log_text = [] then None else Some (take MAX_LOG_CHARS log_text)),
       r_steps := (if steps = [] then None else Some (encode_steps (JList steps))),
       r_status_seq := r_status_seq r + 1,
       r_pending_status := None\<rparr>"

definition settle ::
  "string \<Rightarrow> string \<Rightarrow> int option \<Rightarrow> real \<Rightarrow> string \<Rightarrow> string \<Rightarrow> json list \<Rightarrow> db \<Rightarrow> db result" where
  "settle i device exit_code reported_at log_text error steps d =
     (case row_of d i of
        None \<Rightarrow> Inl (KeyError i)
      | Some r \<Rightarrow>
          if r_status r \<noteq> Running \<or> r_device r \<noteq> Some device
          then Inl (ValueError ''job is not leased to this device'')
          else if spent_lease d reported_at r then Inl (ValueError ''job lease has expired'')
          else if error \<noteq> []
          then Inr (release i (r_attempts r) reported_at error None
                     (on_jobs (update_where (\<lambda>r. r_id r = i) supersede_row) d))
          else (case exit_code of
                  None \<Rightarrow> Inl (ValueError ''a report needs an exit code or a device error'')
                | Some c \<Rightarrow>
                   Inr (on_jobs (update_where (\<lambda>r. r_id r = i) (verdict_row c log_text steps)) d)))"

definition report ::
  "string \<Rightarrow> string \<Rightarrow> int option \<Rightarrow> real \<Rightarrow> string \<Rightarrow> string \<Rightarrow> json list \<Rightarrow> db \<Rightarrow>
   (db \<times> job option) result" where
  "report i device exit_code now log_text error steps d =
     rbind (settle i device exit_code now log_text error steps d) (\<lambda>d'. Inr (d', get d' i))"

section \<open>Verdicts owed to a commit\<close>

definition owed_rows :: "db \<Rightarrow> job_row list" where
  "owed_rows d = order_by r_created_at (filter (\<lambda>r. r_pending_status r \<noteq> None) (jobs d))"

definition owed_statuses :: "db \<Rightarrow> (job \<times> owed_text) list" where
  "owed_statuses d = map (\<lambda>r. (row_job r, the (r_pending_status r))) (owed_rows d)"

definition current_seq :: "db \<Rightarrow> string \<Rightarrow> int" where
  "current_seq d i = (case row_of d i of None \<Rightarrow> 0 | Some r \<Rightarrow> r_status_seq r)"

definition clear_row :: "job_row \<Rightarrow> job_row" where
  "clear_row r = r\<lparr>r_pending_status := None\<rparr>"

definition discard_status :: "string \<Rightarrow> owed_text \<Rightarrow> db \<Rightarrow> db" where
  "discard_status i text d =
     on_jobs (update_where (\<lambda>r. r_id r = i \<and> r_pending_status r = Some text) clear_row) d"

definition claim_owed :: "db \<Rightarrow> db \<times> (job \<times> owed_text \<times> int) list" where
  "claim_owed d =
     (let taken = map (\<lambda>r. (row_job r, the (r_pending_status r), r_status_seq r)) (owed_rows d)
      in (foldl (\<lambda>d (j, text, _). discard_status (job_id j) text d) d taken, taken))"

definition owe_row :: "owed_text \<Rightarrow> job_row \<Rightarrow> job_row" where
  "owe_row text r = r\<lparr>r_pending_status := Some text, r_status_seq := r_status_seq r + 1\<rparr>"

definition restore_row :: "owed_text \<Rightarrow> job_row \<Rightarrow> job_row" where
  "restore_row text r = r\<lparr>r_pending_status := Some text\<rparr>"

definition restore_status :: "string \<Rightarrow> owed_text \<Rightarrow> int \<Rightarrow> db \<Rightarrow> db" where
  "restore_status i text seq d =
     on_jobs (update_where (\<lambda>r. r_id r = i \<and> r_pending_status r = None \<and> r_status_seq r = seq)
                (restore_row text)) d"

definition owe_status :: "string \<Rightarrow> owed_text \<Rightarrow> db \<Rightarrow> db" where
  "owe_status i text d = on_jobs (update_where (\<lambda>r. r_id r = i) (owe_row text)) d"

definition clear_status :: "string \<Rightarrow> db \<Rightarrow> db" where
  "clear_status i d = on_jobs (update_where (\<lambda>r. r_id r = i) clear_row) d"

definition reclaim_count :: "db \<Rightarrow> int" where
  "reclaim_count d = (case meta d ''reclaims'' of None \<Rightarrow> 0 | Some v \<Rightarrow> v)"

section \<open>Row updates keep the key\<close>

named_theorems row_defs \<open>definitions of the row updates\<close>

lemmas row_updates [row_defs] = take_lease_def set_lease_def release_row_def supersede_row_def verdict_row_def
  clear_row_def owe_row_def restore_row_def

interpretation lease_taking: row_update r_id "take_lease device expires" for device expires
  by unfold_locales (simp add: row_defs)

interpretation lease_setting: row_update r_id "set_lease expires" for expires
  by unfold_locales (simp add: row_defs)

interpretation releasing: row_update r_id "release_row attempts now error pending"
  for attempts now error pending
  by unfold_locales (simp add: row_defs)

interpretation superseding: row_update r_id supersede_row
  by unfold_locales (simp add: row_defs)

interpretation judging: row_update r_id "verdict_row exit_code log_text steps"
  for exit_code log_text steps
  by unfold_locales (simp add: row_defs)

interpretation clearing: row_update r_id clear_row
  by unfold_locales (simp add: row_defs)

interpretation owing: row_update r_id "owe_row tx" for tx
  by unfold_locales (simp add: row_defs)

interpretation restoring: row_update r_id "restore_row tx" for tx
  by unfold_locales (simp add: row_defs)

lemma row_ids [simp]:
  "r_id (take_lease dv e r) = r_id r" "r_id (set_lease e r) = r_id r"
  "r_id (release_row a n er p r) = r_id r" "r_id (supersede_row r) = r_id r"
  "r_id (verdict_row c l ss r) = r_id r" "r_id (clear_row r) = r_id r"
  "r_id (owe_row tx r) = r_id r" "r_id (restore_row tx r) = r_id r"
  by (simp_all add: row_defs)

lemma row_deliveries [simp]:
  "r_delivery (take_lease dv e r) = r_delivery r" "r_delivery (set_lease e r) = r_delivery r"
  "r_delivery (release_row a n er p r) = r_delivery r" "r_delivery (supersede_row r) = r_delivery r"
  "r_delivery (verdict_row c l ss r) = r_delivery r" "r_delivery (clear_row r) = r_delivery r"
  "r_delivery (owe_row tx r) = r_delivery r" "r_delivery (restore_row tx r) = r_delivery r"
  by (simp_all add: row_defs)

lemma on_jobs_simps [simp]:
  "jobs (on_jobs f d) = f (jobs d)"
  "agents (on_jobs f d) = agents d"
  "meta (on_jobs f d) = meta d"
  "on_jobs f (on_jobs g d) = on_jobs (\<lambda>js. f (g js)) d"
  by (simp_all add: on_jobs_def)

lemma on_jobs_id: "f (jobs d) = jobs d \<Longrightarrow> on_jobs f d = d"
  by (simp add: on_jobs_def)

lemma spent_lease_agents: "agents d = agents d' \<Longrightarrow> spent_lease d = spent_lease d'"
  by (intro ext) (simp add: spent_lease_def present_def split: option.splits)

lemma row_job_simps [simp]:
  "job_id (row_job r) = r_id r" "job_attempts (row_job r) = r_attempts r"
  "job_status_of (row_job r) = r_status r" "job_device (row_job r) = r_device r"
  "job_lease_expires (row_job r) = r_lease_expires r" "job_repository (row_job r) = r_repository r"
  "job_exit_code (row_job r) = r_exit_code r" "job_labels (row_job r) = r_labels r"
  "job_sha (row_job r) = r_sha r" "job_delivery (row_job r) = r_delivery r"
  by (simp_all add: row_job_def)

section \<open>The reclaim as one pass\<close>

definition release_lapsed :: "db \<Rightarrow> real \<Rightarrow> (job \<Rightarrow> owed_text) option \<Rightarrow> job_row \<Rightarrow> job_row" where
  "release_lapsed d now publish r =
     (if r_status r = Running \<and> spent_lease d now r
      then release_row (r_attempts r) now LEASE_LOST (map_option (\<lambda>p. p (row_job r)) publish) r
      else r)"

lemma release_lapsed_id [simp]: "r_id (release_lapsed d now publish r) = r_id r"
  by (simp add: release_lapsed_def)

lemma filter_lapsed_ids:
  "distinct (map r_id (jobs d)) \<Longrightarrow>
   filter (\<lambda>r. r_id r \<in> r_id ` set (lapsed_rows now d)) (jobs d) = lapsed_rows now d"
  unfolding lapsed_rows_def by (rule filter_cong) (auto dest: distinct_key_eq)

lemma foldl_release:
  "foldl (\<lambda>d j. release (job_id j) (job_attempts j) now err (pub j) d) d js =
   on_jobs (\<lambda>t. foldl (\<lambda>t j. update_where (\<lambda>r. r_id r = job_id j)
                          (release_row (job_attempts j) now err (pub j)) t) t js) d"
  by (induction js arbitrary: d) (simp_all add: release_def on_jobs_def)

lemma expire_eq:
  assumes "distinct (map r_id (jobs d))"
  shows "expire now publish d =
    (if lapsed_rows now d = [] then (d, [])
     else (count_reclaims (lapsed_rows now d) now (on_jobs (map (release_lapsed d now publish)) d),
           map row_job (lapsed_rows now d)))"
proof -
  let ?js = "map row_job (lapsed_rows now d)"
  have dist: "distinct (map job_id ?js)"
    using assms by (simp add: lapsed_rows_def comp_def distinct_map_filter)
  have look: "lookup_by job_id (r_id r) ?js =
      (if r_status r = Running \<and> spent_lease d now r then Some (row_job r) else None)"
    if "r \<in> set (jobs d)" for r
  proof (cases "r_status r = Running \<and> spent_lease d now r")
    case True
    with that have "row_job r \<in> set ?js" by (simp add: lapsed_rows_def)
    with True lookup_by_unique [OF dist] show ?thesis by fastforce
  next
    case False
    with that assms show ?thesis
      by (auto simp: lookup_by_None_iff lapsed_rows_def dest: distinct_key_eq)
  qed
  have "map (\<lambda>r. case lookup_by job_id (r_id r) ?js of None \<Rightarrow> r
           | Some j \<Rightarrow> release_row (job_attempts j) now LEASE_LOST (map_option (\<lambda>p. p j) publish) r) (jobs d)
        = map (release_lapsed d now publish) (jobs d)"
    by (rule map_cong) (auto simp: look release_lapsed_def)
  then have "foldl (\<lambda>d j. release (job_id j) (job_attempts j) now LEASE_LOST
                 (map_option (\<lambda>p. p j) publish) d) d ?js = on_jobs (map (release_lapsed d now publish)) d"
    by (simp add: foldl_release foldl_update_where_keyed [OF dist] on_jobs_def)
  then show ?thesis
    by (simp add: expire_def Let_def filter_lapsed_ids [OF assms])
qed

lemma count_reclaims_frame [simp]:
  "jobs (count_reclaims l now d) = jobs d"
  "agents (count_reclaims l now d) = agents d"
  by (simp_all add: count_reclaims_def Let_def)

lemma expire_jobs:
  assumes "distinct (map r_id (jobs d))"
  shows "jobs (fst (expire now publish d)) = map (release_lapsed d now publish) (jobs d)"
    and "agents (fst (expire now publish d)) = agents d"
    and "snd (expire now publish d) = map row_job (lapsed_rows now d)"
proof -
  have "map (release_lapsed d now publish) (jobs d) = jobs d" if "lapsed_rows now d = []"
    using that by (intro map_idI) (auto simp: lapsed_rows_def release_lapsed_def filter_empty_conv)
  then show "jobs (fst (expire now publish d)) = map (release_lapsed d now publish) (jobs d)"
    by (simp add: expire_eq [OF assms])
qed (simp_all add: expire_eq [OF assms])

section \<open>Taking the owed verdicts as one pass\<close>

lemma clear_row_None: "r_pending_status r = None \<Longrightarrow> clear_row r = r"
  by (simp add: clear_row_def)

lemma foldl_discard:
  "foldl (\<lambda>d (j, text, q). discard_status (job_id j) text d) d ts =
   on_jobs (\<lambda>t. foldl (\<lambda>t x. update_where (\<lambda>r. r_id r = job_id (fst x))
       (\<lambda>r. if r_pending_status r = Some (fst (snd x)) then clear_row r else r) t) t ts) d"
  by (induction ts arbitrary: d) (auto simp: discard_status_def on_jobs_def update_where_conj)

lemma claim_owed_eq:
  assumes "distinct (map r_id (jobs d))"
  shows "fst (claim_owed d) = on_jobs (map clear_row) d"
proof -
  let ?ts = "map (\<lambda>r. (row_job r, the (r_pending_status r), r_status_seq r)) (owed_rows d)"
  have "distinct (map r_id (owed_rows d))"
    using assms
    by (metis (no_types, lifting) owed_rows_def distinct_map distinct_sort inj_on_subset
        set_sort distinct_filter filter_is_subset)
  then have dist: "distinct (map (\<lambda>x. job_id (fst x)) ?ts)" by (simp add: comp_def)
  have "(case lookup_by (\<lambda>x. job_id (fst x)) (r_id r) ?ts of None \<Rightarrow> r
         | Some x \<Rightarrow> if r_pending_status r = Some (fst (snd x)) then clear_row r else r) = clear_row r"
    if r: "r \<in> set (jobs d)" for r
  proof (cases "r_pending_status r")
    case None
    then show ?thesis by (simp add: clear_row_None split: option.splits)
  next
    case (Some tx)
    with r have "(row_job r, tx, r_status_seq r) \<in> set ?ts"
      by (force simp: owed_rows_def)
    from lookup_by_unique [OF dist this] Some show ?thesis by simp
  qed
  then have "map (\<lambda>r. case lookup_by (\<lambda>x. job_id (fst x)) (r_id r) ?ts of None \<Rightarrow> r
      | Some x \<Rightarrow> if r_pending_status r = Some (fst (snd x)) then clear_row r else r) (jobs d)
      = map clear_row (jobs d)"
    by simp
  then show ?thesis
    by (simp add: claim_owed_def Let_def foldl_discard on_jobs_def
        foldl_update_where_keyed [OF dist, where k = r_id])
qed

section \<open>Well-formed queues\<close>

text \<open>
  What the store keeps true of a row: a lease exists exactly while a run is running, an exit code
  exactly once it has a verdict of its own, a parked run has used every attempt and a waiting one
  has not, and the stored texts are bounded.
\<close>

definition row_wf :: "job_row \<Rightarrow> bool" where
  "row_wf r \<longleftrightarrow>
     (case r_status r of
        Pending \<Rightarrow> r_device r = None \<and> r_lease_expires r = None \<and> r_exit_code r = None \<and>
                   0 \<le> r_attempts r \<and> r_attempts r < MAX_ATTEMPTS
      | Running \<Rightarrow> r_device r \<noteq> None \<and> r_lease_expires r \<noteq> None \<and> r_exit_code r = None \<and>
                   1 \<le> r_attempts r \<and> r_attempts r \<le> MAX_ATTEMPTS
      | Success \<Rightarrow> r_device r \<noteq> None \<and> r_lease_expires r = None \<and> r_exit_code r = Some 0 \<and>
                   1 \<le> r_attempts r \<and> r_attempts r \<le> MAX_ATTEMPTS
      | Failure \<Rightarrow> r_device r \<noteq> None \<and> r_lease_expires r = None \<and>
                   r_exit_code r \<noteq> None \<and> r_exit_code r \<noteq> Some 0 \<and>
                   1 \<le> r_attempts r \<and> r_attempts r \<le> MAX_ATTEMPTS
      | Dead \<Rightarrow> r_device r = None \<and> r_lease_expires r = None \<and> r_exit_code r = None \<and>
                r_attempts r = MAX_ATTEMPTS) \<and>
     0 \<le> r_status_seq r \<and> r_sha r \<noteq> [] \<and>
     pred_option (\<lambda>l. length l \<le> MAX_LOG_CHARS) (r_log r) \<and>
     pred_option (\<lambda>e. length e \<le> MAX_ERROR_CHARS) (r_last_error r) \<and>
     pred_option (\<lambda>ss. length ss \<le> MAX_STEPS \<and> list_all step_ok ss) (r_steps r)"

definition delivery_keys :: "job_row list \<Rightarrow> string list" where
  "delivery_keys js = map the (filter (\<lambda>x. x \<noteq> None) (map r_delivery js))"

definition db_wf :: "db \<Rightarrow> bool" where
  "db_wf d \<longleftrightarrow> distinct (map r_id (jobs d)) \<and> distinct (delivery_keys (jobs d)) \<and>
     list_all row_wf (jobs d) \<and> distinct (map a_device (agents d))"

lemma delivery_keys_cong: "map r_delivery js = map r_delivery ks \<Longrightarrow> delivery_keys js = delivery_keys ks"
  by (simp add: delivery_keys_def)

lemma delivery_keys_simps [simp]:
  "delivery_keys [] = []"
  "delivery_keys (r # js) = (case r_delivery r of None \<Rightarrow> [] | Some x \<Rightarrow> [x]) @ delivery_keys js"
  by (auto simp: delivery_keys_def split: option.splits)

lemma set_delivery_keys: "x \<in> set (delivery_keys js) \<longleftrightarrow> Some x \<in> r_delivery ` set js"
  by (induction js) (auto simp: delivery_keys_def)

text \<open>An operation that rewrites rows in place keeps a well-formed queue if it keeps each row.\<close>

lemma db_wf_on_rows:
  assumes "db_wf d" and "\<And>r. r_id (f r) = r_id r" and "\<And>r. r_delivery (f r) = r_delivery r"
    and "\<And>r. r \<in> set (jobs d) \<Longrightarrow> row_wf r \<Longrightarrow> row_wf (f r)"
  shows "db_wf (on_jobs (map f) d)"
proof -
  have ids: "map r_id (map f (jobs d)) = map r_id (jobs d)" using assms(2) by simp
  have dvs: "delivery_keys (map f (jobs d)) = delivery_keys (jobs d)"
    by (rule delivery_keys_cong) (simp add: assms(3))
  have rows: "list_all row_wf (map f (jobs d))"
    using assms(1,4) by (auto simp: db_wf_def list_all_iff)
  show ?thesis
    using assms(1) unfolding db_wf_def on_jobs_simps ids dvs by (simp add: rows)
qed

lemma db_wf_update_where:
  assumes "db_wf d" and "\<And>r. r_id (f r) = r_id r" and "\<And>r. r_delivery (f r) = r_delivery r"
    and "\<And>r. r \<in> set (jobs d) \<Longrightarrow> P r \<Longrightarrow> row_wf r \<Longrightarrow> row_wf (f r)"
  shows "db_wf (on_jobs (update_where P f) d)"
proof -
  have "on_jobs (update_where P f) d = on_jobs (map (\<lambda>r. if P r then f r else r)) d"
    by (simp add: on_jobs_def update_where_def)
  then show ?thesis
    using db_wf_on_rows [OF assms(1), of "\<lambda>r. if P r then f r else r"] assms(2-4) by auto
qed

section \<open>Each row update keeps a well-formed row\<close>

lemma row_wf_take_lease: "row_wf r \<Longrightarrow> r_status r = Pending \<Longrightarrow> row_wf (take_lease dv e r)"
  by (auto simp: row_wf_def take_lease_def)

lemma row_wf_set_lease: "row_wf r \<Longrightarrow> r_status r = Running \<Longrightarrow> row_wf (set_lease e r)"
  by (auto simp: row_wf_def set_lease_def)

lemma row_wf_release:
  "row_wf r \<Longrightarrow> r_status r = Running \<Longrightarrow> row_wf (release_row (r_attempts r) now err p r)"
  by (auto simp: row_wf_def release_row_def parked_def)

lemma row_wf_supersede: "row_wf r \<Longrightarrow> row_wf (supersede_row r)"
  by (cases "r_status r") (auto simp: row_wf_def supersede_row_def)

lemma row_wf_verdict:
  "row_wf r \<Longrightarrow> r_status r = Running \<Longrightarrow> row_wf (verdict_row c l ss r)"
  using encode_steps_bounded_aux [of "JList ss"]
  by (auto simp: row_wf_def verdict_row_def)

lemma row_wf_ledger:
  "row_wf r \<Longrightarrow> row_wf (clear_row r)"
  "row_wf r \<Longrightarrow> row_wf (owe_row tx r)"
  "row_wf r \<Longrightarrow> row_wf (restore_row tx r)"
  by (cases "r_status r"; simp add: row_wf_def row_defs)+

lemmas row_wf_intros = row_wf_take_lease row_wf_set_lease row_wf_release row_wf_supersede
  row_wf_verdict row_wf_ledger

section \<open>Every operation keeps a well-formed queue\<close>

lemma db_wf_schema: "db_wf schema_db"
  by (simp add: db_wf_def schema_db_def delivery_keys_def)

lemma db_wf_distinct [dest]: "db_wf d \<Longrightarrow> distinct (map r_id (jobs d))"
  by (simp add: db_wf_def)

lemma db_wf_row: "db_wf d \<Longrightarrow> r \<in> set (jobs d) \<Longrightarrow> row_wf r"
  by (simp add: db_wf_def list_all_iff)

lemma db_wf_enqueue:
  assumes "db_wf d" and "enqueue i repo sha rf cmd lbs tmo dv ssha now d = Inr (d', j)"
  shows "db_wf d'"
proof (cases "i \<in> r_id ` set (jobs d) \<or> (dv \<noteq> None \<and> dv \<in> r_delivery ` set (jobs d))")
  case True
  with assms show ?thesis by (auto simp: enqueue_def split: if_splits option.splits)
next
  case False
  let ?r = "new_row i repo sha rf cmd lbs tmo dv ssha now"
  from assms(2) False have d': "d' = on_jobs (\<lambda>js. js @ [?r]) d" and sha: "sha \<noteq> []"
    by (auto simp: enqueue_def Let_def split: if_splits)
  have "row_wf ?r" using sha by (simp add: row_wf_def new_row_def MAX_ATTEMPTS_def)
  moreover have "distinct (delivery_keys (jobs d @ [?r]))"
  proof -
    have "delivery_keys (jobs d @ [?r]) = delivery_keys (jobs d) @ (case dv of None \<Rightarrow> [] | Some x \<Rightarrow> [x])"
      by (cases dv) (simp_all add: delivery_keys_def new_row_def)
    then show ?thesis using assms(1) False
      by (auto simp: db_wf_def set_delivery_keys split: option.splits)
  qed
  ultimately show ?thesis
    using assms(1) False by (auto simp: d' db_wf_def new_row_def)
qed

lemma claim_cases:
  assumes "claim device labels secs now cap d = Inr (d', res)"
  obtains (none) "d' = d" and "res = None"
      "pick_job d (order_by r_created_at (filter (claimable now) (jobs d))) (set labels) cap = None"
    | (some) p where
      "pick_job d (order_by r_created_at (filter (claimable now) (jobs d))) (set labels) cap = Some p"
      "p \<in> set (jobs d)" "claimable now p" "job_eligible d (set labels) cap p"
      "d' = on_jobs (update_where (\<lambda>r. r_id r = r_id p \<and> r_status r = Pending)
              (take_lease device (now + of_int secs))) d"
      "res = get d' (r_id p)" "0 < secs"
proof (cases "pick_job d (order_by r_created_at (filter (claimable now) (jobs d))) (set labels) cap")
  case None
  with assms none show ?thesis by (auto simp: claim_def split: if_splits)
next
  case (Some p)
  from min_by_in [OF Some [unfolded pick_job_def]] have
    "p \<in> set (jobs d)" "claimable now p" "job_eligible d (set labels) cap p" by auto
  with Some assms some show ?thesis by (auto simp: claim_def Let_def split: if_splits)
qed

lemma db_wf_claim:
  assumes "db_wf d" and "claim device labels secs now cap d = Inr (d', res)"
  shows "db_wf d'"
  using assms(2)
proof (cases rule: claim_cases)
  case none
  then show ?thesis using assms(1) by simp
next
  case (some p)
  show ?thesis
    unfolding some(5) by (rule db_wf_update_where [OF assms(1)]) (auto intro: row_wf_intros)
qed

lemma db_wf_renew:
  assumes "db_wf d" and "renew i device secs now d = Inr (d', b)"
  shows "db_wf d'"
  using assms db_wf_update_where [OF assms(1), of "set_lease (now + of_int secs)" "leased_to d i device now"]
  by (auto simp: renew_def leased_to_def intro: row_wf_intros split: if_splits)

lemma row_of_eq:
  assumes "distinct (map r_id (jobs d))" and "row_of d i = Some r" and "q \<in> set (jobs d)" and "r_id q = i"
  shows "q = r"
  using lookup_by_unique [OF assms(1,3)] assms(2,4) by (simp add: row_of_def)

lemma row_of_in: "row_of d i = Some r \<Longrightarrow> r \<in> set (jobs d) \<and> r_id r = i"
  unfolding row_of_def by (rule lookup_by_Some_in)

text \<open>What a settled report did: a release under a device error, or a verdict.\<close>

lemma settle_cases:
  assumes "settle i device exit_code now l err ss d = Inr d'" and "distinct (map r_id (jobs d))"
  obtains (error) r where "row_of d i = Some r" "r_status r = Running" "r_device r = Some device"
      "\<not> spent_lease d now r" "err \<noteq> []"
      "d' = on_jobs (update_where (\<lambda>r. r_id r = i)
              (\<lambda>r. release_row (r_attempts r) now err None (supersede_row r))) d"
    | (verdict) r c where "row_of d i = Some r" "r_status r = Running" "r_device r = Some device"
      "\<not> spent_lease d now r" "err = []" "exit_code = Some c"
      "d' = on_jobs (update_where (\<lambda>r. r_id r = i) (verdict_row c l ss)) d"
proof -
  from assms(1) obtain r where r: "row_of d i = Some r" "r_status r = Running"
      "r_device r = Some device" "\<not> spent_lease d now r"
    by (auto simp: settle_def split: option.splits if_splits)
  show thesis
  proof (cases "err = []")
    case True
    with assms(1) r verdict show ?thesis by (auto simp: settle_def split: option.splits)
  next
    case False
    have "update_where (\<lambda>r. r_id r = i) (release_row (r_attempts r) now err None)
            (update_where (\<lambda>r. r_id r = i) supersede_row (jobs d)) =
          update_where (\<lambda>r. r_id r = i)
            (\<lambda>r. release_row (r_attempts r) now err None (supersede_row r)) (jobs d)"
      using row_of_eq [OF assms(2) r(1)] by (auto simp: update_where_def)
    with False assms(1) r error show ?thesis
      by (auto simp: settle_def release_def on_jobs_def)
  qed
qed

lemma row_wf_error_release:
  "row_wf r \<Longrightarrow> r_status r = Running \<Longrightarrow>
   row_wf (release_row (r_attempts r) now err None (supersede_row r))"
  using row_wf_release [OF row_wf_supersede, of r now err None] by (simp add: supersede_row_def)

lemma db_wf_settle:
  assumes "db_wf d" and "settle i device exit_code now l err ss d = Inr d'"
  shows "db_wf d'"
  using assms(2) db_wf_distinct [OF assms(1)]
proof (cases rule: settle_cases)
  case (error r)
  show ?thesis
    unfolding error(6)
  proof (rule db_wf_update_where [OF assms(1)], simp_all)
    fix q assume "q \<in> set (jobs d)" "r_id q = i" "row_wf q"
    then show "row_wf (release_row (r_attempts q) now err None (supersede_row q))"
      using row_of_eq [OF db_wf_distinct [OF assms(1)] error(1)] error(2) row_wf_error_release by blast
  qed
next
  case (verdict r c)
  show ?thesis
    unfolding verdict(7)
  proof (rule db_wf_update_where [OF assms(1)], simp_all)
    fix q assume "q \<in> set (jobs d)" "r_id q = i" "row_wf q"
    then show "row_wf (verdict_row c l ss q)"
      using row_of_eq [OF db_wf_distinct [OF assms(1)] verdict(1)] verdict(2) row_wf_verdict by blast
  qed
qed

lemma db_wf_expire: "db_wf d \<Longrightarrow> db_wf (fst (expire now publish d))"
proof -
  assume wf: "db_wf d"
  have "db_wf (on_jobs (map (release_lapsed d now publish)) d)"
    by (rule db_wf_on_rows [OF wf]) (auto simp: release_lapsed_def intro: row_wf_intros)
  then show ?thesis
    using expire_jobs [OF db_wf_distinct [OF wf], of now publish]
    by (auto simp: db_wf_def)
qed

lemma db_wf_ledger:
  assumes "db_wf d"
  shows "db_wf (fst (claim_owed d))" "db_wf (restore_status i tx seq d)"
    "db_wf (owe_status i tx d)" "db_wf (clear_status i d)"
  unfolding claim_owed_eq [OF db_wf_distinct [OF assms]] restore_status_def owe_status_def clear_status_def
  by (rule db_wf_on_rows [OF assms] db_wf_update_where [OF assms]; simp add: row_wf_intros)+

lemma db_wf_presence:
  assumes "db_wf d"
  shows "db_wf (prune_agents now d)" "db_wf (fst (record_heartbeat device labels mc now build d))"
  using assms
  by (auto simp: db_wf_def prune_agents_def record_heartbeat_def Let_def distinct_map_filter)

end
