(* ===== verification/Queue_Properties.thy ===== *)
theory Queue_Properties
  imports Job_Queue
begin

text \<open>
  The queue as a transition system over the store's operations, and what it promises: a
  well-formed queue, verdicts that are final, at most \<open>MAX_ATTEMPTS\<close> hand-outs of a run, one
  holder per run, one answer to "is this lease spent", fair and capped scheduling, and one job
  per delivery.
\<close>

section \<open>Events and steps\<close>

datatype queue_event =
    Enqueue string string string string "string list" "string list" int "string option" "string option" real
  | Claim string "string list" int real "int option"
  | Renew string string int real
  | Report string string "int option" real string string "json list"
  | Reclaim real "(job \<Rightarrow> owed_text) option"
  | Heartbeat string "string list" int real "(string \<times> string) list"
  | Prune real
  | Claim_Owed
  | Restore string owed_text int
  | Owe string owed_text
  | Clear string

definition commit_or :: "db \<Rightarrow> (db \<times> 'a) result \<Rightarrow> db" where
  "commit_or d r = (case r of Inl _ \<Rightarrow> d | Inr (d', _) \<Rightarrow> d')"

fun queue_step :: "db \<Rightarrow> queue_event \<Rightarrow> db" where
  "queue_step d (Enqueue i repo sha rf cmd lbs tmo dv ssha now) =
     commit_or d (enqueue i repo sha rf cmd lbs tmo dv ssha now d)"
| "queue_step d (Claim device labels secs now cap) = commit_or d (claim device labels secs now cap d)"
| "queue_step d (Renew i device secs now) = commit_or d (renew i device secs now d)"
| "queue_step d (Report i device exit_code now l err ss) = commit_or d (report i device exit_code now l err ss d)"
| "queue_step d (Reclaim now publish) = fst (reclaim_expired now publish d)"
| "queue_step d (Heartbeat device labels mc now build) = fst (record_heartbeat device labels mc now build d)"
| "queue_step d (Prune now) = prune_agents now d"
| "queue_step d Claim_Owed = fst (claim_owed d)"
| "queue_step d (Restore i tx seq) = restore_status i tx seq d"
| "queue_step d (Owe i tx) = owe_status i tx d"
| "queue_step d (Clear i) = clear_status i d"

lemma commit_or_induct:
  "Q d \<Longrightarrow> (\<And>d' x. r = Inr (d', x) \<Longrightarrow> Q d') \<Longrightarrow> Q (commit_or d r)"
  by (auto simp: commit_or_def split: sum.splits)

lemma db_wf_report:
  "db_wf d \<Longrightarrow> report i device exit_code now l err ss d = Inr (d', j) \<Longrightarrow> db_wf d'"
  by (auto simp: report_def rbind_Inr_conv intro: db_wf_settle)

lemma db_wf_step: "db_wf d \<Longrightarrow> db_wf (queue_step d e)"
  by (cases e)
     (auto simp: reclaim_expired_def
       intro: commit_or_induct db_wf_enqueue db_wf_claim db_wf_renew db_wf_report db_wf_expire
         db_wf_ledger db_wf_presence)

interpretation queue: invariant_system schema_db queue_step db_wf
  by unfold_locales (auto intro: db_wf_schema db_wf_step)

section \<open>What a step does to one row\<close>

text \<open>
  Every operation either leaves a stored row as it is or applies one of the row updates to it
  under that operation's guard.
\<close>

inductive row_change :: "job_row \<Rightarrow> job_row \<Rightarrow> bool" where
  keep: "row_change r r"
| take: "r_status r = Pending \<Longrightarrow> row_change r (take_lease dv e r)"
| extend: "r_status r = Running \<Longrightarrow> row_change r (set_lease e r)"
| lose: "r_status r = Running \<Longrightarrow> row_change r (release_row (r_attempts r) now err p r)"
| fail: "r_status r = Running \<Longrightarrow>
    row_change r (release_row (r_attempts r) now err None (supersede_row r))"
| judge: "r_status r = Running \<Longrightarrow> row_change r (verdict_row c l ss r)"
| owe: "row_change r (owe_row tx r)"

text \<open>
  The drains' own updates take an owed text out of the row or put it back, and are the only ones
  that change what a row owes without moving its sequence number.
\<close>

inductive row_step :: "job_row \<Rightarrow> job_row \<Rightarrow> bool" where
  change: "row_change r r' \<Longrightarrow> row_step r r'"
| restore: "r_pending_status r = None \<Longrightarrow> row_step r (restore_row tx r)"
| clear: "row_step r (clear_row r)"

inductive_simps row_step_iff: "row_step r r'"

lemma row_change_id [simp]: "row_change r r' \<Longrightarrow> r_id r' = r_id r"
  by (induction rule: row_change.induct) auto

lemma row_of_on_map:
  assumes "\<And>r. r_id (f r) = r_id r"
  shows "row_of (on_jobs (map f) d) i = map_option f (row_of d i)"
proof -
  have "lookup_by r_id i (map f js) = map_option f (lookup_by r_id i js)" for js
    by (induction js) (auto simp: lookup_by_Cons assms)
  then show ?thesis by (simp add: row_of_def)
qed

lemma row_of_on_update:
  assumes "\<And>r. r_id (f r) = r_id r"
  shows "row_of (on_jobs (update_where P f) d) i = map_option (\<lambda>r. if P r then f r else r) (row_of d i)"
  using row_of_on_map [of "\<lambda>r. if P r then f r else r" d i] assms
  by (simp add: update_where_def [abs_def] on_jobs_def)

lemma row_of_jobs: "jobs d = jobs d' \<Longrightarrow> row_of d i = row_of d' i"
  by (simp add: row_of_def)

lemma presence_jobs [simp]:
  "jobs (prune_agents now d) = jobs d"
  "jobs (fst (record_heartbeat device labels mc now build d)) = jobs d"
  by (simp_all add: prune_agents_def record_heartbeat_def Let_def)

lemma row_change_update:
  assumes "row_of d i = Some r" and "\<And>r. r_id (f r) = r_id r" and "P r \<Longrightarrow> row_change r (f r)"
  shows "\<exists>r'. row_of (on_jobs (update_where P f) d) i = Some r' \<and> row_change r r'"
  using assms by (auto simp: row_of_on_update intro: row_change.keep)

lemma row_change_enqueue:
  assumes "enqueue i0 repo sha rf cmd lbs tmo dv ssha now d = Inr (d', j)" and "row_of d i = Some r"
  shows "row_of d' i = Some r"
  using assms
  by (auto simp: enqueue_def Let_def row_of_def lookup_by_append split: if_splits option.splits)

lemma row_change_claim:
  assumes "claim device labels secs now cap d = Inr (d', res)" and "row_of d i = Some r"
  shows "\<exists>r'. row_of d' i = Some r' \<and> row_change r r'"
  using assms(1)
proof (cases rule: claim_cases)
  case none
  then show ?thesis using assms(2) by (auto intro: row_change.keep)
next
  case (some p)
  show ?thesis unfolding some(5)
    by (rule row_change_update [OF assms(2)]) (auto intro: row_change.intros)
qed

lemma row_change_settle:
  assumes "settle j device exit_code now l err ss d = Inr d'" and "db_wf d" and "row_of d i = Some r"
  shows "\<exists>r'. row_of d' i = Some r' \<and> row_change r r'"
proof -
  have running: "r_status r = Running" if "row_of d j = Some q" "r_status q = Running" "r_id r = j" for q
    using that row_of_in [OF assms(3)] row_of_eq [OF db_wf_distinct [OF assms(2)]] by blast
  from assms(1) db_wf_distinct [OF assms(2)] show ?thesis
  proof (cases rule: settle_cases)
    case (error q)
    show ?thesis unfolding error(6)
      by (rule row_change_update [OF assms(3)]) (auto intro: row_change.fail running [OF error(1,2)])
  next
    case (verdict q c)
    show ?thesis unfolding verdict(7)
      by (rule row_change_update [OF assms(3)]) (auto intro: row_change.judge running [OF verdict(1,2)])
  qed
qed

lemma row_change_renew:
  assumes "renew j device secs now d = Inr (d', b)" and "row_of d i = Some r"
  shows "\<exists>r'. row_of d' i = Some r' \<and> row_change r r'"
  using assms row_change_update [OF assms(2), of "set_lease (now + of_int secs)" "leased_to d j device now"]
  by (auto simp: renew_def leased_to_def intro: row_change.intros split: if_splits)

lemma row_of_expire:
  assumes "db_wf d"
  shows "row_of (fst (expire now publish d)) i = map_option (release_lapsed d now publish) (row_of d i)"
proof -
  have "row_of (fst (expire now publish d)) i = row_of (on_jobs (map (release_lapsed d now publish)) d) i"
    by (rule row_of_jobs) (simp add: expire_jobs [OF db_wf_distinct [OF assms]])
  then show ?thesis by (simp add: row_of_on_map)
qed

lemma row_change_expire:
  assumes "db_wf d" and "row_of d i = Some r"
  shows "\<exists>r'. row_of (fst (expire now publish d)) i = Some r' \<and> row_change r r'"
  using assms by (auto simp: row_of_expire release_lapsed_def intro: row_change.intros)

lemma row_change_ledger:
  assumes "db_wf d" and "row_of d i = Some r"
  shows "\<exists>r'. row_of (fst (claim_owed d)) i = Some r' \<and> row_step r r'"
    "\<exists>r'. row_of (restore_status j tx seq d) i = Some r' \<and> row_step r r'"
    "\<exists>r'. row_of (owe_status j tx d) i = Some r' \<and> row_change r r'"
    "\<exists>r'. row_of (clear_status j d) i = Some r' \<and> row_step r r'"
  using assms(2) row_of_on_map [of clear_row d i]
  unfolding claim_owed_eq [OF db_wf_distinct [OF assms(1)]] restore_status_def owe_status_def clear_status_def
  by (auto simp: row_of_on_update intro: row_change_update row_change.intros row_step.intros)

definition drain_owned :: "queue_event \<Rightarrow> bool" where
  "drain_owned e = (case e of Restore _ _ _ \<Rightarrow> True | Claim_Owed \<Rightarrow> True | Clear _ \<Rightarrow> True | _ \<Rightarrow> False)"

lemma row_change_step:
  assumes "db_wf d" and "row_of d i = Some r" and "\<not> drain_owned e"
  shows "\<exists>r'. row_of (queue_step d e) i = Some r' \<and> row_change r r'"
proof -
  note keep = assms(2) row_change.keep
  have "\<exists>r'. row_of (commit_or d x) i = Some r' \<and> row_change r r'"
    if "\<And>d' y. x = Inr (d', y) \<Longrightarrow> \<exists>r'. row_of d' i = Some r' \<and> row_change r r'"
    for x :: "(db \<times> 'a) result"
    by (rule commit_or_induct) (use keep that in blast)+
  note commit = this
  show ?thesis
  proof (cases e)
    case Enqueue
    then show ?thesis using row_change_enqueue [OF _ assms(2)] keep(2) by (auto intro!: commit)
  next
    case Claim
    then show ?thesis using row_change_claim [OF _ assms(2)] by (auto intro!: commit)
  next
    case Renew
    then show ?thesis using row_change_renew [OF _ assms(2)] by (auto intro!: commit)
  next
    case Report
    then show ?thesis using row_change_settle [OF _ assms(1,2)]
      by (auto intro!: commit simp: report_def rbind_Inr_conv)
  qed (use row_change_expire [OF assms(1,2)] row_change_ledger [OF assms(1,2)] keep assms(3)
        in \<open>auto simp: reclaim_expired_def row_of_def drain_owned_def\<close>)
qed

lemma row_step_step:
  assumes "db_wf d" and "row_of d i = Some r"
  shows "\<exists>r'. row_of (queue_step d e) i = Some r' \<and> row_step r r'"
proof (cases "drain_owned e")
  case True
  then show ?thesis
    using row_change_ledger [OF assms] by (auto simp: drain_owned_def split: queue_event.splits)
next
  case False
  then show ?thesis using row_change_step [OF assms] row_step.change by blast
qed

section \<open>Verdicts are final\<close>

definition terminal :: "job_status \<Rightarrow> bool" where
  "terminal st \<longleftrightarrow> st \<in> {Success, Failure, Dead}"

definition verdict_of :: "job_row \<Rightarrow> job_status \<times> int option \<times> string option \<times> step list option \<times> int" where
  "verdict_of r = (r_status r, r_exit_code r, r_log r, r_steps r, r_attempts r)"

lemma row_step_terminal: "row_step r r' \<Longrightarrow> terminal (r_status r) \<Longrightarrow> verdict_of r' = verdict_of r"
  by (auto simp: row_step_iff terminal_def verdict_of_def row_defs elim: row_change.cases)

lemma row_step_identity:
  "row_step r r' \<Longrightarrow> r_repository r' = r_repository r \<and> r_sha r' = r_sha r \<and> r_ref r' = r_ref r \<and>
     r_delivery r' = r_delivery r \<and> r_status_sha r' = r_status_sha r \<and> r_labels r' = r_labels r \<and>
     r_created_at r' = r_created_at r"
  by (auto simp: row_step_iff row_defs elim: row_change.cases)

lemma row_step_seq: "row_step r r' \<Longrightarrow> r_status_seq r \<le> r_status_seq r'"
  by (auto simp: row_step_iff row_defs elim!: row_change.cases)

lemma row_step_attempts: "row_step r r' \<Longrightarrow> r_attempts r \<le> r_attempts r'"
  by (auto simp: row_step_iff row_defs elim!: row_change.cases)

lemma terminal_step:
  assumes "db_wf d" and "\<exists>r. row_of d i = Some r \<and> terminal (r_status r) \<and> verdict_of r = v"
  shows "\<exists>r. row_of (queue_step d e) i = Some r \<and> terminal (r_status r) \<and> verdict_of r = v"
proof -
  from assms(2) obtain r where r: "row_of d i = Some r" "terminal (r_status r)" "verdict_of r = v" by blast
  from row_step_step [OF assms(1) r(1)] obtain r'
    where "row_of (queue_step d e) i = Some r'" "row_step r r'" by blast
  with row_step_terminal [of r r'] r show ?thesis by (auto simp: verdict_of_def)
qed

text \<open>
  C1: every queue the store can reach, by any sequence of its operations with any arguments and
  any clock, is well formed: ids and deliveries are unique, a lease exists exactly while a run is
  running, an exit code exactly once it has a verdict of its own, success means exit code zero,
  a parked run has spent every attempt, and the stored log, error and steps are bounded.
\<close>

theorem queue_always_wf: "db_wf (run_steps queue_step schema_db es)"
  by (rule queue.inv_run)

text \<open>
  C2: a verdict is final. Once a reachable queue holds a run as success, failure or dead, no
  later sequence of operations changes its status, its exit code, its log, its steps or its
  attempts.
\<close>

theorem verdict_is_final:
  assumes "row_of (run_steps queue_step schema_db es) i = Some r" and "terminal (r_status r)"
  shows "\<exists>r'. row_of (run_steps queue_step schema_db (es @ fs)) i = Some r' \<and> verdict_of r' = verdict_of r"
proof -
  have "\<exists>q. row_of (run_steps queue_step (run_steps queue_step schema_db es) fs) i = Some q \<and>
      terminal (r_status q) \<and> verdict_of q = verdict_of r"
    by (rule queue.preserved_along
        [where Q = "\<lambda>d. \<exists>q. row_of d i = Some q \<and> terminal (r_status q) \<and> verdict_of q = verdict_of r"])
       (use assms terminal_step queue_always_wf in blast)+
  then show ?thesis by (auto simp: run_steps_append)
qed

section \<open>How often a run is handed out\<close>

definition handed_out :: "string \<Rightarrow> db \<Rightarrow> queue_event \<Rightarrow> bool" where
  "handed_out i d e =
     (case e of
        Claim device labels secs now cap \<Rightarrow>
          (case claim device labels secs now cap d of
             Inr (_, Some j) \<Rightarrow> job_id j = i
           | _ \<Rightarrow> False)
      | _ \<Rightarrow> False)"

fun hand_outs :: "string \<Rightarrow> db \<Rightarrow> queue_event list \<Rightarrow> nat" where
  "hand_outs i d [] = 0"
| "hand_outs i d (e # es) = (if handed_out i d e then 1 else 0) + hand_outs i (queue_step d e) es"

definition attempts_of :: "db \<Rightarrow> string \<Rightarrow> int" where
  "attempts_of d i = (case row_of d i of None \<Rightarrow> 0 | Some r \<Rightarrow> r_attempts r)"

lemma claim_Some:
  assumes "db_wf d" and "claim device labels secs now cap d = Inr (d', Some j)"
  obtains p where
    "row_of d (job_id j) = Some p" "claimable now p" "job_eligible d (set labels) cap p"
    "row_of d' (job_id j) = Some (take_lease device (now + of_int secs) p)"
    "j = row_job (take_lease device (now + of_int secs) p)" "0 < secs"
    "d' = on_jobs (update_where (\<lambda>r. r_id r = job_id j \<and> r_status r = Pending)
            (take_lease device (now + of_int secs))) d"
  using assms(2)
proof (cases rule: claim_cases)
  case none
  then show ?thesis by simp
next
  case (some p)
  have p: "row_of d (r_id p) = Some p"
    unfolding row_of_def by (rule lookup_by_unique [OF db_wf_distinct [OF assms(1)] some(2)])
  have "r_status p = Pending" using some(3) by (simp add: claimable_def)
  then have "row_of d' (r_id p) = Some (take_lease device (now + of_int secs) p)"
    using p by (simp add: some(5) row_of_on_update)
  moreover from this some(6) have "j = row_job (take_lease device (now + of_int secs) p)"
    by (simp add: get_def)
  ultimately show ?thesis using that p some by simp
qed

lemma handed_out_attempts:
  assumes "db_wf d" and "handed_out i d e"
  shows "attempts_of (queue_step d e) i = attempts_of d i + 1"
proof -
  from assms(2) obtain device labels secs now cap d' j
    where e: "e = Claim device labels secs now cap"
      and c: "claim device labels secs now cap d = Inr (d', Some j)" and i: "job_id j = i"
    by (auto simp: handed_out_def split: queue_event.splits sum.splits option.splits)
  from assms(1) c obtain p where "row_of d (job_id j) = Some p"
      "row_of d' (job_id j) = Some (take_lease device (now + of_int secs) p)"
    by (rule claim_Some)
  then show ?thesis
    by (simp add: e c commit_or_def attempts_of_def i [symmetric]) (simp add: take_lease_def)
qed

lemma row_wf_attempts: "row_wf r \<Longrightarrow> 0 \<le> r_attempts r \<and> r_attempts r \<le> MAX_ATTEMPTS"
  by (cases "r_status r") (auto simp: row_wf_def MAX_ATTEMPTS_def)

lemma attempts_bounds:
  assumes "db_wf d"
  shows "0 \<le> attempts_of d i" and "attempts_of d i \<le> MAX_ATTEMPTS"
proof -
  have "0 \<le> attempts_of d i \<and> attempts_of d i \<le> MAX_ATTEMPTS"
  proof (cases "row_of d i")
    case (Some r)
    with row_of_in [OF Some] db_wf_row [OF assms, of r] row_wf_attempts [of r] show ?thesis
      by (simp add: attempts_of_def)
  qed (simp add: attempts_of_def MAX_ATTEMPTS_def)
  then show "0 \<le> attempts_of d i" and "attempts_of d i \<le> MAX_ATTEMPTS" by auto
qed

lemma attempts_mono: "db_wf d \<Longrightarrow> attempts_of d i \<le> attempts_of (queue_step d e) i"
proof (cases "row_of d i")
  case None
  assume "db_wf d"
  from attempts_bounds(1) [OF db_wf_step [OF this]] have "0 \<le> attempts_of (queue_step d e) i" .
  with None show ?thesis by (simp add: attempts_of_def)
next
  case (Some r)
  assume "db_wf d"
  from row_step_step [OF this Some, of e] show ?thesis
    using Some row_step_attempts by (auto simp: attempts_of_def)
qed

lemma hand_outs_le: "db_wf d \<Longrightarrow> int (hand_outs i d es) + attempts_of d i \<le> attempts_of (run_steps queue_step d es) i"
proof (induction es arbitrary: d)
  case (Cons e es)
  have "(if handed_out i d e then 1 else 0) + attempts_of d i \<le> attempts_of (queue_step d e) i"
    using handed_out_attempts [OF Cons.prems] attempts_mono [OF Cons.prems] by auto
  with Cons.IH [OF db_wf_step [OF Cons.prems, of e]] show ?case by (auto split: if_splits)
qed simp

text \<open>
  C38: no run is handed to a device more than \<open>MAX_ATTEMPTS\<close> times, over any sequence of
  operations from an empty queue, so a device that never works cannot cycle a job forever.
\<close>

theorem hand_outs_bounded: "int (hand_outs i schema_db es) \<le> MAX_ATTEMPTS"
proof -
  have "int (hand_outs i schema_db es) \<le> attempts_of (run_steps queue_step schema_db es) i"
    using hand_outs_le [OF db_wf_schema, of i es] by (simp add: attempts_of_def row_of_def schema_db_def)
  also have "\<dots> \<le> MAX_ATTEMPTS" by (rule attempts_bounds(2) [OF queue.inv_run])
  finally show ?thesis .
qed

section \<open>Leases\<close>

lemma holds_lease_iff:
  assumes "distinct (map r_id (jobs d))"
  shows "holds_lease i dev now d \<longleftrightarrow>
    (\<exists>r. row_of d i = Some r \<and> r_status r = Running \<and> r_device r = Some dev \<and> \<not> spent_lease d now r)"
  using lookup_by_distinct_iff [OF assms]
  by (auto simp: holds_lease_def leased_to_def list_ex_iff row_of_def)

lemma spent_lease_frame [simp]:
  "spent_lease (on_jobs f d) = spent_lease d"
  by (rule spent_lease_agents) simp

text \<open>
  A claim that hands out a run grants one exclusive lease: the claiming device holds it, no
  other device holds it at any time, nobody held it before the claim, the run's labels are among
  those the device advertised, and no other run is touched.
\<close>

theorem claim_grants_exclusive_lease:
  assumes "db_wf d" and "claim device labels secs now cap d = Inr (d', Some j)"
  shows "holds_lease (job_id j) device now d' \<and>
    (\<forall>dev t. holds_lease (job_id j) dev t d' \<longrightarrow> dev = device) \<and>
    (\<forall>dev t. \<not> holds_lease (job_id j) dev t d) \<and>
    set (job_labels j) \<subseteq> set labels \<and> job_status_of j = Running \<and>
    (\<forall>i. i \<noteq> job_id j \<longrightarrow> row_of d' i = row_of d i)"
  using assms
proof (rule claim_Some)
  fix p
  let ?q = "take_lease device (now + of_int secs) p"
  assume p: "row_of d (job_id j) = Some p" "claimable now p" "job_eligible d (set labels) cap p"
    and q: "row_of d' (job_id j) = Some ?q" and j: "j = row_job ?q" and secs: "0 < secs"
    and d': "d' = on_jobs (update_where (\<lambda>r. r_id r = job_id j \<and> r_status r = Pending)
                   (take_lease device (now + of_int secs))) d"
  have wf': "db_wf d'" by (rule db_wf_claim [OF assms])
  note hold = holds_lease_iff [OF db_wf_distinct [OF wf']] holds_lease_iff [OF db_wf_distinct [OF assms(1)]]
  have "\<not> spent_lease d' now ?q" using secs by (simp add: spent_lease_def take_lease_def)
  moreover have "row_of d' i = row_of d i" if "i \<noteq> job_id j" for i
    using that row_of_in [of d i] by (cases "row_of d i") (auto simp: d' row_of_on_update)
  ultimately show ?thesis
    using p q by (auto simp: hold claimable_def job_eligible_def j take_lease_def row_job_def)
qed

text \<open>
  One rule decides a lease. For a running run and the device it is leased to, at any instant,
  exactly one of two things is true: the device still holds the lease, a renewal succeeds and a
  report of an exit code is accepted; or the reclaim releases the run.
\<close>

theorem lease_decided_once:
  assumes "db_wf d" and "row_of d i = Some r" and "r_status r = Running" and "r_device r = Some dev"
    and "0 < secs"
  shows "(holds_lease i dev now d \<longleftrightarrow> i \<notin> job_id ` set (snd (reclaim_expired now publish d))) \<and>
    ((\<exists>d'. renew i dev secs now d = Inr (d', True)) \<longleftrightarrow> holds_lease i dev now d) \<and>
    ((\<exists>d'. settle i dev (Some c) now l err ss d = Inr d') \<longleftrightarrow> holds_lease i dev now d)"
proof -
  note dist = db_wf_distinct [OF assms(1)]
  have hold: "holds_lease i dev now d \<longleftrightarrow> \<not> spent_lease d now r"
    using assms(2-4) by (simp add: holds_lease_iff [OF dist])
  have "i \<in> job_id ` set (snd (reclaim_expired now publish d)) \<longleftrightarrow>
      (\<exists>q \<in> set (jobs d). r_id q = i \<and> r_status q = Running \<and> spent_lease d now q)"
    by (auto simp: reclaim_expired_def expire_jobs [OF dist] lapsed_rows_def image_iff)
  moreover have "\<dots> \<longleftrightarrow> spent_lease d now r"
    using row_of_in [OF assms(2)] row_of_eq [OF dist assms(2)] assms(3) by blast
  moreover have "rowcount (leased_to d i dev now) (jobs d) = 1 \<longleftrightarrow> \<not> spent_lease d now r"
    unfolding leased_to_def [abs_def] rowcount_key_eq_1 [OF dist]
    using assms(2-4) by (simp add: row_of_def)
  ultimately show ?thesis
    using assms hold by (auto simp: renew_def settle_def)
qed

text \<open>
  Exactly the holder of an unspent lease can settle a run, and only by stating an exit code
  or a device error: every other report is refused.
\<close>

theorem settle_accepted_iff:
  assumes "db_wf d"
  shows "(\<exists>d'. settle i dev exit_code now l err ss d = Inr d') \<longleftrightarrow>
    holds_lease i dev now d \<and> (err \<noteq> [] \<or> exit_code \<noteq> None)"
  by (cases "row_of d i"; cases exit_code)
     (auto simp: settle_def holds_lease_iff [OF db_wf_distinct [OF assms]])

text \<open>
  What an accepted report records. An exit code is final: success exactly for zero, failure
  otherwise. A device error is never a failed test: the run waits out its backoff or, out of
  attempts, is parked, and keeps no exit code. Either way the lease ends, nothing is owed for an
  earlier loss any more, and the verdict sequence moves by one.
\<close>

theorem settle_records:
  assumes "db_wf d" and "settle i dev exit_code now l err ss d = Inr d'"
  shows "\<exists>r r'. row_of d i = Some r \<and> row_of d' i = Some r' \<and>
    r_lease_expires r' = None \<and> r_pending_status r' = None \<and> r_status_seq r' = r_status_seq r + 1 \<and>
    (if err = [] then r_exit_code r' = exit_code \<and>
                      r_status r' = (if exit_code = Some 0 then Success else Failure)
     else r_exit_code r' = None \<and> r_device r' = None \<and>
          r_status r' = (if r_attempts r < MAX_ATTEMPTS then Pending else Dead) \<and>
          r_available_at r' = Some (now + backoff_seconds (r_attempts r)))"
  using assms(2) db_wf_distinct [OF assms(1)]
proof (cases rule: settle_cases)
  case (error r)
  have "row_wf r" using row_of_in [OF error(1)] db_wf_row [OF assms(1)] by blast
  then have "r_exit_code r = None" using error(2) by (simp add: row_wf_def)
  then show ?thesis
    using error row_of_in [OF error(1)]
    by (auto simp: row_of_on_update release_row_def supersede_row_def parked_def)
next
  case (verdict r c)
  then show ?thesis
    using row_of_in [OF verdict(1)] by (auto simp: row_of_on_update verdict_row_def)
qed

section \<open>Backoff\<close>

lemma backoff_bounds_aux: "BASE_BACKOFF_SECONDS \<le> backoff_seconds a \<and> backoff_seconds a \<le> MAX_BACKOFF_SECONDS"
proof -
  have "(1::real) \<le> 2 ^ nat (max 0 (a - 1))" by simp
  then show ?thesis by (simp add: backoff_seconds_def BASE_BACKOFF_SECONDS_def MAX_BACKOFF_SECONDS_def)
qed

lemma backoff_mono: "a \<le> b \<Longrightarrow> backoff_seconds a \<le> backoff_seconds b"
  by (auto simp: backoff_seconds_def BASE_BACKOFF_SECONDS_def min_le_iff_disj intro!: power_increasing)

text \<open>
  A run the reclaim returns to the queue waits: it is not claimable before its backoff is
  over, it is claimable after it, and the backoff is at least the base, at most the cap and
  never shorter for a later attempt.
\<close>

theorem reclaimed_run_waits:
  assumes "db_wf d" and "row_of d i = Some r" and "r_status r = Running" and "spent_lease d now r"
    and "r_attempts r < MAX_ATTEMPTS"
  shows "\<exists>r'. row_of (fst (reclaim_expired now publish d)) i = Some r' \<and>
      (\<forall>t. claimable t r' \<longleftrightarrow> now + backoff_seconds (r_attempts r) \<le> t) \<and>
      BASE_BACKOFF_SECONDS \<le> backoff_seconds (r_attempts r) \<and>
      backoff_seconds (r_attempts r) \<le> MAX_BACKOFF_SECONDS \<and>
      backoff_seconds (r_attempts r) \<le> backoff_seconds (r_attempts r + 1)"
  using assms backoff_bounds_aux backoff_mono [of "r_attempts r" "r_attempts r + 1"]
  by (auto simp: reclaim_expired_def row_of_expire release_lapsed_def release_row_def parked_def
      claimable_def)

section \<open>Scheduling\<close>

lemma active_count_rowcount:
  "active_count js repo = rowcount (\<lambda>r. r_status r = Running \<and> r_repository r = repo) js"
  by (simp add: active_count_def rowcount_def)

text \<open>
  The run a claim hands out is the least eligible one: fewest running runs of its
  repository first, then the oldest, then the smallest id, whatever order the rows were read in.
  A claim comes back empty exactly when no waiting run is past its backoff, matches the labels
  and is under the repository cap.
\<close>

theorem claim_picks_least:
  assumes "0 < secs" and "\<forall>m. cap = Some m \<longrightarrow> 0 < m"
  shows "(\<exists>d' res. claim device labels secs now cap d = Inr (d', res)) \<and>
    (claim device labels secs now cap d = Inr (d, None) \<longleftrightarrow>
       filter (\<lambda>r. claimable now r \<and> job_eligible d (set labels) cap r) (jobs d) = []) \<and>
    (\<forall>p. pick_job d (order_by r_created_at (filter (claimable now) (jobs d))) (set labels) cap = Some p \<longrightarrow>
       (\<forall>r \<in> set (jobs d). claimable now r \<longrightarrow> job_eligible d (set labels) cap r \<longrightarrow>
          pick_key d p \<le> pick_key d r))"
proof -
  let ?rows = "order_by r_created_at (filter (claimable now) (jobs d))"
  have "pick_job d ?rows (set labels) cap = None \<longleftrightarrow>
      filter (\<lambda>r. claimable now r \<and> job_eligible d (set labels) cap r) (jobs d) = []"
    by (auto simp: pick_job_def filter_empty_conv)
  moreover have "claim device labels secs now cap d = Inr (d, None) \<longleftrightarrow>
      pick_job d ?rows (set labels) cap = None"
  proof (cases "pick_job d ?rows (set labels) cap")
    case (Some p)
    from min_by_in [OF Some [unfolded pick_job_def]] have "p \<in> set (jobs d)" by simp
    then have "row_of d (r_id p) \<noteq> None" by (auto simp: row_of_def lookup_by_None_iff)
    with Some assms show ?thesis
      by (auto simp: claim_def Let_def get_def row_of_on_update split: option.splits)
  qed (use assms in \<open>auto simp: claim_def split: option.splits\<close>)
  moreover have "pick_key d p \<le> pick_key d r"
    if "pick_job d ?rows (set labels) cap = Some p" "r \<in> set (jobs d)" "claimable now r"
      "job_eligible d (set labels) cap r" for p r
    using min_by_le [OF that(1) [unfolded pick_job_def]] that by simp
  moreover have "\<exists>d' res. claim device labels secs now cap d = Inr (d', res)"
    using assms by (auto simp: claim_def Let_def split: option.splits)
  ultimately show ?thesis by (intro conjI allI ballI impI) auto
qed

text \<open>
  The repository cap holds: a claim under a cap leaves the run's repository with at most
  that many running runs, and moves no other repository's count.
\<close>

theorem claim_respects_repository_cap:
  assumes "db_wf d" and "claim device labels secs now (Some m) d = Inr (d', Some j)"
  shows "int (active_count (jobs d') (job_repository j)) \<le> m \<and>
    active_count (jobs d') (job_repository j) = Suc (active_count (jobs d) (job_repository j)) \<and>
    (\<forall>repo. repo \<noteq> job_repository j \<longrightarrow> active_count (jobs d') repo = active_count (jobs d) repo)"
  using assms
proof (rule claim_Some)
  fix p
  let ?upd = "take_lease device (now + of_int secs)"
  assume p: "row_of d (job_id j) = Some p" "claimable now p" "job_eligible d (set labels) (Some m) p"
    and j: "j = row_job (?upd p)"
    and d': "d' = on_jobs (update_where (\<lambda>r. r_id r = job_id j \<and> r_status r = Pending) ?upd) d"
  have id: "job_id j = r_id p" "job_repository j = r_repository p" by (simp_all add: j take_lease_def)
  have pend: "r_status p = Pending" "p \<in> set (jobs d)"
    using p(2) row_of_in [OF p(1)] by (simp_all add: claimable_def)
  have one: "active_count (jobs d') (r_repository p) = Suc (active_count (jobs d) (r_repository p))"
    unfolding active_count_rowcount d' on_jobs_simps id
    by (rule rowcount_update_one [OF db_wf_distinct [OF assms(1)] pend(2)]) (simp_all add: pend(1) take_lease_def)
  moreover have "active_count (jobs d') repo = active_count (jobs d) repo" if "repo \<noteq> r_repository p" for repo
    unfolding active_count_rowcount d' on_jobs_simps id update_where_def rowcount_def filter_map length_map comp_def
    using that pend row_of_eq [OF db_wf_distinct [OF assms(1)] p(1) [unfolded id]]
    by (intro arg_cong [where f = length] filter_cong) (auto simp: take_lease_def)
  ultimately show ?thesis
    using p(3) by (simp add: id job_eligible_def)
qed

section \<open>One job per delivery\<close>

lemma delivery_step:
  assumes "db_wf d" and "\<exists>r. row_of d i = Some r \<and> r_delivery r = Some dv"
  shows "\<exists>r. row_of (queue_step d e) i = Some r \<and> r_delivery r = Some dv"
  using assms row_step_step [OF assms(1)] row_step_identity by metis

lemma delivery_unique:
  assumes "db_wf d" and "r \<in> set (jobs d)" and "q \<in> set (jobs d)"
    and "r_delivery r = Some dv" and "r_delivery q = Some dv"
  shows "r = q"
proof -
  have "distinct (delivery_keys js) \<Longrightarrow> r \<in> set js \<Longrightarrow> q \<in> set js \<Longrightarrow> r = q" for js
    using assms(4,5)
    by (induction js) (auto simp: set_delivery_keys split: option.splits, (metis image_eqI)+)
  then show ?thesis using assms(1-3) by (auto simp: db_wf_def)
qed

text \<open>
  A webhook delivery queues one job. After a delivery has been queued, any later enqueue of
  the same delivery, whatever happened to the queue in between, changes nothing and answers with
  the job the first one created.
\<close>

theorem enqueue_once_per_delivery:
  assumes "db_wf d" and "dv \<noteq> []"
    and "enqueue i repo sha rf cmd lbs tmo (Some dv) ssha now d = Inr (d1, j1)"
    and "d2 = run_steps queue_step d1 fs" and "sha2 \<noteq> []"
  shows "\<exists>j2. enqueue i2 repo2 sha2 rf2 cmd2 lbs2 tmo2 (Some dv) ssha2 now2 d2 = Inr (d2, j2) \<and>
    job_id j2 = job_id j1"
proof -
  have wf1: "db_wf d1" by (rule db_wf_enqueue [OF assms(1,3)])
  have "\<exists>r. row_of d1 (job_id j1) = Some r \<and> r_delivery r = Some dv"
  proof (cases "i \<in> r_id ` set (jobs d) \<or> Some dv \<in> r_delivery ` set (jobs d)")
    case True
    with assms(3) obtain r where "find (\<lambda>r. r_delivery r = Some dv) (jobs d) = Some r" "d1 = d" "j1 = row_job r"
      by (auto simp: enqueue_def split: if_splits option.splits)
    then show ?thesis
      using lookup_by_unique [OF db_wf_distinct [OF assms(1)]]
      by (auto simp: row_of_def find_Some_iff)
  next
    case False
    let ?r = "new_row i repo sha rf cmd lbs tmo (Some dv) ssha now"
    from False assms(3) have "d1 = on_jobs (\<lambda>js. js @ [?r]) d" "j1 = row_job ?r"
      by (auto simp: enqueue_def Let_def split: if_splits)
    moreover have "lookup_by r_id i (jobs d) = None" using False by (simp add: lookup_by_None_iff)
    ultimately have "row_of d1 (job_id j1) = Some ?r"
      by (simp add: row_of_def lookup_by_append lookup_by_Cons new_row_def)
    then show ?thesis by (simp add: new_row_def)
  qed
  then have "\<exists>r. row_of d2 (job_id j1) = Some r \<and> r_delivery r = Some dv"
    unfolding assms(4) by (rule queue.preserved_along [OF _ wf1, rotated]) (rule delivery_step)
  then obtain r where r: "row_of d2 (job_id j1) = Some r" "r_delivery r = Some dv" by blast
  have in2: "r \<in> set (jobs d2)" "r_id r = job_id j1" using row_of_in [OF r(1)] by auto
  have wf2: "db_wf d2" unfolding assms(4) by (rule queue.inv_run_from [OF wf1])
  obtain q where q: "find (\<lambda>r. r_delivery r = Some dv) (jobs d2) = Some q"
    using in2(1) r(2) by (cases "find (\<lambda>r. r_delivery r = Some dv) (jobs d2)") (auto simp: find_None_iff)
  then have "q \<in> set (jobs d2)" "r_delivery q = Some dv" by (auto simp: find_Some_iff)
  then have "q = r" using delivery_unique [OF wf2 _ in2(1) _ r(2)] by blast
  with q show ?thesis
    using assms(2,5) in2 r(2) by (auto simp: enqueue_def image_iff)
qed

section \<open>A concrete queue\<close>

text \<open>One queued run, and the same run leased to a device; both are reached by the store.\<close>

definition example_row :: job_row where
  "example_row = new_row ''j1'' ''o/r'' ''c0ffee'' ''refs/heads/main'' [] [''linux''] 3600 (Some ''d1'') None 100"

definition example_queue :: db where
  "example_queue = run_steps queue_step schema_db
     [Enqueue ''j1'' ''o/r'' ''c0ffee'' ''refs/heads/main'' [] [''linux''] 3600 (Some ''d1'') None 100]"

definition example_leased :: db where
  "example_leased = run_steps queue_step example_queue [Claim ''dev'' [''linux''] 300 200 (Some 2)]"

lemma example_queue_eq: "example_queue = schema_db\<lparr>jobs := [example_row]\<rparr>"
  by (simp add: example_queue_def enqueue_def Let_def commit_or_def schema_db_def on_jobs_def example_row_def)

lemma example_enqueue:
  "enqueue ''j1'' ''o/r'' ''c0ffee'' ''refs/heads/main'' [] [''linux''] 3600 (Some ''d1'') None 100 schema_db
   = Inr (example_queue, row_job example_row)"
  by (simp add: example_queue_eq enqueue_def Let_def schema_db_def on_jobs_def example_row_def)

lemma example_wf: "db_wf example_queue" "db_wf example_leased"
  unfolding example_leased_def example_queue_def
  by (rule queue.inv_run, rule queue.inv_run_from, rule queue.inv_run)

lemma example_eligible: "claimable 200 example_row" "job_eligible example_queue {''linux''} (Some 2) example_row"
  by (simp_all add: claimable_def job_eligible_def example_row_def new_row_def example_queue_eq active_count_def)

lemma example_claim:
  "claim ''dev'' [''linux''] 300 200 (Some 2) example_queue =
     Inr (example_queue\<lparr>jobs := [take_lease ''dev'' 500 example_row]\<rparr>,
          Some (row_job (take_lease ''dev'' 500 example_row)))"
  using example_eligible
  by (simp add: claim_def pick_job_def min_by_def example_queue_eq schema_db_def on_jobs_def update_where_def
      get_def row_of_def lookup_by_def example_row_def new_row_def take_lease_def)

lemma example_leased_eq: "example_leased = example_queue\<lparr>jobs := [take_lease ''dev'' 500 example_row]\<rparr>"
  by (simp add: example_leased_def example_claim commit_or_def)

lemma example_leased_row:
  "row_of example_leased ''j1'' = Some (take_lease ''dev'' 500 example_row)"
  "r_status (take_lease ''dev'' 500 example_row) = Running"
  "r_device (take_lease ''dev'' 500 example_row) = Some ''dev''"
  "r_attempts (take_lease ''dev'' 500 example_row) < MAX_ATTEMPTS"
  "spent_lease example_leased 600 (take_lease ''dev'' 500 example_row)"
  by (simp_all add: example_leased_eq row_of_def lookup_by_def take_lease_def example_row_def new_row_def
      spent_lease_def MAX_ATTEMPTS_def LIVE_DEVICE_GRACE_SECONDS_def)

theorem claim_grants_exclusive_lease_witness:
  "\<exists>d' j. claim ''dev'' [''linux''] 300 200 (Some 2) example_queue = Inr (d', Some j) \<and>
     holds_lease (job_id j) ''dev'' 200 d'"
  using example_claim claim_grants_exclusive_lease [OF example_wf(1) example_claim] by blast

theorem lease_decided_once_witness:
  "row_of example_leased ''j1'' \<noteq> None \<and>
   (holds_lease ''j1'' ''dev'' 600 example_leased \<longleftrightarrow>
      ''j1'' \<notin> job_id ` set (snd (reclaim_expired 600 None example_leased)))"
  using lease_decided_once [OF example_wf(2) example_leased_row(1-3), of 300 600 None 0 "[]" "[]" "[]"]
    example_leased_row(1) by simp

theorem settle_accepted_iff_witness:
  "db_wf example_leased \<and>
   ((\<exists>d'. settle ''j1'' ''dev'' None 300 [] [] [] example_leased = Inr d') \<longleftrightarrow> False)"
  using settle_accepted_iff [OF example_wf(2), of "''j1''" "''dev''" None 300 "[]" "[]" "[]"] example_wf(2)
  by simp

lemma example_settle:
  "\<exists>d'. settle ''j1'' ''dev'' (Some 0) 300 [] [] [] example_leased = Inr d'"
  using example_leased_row by (simp add: settle_def spent_lease_def take_lease_def)

theorem settle_records_witness:
  "\<exists>d' r'. settle ''j1'' ''dev'' (Some 0) 300 [] [] [] example_leased = Inr d' \<and>
     row_of d' ''j1'' = Some r' \<and> r_status r' = Success"
proof -
  obtain d' where d': "settle ''j1'' ''dev'' (Some 0) 300 [] [] [] example_leased = Inr d'"
    using example_settle by blast
  with settle_records [OF example_wf(2) d'] show ?thesis by auto
qed

theorem verdict_is_final_witness:
  "\<exists>d' r'. settle ''j1'' ''dev'' (Some 0) 300 [] [] [] example_leased = Inr d' \<and>
     row_of (queue_step d' (Owe ''j1'' (Other_Text ''x''))) ''j1'' = Some r' \<and> r_status r' = Success"
proof -
  let ?ev = "[Enqueue ''j1'' ''o/r'' ''c0ffee'' ''refs/heads/main'' [] [''linux''] 3600 (Some ''d1'') None 100,
      Claim ''dev'' [''linux''] 300 200 (Some 2), Report ''j1'' ''dev'' (Some 0) 300 [] [] []]"
  let ?d = "on_jobs (update_where (\<lambda>r. r_id r = ''j1'') (verdict_row 0 [] [])) example_leased"
  let ?r = "verdict_row 0 [] [] (take_lease ''dev'' 500 example_row)"
  have s: "settle ''j1'' ''dev'' (Some 0) 300 [] [] [] example_leased = Inr ?d"
    using example_leased_row by (simp add: settle_def spent_lease_def take_lease_def)
  have run: "run_steps queue_step schema_db ?ev = ?d"
    using s example_leased_def example_queue_def by (simp add: report_def commit_or_def)
  have row: "row_of ?d ''j1'' = Some ?r"
    using example_leased_row(1) by (simp add: row_of_on_update) (simp add: take_lease_def example_row_def new_row_def)
  from verdict_is_final [of ?ev "''j1''" ?r "[Owe ''j1'' (Other_Text ''x'')]"] row
  have "\<exists>r'. row_of (queue_step ?d (Owe ''j1'' (Other_Text ''x''))) ''j1'' = Some r' \<and> verdict_of r' = verdict_of ?r"
    unfolding run_steps_append run by (simp add: terminal_def verdict_row_def)
  with s show ?thesis by (auto simp: verdict_of_def verdict_row_def)
qed

theorem reclaimed_run_waits_witness:
  "\<exists>r'. row_of (fst (reclaim_expired 600 None example_leased)) ''j1'' = Some r' \<and> \<not> claimable 629 r'"
proof -
  have "backoff_seconds (r_attempts (take_lease ''dev'' 500 example_row)) = 30"
    by (simp add: take_lease_def example_row_def new_row_def backoff_seconds_def
        BASE_BACKOFF_SECONDS_def MAX_BACKOFF_SECONDS_def)
  with reclaimed_run_waits [OF example_wf(2) example_leased_row(1,2,5,4), of None] show ?thesis
    by auto
qed

theorem claim_picks_least_witness:
  "\<exists>d' res. claim ''dev'' [''linux''] 300 200 (Some 2) example_queue = Inr (d', res)"
  using claim_picks_least [of 300 "Some 2" "''dev''" "[''linux'']" 200 example_queue] by simp

theorem claim_respects_repository_cap_witness:
  "\<exists>d' j. claim ''dev'' [''linux''] 300 200 (Some 2) example_queue = Inr (d', Some j) \<and>
     int (active_count (jobs d') (job_repository j)) \<le> 2"
  using example_claim claim_respects_repository_cap [OF example_wf(1) example_claim] by blast

theorem enqueue_once_per_delivery_witness:
  "\<exists>j2. enqueue ''j2'' ''o/r'' ''beef'' ''r'' [] [] 60 (Some ''d1'') None 900 example_leased = Inr (example_leased, j2) \<and>
     job_id j2 = ''j1''"
  using enqueue_once_per_delivery [OF db_wf_schema _ example_enqueue, of example_leased
      "[Claim ''dev'' [''linux''] 300 200 (Some 2)]" "''beef''" "''j2''" "''o/r''" "''r''" "[]" "[]" 60 None 900]
  by (simp add: example_leased_def example_row_def new_row_def)

end
