(* ===== verification/Status_Drain.thy ===== *)
theory Status_Drain
  imports Queue_Properties
begin

text \<open>
  How a verdict reaches its commit: the text of a commit status (\<open>status_text.py\<close>), the drain that
  posts what the queue owes and the tick that releases and drains (\<open>lease_reclaim.py\<close>), and the
  claim, renew and report endpoints (\<open>jobapi.py\<close>). The drain is written over the \<open>JobQueue\<close>
  protocol, a record of the operations it calls; the locale \<open>verdict_queue\<close> states what the
  protocol promises and is interpreted on the store. The interleaving of several drains, reports
  and store operations is a transition system over that protocol.
\<close>

section \<open>Status text\<close>

definition MAX_STATUS_DESCRIPTION :: nat where "MAX_STATUS_DESCRIPTION = 140"

definition bounded_description :: "string \<Rightarrow> string" where
  "bounded_description s = take MAX_STATUS_DESCRIPTION s"

definition status_step_marker :: "string \<Rightarrow> (string \<times> string) option" where
  "status_step_marker line =
     (case strip_prefix ''cindral: step '' line of None \<Rightarrow> None
      | Some s \<Rightarrow>
         (let ds = takeWhile is_digit s; s2 = dropWhile is_digit s;
              s3 = (case strip_prefix '' '' s2 of
                      Some t \<Rightarrow> if length t \<ge> 32 \<and> list_all is_hex (take 32 t) then drop 32 t else s2
                    | None \<Rightarrow> s2)
          in if ds = [] then None else map_option (Pair ds) (strip_prefix '': '' s3)))"

definition diagnostic_marker :: "string \<Rightarrow> string option" where
  "diagnostic_marker line =
     (case strip_prefix ''cindral: '' line of None \<Rightarrow> None
      | Some s \<Rightarrow> if prefix ''step '' s then None else Some s)"

definition failure_detail :: "string \<Rightarrow> step list \<Rightarrow> string" where
  "failure_detail log_text steps =
     (case unfinished_step steps of
        Some s \<Rightarrow> ''step '' @ int_str (st_index s) @ '': '' @ strip (st_name s)
      | None \<Rightarrow>
         (let ls = split_lines log_text; markers = List.map_filter status_step_marker ls;
              diagnostics = List.map_filter diagnostic_marker ls in
          if markers \<noteq> [] then ''step '' @ fst (last markers) @ '': '' @ strip (snd (last markers))
          else if diagnostics \<noteq> [] then strip (last diagnostics) else []))"

definition failure_description :: "int \<Rightarrow> string \<Rightarrow> step list \<Rightarrow> string" where
  "failure_description exit_code log_text steps =
     (let summary = ''device pool run failed (exit '' @ int_str exit_code @ '')'';
          detail = failure_detail log_text steps
      in if detail \<noteq> [] then bounded_description (summary @ '': '' @ detail) else summary)"

definition lost_description :: "job \<Rightarrow> string \<Rightarrow> string \<times> string" where
  "lost_description j error =
     (if parked (job_attempts j)
      then (''error'', bounded_description
              (''device pool run lost after '' @ int_str (job_attempts j) @ '' attempts: '' @ error))
      else (''pending'', bounded_description
              (''device pool run lost, retry '' @ int_str (job_attempts j + 1) @ '' of '' @
               int_str MAX_ATTEMPTS @ '': '' @ error)))"

definition json_status :: "string \<times> string \<Rightarrow> owed_text" where
  "json_status p = Json_Pair (fst p) (snd p)"

section \<open>The queue protocol and the drain\<close>

type_synonym owed_item = "job \<times> owed_text \<times> int"
type_synonym posted = "string \<times> int \<times> owed_text"

text \<open>The operations of \<open>JobQueue\<close>, on a store of any type.\<close>

record 'd job_queue =
  q_reclaim_expired :: "real \<Rightarrow> (job \<Rightarrow> owed_text) option \<Rightarrow> 'd \<Rightarrow> 'd \<times> job list"
  q_claim_owed :: "'d \<Rightarrow> 'd \<times> owed_item list"
  q_restore_status :: "string \<Rightarrow> owed_text \<Rightarrow> int \<Rightarrow> 'd \<Rightarrow> 'd"
  q_status_seq :: "'d \<Rightarrow> string \<Rightarrow> int"

definition job_store :: "db job_queue" where
  "job_store = \<lparr>q_reclaim_expired = reclaim_expired, q_claim_owed = claim_owed,
                q_restore_status = restore_status, q_status_seq = current_seq\<rparr>"

text \<open>
  What one call of \<open>post_if_current\<close> did: it posted, found the verdict superseded, put it back
  after the publisher raised, or raised because the text does not decode. The publisher is an
  argument that answers whether the post was accepted.
\<close>

datatype post_result = Posted | Superseded | Put_Back | Unreadable

definition post_if_current ::
  "'d job_queue \<Rightarrow> (job \<Rightarrow> string \<Rightarrow> string \<Rightarrow> bool) \<Rightarrow> owed_item \<Rightarrow> 'd \<Rightarrow> 'd \<times> post_result" where
  "post_if_current q publish it d =
     (case it of (j, tx, seq) \<Rightarrow>
       (case tx of
          Other_Text _ \<Rightarrow> (d, Unreadable)
        | Json_Pair state description \<Rightarrow>
            if q_status_seq q d (job_id j) \<noteq> seq then (d, Superseded)
            else if publish j state description then (d, Posted)
            else (q_restore_status q (job_id j) tx seq d, Put_Back)))"

definition restore_item :: "'d job_queue \<Rightarrow> owed_item \<Rightarrow> 'd \<Rightarrow> 'd" where
  "restore_item q it d = (case it of (j, tx, seq) \<Rightarrow> q_restore_status q (job_id j) tx seq d)"

definition post_of :: "owed_item \<Rightarrow> posted" where
  "post_of it = (case it of (j, tx, seq) \<Rightarrow> (job_id j, seq, tx))"

definition check_accepts :: "(job \<Rightarrow> bool) option \<Rightarrow> owed_item \<Rightarrow> bool" where
  "check_accepts check it = (case check of None \<Rightarrow> True | Some c \<Rightarrow> c (fst it))"

fun drain_items ::
  "'d job_queue \<Rightarrow> (job \<Rightarrow> string \<Rightarrow> string \<Rightarrow> bool) \<Rightarrow> (job \<Rightarrow> bool) option \<Rightarrow> owed_item list \<Rightarrow> 'd \<Rightarrow>
   'd \<times> posted list" where
  "drain_items q publish check [] d = (d, [])"
| "drain_items q publish check (it # items) d =
     (let (d1, r) = post_if_current q publish it d;
          raised = (r = Unreadable \<or> r = Posted \<and> \<not> check_accepts check it);
          d2 = (if raised then restore_item q it d1 else d1);
          (d3, posts) = drain_items q publish check items d2
      in (d3, (if r = Posted then [post_of it] else []) @ posts))"

definition drain_owed ::
  "'d job_queue \<Rightarrow> (job \<Rightarrow> string \<Rightarrow> string \<Rightarrow> bool) \<Rightarrow> (job \<Rightarrow> bool) option \<Rightarrow> 'd \<Rightarrow> 'd \<times> posted list" where
  "drain_owed q publish check d =
     (let (d1, items) = q_claim_owed q d in drain_items q publish check items d1)"

text \<open>
  A release and the artifacts it discards, in the order the code discards them: the discard is
  best effort and never raises, so only which runs it is asked to discard matters here.
\<close>

definition release_expired ::
  "'d job_queue \<Rightarrow> (job \<Rightarrow> owed_text) option \<Rightarrow> real \<Rightarrow> bool \<Rightarrow> 'd \<Rightarrow> 'd \<times> job list \<times> string list" where
  "release_expired q publish now discards d =
     (let text_of = (case publish of Some p \<Rightarrow> p | None \<Rightarrow> (\<lambda>j. json_status (lost_description j LEASE_LOST)));
          (d1, released) = q_reclaim_expired q now (Some text_of) d
      in (d1, released, if discards then map job_id released else []))"

definition reclaim_tick ::
  "'d job_queue \<Rightarrow> (job \<Rightarrow> string \<Rightarrow> string \<Rightarrow> bool) \<Rightarrow> real \<Rightarrow> (job \<Rightarrow> bool) option \<Rightarrow> bool \<Rightarrow> 'd \<Rightarrow>
   'd \<times> nat \<times> posted list" where
  "reclaim_tick q publish now check discards d =
     (let (d1, released, _) = release_expired q None now discards d;
          (d2, posts) = drain_owed q publish check d1
      in (d2, length released, posts))"

section \<open>The agent endpoints\<close>

datatype 'a response = Sent nat 'a | Refused nat string

text \<open>\<open>_jobs\<close> answers a \<open>ValueError\<close>, a \<open>KeyError\<close> or a \<open>TypeError\<close> with 400; any other exception leaves the handler.\<close>

fun error_response :: "py_exn \<Rightarrow> 'a response" where
  "error_response (ValueError m) = Refused 400 m"
| "error_response (KeyError k) = Refused 400 ([CHR 0x27] @ k @ [CHR 0x27])"
| "error_response (TypeError m) = Refused 400 m"
| "error_response _ = Refused 500 []"

definition lease_refusal :: "'a response" where
  "lease_refusal = Refused 409 ''job is not leased to this device''"

definition token_refusal :: "'a response" where
  "token_refusal = Refused 401 ''this token does not speak for that device''"

text \<open>
  \<open>_claim\<close>: releases and drains first, then checks that the token speaks for the device, then
  hands out a run. The publisher and the check are the server's, and \<open>speaks\<close> is the
  authorization the request carries.
\<close>

definition claim_endpoint ::
  "(job \<Rightarrow> string \<Rightarrow> string \<Rightarrow> bool) \<Rightarrow> (job \<Rightarrow> bool) option \<Rightarrow> (string \<Rightarrow> bool) \<Rightarrow> string \<Rightarrow> string list \<Rightarrow> int \<Rightarrow>
   int option \<Rightarrow> real \<Rightarrow> real \<Rightarrow> db \<Rightarrow> db \<times> posted list \<times> job option response" where
  "claim_endpoint publish check speaks device labels lease cap released_at now d =
     (let (d1, _, _) = release_expired job_store None released_at True d;
          (d2, posts) = drain_owed job_store publish check d1
      in if \<not> speaks device then (d2, posts, token_refusal)
         else (case claim device labels lease now cap d2 of
                 Inl e \<Rightarrow> (d2, posts, error_response e)
               | Inr (d3, None) \<Rightarrow> (d3, posts, Sent 204 None)
               | Inr (d3, Some j) \<Rightarrow> (d3, posts, Sent 200 (Some j))))"

definition renew_endpoint ::
  "(string \<Rightarrow> bool) \<Rightarrow> string \<Rightarrow> string \<Rightarrow> int \<Rightarrow> real \<Rightarrow> db \<Rightarrow> db \<times> string response" where
  "renew_endpoint speaks i device lease now d =
     (if \<not> speaks device then (d, token_refusal)
      else (case renew i device lease now d of
              Inl e \<Rightarrow> (d, error_response e)
            | Inr (d', ok) \<Rightarrow> (d', if ok then Sent 200 i else lease_refusal)))"

text \<open>
  \<open>_report\<close>: the row settles first, then the status goes out or is owed, both inside the lock that
  orders verdicts. \<open>github\<close> is None for a broker without a GitHub client, and otherwise answers
  whether a post is accepted. The clock is read twice: for \<open>holds_lease\<close> and for the report.
\<close>

definition report_status :: "job \<Rightarrow> string \<Rightarrow> int option \<Rightarrow> string \<Rightarrow> step list \<Rightarrow> string \<times> string" where
  "report_status j error exit_code log_text steps =
     (if error \<noteq> [] then lost_description j error
      else (case exit_code of
              Some c \<Rightarrow> if c = 0 then (''success'', ''device pool run passed'')
                        else (''failure'', failure_description c log_text steps)
            | None \<Rightarrow> (''failure'', [])))"

definition settle_and_post ::
  "(job \<Rightarrow> string \<Rightarrow> string \<Rightarrow> bool) option \<Rightarrow> string \<Rightarrow> string \<times> string \<Rightarrow> db \<Rightarrow> db \<times> posted list" where
  "settle_and_post github i status d =
     (case (github, get d i) of
        (Some publish, Some j) \<Rightarrow>
           if publish j (fst status) (snd status)
           then (d, [(i, current_seq d i, json_status status)])
           else (owe_status i (json_status status) d, [])
      | _ \<Rightarrow> (d, []))"

definition report_refusal :: "py_exn \<Rightarrow> 'a response" where
  "report_refusal e = (case e of ValueError m \<Rightarrow> Refused 409 m | _ \<Rightarrow> error_response e)"

definition conclude_report ::
  "(job \<Rightarrow> string \<Rightarrow> string \<Rightarrow> bool) option \<Rightarrow> string \<Rightarrow> string \<times> string \<Rightarrow> db \<Rightarrow> (db \<times> job option) result \<Rightarrow>
   db \<times> posted list \<times> job option response" where
  "conclude_report github i status d recorded =
     (case recorded of
        Inl e \<Rightarrow> (d, [], report_refusal e)
      | Inr (d1, _) \<Rightarrow>
          (let (d2, posts) = settle_and_post github i status d1 in (d2, posts, Sent 200 (get d1 i))))"

definition report_endpoint ::
  "(job \<Rightarrow> string \<Rightarrow> string \<Rightarrow> bool) option \<Rightarrow> (string \<Rightarrow> bool) \<Rightarrow> string \<Rightarrow> string \<Rightarrow> string \<Rightarrow> int option \<Rightarrow>
   string \<Rightarrow> json \<Rightarrow> real \<Rightarrow> real \<Rightarrow> db \<Rightarrow> db \<times> posted list \<times> job option response" where
  "report_endpoint github speaks i device raw_error reported log_text raw_steps checked_at now d =
     (case get d i of
        None \<Rightarrow> (d, [], Refused 404 ''unknown job'')
      | Some j \<Rightarrow>
         (let error = strip raw_error;
              exit_code = (if error \<noteq> [] then None else reported);
              steps = encode_steps raw_steps
          in if error = [] \<and> reported = None
             then (d, [], Refused 400 ''a report needs an exit code or a device error'')
             else if \<not> speaks device then (d, [], token_refusal)
             else if \<not> holds_lease i device checked_at d then (d, [], lease_refusal)
             else conclude_report github i (report_status j error exit_code log_text steps) d
                    (report i device exit_code now log_text error (map step_as_dict steps) d)))"

section \<open>Interleaved drains\<close>

text \<open>
  Several threads drain, report and use the store at once. \<open>ds_hand\<close> holds the verdicts the
  drains have taken out of the queue and not yet posted, \<open>ds_after\<close> those whose post is over and
  whose check is still to close (marked True) or whose text did not decode (marked False), and
  \<open>ds_posts\<close> what the commits have been told, oldest first. Everything under \<open>status_lock\<close> is one
  step; a step names the thread's verdict by its position.
\<close>

record 'd drain_state =
  ds_store :: 'd
  ds_hand :: "owed_item list"
  ds_after :: "(owed_item \<times> bool) list"
  ds_posts :: "posted list"

datatype ('e, 'r) drain_event =
    Store 'e
  | Take
  | Post nat bool
  | Finish nat bool
  | Endpoint 'r bool

definition remove_nth :: "nat \<Rightarrow> 'a list \<Rightarrow> 'a list" where
  "remove_nth k xs = take k xs @ drop (Suc k) xs"

text \<open>
  The verdict-writing half of the report endpoint, over any store: \<open>verdict\<close> settles a run or
  refuses, and \<open>owe\<close> records a status that could not be posted.
\<close>

definition endpoint_step ::
  "'d job_queue \<Rightarrow> ('r \<Rightarrow> 'd \<Rightarrow> ('d \<times> string \<times> owed_text) option) \<Rightarrow> (string \<Rightarrow> owed_text \<Rightarrow> 'd \<Rightarrow> 'd) \<Rightarrow>
   'r \<Rightarrow> bool \<Rightarrow> 'd drain_state \<Rightarrow> 'd drain_state" where
  "endpoint_step q verdict owe r accepted s =
     (case verdict r (ds_store s) of
        None \<Rightarrow> s
      | Some (d', i, tx) \<Rightarrow>
         if accepted then s\<lparr>ds_store := d', ds_posts := ds_posts s @ [(i, q_status_seq q d' i, tx)]\<rparr>
         else s\<lparr>ds_store := owe i tx d'\<rparr>)"

definition post_step :: "'d job_queue \<Rightarrow> nat \<Rightarrow> bool \<Rightarrow> 'd drain_state \<Rightarrow> 'd drain_state" where
  "post_step q k accepted s =
     (if k < length (ds_hand s)
      then let it = ds_hand s ! k;
               (d', r) = post_if_current q (\<lambda>_ _ _. accepted) it (ds_store s);
               s' = s\<lparr>ds_store := d', ds_hand := remove_nth k (ds_hand s)\<rparr>
           in (case r of
                 Posted \<Rightarrow> s'\<lparr>ds_posts := ds_posts s @ [post_of it], ds_after := ds_after s @ [(it, True)]\<rparr>
               | Unreadable \<Rightarrow> s'\<lparr>ds_after := ds_after s @ [(it, False)]\<rparr>
               | _ \<Rightarrow> s')
      else s)"

definition finish_step :: "'d job_queue \<Rightarrow> nat \<Rightarrow> bool \<Rightarrow> 'd drain_state \<Rightarrow> 'd drain_state" where
  "finish_step q k accepted s =
     (if k < length (ds_after s)
      then let (it, was_posted) = ds_after s ! k;
               d' = (if was_posted \<and> accepted then ds_store s else restore_item q it (ds_store s))
           in s\<lparr>ds_store := d', ds_after := remove_nth k (ds_after s)\<rparr>
      else s)"

fun drain_step ::
  "'d job_queue \<Rightarrow> ('d \<Rightarrow> 'e \<Rightarrow> 'd) \<Rightarrow> ('r \<Rightarrow> 'd \<Rightarrow> ('d \<times> string \<times> owed_text) option) \<Rightarrow>
   (string \<Rightarrow> owed_text \<Rightarrow> 'd \<Rightarrow> 'd) \<Rightarrow> 'd drain_state \<Rightarrow> ('e, 'r) drain_event \<Rightarrow> 'd drain_state" where
  "drain_step q step verdict owe s (Store e) = s\<lparr>ds_store := step (ds_store s) e\<rparr>"
| "drain_step q step verdict owe s Take =
     (let (d', items) = q_claim_owed q (ds_store s) in s\<lparr>ds_store := d', ds_hand := ds_hand s @ items\<rparr>)"
| "drain_step q step verdict owe s (Post k accepted) = post_step q k accepted s"
| "drain_step q step verdict owe s (Finish k accepted) = finish_step q k accepted s"
| "drain_step q step verdict owe s (Endpoint r accepted) = endpoint_step q verdict owe r accepted s"

definition drain_start :: "'d \<Rightarrow> 'd drain_state" where
  "drain_start d = \<lparr>ds_store = d, ds_hand = [], ds_after = [], ds_posts = []\<rparr>"

lemma set_remove_nth: "x \<in> set (remove_nth k xs) \<Longrightarrow> x \<in> set xs"
  by (auto simp: remove_nth_def dest: in_set_takeD in_set_dropD)

lemma set_nth_remove_nth: "k < length xs \<Longrightarrow> set xs = insert (xs ! k) (set (remove_nth k xs))"
  by (subst id_take_nth_drop [of k xs]) (auto simp: remove_nth_def)

lemma filter_remove_nth:
  "k < length xs \<Longrightarrow>
    length (filter P (remove_nth k xs)) = length (filter P xs) - (if P (xs ! k) then 1 else 0)"
  by (subst (2) id_take_nth_drop [of k xs]) (auto simp: remove_nth_def)


section \<open>What the protocol promises, and what the drains make of it\<close>

definition queue_moves ::
  "'d job_queue \<Rightarrow> ('d \<Rightarrow> string \<Rightarrow> owed_text option) \<Rightarrow> ('d \<Rightarrow> string \<Rightarrow> bool) \<Rightarrow> 'd \<Rightarrow> 'd \<Rightarrow> bool" where
  "queue_moves q owed known d d' \<longleftrightarrow>
     (\<forall>i. (q_status_seq q d i < q_status_seq q d' i \<or>
           q_status_seq q d i = q_status_seq q d' i \<and> owed d' i = owed d i) \<and>
          (known d i \<longrightarrow> known d' i))"

definition owed_set :: "'d job_queue \<Rightarrow> ('d \<Rightarrow> string \<Rightarrow> owed_text option) \<Rightarrow> 'd \<Rightarrow> posted set" where
  "owed_set q owed d = {(i, n, t). owed d i = Some t \<and> n = q_status_seq q d i}"

text \<open>A verdict is in play while it is owed, held by a drain, or posted.\<close>

definition in_play :: "'d job_queue \<Rightarrow> ('d \<Rightarrow> string \<Rightarrow> owed_text option) \<Rightarrow> 'd drain_state \<Rightarrow> posted set" where
  "in_play q owed s = owed_set q owed (ds_store s) \<union> post_of ` set (ds_hand s) \<union>
     (post_of \<circ> fst) ` set (ds_after s) \<union> set (ds_posts s)"

definition posts_to :: "string \<Rightarrow> 'd drain_state \<Rightarrow> int list" where
  "posts_to i s = map (\<lambda>p. fst (snd p)) (filter (\<lambda>p. fst p = i) (ds_posts s))"

text \<open>The verdicts of a run at its current sequence number that can still lead to a post, or did.\<close>

definition current_tokens :: "int \<Rightarrow> string \<Rightarrow> 'd drain_state \<Rightarrow> nat" where
  "current_tokens n i s =
     length (filter (\<lambda>it. fst (post_of it) = i \<and> fst (snd (post_of it)) = n) (ds_hand s)) +
     length (filter (\<lambda>x. \<not> snd x \<and> fst (post_of (fst x)) = i \<and> fst (snd (post_of (fst x))) = n) (ds_after s)) +
     length (filter (\<lambda>p. fst p = i \<and> fst (snd p) = n) (ds_posts s))"

fun refuses_check :: "('e, 'r) drain_event \<Rightarrow> bool" where
  "refuses_check (Finish _ accepted) = (\<not> accepted)"
| "refuses_check _ = False"

locale verdict_queue =
  fixes q :: "'d job_queue" and start :: "'d" and step :: "'d \<Rightarrow> 'e \<Rightarrow> 'd"
    and verdict :: "'r \<Rightarrow> 'd \<Rightarrow> ('d \<times> string \<times> owed_text) option"
    and owe :: "string \<Rightarrow> owed_text \<Rightarrow> 'd \<Rightarrow> 'd"
    and ok :: "'d \<Rightarrow> bool" and owed :: "'d \<Rightarrow> string \<Rightarrow> owed_text option"
    and known :: "'d \<Rightarrow> string \<Rightarrow> bool"
  assumes start_ok: "ok start"
    and step_ok: "ok d \<Longrightarrow> ok (step d e)"
    and step_moves: "ok d \<Longrightarrow> queue_moves q owed known d (step d e)"
    and owed_known: "owed d i = Some t \<Longrightarrow> known d i"
    and take_ok: "ok d \<Longrightarrow> ok (fst (q_claim_owed q d))"
    and take_seq: "ok d \<Longrightarrow> q_status_seq q (fst (q_claim_owed q d)) = q_status_seq q d"
    and take_known: "ok d \<Longrightarrow> known (fst (q_claim_owed q d)) = known d"
    and take_clears: "ok d \<Longrightarrow> owed (fst (q_claim_owed q d)) i = None"
    and take_items: "ok d \<Longrightarrow> post_of ` set (snd (q_claim_owed q d)) = owed_set q owed d"
    and take_distinct: "ok d \<Longrightarrow> distinct (map (fst \<circ> post_of) (snd (q_claim_owed q d)))"
    and restore_ok: "ok d \<Longrightarrow> ok (q_restore_status q i t n d)"
    and restore_seq: "ok d \<Longrightarrow> q_status_seq q (q_restore_status q i t n d) = q_status_seq q d"
    and restore_known: "ok d \<Longrightarrow> known (q_restore_status q i t n d) = known d"
    and restore_owed: "ok d \<Longrightarrow> known d i \<Longrightarrow> owed (q_restore_status q i t n d) j =
          (if j = i \<and> q_status_seq q d i = n \<and> owed d i = None then Some t else owed d j)"
    and verdict_ok: "ok d \<Longrightarrow> verdict r d = Some (d', i, t) \<Longrightarrow> ok d'"
    and verdict_moves: "ok d \<Longrightarrow> verdict r d = Some (d', i, t) \<Longrightarrow> queue_moves q owed known d d'"
    and verdict_settles: "ok d \<Longrightarrow> verdict r d = Some (d', i, t) \<Longrightarrow>
          q_status_seq q d i < q_status_seq q d' i \<and> owed d' i = None \<and> known d' i"
    and owe_ok: "ok d \<Longrightarrow> ok (owe i t d)"
    and owe_moves: "ok d \<Longrightarrow> queue_moves q owed known d (owe i t d)"
begin

definition play :: "'d drain_state \<Rightarrow> posted set" where
  "play s = in_play q owed s"

definition next_state :: "'d drain_state \<Rightarrow> ('e, 'r) drain_event \<Rightarrow> 'd drain_state" where
  "next_state = drain_step q step verdict owe"

definition safe :: "'d drain_state \<Rightarrow> bool" where
  "safe s \<longleftrightarrow> ok (ds_store s) \<and>
     (\<forall>i n t. (i, n, t) \<in> play s \<longrightarrow> n \<le> q_status_seq q (ds_store s) i \<and> known (ds_store s) i) \<and>
     (\<forall>i n t t'. (i, n, t) \<in> play s \<longrightarrow> (i, n, t') \<in> play s \<longrightarrow> t = t')"

definition tidy :: "'d drain_state \<Rightarrow> bool" where
  "tidy s \<longleftrightarrow> (\<forall>it. (it, True) \<in> set (ds_after s) \<longrightarrow> post_of it \<in> set (ds_posts s)) \<and>
     (\<forall>i. sorted (posts_to i s))"

lemma play_simps:
  "play s = owed_set q owed (ds_store s) \<union> post_of ` set (ds_hand s) \<union>
     (post_of \<circ> fst) ` set (ds_after s) \<union> set (ds_posts s)"
  by (simp add: play_def in_play_def)

lemma play_split:
  "play s = owed_set q owed (ds_store s) \<union>
     (post_of ` set (ds_hand s) \<union> (post_of \<circ> fst) ` set (ds_after s) \<union> set (ds_posts s))"
  by (auto simp: play_simps)

lemma moves_owed_set:
  assumes "queue_moves q owed known d d'" and "(i, n, t) \<in> owed_set q owed d'"
  shows "(i, n, t) \<in> owed_set q owed d \<or> q_status_seq q d i < n \<and> n = q_status_seq q d' i"
  using assms by (auto simp: queue_moves_def owed_set_def)

lemma moves_seq: "queue_moves q owed known d d' \<Longrightarrow> q_status_seq q d i \<le> q_status_seq q d' i"
  by (auto simp: queue_moves_def) (metis less_imp_le order_refl)

lemma moves_known: "queue_moves q owed known d d' \<Longrightarrow> known d i \<Longrightarrow> known d' i"
  by (auto simp: queue_moves_def)

text \<open>A store operation keeps the state safe: what it owes anew has a sequence number of its own.\<close>

lemma safe_moves:
  assumes "safe s" and "ok d'" and m: "queue_moves q owed known (ds_store s) d'"
  shows "safe (s\<lparr>ds_store := d'\<rparr>)"
proof -
  let ?s = "s\<lparr>ds_store := d'\<rparr>"
  have new: "(i, n, t) \<in> play s \<or>
      q_status_seq q (ds_store s) i < n \<and> n = q_status_seq q d' i \<and> owed d' i = Some t"
    if "(i, n, t) \<in> play ?s" for i n t
    using that moves_owed_set [OF m, of i n t] by (auto simp: play_simps owed_set_def)
  have old: "n \<le> q_status_seq q (ds_store s) i" "known (ds_store s) i" if "(i, n, t) \<in> play s" for i n t
    using assms(1) that by (auto simp: safe_def)
  have fun_old: "t = t'" if "(i, n, t) \<in> play s" "(i, n, t') \<in> play s" for i n t t'
    using assms(1) that unfolding safe_def by blast
  have "n \<le> q_status_seq q d' i \<and> known d' i" if "(i, n, t) \<in> play ?s" for i n t
    using new [OF that] old [of i n t] moves_seq [OF m, of i] moves_known [OF m, of i] owed_known
    by fastforce
  moreover have "t = t'" if a: "(i, n, t) \<in> play ?s" and b: "(i, n, t') \<in> play ?s" for i n t t'
    using new [OF a] new [OF b] old [of i n] fun_old [of i n t t'] by fastforce
  ultimately show ?thesis using assms(2) by (auto simp: safe_def)
qed

text \<open>Moving verdicts about without inventing one keeps the state safe.\<close>

lemma safe_subset:
  assumes "safe s" and "ok (ds_store s')" and "play s' \<subseteq> play s"
    and "q_status_seq q (ds_store s') = q_status_seq q (ds_store s)"
    and "known (ds_store s') = known (ds_store s)"
  shows "safe s'"
  using assms unfolding safe_def by (metis (no_types, lifting) subsetD)

lemma restore_play:
  assumes "safe s" and "post_of it \<in> play s"
  shows "play (s\<lparr>ds_store := restore_item q it (ds_store s)\<rparr>) = play s"
    and "ok (restore_item q it (ds_store s))"
    and "q_status_seq q (restore_item q it (ds_store s)) = q_status_seq q (ds_store s)"
    and "known (restore_item q it (ds_store s)) = known (ds_store s)"
proof -
  obtain j t n where it: "it = (j, t, n)" by (cases it)
  have ok: "ok (ds_store s)" and kn: "known (ds_store s) (job_id j)"
    using assms by (auto simp: safe_def it post_of_def)
  let ?d = "restore_item q it (ds_store s)"
  have d: "?d = q_restore_status q (job_id j) t n (ds_store s)" by (simp add: it restore_item_def)
  show "ok ?d" "q_status_seq q ?d = q_status_seq q (ds_store s)" "known ?d = known (ds_store s)"
    by (simp_all add: d restore_ok restore_seq restore_known ok)
  have le: "owed_set q owed ?d \<subseteq> owed_set q owed (ds_store s) \<union> {post_of it}"
    and ge: "owed_set q owed (ds_store s) \<subseteq> owed_set q owed ?d"
    unfolding d by (auto simp: owed_set_def restore_seq ok restore_owed kn it post_of_def split: if_splits)
  have absorb: "A' \<union> R = A \<union> R" if "A' \<subseteq> A \<union> {x}" "A \<subseteq> A'" "x \<in> A \<union> R" for A A' R :: "posted set" and x
    using that by blast
  show "play (s\<lparr>ds_store := ?d\<rparr>) = play s"
    using absorb [OF le ge assms(2) [unfolded play_split]] by (simp add: play_split)
qed

lemma moves_kept:
  assumes "queue_moves q owed known d d'" and "(i, n, t) \<in> owed_set q owed d"
  shows "n < q_status_seq q d' i \<or> (i, n, t) \<in> owed_set q owed d'"
  using assms by (auto simp: queue_moves_def owed_set_def)

text \<open>One step forward: the state stays safe and tidy, and every verdict stays in play or is superseded.\<close>

definition advances :: "'d drain_state \<Rightarrow> 'd drain_state \<Rightarrow> bool" where
  "advances s s' \<longleftrightarrow> safe s' \<and> tidy s' \<and>
     (\<forall>i. q_status_seq q (ds_store s) i \<le> q_status_seq q (ds_store s') i) \<and>
     (\<forall>i n t. (i, n, t) \<in> play s \<longrightarrow> n < q_status_seq q (ds_store s') i \<or> (i, n, t) \<in> play s')"

lemma advances_trans: "advances s s' \<Longrightarrow> advances s' s'' \<Longrightarrow> advances s s''"
  unfolding advances_def by (meson less_le_trans order_trans)

lemma advances_refl: "safe s \<Longrightarrow> tidy s \<Longrightarrow> advances s s"
  by (auto simp: advances_def)

lemma advances_moves:
  assumes "safe s" and "tidy s" and "ok d'" and m: "queue_moves q owed known (ds_store s) d'"
  shows "advances s (s\<lparr>ds_store := d'\<rparr>)"
proof -
  have "tidy (s\<lparr>ds_store := d'\<rparr>)" using assms(2) by (simp add: tidy_def posts_to_def)
  moreover have "n < q_status_seq q d' i \<or> (i, n, t) \<in> play (s\<lparr>ds_store := d'\<rparr>)"
    if "(i, n, t) \<in> play s" for i n t
    using that moves_kept [OF m, of i n t] by (auto simp: play_simps)
  ultimately show ?thesis
    using safe_moves [OF assms(1,3,4)] moves_seq [OF m] by (auto simp: advances_def)
qed

text \<open>A verdict that changes hands, with nothing new and nothing lost.\<close>

lemma advances_same:
  assumes "safe s" and "tidy s'" and "ok (ds_store s')" and "play s' \<subseteq> play s"
    and "q_status_seq q (ds_store s') = q_status_seq q (ds_store s)"
    and "known (ds_store s') = known (ds_store s)"
    and "\<And>i n t. (i, n, t) \<in> play s \<Longrightarrow> n \<noteq> q_status_seq q (ds_store s) i \<or> (i, n, t) \<in> play s'"
  shows "advances s s'"
proof -
  have "n < q_status_seq q (ds_store s) i \<or> (i, n, t) \<in> play s'" if "(i, n, t) \<in> play s" for i n t
    using assms(1,7) that unfolding safe_def by (metis order_le_less)
  then show ?thesis
    using safe_subset [OF assms(1,3,4,5,6)] assms(2,5) by (simp add: advances_def)
qed

lemma sorted_posts_add:
  assumes "safe s" and "tidy s" and "n = q_status_seq q (ds_store s) i"
  shows "sorted (posts_to j (s'\<lparr>ds_posts := ds_posts s @ [(i, n, t)]\<rparr>))"
proof -
  have "m \<le> n" if "m \<in> set (posts_to i s)" for m
  proof -
    from that obtain p where "p \<in> set (ds_posts s)" "fst p = i" "m = fst (snd p)"
      by (auto simp: posts_to_def)
    then have "(i, m, snd (snd p)) \<in> play s" by (cases p) (auto simp: play_simps)
    then show ?thesis using assms(1,3) unfolding safe_def by blast
  qed
  moreover have "posts_to j (s'\<lparr>ds_posts := ds_posts s @ [(i, n, t)]\<rparr>) = posts_to j s @ (if j = i then [n] else [])"
    by (simp add: posts_to_def)
  ultimately show ?thesis
    using assms(2) by (auto simp: tidy_def sorted_append)
qed

lemma advances_take:
  assumes "safe s" and "tidy s"
  shows "advances s (next_state s Take)"
proof -
  have ok: "ok (ds_store s)" using assms(1) by (simp add: safe_def)
  obtain d' items where c: "q_claim_owed q (ds_store s) = (d', items)" by fastforce
  note laws = take_ok [OF ok] take_seq [OF ok] take_known [OF ok] take_clears [OF ok] take_items [OF ok]
  let ?s = "s\<lparr>ds_store := d', ds_hand := ds_hand s @ items\<rparr>"
  have s': "next_state s Take = ?s" by (simp add: next_state_def c)
  have "owed_set q owed d' = {}" using laws(4) by (simp add: c owed_set_def)
  then have "play ?s = play s" using laws(5) by (auto simp: play_simps c image_Un)
  moreover have "tidy ?s" using assms(2) by (simp add: tidy_def posts_to_def)
  ultimately show ?thesis
    unfolding s' using laws assms(1) by (intro advances_same) (simp_all add: c)
qed

lemma advances_restore:
  assumes "safe s" and "tidy s" and "post_of it \<in> play s"
  shows "advances s (s\<lparr>ds_store := restore_item q it (ds_store s)\<rparr>)"
  using assms restore_play [OF assms(1,3)]
  by (intro advances_same) (auto simp: tidy_def posts_to_def)

text \<open>After a restore the queue owes the verdict again, unless it has been superseded.\<close>

lemma restored_owed:
  assumes "safe s" and "(i, n, t) = post_of it" and "(i, n, t) \<in> play s"
    and "n = q_status_seq q (ds_store s) i"
  shows "(i, n, t) \<in> owed_set q owed (restore_item q it (ds_store s))"
proof -
  from assms(1,3) have ok: "ok (ds_store s)" and kn: "known (ds_store s) i"
    unfolding safe_def by blast+
  have it: "restore_item q it (ds_store s) = q_restore_status q i t n (ds_store s)"
    using assms(2) by (cases it) (simp add: restore_item_def post_of_def)
  have "owed (ds_store s) i = Some t' \<Longrightarrow> t' = t" for t'
    using assms(1,3,4) unfolding safe_def play_simps owed_set_def by blast
  then show ?thesis
    using assms(4) unfolding it owed_set_def by (auto simp: restore_seq ok restore_owed kn)
qed

lemma advances_endpoint:
  assumes "safe s" and "tidy s"
  shows "advances s (next_state s (Endpoint r accepted))"
proof (cases "verdict r (ds_store s)")
  case None
  then show ?thesis using advances_refl [OF assms] by (simp add: next_state_def endpoint_step_def)
next
  case (Some x)
  obtain d' i t where x: "x = (d', i, t)" by (cases x)
  have ok: "ok (ds_store s)" using assms(1) by (simp add: safe_def)
  note v = Some [unfolded x]
  note laws = verdict_ok [OF ok v] verdict_moves [OF ok v] verdict_settles [OF ok v]
  let ?s = "s\<lparr>ds_store := d'\<rparr>"
  let ?n = "q_status_seq q d' i"
  have adv: "advances s ?s" by (rule advances_moves [OF assms laws(1,2)])
  then have safe: "safe ?s" and tidy: "tidy ?s" by (simp_all add: advances_def)
  show ?thesis
  proof (cases accepted)
    case False
    have "advances ?s (?s\<lparr>ds_store := owe i t d'\<rparr>)"
      by (rule advances_moves [OF safe tidy]) (simp_all add: owe_ok owe_moves laws(1))
    with adv show ?thesis
      using False v by (auto simp: next_state_def endpoint_step_def intro: advances_trans)
  next
    case True
    let ?p = "?s\<lparr>ds_posts := ds_posts s @ [(i, ?n, t)]\<rparr>"
    have no: "(i, ?n, t') \<notin> play ?s" for t'
    proof
      assume "(i, ?n, t') \<in> play ?s"
      then have "(i, ?n, t') \<in> play s" using laws(3) by (auto simp: play_simps owed_set_def)
      then show False using assms(1) laws(3) unfolding safe_def by fastforce
    qed
    have play: "play ?p = insert (i, ?n, t) (play ?s)" by (auto simp: play_simps)
    have "safe ?p"
      using safe no laws(1,3) unfolding safe_def play by auto
    moreover have "tidy ?p"
      using tidy sorted_posts_add [OF safe tidy, of ?n i] by (auto simp: tidy_def)
    ultimately have "advances ?s ?p" unfolding advances_def play by simp
    with adv show ?thesis
      using True v by (auto simp: next_state_def endpoint_step_def intro: advances_trans)
  qed
qed

lemma advances_drop:
  assumes "safe s" and "tidy s'" and "ds_store s' = ds_store s" and "play s = insert (post_of it) (play s')"
    and "\<And>i n t. post_of it = (i, n, t) \<Longrightarrow> n = q_status_seq q (ds_store s) i \<Longrightarrow> (i, n, t) \<in> play s'"
  shows "advances s s'"
proof (rule advances_same [OF assms(1,2)])
  show "ok (ds_store s')" using assms(1,3) by (simp add: safe_def)
  show "n \<noteq> q_status_seq q (ds_store s) i \<or> (i, n, t) \<in> play s'" if "(i, n, t) \<in> play s" for i n t
    using that assms(4,5) by (metis insertE)
qed (use assms(3,4) in auto)

lemma advances_finish:
  assumes "safe s" and "tidy s"
  shows "advances s (next_state s (Finish k accepted))"
proof (cases "k < length (ds_after s)")
  case False
  then show ?thesis using advances_refl [OF assms] by (simp add: next_state_def finish_step_def)
next
  case True
  obtain it b where at: "ds_after s ! k = (it, b)" by (cases "ds_after s ! k")
  note set = set_nth_remove_nth [OF True, unfolded at]
  have drop: "advances u (u\<lparr>ds_after := remove_nth k (ds_after s)\<rparr>)"
    if "safe u" "tidy u" "ds_after u = ds_after s"
      "\<And>i n t. post_of it = (i, n, t) \<Longrightarrow> n = q_status_seq q (ds_store u) i \<Longrightarrow>
         (i, n, t) \<in> owed_set q owed (ds_store u) \<union> set (ds_posts u)" for u
    using that by (intro advances_drop [of u _ it]) (auto simp: play_simps set tidy_def posts_to_def)
  show ?thesis
  proof (cases "b \<and> accepted")
    case True
    then have "(it, True) \<in> set (ds_after s)" using set by simp
    then have "post_of it \<in> set (ds_posts s)" using assms(2) unfolding tidy_def by blast
    then have "advances s (s\<lparr>ds_after := remove_nth k (ds_after s)\<rparr>)"
      by (intro drop [OF assms refl]) simp
    then show ?thesis
      using True \<open>k < length (ds_after s)\<close> at by (simp add: next_state_def finish_step_def)
  next
    case False
    let ?u = "s\<lparr>ds_store := restore_item q it (ds_store s)\<rparr>"
    have in_play: "post_of it \<in> play s" using set by (auto simp: play_simps)
    note adv = advances_restore [OF assms in_play]
    have "advances ?u (?u\<lparr>ds_after := remove_nth k (ds_after s)\<rparr>)"
      using adv restored_owed [OF assms(1) _ _, of _ _ _ it] in_play restore_play(3) [OF assms(1) in_play]
      by (intro drop) (auto simp: advances_def)
    with advances_trans [OF adv] show ?thesis
      using False True at by (auto simp: next_state_def finish_step_def)
  qed
qed

lemma post_next:
  assumes "k < length (ds_hand s)" and "ds_hand s ! k = (j, t, n)"
  shows "next_state s (Post k accepted) =
    (case t of
       Other_Text _ \<Rightarrow> s\<lparr>ds_hand := remove_nth k (ds_hand s), ds_after := ds_after s @ [((j, t, n), False)]\<rparr>
     | Json_Pair _ _ \<Rightarrow>
         if q_status_seq q (ds_store s) (job_id j) \<noteq> n then s\<lparr>ds_hand := remove_nth k (ds_hand s)\<rparr>
         else if accepted
         then s\<lparr>ds_hand := remove_nth k (ds_hand s), ds_after := ds_after s @ [((j, t, n), True)],
                ds_posts := ds_posts s @ [post_of (j, t, n)]\<rparr>
         else s\<lparr>ds_store := restore_item q (j, t, n) (ds_store s), ds_hand := remove_nth k (ds_hand s)\<rparr>)"
  using assms by (simp add: next_state_def post_step_def post_if_current_def restore_item_def Let_def
      split: owed_text.splits)

lemma advances_post:
  assumes "safe s" and "tidy s"
  shows "advances s (next_state s (Post k accepted))"
proof (cases "k < length (ds_hand s)")
  case False
  then show ?thesis using advances_refl [OF assms] by (simp add: next_state_def post_step_def)
next
  case True
  obtain j t n where at: "ds_hand s ! k = (j, t, n)" by (cases "ds_hand s ! k")
  let ?it = "(j, t, n)" and ?h = "remove_nth k (ds_hand s)"
  note set = set_nth_remove_nth [OF True, unfolded at]
  have ok: "ok (ds_store s)" using assms(1) by (simp add: safe_def)
  have in_play: "post_of ?it \<in> play s" using set by (auto simp: play_simps)
  note next_eq = post_next [OF True at, of accepted]
  consider (unreadable) x where "t = Other_Text x"
    | (superseded) st ds where "t = Json_Pair st ds" "q_status_seq q (ds_store s) (job_id j) \<noteq> n"
    | (posted) st ds where "t = Json_Pair st ds" "q_status_seq q (ds_store s) (job_id j) = n" accepted
    | (restored) st ds where "t = Json_Pair st ds" "q_status_seq q (ds_store s) (job_id j) = n" "\<not> accepted"
    by (cases t) auto
  then show ?thesis
  proof cases
    case unreadable
    then show ?thesis unfolding next_eq
      using assms ok set
      by (intro advances_same) (auto simp: play_simps tidy_def posts_to_def)
  next
    case superseded
    then show ?thesis unfolding next_eq
      using assms set
      by (intro advances_drop [of s _ ?it])
        (auto simp: play_simps tidy_def posts_to_def post_of_def)
  next
    case posted
    then show ?thesis unfolding next_eq
      using assms ok set sorted_posts_add [OF assms, of n "job_id j"]
      by (intro advances_same) (auto simp: play_simps tidy_def posts_to_def post_of_def)
  next
    case restored
    let ?u = "s\<lparr>ds_store := restore_item q ?it (ds_store s)\<rparr>"
    note adv = advances_restore [OF assms in_play]
    have "advances ?u (?u\<lparr>ds_hand := ?h\<rparr>)"
      using adv restored_owed [OF assms(1) _ _, of _ _ _ ?it] in_play restore_play(3) [OF assms(1) in_play] set
      by (intro advances_drop [of ?u _ ?it]) (auto simp: advances_def play_simps tidy_def posts_to_def)
    with advances_trans [OF adv] restored show ?thesis
      unfolding next_eq by simp
  qed
qed

lemma advances_next: "safe s \<Longrightarrow> tidy s \<Longrightarrow> advances s (next_state s e)"
  using advances_take advances_post advances_finish advances_endpoint
    advances_moves [of s "step (ds_store s) e'" for e'] step_ok step_moves
  by (cases e) (auto simp: next_state_def safe_def)

lemma safe_start: "ok d \<Longrightarrow> safe (drain_start d)" "ok d \<Longrightarrow> tidy (drain_start d)"
  by (auto simp: safe_def tidy_def play_simps drain_start_def owed_set_def posts_to_def intro: owed_known)

lemma advances_run: "safe s \<Longrightarrow> tidy s \<Longrightarrow> advances s (run_steps next_state s es)"
proof (induction es arbitrary: s)
  case Nil
  then show ?case by (simp add: advances_refl)
next
  case (Cons e es)
  note a = advances_next [OF Cons.prems, of e]
  then have "advances (next_state s e) (run_steps next_state (next_state s e) es)"
    by (intro Cons.IH) (simp_all add: advances_def)
  with a show ?case using advances_trans by simp
qed

text \<open>
  Without a refused check, a run has at most one verdict at its current sequence number, counted
  over the row, the drains and the posts.
\<close>

definition once :: "'d drain_state \<Rightarrow> bool" where
  "once s \<longleftrightarrow>
     (\<forall>i. current_tokens (q_status_seq q (ds_store s) i) i s +
          (if owed (ds_store s) i = None then 0 else 1) \<le> 1) \<and>
     (\<forall>i. sorted_wrt (<) (posts_to i s))"

lemma tokens_fresh:
  assumes "safe s" and "q_status_seq q (ds_store s) i < n"
  shows "current_tokens n i s = 0"
proof -
  have "m \<noteq> n" if "(i, m, t) \<in> play s" for m t
    using assms that unfolding safe_def by fastforce
  then have no: "x \<notin> play s" if "fst x = i" "fst (snd x) = n" for x
    using that by (cases x) auto
  have "filter (\<lambda>it. fst (post_of it) = i \<and> fst (snd (post_of it)) = n) (ds_hand s) = []"
    "filter (\<lambda>x. \<not> snd x \<and> fst (post_of (fst x)) = i \<and> fst (snd (post_of (fst x))) = n) (ds_after s) = []"
    "filter (\<lambda>p. fst p = i \<and> fst (snd p) = n) (ds_posts s) = []"
    using no unfolding play_simps filter_empty_conv comp_def by blast+
  then show ?thesis by (simp add: current_tokens_def)
qed

lemma strict_posts_add:
  assumes "safe s" and "n = q_status_seq q (ds_store s) i" and "sorted_wrt (<) (posts_to j s)"
    and "filter (\<lambda>p. fst p = i \<and> fst (snd p) = n) (ds_posts s) = []"
  shows "sorted_wrt (<) (posts_to j (s'\<lparr>ds_posts := ds_posts s @ [(i, n, t)]\<rparr>))"
proof -
  have "m < n" if "m \<in> set (posts_to i s)" for m
  proof -
    from that obtain p where p: "p \<in> set (ds_posts s)" "fst p = i" "m = fst (snd p)"
      by (auto simp: posts_to_def)
    then have "(i, m, snd (snd p)) \<in> play s" by (cases p) (auto simp: play_simps)
    then have "m \<le> n" using assms(1,2) unfolding safe_def by blast
    moreover have "m \<noteq> n" using assms(4) p by (auto simp: filter_empty_conv)
    ultimately show ?thesis by simp
  qed
  moreover have "posts_to j (s'\<lparr>ds_posts := ds_posts s @ [(i, n, t)]\<rparr>) = posts_to j s @ (if j = i then [n] else [])"
    by (simp add: posts_to_def)
  ultimately show ?thesis using assms(3) by (auto simp: sorted_wrt_append)
qed

lemma once_moves:
  assumes "safe s" and "once s" and m: "queue_moves q owed known (ds_store s) d'"
  shows "once (s\<lparr>ds_store := d'\<rparr>)"
proof -
  let ?s = "s\<lparr>ds_store := d'\<rparr>"
  have same: "current_tokens n i ?s = current_tokens n i s" "posts_to i ?s = posts_to i s" for n i
    by (simp_all add: current_tokens_def posts_to_def)
  have "current_tokens (q_status_seq q d' i) i s + (if owed d' i = None then 0 else 1) \<le> 1" for i
  proof (cases "q_status_seq q (ds_store s) i < q_status_seq q d' i")
    case True
    then show ?thesis using tokens_fresh [OF assms(1) True] by simp
  next
    case False
    then have "q_status_seq q d' i = q_status_seq q (ds_store s) i" "owed d' i = owed (ds_store s) i"
      using m unfolding queue_moves_def by (metis)+
    then show ?thesis using assms(2) unfolding once_def by metis
  qed
  then show ?thesis using assms(2) by (simp add: once_def same)
qed

text \<open>A store in which only the owed verdict of one run changed, and the holders with it.\<close>

lemma once_same_seq:
  assumes "once s" and "q_status_seq q (ds_store s') = q_status_seq q (ds_store s)"
    and "\<And>i. current_tokens (q_status_seq q (ds_store s) i) i s' + (if owed (ds_store s') i = None then 0 else 1)
          \<le> current_tokens (q_status_seq q (ds_store s) i) i s + (if owed (ds_store s) i = None then 0 else 1)"
    and "\<And>i. sorted_wrt (<) (posts_to i s')"
  shows "once s'"
proof -
  have "current_tokens (q_status_seq q (ds_store s) i) i s + (if owed (ds_store s) i = None then 0 else 1) \<le> 1" for i
    using assms(1) unfolding once_def by blast
  then show ?thesis using assms(3,4) unfolding once_def assms(2) by (blast intro: order_trans)
qed

lemma once_take:
  assumes "safe s" and "once s"
  shows "once (next_state s Take)"
proof -
  have ok: "ok (ds_store s)" using assms(1) by (simp add: safe_def)
  obtain d' items where c: "q_claim_owed q (ds_store s) = (d', items)" by fastforce
  note laws = take_seq [OF ok, unfolded c fst_conv] take_clears [OF ok, unfolded c fst_conv]
    take_items [OF ok, unfolded c snd_conv] take_distinct [OF ok, unfolded c snd_conv]
  have le: "length (filter (\<lambda>it. fst (post_of it) = i \<and> P it) items) \<le> (if owed (ds_store s) i = None then 0 else 1)"
    for i P
  proof (cases "owed (ds_store s) i")
    case None
    have "fst (post_of it) \<noteq> i" if "it \<in> set items" for it
    proof -
      have "post_of it \<in> owed_set q owed (ds_store s)" using laws(3) that by blast
      then show ?thesis using None by (auto simp: owed_set_def)
    qed
    then have "filter (\<lambda>it. fst (post_of it) = i \<and> P it) items = []" by (auto simp: filter_empty_conv)
    then show ?thesis by simp
  next
    case Some
    have "length (filter (\<lambda>it. fst (post_of it) = i \<and> P it) items) \<le> 1"
      using rowcount_key_le_1 [of "fst \<circ> post_of" items i P] laws(4) by (simp add: rowcount_def)
    then show ?thesis using Some by simp
  qed
  show ?thesis
  proof (rule once_same_seq [OF assms(2)])
    show "q_status_seq q (ds_store (next_state s Take)) = q_status_seq q (ds_store s)"
      by (simp add: next_state_def c laws)
    show "sorted_wrt (<) (posts_to i (next_state s Take))" for i
      using assms(2) by (simp add: next_state_def c once_def posts_to_def)
    show "current_tokens (q_status_seq q (ds_store s) i) i (next_state s Take) +
        (if owed (ds_store (next_state s Take)) i = None then 0 else 1)
       \<le> current_tokens (q_status_seq q (ds_store s) i) i s + (if owed (ds_store s) i = None then 0 else 1)" for i
      using le [of i "\<lambda>it. fst (snd (post_of it)) = q_status_seq q (ds_store s) i"]
      by (simp add: next_state_def c current_tokens_def laws)
  qed
qed

lemma restored_count:
  assumes "ok d" and "known d (fst (post_of it))"
  shows "(if owed (restore_item q it d) i = None then 0 else (1 :: nat)) \<le>
     (if owed d i = None then 0 else 1) +
     (if fst (post_of it) = i \<and> fst (snd (post_of it)) = q_status_seq q d i then 1 else 0)"
  using assms by (cases it) (auto simp: restore_item_def post_of_def restore_owed)

lemma filter_remove_Suc:
  assumes "k < length xs"
  shows "length (filter P xs) = length (filter P (remove_nth k xs)) + (if P (xs ! k) then 1 else 0)"
proof -
  have "P (xs ! k) \<Longrightarrow> filter P xs \<noteq> []" using assms nth_mem by (fastforce simp: filter_empty_conv)
  then show ?thesis using filter_remove_nth [OF assms, of P] by (cases "filter P xs") auto
qed

lemma once_finish:
  assumes "safe s" and "once s" and "accepted"
  shows "once (next_state s (Finish k accepted))"
proof (cases "k < length (ds_after s)")
  case False
  then show ?thesis using assms(2) by (simp add: next_state_def finish_step_def)
next
  case True
  obtain it b where at: "ds_after s ! k = (it, b)" by (cases "ds_after s ! k")
  have ok: "ok (ds_store s)" using assms(1) by (simp add: safe_def)
  have "post_of it \<in> play s" using set_nth_remove_nth [OF True] at by (auto simp: play_simps)
  note seq = restore_play(3) [OF assms(1) this]
  then have kn: "known (ds_store s) (fst (post_of it))"
    using assms(1) \<open>post_of it \<in> play s\<close> unfolding safe_def by (metis prod.collapse)
  show ?thesis
  proof (rule once_same_seq [OF assms(2)])
    show "q_status_seq q (ds_store (next_state s (Finish k accepted))) = q_status_seq q (ds_store s)"
      using True at seq by (simp add: next_state_def finish_step_def)
    show "sorted_wrt (<) (posts_to i (next_state s (Finish k accepted)))" for i
      using True assms(2) at by (simp add: next_state_def finish_step_def once_def posts_to_def)
    show "current_tokens (q_status_seq q (ds_store s) i) i (next_state s (Finish k accepted)) +
        (if owed (ds_store (next_state s (Finish k accepted))) i = None then 0 else 1)
       \<le> current_tokens (q_status_seq q (ds_store s) i) i s + (if owed (ds_store s) i = None then 0 else 1)" for i
      using True at assms(3) restored_count [OF ok kn, of i]
        filter_remove_Suc [OF True, of "\<lambda>x. \<not> snd x \<and> fst (post_of (fst x)) = i \<and>
          fst (snd (post_of (fst x))) = q_status_seq q (ds_store s) i"]
      by (auto simp: next_state_def finish_step_def current_tokens_def split: if_splits)
  qed
qed

lemma once_post:
  assumes "safe s" and "once s"
  shows "once (next_state s (Post k accepted))"
proof (cases "k < length (ds_hand s)")
  case False
  then show ?thesis using assms(2) by (simp add: next_state_def post_step_def)
next
  case True
  obtain j t n where at: "ds_hand s ! k = (j, t, n)" by (cases "ds_hand s ! k")
  let ?it = "(j, t, n)" and ?s = "next_state s (Post k accepted)"
  have ok: "ok (ds_store s)" using assms(1) by (simp add: safe_def)
  have play: "post_of ?it \<in> play s" using set_nth_remove_nth [OF True] at by (auto simp: play_simps)
  note seq = restore_play(3) [OF assms(1) play]
  have kn: "known (ds_store s) (fst (post_of ?it))"
    using assms(1) play unfolding safe_def by (metis prod.collapse)
  note count = restored_count [OF ok kn] filter_remove_Suc [OF True]
  have strict: "sorted_wrt (<) (posts_to i s)" for i using assms(2) by (simp add: once_def)
  have none: "filter (\<lambda>p. fst p = job_id j \<and> fst (snd p) = n) (ds_posts s) = []"
    if "q_status_seq q (ds_store s) (job_id j) = n"
  proof -
    have "current_tokens n (job_id j) s \<le> 1" using assms(2) that unfolding once_def by (metis add_leD1)
    moreover have "length (filter (\<lambda>it. fst (post_of it) = job_id j \<and> fst (snd (post_of it)) = n) (ds_hand s)) \<ge> 1"
      using count(2) [of "\<lambda>it. fst (post_of it) = job_id j \<and> fst (snd (post_of it)) = n"] at
      by (simp add: post_of_def)
    ultimately show ?thesis unfolding current_tokens_def length_0_conv [symmetric] by linarith
  qed
  note next_eq = post_next [OF True at, of accepted]
  show ?thesis
  proof (rule once_same_seq [OF assms(2)])
    show "q_status_seq q (ds_store ?s) = q_status_seq q (ds_store s)"
      using seq unfolding next_eq by (cases t) simp_all
    show "sorted_wrt (<) (posts_to i ?s)" for i
      using strict [of i] strict_posts_add [OF assms(1) _ strict none, of i] unfolding next_eq
      by (cases t) (simp_all add: posts_to_def post_of_def)
    show "current_tokens (q_status_seq q (ds_store s) i) i ?s + (if owed (ds_store ?s) i = None then 0 else 1)
       \<le> current_tokens (q_status_seq q (ds_store s) i) i s + (if owed (ds_store s) i = None then 0 else 1)" for i
      using count(1) [of i]
        count(2) [of "\<lambda>it. fst (post_of it) = i \<and> fst (snd (post_of it)) = q_status_seq q (ds_store s) i"]
      unfolding next_eq at current_tokens_def by (cases t) (simp_all split: if_splits)
  qed
qed

lemma once_endpoint:
  assumes "safe s" and "tidy s" and "once s"
  shows "once (next_state s (Endpoint r accepted))"
proof (cases "verdict r (ds_store s)")
  case None
  then show ?thesis using assms(3) by (simp add: next_state_def endpoint_step_def)
next
  case (Some x)
  obtain d' i t where x: "x = (d', i, t)" by (cases x)
  have ok: "ok (ds_store s)" using assms(1) by (simp add: safe_def)
  note v = Some [unfolded x]
  note laws = verdict_ok [OF ok v] verdict_moves [OF ok v] verdict_settles [OF ok v]
  let ?s = "s\<lparr>ds_store := d'\<rparr>"
  let ?n = "q_status_seq q d' i"
  have once: "once ?s" by (rule once_moves [OF assms(1,3) laws(2)])
  have safe: "safe ?s" by (rule safe_moves [OF assms(1) laws(1,2)])
  show ?thesis
  proof (cases accepted)
    case False
    have "once (?s\<lparr>ds_store := owe i t d'\<rparr>)"
      by (rule once_moves [OF safe once]) (simp add: owe_moves laws(1))
    then show ?thesis using False v by (simp add: next_state_def endpoint_step_def)
  next
    case True
    let ?p = "?s\<lparr>ds_posts := ds_posts s @ [(i, ?n, t)]\<rparr>"
    have zero: "current_tokens ?n i ?s = 0"
      using tokens_fresh [OF assms(1), of i ?n] laws(3) by (simp add: current_tokens_def)
    have tokens: "current_tokens m j ?p = current_tokens m j ?s + (if j = i \<and> m = ?n then 1 else 0)" for m j
      by (auto simp: current_tokens_def)
    have old: "current_tokens (q_status_seq q d' j) j ?s + (if owed d' j = None then 0 else 1) \<le> 1" for j
      using once unfolding once_def by simp
    have "current_tokens (q_status_seq q d' j) j ?p + (if owed d' j = None then 0 else 1) \<le> 1" for j
      using zero laws(3) old [of j] unfolding tokens by (cases "j = i") simp_all
    moreover have "sorted_wrt (<) (posts_to j ?p)" for j
      using strict_posts_add [OF safe, of ?n i j] once zero by (auto simp: once_def current_tokens_def)
    ultimately have "once ?p" by (simp add: once_def)
    then show ?thesis using True v by (simp add: next_state_def endpoint_step_def)
  qed
qed

lemma once_next:
  assumes "safe s" and "tidy s" and "once s" and "\<not> refuses_check e"
  shows "once (next_state s e)"
proof (cases e)
  case (Store e')
  have "ok (ds_store s)" using assms(1) by (simp add: safe_def)
  then show ?thesis
    using once_moves [OF assms(1,3) step_moves] Store by (simp add: next_state_def)
qed (use assms once_take once_post once_finish once_endpoint in auto)

lemma once_run:
  assumes "safe s" and "tidy s" and "once s" and "list_all (\<lambda>e. \<not> refuses_check e) es"
  shows "once (run_steps next_state s es)"
  using assms
proof (induction es arbitrary: s)
  case (Cons e es)
  then have "once (next_state s e)" by (simp add: once_next)
  moreover have "safe (next_state s e)" "tidy (next_state s e)"
    using advances_next [OF Cons.prems(1,2)] by (simp_all add: advances_def)
  ultimately show ?case using Cons by simp
qed simp

text \<open>The facts the component's clients use.\<close>

lemma posts_in_order:
  assumes "ok d"
  shows "sorted (posts_to i (run_steps (drain_step q step verdict owe) (drain_start d) es))"
  using advances_run [OF safe_start [OF assms], of es] by (simp add: advances_def tidy_def next_state_def)

lemma posts_at_most_once:
  assumes "ok d" and "list_all (\<lambda>e. \<not> refuses_check e) es"
  shows "sorted_wrt (<) (posts_to i (run_steps (drain_step q step verdict owe) (drain_start d) es))"
proof -
  have "once (drain_start d)"
    by (simp add: once_def current_tokens_def drain_start_def posts_to_def)
  then show ?thesis
    using once_run [OF safe_start [OF assms(1)] _ assms(2)] by (auto simp: once_def next_state_def)
qed

lemma verdict_stays_in_play:
  assumes "ok d"
    and "s = run_steps (drain_step q step verdict owe) (drain_start d) es"
    and "s' = run_steps (drain_step q step verdict owe) s es'"
    and "(i, n, t) \<in> in_play q owed s"
  shows "n < q_status_seq q (ds_store s') i \<or> (i, n, t) \<in> in_play q owed s'"
proof -
  have "advances (drain_start d) s"
    using advances_run [OF safe_start [OF assms(1)], of es] unfolding assms(2) next_state_def .
  then have "safe s" "tidy s" by (simp_all add: advances_def)
  from advances_run [OF this, of es'] assms(4) show ?thesis
    unfolding assms(3) next_state_def advances_def play_def by blast
qed

text \<open>One drain on its own, with nothing else running.\<close>

lemma seq_post: "ok d \<Longrightarrow> post_if_current q publish it d = (d', r) \<Longrightarrow> ok d' \<and> q_status_seq q d' = q_status_seq q d"
  by (cases it) (auto simp: post_if_current_def restore_ok restore_seq split: owed_text.splits if_splits)

lemma seq_drain_items:
  "ok d \<Longrightarrow> q_status_seq q (fst (drain_items q publish check items d)) = q_status_seq q d"
proof (induction items arbitrary: d)
  case (Cons it items)
  obtain d1 r where p: "post_if_current q publish it d = (d1, r)" by fastforce
  note seq_post [OF Cons.prems p]
  moreover have "ok d \<Longrightarrow> ok (restore_item q it d) \<and> q_status_seq q (restore_item q it d) = q_status_seq q d" for d
    by (cases it) (simp add: restore_item_def restore_ok restore_seq)
  ultimately show ?case using Cons.IH by (simp add: p Let_def split: prod.splits) (metis fst_conv)
qed simp

lemma seq_drain: "ok d \<Longrightarrow> q_status_seq q (fst (drain_owed q publish check d)) = q_status_seq q d"
  using take_ok [of d] take_seq [of d] seq_drain_items [of "fst (q_claim_owed q d)"]
  by (cases "q_claim_owed q d") (simp add: drain_owed_def)

lemma drain_items_posts: "set (snd (drain_items q publish check items d)) \<subseteq> post_of ` set items"
proof (induction items arbitrary: d)
  case (Cons it items)
  obtain d1 r where p: "post_if_current q publish it d = (d1, r)" by fastforce
  show ?case
    using Cons.IH [of "if r = Unreadable \<or> r = Posted \<and> \<not> check_accepts check it then restore_item q it d1 else d1"]
    by (auto simp: p Let_def case_prod_beta)
qed simp

lemma drain_items_accepts:
  assumes "\<And>j st ds. publish j st ds" and "\<And>it. check_accepts check it"
    and "\<And>j t n. (j, t, n) \<in> set items \<Longrightarrow> q_status_seq q d (job_id j) = n \<and> (\<exists>st ds. t = Json_Pair st ds)"
  shows "drain_items q publish check items d = (d, map post_of items)"
  using assms(3)
proof (induction items)
  case (Cons it items)
  obtain j t n where it: "it = (j, t, n)" by (cases it)
  have "post_if_current q publish it d = (d, Posted)"
    using Cons.prems [of j t n] assms(1) by (auto simp: it post_if_current_def)
  moreover have "drain_items q publish check items d = (d, map post_of items)"
    by (rule Cons.IH, rule Cons.prems) simp
  ultimately show ?case using assms(2) by simp
qed simp

lemma drain_accepts:
  assumes "ok d" and "\<And>j st ds. publish j st ds" and "\<And>it. check_accepts check it"
    and "\<And>i t. owed d i = Some t \<Longrightarrow> \<exists>st ds. t = Json_Pair st ds"
  shows "drain_owed q publish check d =
     (fst (q_claim_owed q d), map post_of (snd (q_claim_owed q d)))"
proof -
  obtain d1 items where c: "q_claim_owed q d = (d1, items)" by fastforce
  have "q_status_seq q d1 (job_id j) = n \<and> (\<exists>st ds. t = Json_Pair st ds)" if "(j, t, n) \<in> set items" for j t n
  proof -
    have "post_of (j, t, n) \<in> owed_set q owed d" using take_items [OF assms(1)] that c by force
    then show ?thesis
      using take_seq [OF assms(1)] assms(4) c by (auto simp: owed_set_def post_of_def)
  qed
  then show ?thesis
    using drain_items_accepts [of publish check items d1] assms(2,3) by (simp add: drain_owed_def c)
qed

end

end
