(* ===== verification/Verdict_Delivery.thy ===== *)
theory Verdict_Delivery
  imports Status_Drain
begin

text \<open>
  The store keeps the promises of the queue protocol, and what follows for the commits: the drain
  and the report endpoint are runs of the interleaved system, the posts about a run never go back
  in time, a verdict is posted once unless a check was refused, and no verdict is lost.
\<close>

section \<open>The store as a verdict queue\<close>

definition other_step :: "db \<Rightarrow> queue_event \<Rightarrow> db" where
  "other_step d e = (if drain_owned e then d else queue_step d e)"

record report_request =
  rq_id :: string
  rq_device :: string
  rq_exit_code :: "int option"
  rq_now :: real
  rq_log :: string
  rq_error :: string
  rq_steps :: "json list"
  rq_status :: owed_text

definition verdict_step :: "report_request \<Rightarrow> db \<Rightarrow> (db \<times> string \<times> owed_text) option" where
  "verdict_step r d =
     (case report (rq_id r) (rq_device r) (rq_exit_code r) (rq_now r) (rq_log r) (rq_error r) (rq_steps r) d of
        Inl _ \<Rightarrow> None
      | Inr (d', _) \<Rightarrow> Some (d', rq_id r, rq_status r))"

definition owed_of :: "db \<Rightarrow> string \<Rightarrow> owed_text option" where
  "owed_of d i = (case row_of d i of None \<Rightarrow> None | Some r \<Rightarrow> r_pending_status r)"

definition known_job :: "db \<Rightarrow> string \<Rightarrow> bool" where
  "known_job d i \<longleftrightarrow> row_of d i \<noteq> None"

lemma job_store_simps [simp]:
  "q_reclaim_expired job_store = reclaim_expired" "q_claim_owed job_store = claim_owed"
  "q_restore_status job_store = restore_status" "q_status_seq job_store = current_seq"
  by (simp_all add: job_store_def)

lemma row_change_moves:
  "row_change r r' \<Longrightarrow> r_status_seq r < r_status_seq r' \<or>
     r_status_seq r = r_status_seq r' \<and> r_pending_status r' = r_pending_status r"
proof (induction rule: row_change.induct)
  case (lose r now err p)
  then show ?case by (cases p) (simp_all add: row_defs)
qed (simp_all add: row_defs)

lemma row_of_enqueue_new:
  assumes "enqueue i0 repo sha rf cmd lbs tmo dv ssha now d = Inr (d', j)" and "row_of d i = None"
    and "row_of d' i = Some r"
  shows "r_pending_status r = None \<and> r_status_seq r = 0"
  using assms
  by (auto simp: enqueue_def Let_def row_of_def lookup_by_append lookup_by_Cons new_row_def
      split: if_splits option.splits)

lemma row_of_update_None:
  assumes "\<And>r. r_id (f r) = r_id r" and "row_of d i = None"
  shows "row_of (on_jobs (update_where P f) d) i = None"
  using assms by (simp add: row_of_on_update)

lemma row_of_settle_None:
  assumes "settle j device exit_code now l err ss d = Inr d'" and "db_wf d" and "row_of d i = None"
  shows "row_of d' i = None"
  using assms(1) db_wf_distinct [OF assms(2)]
proof (cases rule: settle_cases)
  case (error q)
  show ?thesis unfolding error(6) by (rule row_of_update_None) (simp_all add: assms(3))
next
  case (verdict q c)
  show ?thesis unfolding verdict(7) by (rule row_of_update_None) (simp_all add: assms(3))
qed

lemma row_of_claim_None:
  assumes "claim device labels secs now cap d = Inr (d', res)" and "row_of d i = None"
  shows "row_of d' i = None"
  using assms(1)
proof (cases rule: claim_cases)
  case none
  then show ?thesis using assms(2) by simp
next
  case (some p)
  show ?thesis unfolding some(5) by (rule row_of_update_None) (simp_all add: assms(2))
qed

lemma row_of_new:
  assumes "db_wf d" and "row_of d i = None" and "row_of (other_step d e) i = Some r"
  shows "r_pending_status r = None \<and> r_status_seq r = 0"
proof (cases e)
  case Enqueue
  then show ?thesis
    using assms(2,3) row_of_enqueue_new
    by (auto simp: other_step_def drain_owned_def commit_or_def split: sum.splits)
next
  case Claim
  then show ?thesis
    using assms(2,3) row_of_claim_None
    by (auto simp: other_step_def drain_owned_def commit_or_def split: sum.splits)
next
  case Report
  then show ?thesis
    using assms row_of_settle_None
    by (auto simp: other_step_def drain_owned_def commit_or_def report_def rbind_Inr_conv split: sum.splits)
next
  case Renew
  then show ?thesis
    using assms(2,3)
    by (auto simp: other_step_def drain_owned_def commit_or_def renew_def row_of_update_None split: if_splits)
next
  case Reclaim
  then show ?thesis using assms by (simp add: other_step_def drain_owned_def reclaim_expired_def row_of_expire)
next
  case Owe
  then show ?thesis
    using assms by (simp add: other_step_def drain_owned_def owe_status_def row_of_update_None)
qed (use assms in \<open>simp_all add: other_step_def drain_owned_def row_of_def\<close>)

lemma moves_by_rows:
  assumes "\<And>i r. row_of d i = Some r \<Longrightarrow> \<exists>r'. row_of d' i = Some r' \<and> row_change r r'"
    and "\<And>i r. row_of d i = None \<Longrightarrow> row_of d' i = Some r \<Longrightarrow> r_pending_status r = None \<and> r_status_seq r = 0"
  shows "queue_moves job_store owed_of known_job d d'"
proof -
  have "(current_seq d i < current_seq d' i \<or> current_seq d i = current_seq d' i \<and> owed_of d' i = owed_of d i) \<and>
      (known_job d i \<longrightarrow> known_job d' i)" for i
  proof (cases "row_of d i")
    case None
    then show ?thesis
      using assms(2) [OF None] by (auto simp: current_seq_def owed_of_def known_job_def split: option.splits)
  next
    case (Some r)
    from assms(1) [OF Some] obtain r' where "row_of d' i = Some r'" "row_change r r'" by blast
    with row_change_moves [of r r'] Some show ?thesis
      by (auto simp: current_seq_def owed_of_def known_job_def)
  qed
  then show ?thesis by (simp add: queue_moves_def)
qed

lemma other_step_moves:
  assumes "db_wf d"
  shows "queue_moves job_store owed_of known_job d (other_step d e)"
proof (cases "drain_owned e")
  case True
  then show ?thesis by (simp add: queue_moves_def other_step_def)
next
  case False
  show ?thesis
  proof (rule moves_by_rows)
    show "\<exists>r'. row_of (other_step d e) i = Some r' \<and> row_change r r'" if "row_of d i = Some r" for i r
      using row_change_step [OF assms that False] False by (simp add: other_step_def)
  qed (rule row_of_new [OF assms])
qed

lemma verdict_step_report:
  assumes "verdict_step r d = Some (d', i, t)"
  shows "i = rq_id r" and "t = rq_status r"
    and "settle (rq_id r) (rq_device r) (rq_exit_code r) (rq_now r) (rq_log r) (rq_error r) (rq_steps r) d = Inr d'"
    and "other_step d (Report (rq_id r) (rq_device r) (rq_exit_code r) (rq_now r) (rq_log r) (rq_error r) (rq_steps r)) = d'"
  using assms
  by (auto simp: verdict_step_def other_step_def drain_owned_def report_def rbind_Inr_conv commit_or_def
      split: sum.splits)

lemma settle_supersedes:
  assumes "settle i device exit_code now l err ss d = Inr d'" and "db_wf d"
  shows "current_seq d i < current_seq d' i \<and> owed_of d' i = None \<and> known_job d' i"
  using assms(1) db_wf_distinct [OF assms(2)]
proof (cases rule: settle_cases)
  case (error q)
  have "row_of d' i = Some (release_row (r_attempts q) now err None (supersede_row q))"
    unfolding error(6) using row_of_in [OF error(1)] error(1) by (simp add: row_of_on_update)
  with error(1) show ?thesis by (simp add: current_seq_def owed_of_def known_job_def row_defs)
next
  case (verdict q c)
  have "row_of d' i = Some (verdict_row c l ss q)"
    unfolding verdict(7) using row_of_in [OF verdict(1)] verdict(1) by (simp add: row_of_on_update)
  with verdict(1) show ?thesis by (simp add: current_seq_def owed_of_def known_job_def row_defs)
qed

lemma row_of_claim_owed:
  "db_wf d \<Longrightarrow> row_of (fst (claim_owed d)) i = map_option clear_row (row_of d i)"
  by (simp add: claim_owed_eq db_wf_distinct row_of_on_map)

lemma row_of_restore:
  "row_of (restore_status j tx n d) i =
     map_option (\<lambda>r. if r_id r = j \<and> r_pending_status r = None \<and> r_status_seq r = n then restore_row tx r else r)
       (row_of d i)"
  by (simp add: restore_status_def row_of_on_update)

lemma row_of_owe:
  "row_of (owe_status j tx d) i = map_option (\<lambda>r. if r_id r = j then owe_row tx r else r) (row_of d i)"
  by (simp add: owe_status_def row_of_on_update)

lemma claim_owed_items:
  assumes "db_wf d"
  shows "post_of ` set (snd (claim_owed d)) = owed_set job_store owed_of d"
    and "distinct (map (fst \<circ> post_of) (snd (claim_owed d)))"
proof -
  let ?item = "\<lambda>r. (row_job r, the (r_pending_status r), r_status_seq r)"
  have items: "snd (claim_owed d) = map ?item (owed_rows d)" by (simp add: claim_owed_def Let_def)
  have rows: "row_of d (r_id r) = Some r" if "r \<in> set (jobs d)" for r
    using lookup_by_unique [OF db_wf_distinct [OF assms] that] by (simp add: row_of_def)
  have "p \<in> post_of ` set (snd (claim_owed d)) \<longleftrightarrow> p \<in> owed_set job_store owed_of d" for p
  proof -
    obtain i n t where p: "p = (i, n, t)" by (cases p)
    have "p \<in> post_of ` set (snd (claim_owed d)) \<longleftrightarrow>
        (\<exists>r \<in> set (jobs d). r_pending_status r = Some t \<and> r_id r = i \<and> r_status_seq r = n)"
      by (auto simp: items p owed_rows_def post_of_def row_job_def image_iff)
    also have "\<dots> \<longleftrightarrow> p \<in> owed_set job_store owed_of d"
      using rows row_of_in by (force simp: p owed_set_def owed_of_def current_seq_def split: option.splits)
    finally show ?thesis .
  qed
  then show "post_of ` set (snd (claim_owed d)) = owed_set job_store owed_of d" by blast
  have "map (fst \<circ> post_of) (snd (claim_owed d)) = map r_id (owed_rows d)"
    by (simp add: items comp_def post_of_def row_job_def)
  moreover have "distinct (map r_id (owed_rows d))"
    using db_wf_distinct [OF assms]
    by (auto simp: owed_rows_def distinct_map inj_on_def)
  ultimately show "distinct (map (fst \<circ> post_of) (snd (claim_owed d)))" by simp
qed

interpretation delivery: verdict_queue job_store schema_db other_step verdict_step owe_status db_wf owed_of known_job
proof (unfold_locales, goal_cases)
  case 1
  show ?case by (rule db_wf_schema)
next
  case (2 d e)
  then show ?case by (simp add: other_step_def db_wf_step)
next
  case (3 d e)
  then show ?case by (rule other_step_moves)
next
  case (4 d i t)
  then show ?case by (auto simp: owed_of_def known_job_def split: option.splits)
next
  case (15 d r d' i t)
  then show ?case
    using verdict_step_report [OF 15(2)] by (auto intro: db_wf_settle)
next
  case (16 d r d' i t)
  then show ?case
    using verdict_step_report(4) [OF 16(2)] other_step_moves by metis
next
  case (17 d r d' i t)
  then show ?case
    using verdict_step_report(1,3) [OF 17(2)] settle_supersedes by auto
next
  case (19 d i t)
  show ?case
    by (rule moves_by_rows) (auto simp: row_of_owe intro: row_change.intros)
qed (auto simp: db_wf_ledger claim_owed_items row_of_claim_owed row_of_restore current_seq_def owed_of_def
      known_job_def row_defs fun_eq_iff row_of_in split: option.splits)

section \<open>The drain is a run of the interleaved system\<close>

lemma remove_nth_append [simp]: "remove_nth (length xs) (xs @ y # ys) = xs @ ys"
  by (simp add: remove_nth_def)

definition item_events ::
  "'d job_queue \<Rightarrow> (job \<Rightarrow> string \<Rightarrow> string \<Rightarrow> bool) \<Rightarrow> (job \<Rightarrow> bool) option \<Rightarrow> nat \<Rightarrow> nat \<Rightarrow> owed_item \<Rightarrow> 'd \<Rightarrow>
   ('e, 'r) drain_event list" where
  "item_events q publish check hand after it d =
     (case it of (j, tx, seq) \<Rightarrow>
       (case tx of
          Other_Text _ \<Rightarrow> [Post hand False, Finish after False]
        | Json_Pair state description \<Rightarrow>
           (if q_status_seq q d (job_id j) \<noteq> seq then [Post hand False]
            else if publish j state description then [Post hand True, Finish after (check_accepts check it)]
            else [Post hand False])))"

lemma item_events_run:
  assumes "ds_hand s = h @ it # items" and "post_if_current q publish it (ds_store s) = (d1, r)"
    and "d2 = (if r = Unreadable \<or> r = Posted \<and> \<not> check_accepts check it then restore_item q it d1 else d1)"
  shows "run_steps (drain_step q step verdict owe) s
      (item_events q publish check (length h) (length (ds_after s)) it (ds_store s)) =
    s\<lparr>ds_store := d2, ds_hand := h @ items, ds_posts := ds_posts s @ (if r = Posted then [post_of it] else [])\<rparr>"
  using assms
  by (cases it)
     (auto simp: item_events_def post_if_current_def post_step_def finish_step_def nth_append restore_item_def Let_def
       split: owed_text.splits if_splits)

lemma drain_items_run:
  assumes "ds_hand s = h @ items"
  shows "\<exists>es. run_steps (drain_step q step verdict owe) s es =
    s\<lparr>ds_store := fst (drain_items q publish check items (ds_store s)), ds_hand := h,
      ds_posts := ds_posts s @ snd (drain_items q publish check items (ds_store s))\<rparr>"
  using assms
proof (induction items arbitrary: s)
  case Nil
  then show ?case by (intro exI [of _ "[]"]) simp
next
  case (Cons it items)
  obtain d1 r where post: "post_if_current q publish it (ds_store s) = (d1, r)" by fastforce
  let ?d2 = "if r = Unreadable \<or> r = Posted \<and> \<not> check_accepts check it then restore_item q it d1 else d1"
  let ?s = "s\<lparr>ds_store := ?d2, ds_hand := h @ items, ds_posts := ds_posts s @ (if r = Posted then [post_of it] else [])\<rparr>"
  note one = item_events_run [OF Cons.prems post refl, of step verdict owe check]
  obtain es where "run_steps (drain_step q step verdict owe) ?s es =
      ?s\<lparr>ds_store := fst (drain_items q publish check items ?d2), ds_hand := h,
        ds_posts := ds_posts ?s @ snd (drain_items q publish check items ?d2)\<rparr>"
    using Cons.IH [of ?s] by auto
  with one show ?case
    by (intro exI [of _ "item_events q publish check (length h) (length (ds_after s)) it (ds_store s) @ es"])
       (simp add: run_steps_append post Let_def split: prod.splits)
qed

lemma drain_owed_run:
  "\<exists>es. run_steps (drain_step q step verdict owe) s es =
     s\<lparr>ds_store := fst (drain_owed q publish check (ds_store s)),
       ds_posts := ds_posts s @ snd (drain_owed q publish check (ds_store s))\<rparr>"
proof -
  obtain d1 items where c: "q_claim_owed q (ds_store s) = (d1, items)" by fastforce
  let ?s = "s\<lparr>ds_store := d1, ds_hand := ds_hand s @ items\<rparr>"
  obtain es where "run_steps (drain_step q step verdict owe) ?s es =
      ?s\<lparr>ds_store := fst (drain_items q publish check items d1), ds_hand := ds_hand s,
        ds_posts := ds_posts s @ snd (drain_items q publish check items d1)\<rparr>"
    using drain_items_run [of ?s "ds_hand s" items q step verdict owe publish check] by auto
  then show ?thesis
    by (intro exI [of _ "Take # es"]) (simp add: c drain_owed_def)
qed

text \<open>
  C35: the drain the timer and the claim endpoint run is one run of the interleaved system: from
  any state, whatever other drains hold, some sequence of its steps takes the verdicts out of the
  queue, posts them, closes their checks and puts back what failed, and ends in the state and with
  the posts \<open>drain_owed\<close> computes. What holds of every interleaving therefore holds of the code.
\<close>

theorem drain_is_an_interleaving:
  "\<exists>es. run_steps (drain_step job_store other_step verdict_step owe_status) s es =
     s\<lparr>ds_store := fst (drain_owed job_store publish check (ds_store s)),
       ds_posts := ds_posts s @ snd (drain_owed job_store publish check (ds_store s))\<rparr>"
  by (rule drain_owed_run)

section \<open>What the commits see\<close>

abbreviation verdict_system :: "(queue_event, report_request) drain_event list \<Rightarrow> db drain_state" where
  "verdict_system es \<equiv> run_steps (drain_step job_store other_step verdict_step owe_status) (drain_start schema_db) es"

text \<open>
  C3: the statuses posted about a run never go back in time. However drains, reports, claims and
  reclaims interleave, and whichever posts and checks are refused, the sequence numbers of the
  verdicts posted to a run's commit never decrease.
\<close>

theorem posts_never_go_back: "sorted (posts_to i (verdict_system es))"
  by (rule delivery.posts_in_order [OF db_wf_schema])

text \<open>
  A verdict is posted once. Unless a check run is refused after its status was posted, which
  puts the verdict back on purpose, no two posts about a run carry the same sequence number, over
  every interleaving of drains, reports and store operations.
\<close>

theorem posts_once_without_refused_check:
  assumes "list_all (\<lambda>e. \<not> refuses_check e) es"
  shows "sorted_wrt (<) (posts_to i (verdict_system es))"
  by (rule delivery.posts_at_most_once [OF db_wf_schema assms])

text \<open>
  C4: no verdict is lost. Once a run owes a verdict, then after any further steps the run has been
  given a later one, or this one is still owed, held by a drain that has yet to post it or close
  its check, or has been posted.
\<close>

theorem owed_verdict_is_never_lost:
  assumes "owed_of (ds_store (verdict_system es)) i = Some tx"
    and "n = current_seq (ds_store (verdict_system es)) i"
    and "s' = verdict_system (es @ es')"
  shows "n < current_seq (ds_store s') i \<or>
     owed_of (ds_store s') i = Some tx \<and> current_seq (ds_store s') i = n \<or>
     (i, n, tx) \<in> post_of ` set (ds_hand s') \<or>
     (i, n, tx) \<in> (post_of \<circ> fst) ` set (ds_after s') \<or>
     (i, n, tx) \<in> set (ds_posts s')"
proof -
  have "(i, n, tx) \<in> in_play job_store owed_of (verdict_system es)"
    using assms(1,2) by (simp add: in_play_def owed_set_def)
  from delivery.verdict_stays_in_play [OF db_wf_schema refl refl this, of es'] show ?thesis
    unfolding assms(3) run_steps_append by (auto simp: in_play_def owed_set_def)
qed

section \<open>One drain, one tick, one report\<close>

lemma drain_in_play:
  assumes "db_wf d" and "owed_of d i = Some tx"
  shows "(i, current_seq d i, tx) \<in> set (snd (drain_owed job_store publish check d)) \<or>
     owed_of (fst (drain_owed job_store publish check d)) i = Some tx"
proof -
  let ?r = "drain_owed job_store publish check d"
  obtain es where es: "run_steps (drain_step job_store other_step verdict_step owe_status) (drain_start d) es =
      (drain_start d)\<lparr>ds_store := fst ?r, ds_posts := ds_posts (drain_start d) @ snd ?r\<rparr>"
    using drain_owed_run [of job_store other_step verdict_step owe_status "drain_start d" publish check]
    by (auto simp: drain_start_def)
  have play: "(i, current_seq d i, tx) \<in> in_play job_store owed_of (drain_start d)"
    using assms(2) by (simp add: in_play_def owed_set_def drain_start_def)
  have seq: "current_seq (fst ?r) = current_seq d"
    using delivery.seq_drain [OF assms(1), of publish check] by simp
  have "current_seq d i < current_seq (fst ?r) i \<or>
      (i, current_seq d i, tx) \<in> in_play job_store owed_of
        ((drain_start d)\<lparr>ds_store := fst ?r, ds_posts := ds_posts (drain_start d) @ snd ?r\<rparr>)"
    using delivery.verdict_stays_in_play [OF assms(1), of "drain_start d" "[]" _ es] play es by fastforce
  then show ?thesis
    unfolding seq by (auto simp: in_play_def owed_set_def drain_start_def seq)
qed

text \<open>
  A drain keeps what it cannot deliver. Whatever the publisher and the check refuse and
  whatever texts do not decode, every verdict a drain found owed has been posted or is owed
  still, it posts nothing else, and no run's sequence number moves.
\<close>

theorem drain_posts_or_keeps:
  assumes "db_wf d" and "drain_owed job_store publish check d = (d', posts)"
  shows "set posts \<subseteq> {(i, current_seq d i, tx) | i tx. owed_of d i = Some tx} \<and>
     (\<forall>i tx. owed_of d i = Some tx \<longrightarrow> (i, current_seq d i, tx) \<in> set posts \<or> owed_of d' i = Some tx) \<and>
     current_seq d' = current_seq d"
proof (intro conjI allI impI)
  have "set posts \<subseteq> post_of ` set (snd (claim_owed d))"
    using assms(2) delivery.drain_items_posts [of publish check "snd (claim_owed d)" "fst (claim_owed d)"]
    by (simp add: drain_owed_def case_prod_beta)
  then show "set posts \<subseteq> {(i, current_seq d i, tx) | i tx. owed_of d i = Some tx}"
    using claim_owed_items(1) [OF assms(1)] by (auto simp: owed_set_def)
  show "(i, current_seq d i, tx) \<in> set posts \<or> owed_of d' i = Some tx" if "owed_of d i = Some tx" for i tx
    using drain_in_play [OF assms(1) that, of publish check] assms(2) by simp
  show "current_seq d' = current_seq d"
    using delivery.seq_drain [OF assms(1), of publish check] assms(2) by simp
qed

lemma tick_eq:
  "reclaim_tick job_store publish now check discards d =
     (let text_of = (\<lambda>j. json_status (lost_description j LEASE_LOST));
          r = expire now (Some text_of) d;
          dr = drain_owed job_store publish check (fst r)
      in (fst dr, length (snd r), snd dr))"
  by (simp add: reclaim_tick_def release_expired_def reclaim_expired_def Let_def case_prod_beta)

text \<open>
  A run a device lost is reported lost. A tick of the reclaim releases every spent lease, and
  the verdict it owes the commit names the loss, the attempt and the next state: it is posted in
  the same tick, with a sequence number above everything posted about the run before, or is owed
  by the row when the tick ends.
\<close>

theorem tick_reports_lost_run:
  assumes "db_wf d" and "row_of d i = Some r" and "r_status r = Running" and "spent_lease d now r"
    and "reclaim_tick job_store publish now check discards d = (d', n, posts)"
  shows "let tx = json_status (lost_description (row_job r) LEASE_LOST) in
     (i, r_status_seq r + 1, tx) \<in> set posts \<or>
     owed_of d' i = Some tx \<and> current_seq d' i = r_status_seq r + 1"
proof -
  let ?text = "\<lambda>j. json_status (lost_description j LEASE_LOST)"
  let ?d1 = "fst (expire now (Some ?text) d)"
  have dr: "drain_owed job_store publish check ?d1 = (d', posts)"
    using assms(5) by (cases "drain_owed job_store publish check ?d1") (simp add: tick_eq Let_def)
  have wf: "db_wf ?d1" by (rule db_wf_expire [OF assms(1)])
  have "row_of ?d1 i = Some (release_row (r_attempts r) now LEASE_LOST (Some (?text (row_job r))) r)"
    using assms(3,4) by (simp add: row_of_expire [OF assms(1)] assms(2) release_lapsed_def)
  then have now_owed: "owed_of ?d1 i = Some (?text (row_job r))" "current_seq ?d1 i = r_status_seq r + 1"
    by (simp_all add: owed_of_def current_seq_def row_defs)
  have "current_seq d' = current_seq ?d1"
    using delivery.seq_drain [OF wf, of publish check] dr by simp
  with drain_in_play [OF wf now_owed(1), of publish check] now_owed(2) dr show ?thesis
    by (auto simp: Let_def)
qed

text \<open>
  A report tells the commit. When the broker has a GitHub client and answers a report with
  200, the device held the lease, the row has settled, and the status computed from the report has
  been posted with the row's new sequence number or is what the row now owes; a report it answers
  otherwise changes nothing and posts nothing.
\<close>

theorem report_posts_or_owes:
  assumes "db_wf d"
    and "report_endpoint (Some publish) speaks i device raw_error reported log_text raw_steps checked_at now d
         = (d', posts, answer)"
  shows "(case answer of
       Sent c _ \<Rightarrow> c = 200 \<and> speaks device \<and> holds_lease i device checked_at d \<and> current_seq d i < current_seq d' i \<and>
         (\<exists>j. get d i = Some j \<and>
           (let tx = json_status (report_status j (strip raw_error)
                       (if strip raw_error \<noteq> [] then None else reported) log_text (encode_steps raw_steps))
            in posts = [(i, current_seq d' i, tx)] \<and> owed_of d' i = None \<or>
               posts = [] \<and> owed_of d' i = Some tx))
     | Refused _ _ \<Rightarrow> d' = d \<and> posts = [])"
proof (cases "get d i")
  case None
  then show ?thesis using assms(2) by (auto simp: report_endpoint_def)
next
  case (Some j)
  let ?err = "strip raw_error" and ?steps = "encode_steps raw_steps"
  let ?code = "if ?err \<noteq> [] then None else reported"
  let ?status = "report_status j ?err ?code log_text ?steps"
  let ?rep = "report i device ?code now log_text ?err (map step_as_dict ?steps) d"
  show ?thesis
  proof (cases "(?err = [] \<and> reported = None) \<or> \<not> speaks device \<or> \<not> holds_lease i device checked_at d")
    case True
    then show ?thesis
      using assms(2) Some by (auto simp: report_endpoint_def Let_def token_refusal_def lease_refusal_def split: if_splits)
  next
    case False
    then have ep: "(d', posts, answer) = conclude_report (Some publish) i ?status d ?rep"
      using assms(2) Some by (auto simp: report_endpoint_def Let_def)
    show ?thesis
    proof (cases ?rep)
      case (Inl e)
      then show ?thesis using ep by (cases e) (simp_all add: conclude_report_def report_refusal_def)
    next
      case (Inr x)
      obtain d1 g where x: "x = (d1, g)" by (cases x)
      have settled: "settle i device ?code now log_text ?err (map step_as_dict ?steps) d = Inr d1"
        using Inr x by (auto simp: report_def rbind_Inr_conv)
      note laws = settle_supersedes [OF settled assms(1)]
      then obtain r where r: "row_of d1 i = Some r" by (auto simp: known_job_def)
      have owe: "owed_of (owe_status i tx d1) i = Some tx \<and> current_seq (owe_status i tx d1) i = current_seq d1 i + 1" for tx
        using r row_of_in [OF r] by (simp add: owed_of_def current_seq_def row_of_owe owe_row_def)
      have "get d1 i = Some (row_job r)" by (simp add: get_def r)
      then show ?thesis
        using ep laws owe [of "json_status ?status"] False Some unfolding Inr x
        by (cases "publish (row_job r) (fst ?status) (snd ?status)")
           (simp_all add: conclude_report_def settle_and_post_def Let_def)
    qed
  qed
qed

section \<open>Concrete runs\<close>

text \<open>
  A run is queued, leased, lost at 600 and reclaimed; a drain takes the owed verdict, posts it and
  closes its check.
\<close>

definition lost_events :: "(queue_event, report_request) drain_event list" where
  "lost_events =
     [Store (Enqueue ''j1'' ''o/r'' ''c0ffee'' ''refs/heads/main'' [] [''linux''] 3600 (Some ''d1'') None 100),
      Store (Claim ''dev'' [''linux''] 300 200 (Some 2)),
      Store (Owe ''j1'' (Json_Pair ''error'' ''lost''))]"

lemma example_owed_store:
  "ds_store (verdict_system lost_events) = owe_status ''j1'' (Json_Pair ''error'' ''lost'') example_leased"
  by (simp add: lost_events_def other_step_def drain_owned_def example_leased_def example_queue_def drain_start_def)

lemma example_owed_rows:
  "row_of (owe_status ''j1'' (Json_Pair ''error'' ''lost'') example_leased) i =
     (if i = ''j1'' then Some (owe_row (Json_Pair ''error'' ''lost'') (take_lease ''dev'' 500 example_row)) else None)"
  by (simp add: owe_status_def on_jobs_def update_where_def example_leased_eq row_of_def lookup_by_def row_defs
      example_row_def new_row_def)

theorem posts_once_without_refused_check_witness:
  "list_all (\<lambda>e. \<not> refuses_check e) (lost_events @ [Take, Post 0 True, Finish 0 True]) \<and>
   sorted_wrt (<) (posts_to ''j1'' (verdict_system (lost_events @ [Take, Post 0 True, Finish 0 True])))"
  using posts_once_without_refused_check [of "lost_events @ [Take, Post 0 True, Finish 0 True]" "''j1''"]
  by (simp add: lost_events_def)

theorem owed_verdict_is_never_lost_witness:
  "owed_of (ds_store (verdict_system lost_events)) ''j1'' = Some (Json_Pair ''error'' ''lost'') \<and>
   (let s' = verdict_system (lost_events @ [Take]) in
      1 < current_seq (ds_store s') ''j1'' \<or>
      owed_of (ds_store s') ''j1'' = Some (Json_Pair ''error'' ''lost'') \<and> current_seq (ds_store s') ''j1'' = 1 \<or>
      (''j1'', 1, Json_Pair ''error'' ''lost'') \<in> post_of ` set (ds_hand s') \<or>
      (''j1'', 1, Json_Pair ''error'' ''lost'') \<in> (post_of \<circ> fst) ` set (ds_after s') \<or>
      (''j1'', 1, Json_Pair ''error'' ''lost'') \<in> set (ds_posts s'))"
proof -
  have o: "owed_of (ds_store (verdict_system lost_events)) ''j1'' = Some (Json_Pair ''error'' ''lost'')"
    and n: "1 = current_seq (ds_store (verdict_system lost_events)) ''j1''"
    by (simp_all add: example_owed_store owed_of_def current_seq_def example_owed_rows row_defs example_row_def new_row_def)
  from o owed_verdict_is_never_lost [OF o n refl, of "[Take]"] show ?thesis unfolding Let_def by blast
qed

lemma example_owed_wf: "db_wf (owe_status ''j1'' (Json_Pair ''error'' ''lost'') example_leased)"
  by (rule db_wf_ledger [OF example_wf(2)])

theorem drain_posts_or_keeps_witness:
  "\<exists>d' posts. drain_owed job_store (\<lambda>_ _ _. True) None
       (owe_status ''j1'' (Json_Pair ''error'' ''lost'') example_leased) = (d', posts) \<and>
     ((''j1'', 1, Json_Pair ''error'' ''lost'') \<in> set posts \<or> owed_of d' ''j1'' = Some (Json_Pair ''error'' ''lost''))"
proof -
  let ?d = "owe_status ''j1'' (Json_Pair ''error'' ''lost'') example_leased"
  obtain d' posts where r: "drain_owed job_store (\<lambda>_ _ _. True) None ?d = (d', posts)" by fastforce
  have o: "owed_of ?d ''j1'' = Some (Json_Pair ''error'' ''lost'')" "current_seq ?d ''j1'' = 1"
    by (simp_all add: owed_of_def current_seq_def example_owed_rows row_defs example_row_def new_row_def)
  have "(''j1'', current_seq ?d ''j1'', Json_Pair ''error'' ''lost'') \<in> set posts \<or>
      owed_of d' ''j1'' = Some (Json_Pair ''error'' ''lost'')"
    using drain_posts_or_keeps [OF example_owed_wf r] o(1) by blast
  with r o(2) show ?thesis by auto
qed

theorem tick_reports_lost_run_witness:
  "\<exists>d' n posts. reclaim_tick job_store (\<lambda>_ _ _. True) 600 None True example_leased = (d', n, posts) \<and>
     (let tx = json_status (lost_description (row_job (take_lease ''dev'' 500 example_row)) LEASE_LOST) in
      (''j1'', 1, tx) \<in> set posts \<or> owed_of d' ''j1'' = Some tx \<and> current_seq d' ''j1'' = 1)"
proof -
  obtain d' n posts where r: "reclaim_tick job_store (\<lambda>_ _ _. True) 600 None True example_leased = (d', n, posts)"
    by (cases "reclaim_tick job_store (\<lambda>_ _ _. True) 600 None True example_leased")
  have "r_status_seq (take_lease ''dev'' 500 example_row) = 0"
    by (simp add: take_lease_def example_row_def new_row_def)
  with r tick_reports_lost_run [OF example_wf(2) example_leased_row(1,2,5) r] show ?thesis by auto
qed

theorem report_posts_or_owes_witness:
  "\<exists>d' posts. report_endpoint (Some (\<lambda>_ _ _. False)) (\<lambda>_. True) ''j1'' ''other'' [] (Some 0) [] JNull 300 300 example_leased
      = (d', posts, lease_refusal) \<and> d' = example_leased \<and> posts = []"
proof -
  obtain d' posts a where r: "report_endpoint (Some (\<lambda>_ _ _. False)) (\<lambda>_. True) ''j1'' ''other'' [] (Some 0) [] JNull
      300 300 example_leased = (d', posts, a)"
    by (cases "report_endpoint (Some (\<lambda>_ _ _. False)) (\<lambda>_. True) ''j1'' ''other'' [] (Some 0) [] JNull
      300 300 example_leased")
  have "\<not> holds_lease ''j1'' ''other'' 300 example_leased"
    by (simp add: holds_lease_def leased_to_def example_leased_eq take_lease_def)
  then have "a = lease_refusal"
    using r by (auto simp: report_endpoint_def get_def example_leased_row(1) Let_def)
  with report_posts_or_owes [OF example_wf(2) r] r show ?thesis by (simp add: lease_refusal_def)
qed

end
