(* ===== verification/Dispatch_Targets.thy ===== *)
theory Dispatch_Targets
  imports Cindral_Prelude "HOL-Library.Sublist"
begin

text \<open>
  Which repositories, workflows and refs the broker may dispatch to: parsing the policy's
  allowlist (\<open>dispatch_targets.py\<close>, \<open>models.DispatchTarget\<close>), the checks \<open>Policy\<close> runs on it before
  any GitHub request, and the rule for a caller's own checkout ref (\<open>dispatch_ref.py\<close>). A parsed
  TOML value is a \<^typ>\<open>json\<close> value. A refusal is a value that names the branch of the code that
  raised it, with the offending part.
\<close>

section \<open>Repository names\<close>

definition slug_char :: "char \<Rightarrow> bool" where
  "slug_char c \<longleftrightarrow> CHR ''A'' \<le> c \<and> c \<le> CHR ''Z'' \<or> CHR ''a'' \<le> c \<and> c \<le> CHR ''z'' \<or>
     CHR ''0'' \<le> c \<and> c \<le> CHR ''9'' \<or> c \<in> {CHR ''_'', CHR ''.'', CHR ''-''}"

definition is_repository_slug :: "string \<Rightarrow> bool" where
  "is_repository_slug repository \<longleftrightarrow>
     (case split_char CHR ''/'' repository of
        [owner, name] \<Rightarrow> list_all (\<lambda>part. part \<notin> {'''', ''.'', ''..''} \<and> part \<noteq> [] \<and> list_all slug_char part) [owner, name]
      | _ \<Rightarrow> False)"

section \<open>The allowlist\<close>

definition BRANCH_REF_ROOT :: string where "BRANCH_REF_ROOT = ''refs/heads/''"
definition SERVED_MODES :: "string list" where "SERVED_MODES = [''dispatch'', ''device'', ''both'']"
definition PUSH_LANES :: "string list" where "PUSH_LANES = [''auto'', ''device'', ''hosted'']"

definition INVALID_REF_FRAGMENTS :: "string list" where
  "INVALID_REF_FRAGMENTS =
     [''..'', ''//'', [CHR 0x40, CHR 0x7B], [CHR 0x5C], '' '', ''~'', ''^'', '':'', ''?'', ''['', ''*'']"

record dispatch_target =
  t_mode :: string
  t_repository :: string
  t_workflows :: "string list"
  t_refs :: "string list"
  t_push_lane :: string

definition dispatches_to :: "dispatch_target \<Rightarrow> bool" where
  "dispatches_to t \<longleftrightarrow> t_mode t \<in> {''dispatch'', ''both''}"

definition executes_on_device :: "dispatch_target \<Rightarrow> bool" where
  "executes_on_device t \<longleftrightarrow> t_mode t \<in> {''device'', ''both''}"

datatype target_error =
    Dispatch_Not_Table
  | Repositories_Not_Array
  | Entry_Not_Table json
  | Bad_Mode "json option"
  | Bad_Default string
  | Bad_Repository "json option"
  | Workflows_Not_Array string
  | No_Workflow string
  | Bad_Workflow string json
  | Refs_Not_Array string
  | Not_A_Branch string json
  | Misplaced_Wildcard string string
  | Wildcard_Inside_Name string string
  | Bad_Branch_Name string string
  | Bad_Push_Lane string json
  | Duplicate_Repository

definition is_workflow_name :: "string \<Rightarrow> bool" where
  "is_workflow_name workflow \<longleftrightarrow>
     (suffix ''.yml'' workflow \<or> suffix ''.yaml'' workflow) \<and> CHR ''/'' \<notin> set workflow \<and> \<not> prefix ''.'' workflow"

definition has_invalid_fragment :: "string \<Rightarrow> bool" where
  "has_invalid_fragment s \<longleftrightarrow> list_ex (\<lambda>f. sublist f s) INVALID_REF_FRAGMENTS"

definition wildcard_prefix :: "string \<Rightarrow> string" where
  "wildcard_prefix pattern = (if suffix ''*'' pattern then butlast pattern else pattern)"

fun check_ref_pattern :: "string \<Rightarrow> json \<Rightarrow> target_error + string" where
  "check_ref_pattern repository (JStr pattern) =
     (if \<not> prefix BRANCH_REF_ROOT pattern then Inl (Not_A_Branch repository (JStr pattern))
      else if CHR ''*'' \<in> set pattern \<and> \<not> (suffix ''*'' pattern \<and> count_list pattern CHR ''*'' = 1)
      then Inl (Misplaced_Wildcard repository pattern)
      else if suffix ''*'' pattern \<and> \<not> suffix ''/*'' pattern then Inl (Wildcard_Inside_Name repository pattern)
      else if has_invalid_fragment (wildcard_prefix pattern) then Inl (Bad_Branch_Name repository pattern)
      else Inr pattern)"
| "check_ref_pattern repository v = Inl (Not_A_Branch repository v)"

fun check_workflow :: "string \<Rightarrow> json \<Rightarrow> target_error + string" where
  "check_workflow repository (JStr w) =
     (if is_workflow_name w then Inr w else Inl (Bad_Workflow repository (JStr w)))"
| "check_workflow repository v = Inl (Bad_Workflow repository v)"

definition parse_mode :: "json option \<Rightarrow> target_error + string" where
  "parse_mode v = (case v of Some (JStr m) \<Rightarrow> if m \<in> set SERVED_MODES then Inr m else Inl (Bad_Mode v) | _ \<Rightarrow> Inl (Bad_Mode v))"

definition parse_repository :: "json option \<Rightarrow> target_error + string" where
  "parse_repository v =
     (case v of
        Some (JStr r) \<Rightarrow>
          if suffix ''/*'' r
          then (let owner = take (length r - 2) r in
                if owner \<noteq> [] \<and> list_all slug_char owner then Inr r else Inl (Bad_Default r))
          else if is_repository_slug r then Inr r else Inl (Bad_Repository v)
      | _ \<Rightarrow> Inl (Bad_Repository v))"

definition parse_workflows :: "string \<Rightarrow> string \<Rightarrow> json option \<Rightarrow> target_error + string list" where
  "parse_workflows repository mode v =
     (case (case v of None \<Rightarrow> JList [] | Some j \<Rightarrow> j) of
        JList ws \<Rightarrow>
          if mode \<in> {''dispatch'', ''both''} \<and> ws = [] then Inl (No_Workflow repository)
          else traverse (check_workflow repository) ws
      | _ \<Rightarrow> Inl (Workflows_Not_Array repository))"

definition parse_refs :: "string \<Rightarrow> json option \<Rightarrow> target_error + string list" where
  "parse_refs repository v =
     (case (case v of None \<Rightarrow> JList [] | Some j \<Rightarrow> j) of
        JList rs \<Rightarrow> traverse (check_ref_pattern repository) rs
      | _ \<Rightarrow> Inl (Refs_Not_Array repository))"

definition DEFAULT_PUSH_LANE :: string where "DEFAULT_PUSH_LANE = ''hosted''"

definition parse_push_lane :: "string \<Rightarrow> json option \<Rightarrow> target_error + string" where
  "parse_push_lane repository v =
     (case v of None \<Rightarrow> Inr DEFAULT_PUSH_LANE
      | Some JNull \<Rightarrow> Inr DEFAULT_PUSH_LANE
      | Some (JStr l) \<Rightarrow> if l \<in> set PUSH_LANES then Inr l else Inl (Bad_Push_Lane repository (JStr l))
      | Some j \<Rightarrow> Inl (Bad_Push_Lane repository j))"

fun parse_target :: "json \<Rightarrow> target_error + dispatch_target" where
  "parse_target (JObj value) =
     rbind (parse_mode (map_of value ''mode'')) (\<lambda>mode.
     rbind (parse_repository (map_of value ''repository'')) (\<lambda>repository.
     rbind (parse_workflows repository mode (map_of value ''workflows'')) (\<lambda>workflows.
     rbind (parse_refs repository (map_of value ''refs'')) (\<lambda>refs.
     rbind (parse_push_lane repository (map_of value ''push_lane'')) (\<lambda>lane.
     Inr \<lparr>t_mode = mode, t_repository = repository, t_workflows = workflows, t_refs = refs,
          t_push_lane = lane\<rparr>)))))"
| "parse_target v = Inl (Entry_Not_Table v)"

definition dispatch_entries :: "jobj \<Rightarrow> target_error + json list" where
  "dispatch_entries data =
     (case (case map_of data ''dispatch'' of None \<Rightarrow> JObj [] | Some j \<Rightarrow> j) of
        JObj dispatch \<Rightarrow>
          (case (case map_of dispatch ''repositories'' of None \<Rightarrow> JList [] | Some j \<Rightarrow> j) of
             JList entries \<Rightarrow> Inr entries
           | _ \<Rightarrow> Inl Repositories_Not_Array)
      | _ \<Rightarrow> Inl Dispatch_Not_Table)"

definition load_dispatch_targets :: "jobj \<Rightarrow> target_error + dispatch_target list" where
  "load_dispatch_targets data =
     rbind (dispatch_entries data) (\<lambda>entries.
     rbind (traverse parse_target entries) (\<lambda>targets.
     if card (set (map (\<lambda>t. lower (t_repository t)) targets)) \<noteq> length targets
     then Inl Duplicate_Repository else Inr targets))"

section \<open>Checking a dispatch\<close>

definition ref_permitted :: "string \<Rightarrow> string list \<Rightarrow> bool" where
  "ref_permitted candidate patterns \<longleftrightarrow>
     prefix BRANCH_REF_ROOT candidate \<and> candidate \<noteq> BRANCH_REF_ROOT \<and> \<not> has_invalid_fragment candidate \<and>
     list_ex (\<lambda>p. if suffix ''*'' p then prefix (butlast p) candidate else candidate = p) patterns"

definition canonical_ref :: "string \<Rightarrow> string" where
  "canonical_ref rf = (if prefix ''refs/'' rf then rf else BRANCH_REF_ROOT @ rf)"

definition target_for :: "dispatch_target list \<Rightarrow> string \<Rightarrow> dispatch_target option" where
  "target_for targets repository =
     (let lowered = lower repository in
      case find (\<lambda>t. lower (t_repository t) = lowered) targets of
        Some t \<Rightarrow> Some t
      | None \<Rightarrow> find (\<lambda>t. lower (t_repository t) = before CHR ''/'' lowered @ ''/*'') targets)"

datatype dispatch_refusal = Repository_Not_Permitted | Workflow_Not_Permitted | Ref_Not_Permitted

definition check_dispatch :: "dispatch_target list \<Rightarrow> string \<Rightarrow> string \<Rightarrow> string \<Rightarrow> dispatch_refusal + unit" where
  "check_dispatch targets repository workflow rf =
     (case target_for targets repository of
        None \<Rightarrow> Inl Repository_Not_Permitted
      | Some t \<Rightarrow>
          if \<not> dispatches_to t then Inl Repository_Not_Permitted
          else if workflow \<notin> set (t_workflows t) then Inl Workflow_Not_Permitted
          else if \<not> ref_permitted (canonical_ref rf) (t_refs t) then Inl Ref_Not_Permitted
          else Inr ())"

definition push_lane :: "dispatch_target list \<Rightarrow> string \<Rightarrow> string option" where
  "push_lane targets repository =
     (case target_for targets repository of
        None \<Rightarrow> None
      | Some t \<Rightarrow> if \<not> executes_on_device t then None
                 else if \<not> dispatches_to t then Some ''device'' else Some (t_push_lane t))"

definition permits_device :: "dispatch_target list \<Rightarrow> string \<Rightarrow> bool" where
  "permits_device targets repository \<longleftrightarrow>
     (case target_for targets repository of None \<Rightarrow> False | Some t \<Rightarrow> executes_on_device t)"

text \<open>\<open>checked_dispatch_ref\<close>: the caller's inputs, with a permitted checkout ref in canonical form.\<close>

definition CINDRAL_REF_INPUT :: string where "CINDRAL_REF_INPUT = ''cindral_ref''"

definition checked_dispatch_ref ::
  "dispatch_target list \<Rightarrow> string \<Rightarrow> string \<Rightarrow> (string \<rightharpoonup> string) \<Rightarrow> dispatch_refusal + (string \<rightharpoonup> string)" where
  "checked_dispatch_ref targets repository workflow inputs =
     (let named = strip (case inputs CINDRAL_REF_INPUT of None \<Rightarrow> [] | Some s \<Rightarrow> s) in
      if named = [] then Inr inputs
      else rbind (check_dispatch targets repository workflow named) (\<lambda>_.
             Inr (inputs(CINDRAL_REF_INPUT \<mapsto> canonical_ref named))))"

section \<open>What a loaded allowlist guarantees\<close>

text \<open>A parsed entry: its mode, names and refs have the shapes the parser checks.\<close>

definition ref_pattern_ok :: "string \<Rightarrow> bool" where
  "ref_pattern_ok pattern \<longleftrightarrow> prefix BRANCH_REF_ROOT pattern \<and>
     (CHR ''*'' \<in> set pattern \<longrightarrow> suffix ''/*'' pattern)"

definition target_ok :: "dispatch_target \<Rightarrow> bool" where
  "target_ok t \<longleftrightarrow> t_mode t \<in> set SERVED_MODES \<and>
     (dispatches_to t \<longrightarrow> t_workflows t \<noteq> []) \<and>
     list_all is_workflow_name (t_workflows t) \<and> list_all ref_pattern_ok (t_refs t) \<and>
     t_push_lane t \<in> set PUSH_LANES"

lemma check_ref_pattern_ok: "check_ref_pattern repository v = Inr p \<Longrightarrow> ref_pattern_ok p"
  by (cases "(repository, v)" rule: check_ref_pattern.cases) (auto simp: ref_pattern_ok_def split: if_splits)

lemma check_workflow_ok: "check_workflow repository v = Inr w \<Longrightarrow> is_workflow_name w"
  by (cases "(repository, v)" rule: check_workflow.cases) (auto split: if_splits)

lemma traverse_list_all:
  assumes "traverse f xs = Inr ys" and "\<And>x y. f x = Inr y \<Longrightarrow> Q y"
  shows "list_all Q ys"
  using assms(1) unfolding traverse_Inr_iff by induction (auto dest: assms(2))

lemma parse_target_ok: "parse_target v = Inr t \<Longrightarrow> target_ok t"
proof (cases v)
  case (JObj kvs)
  moreover assume "parse_target v = Inr t"
  ultimately obtain mode repository workflows refs lane where t:
      "t = \<lparr>t_mode = mode, t_repository = repository, t_workflows = workflows, t_refs = refs, t_push_lane = lane\<rparr>"
    and mode: "parse_mode (map_of kvs ''mode'') = Inr mode"
    and ws: "parse_workflows repository mode (map_of kvs ''workflows'') = Inr workflows"
    and refs: "parse_refs repository (map_of kvs ''refs'') = Inr refs"
    and lane: "parse_push_lane repository (map_of kvs ''push_lane'') = Inr lane"
    by (auto simp: rbind_Inr_conv)
  have "mode \<in> set SERVED_MODES"
    using mode by (auto simp: parse_mode_def split: option.splits json.splits if_splits)
  moreover have "lane \<in> set PUSH_LANES"
    using lane by (auto simp: parse_push_lane_def PUSH_LANES_def DEFAULT_PUSH_LANE_def
        split: option.splits json.splits if_splits)
  moreover have "list_all ref_pattern_ok refs"
    using refs check_ref_pattern_ok
    by (auto simp: parse_refs_def split: option.splits json.splits intro: traverse_list_all)
  moreover have "list_all is_workflow_name workflows" "mode \<in> {''dispatch'', ''both''} \<longrightarrow> workflows \<noteq> []"
    using ws check_workflow_ok
    by (auto simp: parse_workflows_def traverse_Inr_iff split: option.splits json.splits if_splits
        intro: traverse_list_all [unfolded traverse_Inr_iff])
  ultimately show ?thesis by (simp add: t target_ok_def dispatches_to_def)
qed simp_all

lemma load_targets_ok:
  assumes "load_dispatch_targets data = Inr targets"
  shows "list_all target_ok targets" and "distinct (map (\<lambda>t. lower (t_repository t)) targets)"
proof -
  from assms obtain entries where tr: "traverse parse_target entries = Inr targets"
    and "card (set (map (\<lambda>t. lower (t_repository t)) targets)) = length targets"
    by (auto simp: load_dispatch_targets_def rbind_Inr_conv split: if_splits)
  then show "distinct (map (\<lambda>t. lower (t_repository t)) targets)"
    by (metis card_distinct length_map)
  show "list_all target_ok targets" by (rule traverse_list_all [OF tr parse_target_ok])
qed

lemma target_for_in: "target_for targets repository = Some t \<Longrightarrow> t \<in> set targets \<and>
    (lower (t_repository t) = lower repository \<or>
     lower (t_repository t) = before CHR ''/'' (lower repository) @ ''/*'')"
  by (auto simp: target_for_def Let_def find_Some_iff split: option.splits)

lemma wildcard_split: "suffix ''/*'' p \<Longrightarrow> \<exists>base. p = base @ ''/*'' \<and> butlast p = base @ ''/''"
  by (auto simp: suffix_def butlast_append)

lemma pattern_cases:
  assumes "ref_pattern_ok p" and "if suffix ''*'' p then prefix (butlast p) candidate else candidate = p"
  shows "candidate = p \<or> (\<exists>base rest. p = base @ ''/*'' \<and> candidate = base @ ''/'' @ rest)"
proof (cases "suffix ''*'' p")
  case True
  then have "CHR ''*'' \<in> set p" by (auto simp: suffix_def)
  then obtain base where "p = base @ ''/*''" "butlast p = base @ ''/''"
    using assms(1) wildcard_split by (auto simp: ref_pattern_ok_def)
  with True assms(2) show ?thesis by (auto simp: prefix_def)
qed (use assms in simp)

text \<open>
  C40: an allowed dispatch is inside the allowlist. When a policy loaded from its file permits a
  dispatch, one of its entries names the repository, exactly or by its owner, serves the dispatch
  path and names the workflow, which is a workflow file name; and the ref is a branch, never a
  tag, a pull-request ref or a malformed name, that one of the entry's patterns names exactly or
  contains below a path boundary.
\<close>

theorem permitted_dispatch_is_named:
  assumes "load_dispatch_targets data = Inr targets"
    and "check_dispatch targets repository workflow rf = Inr ()"
  shows "\<exists>t \<in> set targets.
     (lower (t_repository t) = lower repository \<or>
      lower (t_repository t) = before CHR ''/'' (lower repository) @ ''/*'') \<and>
     dispatches_to t \<and> workflow \<in> set (t_workflows t) \<and> is_workflow_name workflow \<and>
     (\<exists>branch. branch \<noteq> [] \<and> canonical_ref rf = BRANCH_REF_ROOT @ branch) \<and>
     \<not> has_invalid_fragment (canonical_ref rf) \<and>
     (\<exists>p \<in> set (t_refs t). canonical_ref rf = p \<or>
        (\<exists>base rest. p = base @ ''/*'' \<and> canonical_ref rf = base @ ''/'' @ rest))"
proof -
  from assms(2) obtain t where t: "target_for targets repository = Some t" "dispatches_to t"
      "workflow \<in> set (t_workflows t)" "ref_permitted (canonical_ref rf) (t_refs t)"
    by (auto simp: check_dispatch_def split: option.splits if_splits)
  note named = target_for_in [OF t(1)]
  then have ok: "target_ok t" using load_targets_ok(1) [OF assms(1)] by (auto simp: list_all_iff)
  from t(4) obtain p where p: "p \<in> set (t_refs t)"
      "if suffix ''*'' p then prefix (butlast p) (canonical_ref rf) else canonical_ref rf = p"
    by (auto simp: ref_permitted_def list_ex_iff)
  have "ref_pattern_ok p" using ok p(1) by (auto simp: target_ok_def list_all_iff)
  note matched = pattern_cases [OF this p(2)]
  have "\<exists>branch. branch \<noteq> [] \<and> canonical_ref rf = BRANCH_REF_ROOT @ branch"
    using t(4) by (auto simp: ref_permitted_def prefix_def)
  moreover have "is_workflow_name workflow" using ok t(3) by (simp add: target_ok_def list_all_iff)
  moreover have "\<not> has_invalid_fragment (canonical_ref rf)" using t(4) by (simp add: ref_permitted_def)
  ultimately show ?thesis using named t(2,3) p(1) matched by blast
qed

text \<open>
  An exact entry governs its repository. In a loaded allowlist the entry that names a
  repository, whatever its casing, decides its dispatches, its push lane and its device access
  alone; an owner default decides only for repositories no entry names.
\<close>

theorem exact_entry_governs:
  assumes "load_dispatch_targets data = Inr targets" and "t \<in> set targets"
    and "lower (t_repository t) = lower repository"
  shows "target_for targets repository = Some t \<and>
     (permits_device targets repository \<longleftrightarrow> executes_on_device t) \<and>
     (\<not> dispatches_to t \<longrightarrow> check_dispatch targets repository workflow rf = Inl Repository_Not_Permitted)"
proof -
  have "find (\<lambda>u. lower (t_repository u) = lower repository) targets = Some t"
  proof (cases "find (\<lambda>u. lower (t_repository u) = lower repository) targets")
    case None
    then show ?thesis using assms(2,3) by (auto simp: find_None_iff)
  next
    case (Some u)
    then have "u \<in> set targets" "lower (t_repository u) = lower repository" by (auto simp: find_Some_iff)
    with distinct_key_eq [OF load_targets_ok(2) [OF assms(1)], of u t] assms(2,3) Some show ?thesis by simp
  qed
  then have "target_for targets repository = Some t" by (simp add: target_for_def Let_def)
  then show ?thesis by (simp add: permits_device_def check_dispatch_def)
qed

lemma canonical_ref_idem [simp]: "canonical_ref (canonical_ref rf) = canonical_ref rf"
  by (simp add: canonical_ref_def BRANCH_REF_ROOT_def)

text \<open>
  The checkout ref a dispatch carries is one the policy checked. When the broker accepts a
  caller's inputs, every other input is as the caller sent it, and the checkout ref is either
  blank, so the adapter falls back to the dispatch ref, or a full branch ref that passes the same
  check as it stands: what was checked is what is checked out.
\<close>

theorem checkout_ref_is_checked:
  assumes "checked_dispatch_ref targets repository workflow inputs = Inr inputs'"
  shows "(\<forall>k. k \<noteq> CINDRAL_REF_INPUT \<longrightarrow> inputs' k = inputs k) \<and>
     (strip (case inputs' CINDRAL_REF_INPUT of None \<Rightarrow> [] | Some s \<Rightarrow> s) = [] \<and> inputs' = inputs \<or>
      (\<exists>rf. inputs' CINDRAL_REF_INPUT = Some rf \<and> canonical_ref rf = rf \<and> prefix BRANCH_REF_ROOT rf \<and>
         check_dispatch targets repository workflow rf = Inr ()))"
proof -
  let ?named = "strip (case inputs CINDRAL_REF_INPUT of None \<Rightarrow> [] | Some s \<Rightarrow> s)"
  show ?thesis
  proof (cases "?named = []")
    case True
    then show ?thesis using assms by (simp add: checked_dispatch_ref_def Let_def)
  next
    case False
    then have ok: "check_dispatch targets repository workflow ?named = Inr ()"
      and eq: "inputs' = inputs(CINDRAL_REF_INPUT \<mapsto> canonical_ref ?named)"
      using assms by (auto simp: checked_dispatch_ref_def Let_def rbind_Inr_conv)
    have "prefix BRANCH_REF_ROOT (canonical_ref ?named)"
      using ok by (auto simp: check_dispatch_def ref_permitted_def split: option.splits if_splits)
    moreover have "check_dispatch targets repository workflow (canonical_ref ?named) = Inr ()"
      using ok unfolding check_dispatch_def canonical_ref_idem .
    ultimately show ?thesis by (simp add: eq)
  qed
qed

section \<open>A concrete allowlist\<close>

definition example_data :: jobj where
  "example_data = [(''dispatch'', JObj [(''repositories'', JList
     [JObj [(''mode'', JStr ''dispatch''), (''repository'', JStr ''Org/App''), (''workflows'', JList [JStr ''ci.yml'']),
            (''refs'', JList [JStr ''refs/heads/main'', JStr ''refs/heads/feature/*''])],
      JObj [(''mode'', JStr ''device''), (''repository'', JStr ''org/*'')]])])]"

definition example_targets :: "dispatch_target list" where
  "example_targets =
     [\<lparr>t_mode = ''dispatch'', t_repository = ''Org/App'', t_workflows = [''ci.yml''],
       t_refs = [''refs/heads/main'', ''refs/heads/feature/*''], t_push_lane = ''hosted''\<rparr>,
      \<lparr>t_mode = ''device'', t_repository = ''org/*'', t_workflows = [], t_refs = [], t_push_lane = ''hosted''\<rparr>]"

lemma example_loaded: "load_dispatch_targets example_data = Inr example_targets"
  by code_simp

lemma example_permitted: "check_dispatch example_targets ''org/APP'' ''ci.yml'' ''feature/x'' = Inr ()"
  by code_simp

theorem permitted_dispatch_is_named_witness:
  "check_dispatch example_targets ''org/APP'' ''ci.yml'' ''feature/x'' = Inr () \<and>
   (\<exists>t. t \<in> set example_targets \<and> dispatches_to t \<and> ''ci.yml'' \<in> set (t_workflows t))"
  using permitted_dispatch_is_named [OF example_loaded example_permitted] example_permitted by blast

theorem exact_entry_governs_witness:
  "\<exists>t. t \<in> set example_targets \<and> target_for example_targets ''ORG/app'' = Some t \<and>
     \<not> permits_device example_targets ''ORG/app''"
proof -
  have "lower (t_repository (hd example_targets)) = lower ''ORG/app''" "\<not> executes_on_device (hd example_targets)"
    "hd example_targets \<in> set example_targets"
    by code_simp+
  with exact_entry_governs [OF example_loaded this(3,1)] show ?thesis by blast
qed

theorem checkout_ref_is_checked_witness:
  "\<exists>inputs' rf. checked_dispatch_ref example_targets ''org/app'' ''ci.yml'' [CINDRAL_REF_INPUT \<mapsto> '' main ''] = Inr inputs' \<and>
     inputs' CINDRAL_REF_INPUT = Some rf \<and> check_dispatch example_targets ''org/app'' ''ci.yml'' rf = Inr ()"
proof -
  have ok: "check_dispatch example_targets ''org/app'' ''ci.yml'' ''main'' = Inr ()" "strip '' main '' = ''main''"
    by code_simp+
  then have eq: "checked_dispatch_ref example_targets ''org/app'' ''ci.yml'' [CINDRAL_REF_INPUT \<mapsto> '' main ''] =
      Inr [CINDRAL_REF_INPUT \<mapsto> canonical_ref ''main'']"
    by (simp add: checked_dispatch_ref_def)
  have "strip (canonical_ref ''main'') \<noteq> []" by code_simp
  with eq checkout_ref_is_checked [OF eq] show ?thesis by auto
qed

end
