(* ===== verification/Metered_Budget.thy ===== *)
theory Metered_Budget
  imports Cindral_Prelude
begin

text \<open>
  The ledger of metered dispatches (\<open>metering.py\<close>) and the monthly ceiling built on it
  (\<open>budget.py\<close>): the UTC month an instant falls in, holds taken, named and given back, and the
  one step that checks the ceiling and takes the hold. The locale \<open>hold_ledger\<close> states what the
  ceiling relies on of a ledger; the ceiling is proved in it once and holds of the SQLite table by
  interpretation. Minutes and instants are reals; the clock is never before 1970.
\<close>

section \<open>UTC months\<close>

definition leap_year :: "nat \<Rightarrow> bool" where
  "leap_year y \<longleftrightarrow> y mod 4 = 0 \<and> (y mod 100 \<noteq> 0 \<or> y mod 400 = 0)"

definition month_length :: "nat \<Rightarrow> nat \<Rightarrow> nat" where
  "month_length y m =
     (if m = 2 then if leap_year y then 29 else 28
      else if m \<in> {4, 6, 9, 11} then 30 else 31)"

lemma month_length_pos [simp]: "0 < month_length y m"
  by (simp add: month_length_def)

definition next_month :: "nat \<times> nat \<Rightarrow> nat \<times> nat" where
  "next_month ym = (case ym of (y, m) \<Rightarrow> if m = 12 then (y + 1, 1) else (y, m + 1))"

text \<open>
  The calendar month a day falls in and the day it starts on, counting days from the first day of
  the month the search starts in.
\<close>

function find_month :: "nat \<times> nat \<Rightarrow> nat \<Rightarrow> nat \<Rightarrow> (nat \<times> nat) \<times> nat" where
  "find_month ym start day =
     (let next = start + month_length (fst ym) (snd ym) in
      if day < next then (ym, start) else find_month (next_month ym) next day)"
  by pat_completeness auto

termination
proof (relation "measure (\<lambda>(ym, start, day). Suc day - start)")
  show "((next_month ym, n, day), ym, start, day) \<in> measure (\<lambda>(ym, start, day). Suc day - start)"
    if "n = start + month_length (fst ym) (snd ym)" "\<not> day < n" for ym n start day
    using that month_length_pos [of "fst ym" "snd ym"] by (simp del: month_length_pos)
qed simp

declare find_month.simps [simp del]

definition epoch_day :: "real \<Rightarrow> nat" where
  "epoch_day epoch = nat \<lfloor>epoch / 86400\<rfloor>"

definition month_start :: "real \<Rightarrow> real" where
  "month_start epoch = 86400 * real (snd (find_month (1970, 1) 0 (epoch_day epoch)))"

definition month_label :: "real \<Rightarrow> nat \<times> nat" where
  "month_label epoch = fst (find_month (1970, 1) 0 (epoch_day epoch))"

lemma find_month_bounds:
  assumes "start \<le> day"
  shows "start \<le> snd (find_month ym start day) \<and> snd (find_month ym start day) \<le> day"
  using assms
proof (induction ym start day rule: find_month.induct)
  case (1 ym start day)
  then show ?case
    by (subst (1 2) find_month.simps) (auto simp: Let_def not_less intro: order_trans)
qed

lemma find_month_mono:
  assumes "start \<le> day" and "day \<le> day'"
  shows "snd (find_month ym start day) \<le> snd (find_month ym start day')"
  using assms
proof (induction ym start day rule: find_month.induct)
  case (1 ym start day)
  let ?next = "start + month_length (fst ym) (snd ym)"
  show ?case
  proof (cases "day < ?next")
    case True
    then have "snd (find_month ym start day) = start" by (subst find_month.simps) (simp add: Let_def)
    then show ?thesis using find_month_bounds [of start day' ym] 1(2,3) by simp
  next
    case False
    then have "find_month ym start day = find_month (next_month ym) ?next day"
      "find_month ym start day' = find_month (next_month ym) ?next day'"
      using 1(3) by (subst find_month.simps, simp add: Let_def)+
    then show ?thesis using 1(1) [OF refl False] False 1(3) by simp
  qed
qed

lemma month_start_le: "0 \<le> epoch \<Longrightarrow> month_start epoch \<le> epoch"
proof -
  assume "0 \<le> epoch"
  then have "real (epoch_day epoch) \<le> epoch / 86400"
    using of_int_floor_le [of "epoch / 86400"] by (simp add: epoch_day_def del: of_int_floor_le)
  moreover have "real (snd (find_month (1970, 1) 0 (epoch_day epoch))) \<le> real (epoch_day epoch)"
    using find_month_bounds [of 0 "epoch_day epoch" "(1970, 1)"] by simp
  ultimately show ?thesis by (simp add: month_start_def)
qed

lemma month_start_mono: "a \<le> b \<Longrightarrow> month_start a \<le> month_start b"
proof -
  assume "a \<le> b"
  then have "epoch_day a \<le> epoch_day b"
    unfolding epoch_day_def by (intro nat_mono floor_mono divide_right_mono) simp_all
  from find_month_mono [OF _ this, of 0 "(1970, 1)"] show ?thesis by (simp add: month_start_def)
qed

section \<open>The ledger of metered dispatches\<close>

definition HOSTED_LANE :: string where "HOSTED_LANE = ''hosted''"
definition REPOSITORY_UNKNOWN :: string where "REPOSITORY_UNKNOWN = ''-''"

record metered_row =
  m_id :: nat
  m_repository :: string
  m_lane :: string
  m_workflow :: string
  m_ref :: string
  m_created_at :: real

type_synonym metered_ledger = "metered_row list"

text \<open>An \<open>INTEGER PRIMARY KEY\<close> left out of an insert is one more than the largest in the table.\<close>

definition next_id :: "metered_ledger \<Rightarrow> nat" where
  "next_id l = (if l = [] then 1 else Suc (Max (set (map m_id l))))"

definition ledger_reserve :: "string \<Rightarrow> string \<Rightarrow> string \<Rightarrow> string \<Rightarrow> real \<Rightarrow> metered_ledger \<Rightarrow> metered_ledger \<times> nat" where
  "ledger_reserve repository lane workflow rf now l =
     (l @ [\<lparr>m_id = next_id l, m_repository = lower repository, m_lane = lane, m_workflow = workflow,
            m_ref = rf, m_created_at = now\<rparr>], next_id l)"

definition ledger_attribute :: "nat option \<Rightarrow> string \<Rightarrow> string \<Rightarrow> string \<Rightarrow> metered_ledger \<Rightarrow> metered_ledger" where
  "ledger_attribute reservation repository workflow rf l =
     (case reservation of None \<Rightarrow> l
      | Some n \<Rightarrow> update_where (\<lambda>r. m_id r = n)
          (\<lambda>r. r\<lparr>m_repository := lower repository, m_workflow := workflow, m_ref := rf\<rparr>) l)"

definition ledger_release :: "nat option \<Rightarrow> metered_ledger \<Rightarrow> metered_ledger" where
  "ledger_release reservation l =
     (case reservation of None \<Rightarrow> l | Some n \<Rightarrow> filter (\<lambda>r. m_id r \<noteq> n) l)"

definition ledger_count :: "real \<Rightarrow> string \<Rightarrow> metered_ledger \<Rightarrow> nat" where
  "ledger_count since lane l = rowcount (\<lambda>r. m_lane r = lane \<and> m_created_at r \<ge> since) l"

lemma next_id_fresh: "r \<in> set l \<Longrightarrow> m_id r < next_id l"
  by (auto simp: next_id_def less_Suc_eq_le)

text \<open>Giving a hold back undoes taking it, whatever the ledger held.\<close>

lemma release_reserved:
  "ledger_reserve repository lane workflow rf now l = (l', n) \<Longrightarrow> ledger_release (Some n) l' = l"
  using next_id_fresh by (fastforce simp: ledger_reserve_def ledger_release_def filter_id_conv)

text \<open>
  What the ceiling relies on of a ledger: how many holds a month has, seen through \<open>count\<close>, and what
  taking, naming and giving back a hold does to it.
\<close>

locale hold_ledger =
  fixes count :: "real \<Rightarrow> 'l \<Rightarrow> nat" and holds_in :: "real \<Rightarrow> 'l \<Rightarrow> nat"
    and reserve :: "real \<Rightarrow> 'l \<Rightarrow> 'l" and release :: "nat option \<Rightarrow> 'l \<Rightarrow> 'l" and attribute :: "'a \<Rightarrow> 'l \<Rightarrow> 'l"
  assumes holds_counted: "since \<le> month \<Longrightarrow> holds_in month l \<le> count since l"
    and reserve_holds: "0 \<le> now \<Longrightarrow> holds_in month (reserve now l) =
          holds_in month l + (if month_start now = month then 1 else 0)"
    and release_holds: "holds_in month (release r l) \<le> holds_in month l"
    and attribute_holds: "holds_in month (attribute a l) = holds_in month l"
begin

definition under_ceiling :: "real \<Rightarrow> real \<Rightarrow> 'l \<Rightarrow> bool" where
  "under_ceiling budget rate l \<longleftrightarrow> (\<forall>month. holds_in month l = 0 \<or> real (holds_in month l) * rate < budget)"

lemma ceiling_reserve:
  assumes "under_ceiling budget rate l" and "0 < rate" and "0 \<le> read_at" and "read_at \<le> written_at"
    and "real (count (month_start read_at) l) * rate + rate < budget"
  shows "under_ceiling budget rate (reserve written_at l)"
proof -
  have "real (holds_in (month_start written_at) l + 1) * rate < budget"
  proof -
    have "holds_in (month_start written_at) l \<le> count (month_start read_at) l"
      by (rule holds_counted) (rule month_start_mono [OF assms(4)])
    then have "real (holds_in (month_start written_at) l) * rate \<le> real (count (month_start read_at) l) * rate"
      using assms(2) by (intro mult_right_mono) simp_all
    then show ?thesis using assms(5) by (simp add: algebra_simps)
  qed
  then show ?thesis
    using assms(1,3,4) unfolding under_ceiling_def by (auto simp: reserve_holds add.commute)
qed

lemma ceiling_release:
  assumes "under_ceiling budget rate l" and "0 < rate"
  shows "under_ceiling budget rate (release r l)"
  unfolding under_ceiling_def
proof
  fix month
  have "real (holds_in month (release r l)) * rate \<le> real (holds_in month l) * rate"
    using release_holds [of month r l] assms(2) by (intro mult_right_mono) simp_all
  then show "holds_in month (release r l) = 0 \<or> real (holds_in month (release r l)) * rate < budget"
    using assms(1) release_holds [of month r l] unfolding under_ceiling_def
    by (metis le_zero_eq order_le_less_trans)
qed

lemma ceiling_attribute: "under_ceiling budget rate l \<Longrightarrow> under_ceiling budget rate (attribute a l)"
  by (simp add: under_ceiling_def attribute_holds)

end

definition holds_in_month :: "real \<Rightarrow> metered_ledger \<Rightarrow> nat" where
  "holds_in_month month l = rowcount (\<lambda>r. m_lane r = HOSTED_LANE \<and> 0 \<le> m_created_at r \<and> month_start (m_created_at r) = month) l"

interpretation metered: hold_ledger
  "\<lambda>since. ledger_count since HOSTED_LANE" holds_in_month
  "\<lambda>now l. fst (ledger_reserve REPOSITORY_UNKNOWN HOSTED_LANE [] [] now l)"
  ledger_release "\<lambda>(r, repository, workflow, rf). ledger_attribute r repository workflow rf"
proof (unfold_locales, goal_cases)
  case (1 since month l)
  have "m_lane r = HOSTED_LANE \<and> 0 \<le> m_created_at r \<and> month_start (m_created_at r) = month \<Longrightarrow>
      m_lane r = HOSTED_LANE \<and> since \<le> m_created_at r" for r
    using month_start_le [of "m_created_at r"] 1 by auto
  then show ?case unfolding holds_in_month_def ledger_count_def rowcount_def
    by (induction l) auto
next
  case (2 now month l)
  then show ?case by (auto simp: holds_in_month_def ledger_reserve_def rowcount_def)
next
  case (3 month r l)
  then show ?case
    by (induction l) (auto simp: holds_in_month_def ledger_release_def rowcount_def split: option.splits)
next
  case (4 month a l)
  then show ?case
    by (cases a) (induction l, auto simp: holds_in_month_def ledger_attribute_def rowcount_def update_where_def
        split: option.splits)
qed

section \<open>The monthly ceiling\<close>

record dispatch_budget =
  b_monthly_minutes :: real
  b_minutes_per_run :: real

definition new_budget :: "real \<Rightarrow> real \<Rightarrow> dispatch_budget result" where
  "new_budget monthly_minutes minutes_per_run =
     (if monthly_minutes < 0 then Inl (ValueError ''monthly minute budget cannot be negative'')
      else if minutes_per_run \<le> 0 then Inl (ValueError ''assumed minutes per run must be positive'')
      else Inr \<lparr>b_monthly_minutes = monthly_minutes, b_minutes_per_run = minutes_per_run\<rparr>)"

definition dispatches :: "dispatch_budget \<Rightarrow> real \<Rightarrow> metered_ledger \<Rightarrow> nat" where
  "dispatches b now l = ledger_count (month_start now) HOSTED_LANE l"

definition spent_minutes :: "dispatch_budget \<Rightarrow> real \<Rightarrow> metered_ledger \<Rightarrow> real" where
  "spent_minutes b now l = real (dispatches b now l) * b_minutes_per_run b"

definition remaining_minutes :: "dispatch_budget \<Rightarrow> real \<Rightarrow> metered_ledger \<Rightarrow> real" where
  "remaining_minutes b now l = max 0 (b_monthly_minutes b - spent_minutes b now l)"

definition reached :: "dispatch_budget \<Rightarrow> real \<Rightarrow> real \<Rightarrow> metered_ledger \<Rightarrow> bool" where
  "reached b estimated now l \<longleftrightarrow> spent_minutes b now l + max 0 estimated \<ge> b_monthly_minutes b"

text \<open>
  The part of a policy the ceiling reads: the configured ceiling and rate, and what
  \<open>attach_budget\<close> puts in: the count behind \<open>metered_minutes\<close>, the assumed cost, and whether holds can
  be taken and given back.
\<close>

record metered_policy =
  p_minute_budget :: "real option"
  p_minutes_per_run :: real
  p_metered :: "dispatch_budget option"
  p_assumed :: real
  p_reserves :: bool
  p_releases :: bool

text \<open>Why a metered dispatch was refused: the ceiling, the minutes used, and the rate where it is named.\<close>

datatype budget_refusal_reason = Budget_Spent real real "real option"

definition dispatch_cost :: "'p metered_policy_scheme \<Rightarrow> real \<Rightarrow> real" where
  "dispatch_cost p estimated = max 0 (max estimated (p_assumed p))"

definition admits :: "'p metered_policy_scheme \<Rightarrow> real \<Rightarrow> real \<Rightarrow> real \<Rightarrow> bool" where
  "admits p budget used estimated \<longleftrightarrow> used + dispatch_cost p estimated < budget"

definition budget_refusal ::
  "'p metered_policy_scheme \<Rightarrow> real \<Rightarrow> real \<Rightarrow> metered_ledger \<Rightarrow> budget_refusal_reason option" where
  "budget_refusal p estimated now l =
     (case (p_minute_budget p, p_metered p) of
        (Some budget, Some b) \<Rightarrow>
          (let used = spent_minutes b now l in
           if admits p budget used estimated then None else Some (Budget_Spent budget used (Some (p_assumed p))))
      | _ \<Rightarrow> None)"

text \<open>The check reads the clock at \<open>read_at\<close>, the hold is written at \<open>written_at\<close>, both under the budget lock.\<close>

definition reserve_metered ::
  "'p metered_policy_scheme \<Rightarrow> real \<Rightarrow> real \<Rightarrow> real \<Rightarrow> metered_ledger \<Rightarrow>
   metered_ledger \<times> nat option \<times> budget_refusal_reason option" where
  "reserve_metered p estimated read_at written_at l =
     (case (p_minute_budget p, p_metered p) of
        (Some budget, Some b) \<Rightarrow>
          if \<not> p_reserves p then (l, None, budget_refusal p estimated read_at l)
          else (let used = spent_minutes b read_at l in
                if used + dispatch_cost p estimated \<ge> budget
                then (l, None, Some (Budget_Spent budget used None))
                else let (l', n) = ledger_reserve REPOSITORY_UNKNOWN HOSTED_LANE [] [] written_at l
                     in (l', Some n, None))
      | _ \<Rightarrow> (l, None, None))"

definition release_hold :: "'p metered_policy_scheme \<Rightarrow> nat option \<Rightarrow> metered_ledger \<Rightarrow> metered_ledger" where
  "release_hold p reservation l = (if p_releases p then ledger_release reservation l else l)"

definition attach_budget :: "bool \<Rightarrow> 'p metered_policy_scheme \<Rightarrow> 'p metered_policy_scheme result" where
  "attach_budget has_ledger p =
     (case p_minute_budget p of None \<Rightarrow> Inr p
      | Some minutes \<Rightarrow>
          if \<not> has_ledger
          then Inl (ValueError ''a metered minute budget is configured but there is no ledger to count it'')
          else rbind (new_budget minutes (p_minutes_per_run p)) (\<lambda>b.
                 Inr (p\<lparr>p_metered := Some b, p_assumed := b_minutes_per_run b, p_reserves := True,
                        p_releases := True\<rparr>)))"

text \<open>\<open>budget_snapshot\<close>, without the label of the month: the figures a read surface reports.\<close>

record budget_report =
  bs_budget_minutes :: real
  bs_used_minutes :: real
  bs_remaining_minutes :: real
  bs_assumed :: real
  bs_next_admitted :: bool

definition budget_snapshot :: "'p metered_policy_scheme \<Rightarrow> real \<Rightarrow> metered_ledger \<Rightarrow> budget_report option" where
  "budget_snapshot p now l =
     (case (p_minute_budget p, p_metered p) of
        (Some budget, Some b) \<Rightarrow>
          (let used = spent_minutes b now l in
           Some \<lparr>bs_budget_minutes = budget, bs_used_minutes = used, bs_remaining_minutes = max 0 (budget - used),
                 bs_assumed = p_assumed p, bs_next_admitted = admits p budget used 0\<rparr>)
      | _ \<Rightarrow> None)"

section \<open>The ceiling holds\<close>

datatype metered_event =
    Reserve real real real
  | Give_Back "nat option"
  | Name_Hold "nat option" string string string

fun metered_step :: "'p metered_policy_scheme \<Rightarrow> metered_ledger \<Rightarrow> metered_event \<Rightarrow> metered_ledger" where
  "metered_step p l (Reserve estimated read_at written_at) = fst (reserve_metered p estimated read_at written_at l)"
| "metered_step p l (Give_Back r) = release_hold p r l"
| "metered_step p l (Name_Hold r repository workflow rf) = ledger_attribute r repository workflow rf l"

fun clock_ok :: "metered_event \<Rightarrow> bool" where
  "clock_ok (Reserve _ read_at written_at) = (0 \<le> read_at \<and> read_at \<le> written_at)"
| "clock_ok _ = True"

lemma attach_budget_fields:
  assumes "attach_budget has_ledger p = Inr q" and "p_minute_budget p = Some budget"
  shows "p_minute_budget q = Some budget" "\<exists>b. p_metered q = Some b \<and> b_minutes_per_run b = p_minutes_per_run p"
    "p_assumed q = p_minutes_per_run p" "p_reserves q" "p_releases q" "0 < p_minutes_per_run p" "0 \<le> budget"
  using assms
  by (auto simp: attach_budget_def rbind_Inr_conv new_budget_def split: if_splits)

lemma ceiling_step:
  assumes "attach_budget has_ledger p = Inr q" and "p_minute_budget p = Some budget" and "clock_ok e"
    and "metered.under_ceiling budget (p_minutes_per_run p) l"
  shows "metered.under_ceiling budget (p_minutes_per_run p) (metered_step q l e)"
proof -
  note q = attach_budget_fields [OF assms(1,2)]
  obtain b where b: "p_metered q = Some b" "b_minutes_per_run b = p_minutes_per_run p" using q(2) by blast
  show ?thesis
  proof (cases e)
    case (Reserve est r w)
    show ?thesis
    proof (cases "spent_minutes b r l + dispatch_cost q est \<ge> budget")
      case True
      then show ?thesis using Reserve q b assms(4) by (simp add: reserve_metered_def Let_def)
    next
      case False
      have "p_minutes_per_run p \<le> dispatch_cost q est" using q(3) by (simp add: dispatch_cost_def)
      with False have "real (ledger_count (month_start r) HOSTED_LANE l) * p_minutes_per_run p + p_minutes_per_run p < budget"
        by (simp add: spent_minutes_def dispatches_def b(2))
      from metered.ceiling_reserve [OF assms(4) q(6) _ _ this, of w] assms(3) Reserve False q b show ?thesis
        by (simp add: reserve_metered_def Let_def case_prod_beta)
    qed
  next
    case (Give_Back r)
    then show ?thesis using metered.ceiling_release [OF assms(4) q(6)] q by (simp add: release_hold_def)
  next
    case (Name_Hold r repository workflow rf)
    then show ?thesis using metered.ceiling_attribute [OF assms(4), of "(r, repository, workflow, rf)"] by simp
  qed
qed

text \<open>
  C5: the monthly ceiling holds. For a policy whose budget was attached to the ledger, whatever
  holds are requested at whatever estimates, named and given back, in any order and across month
  boundaries, every UTC month's holds at the configured rate stay below the ceiling; the clock is
  only required not to step back between a check and its own hold.
\<close>

theorem metered_ceiling_holds:
  assumes "attach_budget True p = Inr q" and "p_minute_budget p = Some budget" and "list_all clock_ok es"
  shows "holds_in_month month (run_steps (metered_step q) [] es) = 0 \<or>
     real (holds_in_month month (run_steps (metered_step q) [] es)) * p_minutes_per_run p < budget"
proof -
  have "metered.under_ceiling budget (p_minutes_per_run p) (run_steps (metered_step q) l es)"
    if "metered.under_ceiling budget (p_minutes_per_run p) l" for l
    using assms(3) that by (induction es arbitrary: l) (auto intro: ceiling_step [OF assms(1,2)])
  moreover have "metered.under_ceiling budget (p_minutes_per_run p) []"
    by (simp add: metered.under_ceiling_def holds_in_month_def rowcount_def)
  ultimately show ?thesis unfolding metered.under_ceiling_def by blast
qed

text \<open>
  The report and the check agree. With a budget attached, the snapshot says the next dispatch
  is admitted exactly when a request that states no estimate would be given a hold, and a refusal
  leaves the ledger as it was.
\<close>

theorem snapshot_agrees_with_check:
  assumes "attach_budget True p = Inr q" and "p_minute_budget p = Some budget"
  shows "(\<exists>report. budget_snapshot q now l = Some report \<and>
       (bs_next_admitted report \<longleftrightarrow> (\<exists>l' n. reserve_metered q 0 now written_at l = (l', Some n, None)))) \<and>
     (\<forall>reason. snd (snd (reserve_metered q estimated now written_at l)) = Some reason \<longrightarrow>
        fst (reserve_metered q estimated now written_at l) = l)"
  using attach_budget_fields [OF assms]
  by (auto simp: budget_snapshot_def reserve_metered_def admits_def Let_def case_prod_beta not_le)

section \<open>A concrete ceiling\<close>

definition example_ceiling :: metered_policy where
  "example_ceiling = \<lparr>p_minute_budget = Some 25, p_minutes_per_run = 10, p_metered = None, p_assumed = 0,
     p_reserves = False, p_releases = False\<rparr>"

definition example_attached :: metered_policy where
  "example_attached = \<lparr>p_minute_budget = Some 25, p_minutes_per_run = 10,
     p_metered = Some \<lparr>b_monthly_minutes = 25, b_minutes_per_run = 10\<rparr>, p_assumed = 10,
     p_reserves = True, p_releases = True\<rparr>"

lemma example_attach: "attach_budget True example_ceiling = Inr example_attached"
  by (simp add: attach_budget_def example_ceiling_def example_attached_def new_budget_def)

theorem metered_ceiling_holds_witness:
  "holds_in_month 0 (run_steps (metered_step example_attached) [] [Reserve 0 0 0, Reserve 5 1 1, Give_Back (Some 1)]) = 0 \<or>
   real (holds_in_month 0 (run_steps (metered_step example_attached) [] [Reserve 0 0 0, Reserve 5 1 1, Give_Back (Some 1)])) * 10 < 25"
  using metered_ceiling_holds [OF example_attach, of 25 "[Reserve 0 0 0, Reserve 5 1 1, Give_Back (Some 1)]" 0]
  by (simp add: example_ceiling_def)

theorem snapshot_agrees_with_check_witness:
  "\<exists>report. budget_snapshot example_attached 0 [] = Some report \<and>
     (bs_next_admitted report \<longleftrightarrow> (\<exists>l' n. reserve_metered example_attached 0 0 0 [] = (l', Some n, None)))"
  using snapshot_agrees_with_check [OF example_attach, of 25 0 "[]" 0 0]
  by (simp only: example_ceiling_def metered_policy.simps)

end
