(* ===== verification/Quota_Source.thy ===== *)
theory Quota_Source
  imports Metered_Budget
begin

text \<open>
  What hosted quota the broker believes it has: the readings the two billing endpoints can
  honestly give (\<open>billing.py\<close>) and the cache that serves the last good one until it is stale or its
  month has ended (\<open>quota.py\<close>). The HTTP request is a parameter \<open>get\<close> that answers with a payload or
  a failure reason; threads and timeouts are not modelled. A month is its year and number.
\<close>

section \<open>Readings\<close>

definition QUOTA_AVAILABLE :: string where "QUOTA_AVAILABLE = ''available''"
definition QUOTA_EXHAUSTED :: string where "QUOTA_EXHAUSTED = ''exhausted''"
definition QUOTA_UNKNOWN :: string where "QUOTA_UNKNOWN = ''unknown''"

datatype quota_origin = Actions_Billing | Billing_Usage | No_Source

datatype quota_reason = Unauthorized | Unreachable | Malformed | Unavailable | Stale | New_Month | No_Reading

record quota_reading =
  qr_status :: string
  qr_source :: quota_origin
  qr_observed_at :: real
  qr_included :: "real option"
  qr_used :: "real option"
  qr_paid :: "real option"
  qr_remaining :: "real option"
  qr_period :: "(nat \<times> nat) option"
  qr_reason :: "quota_reason option"

definition minutes_of :: "json option \<Rightarrow> real option" where
  "minutes_of v = (case v of Some (JInt n) \<Rightarrow> Some (of_int n) | Some (JFloat x) \<Rightarrow> Some x | _ \<Rightarrow> None)"

definition or_zero :: "real option \<Rightarrow> real" where
  "or_zero v = (case v of None \<Rightarrow> 0 | Some x \<Rightarrow> x)"

definition legacy_reading :: "jobj \<Rightarrow> real \<Rightarrow> quota_reason + quota_reading" where
  "legacy_reading payload observed_at =
     (case (minutes_of (map_of payload ''included_minutes''), minutes_of (map_of payload ''total_minutes_used'')) of
        (Some included, Some used) \<Rightarrow>
          Inr \<lparr>qr_status = (if included > used then QUOTA_AVAILABLE else QUOTA_EXHAUSTED),
               qr_source = Actions_Billing, qr_observed_at = observed_at, qr_included = Some included,
               qr_used = Some used, qr_paid = Some (or_zero (minutes_of (map_of payload ''total_paid_minutes_used''))),
               qr_remaining = Some (max (included - used) 0), qr_period = None, qr_reason = None\<rparr>
      | _ \<Rightarrow> Inl Malformed)"

definition text_field :: "string \<Rightarrow> jobj \<Rightarrow> string" where
  "text_field k item = (case map_of item k of Some (JStr s) \<Rightarrow> lower s | _ \<Rightarrow> [])"

definition counts_minutes :: "jobj \<Rightarrow> bool" where
  "counts_minutes item \<longleftrightarrow> text_field ''product'' item = ''actions'' \<and> text_field ''unitType'' item = ''minutes''"

fun sum_usage :: "json list \<Rightarrow> real \<Rightarrow> real \<Rightarrow> quota_reason + real \<times> real" where
  "sum_usage [] used paid = Inr (used, paid)"
| "sum_usage (JObj item # items) used paid =
     (if \<not> counts_minutes item then sum_usage items used paid
      else case minutes_of (map_of item ''quantity'') of None \<Rightarrow> Inl Malformed
           | Some quantity \<Rightarrow>
               (let net = or_zero (minutes_of (map_of item ''netAmount''));
                    price = or_zero (minutes_of (map_of item ''pricePerUnit''))
                in if net \<le> 0 then sum_usage items (used + quantity) paid
                   else sum_usage items (used + quantity) (paid + (if price \<le> 0 then quantity else net / price))))"
| "sum_usage (_ # items) used paid = Inl Malformed"

definition enhanced_reading :: "jobj \<Rightarrow> nat \<times> nat \<Rightarrow> real \<Rightarrow> quota_reason + quota_reading" where
  "enhanced_reading payload period observed_at =
     (case map_of payload ''usageItems'' of
        Some (JList items) \<Rightarrow>
          rbind (sum_usage items 0 0) (\<lambda>(used, paid).
            Inr \<lparr>qr_status = QUOTA_UNKNOWN, qr_source = Billing_Usage, qr_observed_at = observed_at,
                 qr_included = None, qr_used = Some used, qr_paid = Some paid, qr_remaining = None,
                 qr_period = Some period, qr_reason = None\<rparr>)
      | _ \<Rightarrow> Inl Malformed)"

definition reason_for_status :: "nat \<Rightarrow> quota_reason" where
  "reason_for_status status =
     (if status \<in> {401, 403} then Unauthorized else if status \<in> {404, 410} then Unavailable
      else if status \<in> {400, 422} then Malformed else Unreachable)"

fun failure_rank :: "quota_reason \<Rightarrow> nat" where
  "failure_rank Unauthorized = 0"
| "failure_rank Unreachable = 1"
| "failure_rank Malformed = 2"
| "failure_rank _ = 3"

definition worst_failure :: "quota_reason \<Rightarrow> quota_reason \<Rightarrow> quota_reason" where
  "worst_failure first second = (if failure_rank first \<le> failure_rank second then first else second)"

section \<open>Reading GitHub billing\<close>

datatype billing_request = Org_Actions_Billing string | Org_Profile string | Org_Usage int nat nat

definition organization_id ::
  "(billing_request \<Rightarrow> quota_reason + jobj) \<Rightarrow> string \<Rightarrow> (string \<rightharpoonup> int) \<Rightarrow> quota_reason + (string \<rightharpoonup> int) \<times> int" where
  "organization_id get_json organization ids =
     (case ids organization of Some n \<Rightarrow> Inr (ids, n)
      | None \<Rightarrow>
          rbind (get_json (Org_Profile organization)) (\<lambda>payload.
            case map_of payload ''id'' of Some (JInt n) \<Rightarrow> Inr (ids(organization \<mapsto> n), n) | _ \<Rightarrow> Inl Malformed))"

text \<open>\<open>BillingClient.read\<close>: the reading or the reason, and the organization ids known afterwards.\<close>

definition read_billing ::
  "(billing_request \<Rightarrow> quota_reason + jobj) \<Rightarrow> string \<Rightarrow> real \<Rightarrow> (string \<rightharpoonup> int) \<Rightarrow>
   (string \<rightharpoonup> int) \<times> (quota_reason + quota_reading)" where
  "read_billing get_json organization now ids =
     (case rbind (get_json (Org_Actions_Billing organization)) (\<lambda>payload. legacy_reading payload now) of
        Inr reading \<Rightarrow> (ids, Inr reading)
      | Inl first \<Rightarrow>
          (case organization_id get_json organization ids of
             Inl second \<Rightarrow> (ids, Inl (worst_failure first second))
           | Inr (ids', n) \<Rightarrow>
               (let period = month_label now in
                case get_json (Org_Usage n (fst period) (snd period)) of
                  Inl second \<Rightarrow> (ids', Inl (worst_failure first second))
                | Inr payload \<Rightarrow> (ids', enhanced_reading payload period now))))"

section \<open>The cache\<close>

record quota_source =
  qs_max_age :: real
  qs_cache :: "quota_reading option"
  qs_failing :: "quota_reason option"

definition note_failure :: "quota_reason \<Rightarrow> quota_source \<Rightarrow> quota_source" where
  "note_failure reason s = s\<lparr>qs_failing := Some reason\<rparr>"

definition refresh :: "quota_reason + quota_reading \<Rightarrow> quota_source \<Rightarrow> quota_source" where
  "refresh outcome s =
     (case outcome of Inl reason \<Rightarrow> note_failure reason s
      | Inr reading \<Rightarrow> s\<lparr>qs_cache := Some reading, qs_failing := None\<rparr>)"

definition unknown_reading :: "real \<Rightarrow> quota_reason \<Rightarrow> quota_reading" where
  "unknown_reading now reason =
     \<lparr>qr_status = QUOTA_UNKNOWN, qr_source = No_Source, qr_observed_at = now, qr_included = None,
      qr_used = None, qr_paid = None, qr_remaining = None, qr_period = None, qr_reason = Some reason\<rparr>"

definition month_matches :: "quota_reading \<Rightarrow> real \<Rightarrow> bool" where
  "month_matches r now \<longleftrightarrow> (case qr_period r of None \<Rightarrow> True | Some m \<Rightarrow> m = month_label now)"

text \<open>\<open>current\<close>; \<open>outcome\<close> is what the billing read answers if this call has to make one.\<close>

definition current :: "quota_reason + quota_reading \<Rightarrow> real \<Rightarrow> quota_source \<Rightarrow> quota_source \<times> quota_reading" where
  "current outcome now s =
     (case qs_cache s of
        Some r \<Rightarrow>
          if now - qr_observed_at r \<le> qs_max_age s
          then if month_matches r now then (s, r)
               else let s' = refresh outcome s in
                    (case qs_cache s' of
                       Some r' \<Rightarrow> if month_matches r' now then (s', r') else (s', unknown_reading now New_Month)
                     | None \<Rightarrow> (s', unknown_reading now New_Month))
          else (s, unknown_reading now (case qs_failing s of None \<Rightarrow> Stale | Some f \<Rightarrow> f))
      | None \<Rightarrow> (s, unknown_reading now (case qs_failing s of None \<Rightarrow> No_Reading | Some f \<Rightarrow> f)))"

section \<open>What a served reading means\<close>

lemma quota_statuses [simp]:
  "QUOTA_AVAILABLE \<noteq> QUOTA_UNKNOWN" "QUOTA_EXHAUSTED \<noteq> QUOTA_UNKNOWN" "QUOTA_AVAILABLE \<noteq> QUOTA_EXHAUSTED"
  by (simp_all add: QUOTA_AVAILABLE_def QUOTA_EXHAUSTED_def QUOTA_UNKNOWN_def)

text \<open>
  Quota that is served is current. Whenever the source states a status other than unknown, the
  reading is the one it caches, it belongs to the month of the clock if it names one, and it is
  within the age bound or was read by this very call; a failed read never replaces it.
\<close>

theorem served_quota_is_current:
  assumes "current outcome now s = (s', r)" and "qr_status r \<noteq> QUOTA_UNKNOWN"
  shows "qs_cache s' = Some r \<and> month_matches r now \<and>
     (qs_cache s = Some r \<and> now - qr_observed_at r \<le> qs_max_age s \<or> outcome = Inr r)"
  using assms
  by (auto simp: current_def refresh_def note_failure_def unknown_reading_def Let_def
      split: option.splits if_splits sum.splits)

text \<open>A reading that steers a lane: one that states the allowance, with what is left of it.\<close>

definition allowance_reading :: "quota_reading \<Rightarrow> bool" where
  "allowance_reading r \<longleftrightarrow>
     (qr_status r = QUOTA_UNKNOWN \<or>
      (\<exists>included used. qr_source r = Actions_Billing \<and> qr_included r = Some included \<and> qr_used r = Some used \<and>
         qr_status r = (if used < included then QUOTA_AVAILABLE else QUOTA_EXHAUSTED) \<and>
         qr_remaining r = Some (max (included - used) 0)))"

lemma legacy_allowance: "legacy_reading payload t = Inr r \<Longrightarrow> allowance_reading r"
  by (auto simp: legacy_reading_def allowance_reading_def split: option.splits)

lemma enhanced_unknown: "enhanced_reading payload period t = Inr r \<Longrightarrow> qr_status r = QUOTA_UNKNOWN"
  by (auto simp: enhanced_reading_def rbind_Inr_conv split: option.splits json.splits)

lemma enhanced_allowance: "enhanced_reading payload period t = Inr r \<Longrightarrow> allowance_reading r"
  by (simp add: enhanced_unknown allowance_reading_def)

lemma read_allowance: "read_billing get_json organization now ids = (ids', Inr r) \<Longrightarrow> allowance_reading r"
  by (auto simp: read_billing_def Let_def rbind_Inr_conv split: sum.splits prod.splits
      dest: enhanced_allowance legacy_allowance)

text \<open>
  The source with the client behind it: a refresh reads billing, a route request asks for the
  current reading, and either may meet any answer from GitHub.
\<close>

definition needs_read :: "real \<Rightarrow> quota_source \<Rightarrow> bool" where
  "needs_read now s \<longleftrightarrow>
     (case qs_cache s of None \<Rightarrow> False
      | Some r \<Rightarrow> now - qr_observed_at r \<le> qs_max_age s \<and> \<not> month_matches r now)"

datatype quota_event =
    Refresh_Quota "billing_request \<Rightarrow> quota_reason + jobj" real
  | Ask_Quota "billing_request \<Rightarrow> quota_reason + jobj" real real

record quota_client =
  qc_ids :: "string \<rightharpoonup> int"
  qc_source :: quota_source

fun quota_step :: "string \<Rightarrow> quota_client \<Rightarrow> quota_event \<Rightarrow> quota_client" where
  "quota_step organization c (Refresh_Quota get_json t) =
     (let (ids, outcome) = read_billing get_json organization t (qc_ids c)
      in \<lparr>qc_ids = ids, qc_source = refresh outcome (qc_source c)\<rparr>)"
| "quota_step organization c (Ask_Quota get_json t now) =
     (let (ids, outcome) = read_billing get_json organization t (qc_ids c)
      in \<lparr>qc_ids = (if needs_read now (qc_source c) then ids else qc_ids c),
          qc_source = fst (current outcome now (qc_source c))\<rparr>)"

definition quota_start :: "real \<Rightarrow> quota_client" where
  "quota_start max_age = \<lparr>qc_ids = Map.empty, qc_source = \<lparr>qs_max_age = max_age, qs_cache = None, qs_failing = None\<rparr>\<rparr>"

definition cache_ok :: "quota_client \<Rightarrow> bool" where
  "cache_ok c \<longleftrightarrow> (\<forall>r. qs_cache (qc_source c) = Some r \<longrightarrow> allowance_reading r)"

lemma cache_ok_refresh:
  assumes "\<forall>r. qs_cache s = Some r \<longrightarrow> allowance_reading r"
    and "read_billing get_json organization t ids = (ids', outcome)" and "qs_cache (refresh outcome s) = Some r"
  shows "allowance_reading r"
  using assms read_allowance by (auto simp: refresh_def note_failure_def split: sum.splits)

lemma current_state: "fst (current outcome now s) = s \<or> fst (current outcome now s) = refresh outcome s"
  by (auto simp: current_def Let_def split: option.splits)

interpretation quota_cache: invariant_system "quota_start max_age" "quota_step organization" cache_ok for max_age organization
proof (unfold_locales, goal_cases)
  case 1
  show ?case by (simp add: cache_ok_def quota_start_def)
next
  case (2 c e)
  show ?case
  proof (cases e)
    case (Refresh_Quota g t)
    obtain ids outcome where rd: "read_billing g organization t (qc_ids c) = (ids, outcome)" by fastforce
    have old: "\<forall>r. qs_cache (qc_source c) = Some r \<longrightarrow> allowance_reading r" using 2 by (simp add: cache_ok_def)
    have "qc_source (quota_step organization c e) = refresh outcome (qc_source c)"
      by (simp add: Refresh_Quota rd)
    then show ?thesis using cache_ok_refresh [OF old rd] unfolding cache_ok_def by simp
  next
    case (Ask_Quota g t now)
    obtain ids outcome where rd: "read_billing g organization t (qc_ids c) = (ids, outcome)" by fastforce
    have old: "\<forall>r. qs_cache (qc_source c) = Some r \<longrightarrow> allowance_reading r" using 2 by (simp add: cache_ok_def)
    have src: "qc_source (quota_step organization c e) = fst (current outcome now (qc_source c))"
      by (simp add: Ask_Quota rd Let_def)
    show ?thesis
    proof (unfold cache_ok_def src, intro allI impI)
      fix r assume "qs_cache (fst (current outcome now (qc_source c))) = Some r"
      then have "qs_cache (qc_source c) = Some r \<or> qs_cache (refresh outcome (qc_source c)) = Some r"
        using current_state [of outcome now "qc_source c"] by metis
      then show "allowance_reading r" using old cache_ok_refresh [OF old rd] by blast
    qed
  qed
qed

text \<open>
  Only a stated allowance steers a lane. Whatever GitHub answers over any sequence of
  refreshes and requests, a reading that states a status came from the endpoint that reports an
  allowance, says available exactly when minutes are left of it, and carries how many; a usage
  report never does.
\<close>

theorem only_an_allowance_states_a_status:
  assumes "c = run_steps (quota_step organization) (quota_start max_age) es"
    and "read_billing get_json organization t (qc_ids c) = (ids, outcome)"
    and "current outcome now (qc_source c) = (s', r)" and "qr_status r \<noteq> QUOTA_UNKNOWN"
  shows "\<exists>included used. qr_source r = Actions_Billing \<and> qr_included r = Some included \<and> qr_used r = Some used \<and>
     qr_status r = (if used < included then QUOTA_AVAILABLE else QUOTA_EXHAUSTED) \<and>
     qr_remaining r = Some (max (included - used) 0)"
proof -
  have "cache_ok c" unfolding assms(1) by (rule quota_cache.inv_run)
  then have "allowance_reading r"
    using assms(2-4) read_allowance
    by (auto simp: cache_ok_def current_def refresh_def note_failure_def unknown_reading_def Let_def
        split: option.splits if_splits sum.splits)
  with assms(4) show ?thesis by (auto simp: allowance_reading_def)
qed

section \<open>A concrete reading\<close>

definition example_get :: "billing_request \<Rightarrow> quota_reason + jobj" where
  "example_get rq = (case rq of
     Org_Actions_Billing _ \<Rightarrow> Inr [(''included_minutes'', JInt 2000), (''total_minutes_used'', JInt 500)]
   | _ \<Rightarrow> Inl Unavailable)"

definition example_client :: quota_client where
  "example_client = run_steps (quota_step ''org'') (quota_start 900) [Refresh_Quota example_get 100]"

lemma example_read:
  "read_billing example_get ''org'' t ids = (ids, legacy_reading [(''included_minutes'', JInt 2000), (''total_minutes_used'', JInt 500)] t)"
  by (simp add: read_billing_def example_get_def legacy_reading_def minutes_of_def)

lemma example_served:
  "\<exists>s' r. current (snd (read_billing example_get ''org'' 200 (qc_ids example_client))) 200 (qc_source example_client) = (s', r) \<and>
     qr_status r = QUOTA_AVAILABLE"
  by (simp add: example_client_def example_read legacy_reading_def minutes_of_def refresh_def current_def quota_start_def
      month_matches_def)

theorem served_quota_is_current_witness:
  "\<exists>s' r. current (Inl Unreachable) 200 (qc_source example_client) = (s', r) \<and> qs_cache s' = Some r"
proof -
  obtain s' r where c: "current (Inl Unreachable) 200 (qc_source example_client) = (s', r)" "qr_status r = QUOTA_AVAILABLE"
    by (simp add: example_client_def example_read legacy_reading_def minutes_of_def refresh_def current_def quota_start_def
        month_matches_def)
  with served_quota_is_current [OF c(1)] show ?thesis by auto
qed

theorem only_an_allowance_states_a_status_witness:
  "\<exists>s' r. current (snd (read_billing example_get ''org'' 200 (qc_ids example_client))) 200 (qc_source example_client) = (s', r) \<and>
     qr_source r = Actions_Billing"
proof -
  obtain s' r where c: "current (snd (read_billing example_get ''org'' 200 (qc_ids example_client))) 200 (qc_source example_client) = (s', r)"
      "qr_status r = QUOTA_AVAILABLE"
    using example_served by blast
  have "qr_status r \<noteq> QUOTA_UNKNOWN" using c(2) by simp
  from only_an_allowance_states_a_status [OF example_client_def _ c(1) this, of example_get 200 "qc_ids example_client"] c(1)
  show ?thesis by (auto simp: example_read)
qed

end
