(* ===== verification/Route_Policy.thy ===== *)
theory Route_Policy
  imports Quota_Source
begin

text \<open>
  Which lane a run takes: the routing half of \<open>policy.py\<close>, its request, runner and decision records
  (\<open>models.py\<close>) and the webhook's retry over busy runners (\<open>dispatch_capacity.py\<close>). The ledger of
  metered holds is threaded through, since a decision takes a hold before it routes and gives it
  back when the lane costs nothing. The labels a decision asks for are a set, as in the code; a
  user-visible reason is a value with the parts the text interpolates. The quota reading is what
  the quota source answers, or None without one.
\<close>

section \<open>Requests, runners and decisions\<close>

record runner =
  rn_name :: string
  rn_status :: string
  rn_busy :: bool
  rn_labels :: "string set"
  rn_healthy :: bool

record route_request =
  rq_lane :: string
  rq_target :: "string option"
  rq_visibility :: string
  rq_quota_status :: string
  rq_remaining :: "real option"
  rq_estimated :: real

definition lane_request :: "string \<Rightarrow> string option \<Rightarrow> route_request" where
  "lane_request lane target =
     \<lparr>rq_lane = lane, rq_target = target, rq_visibility = ''private'', rq_quota_status = ''unknown'',
      rq_remaining = None, rq_estimated = 10\<rparr>"

datatype route_reason =
    Hosted_Selected
  | Public_Uses_Hosted
  | Hosted_Quota_Available
  | Quota_Is_Unknown
  | Quota_Is_Exhausted
  | Quota_Too_Thin real real
  | Metered_Budget_Spent budget_refusal_reason
  | Explicit_Lane string
  | Selected_Locally route_reason string
  | Queued_When_Idle route_reason

record route_decision =
  rd_lane :: string
  rd_runs_on :: "string set"
  rd_reason :: route_reason
  rd_runner :: "string option"
  rd_reservation :: "nat option"

datatype route_unavailable =
    Unknown_Lane string
  | Device_Needs_Target
  | Unknown_Device string
  | No_Eligible_Runner string
  | No_Local_Runner route_reason
  | Minutes_Not_A_Number

record policy = metered_policy +
  p_hosted_runner :: "string set"
  p_local_priority :: "string list"
  p_device_priority :: "string list"
  p_lane_labels :: "string \<rightharpoonup> string set"
  p_minimum_remaining :: real
  p_reserve_minutes :: real
  p_paid_overage :: string
  p_unknown_quota :: string

section \<open>Choosing a lane\<close>

definition eligible :: "string set \<Rightarrow> runner \<Rightarrow> bool" where
  "eligible required r \<longleftrightarrow> rn_healthy r \<and> rn_status r = ''online'' \<and> \<not> rn_busy r \<and> required \<subseteq> rn_labels r"

definition first_eligible :: "runner list \<Rightarrow> string set \<Rightarrow> runner option" where
  "first_eligible runners required = min_by rn_name (filter (eligible required) runners)"

definition hosted :: "policy \<Rightarrow> route_reason \<Rightarrow> route_decision" where
  "hosted p reason =
     \<lparr>rd_lane = ''hosted'', rd_runs_on = p_hosted_runner p, rd_reason = reason, rd_runner = None, rd_reservation = None\<rparr>"

definition target_named :: "route_request \<Rightarrow> bool" where
  "target_named rq \<longleftrightarrow> (case rq_target rq of None \<Rightarrow> False | Some t \<Rightarrow> t \<noteq> [])"

definition required_labels :: "string set \<Rightarrow> route_request \<Rightarrow> string set" where
  "required_labels labels rq =
     (if rq_lane rq = ''device'' \<and> target_named rq then insert (the (rq_target rq)) labels else labels)"

definition explicit_lane :: "policy \<Rightarrow> route_request \<Rightarrow> runner list \<Rightarrow> route_unavailable + route_decision" where
  "explicit_lane p rq runners =
     (case p_lane_labels p (rq_lane rq) of
        None \<Rightarrow> Inl (Unknown_Lane (rq_lane rq))
      | Some labels \<Rightarrow>
          if rq_lane rq = ''device'' \<and> \<not> target_named rq then Inl Device_Needs_Target
          else if rq_lane rq = ''device'' \<and> the (rq_target rq) \<notin> set (p_device_priority p)
          then Inl (Unknown_Device (the (rq_target rq)))
          else (case first_eligible runners (required_labels labels rq) of
                  None \<Rightarrow> Inl (No_Eligible_Runner (rq_lane rq))
                | Some r \<Rightarrow>
                    Inr \<lparr>rd_lane = rq_lane rq, rd_runs_on = required_labels labels rq,
                         rd_reason = Explicit_Lane (rq_lane rq), rd_runner = Some (rn_name r), rd_reservation = None\<rparr>))"

fun first_local_from ::
  "policy \<Rightarrow> string list \<Rightarrow> route_request \<Rightarrow> runner list \<Rightarrow> route_reason \<Rightarrow> route_unavailable + route_decision" where
  "first_local_from p [] rq runners reason = Inl (No_Local_Runner reason)"
| "first_local_from p (lane # lanes) rq runners reason =
     (if lane = ''device'' then first_local_from p lanes rq runners reason
      else case explicit_lane p (lane_request lane (rq_target rq)) runners of
             Inl _ \<Rightarrow> first_local_from p lanes rq runners reason
           | Inr d \<Rightarrow> Inr (d\<lparr>rd_reason := Selected_Locally reason lane\<rparr>))"

definition first_local :: "policy \<Rightarrow> route_request \<Rightarrow> runner list \<Rightarrow> route_reason \<Rightarrow> route_unavailable + route_decision" where
  "first_local p rq runners reason = first_local_from p (p_local_priority p) rq runners reason"

definition fits :: "policy \<Rightarrow> route_request \<Rightarrow> real \<Rightarrow> bool" where
  "fits p rq remaining \<longleftrightarrow> remaining - rq_estimated rq - p_reserve_minutes p \<ge> p_minimum_remaining p"

definition hosted_quota_available :: "policy \<Rightarrow> route_request \<Rightarrow> bool" where
  "hosted_quota_available p rq =
     (if rq_quota_status rq \<in> {''available'', ''paid_allowed''}
      then (case rq_remaining rq of None \<Rightarrow> True | Some m \<Rightarrow> fits p rq m)
      else if rq_quota_status rq = ''unknown'' then p_unknown_quota p = ''hosted''
      else if rq_quota_status rq = ''exhausted'' then p_paid_overage p = ''allow''
      else (case rq_remaining rq of None \<Rightarrow> False | Some m \<Rightarrow> fits p rq m))"

text \<open>
  The reason a request leaves the hosted lane. Formatting an absent figure raises a TypeError, the
  one way routing fails that is no RouteUnavailable.
\<close>

definition thin_reason :: "route_request \<Rightarrow> route_unavailable + route_reason" where
  "thin_reason rq =
     (if rq_quota_status rq = ''unknown'' then Inr Quota_Is_Unknown
      else if rq_quota_status rq = ''exhausted'' then Inr Quota_Is_Exhausted
      else case rq_remaining rq of
             None \<Rightarrow> Inl Minutes_Not_A_Number
           | Some m \<Rightarrow> Inr (Quota_Too_Thin m (rq_estimated rq)))"

definition choose_lane :: "policy \<Rightarrow> route_request \<Rightarrow> runner list \<Rightarrow> route_unavailable + route_decision" where
  "choose_lane p rq runners =
     (if rq_lane rq = ''hosted'' then Inr (hosted p Hosted_Selected)
      else if rq_lane rq \<noteq> ''auto'' then explicit_lane p rq runners
      else if rq_visibility rq = ''public'' then Inr (hosted p Public_Uses_Hosted)
      else if hosted_quota_available p rq then Inr (hosted p Hosted_Quota_Available)
      else case thin_reason rq of
             Inl e \<Rightarrow> Inl e
           | Inr reason \<Rightarrow> first_local p rq runners reason)"

text \<open>\<open>_choose\<close>: hold the cost, route, and keep the hold only for a hosted decision.\<close>

definition choose_held ::
  "policy \<Rightarrow> route_request \<Rightarrow> runner list \<Rightarrow> real \<Rightarrow> real \<Rightarrow> metered_ledger \<Rightarrow>
   metered_ledger \<times> (route_unavailable + route_decision)" where
  "choose_held p rq runners read_at written_at l =
     (case reserve_metered p (rq_estimated rq) read_at written_at l of
        (l1, _, Some refusal) \<Rightarrow> (l1, first_local p rq runners (Metered_Budget_Spent refusal))
      | (l1, reservation, None) \<Rightarrow>
          (case choose_lane p rq runners of
             Inl e \<Rightarrow> (release_hold p reservation l1, Inl e)
           | Inr d \<Rightarrow>
               if reservation \<noteq> None \<and> rd_lane d = HOSTED_LANE
               then (l1, Inr (d\<lparr>rd_reservation := reservation\<rparr>))
               else if reservation \<noteq> None then (release_hold p reservation l1, Inr d)
               else (l1, Inr d)))"

text \<open>\<open>_quota_reading\<close>: only an automatic, private request that states no quota consults the source.\<close>

definition consults_quota :: "route_request \<Rightarrow> bool" where
  "consults_quota rq \<longleftrightarrow> rq_lane rq = ''auto'' \<and> rq_visibility rq = ''private'' \<and>
     rq_quota_status rq = ''unknown'' \<and> rq_remaining rq = None"

definition with_reading :: "quota_reading option \<Rightarrow> route_request \<Rightarrow> route_request" where
  "with_reading source rq =
     (case source of
        Some r \<Rightarrow> if consults_quota rq \<and> qr_status r \<noteq> QUOTA_UNKNOWN
                  then rq\<lparr>rq_quota_status := qr_status r, rq_remaining := qr_remaining r\<rparr> else rq
      | None \<Rightarrow> rq)"

definition choose_route ::
  "policy \<Rightarrow> quota_reading option \<Rightarrow> route_request \<Rightarrow> runner list \<Rightarrow> real \<Rightarrow> real \<Rightarrow> metered_ledger \<Rightarrow>
   metered_ledger \<times> (route_unavailable + route_decision)" where
  "choose_route p source rq runners read_at written_at l =
     choose_held p (with_reading source rq) runners read_at written_at l"

text \<open>\<open>choose_webhook_lane\<close>; each attempt reads the quota and the clock again.\<close>

definition choose_webhook_lane ::
  "policy \<Rightarrow> quota_reading option \<Rightarrow> quota_reading option \<Rightarrow> route_request \<Rightarrow> runner list \<Rightarrow> bool \<Rightarrow> real \<Rightarrow> real \<Rightarrow> real \<Rightarrow> real \<Rightarrow> metered_ledger \<Rightarrow>
   metered_ledger \<times> (route_unavailable + route_decision)" where
  "choose_webhook_lane p source source' rq runners allow_busy t1 t2 t3 t4 l =
     (case choose_route p source rq runners t1 t2 l of
        (l1, Inr d) \<Rightarrow> (l1, Inr d)
      | (l1, Inl e) \<Rightarrow>
          if e = Minutes_Not_A_Number \<or> \<not> allow_busy then (l1, Inl e)
          else (let online = map (\<lambda>r. r\<lparr>rn_busy := False\<rparr>) (filter (\<lambda>r. rn_status r = ''online'') runners) in
                case choose_route p source' rq online t3 t4 l1 of
                  (l2, Inr d) \<Rightarrow> (l2, Inr (d\<lparr>rd_reason := Queued_When_Idle (rd_reason d)\<rparr>))
                | (l2, Inl e2) \<Rightarrow> (l2, Inl e2)))"

text \<open>\<open>overlapping_reservations\<close>: how many recent reservations an idle runner could be holding this run for.\<close>

definition overlapping_reservations :: "runner list \<Rightarrow> string set \<Rightarrow> (real \<times> string set) list \<Rightarrow> nat" where
  "overlapping_reservations runners required reservations =
     length (filter (\<lambda>(_, labels).
       list_ex (\<lambda>r. labels \<union> required \<subseteq> rn_labels r) (filter (\<lambda>r. rn_status r = ''online'' \<and> \<not> rn_busy r) runners))
       reservations)"

section \<open>Eligible runners and lanes\<close>

lemma first_eligible_Some:
  assumes "first_eligible runners required = Some r"
  shows "r \<in> set runners" and "eligible required r"
    and "\<And>q. q \<in> set runners \<Longrightarrow> eligible required q \<Longrightarrow> rn_name r \<le> rn_name q"
  using assms min_by_in [of rn_name "filter (eligible required) runners"] min_by_le [of rn_name "filter (eligible required) runners"]
  by (auto simp: first_eligible_def)

lemma explicit_lane_Inr:
  assumes "explicit_lane p rq runners = Inr d"
  obtains labels r where "p_lane_labels p (rq_lane rq) = Some labels"
    and "first_eligible runners (required_labels labels rq) = Some r"
    and "d = \<lparr>rd_lane = rq_lane rq, rd_runs_on = required_labels labels rq,
              rd_reason = Explicit_Lane (rq_lane rq), rd_runner = Some (rn_name r), rd_reservation = None\<rparr>"
    and "rq_lane rq = ''device'' \<Longrightarrow> target_named rq \<and> the (rq_target rq) \<in> set (p_device_priority p)"
  using assms by (auto simp: explicit_lane_def split: option.splits if_splits)

lemma first_local_from_Inr:
  assumes "first_local_from p lanes rq runners reason = Inr d"
  shows "\<exists>lane d'. lane \<in> set lanes \<and> lane \<noteq> ''device'' \<and>
     explicit_lane p (lane_request lane (rq_target rq)) runners = Inr d' \<and>
     d = d'\<lparr>rd_reason := Selected_Locally reason lane\<rparr>"
  using assms by (induction lanes) (auto split: if_splits sum.splits)

lemma reserve_metered_cases:
  obtains (unlimited) "reserve_metered p est t1 t2 l = (l, None, None)"
  | (refused) reason where "reserve_metered p est t1 t2 l = (l, None, Some reason)"
  | (held) l' n where "reserve_metered p est t1 t2 l = (l', Some n, None)"
      "ledger_reserve REPOSITORY_UNKNOWN HOSTED_LANE [] [] t2 l = (l', n)"
  by (cases "reserve_metered p est t1 t2 l")
     (auto simp: reserve_metered_def budget_refusal_def Let_def split: option.splits if_splits prod.splits)

lemma choose_lane_reservation:
  "choose_lane p rq runners = Inr d \<Longrightarrow> rd_reservation d = None"
  "first_local p rq runners reason = Inr d \<Longrightarrow> rd_reservation d = None"
  by (auto simp: choose_lane_def hosted_def first_local_def split: if_splits sum.splits elim!: explicit_lane_Inr
      dest!: first_local_from_Inr)

lemma first_local_lane:
  "first_local p rq runners reason = Inr d \<Longrightarrow> rd_lane d \<in> set (p_local_priority p) \<and> rd_lane d \<noteq> ''device''"
  by (auto simp: first_local_def lane_request_def elim!: explicit_lane_Inr dest!: first_local_from_Inr)

section \<open>Holds follow hosted decisions\<close>

lemma choose_held_ledger:
  assumes "choose_held p rq runners t1 t2 l = (l', res)" and "p_releases p"
  shows "l' = l \<and> (\<forall>d. res = Inr d \<longrightarrow> rd_reservation d = None) \<or>
     (\<exists>d n. res = Inr d \<and> rd_lane d = ''hosted'' \<and> rd_reservation d = Some n \<and>
        reserve_metered p (rq_estimated rq) t1 t2 l = (l', Some n, None) \<and> ledger_release (Some n) l' = l)"
proof (cases rule: reserve_metered_cases [of p "rq_estimated rq" t1 t2 l])
  case unlimited
  then show ?thesis
    using assms choose_lane_reservation by (auto simp: choose_held_def release_hold_def ledger_release_def split: sum.splits)
next
  case (refused reason)
  then show ?thesis using assms choose_lane_reservation by (auto simp: choose_held_def)
next
  case (held l1 n)
  then show ?thesis
    using assms choose_lane_reservation release_reserved [OF held(2)]
    by (auto simp: choose_held_def release_hold_def HOSTED_LANE_def split: sum.splits if_splits)
qed

lemma hosted_holds:
  assumes "choose_held p rq runners t1 t2 l = (l', Inr d)" and "rd_lane d = ''hosted''"
    and "''hosted'' \<notin> set (p_local_priority p)" and "p_minute_budget p = Some m" and "p_metered p = Some b" and "p_reserves p"
  shows "rd_reservation d \<noteq> None"
proof (cases rule: reserve_metered_cases [of p "rq_estimated rq" t1 t2 l])
  case unlimited
  then show ?thesis using assms by (auto simp: reserve_metered_def Let_def split: if_splits prod.splits)
next
  case (refused reason)
  then show ?thesis
    using assms first_local_lane [of p rq runners "Metered_Budget_Spent reason" d] by (auto simp: choose_held_def)
next
  case (held l1 n)
  then show ?thesis using assms by (auto simp: choose_held_def HOSTED_LANE_def split: sum.splits if_splits)
qed

text \<open>
  A hold exists exactly for a hosted decision. With a ceiling attached, and unless the
  operator listed the hosted lane among the local ones, every hosted decision carries a hold that
  was taken within the ceiling and that giving back restores the ledger; any other decision, and
  any refusal, leaves the ledger as it was.
\<close>

theorem hold_follows_hosted_decision:
  assumes "attach_budget True p = Inr q" and "p_minute_budget p \<noteq> None" and "''hosted'' \<notin> set (p_local_priority q)"
    and "choose_route q source rq runners t1 t2 l = (l', res)"
  shows "case res of
       Inl _ \<Rightarrow> l' = l
     | Inr d \<Rightarrow> (if rd_lane d = ''hosted''
                then \<exists>n. rd_reservation d = Some n \<and>
                       reserve_metered q (rq_estimated rq) t1 t2 l = (l', Some n, None) \<and> ledger_release (Some n) l' = l
                else rd_reservation d = None \<and> l' = l)"
proof -
  obtain m where m: "p_minute_budget p = Some m" using assms(2) by auto
  note q = attach_budget_fields [OF assms(1) m]
  have est: "rq_estimated (with_reading source rq) = rq_estimated rq"
    by (simp add: with_reading_def split: option.splits)
  note ch = assms(4) [unfolded choose_route_def]
  obtain b where "p_metered q = Some b" using q(2) by blast
  note held = hosted_holds [OF _ _ assms(3) q(1) this q(4)]
  show ?thesis
  proof (cases res)
    case (Inl e)
    then show ?thesis using choose_held_ledger [OF ch q(5)] by auto
  next
    case (Inr d)
    have "rd_lane d = ''hosted'' \<Longrightarrow> rd_reservation d \<noteq> None" by (rule held) (use ch Inr in auto)
    then show ?thesis using choose_held_ledger [OF ch q(5)] Inr by (auto simp: est)
  qed
qed

section \<open>Routing under a ceiling\<close>

datatype route_event =
    Route "quota_reading option" "quota_reading option" route_request "runner list" bool real real real real
  | Settle "nat option"
  | Name "nat option" string string string

fun route_step :: "policy \<Rightarrow> metered_ledger \<Rightarrow> route_event \<Rightarrow> metered_ledger" where
  "route_step p l (Route source source' rq runners allow_busy t1 t2 t3 t4) =
     fst (choose_webhook_lane p source source' rq runners allow_busy t1 t2 t3 t4 l)"
| "route_step p l (Settle r) = release_hold p r l"
| "route_step p l (Name r repository workflow rf) = ledger_attribute r repository workflow rf l"

fun route_clock_ok :: "route_event \<Rightarrow> bool" where
  "route_clock_ok (Route _ _ _ _ _ t1 t2 t3 t4) = (0 \<le> t1 \<and> t1 \<le> t2 \<and> 0 \<le> t3 \<and> t3 \<le> t4)"
| "route_clock_ok _ = True"

lemma choose_route_metered:
  assumes "p_releases p"
  shows "fst (choose_route p source rq runners t1 t2 l) \<in> {l, metered_step p l (Reserve (rq_estimated rq) t1 t2)}"
proof -
  obtain l' res where c: "choose_held p (with_reading source rq) runners t1 t2 l = (l', res)" by fastforce
  have "rq_estimated (with_reading source rq) = rq_estimated rq"
    by (simp add: with_reading_def split: option.splits)
  with choose_held_ledger [OF c assms] c show ?thesis by (auto simp: choose_route_def)
qed

lemma ceiling_choose:
  assumes "attach_budget True p = Inr q" and "p_minute_budget p = Some m" and "0 \<le> t1" and "t1 \<le> t2"
    and "metered.under_ceiling m (p_minutes_per_run p) l"
  shows "metered.under_ceiling m (p_minutes_per_run p) (fst (choose_route q source rq runners t1 t2 l))"
  using choose_route_metered [OF attach_budget_fields(5) [OF assms(1,2)], of source rq runners t1 t2 l]
    ceiling_step [OF assms(1,2) _ assms(5), of "Reserve (rq_estimated rq) t1 t2"] assms(3-5)
  by auto

lemma ceiling_route_step:
  assumes "attach_budget True p = Inr q" and "p_minute_budget p = Some m" and "route_clock_ok e"
    and "metered.under_ceiling m (p_minutes_per_run p) l"
  shows "metered.under_ceiling m (p_minutes_per_run p) (route_step q l e)"
proof (cases e)
  case (Route source source' rq runners busy t1 t2 t3 t4)
  obtain l1 r1 where c: "choose_route q source rq runners t1 t2 l = (l1, r1)" by fastforce
  have one: "metered.under_ceiling m (p_minutes_per_run p) l1"
    using ceiling_choose [OF assms(1,2) _ _ assms(4), of t1 t2 source rq runners] assms(3) c Route by simp
  have two: "metered.under_ceiling m (p_minutes_per_run p) (fst (choose_route q source' rq rs t3 t4 l1))" for rs
    using ceiling_choose [OF assms(1,2) _ _ one, of t3 t4] assms(3) Route by simp
  obtain l2 r2 where c2: "choose_route q source' rq (map (\<lambda>r. r\<lparr>rn_busy := False\<rparr>) (filter (\<lambda>r. rn_status r = ''online'') runners)) t3 t4 l1 = (l2, r2)"
    by fastforce
  have two: "metered.under_ceiling m (p_minutes_per_run p) l2" using two c2 by (metis fst_conv)
  show ?thesis
    using one two c c2 by (simp add: Route choose_webhook_lane_def Let_def split: sum.splits)
next
  case (Settle r)
  then show ?thesis using ceiling_step [OF assms(1,2) _ assms(4), of "Give_Back r"] by simp
next
  case (Name r repository workflow rf)
  then show ?thesis using ceiling_step [OF assms(1,2) _ assms(4), of "Name_Hold r repository workflow rf"] by simp
qed

text \<open>
  Routing never crosses the ceiling. However requests are routed, with any quota readings,
  runners and retries over busy runners, and however their holds are named and settled, each UTC
  month's metered holds at the configured rate stay below the policy's ceiling.
\<close>

theorem routing_stays_under_ceiling:
  assumes "attach_budget True p = Inr q" and "p_minute_budget p = Some m" and "list_all route_clock_ok es"
  shows "holds_in_month month (run_steps (route_step q) [] es) = 0 \<or>
     real (holds_in_month month (run_steps (route_step q) [] es)) * p_minutes_per_run p < m"
proof -
  have "metered.under_ceiling m (p_minutes_per_run p) (run_steps (route_step q) l es)"
    if "metered.under_ceiling m (p_minutes_per_run p) l" for l
    using assms(3) that by (induction es arbitrary: l) (auto intro: ceiling_route_step [OF assms(1,2)])
  moreover have "metered.under_ceiling m (p_minutes_per_run p) []"
    by (simp add: metered.under_ceiling_def holds_in_month_def rowcount_def)
  ultimately show ?thesis unfolding metered.under_ceiling_def by blast
qed

section \<open>What a decision promises\<close>

lemma explicit_lane_served:
  assumes "explicit_lane p rq runners = Inr d"
  shows "\<exists>labels r. p_lane_labels p (rd_lane d) = Some labels \<and> labels \<subseteq> rd_runs_on d \<and>
     r \<in> set runners \<and> eligible (rd_runs_on d) r \<and> rd_runner d = Some (rn_name r) \<and>
     (\<forall>q. q \<in> set runners \<and> eligible (rd_runs_on d) q \<longrightarrow> rn_name r \<le> rn_name q)"
  using assms
proof (cases rule: explicit_lane_Inr)
  case (1 labels r)
  then show ?thesis
    using first_eligible_Some [OF 1(2)] by (auto simp: required_labels_def)
qed

lemma choose_held_source:
  assumes "choose_held p rq runners t1 t2 l = (l', Inr d)"
  obtains (lane) d' where "choose_lane p rq runners = Inr d'" "rd_lane d = rd_lane d'" "rd_runs_on d = rd_runs_on d'"
      "rd_runner d = rd_runner d'"
  | (local) reason where "first_local p rq runners reason = Inr d"
proof (cases rule: reserve_metered_cases [of p "rq_estimated rq" t1 t2 l])
  case unlimited
  then show ?thesis using assms that by (auto simp: choose_held_def split: sum.splits if_splits)
next
  case (refused reason)
  then show ?thesis using assms that by (auto simp: choose_held_def)
next
  case (held l1 n)
  then show ?thesis using assms that by (auto simp: choose_held_def split: sum.splits if_splits)
qed

lemma first_local_served:
  assumes "first_local p rq runners reason = Inr d"
  shows "\<exists>labels r. p_lane_labels p (rd_lane d) = Some labels \<and> labels \<subseteq> rd_runs_on d \<and>
     r \<in> set runners \<and> eligible (rd_runs_on d) r \<and> rd_runner d = Some (rn_name r) \<and>
     (\<forall>q. q \<in> set runners \<and> eligible (rd_runs_on d) q \<longrightarrow> rn_name r \<le> rn_name q)"
proof -
  obtain lane d' where "explicit_lane p (lane_request lane (rq_target rq)) runners = Inr d'"
      "d = d'\<lparr>rd_reason := Selected_Locally reason lane\<rparr>"
    using first_local_from_Inr [OF assms [unfolded first_local_def]] by blast
  with explicit_lane_served [of p "lane_request lane (rq_target rq)" runners d'] show ?thesis by simp
qed

text \<open>
  A decision can be served. A decision for a lane of the pool names a runner that is there,
  healthy, online, idle and carries every label the decision asks for, the first such by name, and
  asks for all of the lane's own labels. The hosted lane is decided only when the request names
  it, the repository is public, or the stated or read quota covers the run, unless the operator
  listed it as a local lane; a device is decided only when the request names the device lane and a
  configured target.
\<close>

theorem decision_can_be_served:
  assumes "choose_route p source rq runners t1 t2 l = (l', Inr d)" and "''hosted'' \<notin> set (p_local_priority p)"
  shows "if rd_lane d = ''hosted''
     then rq_lane rq = ''hosted'' \<or>
          rq_lane rq = ''auto'' \<and> (rq_visibility rq = ''public'' \<or> hosted_quota_available p (with_reading source rq))
     else (\<exists>labels r. p_lane_labels p (rd_lane d) = Some labels \<and> labels \<subseteq> rd_runs_on d \<and>
             r \<in> set runners \<and> eligible (rd_runs_on d) r \<and> rd_runner d = Some (rn_name r) \<and>
             (\<forall>q. q \<in> set runners \<and> eligible (rd_runs_on d) q \<longrightarrow> rn_name r \<le> rn_name q)) \<and>
          (rd_lane d = ''device'' \<longrightarrow> rq_lane rq = ''device'' \<and>
             (\<exists>t. rq_target rq = Some t \<and> t \<in> set (p_device_priority p) \<and> t \<in> rd_runs_on d))"
proof -
  let ?rq = "with_reading source rq"
  have same: "rq_lane ?rq = rq_lane rq" "rq_visibility ?rq = rq_visibility rq" "rq_target ?rq = rq_target rq"
    by (simp_all add: with_reading_def split: option.splits)
  from assms(1) [unfolded choose_route_def] show ?thesis
  proof (cases rule: choose_held_source)
    case (local reason)
    then show ?thesis using first_local_served [OF local] first_local_lane [OF local] assms(2) by auto
  next
    case (lane d')
    consider (hosted) "rd_lane d' = ''hosted''" "rq_lane rq = ''hosted'' \<or>
          rq_lane rq = ''auto'' \<and> (rq_visibility rq = ''public'' \<or> hosted_quota_available p ?rq)"
      | (explicit) "explicit_lane p ?rq runners = Inr d'" "rq_lane rq \<noteq> ''hosted''"
      | (locally) reason where "first_local p ?rq runners reason = Inr d'"
      using lane(1) by (auto simp: choose_lane_def hosted_def same split: if_splits sum.splits)
    then show ?thesis
    proof cases
      case hosted
      then show ?thesis using lane(2) by simp
    next
      case explicit
      from explicit(1) have "rd_lane d' = rq_lane rq"
        "rd_lane d' = ''device'' \<Longrightarrow> \<exists>t. rq_target rq = Some t \<and> t \<in> set (p_device_priority p) \<and> t \<in> rd_runs_on d'"
        by (auto elim!: explicit_lane_Inr simp: same required_labels_def target_named_def split: option.splits)
      with explicit_lane_served [OF explicit(1)] explicit(2) lane(2-4) show ?thesis by auto
    next
      case locally
      then show ?thesis
        using first_local_served [OF locally] first_local_lane [OF locally] assms(2) lane(2-4) by auto
    qed
  qed
qed

lemma first_local_from_Inl:
  assumes "first_local_from p lanes rq runners reason = Inl e" and "lane \<in> set lanes" and "lane \<noteq> ''device''"
    and "p_lane_labels p lane = Some labels"
  shows "\<not> list_ex (eligible labels) runners"
  using assms
proof (induction lanes)
  case (Cons x lanes)
  show ?case
  proof (cases "x = lane")
    case True
    then have "first_eligible runners labels = None"
      using Cons.prems
      by (auto simp: explicit_lane_def lane_request_def required_labels_def split: sum.splits option.splits if_splits)
    then show ?thesis by (auto simp: first_eligible_def list_ex_iff filter_empty_conv)
  next
    case False
    then show ?thesis using Cons by (auto split: if_splits sum.splits)
  qed
qed simp

lemma first_local_error: "first_local p rq runners reason = Inl e \<Longrightarrow> e \<noteq> Minutes_Not_A_Number"
proof -
  have "first_local_from p lanes rq runners reason = Inl e \<Longrightarrow> e \<noteq> Minutes_Not_A_Number" for lanes
    by (induction lanes) (auto split: if_splits sum.splits)
  then show "first_local p rq runners reason = Inl e \<Longrightarrow> e \<noteq> Minutes_Not_A_Number"
    by (simp add: first_local_def)
qed

text \<open>
  C39: an automatic request is refused only when nothing can take it: no local lane of the policy,
  the device lane apart, has a healthy, online, idle runner with the lane's labels, and the hosted
  lane is closed, by the quota or by a spent metered budget. The exception is a request whose quota
  status is none of the five the policy knows and which states no remaining minutes: routing it
  raises a TypeError while a local runner may be idle, and leaves the ledger as it was when holds
  can be given back.
\<close>

theorem automatic_refusal_is_exhaustive:
  assumes "choose_route p source rq runners t1 t2 l = (l', Inl e)" and "rq_lane rq = ''auto''"
  shows "(if e = Minutes_Not_A_Number
      then rq_quota_status (with_reading source rq) \<notin> {''available'', ''paid_allowed'', ''unknown'', ''exhausted''} \<and>
           rq_remaining (with_reading source rq) = None \<and> (p_releases p \<longrightarrow> l' = l)
      else \<forall>lane labels. lane \<in> set (p_local_priority p) \<and> lane \<noteq> ''device'' \<and> p_lane_labels p lane = Some labels \<longrightarrow>
             \<not> list_ex (eligible labels) runners) \<and>
     (\<not> hosted_quota_available p (with_reading source rq) \<and> rq_visibility rq \<noteq> ''public'' \<or>
      (\<exists>reason. snd (snd (reserve_metered p (rq_estimated rq) t1 t2 l)) = Some reason))"
proof -
  let ?rq = "with_reading source rq"
  have same: "rq_lane ?rq = ''auto''" "rq_visibility ?rq = rq_visibility rq" "rq_estimated ?rq = rq_estimated rq"
    using assms(2) by (simp_all add: with_reading_def split: option.splits)
  have closed: "\<not> hosted_quota_available p ?rq \<and> rq_visibility rq \<noteq> ''public'' \<or>
       (\<exists>reason. snd (snd (reserve_metered p (rq_estimated rq) t1 t2 l)) = Some reason)"
    using assms(1) unfolding choose_route_def choose_held_def same(3)
    by (cases rule: reserve_metered_cases [of p "rq_estimated rq" t1 t2 l])
       (auto simp: choose_lane_def same split: sum.splits if_splits)
  have source: "(\<exists>reason. first_local p ?rq runners reason = Inl e) \<or>
      choose_lane p ?rq runners = Inl e \<and> thin_reason ?rq = Inl e \<and> \<not> hosted_quota_available p ?rq"
    using assms(1) unfolding choose_route_def choose_held_def same(3)
    by (cases rule: reserve_metered_cases [of p "rq_estimated rq" t1 t2 l])
       (auto simp: choose_lane_def same split: sum.splits if_splits)
  show ?thesis
  proof (cases "e = Minutes_Not_A_Number")
    case True
    with source have thin: "thin_reason ?rq = Inl e" "\<not> hosted_quota_available p ?rq"
      using first_local_error [of p ?rq runners] by blast+
    have "p_releases p \<longrightarrow> l' = l"
      using choose_held_ledger [OF assms(1) [unfolded choose_route_def]] by blast
    with thin closed True show ?thesis
      by (auto simp: thin_reason_def hosted_quota_available_def split: if_splits option.splits)
  next
    case False
    with source obtain reason where "first_local p ?rq runners reason = Inl e"
      by (auto simp: thin_reason_def split: if_splits option.splits)
    then show ?thesis using False closed first_local_from_Inl unfolding first_local_def by simp blast
  qed
qed

section \<open>A concrete policy\<close>

definition example_policy :: policy where
  "example_policy = metered_policy.extend example_ceiling
     (policy.fields {''ubuntu-24.04''} [''fallback'', ''device''] [''desktop''] [''fallback'' \<mapsto> {''linux''}, ''device'' \<mapsto> {''pool''}]
        20 10 ''deny'' ''local'')"

definition example_routing :: policy where
  "example_routing = metered_policy.extend example_attached
     (policy.fields {''ubuntu-24.04''} [''fallback'', ''device''] [''desktop''] [''fallback'' \<mapsto> {''linux''}, ''device'' \<mapsto> {''pool''}]
        20 10 ''deny'' ''local'')"

lemma example_routing_simps [simp]:
  "p_minute_budget example_policy = Some 25" "p_minutes_per_run example_policy = 10"
  "p_local_priority example_routing = [''fallback'', ''device'']"
  "p_lane_labels example_routing = [''fallback'' \<mapsto> {''linux''}, ''device'' \<mapsto> {''pool''}]"
  "p_unknown_quota example_routing = ''local''"
  by (simp_all add: example_policy_def example_routing_def metered_policy.defs policy.defs example_ceiling_def)

lemma example_routing_attached: "attach_budget True example_policy = Inr example_routing"
  by (simp add: attach_budget_def example_policy_def example_routing_def new_budget_def metered_policy.defs policy.defs
      example_ceiling_def example_attached_def)

definition example_runner :: runner where
  "example_runner = \<lparr>rn_name = ''r1'', rn_status = ''online'', rn_busy = False, rn_labels = {''linux''}, rn_healthy = True\<rparr>"

definition example_request :: route_request where
  "example_request = lane_request ''auto'' None"

lemma example_lane:
  "choose_lane example_routing example_request [example_runner] =
     Inr \<lparr>rd_lane = ''fallback'', rd_runs_on = {''linux''}, rd_reason = Selected_Locally Quota_Is_Unknown ''fallback'',
          rd_runner = Some ''r1'', rd_reservation = None\<rparr>"
  by (simp add: choose_lane_def example_request_def lane_request_def hosted_quota_available_def first_local_def
      explicit_lane_def required_labels_def first_eligible_def eligible_def example_runner_def min_by_def thin_reason_def)

lemma example_reserved: "snd (snd (reserve_metered example_routing (rq_estimated example_request) 0 0 [])) = None"
  by (simp add: reserve_metered_def example_routing_def metered_policy.defs policy.defs example_attached_def
      spent_minutes_def dispatches_def ledger_count_def rowcount_def dispatch_cost_def example_request_def
      lane_request_def Let_def case_prod_beta)

lemma example_choice:
  "\<exists>l' d. choose_route example_routing None example_request [example_runner] 0 0 [] = (l', Inr d) \<and> rd_lane d = ''fallback''"
  using example_reserved
  by (cases rule: reserve_metered_cases [of example_routing "rq_estimated example_request" 0 0 "[]"])
     (simp_all add: choose_route_def with_reading_def choose_held_def example_lane HOSTED_LANE_def)

theorem hold_follows_hosted_decision_witness:
  "\<exists>l' d. choose_route example_routing None example_request [example_runner] 0 0 [] = (l', Inr d) \<and>
     rd_lane d = ''fallback'' \<and> rd_reservation d = None \<and> l' = []"
proof -
  obtain l' d where c: "choose_route example_routing None example_request [example_runner] 0 0 [] = (l', Inr d)"
      "rd_lane d = ''fallback''"
    using example_choice by blast
  from hold_follows_hosted_decision [OF example_routing_attached _ _ c(1)] c show ?thesis by simp
qed

theorem routing_stays_under_ceiling_witness:
  "holds_in_month 0 (run_steps (route_step example_routing) []
       [Route None None (lane_request ''hosted'' None) [] True 0 0 0 0, Settle (Some 1)]) = 0 \<or>
   real (holds_in_month 0 (run_steps (route_step example_routing) []
       [Route None None (lane_request ''hosted'' None) [] True 0 0 0 0, Settle (Some 1)])) * 10 < 25"
  using routing_stays_under_ceiling [OF example_routing_attached, of 25
      "[Route None None (lane_request ''hosted'' None) [] True 0 0 0 0, Settle (Some 1)]" 0]
  by simp

theorem decision_can_be_served_witness:
  "\<exists>l' d. choose_route example_routing None example_request [example_runner] 0 0 [] = (l', Inr d) \<and>
     eligible (rd_runs_on d) example_runner"
proof -
  obtain l' d where c: "choose_route example_routing None example_request [example_runner] 0 0 [] = (l', Inr d)"
      "rd_lane d = ''fallback''"
    using example_choice by blast
  from decision_can_be_served [OF c(1)] c show ?thesis by auto
qed

lemma example_no_lane:
  "choose_lane example_routing example_request [example_runner\<lparr>rn_busy := True\<rparr>] = Inl (No_Local_Runner Quota_Is_Unknown)"
  by (simp add: choose_lane_def example_request_def lane_request_def hosted_quota_available_def first_local_def
      explicit_lane_def required_labels_def first_eligible_def eligible_def min_by_def thin_reason_def)

lemma example_refused:
  "\<exists>l'. choose_route example_routing None example_request [example_runner\<lparr>rn_busy := True\<rparr>] 0 0 [] =
     (l', Inl (No_Local_Runner Quota_Is_Unknown))"
  using example_reserved
  by (cases rule: reserve_metered_cases [of example_routing "rq_estimated example_request" 0 0 "[]"])
     (simp_all add: choose_route_def with_reading_def choose_held_def example_no_lane)

theorem automatic_refusal_is_exhaustive_witness:
  "\<exists>l'. choose_route example_routing None example_request [example_runner\<lparr>rn_busy := True\<rparr>] 0 0 [] =
     (l', Inl (No_Local_Runner Quota_Is_Unknown)) \<and> \<not> eligible {''linux''} (example_runner\<lparr>rn_busy := True\<rparr>)"
proof -
  obtain l' where c: "choose_route example_routing None example_request [example_runner\<lparr>rn_busy := True\<rparr>] 0 0 [] =
     (l', Inl (No_Local_Runner Quota_Is_Unknown))"
    using example_refused by blast
  have "rq_lane example_request = ''auto''" by (simp add: example_request_def lane_request_def)
  from automatic_refusal_is_exhaustive [OF c this] have "\<forall>lane labels. lane \<in> {''fallback'', ''device''} \<and>
      lane \<noteq> ''device'' \<and> p_lane_labels example_routing lane = Some labels \<longrightarrow>
      \<not> list_ex (eligible labels) [example_runner\<lparr>rn_busy := True\<rparr>]" by simp
  from this [rule_format, of "''fallback''" "{''linux''}"] c show ?thesis by auto
qed

end
