(* ===== verification/Delivery_Ledger.thy ===== *)
theory Delivery_Ledger
  imports Metered_Budget
begin

text \<open>
  Webhook deliveries and the one dispatch each may cause: the durable ledger (\<open>deliveries.py\<close>), its
  answers (\<open>delivery_state.py\<close>), the metered hold a dispatch spends (\<open>delivery_spend.py\<close>) and the
  dispatch of one delivery with its result recorded (\<open>delivery_dispatch.py\<close>). GitHub is a parameter:
  the outcome of the request. Attempts of several threads interleave, so the ledger is also a
  transition system whose steps are the single statements.
\<close>

section \<open>The ledger\<close>

datatype delivery_state = Ready | Attempting | Accepted | Rejected | Uncertain

record delivery_row =
  dl_repository :: string
  dl_delivery :: string
  dl_fingerprint :: string
  dl_workflow :: string
  dl_ref :: string
  dl_inputs :: "(string \<times> string) list"
  dl_state :: delivery_state
  dl_created_at :: real
  dl_updated_at :: real
  dl_error :: "string option"
  dl_sha :: string

type_synonym delivery_store = "delivery_row list"

definition MAX_DELIVERY_ERROR :: nat where "MAX_DELIVERY_ERROR = 200"

definition dl_key :: "delivery_row \<Rightarrow> string \<times> string" where
  "dl_key r = (dl_repository r, dl_delivery r)"

definition get_delivery :: "string \<Rightarrow> string \<Rightarrow> delivery_store \<Rightarrow> delivery_row option" where
  "get_delivery repository delivery s = lookup_by dl_key (lower repository, delivery) s"

text \<open>\<open>INSERT OR IGNORE\<close>, then the row of the key, which is there.\<close>

definition register ::
  "string \<Rightarrow> string \<Rightarrow> string \<Rightarrow> string \<Rightarrow> string \<Rightarrow> (string \<times> string) list \<Rightarrow> string \<Rightarrow> real \<Rightarrow> delivery_store \<Rightarrow>
   delivery_store \<times> delivery_row option" where
  "register repository delivery fingerprint workflow rf inputs sha now s =
     (let key = (lower repository, delivery);
          row = \<lparr>dl_repository = lower repository, dl_delivery = delivery, dl_fingerprint = fingerprint,
                 dl_workflow = workflow, dl_ref = rf, dl_inputs = inputs, dl_state = Ready,
                 dl_created_at = now, dl_updated_at = now, dl_error = None, dl_sha = sha\<rparr>;
          s' = (if key \<in> dl_key ` set s then s else s @ [row])
      in (s', lookup_by dl_key key s'))"

definition in_state :: "string \<Rightarrow> string \<Rightarrow> delivery_state \<Rightarrow> delivery_row \<Rightarrow> bool" where
  "in_state repository delivery st r \<longleftrightarrow> dl_key r = (lower repository, delivery) \<and> dl_state r = st"

definition attempt_row :: "real \<Rightarrow> delivery_row \<Rightarrow> delivery_row" where
  "attempt_row now r = r\<lparr>dl_state := Attempting, dl_updated_at := now\<rparr>"

definition claim_delivery :: "string \<Rightarrow> string \<Rightarrow> real \<Rightarrow> delivery_store \<Rightarrow> delivery_store \<times> bool" where
  "claim_delivery repository delivery now s =
     (update_where (in_state repository delivery Ready) (attempt_row now) s,
      rowcount (in_state repository delivery Ready) s = 1)"

definition result_row :: "delivery_state \<Rightarrow> string \<Rightarrow> real \<Rightarrow> delivery_row \<Rightarrow> delivery_row" where
  "result_row st error now r =
     r\<lparr>dl_state := st, dl_error := Some (take MAX_DELIVERY_ERROR error), dl_updated_at := now\<rparr>"

definition finish :: "string \<Rightarrow> string \<Rightarrow> delivery_state \<Rightarrow> string \<Rightarrow> real \<Rightarrow> delivery_store \<Rightarrow> delivery_store result" where
  "finish repository delivery st error now s =
     (if st \<notin> {Accepted, Rejected, Uncertain} then Inl (ValueError ''invalid delivery result'')
      else if rowcount (in_state repository delivery Attempting) s \<noteq> 1
      then Inl (RuntimeError ''delivery attempt changed before its result was recorded'')
      else Inr (update_where (in_state repository delivery Attempting) (result_row st error now) s))"

definition pending :: "nat \<Rightarrow> delivery_store \<Rightarrow> delivery_row list" where
  "pending limit s = take limit (order_by dl_created_at (filter (\<lambda>r. dl_state r = Ready) s))"

definition reject_ready :: "string \<Rightarrow> string \<Rightarrow> string \<Rightarrow> real \<Rightarrow> delivery_store \<Rightarrow> delivery_store \<times> bool" where
  "reject_ready repository delivery reason now s =
     (update_where (in_state repository delivery Ready) (result_row Rejected reason now) s,
      rowcount (in_state repository delivery Ready) s = 1)"

definition recover :: "real \<Rightarrow> delivery_store \<Rightarrow> delivery_store \<times> nat" where
  "recover now s =
     (update_where (\<lambda>r. dl_state r = Attempting) (result_row Uncertain ''broker stopped during dispatch'' now) s,
      rowcount (\<lambda>r. dl_state r = Attempting) s)"

definition hosted_dispatches_since :: "real \<Rightarrow> delivery_store \<Rightarrow> (string \<times> string) list list" where
  "hosted_dispatches_since since s = map dl_inputs (filter (\<lambda>r. dl_created_at r \<ge> since) s)"

section \<open>Answers\<close>

datatype dispatch_answer = Answer delivery_state string | Duplicate

fun state_to_status :: "dispatch_answer \<Rightarrow> nat" where
  "state_to_status Duplicate = 202"
| "state_to_status (Answer Accepted _) = 202"
| "state_to_status (Answer Rejected _) = 422"
| "state_to_status (Answer _ _) = 503"

definition finish_quietly ::
  "delivery_row \<Rightarrow> delivery_state \<Rightarrow> string \<Rightarrow> real \<Rightarrow> delivery_store \<Rightarrow> delivery_store \<times> dispatch_answer" where
  "finish_quietly record st error now s =
     (case finish (dl_repository record) (dl_delivery record) st error now s of
        Inl _ \<Rightarrow> (s, Answer Uncertain ''dispatch result could not be recorded'')
      | Inr s' \<Rightarrow> (s', Answer st error))"

section \<open>Dispatching one delivery\<close>

text \<open>
  What GitHub's answer is: the request was accepted, it raised \<open>GitHubDispatchError\<close> with the HTTP
  status it had, if any, or it raised something else.
\<close>

datatype github_outcome = Sent | Dispatch_Error "nat option" string | Other_Error string

definition release_quietly :: "nat option \<Rightarrow> metered_ledger option \<Rightarrow> metered_ledger option" where
  "release_quietly reservation ledger = map_option (ledger_release reservation) ledger"

definition attribute_quietly :: "nat option \<Rightarrow> delivery_row \<Rightarrow> metered_ledger option \<Rightarrow> metered_ledger option" where
  "attribute_quietly reservation record ledger =
     map_option (ledger_attribute reservation (dl_repository record) (dl_workflow record) (dl_ref record)) ledger"

definition reserve_for ::
  "'p metered_policy_scheme \<Rightarrow> string option \<Rightarrow> real \<Rightarrow> real \<Rightarrow> metered_ledger \<Rightarrow>
   metered_ledger \<times> nat option \<times> budget_refusal_reason option" where
  "reserve_for p lane read_at written_at l =
     (if lane \<noteq> Some HOSTED_LANE then (l, None, None) else reserve_metered p 0 read_at written_at l)"

definition refusal_state :: "nat option \<Rightarrow> delivery_state" where
  "refusal_state code =
     (case code of None \<Rightarrow> Rejected | Some c \<Rightarrow> if c \<ge> 500 \<or> c \<in> {403, 429} then Uncertain else Rejected)"

text \<open>What is done once GitHub has answered: settle the hold and record the result.\<close>

definition conclude_dispatch ::
  "delivery_row \<Rightarrow> github_outcome \<Rightarrow> real \<Rightarrow> nat option \<Rightarrow> delivery_store \<times> metered_ledger option \<Rightarrow>
   (delivery_store \<times> metered_ledger option) \<times> dispatch_answer" where
  "conclude_dispatch record outcome now reservation sl =
     (case sl of (s, ledger) \<Rightarrow>
       (case outcome of
          Sent \<Rightarrow>
            (let (s', a) = finish_quietly record Accepted [] now s
             in ((s', attribute_quietly reservation record ledger), a))
        | Dispatch_Error code message \<Rightarrow>
            (let ledger' = (if refusal_state code = Rejected then release_quietly reservation ledger else ledger);
                 (s', a) = finish_quietly record (refusal_state code) message now s
             in ((s', ledger'), a))
        | Other_Error message \<Rightarrow>
            (let (s', a) = finish_quietly record Uncertain message now s
             in ((s', ledger), Answer (case a of Answer st _ \<Rightarrow> st | Duplicate \<Rightarrow> Uncertain)
                                 ''GitHub dispatch result is unknown''))))"

text \<open>\<open>dispatch_record\<close>; the list is the requests it made to GitHub.\<close>

definition dispatch_record ::
  "delivery_row \<Rightarrow> github_outcome \<Rightarrow> real \<Rightarrow> real \<Rightarrow> nat option \<Rightarrow> delivery_store \<times> metered_ledger option \<Rightarrow>
   (delivery_store \<times> metered_ledger option) \<times> dispatch_answer \<times> (string \<times> string) list" where
  "dispatch_record record outcome claimed_at now reservation sl =
     (case sl of (s, ledger) \<Rightarrow>
       (case claim_delivery (dl_repository record) (dl_delivery record) claimed_at s of
          (s1, False) \<Rightarrow>
            ((s1, release_quietly reservation ledger),
             (case get_delivery (dl_repository record) (dl_delivery record) s1 of
                None \<Rightarrow> Answer Uncertain ''delivery record vanished before dispatch''
              | Some r \<Rightarrow> if dl_state r \<in> {Accepted, Rejected, Uncertain} then Duplicate else Answer (dl_state r) []),
             [])
        | (s1, True) \<Rightarrow>
            (let (sl', a) = conclude_dispatch record outcome now reservation (s1, ledger)
             in (sl', a, [(lower (dl_repository record), dl_delivery record)]))))"

section \<open>The rows a statement rewrites\<close>

interpretation attempting: row_update dl_key "attempt_row now" for now
  by unfold_locales (simp add: dl_key_def attempt_row_def)

interpretation recording: row_update dl_key "result_row st error now" for st error now
  by unfold_locales (simp add: dl_key_def result_row_def)

definition store_wf :: "delivery_store \<Rightarrow> bool" where
  "store_wf s \<longleftrightarrow> distinct (map dl_key s)"

lemma claim_accepted_iff:
  "store_wf s \<Longrightarrow> snd (claim_delivery repository delivery now s) \<longleftrightarrow>
     (\<exists>r. get_delivery repository delivery s = Some r \<and> dl_state r = Ready)"
  unfolding claim_delivery_def in_state_def store_wf_def get_delivery_def snd_conv
  by (rule rowcount_key_eq_1)

lemma finish_Inr_iff:
  assumes "store_wf s"
  shows "(\<exists>s'. finish repository delivery st error now s = Inr s') \<longleftrightarrow> st \<in> {Accepted, Rejected, Uncertain} \<and>
     (\<exists>r. get_delivery repository delivery s = Some r \<and> dl_state r = Attempting)"
  using rowcount_key_eq_1 [OF assms [unfolded store_wf_def], of "(lower repository, delivery)" "\<lambda>r. dl_state r = Attempting"]
  by (auto simp: finish_def in_state_def [abs_def] get_delivery_def)

section \<open>The ledger as a transition system\<close>

text \<open>
  The statements of every thread, in any order: a delivery is registered, an attempt begins by
  claiming it and sends it only if the claim succeeded, an attempt records a result, a ready
  delivery is rejected, and a restarted broker recovers.
\<close>

datatype delivery_event =
    Register_Delivery string string string string string "(string \<times> string) list" string real
  | Begin_Attempt string string real
  | Record_Result string string delivery_state string real
  | Reject_Delivery string string string real
  | Recover_Deliveries real

record delivery_system =
  dy_store :: delivery_store
  dy_sent :: "(string \<times> string) list"

definition delivery_start :: delivery_system where
  "delivery_start = \<lparr>dy_store = [], dy_sent = []\<rparr>"

fun delivery_step :: "delivery_system \<Rightarrow> delivery_event \<Rightarrow> delivery_system" where
  "delivery_step y (Register_Delivery repo dv fp flow rf inputs sha now) =
     y\<lparr>dy_store := fst (register repo dv fp flow rf inputs sha now (dy_store y))\<rparr>"
| "delivery_step y (Begin_Attempt repo dv now) =
     (let (s', claimed) = claim_delivery repo dv now (dy_store y)
      in y\<lparr>dy_store := s', dy_sent := dy_sent y @ (if claimed then [(lower repo, dv)] else [])\<rparr>)"
| "delivery_step y (Record_Result repo dv st error now) =
     (case finish repo dv st error now (dy_store y) of Inl _ \<Rightarrow> y | Inr s' \<Rightarrow> y\<lparr>dy_store := s'\<rparr>)"
| "delivery_step y (Reject_Delivery repo dv reason now) =
     y\<lparr>dy_store := fst (reject_ready repo dv reason now (dy_store y))\<rparr>"
| "delivery_step y (Recover_Deliveries now) = y\<lparr>dy_store := fst (recover now (dy_store y))\<rparr>"

inductive delivery_change :: "delivery_row \<Rightarrow> delivery_row \<Rightarrow> bool" where
  keep: "delivery_change r r"
| attempt: "dl_state r = Ready \<Longrightarrow> delivery_change r (attempt_row now r)"
| result: "dl_state r = Attempting \<Longrightarrow> st \<in> {Accepted, Rejected, Uncertain} \<Longrightarrow> delivery_change r (result_row st error now r)"
| reject: "dl_state r = Ready \<Longrightarrow> delivery_change r (result_row Rejected error now r)"

inductive_cases delivery_change_cases: "delivery_change r r'"

abbreviation row_at :: "string \<times> string \<Rightarrow> delivery_system \<Rightarrow> delivery_row option" where
  "row_at key y \<equiv> lookup_by dl_key key (dy_store y)"

lemma delivery_change_never_ready: "delivery_change r r' \<Longrightarrow> dl_state r \<noteq> Ready \<Longrightarrow> dl_state r' \<noteq> Ready"
  by (auto simp: attempt_row_def result_row_def elim!: delivery_change_cases)

lemma delivery_change_final:
  "delivery_change r r' \<Longrightarrow> dl_state r \<in> {Accepted, Rejected, Uncertain} \<Longrightarrow> r' = r"
  by (auto elim!: delivery_change_cases)

lemma delivery_step_row:
  assumes "row_at key y = Some r"
  shows "\<exists>r'. row_at key (delivery_step y e) = Some r' \<and> delivery_change r r'"
proof (cases e)
  case (Register_Delivery repo dv fp flow rf inputs sha now)
  then show ?thesis using assms by (auto simp: register_def Let_def lookup_by_append intro: delivery_change.keep)
next
  case (Begin_Attempt repo dv now)
  then show ?thesis
    using assms by (auto simp: claim_delivery_def attempting.lookup in_state_def intro: delivery_change.intros)
next
  case (Record_Result repo dv st error now)
  then show ?thesis
    using assms
    by (auto simp: finish_def recording.lookup in_state_def intro: delivery_change.intros split: if_splits sum.splits)
next
  case (Reject_Delivery repo dv reason now)
  then show ?thesis
    using assms by (auto simp: reject_ready_def recording.lookup in_state_def intro: delivery_change.intros)
next
  case (Recover_Deliveries now)
  then show ?thesis
    using assms by (auto simp: recover_def recording.lookup intro: delivery_change.intros)
qed

lemma store_wf_step: "store_wf (dy_store y) \<Longrightarrow> store_wf (dy_store (delivery_step y e))"
  by (cases e)
     (auto simp: store_wf_def register_def Let_def dl_key_def claim_delivery_def finish_def reject_ready_def recover_def
       attempting.keys recording.keys split: if_splits sum.splits)

definition sent_once :: "delivery_system \<Rightarrow> bool" where
  "sent_once y \<longleftrightarrow> store_wf (dy_store y) \<and>
     (\<forall>key. count_list (dy_sent y) key = 0 \<or>
        count_list (dy_sent y) key = 1 \<and> (\<exists>r. row_at key y = Some r \<and> dl_state r \<noteq> Ready))"

lemma sent_step:
  "dy_sent (delivery_step y e) = dy_sent y \<or>
   (\<exists>repo dv now. e = Begin_Attempt repo dv now \<and> snd (claim_delivery repo dv now (dy_store y)) \<and>
      dy_sent (delivery_step y e) = dy_sent y @ [(lower repo, dv)])"
  by (cases e) (auto split: sum.splits prod.splits)

lemma sent_once_step:
  assumes "sent_once y"
  shows "sent_once (delivery_step y e)"
proof -
  have wf: "store_wf (dy_store y)" using assms by (simp add: sent_once_def)
  have old: "count_list (dy_sent y) key = 0 \<or>
      count_list (dy_sent y) key = 1 \<and> (\<exists>r. row_at key y = Some r \<and> dl_state r \<noteq> Ready)" for key
    using assms unfolding sent_once_def by blast
  have kept: "\<exists>r. row_at key (delivery_step y e) = Some r \<and> dl_state r \<noteq> Ready"
    if "row_at key y = Some r" "dl_state r \<noteq> Ready" for key r
    using delivery_step_row [OF that(1), of e] delivery_change_never_ready that(2) by blast
  have "count_list (dy_sent (delivery_step y e)) key = 0 \<or>
      count_list (dy_sent (delivery_step y e)) key = 1 \<and> (\<exists>r. row_at key (delivery_step y e) = Some r \<and> dl_state r \<noteq> Ready)" for key
    using sent_step [of y e]
  proof (elim disjE exE conjE)
    assume "dy_sent (delivery_step y e) = dy_sent y"
    then show ?thesis using old [of key] kept [of key] by auto
  next
    fix repo dv now
    assume e: "e = Begin_Attempt repo dv now" and claimed: "snd (claim_delivery repo dv now (dy_store y))"
      and sent: "dy_sent (delivery_step y e) = dy_sent y @ [(lower repo, dv)]"
    from claimed obtain r where r: "row_at (lower repo, dv) y = Some r" "dl_state r = Ready"
      by (auto simp: claim_accepted_iff [OF wf] get_delivery_def)
    then have none: "count_list (dy_sent y) (lower repo, dv) = 0"
      using old [of "(lower repo, dv)"] by auto
    have "row_at (lower repo, dv) (delivery_step y e) = Some (attempt_row now r)"
      using r lookup_by_Some_in [OF r(1)] by (simp add: e claim_delivery_def attempting.lookup in_state_def)
    then show ?thesis
      using none sent kept [of key] old [of key] by (cases "key = (lower repo, dv)") (auto simp: attempt_row_def)
  qed
  then show ?thesis using store_wf_step [OF wf] by (simp add: sent_once_def)
qed

interpretation delivery_ledger: invariant_system delivery_start delivery_step sent_once
proof unfold_locales
  show "sent_once delivery_start" by (simp add: delivery_start_def sent_once_def store_wf_def)
qed (rule sent_once_step)

text \<open>
  C6: a delivery is dispatched at most once. However registrations, redeliveries, replays, attempts
  of several threads, recorded results, rejections and restarts interleave, the broker sends at
  most one request to GitHub for a repository and delivery id.
\<close>

theorem delivery_sent_at_most_once: "count_list (dy_sent (run_steps delivery_step delivery_start es)) key \<le> 1"
  using delivery_ledger.inv_run [of es] unfolding sent_once_def by (metis le_numeral_extra(4) zero_le_one)

text \<open>
  A delivery's result is final. Once a row is accepted, rejected or uncertain, no statement
  changes it again and no request is sent for it, over any further steps. This includes a
  delivery GitHub throttled, which is recorded as uncertain.
\<close>

theorem delivery_result_is_final:
  assumes "row_at key (run_steps delivery_step delivery_start es) = Some r"
    and "dl_state r \<in> {Accepted, Rejected, Uncertain}"
  shows "row_at key (run_steps delivery_step delivery_start (es @ es')) = Some r \<and>
     count_list (dy_sent (run_steps delivery_step delivery_start (es @ es'))) key =
       count_list (dy_sent (run_steps delivery_step delivery_start es)) key"
proof -
  let ?n = "count_list (dy_sent (run_steps delivery_step delivery_start es)) key"
  let ?Q = "\<lambda>y. row_at key y = Some r \<and> count_list (dy_sent y) key = ?n"
  have "?Q (delivery_step y e)" if "sent_once y" "?Q y" for y e
  proof -
    have "row_at key (delivery_step y e) = Some r"
      using delivery_step_row [of key y r e] delivery_change_final [of r] assms(2) that(2) by blast
    moreover have "count_list (dy_sent (delivery_step y e)) key = count_list (dy_sent y) key"
      using sent_step [of y e] that assms(2)
      by (auto simp: sent_once_def claim_accepted_iff get_delivery_def)
    ultimately show ?thesis using that(2) by simp
  qed
  then have "?Q (run_steps delivery_step (run_steps delivery_step delivery_start es) es')"
    by (rule delivery_ledger.preserved_along [OF _ delivery_ledger.inv_run]) (use assms(1) in simp_all)
  then show ?thesis by (simp add: run_steps_append)
qed

section \<open>One dispatch and its hold\<close>

definition outcome_state :: "github_outcome \<Rightarrow> delivery_state" where
  "outcome_state outcome =
     (case outcome of Sent \<Rightarrow> Accepted | Dispatch_Error code _ \<Rightarrow> refusal_state code | Other_Error _ \<Rightarrow> Uncertain)"

lemma refusal_state_terminal: "refusal_state code \<in> {Rejected, Uncertain}"
  by (simp add: refusal_state_def split: option.splits)

lemma finish_quietly_attempting:
  assumes "store_wf s" and "get_delivery (dl_repository record) (dl_delivery record) s = Some r"
    and "dl_state r = Attempting" and "st \<in> {Accepted, Rejected, Uncertain}"
  shows "finish_quietly record st error now s =
     (update_where (in_state (dl_repository record) (dl_delivery record) Attempting) (result_row st error now) s, Answer st error)"
  using finish_Inr_iff [OF assms(1), of "dl_repository record" "dl_delivery record" st error now] assms(2-4)
  by (auto simp: finish_quietly_def finish_def split: if_splits)

lemma get_recorded:
  assumes "get_delivery repository delivery s = Some r" and "dl_state r = Attempting"
  shows "get_delivery repository delivery (update_where (in_state repository delivery Attempting) (result_row st error now) s)
     = Some (result_row st error now r)"
  using assms lookup_by_Some_in [of dl_key "(lower repository, delivery)" s r]
  by (simp add: get_delivery_def recording.lookup in_state_def)

text \<open>
  A dispatch is recorded and its hold settled by what GitHub answered. For a ready delivery
  exactly one request goes out; the row ends accepted, rejected or uncertain by the answer; and
  the metered hold is given back exactly when the answer says no run started, named for the
  repository when one did, and kept when that is unknown. For a delivery that is not ready no
  request goes out, the ledger keeps its row, and the hold is given back.
\<close>

theorem dispatch_settles_hold:
  assumes "store_wf s" and "get_delivery repository delivery s = Some r"
    and "dispatch_record r outcome claimed_at now reservation (s, Some l) = ((s', l'), answer, sent)"
  shows "if dl_state r = Ready
     then sent = [(lower repository, delivery)] \<and>
          (\<exists>r' message. get_delivery repository delivery s' = Some r' \<and> dl_state r' = outcome_state outcome \<and>
             answer = Answer (outcome_state outcome) message) \<and>
          l' = Some (case outcome of
                 Sent \<Rightarrow> ledger_attribute reservation (dl_repository r) (dl_workflow r) (dl_ref r) l
               | _ \<Rightarrow> if outcome_state outcome = Rejected then ledger_release reservation l else l)
     else sent = [] \<and> s' = s \<and> l' = Some (ledger_release reservation l)"
proof -
  have key: "dl_repository r = lower repository" "dl_delivery r = delivery"
    using lookup_by_Some_in [OF assms(2) [unfolded get_delivery_def]] by (auto simp: dl_key_def)
  have same: "get_delivery (dl_repository r) (dl_delivery r) = get_delivery repository delivery"
    by (simp add: get_delivery_def key fun_eq_iff)
  obtain s1 b where claim: "claim_delivery (dl_repository r) (dl_delivery r) claimed_at s = (s1, b)" by fastforce
  have b: "b \<longleftrightarrow> dl_state r = Ready"
    using claim_accepted_iff [OF assms(1), of "dl_repository r" "dl_delivery r" claimed_at] claim assms(2) by (simp add: same)
  have s1: "s1 = update_where (in_state (dl_repository r) (dl_delivery r) Ready) (attempt_row claimed_at) s"
    using claim by (simp add: claim_delivery_def)
  show ?thesis
  proof (cases "dl_state r = Ready")
    case False
    have "s1 = s"
      unfolding s1
    proof (rule update_where_cong_False)
      fix q assume "q \<in> set s"
      then show "\<not> in_state (dl_repository r) (dl_delivery r) Ready q"
        using distinct_key_eq [OF assms(1) [unfolded store_wf_def], of q r]
          lookup_by_Some_in [OF assms(2) [unfolded get_delivery_def]] False
        by (auto simp: in_state_def key dl_key_def)
    qed
    then show ?thesis
      using assms(3) claim b False by (auto simp: dispatch_record_def release_quietly_def)
  next
    case True
    have row: "get_delivery (dl_repository r) (dl_delivery r) s1 = Some (attempt_row claimed_at r)"
      using assms(2) True unfolding s1 same [symmetric]
      by (simp add: get_delivery_def attempting.lookup in_state_def dl_key_def key)
    have att: "dl_state (attempt_row claimed_at r) = Attempting" by (simp add: attempt_row_def)
    have wf1: "store_wf s1" using assms(1) unfolding s1 store_wf_def by (simp add: attempting.keys)
    note fin = finish_quietly_attempting [OF wf1 row att] and got = get_recorded [OF row att]
    have "(s', l') = fst (conclude_dispatch r outcome now reservation (s1, Some l)) \<and>
        answer = snd (conclude_dispatch r outcome now reservation (s1, Some l)) \<and> sent = [(lower repository, delivery)]"
      using assms(3) claim b True by (auto simp: dispatch_record_def key case_prod_beta)
    then show ?thesis
      using True refusal_state_terminal got
      by (cases outcome)
         (auto simp: conclude_dispatch_def fin outcome_state_def attribute_quietly_def release_quietly_def result_row_def
            same [symmetric] Let_def)
  qed
qed

section \<open>A concrete delivery\<close>

definition example_delivery :: delivery_row where
  "example_delivery = \<lparr>dl_repository = ''o/r'', dl_delivery = ''d1'', dl_fingerprint = ''f'', dl_workflow = ''ci.yml'',
     dl_ref = ''refs/heads/main'', dl_inputs = [], dl_state = Ready, dl_created_at = 1, dl_updated_at = 1,
     dl_error = None, dl_sha = ''c0ffee''\<rparr>"

lemma example_lower: "lower ''o/r'' = ''o/r''" by code_simp

lemma example_registered:
  "dy_store (delivery_step delivery_start (Register_Delivery ''o/r'' ''d1'' ''f'' ''ci.yml'' ''refs/heads/main'' [] ''c0ffee'' 1))
   = [example_delivery]"
  by (simp add: register_def delivery_start_def example_delivery_def example_lower Let_def)

lemma example_store: "store_wf [example_delivery]" "get_delivery ''o/r'' ''d1'' [example_delivery] = Some example_delivery"
  by (simp_all add: store_wf_def get_delivery_def lookup_by_def dl_key_def example_delivery_def example_lower)

theorem delivery_result_is_final_witness:
  "\<exists>r. row_at (''o/r'', ''d1'') (run_steps delivery_step delivery_start
       ([Register_Delivery ''o/r'' ''d1'' ''f'' ''ci.yml'' ''refs/heads/main'' [] ''c0ffee'' 1,
         Reject_Delivery ''o/r'' ''d1'' ''no'' 2] @ [Begin_Attempt ''o/r'' ''d1'' 3])) = Some r \<and> dl_state r = Rejected"
proof -
  let ?es = "[Register_Delivery ''o/r'' ''d1'' ''f'' ''ci.yml'' ''refs/heads/main'' [] ''c0ffee'' 1,
         Reject_Delivery ''o/r'' ''d1'' ''no'' 2]"
  have "row_at (''o/r'', ''d1'') (run_steps delivery_step delivery_start ?es) = Some (result_row Rejected ''no'' 2 example_delivery)"
    by (simp add: example_registered [simplified] reject_ready_def update_where_def in_state_def dl_key_def example_lower
        lookup_by_def result_row_def example_delivery_def)
  from delivery_result_is_final [OF this, of "[Begin_Attempt ''o/r'' ''d1'' 3]"] show ?thesis
    by (auto simp: result_row_def)
qed

theorem dispatch_settles_hold_witness:
  "\<exists>s' l' answer. dispatch_record example_delivery (Dispatch_Error (Some 422) ''bad'') 2 3 (Some 1) ([example_delivery], Some [])
      = ((s', l'), answer, [(lower ''o/r'', ''d1'')]) \<and> l' = Some []"
proof -
  obtain s' l' answer sent where d:
      "dispatch_record example_delivery (Dispatch_Error (Some 422) ''bad'') 2 3 (Some 1) ([example_delivery], Some [])
      = ((s', l'), answer, sent)"
    by (metis prod.exhaust)
  from dispatch_settles_hold [OF example_store d] d show ?thesis
    by (auto simp: example_delivery_def outcome_state_def refusal_state_def ledger_release_def)
qed

end
