(* ===== verification/Webhook_Events.thy ===== *)
theory Webhook_Events
  imports Dispatch_Targets
begin

text \<open>
  What a webhook says and which commit it asks for: the signature check, the push and pull-request
  events with the trust rules read off them (\<open>webhook.py\<close>), and the commit a pull-request run builds
  (\<open>merge_ref.py\<close>, \<open>github.py\<close>). A body is what \<open>json.loads\<close> makes of it, None when it is not JSON;
  HMAC-SHA256 and HTTP are parameters.
\<close>

section \<open>Signatures\<close>

definition sign :: "(string \<Rightarrow> string \<Rightarrow> string) \<Rightarrow> string \<Rightarrow> string \<Rightarrow> string" where
  "sign hmac_hex secret body = ''sha256='' @ hmac_hex secret body"

definition verify_signature :: "(string \<Rightarrow> string \<Rightarrow> string) \<Rightarrow> string \<Rightarrow> string \<Rightarrow> string option \<Rightarrow> bool" where
  "verify_signature hmac_hex secret body header =
     (case header of
        None \<Rightarrow> False
      | Some h \<Rightarrow> if h = [] then False else sign hmac_hex secret body = strip h)"

section \<open>Events\<close>

definition is_placeholder_sha :: "string \<Rightarrow> bool" where
  "is_placeholder_sha sha \<longleftrightarrow> sha \<noteq> [] \<and> list_all (\<lambda>c. c = CHR ''0'') sha"

record push_event =
  pe_repository :: string
  pe_private :: bool
  pe_ref :: string
  pe_after :: string
  pe_default_branch :: string

definition push_branch :: "push_event \<Rightarrow> string" where
  "push_branch e =
     (if prefix ''refs/heads/'' (pe_ref e) then drop (length ''refs/heads/'') (pe_ref e) else [])"

record pull_request_event =
  pr_repository :: string
  pr_private :: bool
  pr_default_branch :: string
  pr_number :: int
  pr_action :: string
  pr_author_association :: string
  pr_head_repo :: string
  pr_head_sha :: string
  pr_merge_sha :: string
  pr_draft :: bool
  pr_author :: string
  pr_author_type :: string

definition merge_ref_name :: "pull_request_event \<Rightarrow> string" where
  "merge_ref_name e = ''refs/pull/'' @ int_str (pr_number e) @ ''/merge''"

definition same_repo :: "pull_request_event \<Rightarrow> bool" where
  "same_repo e \<longleftrightarrow> pr_head_repo e \<noteq> [] \<and> pr_head_repo e = pr_repository e"

definition bot_authored :: "pull_request_event \<Rightarrow> bool" where
  "bot_authored e \<longleftrightarrow> pr_author_type e = ''Bot'' \<or> suffix ''[bot]'' (pr_author e)"

definition trusted :: "pull_request_event \<Rightarrow> bool" where
  "trusted e =
     (if \<not> same_repo e then False
      else if pr_author_association e \<in> {''OWNER'', ''MEMBER'', ''COLLABORATOR''} then True
      else bot_authored e)"

definition hosted_reason :: "pull_request_event \<Rightarrow> string" where
  "hosted_reason e =
     (if \<not> same_repo e then ''the head repository is not this repository, so hosted execution is required''
      else ''the author may not run code on local hardware, so hosted execution is required'')"

definition should_route :: "pull_request_event \<Rightarrow> bool" where
  "should_route e \<longleftrightarrow> pr_action e \<in> {''opened'', ''reopened'', ''synchronize'', ''ready_for_review''}"

definition run_sha :: "pull_request_event \<Rightarrow> string" where
  "run_sha e =
     (if pr_merge_sha e \<noteq> [] \<and> \<not> is_placeholder_sha (pr_merge_sha e) then pr_merge_sha e else pr_head_sha e)"

definition status_sha :: "pull_request_event \<Rightarrow> string" where
  "status_sha e = (if pr_head_sha e \<noteq> [] then pr_head_sha e else run_sha e)"

definition direct_eligible :: "pull_request_event \<Rightarrow> bool" where
  "direct_eligible e \<longleftrightarrow> should_route e \<and> same_repo e \<and> trusted e \<and> \<not> pr_draft e \<and> run_sha e \<noteq> []"

section \<open>Parsing a payload\<close>

datatype webhook_error =
    Not_Json
  | Not_An_Object
  | No_Repository_Name
  | No_Default_Branch
  | No_Ref_Or_After
  | Ref_Was_Deleted
  | No_Pull_Request
  | Invalid_Number
  | No_Action_Or_Association

definition str_field :: "string \<Rightarrow> jobj \<Rightarrow> string option" where
  "str_field k kvs = (case map_of kvs k of Some (JStr s) \<Rightarrow> Some s | _ \<Rightarrow> None)"

definition obj_field :: "string \<Rightarrow> jobj \<Rightarrow> jobj option" where
  "obj_field k kvs = (case map_of kvs k of Some (JObj o') \<Rightarrow> Some o' | _ \<Rightarrow> None)"

definition true_field :: "string \<Rightarrow> jobj \<Rightarrow> bool" where
  "true_field k kvs = (case map_of kvs k of Some v \<Rightarrow> truthy v | None \<Rightarrow> False)"

text \<open>The part both parsers share: the payload, its repository, the full name and the default branch.\<close>

definition payload_repository :: "json option \<Rightarrow> webhook_error + jobj \<times> jobj \<times> string \<times> string" where
  "payload_repository body =
     (case body of
        None \<Rightarrow> Inl Not_Json
      | Some (JObj payload) \<Rightarrow>
          (case obj_field ''repository'' payload of
             None \<Rightarrow> Inl No_Repository_Name
           | Some repository \<Rightarrow>
               (case str_field ''full_name'' repository of
                  None \<Rightarrow> Inl No_Repository_Name
                | Some name \<Rightarrow>
                    (case str_field ''default_branch'' repository of
                       None \<Rightarrow> Inl No_Default_Branch
                     | Some branch \<Rightarrow> if branch = [] then Inl No_Default_Branch
                                     else Inr (payload, repository, name, branch))))
      | Some _ \<Rightarrow> Inl Not_An_Object)"

definition parse_push_event :: "json option \<Rightarrow> webhook_error + push_event" where
  "parse_push_event body =
     rbind (payload_repository body) (\<lambda>(payload, repository, name, branch).
       case (str_field ''ref'' payload, str_field ''after'' payload) of
         (Some rf, Some after) \<Rightarrow>
           if map_of payload ''deleted'' = Some (JBool True) then Inl Ref_Was_Deleted
           else Inr \<lparr>pe_repository = name, pe_private = true_field ''private'' repository, pe_ref = rf,
                     pe_after = after, pe_default_branch = branch\<rparr>
       | _ \<Rightarrow> Inl No_Ref_Or_After)"

definition or_blank :: "string option \<Rightarrow> string" where
  "or_blank s = (case s of None \<Rightarrow> [] | Some t \<Rightarrow> t)"

definition head_of :: "jobj \<Rightarrow> string \<times> string" where
  "head_of pull_request =
     (case obj_field ''head'' pull_request of
        None \<Rightarrow> ([], [])
      | Some head \<Rightarrow>
          (or_blank (case obj_field ''repo'' head of None \<Rightarrow> None | Some repo \<Rightarrow> str_field ''full_name'' repo),
           or_blank (str_field ''sha'' head)))"

definition author_of :: "jobj \<Rightarrow> string \<times> string" where
  "author_of pull_request =
     (case obj_field ''user'' pull_request of
        None \<Rightarrow> ([], [])
      | Some user \<Rightarrow> (or_blank (str_field ''login'' user), or_blank (str_field ''type'' user)))"

definition merge_sha_of :: "jobj \<Rightarrow> string" where
  "merge_sha_of pull_request =
     (case str_field ''merge_commit_sha'' pull_request of
        None \<Rightarrow> [] | Some sha \<Rightarrow> if is_placeholder_sha sha then [] else sha)"

definition parse_pull_request_event :: "json option \<Rightarrow> webhook_error + pull_request_event" where
  "parse_pull_request_event body =
     rbind (payload_repository body) (\<lambda>(payload, repository, name, branch).
       case obj_field ''pull_request'' payload of
         None \<Rightarrow> Inl No_Pull_Request
       | Some pull_request \<Rightarrow>
           (case map_of payload ''number'' of
              Some (JInt number) \<Rightarrow>
                if number \<le> 0 then Inl Invalid_Number
                else (case (str_field ''action'' payload, str_field ''author_association'' pull_request) of
                        (Some action, Some association) \<Rightarrow>
                          Inr \<lparr>pr_repository = name, pr_private = true_field ''private'' repository,
                               pr_default_branch = branch, pr_number = number, pr_action = action,
                               pr_author_association = association,
                               pr_head_repo = fst (head_of pull_request), pr_head_sha = snd (head_of pull_request),
                               pr_merge_sha = merge_sha_of pull_request, pr_draft = true_field ''draft'' pull_request,
                               pr_author = fst (author_of pull_request), pr_author_type = snd (author_of pull_request)\<rparr>
                      | _ \<Rightarrow> Inl No_Action_Or_Association)
            | _ \<Rightarrow> Inl Invalid_Number))"

section \<open>The commit a pull-request run builds\<close>

definition names_a_commit :: "string \<Rightarrow> bool" where
  "names_a_commit sha \<longleftrightarrow>
     \<not> is_placeholder_sha sha \<and> length sha = 40 \<and> list_all (\<lambda>c. c \<in> set ''0123456789abcdef'') (lower sha)"

definition run_sha_for_pull_request :: "string \<Rightarrow> (string \<times> string list) option \<Rightarrow> string" where
  "run_sha_for_pull_request head_sha resolved =
     (case resolved of
        None \<Rightarrow> head_sha
      | Some (sha, parents) \<Rightarrow> if \<not> names_a_commit sha \<or> head_sha \<notin> set parents then head_sha else sha)"

text \<open>
  The lookup of the merge ref: an answer of GitHub is a body, an HTTP error or a failed request. An
  empty body reads as an empty object; a body that is not JSON raises a ValueError out of the
  lookup, every other fault is a GitHubAPIError.
\<close>

datatype http_answer = Empty_Body | Json_Body json | Other_Body | Http_Error nat | Url_Error

datatype lookup_error = Api_Error | Value_Error

definition UNMERGEABLE :: "nat list" where "UNMERGEABLE = [404, 409, 422]"

definition merge_ref_url :: "string \<Rightarrow> string \<Rightarrow> int \<Rightarrow> string" where
  "merge_ref_url api_url repository number =
     api_url @ ''/repos/'' @ repository @ ''/commits/refs/pull/'' @ int_str number @ ''/merge''"

text \<open>The \<open>str\<close> of a parent's name; that of a float or a container is a parameter.\<close>

fun name_text :: "(json \<Rightarrow> string) \<Rightarrow> json \<Rightarrow> string" where
  "name_text repr (JStr s) = s"
| "name_text repr (JInt i) = int_str i"
| "name_text repr (JBool b) = (if b then ''True'' else ''False'')"
| "name_text repr j = repr j"

definition parent_names :: "(json \<Rightarrow> string) \<Rightarrow> json list \<Rightarrow> string list" where
  "parent_names repr parents =
     concat (map (\<lambda>parent. case parent of
       JObj kvs \<Rightarrow> (case map_of kvs ''sha'' of Some v \<Rightarrow> if truthy v then [name_text repr v] else [] | None \<Rightarrow> [])
     | _ \<Rightarrow> []) parents)"

definition read_commit :: "(json \<Rightarrow> string) \<Rightarrow> json \<Rightarrow> lookup_error + string \<times> string list" where
  "read_commit repr commit =
     (case commit of
        JObj kvs \<Rightarrow>
          (case (str_field ''sha'' kvs, map_of kvs ''parents'') of
             (Some sha, Some (JList parents)) \<Rightarrow>
               if sha = [] then Inl Api_Error else Inr (sha, parent_names repr parents)
           | _ \<Rightarrow> Inl Api_Error)
      | _ \<Rightarrow> Inl Api_Error)"

definition pull_request_merge_sha ::
  "(json \<Rightarrow> string) \<Rightarrow> (string \<Rightarrow> http_answer) \<Rightarrow> string \<Rightarrow> string \<Rightarrow> int \<Rightarrow> lookup_error + (string \<times> string list) option" where
  "pull_request_merge_sha repr http api_url repository number =
     (if number \<le> 0 then Inl Value_Error
      else case http (merge_ref_url api_url repository number) of
             Http_Error code \<Rightarrow> if code \<in> set UNMERGEABLE then Inr None else Inl Api_Error
           | Url_Error \<Rightarrow> Inl Api_Error
           | Other_Body \<Rightarrow> Inl Value_Error
           | Empty_Body \<Rightarrow> rbind (read_commit repr (JObj [])) (\<lambda>c. Inr (Some c))
           | Json_Body commit \<Rightarrow> rbind (read_commit repr commit) (\<lambda>c. Inr (Some c)))"

text \<open>The client's method of the same name, which hands the repository's own URL on as the API's.\<close>

definition client_merge_sha ::
  "(json \<Rightarrow> string) \<Rightarrow> (string \<Rightarrow> http_answer) \<Rightarrow> string \<Rightarrow> string \<Rightarrow> int \<Rightarrow> lookup_error + (string \<times> string list) option" where
  "client_merge_sha repr http api_url repository number =
     (if \<not> is_repository_slug repository then Inl Value_Error
      else pull_request_merge_sha repr http (api_url @ ''/repos/'' @ repository) repository number)"

text \<open>\<open>_run_sha\<close>; a ValueError of the lookup leaves the handler.\<close>

definition resolve_run_sha ::
  "(string \<Rightarrow> int \<Rightarrow> lookup_error + (string \<times> string list) option) option \<Rightarrow> pull_request_event \<Rightarrow> lookup_error + string" where
  "resolve_run_sha github e =
     (case github of
        None \<Rightarrow> Inr (run_sha e)
      | Some lookup \<Rightarrow>
          (case lookup (pr_repository e) (pr_number e) of
             Inl Api_Error \<Rightarrow> Inr (pr_head_sha e)
           | Inl Value_Error \<Rightarrow> Inl Value_Error
           | Inr resolved \<Rightarrow> Inr (run_sha_for_pull_request (pr_head_sha e) resolved)))"

section \<open>What the events guarantee\<close>

lemma run_sha_for_cases:
  "run_sha_for_pull_request head resolved = head \<or>
   (\<exists>sha parents. resolved = Some (sha, parents) \<and> run_sha_for_pull_request head resolved = sha \<and>
      names_a_commit sha \<and> head \<in> set parents)"
  by (auto simp: run_sha_for_pull_request_def split: option.splits)

lemma trusted_same_repo: "trusted e \<Longrightarrow> same_repo e"
  by (simp add: trusted_def split: if_splits)

text \<open>
  A pull-request run builds the head or its own current merge. Whatever GitHub answers, the
  commit the broker resolves for an event is the event's head, or a full object name GitHub gave
  for the merge ref whose parents include that head; a merge left over from an earlier push is
  never built. The broker's own lookup answers None or raises for everything that is not a commit.
\<close>

theorem built_commit_contains_head:
  assumes "resolve_run_sha (Some (client_merge_sha repr http api_url)) e = Inr sha"
  shows "sha = pr_head_sha e \<or>
     (\<exists>commit kvs parents. http (merge_ref_url (api_url @ ''/repos/'' @ pr_repository e) (pr_repository e) (pr_number e)) = Json_Body commit \<and>
        commit = JObj kvs \<and> map_of kvs ''sha'' = Some (JStr sha) \<and> map_of kvs ''parents'' = Some (JList parents) \<and>
        names_a_commit sha \<and> pr_head_sha e \<in> set (parent_names repr parents))"
proof (cases "client_merge_sha repr http api_url (pr_repository e) (pr_number e)")
  case (Inl x)
  with assms show ?thesis by (cases x) (simp_all add: resolve_run_sha_def)
next
  case (Inr resolved)
  with assms have sha: "sha = run_sha_for_pull_request (pr_head_sha e) resolved" by (simp add: resolve_run_sha_def)
  show ?thesis
  proof (cases "sha = pr_head_sha e")
    case False
    then obtain parents where r: "resolved = Some (sha, parents)" "names_a_commit sha" "pr_head_sha e \<in> set parents"
      using run_sha_for_cases [of "pr_head_sha e" resolved] unfolding sha [symmetric] by auto
    from Inr r(1) obtain commit where "http (merge_ref_url (api_url @ ''/repos/'' @ pr_repository e) (pr_repository e) (pr_number e)) = Json_Body commit"
        "read_commit repr commit = Inr (sha, parents)"
      by (auto simp: client_merge_sha_def pull_request_merge_sha_def read_commit_def str_field_def rbind_Inr_conv
          split: if_splits http_answer.splits)
    moreover from this(2) obtain kvs ps where "commit = JObj kvs" "map_of kvs ''sha'' = Some (JStr sha)"
        "map_of kvs ''parents'' = Some (JList ps)" "parents = parent_names repr ps"
      by (auto simp: read_commit_def str_field_def split: json.splits option.splits if_splits)
    ultimately show ?thesis using r(2,3) by blast
  qed simp
qed

text \<open>
  The client asks for a path that names the repository twice. If GitHub answers a path it does not
  serve with 404, as it documents, the lookup reads every pull request as unmergeable and every run
  builds the head.
\<close>

theorem merge_lookup_asks_the_wrong_path:
  assumes "\<And>rest. http (api_url @ ''/repos/'' @ pr_repository e @ ''/repos/'' @ rest) = Http_Error 404"
    and "is_repository_slug (pr_repository e)" and "0 < pr_number e"
  shows "client_merge_sha repr http api_url (pr_repository e) (pr_number e) = Inr None \<and>
     resolve_run_sha (Some (client_merge_sha repr http api_url)) e = Inr (pr_head_sha e)"
proof -
  have "http (merge_ref_url (api_url @ ''/repos/'' @ pr_repository e) (pr_repository e) (pr_number e)) = Http_Error 404"
    using assms(1) [of "pr_repository e @ ''/commits/refs/pull/'' @ int_str (pr_number e) @ ''/merge''"]
    by (simp add: merge_ref_url_def)
  then show ?thesis
    using assms(2,3)
    by (simp add: client_merge_sha_def pull_request_merge_sha_def resolve_run_sha_def run_sha_for_pull_request_def UNMERGEABLE_def)
qed

section \<open>A concrete pull request\<close>

definition example_head :: string where "example_head = replicate 40 CHR ''a''"
definition example_merge :: string where "example_merge = replicate 40 CHR ''b''"

definition example_pull_request :: pull_request_event where
  "example_pull_request =
     \<lparr>pr_repository = ''o/r'', pr_private = True, pr_default_branch = ''main'', pr_number = 7, pr_action = ''opened'',
      pr_author_association = ''NONE'', pr_head_repo = ''fork/r'', pr_head_sha = example_head, pr_merge_sha = [],
      pr_draft = False, pr_author = ''mallory'', pr_author_type = ''User''\<rparr>"

definition example_commit :: json where
  "example_commit = JObj [(''sha'', JStr example_merge), (''parents'', JList [JObj [(''sha'', JStr example_head)]])]"

lemma example_resolved:
  "resolve_run_sha (Some (client_merge_sha (\<lambda>_. []) (\<lambda>_. Json_Body example_commit) ''https://api.github.com'')) example_pull_request =
     Inr example_merge"
  by (simp add: resolve_run_sha_def client_merge_sha_def pull_request_merge_sha_def example_pull_request_def example_commit_def
      is_repository_slug_def slug_char_def read_commit_def str_field_def parent_names_def run_sha_for_pull_request_def
      names_a_commit_def is_placeholder_sha_def example_merge_def example_head_def lower_def lower_char_def list_all_iff)

theorem built_commit_contains_head_witness:
  "\<exists>commit kvs parents. Json_Body example_commit = Json_Body commit \<and> commit = JObj kvs \<and>
     map_of kvs ''sha'' = Some (JStr example_merge) \<and> map_of kvs ''parents'' = Some (JList parents) \<and>
     example_head \<in> set (parent_names (\<lambda>_. []) parents)"
proof -
  have "pr_head_sha example_pull_request = example_head" "example_merge \<noteq> example_head"
    by (simp_all add: example_pull_request_def example_merge_def example_head_def)
  with built_commit_contains_head [OF example_resolved] show ?thesis by auto
qed

theorem merge_lookup_asks_the_wrong_path_witness:
  "resolve_run_sha (Some (client_merge_sha (\<lambda>_. []) (\<lambda>_. Http_Error 404) ''https://api.github.com'')) example_pull_request =
     Inr example_head"
  using merge_lookup_asks_the_wrong_path [of "\<lambda>_. Http_Error 404" "''https://api.github.com''" example_pull_request "\<lambda>_. []"]
  by (simp add: example_pull_request_def is_repository_slug_def slug_char_def)

end
