(* ===== verification/Webhook_Broker.thy ===== *)
theory Webhook_Broker
  imports Webhook_Events Route_Policy Delivery_Ledger Job_Queue
begin

text \<open>
  The broker's webhook and dispatch handlers: the signed webhook, direct execution, the choice of a
  lane with its runner reservations and the dispatch endpoint (\<open>service.py\<close>), the push path and the
  replay of stored deliveries (\<open>webhook_dispatch.py\<close>, \<open>refusal.py\<close>, \<open>delivery_spend.py\<close>) and the
  pull-request path (\<open>pull_request_dispatch.py\<close>).

  A handler maps the broker's state to a new state, the reply it sends and the writes it makes on
  GitHub, in order. What it reads from outside is an \<open>environment\<close>: GitHub's answers, the clocks, the
  quota readings, the id of a new job and which calls of the delivery store raise. A store call that
  raises changes nothing.
\<close>

section \<open>Texts\<close>

fun budget_text :: "(real \<Rightarrow> string) \<Rightarrow> budget_refusal_reason \<Rightarrow> string" where
  "budget_text fmt (Budget_Spent budget used rate) =
     ''the metered budget of '' @ fmt budget @ '' minutes is spent: '' @ fmt used @ '' minutes used this month'' @
     (case rate of None \<Rightarrow> [] | Some r \<Rightarrow> '' at '' @ fmt r @ '' minutes per dispatch'')"

fun reason_text :: "(real \<Rightarrow> string) \<Rightarrow> route_reason \<Rightarrow> string" where
  "reason_text fmt Hosted_Selected = ''hosted lane explicitly selected''"
| "reason_text fmt Public_Uses_Hosted = ''public repository uses hosted runners''"
| "reason_text fmt Hosted_Quota_Available = ''hosted quota is available''"
| "reason_text fmt Quota_Is_Unknown = ''hosted quota is unknown''"
| "reason_text fmt Quota_Is_Exhausted = ''hosted quota is exhausted''"
| "reason_text fmt (Quota_Too_Thin left est) =
     ''hosted quota has '' @ fmt left @ '' minutes left, too few for a '' @ fmt est @ '' minute job''"
| "reason_text fmt (Metered_Budget_Spent refusal) = budget_text fmt refusal"
| "reason_text fmt (Explicit_Lane lane) = ''explicit '' @ lane @ '' lane selected''"
| "reason_text fmt (Selected_Locally reason lane) = reason_text fmt reason @ ''; selected '' @ lane"
| "reason_text fmt (Queued_When_Idle reason) = reason_text fmt reason @ ''; GitHub queues until the runner is idle''"

fun unavailable_text :: "(real \<Rightarrow> string) \<Rightarrow> route_unavailable \<Rightarrow> string" where
  "unavailable_text fmt (Unknown_Lane lane) = ''unknown lane: '' @ lane"
| "unavailable_text fmt Device_Needs_Target = ''device lane requires an explicit target''"
| "unavailable_text fmt (Unknown_Device target) = ''unknown device target: '' @ target"
| "unavailable_text fmt (No_Eligible_Runner lane) = ''no eligible runner for lane '' @ lane"
| "unavailable_text fmt (No_Local_Runner reason) = reason_text fmt reason @ ''; no local runner is eligible''"
| "unavailable_text fmt Minutes_Not_A_Number = []"

fun refusal_text :: "dispatch_refusal \<Rightarrow> string" where
  "refusal_text Repository_Not_Permitted = ''repository is not permitted for dispatch''"
| "refusal_text Workflow_Not_Permitted = ''workflow is not permitted for this repository''"
| "refusal_text Ref_Not_Permitted = ''ref is not permitted for this workflow''"

fun webhook_error_text :: "webhook_error \<Rightarrow> string" where
  "webhook_error_text Not_Json = ''body is not valid JSON''"
| "webhook_error_text Not_An_Object = ''body is not a JSON object''"
| "webhook_error_text No_Repository_Name = ''payload has no repository.full_name''"
| "webhook_error_text No_Default_Branch = ''payload has no repository.default_branch''"
| "webhook_error_text No_Ref_Or_After = ''payload has no ref or after''"
| "webhook_error_text Ref_Was_Deleted = ''ref was deleted''"
| "webhook_error_text No_Pull_Request = ''payload has no pull_request''"
| "webhook_error_text Invalid_Number = ''payload has an invalid pull request number''"
| "webhook_error_text No_Action_Or_Association = ''payload has no pull request action or author association''"

definition missing_workflow :: "string \<Rightarrow> string \<Rightarrow> string" where
  "missing_workflow repository workflow = repository @ '' has no workflow file named '' @ workflow"

definition removed_workflow :: "string \<Rightarrow> string \<Rightarrow> string" where
  "removed_workflow repository workflow = missing_workflow repository workflow @ ''; it was removed before the replay''"

fun state_name :: "delivery_state \<Rightarrow> string" where
  "state_name Ready = ''ready''"
| "state_name Attempting = ''attempting''"
| "state_name Accepted = ''accepted''"
| "state_name Rejected = ''rejected''"
| "state_name Uncertain = ''uncertain''"

fun answer_name :: "dispatch_answer \<Rightarrow> string" where
  "answer_name Duplicate = ''duplicate''"
| "answer_name (Answer st _) = state_name st"

fun answer_error :: "dispatch_answer \<Rightarrow> string" where
  "answer_error Duplicate = []"
| "answer_error (Answer _ error) = error"

section \<open>The broker\<close>

type_synonym runner_reservation = "real \<times> string set"

record broker =
  bk_ledger :: metered_ledger
  bk_deliveries :: delivery_store
  bk_jobs :: db
  bk_reserved :: "string \<rightharpoonup> (int \<times> runner_reservation) list"

text \<open>
  The server's configuration. \<open>sv_github\<close> says a GitHub client is configured, \<open>sv_jobs\<close> that the
  database is, which gives the broker its queue, its delivery store and its ledger together.
\<close>

record server_config =
  sv_policy :: policy
  sv_targets :: "dispatch_target list"
  sv_runners :: "runner list"
  sv_github :: bool
  sv_jobs :: bool
  sv_agent_token :: bool
  sv_workflow_file :: string
  sv_job_timeout :: int
  sv_reservation_seconds :: real

datatype store_call = Get_Call | Reject_Call | Register_Call | Claim_Call

record environment =
  ev_workflow_exists :: "string \<Rightarrow> string \<Rightarrow> string + bool"
  ev_list_runners :: "string \<Rightarrow> string + runner list"
  ev_dispatch :: "string \<Rightarrow> string \<Rightarrow> string \<Rightarrow> (string \<rightharpoonup> string) \<Rightarrow> github_outcome"
  ev_post_status :: "string \<Rightarrow> string \<Rightarrow> bool"
  ev_merge_sha :: "string \<Rightarrow> int \<Rightarrow> lookup_error + (string \<times> string list) option"
  ev_fails :: "store_call \<Rightarrow> bool"
  ev_wall :: "nat \<Rightarrow> real"
  ev_monotonic :: real
  ev_monotonic_ns :: int
  ev_quota :: "nat \<Rightarrow> quota_reading option"
  ev_job_id :: string
  ev_format :: "real \<Rightarrow> string"

datatype github_write =
    Dispatch_Request string string string "string \<rightharpoonup> string"
  | Status_Write string string string string bool
  | Check_Run string

record capacity =
  cp_registered :: nat
  cp_online_idle :: nat
  cp_lane_idle :: nat
  cp_reserved :: nat
  cp_available :: int
  cp_queued_by_github :: bool
  cp_candidate :: "string option"

datatype reply =
    Error_Reply string
  | Ignored string
  | Ignored_Workflow string string
  | Tag_Refused string
  | Delivery_Reply string string string
  | Queued_Reply string string string bool
  | Decision_Reply route_decision "capacity option"
  | Dispatched_Reply route_decision "capacity option" string string string

text \<open>What a handler ends in: a reply, or an exception that leaves it.\<close>

datatype handler_error = Enqueue_Error py_exn | Lookup_Value_Error | Format_Error | Missing_Row

datatype outcome = Reply nat reply | Raised handler_error

type_synonym handled = "broker \<times> outcome \<times> github_write list"

definition with_writes :: "github_write list \<Rightarrow> handled \<Rightarrow> handled" where
  "with_writes ws h = (case h of (b, out, ws') \<Rightarrow> (b, out, ws @ ws'))"

definition release_reservation :: "nat option \<Rightarrow> broker \<Rightarrow> broker" where
  "release_reservation reservation b = b\<lparr>bk_ledger := ledger_release reservation (bk_ledger b)\<rparr>"

definition name_hold :: "nat option \<Rightarrow> string \<Rightarrow> string \<Rightarrow> string \<Rightarrow> broker \<Rightarrow> broker" where
  "name_hold reservation repository workflow rf b =
     b\<lparr>bk_ledger := ledger_attribute reservation repository workflow rf (bk_ledger b)\<rparr>"

section \<open>Runner reservations\<close>

definition active_reservations :: "broker \<Rightarrow> string \<Rightarrow> (int \<times> runner_reservation) list" where
  "active_reservations b repository = (case bk_reserved b repository of None \<Rightarrow> [] | Some rs \<Rightarrow> rs)"

definition put_reservations :: "string \<Rightarrow> (int \<times> runner_reservation) list \<Rightarrow> broker \<Rightarrow> broker" where
  "put_reservations repository rs b =
     b\<lparr>bk_reserved := (if rs = [] then (bk_reserved b)(repository := None) else (bk_reserved b)(repository \<mapsto> rs))\<rparr>"

definition expire_reservations :: "string \<Rightarrow> real \<Rightarrow> broker \<Rightarrow> broker" where
  "expire_reservations repository now b =
     put_reservations repository (filter (\<lambda>(_, expires, _). expires > now) (active_reservations b repository)) b"

definition release_runner :: "(string \<times> int) option \<Rightarrow> broker \<Rightarrow> broker" where
  "release_runner reservation b =
     (case reservation of
        None \<Rightarrow> b
      | Some (repository, i) \<Rightarrow> put_reservations repository (filter (\<lambda>(j, _). j \<noteq> i) (active_reservations b repository)) b)"

definition reserve_runner :: "string \<Rightarrow> int \<Rightarrow> runner_reservation \<Rightarrow> broker \<Rightarrow> broker" where
  "reserve_runner repository i entry b =
     put_reservations repository (filter (\<lambda>(j, _). j \<noteq> i) (active_reservations b repository) @ [(i, entry)]) b"

section \<open>Choosing a lane for a dispatch\<close>

datatype decision_error = Route_Error route_unavailable | Runners_Busy | Github_Error string

definition idle_runners :: "runner list \<Rightarrow> runner list" where
  "idle_runners runners = filter (\<lambda>r. rn_status r = ''online'' \<and> \<not> rn_busy r) runners"

definition lane_capacity :: "runner list \<Rightarrow> route_decision \<Rightarrow> runner_reservation list \<Rightarrow> capacity" where
  "lane_capacity runners d reservations =
     (let lane_idle = length (filter (\<lambda>r. rd_runs_on d \<subseteq> rn_labels r) (idle_runners runners));
          reserved = overlapping_reservations runners (rd_runs_on d) reservations;
          available = int lane_idle - int reserved
      in \<lparr>cp_registered = length runners, cp_online_idle = length (idle_runners runners), cp_lane_idle = lane_idle,
          cp_reserved = reserved, cp_available = max available 0,
          cp_queued_by_github = (rd_lane d \<noteq> ''hosted'' \<and> available \<le> 0), cp_candidate = rd_runner d\<rparr>)"

definition dispatch_decision ::
  "server_config \<Rightarrow> environment \<Rightarrow> route_request \<Rightarrow> string \<Rightarrow> bool \<Rightarrow> broker \<Rightarrow>
   broker \<times> (decision_error + route_decision \<times> capacity option \<times> (string \<times> int) option)" where
  "dispatch_decision sv ev rq repository allow_busy b =
     (case choose_route (sv_policy sv) (ev_quota ev 0) rq [] (ev_wall ev 0) (ev_wall ev 1) (bk_ledger b) of
        (l1, Inr d) \<Rightarrow> (b\<lparr>bk_ledger := l1\<rparr>, Inr (d, None, None))
      | (l1, Inl e) \<Rightarrow>
          (let b1 = b\<lparr>bk_ledger := l1\<rparr> in
           if e = Minutes_Not_A_Number then (b1, Inl (Route_Error e))
           else if \<not> sv_github sv then (b1, Inl (Github_Error ''GitHub runner lookup is not configured''))
           else case ev_list_runners ev repository of
             Inl m \<Rightarrow> (b1, Inl (Github_Error m))
           | Inr listed \<Rightarrow>
               (let b2 = expire_reservations repository (ev_monotonic ev) b1;
                    runners = map (\<lambda>r. r\<lparr>rn_healthy := (rn_status r = ''online'')\<rparr>) listed in
                case choose_webhook_lane (sv_policy sv) (ev_quota ev 1) (ev_quota ev 2) rq runners allow_busy
                       (ev_wall ev 2) (ev_wall ev 3) (ev_wall ev 4) (ev_wall ev 5) (bk_ledger b2) of
                  (l3, Inl e) \<Rightarrow> (b2\<lparr>bk_ledger := l3\<rparr>, Inl (Route_Error e))
                | (l3, Inr d) \<Rightarrow>
                    (let b3 = b2\<lparr>bk_ledger := l3\<rparr>;
                         cp = lane_capacity runners d (map snd (active_reservations b3 repository)) in
                     if rd_lane d \<noteq> ''hosted'' \<and> cp_available cp \<le> 0 \<and> (\<not> allow_busy \<or> cp_lane_idle cp > 0)
                     then (b3, Inl Runners_Busy)
                     else if rd_lane d \<noteq> ''hosted'' \<and> rd_runner d \<notin> {None, Some []} \<and> cp_available cp > 0
                     then (reserve_runner repository (ev_monotonic_ns ev)
                             (ev_monotonic ev + sv_reservation_seconds sv, rd_runs_on d) b3,
                           Inr (d, Some cp, Some (repository, ev_monotonic_ns ev)))
                     else (b3, Inr (d, Some cp, None))))))"

definition decision_refusal :: "environment \<Rightarrow> decision_error \<Rightarrow> outcome" where
  "decision_refusal ev e =
     (case e of
        Route_Error r \<Rightarrow> if r = Minutes_Not_A_Number then Raised Format_Error
                        else Reply 409 (Error_Reply (unavailable_text (ev_format ev) r))
      | Runners_Busy \<Rightarrow> Reply 409 (Error_Reply ''all eligible repository runners are busy or reserved'')
      | Github_Error m \<Rightarrow> Reply 502 (Error_Reply m))"

section \<open>Direct execution\<close>

definition status_write :: "environment \<Rightarrow> string \<Rightarrow> string \<Rightarrow> string \<Rightarrow> string \<Rightarrow> github_write" where
  "status_write ev repository sha state description =
     Status_Write repository sha state description (ev_post_status ev repository sha)"

text \<open>
  \<open>_enqueue_direct\<close>. The delivery header is what deduplicates; the check run and the pending status
  are written only when a GitHub client is configured, and a refused write changes nothing else.
\<close>

definition enqueue_direct ::
  "server_config \<Rightarrow> environment \<Rightarrow> string \<Rightarrow> string \<Rightarrow> string \<Rightarrow> string option \<Rightarrow> string option \<Rightarrow> broker \<Rightarrow> handled" where
  "enqueue_direct sv ev repository sha rf status_commit header b =
     (if \<not> sv_agent_token sv
      then (b, Reply 503 (Error_Reply ''direct execution requires CINDRAL_AGENT_TOKEN''), [])
      else case enqueue (ev_job_id ev) repository sha rf [] [] (sv_job_timeout sv)
                  (if header = Some [] then None else header) status_commit (ev_wall ev 6) (bk_jobs b) of
             Inl e \<Rightarrow> (b, Raised (Enqueue_Error e), [])
           | Inr (d, j) \<Rightarrow>
               (b\<lparr>bk_jobs := d\<rparr>,
                Reply 202 (Queued_Reply (job_id j) repository sha
                  (sv_github sv \<and> ev_post_status ev repository (head_sha_for sha status_commit))),
                if sv_github sv
                then [Check_Run (job_id j),
                      status_write ev repository (head_sha_for sha status_commit) ''pending'' ''queued on the device pool'']
                else []))"

section \<open>The push path\<close>

fun should_fallback :: "dispatch_answer \<Rightarrow> bool" where
  "should_fallback (Answer Rejected _) = True"
| "should_fallback _ = False"

definition post_refusal :: "server_config \<Rightarrow> environment \<Rightarrow> push_event \<Rightarrow> string \<Rightarrow> github_write list" where
  "post_refusal sv ev e reason =
     (if \<not> sv_github sv \<or> pe_after e = [] then []
      else [status_write ev (pe_repository e) (pe_after e) ''error'' reason])"

definition adapter_absent ::
  "server_config \<Rightarrow> environment \<Rightarrow> push_event \<Rightarrow> string \<Rightarrow> string \<Rightarrow> (broker \<Rightarrow> handled) option \<Rightarrow> broker \<Rightarrow> handled" where
  "adapter_absent sv ev e workflow reason fallback b =
     (let eligible = permits_device (sv_targets sv) (pe_repository e);
          why = (if eligible then [] else ''; the policy does not serve this repository on a device'');
          refused = (b, Reply 202 (Ignored_Workflow (reason @ why) workflow),
                     post_refusal sv ev e (reason @ why @ ''; this push ran nowhere''))
      in case fallback of
           None \<Rightarrow> refused
         | Some f \<Rightarrow> if eligible then f b else refused)"

text \<open>The request a delivery sends, and \<open>dispatch_record\<close> on the broker's state.\<close>

definition delivery_request :: "delivery_row \<Rightarrow> github_write" where
  "delivery_request r = Dispatch_Request (dl_repository r) (dl_workflow r) (dl_ref r) (map_of (dl_inputs r))"

definition dispatch_delivery ::
  "environment \<Rightarrow> delivery_row \<Rightarrow> nat option \<Rightarrow> broker \<Rightarrow> broker \<times> dispatch_answer \<times> github_write list" where
  "dispatch_delivery ev r hold b =
     (case dispatch_record r (ev_dispatch ev (dl_repository r) (dl_workflow r) (dl_ref r) (map_of (dl_inputs r)))
             (ev_wall ev 7) (ev_wall ev 8) hold (bk_deliveries b, Some (bk_ledger b)) of
        ((s, l), a, sent) \<Rightarrow>
          (b\<lparr>bk_deliveries := s, bk_ledger := the l\<rparr>, a, if sent = [] then [] else [delivery_request r]))"

definition delivery_reply :: "dispatch_answer \<Rightarrow> string \<Rightarrow> outcome" where
  "delivery_reply a delivery = Reply (state_to_status a) (Delivery_Reply (answer_name a) (answer_error a) delivery)"

text \<open>A redelivery of a stored, ready delivery, once its adapter was found.\<close>

definition redispatch ::
  "server_config \<Rightarrow> environment \<Rightarrow> push_event \<Rightarrow> delivery_row \<Rightarrow> string \<Rightarrow> (broker \<Rightarrow> handled) option \<Rightarrow> broker \<Rightarrow> handled" where
  "redispatch sv ev e existing delivery fallback b =
     (case reserve_for (sv_policy sv) (map_of (dl_inputs existing) ''cindral_lane'') (ev_wall ev 0) (ev_wall ev 1) (bk_ledger b) of
        (l1, _, Some refusal) \<Rightarrow>
          (b\<lparr>bk_ledger := l1\<rparr>, Reply 409 (Delivery_Reply [] (budget_text (ev_format ev) refusal) delivery), [])
      | (l1, hold, None) \<Rightarrow>
          (let b1 = b\<lparr>bk_ledger := l1\<rparr> in
           if ev_fails ev Claim_Call
           then (release_reservation hold b1, Reply 503 (Error_Reply ''delivery state could not be read''), [])
           else case dispatch_delivery ev existing hold b1 of (b2, a, ws) \<Rightarrow>
             (case fallback of
                Some f \<Rightarrow>
                  if permits_device (sv_targets sv) (pe_repository e) \<and> should_fallback a then with_writes ws (f b2)
                  else (b2, delivery_reply a delivery, ws)
              | None \<Rightarrow> (b2, delivery_reply a delivery, ws))))"

text \<open>An enqueue that the database refuses is answered like any store error of the redelivery.\<close>

definition catch_store_error :: "handled \<Rightarrow> handled" where
  "catch_store_error h =
     (case h of
        (b, Raised (Enqueue_Error IntegrityError), ws) \<Rightarrow>
          (b, Reply 503 (Error_Reply ''delivery state could not be recorded''), ws)
      | _ \<Rightarrow> h)"

definition redeliver ::
  "server_config \<Rightarrow> environment \<Rightarrow> push_event \<Rightarrow> delivery_row \<Rightarrow> string \<Rightarrow> (broker \<Rightarrow> handled) option \<Rightarrow> broker \<Rightarrow> handled" where
  "redeliver sv ev e existing delivery fallback b =
     (case ev_workflow_exists ev (pe_repository e) (dl_workflow existing) of
        Inl m \<Rightarrow> (b, Reply 502 (Error_Reply m), [])
      | Inr True \<Rightarrow> redispatch sv ev e existing delivery fallback b
      | Inr False \<Rightarrow>
          (let reason = removed_workflow (pe_repository e) (dl_workflow existing) in
           if ev_fails ev Reject_Call
           then (b, Reply 503 (Error_Reply ''delivery state could not be recorded''), [])
           else case reject_ready (pe_repository e) delivery reason (ev_wall ev 7) (bk_deliveries b) of
                  (s, rejected) \<Rightarrow>
                    (let b1 = b\<lparr>bk_deliveries := s\<rparr> in
                     if rejected then catch_store_error (adapter_absent sv ev e (dl_workflow existing) reason fallback b1)
                     else redispatch sv ev e existing delivery fallback b1)))"

text \<open>A first delivery: find the adapter, choose a lane, register the delivery and dispatch it.\<close>

definition push_request :: "server_config \<Rightarrow> push_event \<Rightarrow> route_request" where
  "push_request sv e =
     \<lparr>rq_lane = (if push_lane (sv_targets sv) (pe_repository e) = Some ''auto'' then ''auto'' else ''hosted''),
      rq_target = None, rq_visibility = (if pe_private e then ''private'' else ''public''),
      rq_quota_status = ''unknown'', rq_remaining = None, rq_estimated = 10\<rparr>"

definition decision_inputs :: "environment \<Rightarrow> route_request \<Rightarrow> route_decision \<Rightarrow> (string \<times> string) list" where
  "decision_inputs ev rq d =
     [(''cindral_lane'', rd_lane d), (''cindral_target'', or_blank (rq_target rq)),
      (''cindral_reason'', reason_text (ev_format ev) (rd_reason d))]"

definition give_back :: "(string \<times> int) option \<Rightarrow> route_decision \<Rightarrow> broker \<Rightarrow> broker" where
  "give_back runner d b = release_reservation (rd_reservation d) (release_runner runner b)"

definition conclude_push ::
  "server_config \<Rightarrow> push_event \<Rightarrow> string \<Rightarrow> string \<Rightarrow> string option \<Rightarrow> (string \<times> string) list \<Rightarrow> delivery_row \<Rightarrow>
   route_decision \<Rightarrow> capacity option \<Rightarrow> (string \<times> int) option \<Rightarrow> (broker \<Rightarrow> handled) option \<Rightarrow>
   dispatch_answer \<Rightarrow> broker \<Rightarrow> handled" where
  "conclude_push sv e branch delivery header inputs record d cp runner fallback a b =
     (case a of
        Duplicate \<Rightarrow> (give_back runner d b, Reply 202 (Delivery_Reply ''duplicate'' [] delivery), [])
      | Answer Accepted _ \<Rightarrow>
          if dl_inputs record \<noteq> inputs
          then (release_runner runner b, Reply 202 (Delivery_Reply ''accepted'' [] delivery), [])
          else (b, Reply 200 (Dispatched_Reply d cp (pe_repository e) branch (or_blank header)), [])
      | _ \<Rightarrow>
          (let b1 = release_runner runner b in
           case fallback of
             Some f \<Rightarrow> if should_fallback a then f b1 else (b1, delivery_reply a delivery, [])
           | None \<Rightarrow> (b1, delivery_reply a delivery, [])))"

definition dispatch_decided ::
  "server_config \<Rightarrow> environment \<Rightarrow> push_event \<Rightarrow> string \<Rightarrow> string \<Rightarrow> string \<Rightarrow> string option \<Rightarrow> route_request \<Rightarrow>
   route_decision \<Rightarrow> capacity option \<Rightarrow> (string \<times> int) option \<Rightarrow> (broker \<Rightarrow> handled) option \<Rightarrow> broker \<Rightarrow> handled" where
  "dispatch_decided sv ev e branch fingerprint delivery header rq d cp runner fallback b =
     (let inputs = decision_inputs ev rq d in
      if ev_fails ev Register_Call
      then (give_back runner d b, Reply 503 (Error_Reply ''delivery could not be recorded''), [])
      else case register (pe_repository e) delivery fingerprint (sv_workflow_file sv) branch inputs (pe_after e)
                  (ev_wall ev 6) (bk_deliveries b) of
        (s, None) \<Rightarrow> (b\<lparr>bk_deliveries := s\<rparr>, Raised Missing_Row, [])
      | (s, Some record) \<Rightarrow>
          (let b1 = b\<lparr>bk_deliveries := s\<rparr> in
           if dl_fingerprint record \<noteq> fingerprint
           then (give_back runner d b1, Reply 409 (Error_Reply ''delivery ID belongs to a different payload''), [])
           else if ev_fails ev Claim_Call
           then (give_back runner d b1, Reply 503 (Error_Reply ''delivery state could not be read''), [])
           else case dispatch_delivery ev record (rd_reservation d) b1 of (b2, a, ws) \<Rightarrow>
                  with_writes ws (conclude_push sv e branch delivery header inputs record d cp runner fallback a b2)))"

definition first_delivery ::
  "server_config \<Rightarrow> environment \<Rightarrow> push_event \<Rightarrow> string \<Rightarrow> string \<Rightarrow> string \<Rightarrow> string option \<Rightarrow>
   (broker \<Rightarrow> handled) option \<Rightarrow> broker \<Rightarrow> handled" where
  "first_delivery sv ev e branch fingerprint delivery header fallback b =
     (if \<not> sv_github sv then (b, Reply 503 (Error_Reply ''GitHub dispatch token is not configured''), [])
      else case ev_workflow_exists ev (pe_repository e) (sv_workflow_file sv) of
        Inl m \<Rightarrow> (b, Reply 502 (Error_Reply m), [])
      | Inr False \<Rightarrow> adapter_absent sv ev e (sv_workflow_file sv)
                       (missing_workflow (pe_repository e) (sv_workflow_file sv)) fallback b
      | Inr True \<Rightarrow>
          (let rq = push_request sv e in
           case dispatch_decision sv ev rq (pe_repository e) True b of
             (b1, Inl err) \<Rightarrow> (b1, decision_refusal ev err, [])
           | (b1, Inr (d, cp, runner)) \<Rightarrow>
               dispatch_decided sv ev e branch fingerprint delivery header rq d cp runner fallback b1))"

definition dispatch_push ::
  "server_config \<Rightarrow> environment \<Rightarrow> push_event \<Rightarrow> string \<Rightarrow> string \<Rightarrow> string option \<Rightarrow> (broker \<Rightarrow> handled) option \<Rightarrow>
   broker \<Rightarrow> handled" where
  "dispatch_push sv ev e branch fingerprint header fallback b =
     (if \<not> sv_jobs sv then (b, Reply 503 (Error_Reply ''signed dispatch requires CINDRAL_JOBS_DB''), [])
      else case check_dispatch (sv_targets sv) (pe_repository e) (sv_workflow_file sv) branch of
        Inl r \<Rightarrow> (b, Reply 403 (Error_Reply (refusal_text r)), [])
      | Inr _ \<Rightarrow>
          (let delivery = (if or_blank header = [] then fingerprint else or_blank header) in
           if ev_fails ev Get_Call then (b, Reply 503 (Error_Reply ''delivery state could not be read''), [])
           else case get_delivery (pe_repository e) delivery (bk_deliveries b) of
             None \<Rightarrow> first_delivery sv ev e branch fingerprint delivery header fallback b
           | Some existing \<Rightarrow>
               if dl_fingerprint existing \<noteq> fingerprint
               then (b, Reply 409 (Error_Reply ''delivery ID belongs to a different payload''), [])
               else if dl_state existing = Ready \<and> sv_github sv then redeliver sv ev e existing delivery fallback b
               else if dl_state existing \<noteq> Ready
               then (b, Reply (state_to_status (Answer (dl_state existing) []))
                          (Delivery_Reply (if dl_state existing = Accepted then ''duplicate'' else state_name (dl_state existing))
                             [] delivery), [])
               else first_delivery sv ev e branch fingerprint delivery header fallback b))"

section \<open>The pull-request path\<close>

definition post_pull_request_status ::
  "server_config \<Rightarrow> environment \<Rightarrow> pull_request_event \<Rightarrow> string \<Rightarrow> string \<Rightarrow> github_write list" where
  "post_pull_request_status sv ev e state description =
     (if \<not> sv_github sv \<or> status_sha e = [] then []
      else [status_write ev (pr_repository e) (status_sha e) state description])"

definition pull_request_request :: "pull_request_event \<Rightarrow> route_request" where
  "pull_request_request e =
     \<lparr>rq_lane = (if trusted e then ''auto'' else ''hosted''), rq_target = None,
      rq_visibility = (if pr_private e then ''private'' else ''public''), rq_quota_status = ''unknown'',
      rq_remaining = None, rq_estimated = 10\<rparr>"

definition pull_request_inputs :: "environment \<Rightarrow> pull_request_event \<Rightarrow> route_decision \<Rightarrow> (string \<times> string) list" where
  "pull_request_inputs ev e d =
     [(''cindral_lane'', rd_lane d), (''cindral_target'', []),
      (''cindral_reason'', if trusted e then reason_text (ev_format ev) (rd_reason d) else hosted_reason e),
      (''cindral_ref'', merge_ref_name e)]"

definition send_pull_request ::
  "server_config \<Rightarrow> environment \<Rightarrow> pull_request_event \<Rightarrow> string option \<Rightarrow> route_decision \<Rightarrow> broker \<Rightarrow> handled" where
  "send_pull_request sv ev e header d b =
     (let inputs = map_of (pull_request_inputs ev e d);
          sent = post_pull_request_status sv ev e ''pending'' (''dispatched on the '' @ rd_lane d @ '' lane'') @
                 [Dispatch_Request (pr_repository e) (sv_workflow_file sv) (pr_default_branch e) inputs]
      in case ev_dispatch ev (pr_repository e) (sv_workflow_file sv) (pr_default_branch e) inputs of
           Dispatch_Error _ message \<Rightarrow>
             (release_reservation (rd_reservation d) b, Reply 502 (Error_Reply message),
              sent @ post_pull_request_status sv ev e ''error'' ''the dispatch was rejected by GitHub'')
         | Other_Error _ \<Rightarrow>
             (b, Reply 502 (Error_Reply ''the dispatch could not be sent''),
              sent @ post_pull_request_status sv ev e ''error'' ''the dispatch could not be sent'')
         | Sent \<Rightarrow>
             (name_hold (rd_reservation d) (pr_repository e) (sv_workflow_file sv) (pr_default_branch e) b,
              Reply 200 (Dispatched_Reply d None (pr_repository e) (merge_ref_name e) (or_blank header)), sent))"

definition dispatch_pull_request ::
  "server_config \<Rightarrow> environment \<Rightarrow> pull_request_event \<Rightarrow> string option \<Rightarrow> broker \<Rightarrow> handled" where
  "dispatch_pull_request sv ev e header b =
     (if \<not> sv_github sv then (b, Reply 503 (Error_Reply ''GitHub dispatch token is not configured''), [])
      else case ev_workflow_exists ev (pr_repository e) (sv_workflow_file sv) of
        Inl m \<Rightarrow> (b, Reply 502 (Error_Reply m), [])
      | Inr False \<Rightarrow>
          (let reason = missing_workflow (pr_repository e) (sv_workflow_file sv) in
           (b, Reply 202 (Ignored_Workflow reason (sv_workflow_file sv)),
            post_pull_request_status sv ev e ''error'' (reason @ ''; this pull request ran nowhere'')))
      | Inr True \<Rightarrow>
          (case choose_route (sv_policy sv) (ev_quota ev 0) (pull_request_request e) (sv_runners sv)
                  (ev_wall ev 0) (ev_wall ev 1) (bk_ledger b) of
             (l, Inl r) \<Rightarrow> (b\<lparr>bk_ledger := l\<rparr>, decision_refusal ev (Route_Error r), [])
           | (l, Inr d) \<Rightarrow> send_pull_request sv ev e header d (b\<lparr>bk_ledger := l\<rparr>)))"

definition pull_request_webhook ::
  "server_config \<Rightarrow> environment \<Rightarrow> json option \<Rightarrow> string option \<Rightarrow> broker \<Rightarrow> handled" where
  "pull_request_webhook sv ev body header b =
     (case parse_pull_request_event body of
        Inl err \<Rightarrow> (b, Reply 400 (Error_Reply (webhook_error_text err)), [])
      | Inr e \<Rightarrow>
          if \<not> is_repository_slug (pr_repository e) then (b, Reply 400 (Error_Reply ''invalid repository name''), [])
          else if \<not> should_route e
          then (b, Reply 202 (Ignored (''pull request action is not routed: '' @ pr_action e)), [])
          else if sv_jobs sv \<and> direct_eligible e \<and> permits_device (sv_targets sv) (pr_repository e)
          then (case resolve_run_sha (if sv_github sv then Some (ev_merge_sha ev) else None) e of
                  Inl _ \<Rightarrow> (b, Raised Lookup_Value_Error, [])
                | Inr sha \<Rightarrow>
                    enqueue_direct sv ev (pr_repository e) sha (merge_ref_name e) (Some (status_sha e)) header b)
          else dispatch_pull_request sv ev e header b)"

section \<open>The signed webhook\<close>

definition MAX_BODY :: nat where "MAX_BODY = 1048576"

record webhook_request =
  wh_body :: string
  wh_json :: "json option"
  wh_fingerprint :: string
  wh_signature :: "string option"
  wh_event :: "string option"
  wh_delivery :: "string option"

definition push_webhook :: "server_config \<Rightarrow> environment \<Rightarrow> webhook_request \<Rightarrow> broker \<Rightarrow> handled" where
  "push_webhook sv ev rq b =
     (case parse_push_event (wh_json rq) of
        Inl err \<Rightarrow> (b, Reply 400 (Error_Reply (webhook_error_text err)), [])
      | Inr e \<Rightarrow>
          (let branch = push_branch e;
               direct = (\<lambda>b. enqueue_direct sv ev (pe_repository e) (pe_after e) branch None (wh_delivery rq) b);
               lane = (if sv_jobs sv then push_lane (sv_targets sv) (pe_repository e) else None) in
           if \<not> is_repository_slug (pe_repository e) then (b, Reply 400 (Error_Reply ''invalid repository name''), [])
           else if branch = [] \<and> prefix ''refs/tags/'' (pe_ref e) then (b, Reply 422 (Tag_Refused (pe_ref e)), [])
           else if branch = [] \<or> branch \<noteq> pe_default_branch e
           then (b, Reply 202 (Ignored (''branch is not the default branch: '' @ (if branch = [] then pe_ref e else branch))), [])
           else if lane = Some ''device'' then direct b
           else dispatch_push sv ev e branch (wh_fingerprint rq) (wh_delivery rq)
                  (if lane = None then None else Some direct) b))"

definition webhook ::
  "server_config \<Rightarrow> environment \<Rightarrow> (string \<Rightarrow> string \<Rightarrow> string) \<Rightarrow> string option \<Rightarrow> webhook_request \<Rightarrow> broker \<Rightarrow> handled" where
  "webhook sv ev hmac_hex secret rq b =
     (if or_blank secret = [] then (b, Reply 503 (Error_Reply ''webhook secret is not configured''), [])
      else if length (wh_body rq) > MAX_BODY then (b, Reply 413 (Error_Reply ''payload too large''), [])
      else if \<not> verify_signature hmac_hex (or_blank secret) (wh_body rq) (wh_signature rq)
      then (b, Reply 401 (Error_Reply ''signature verification failed''), [])
      else if wh_event rq = Some ''pull_request'' then pull_request_webhook sv ev (wh_json rq) (wh_delivery rq) b
      else if wh_event rq = Some ''push'' then push_webhook sv ev rq b
      else (b, Reply 202 (Ignored ''event is not supported''), []))"

section \<open>The route and dispatch endpoints\<close>

text \<open>
  What the two endpoints do once their body is read: a preview of the lane, and a dispatch by a
  caller whose token was checked.
\<close>

definition route_endpoint :: "server_config \<Rightarrow> environment \<Rightarrow> route_request \<Rightarrow> broker \<Rightarrow> handled" where
  "route_endpoint sv ev rq b =
     (case choose_route (sv_policy sv) (ev_quota ev 0) rq (sv_runners sv) (ev_wall ev 0) (ev_wall ev 1) (bk_ledger b) of
        (l, Inl r) \<Rightarrow> (b\<lparr>bk_ledger := l\<rparr>, decision_refusal ev (Route_Error r), [])
      | (l, Inr d) \<Rightarrow> (b\<lparr>bk_ledger := l\<rparr>, Reply 200 (Decision_Reply d None), []))"

definition definite_refusal :: "github_outcome \<Rightarrow> bool" where
  "definite_refusal out =
     (case out of Dispatch_Error code _ \<Rightarrow> (case code of None \<Rightarrow> True | Some c \<Rightarrow> c < 500) | _ \<Rightarrow> False)"

definition dispatch_to_github ::
  "server_config \<Rightarrow> environment \<Rightarrow> string \<Rightarrow> string \<Rightarrow> string \<Rightarrow> (string \<rightharpoonup> string) \<Rightarrow> (string \<times> int) option \<Rightarrow>
   route_decision \<Rightarrow> capacity option \<Rightarrow> broker \<Rightarrow> handled" where
  "dispatch_to_github sv ev repository workflow rf inputs runner d cp b =
     (let out = ev_dispatch ev repository workflow rf inputs;
          ws = [Dispatch_Request repository workflow rf inputs];
          failed = release_runner runner (if definite_refusal out then release_reservation (rd_reservation d) b else b)
      in case out of
           Sent \<Rightarrow> (name_hold (rd_reservation d) repository workflow rf b, Reply 200 (Decision_Reply d cp), ws)
         | Dispatch_Error _ message \<Rightarrow> (failed, Reply 502 (Error_Reply message), ws)
         | Other_Error _ \<Rightarrow> (failed, Reply 502 (Error_Reply ''GitHub dispatch failed''), ws))"

definition dispatch_endpoint ::
  "server_config \<Rightarrow> environment \<Rightarrow> string \<Rightarrow> string \<Rightarrow> string \<Rightarrow> (string \<rightharpoonup> string) \<Rightarrow> route_request \<Rightarrow> broker \<Rightarrow> handled" where
  "dispatch_endpoint sv ev repository workflow rf inputs rq b =
     (if \<not> sv_github sv then (b, Reply 503 (Error_Reply ''GitHub dispatch token is not configured''), [])
      else case rbind (check_dispatch (sv_targets sv) repository workflow rf)
                  (\<lambda>_. checked_dispatch_ref (sv_targets sv) repository workflow inputs) of
        Inl r \<Rightarrow> (b, Reply 403 (Error_Reply (refusal_text r)), [])
      | Inr checked \<Rightarrow>
          (case dispatch_decision sv ev rq repository False b of
             (b1, Inl err) \<Rightarrow> (b1, decision_refusal ev err, [])
           | (b1, Inr (d, cp, runner)) \<Rightarrow>
               dispatch_to_github sv ev repository workflow rf (checked ++ map_of (decision_inputs ev rq d)) runner d cp b1))"

section \<open>Replaying stored deliveries\<close>

text \<open>\<open>hand_off\<close> with the hand-off \<open>delivery_fallback\<close> builds: the commit is queued under no delivery id.\<close>

definition hand_off :: "server_config \<Rightarrow> environment \<Rightarrow> delivery_row \<Rightarrow> broker \<Rightarrow> broker result" where
  "hand_off sv ev r b =
     (if \<not> permits_device (sv_targets sv) (dl_repository r) \<or> \<not> sv_jobs sv \<or> dl_sha r = [] then Inr b
      else rbind (enqueue (ev_job_id ev) (dl_repository r) (dl_sha r) (dl_ref r) [] [] 3600 None None (ev_wall ev 6) (bk_jobs b))
             (\<lambda>(d, _). Inr (b\<lparr>bk_jobs := d\<rparr>)))"

definition quiet :: "broker \<Rightarrow> broker result \<Rightarrow> broker" where
  "quiet b r = (case r of Inl _ \<Rightarrow> b | Inr b' \<Rightarrow> b')"

text \<open>One pass of the loop in \<open>recover_ready\<close>; whatever raises gives the hold back and moves on.\<close>

definition replay_one :: "server_config \<Rightarrow> environment \<Rightarrow> delivery_row \<Rightarrow> broker \<Rightarrow> broker \<times> github_write list" where
  "replay_one sv ev r b =
     (let rejecting = (\<lambda>reason.
            if ev_fails ev Reject_Call then (b, [])
            else case reject_ready (dl_repository r) (dl_delivery r) reason (ev_wall ev 7) (bk_deliveries b) of
                   (s, rejected) \<Rightarrow>
                     (let b1 = b\<lparr>bk_deliveries := s\<rparr> in
                      if rejected then (quiet b1 (hand_off sv ev r b1), []) else (b1, [])))
      in case check_dispatch (sv_targets sv) (dl_repository r) (dl_workflow r) (dl_ref r) of
           Inl refusal \<Rightarrow> rejecting (refusal_text refusal)
         | Inr _ \<Rightarrow>
             (case ev_workflow_exists ev (dl_repository r) (dl_workflow r) of
                Inl _ \<Rightarrow> (b, [])
              | Inr False \<Rightarrow> rejecting (removed_workflow (dl_repository r) (dl_workflow r))
              | Inr True \<Rightarrow>
                  (case reserve_for (sv_policy sv) (map_of (dl_inputs r) ''cindral_lane'') (ev_wall ev 0) (ev_wall ev 1) (bk_ledger b) of
                     (l1, _, Some _) \<Rightarrow> (b\<lparr>bk_ledger := l1\<rparr>, [])
                   | (l1, hold, None) \<Rightarrow>
                       (let b1 = b\<lparr>bk_ledger := l1\<rparr> in
                        if ev_fails ev Claim_Call then (release_reservation hold b1, [])
                        else case dispatch_delivery ev r hold b1 of (b2, a, ws) \<Rightarrow>
                          (if \<not> should_fallback a then (b2, ws)
                           else case hand_off sv ev r b2 of
                                  Inl _ \<Rightarrow> (release_reservation hold b2, ws)
                                | Inr b3 \<Rightarrow> (b3, ws))))))"

text \<open>\<open>recover_ready\<close>; each delivery meets an environment of its own.\<close>

fun replay_all :: "server_config \<Rightarrow> (nat \<Rightarrow> environment) \<Rightarrow> delivery_row list \<Rightarrow> broker \<Rightarrow> broker \<times> github_write list" where
  "replay_all sv evs [] b = (b, [])"
| "replay_all sv evs (r # rs) b =
     (let (b1, ws) = replay_one sv (evs 0) r b;
          (b2, ws') = replay_all sv (\<lambda>n. evs (Suc n)) rs b1
      in (b2, ws @ ws'))"

definition recover_ready :: "server_config \<Rightarrow> (nat \<Rightarrow> environment) \<Rightarrow> broker \<Rightarrow> broker \<times> github_write list" where
  "recover_ready sv evs b =
     (if sv_github sv then replay_all sv evs (pending 30 (bk_deliveries b)) b else (b, []))"

end
