(* ===== verification/Webhook_Safety.thy ===== *)
theory Webhook_Safety
  imports Webhook_Broker
begin

text \<open>
  What one handling of a webhook or replay guarantees: which code reaches the device queue, that a
  run is queued beside a request only if GitHub refused it, where an untrusted pull request runs, and
  that the month is charged only for a request that may have started a run.
\<close>

section \<open>Who queues a job\<close>

definition queued_row :: "server_config \<Rightarrow> environment \<Rightarrow> string \<Rightarrow> string \<Rightarrow> string \<Rightarrow> string option \<Rightarrow> string option \<Rightarrow> job_row" where
  "queued_row sv ev repository sha rf status_commit header =
     new_row (ev_job_id ev) repository sha rf [] [] (sv_job_timeout sv) (if header = Some [] then None else header)
       status_commit (ev_wall ev 6)"

lemma enqueue_direct_jobs:
  assumes "enqueue_direct sv ev repository sha rf st header b = (b', out, ws)"
  shows "b' = b \<or> b' = b\<lparr>bk_jobs := on_jobs (\<lambda>js. js @ [queued_row sv ev repository sha rf st header]) (bk_jobs b)\<rparr>"
    and "Dispatch_Request r w f i \<notin> set ws"
  using assms
  by (auto simp: enqueue_direct_def enqueue_def queued_row_def status_write_def Let_def
      split: if_splits sum.splits option.splits)

lemma dispatch_delivery_jobs [simp]: "dispatch_delivery ev r hold b = (b', a, ws) \<Longrightarrow> bk_jobs b' = bk_jobs b"
  by (auto simp: dispatch_delivery_def split: prod.splits)

lemma release_simps [simp]:
  "bk_jobs (release_reservation n b) = bk_jobs b"
  "bk_deliveries (release_reservation n b) = bk_deliveries b"
  "bk_jobs (release_runner r b) = bk_jobs b"
  "bk_ledger (release_runner r b) = bk_ledger b"
  "bk_deliveries (release_runner r b) = bk_deliveries b"
  "bk_jobs (expire_reservations repository now b) = bk_jobs b"
  "bk_ledger (expire_reservations repository now b) = bk_ledger b"
  "bk_jobs (reserve_runner repository i x b) = bk_jobs b"
  "bk_ledger (reserve_runner repository i x b) = bk_ledger b"
  "bk_jobs (give_back r d b) = bk_jobs b"
  "bk_jobs (name_hold n repository workflow rf b) = bk_jobs b"
  by (simp_all add: release_reservation_def release_runner_def put_reservations_def expire_reservations_def
      reserve_runner_def give_back_def name_hold_def split: option.splits)

lemma dispatch_decision_jobs: "dispatch_decision sv ev rq repository busy b = (b', x) \<Longrightarrow> bk_jobs b' = bk_jobs b"
  unfolding dispatch_decision_def Let_def
  by (simp split: prod.split_asm sum.split_asm if_split_asm) (elim conjE, hypsubst, simp)+

text \<open>A handler that is given a fallback either leaves the queue alone or ends in the fallback.\<close>

definition falls_back :: "(broker \<Rightarrow> handled) option \<Rightarrow> broker \<Rightarrow> handled \<Rightarrow> bool" where
  "falls_back fallback b h \<longleftrightarrow> bk_jobs (fst h) = bk_jobs b \<or>
     (\<exists>f b1. fallback = Some f \<and> bk_jobs b1 = bk_jobs b \<and> fst h = fst (f b1))"

lemma with_writes_fst [simp]: "fst (with_writes ws h) = fst h" "fst (catch_store_error h) = fst h"
  by (auto simp: with_writes_def catch_store_error_def split: prod.splits outcome.splits handler_error.splits py_exn.splits)

lemma falls_back_simps [simp]:
  "bk_jobs b' = bk_jobs b \<Longrightarrow> falls_back fallback b (b', out, ws)"
  "bk_jobs b1 = bk_jobs b \<Longrightarrow> falls_back (Some f) b (f b1)"
  "falls_back fallback b (with_writes ws h) = falls_back fallback b h"
  "falls_back fallback b (catch_store_error h) = falls_back fallback b h"
  by (auto simp: falls_back_def)

lemma falls_back_later: "falls_back fallback b1 h \<Longrightarrow> bk_jobs b1 = bk_jobs b \<Longrightarrow> falls_back fallback b h"
  by (auto simp: falls_back_def)

lemma adapter_absent_falls_back: "falls_back fallback b (adapter_absent sv ev e workflow reason fallback b)"
  by (simp add: adapter_absent_def Let_def split: option.split)

lemma redispatch_falls_back: "falls_back fallback b (redispatch sv ev e existing delivery fallback b)"
  by (simp add: redispatch_def Let_def split: option.split prod.split)

lemma redeliver_falls_back: "falls_back fallback b (redeliver sv ev e existing delivery fallback b)"
  using redispatch_falls_back
  by (simp add: redeliver_def Let_def falls_back_later [OF adapter_absent_falls_back] falls_back_later [OF redispatch_falls_back]
      split: sum.split bool.split prod.split)

lemma conclude_push_falls_back:
  "falls_back fallback b (conclude_push sv e branch delivery header inputs row d cp runner fallback a b)"
  by (simp add: conclude_push_def Let_def split: dispatch_answer.split delivery_state.split option.split)

lemma dispatch_decided_falls_back:
  "falls_back fallback b (dispatch_decided sv ev e branch fingerprint delivery header rq d cp runner fallback b)"
  by (simp add: dispatch_decided_def Let_def split: prod.split option.split)
     (auto intro!: falls_back_later [OF conclude_push_falls_back] dest: dispatch_delivery_jobs)

lemma first_delivery_falls_back:
  "falls_back fallback b (first_delivery sv ev e branch fingerprint delivery header fallback b)"
  by (simp add: first_delivery_def Let_def adapter_absent_falls_back split: prod.split sum.split bool.split)
     (auto intro!: falls_back_later [OF dispatch_decided_falls_back] dest: dispatch_decision_jobs)

lemma dispatch_push_falls_back: "falls_back fallback b (dispatch_push sv ev e branch fingerprint header fallback b)"
  by (simp add: dispatch_push_def Let_def first_delivery_falls_back redeliver_falls_back split: sum.split option.split)

section \<open>Only trusted code reaches a device\<close>

lemma push_lane_permits: "push_lane targets repository \<noteq> None \<Longrightarrow> permits_device targets repository"
  by (auto simp: push_lane_def permits_device_def split: option.splits if_splits)

lemma push_webhook_queues:
  assumes "push_webhook sv ev rq b = (b', out, ws)" and "bk_jobs b' \<noteq> bk_jobs b"
  obtains e where "parse_push_event (wh_json rq) = Inr e" "sv_jobs sv" "permits_device (sv_targets sv) (pe_repository e)"
    "pe_ref e = ''refs/heads/'' @ pe_default_branch e"
    "bk_jobs b' = on_jobs (\<lambda>js. js @ [queued_row sv ev (pe_repository e) (pe_after e) (pe_default_branch e) None (wh_delivery rq)]) (bk_jobs b)"
proof (cases "parse_push_event (wh_json rq)")
  case (Inl err)
  then show ?thesis using assms by (simp add: push_webhook_def)
next
  case (Inr e)
  let ?direct = "\<lambda>b. enqueue_direct sv ev (pe_repository e) (pe_after e) (push_branch e) None (wh_delivery rq) b"
  from assms Inr have guards: "push_branch e \<noteq> []" "push_branch e = pe_default_branch e" "is_repository_slug (pe_repository e)"
    by (auto simp: push_webhook_def Let_def split: if_splits)
  have "sv_jobs sv \<and> push_lane (sv_targets sv) (pe_repository e) \<noteq> None \<and>
      (\<exists>b1. bk_jobs b1 = bk_jobs b \<and> b' = fst (?direct b1))"
  proof -
    consider (direct) "sv_jobs sv" "push_lane (sv_targets sv) (pe_repository e) = Some ''device''" "?direct b = (b', out, ws)"
      | (dispatch) fallback where "dispatch_push sv ev e (push_branch e) (wh_fingerprint rq) (wh_delivery rq) fallback b = (b', out, ws)"
          "fallback = (if sv_jobs sv \<and> push_lane (sv_targets sv) (pe_repository e) \<noteq> None then Some ?direct else None)"
      using assms(1) Inr guards by (auto simp: push_webhook_def Let_def split: if_splits)
    then show ?thesis
    proof cases
      case direct
      then show ?thesis by (metis fst_conv option.distinct(1))
    next
      case dispatch
      then show ?thesis
        using dispatch_push_falls_back [of fallback b sv ev e "push_branch e" "wh_fingerprint rq" "wh_delivery rq"] assms(2)
        by (auto simp: falls_back_def split: if_splits)
    qed
  qed
  then obtain b1 where b1: "sv_jobs sv" "push_lane (sv_targets sv) (pe_repository e) \<noteq> None" "bk_jobs b1 = bk_jobs b"
      "b' = fst (?direct b1)" by blast
  obtain o1 w1 where "?direct b1 = (b', o1, w1)" using b1(4) by (metis prod.collapse)
  from enqueue_direct_jobs(1) [OF this] b1(3) assms(2)
  have "bk_jobs b' = on_jobs (\<lambda>js. js @ [queued_row sv ev (pe_repository e) (pe_after e) (push_branch e) None (wh_delivery rq)]) (bk_jobs b)"
    by auto
  moreover have "pe_ref e = ''refs/heads/'' @ pe_default_branch e"
    using guards by (auto simp: push_branch_def prefix_def split: if_splits)
  ultimately show ?thesis using that [OF Inr b1(1) push_lane_permits [OF b1(2)]] guards(2) by simp
qed

lemma pull_request_webhook_queues:
  assumes "pull_request_webhook sv ev body header b = (b', out, ws)" and "bk_jobs b' \<noteq> bk_jobs b"
  obtains e sha where "parse_pull_request_event body = Inr e" "sv_jobs sv" "direct_eligible e"
    "permits_device (sv_targets sv) (pr_repository e)"
    "resolve_run_sha (if sv_github sv then Some (ev_merge_sha ev) else None) e = Inr sha"
    "b' = b\<lparr>bk_jobs := on_jobs (\<lambda>js. js @ [queued_row sv ev (pr_repository e) sha (merge_ref_name e) (Some (status_sha e)) header]) (bk_jobs b)\<rparr>"
proof (cases "parse_pull_request_event body")
  case (Inl err)
  then show ?thesis using assms by (simp add: pull_request_webhook_def)
next
  case (Inr e)
  have "bk_jobs (fst (dispatch_pull_request sv ev e header b)) = bk_jobs b"
    by (simp add: dispatch_pull_request_def send_pull_request_def Let_def split: sum.split bool.split prod.split github_outcome.split)
  then have "sv_jobs sv" "direct_eligible e" "permits_device (sv_targets sv) (pr_repository e)"
      "\<exists>sha. resolve_run_sha (if sv_github sv then Some (ev_merge_sha ev) else None) e = Inr sha \<and>
         enqueue_direct sv ev (pr_repository e) sha (merge_ref_name e) (Some (status_sha e)) header b = (b', out, ws)"
    using assms Inr by (simp_all add: pull_request_webhook_def split: if_split_asm sum.split_asm)
  then show ?thesis using that Inr enqueue_direct_jobs(1) assms(2) by metis
qed

text \<open>
  C7: only trusted code reaches a device. When the signed webhook adds a run to the device queue,
  the delivery carried a valid signature, the policy serves the repository on devices, and the run
  is either the pushed commit of the repository's default branch, or a pull request whose head is in
  the repository itself, from an owner, member, collaborator or bot, not a draft; the run of a pull
  request reports on its head and builds the commit resolved for it. Exactly one row is added.
\<close>

theorem device_queue_holds_trusted_code:
  assumes "webhook sv ev hmac_hex secret rq b = (b', out, ws)" and "bk_jobs b' \<noteq> bk_jobs b"
  shows "verify_signature hmac_hex (or_blank secret) (wh_body rq) (wh_signature rq) \<and> or_blank secret \<noteq> [] \<and>
     (\<exists>row. bk_jobs b' = on_jobs (\<lambda>js. js @ [row]) (bk_jobs b) \<and>
        permits_device (sv_targets sv) (r_repository row) \<and>
        ((\<exists>e. wh_event rq = Some ''push'' \<and> parse_push_event (wh_json rq) = Inr e \<and>
            pe_ref e = ''refs/heads/'' @ pe_default_branch e \<and>
            r_repository row = pe_repository e \<and> r_sha row = pe_after e) \<or>
         (\<exists>e. wh_event rq = Some ''pull_request'' \<and> parse_pull_request_event (wh_json rq) = Inr e \<and>
            pr_head_repo e = pr_repository e \<and> \<not> pr_draft e \<and>
            (pr_author_association e \<in> {''OWNER'', ''MEMBER'', ''COLLABORATOR''} \<or> bot_authored e) \<and>
            r_repository row = pr_repository e \<and> r_status_sha row = Some (status_sha e) \<and>
            resolve_run_sha (if sv_github sv then Some (ev_merge_sha ev) else None) e = Inr (r_sha row))))"
proof -
  from assms have signed: "verify_signature hmac_hex (or_blank secret) (wh_body rq) (wh_signature rq)" "or_blank secret \<noteq> []"
    by (auto simp: webhook_def split: if_splits)
  consider (pull) "wh_event rq = Some ''pull_request''" "pull_request_webhook sv ev (wh_json rq) (wh_delivery rq) b = (b', out, ws)"
    | (push) "wh_event rq = Some ''push''" "push_webhook sv ev rq b = (b', out, ws)"
    using assms by (auto simp: webhook_def split: if_splits)
  then show ?thesis
  proof cases
    case pull
    from pull(2) assms(2) show ?thesis
    proof (cases rule: pull_request_webhook_queues)
      case (1 e sha)
      have "pr_head_repo e = pr_repository e \<and> \<not> pr_draft e \<and>
          (pr_author_association e \<in> {''OWNER'', ''MEMBER'', ''COLLABORATOR''} \<or> bot_authored e)"
        using 1(3) by (auto simp: direct_eligible_def same_repo_def trusted_def split: if_splits)
      then show ?thesis
        using signed pull(1) 1
        by (intro conjI exI [of _ "queued_row sv ev (pr_repository e) sha (merge_ref_name e) (Some (status_sha e)) (wh_delivery rq)"])
           (auto simp: queued_row_def new_row_def)
    qed
  next
    case push
    from push(2) assms(2) show ?thesis
    proof (cases rule: push_webhook_queues)
      case (1 e)
      then show ?thesis
        using signed push(1)
        by (intro conjI exI [of _ "queued_row sv ev (pe_repository e) (pe_after e) (pe_default_branch e) None (wh_delivery rq)"])
           (auto simp: queued_row_def new_row_def)
    qed
  qed
qed

section \<open>One lane per push\<close>

text \<open>GitHub refused the request in a way that says no run started.\<close>

definition refused :: "environment \<Rightarrow> github_write \<Rightarrow> bool" where
  "refused ev w =
     (case w of
        Dispatch_Request r workflow rf i \<Rightarrow>
          (case ev_dispatch ev r workflow rf i of Dispatch_Error code _ \<Rightarrow> refusal_state code = Rejected | _ \<Rightarrow> False)
      | _ \<Rightarrow> True)"

definition one_lane :: "environment \<Rightarrow> broker \<Rightarrow> handled \<Rightarrow> bool" where
  "one_lane ev b h \<longleftrightarrow> bk_jobs (fst h) = bk_jobs b \<or> list_all (refused ev) (snd (snd h))"

lemma one_lane_simps [simp]:
  "bk_jobs b' = bk_jobs b \<Longrightarrow> one_lane ev b (b', out, ws)"
  "one_lane ev b (catch_store_error h) = one_lane ev b h"
  "list_all (refused ev) ws \<Longrightarrow> one_lane ev b (with_writes ws h) = one_lane ev b h"
  "refused ev (Status_Write r s st t ok)" "refused ev (Check_Run i)" "refused ev (status_write ev r s st t)"
  by (auto simp: one_lane_def with_writes_def catch_store_error_def refused_def status_write_def
      split: prod.splits outcome.splits handler_error.splits py_exn.splits)

lemma one_lane_later: "one_lane ev b1 h \<Longrightarrow> bk_jobs b1 = bk_jobs b \<Longrightarrow> one_lane ev b h"
  by (simp add: one_lane_def)

lemma enqueue_direct_one_lane: "one_lane ev b (enqueue_direct sv ev repository sha rf st header b)"
  by (simp add: enqueue_direct_def one_lane_def split: sum.split prod.split)

lemma finish_quietly_cases:
  "finish_quietly row st error now s = (s', a) \<Longrightarrow> a = Answer st error \<or> a = Answer Uncertain ''dispatch result could not be recorded''"
  by (auto simp: finish_quietly_def split: sum.splits)

lemma dispatch_delivery_refused:
  assumes "dispatch_delivery ev row hold b = (b', a, ws)" and "should_fallback a"
  shows "list_all (refused ev) ws"
proof -
  obtain st error where a: "a = Answer st error" "st = Rejected"
    using assms(2) by (cases a rule: should_fallback.cases) auto
  obtain s l sent where r: "dispatch_record row (ev_dispatch ev (dl_repository row) (dl_workflow row) (dl_ref row) (map_of (dl_inputs row)))
      (ev_wall ev 7) (ev_wall ev 8) hold (bk_deliveries b, Some (bk_ledger b)) = ((s, l), a, sent)"
      and ws: "ws = (if sent = [] then [] else [delivery_request row])"
    using assms(1) by (auto simp: dispatch_delivery_def split: prod.splits)
  show ?thesis
  proof (cases "snd (claim_delivery (dl_repository row) (dl_delivery row) (ev_wall ev 7) (bk_deliveries b))")
    case False
    then show ?thesis using r ws by (auto simp: dispatch_record_def Let_def split: prod.splits bool.splits)
  next
    case True
    then have "(case ev_dispatch ev (dl_repository row) (dl_workflow row) (dl_ref row) (map_of (dl_inputs row)) of
        Dispatch_Error code _ \<Rightarrow> refusal_state code = Rejected | _ \<Rightarrow> False)"
      using r a
      by (auto simp: dispatch_record_def conclude_dispatch_def Let_def split: prod.splits bool.splits github_outcome.splits
          dispatch_answer.splits dest!: finish_quietly_cases)
    then show ?thesis by (simp add: ws delivery_request_def refused_def)
  qed
qed

lemma one_lane_unqueued [simp]: "bk_jobs (fst h) = bk_jobs b \<Longrightarrow> one_lane ev b (with_writes ws h)"
  by (simp add: one_lane_def)

text \<open>
  What the push path asks of the fallback it is given: that the fallback does not itself both queue
  a run and send one. Under that contract no path through the handler does.
\<close>

locale lane_fallback =
  fixes ev :: environment and fallback :: "(broker \<Rightarrow> handled) option"
  assumes fallback_one_lane: "fallback = Some f \<Longrightarrow> one_lane ev b (f b)"
begin

lemma fallback_later: "fallback = Some f \<Longrightarrow> bk_jobs b1 = bk_jobs b \<Longrightarrow> one_lane ev b (f b1)"
  using fallback_one_lane one_lane_later by blast

lemma adapter_absent_one_lane: "one_lane ev b (adapter_absent sv ev e workflow reason fallback b)"
  by (simp add: adapter_absent_def Let_def fallback_one_lane split: option.split)

lemma redispatch_one_lane: "one_lane ev b (redispatch sv ev e existing delivery fallback b)"
  by (simp add: redispatch_def Let_def split: option.split prod.split)
     (auto simp: dispatch_delivery_refused intro: fallback_later dest: dispatch_delivery_jobs)

lemma redeliver_one_lane: "one_lane ev b (redeliver sv ev e existing delivery fallback b)"
  by (simp add: redeliver_def Let_def redispatch_one_lane one_lane_later [OF adapter_absent_one_lane]
      one_lane_later [OF redispatch_one_lane] split: sum.split bool.split prod.split)

lemma conclude_push_one_lane:
  "one_lane ev b (conclude_push sv e branch delivery header inputs row d cp runner fallback a b)"
  "\<not> should_fallback a \<Longrightarrow> bk_jobs (fst (conclude_push sv e branch delivery header inputs row d cp runner fallback a b)) = bk_jobs b"
  by (simp_all add: conclude_push_def Let_def fallback_later split: dispatch_answer.split delivery_state.split option.split)

lemma dispatch_decided_one_lane:
  "one_lane ev b (dispatch_decided sv ev e branch fingerprint delivery header rq d cp runner fallback b)"
proof -
  have "one_lane ev b (with_writes ws (conclude_push sv e branch delivery header inputs row d cp runner fallback a b2))"
    if dd: "dispatch_delivery ev row hold (b\<lparr>bk_deliveries := s\<rparr>) = (b2, a, ws)" for ws inputs row a b2 hold s
  proof (cases "should_fallback a")
    case True
    then show ?thesis
      using dispatch_delivery_refused [OF dd] one_lane_later [OF conclude_push_one_lane(1)] dispatch_delivery_jobs [OF dd] by simp
  next
    case False
    then show ?thesis using conclude_push_one_lane(2) dispatch_delivery_jobs [OF dd] by simp
  qed
  then show ?thesis by (simp add: dispatch_decided_def Let_def split: prod.split option.split)
qed

lemma first_delivery_one_lane:
  "one_lane ev b (first_delivery sv ev e branch fingerprint delivery header fallback b)"
  by (simp add: first_delivery_def Let_def adapter_absent_one_lane split: prod.split sum.split bool.split)
     (auto intro!: one_lane_later [OF dispatch_decided_one_lane] dest: dispatch_decision_jobs)

lemma dispatch_push_one_lane: "one_lane ev b (dispatch_push sv ev e branch fingerprint header fallback b)"
  by (simp add: dispatch_push_def Let_def first_delivery_one_lane redeliver_one_lane split: sum.split option.split)

end

interpretation no_device: lane_fallback ev None for ev
  by unfold_locales simp

interpretation device: lane_fallback ev "Some (\<lambda>b. enqueue_direct sv ev repository sha rf st header b)"
  for ev sv repository sha rf st header
  by unfold_locales (use enqueue_direct_one_lane in auto)

lemma push_webhook_one_lane: "one_lane ev b (push_webhook sv ev rq b)"
  by (simp add: push_webhook_def Let_def enqueue_direct_one_lane no_device.dispatch_push_one_lane device.dispatch_push_one_lane
      split: sum.split)

lemma pull_request_webhook_one_lane: "one_lane ev b (pull_request_webhook sv ev body header b)"
proof -
  have "bk_jobs (fst (dispatch_pull_request sv ev e header b)) = bk_jobs b" for e
    by (simp add: dispatch_pull_request_def send_pull_request_def Let_def split: sum.split bool.split prod.split github_outcome.split)
  then show ?thesis
    by (simp add: pull_request_webhook_def enqueue_direct_one_lane one_lane_def [of ev b "dispatch_pull_request sv ev _ header b"]
        split: sum.split)
qed

lemma replay_one_one_lane:
  assumes "replay_one sv ev row b = (b', ws)"
  shows "bk_jobs b' = bk_jobs b \<or> list_all (refused ev) ws"
  using assms dispatch_delivery_refused [of ev row]
  by (auto simp: replay_one_def Let_def dest!: dispatch_delivery_jobs
      split: sum.split_asm bool.split_asm prod.split_asm option.split_asm if_split_asm)

text \<open>One handling of a webhook, or one replay, queues a run beside a request only if GitHub refused the request.\<close>

lemma one_handling_one_lane:
  assumes "webhook sv ev hmac_hex secret rq b = (b', out, ws) \<or> replay_one sv ev row b = (b', ws)" and "bk_jobs b' \<noteq> bk_jobs b"
  shows "list_all (refused ev) ws"
proof -
  have "one_lane ev b (webhook sv ev hmac_hex secret rq b)"
    by (simp add: webhook_def pull_request_webhook_one_lane push_webhook_one_lane)
  then show ?thesis using assms replay_one_one_lane [of sv ev row b b' ws] by (auto simp: one_lane_def)
qed

section \<open>What the month is charged for\<close>

text \<open>A hold that giving back undoes, once or twice, until another is taken.\<close>

definition undoable :: "nat option \<Rightarrow> metered_ledger \<Rightarrow> metered_ledger \<Rightarrow> bool" where
  "undoable hold l l1 \<longleftrightarrow> ledger_release hold l1 = l \<and> ledger_release hold l = l"

lemma release_none [simp]: "ledger_release None l = l"
  by (simp add: ledger_release_def)

lemma undoable_none [simp]: "undoable None l l1 \<longleftrightarrow> l1 = l"
  by (auto simp: undoable_def)

lemma undoable_reserved: "ledger_reserve repository lane workflow rf now l = (l1, n) \<Longrightarrow> undoable (Some n) l l1"
  using release_reserved next_id_fresh
  by (fastforce simp: undoable_def ledger_reserve_def ledger_release_def filter_id_conv)

lemma reserve_metered_undoable:
  assumes "reserve_metered p est t1 t2 l = (l1, hold, refusal)"
  shows "undoable hold l l1" and "refusal \<noteq> None \<Longrightarrow> l1 = l"
  using assms undoable_reserved
  by (cases rule: reserve_metered_cases [of p est t1 t2 l]; fastforce)+

lemma reserve_for_undoable:
  assumes "reserve_for p lane t1 t2 l = (l1, hold, refusal)"
  shows "undoable hold l l1" and "refusal \<noteq> None \<Longrightarrow> l1 = l"
  using assms reserve_metered_undoable [of p 0 t1 t2 l l1 hold refusal] by (auto simp: reserve_for_def split: if_splits)

lemma choose_route_undoable:
  assumes "attach_budget True p = Inr q" and "choose_route q source rq runners t1 t2 l = (l1, res)"
  shows "case res of Inl _ \<Rightarrow> l1 = l | Inr d \<Rightarrow> undoable (rd_reservation d) l l1"
proof (cases rule: reserve_metered_cases [of q "rq_estimated (with_reading source rq)" t1 t2 l])
  case unlimited
  then show ?thesis using assms choose_lane_reservation
    by (auto simp: choose_route_def choose_held_def release_hold_def split: sum.splits)
next
  case (refused reason)
  then show ?thesis using assms choose_lane_reservation by (auto simp: choose_route_def choose_held_def split: sum.splits)
next
  case (held l' n)
  then have "p_minute_budget q \<noteq> None" by (auto simp: reserve_metered_def split: option.splits)
  then have "p_releases q" using assms(1) by (auto simp: attach_budget_def rbind_Inr_conv split: option.splits)
  then show ?thesis
    using assms(2) held(1) release_reserved [OF held(2)] undoable_reserved [OF held(2)] choose_lane_reservation
    by (auto simp: choose_route_def choose_held_def release_hold_def split: sum.splits if_splits)
qed

lemma choose_webhook_lane_undoable:
  assumes "attach_budget True p = Inr q"
    and "choose_webhook_lane q source source' rq runners busy t1 t2 t3 t4 l = (l1, res)"
  shows "case res of Inl _ \<Rightarrow> l1 = l | Inr d \<Rightarrow> undoable (rd_reservation d) l l1"
proof -
  note one = choose_route_undoable [OF assms(1)]
  show ?thesis
    using assms(2) unfolding choose_webhook_lane_def Let_def
    by (auto split: prod.splits sum.splits if_splits dest!: one)
qed

lemma explicit_lane_hold: "rd_lane d \<noteq> HOSTED_LANE \<Longrightarrow> choose_held p rq runners t1 t2 l = (l1, Inr d) \<Longrightarrow> rd_reservation d = None"
  using choose_lane_reservation
  by (cases rule: reserve_metered_cases [of p "rq_estimated rq" t1 t2 l])
     (auto simp: choose_held_def split: sum.splits if_splits)

lemma choose_webhook_lane_hold:
  assumes "choose_webhook_lane q source source' rq runners busy t1 t2 t3 t4 l = (l1, Inr d)" and "rd_lane d \<noteq> ''hosted''"
  shows "rd_reservation d = None"
  using assms unfolding choose_webhook_lane_def choose_route_def Let_def
  by (auto simp: HOSTED_LANE_def split: prod.splits sum.splits if_splits dest!: explicit_lane_hold [rotated])

lemma dispatch_decision_undoable:
  assumes "attach_budget True p = Inr (sv_policy sv)" and "dispatch_decision sv ev rq repository busy b = (b1, x)"
  shows "case x of Inl _ \<Rightarrow> bk_ledger b1 = bk_ledger b | Inr (d, _, _) \<Rightarrow> undoable (rd_reservation d) (bk_ledger b) (bk_ledger b1)"
proof -
  obtain l1 r1 where c1: "choose_route (sv_policy sv) (ev_quota ev 0) rq [] (ev_wall ev 0) (ev_wall ev 1) (bk_ledger b) = (l1, r1)"
    by fastforce
  note u1 = choose_route_undoable [OF assms(1) c1]
  show ?thesis
  proof (cases r1)
    case (Inr d)
    then show ?thesis using assms(2) c1 u1 by (auto simp: dispatch_decision_def)
  next
    case (Inl e)
    then have l1: "l1 = bk_ledger b" using u1 by simp
    show ?thesis
    proof (cases "e = Minutes_Not_A_Number \<or> \<not> sv_github sv \<or> (\<exists>m. ev_list_runners ev repository = Inl m)")
      case True
      then show ?thesis using assms(2) c1 Inl l1 by (auto simp: dispatch_decision_def Let_def split: if_splits)
    next
      case False
      then obtain listed where listed: "ev_list_runners ev repository = Inr listed"
        by (cases "ev_list_runners ev repository") auto
      obtain l3 r3 where c3: "choose_webhook_lane (sv_policy sv) (ev_quota ev 1) (ev_quota ev 2) rq
          (map (\<lambda>r. r\<lparr>rn_healthy := (rn_status r = ''online'')\<rparr>) listed) busy
          (ev_wall ev 2) (ev_wall ev 3) (ev_wall ev 4) (ev_wall ev 5) (bk_ledger b) = (l3, r3)"
        by fastforce
      note u3 = choose_webhook_lane_undoable [OF assms(1) c3]
      show ?thesis
      proof (cases r3)
        case (Inl e3)
        then show ?thesis using assms(2) c1 c3 u3 \<open>r1 = Inl e\<close> l1 False listed
          by (auto simp: dispatch_decision_def Let_def)
      next
        case (Inr d)
        have "rd_lane d \<noteq> ''hosted'' \<Longrightarrow> l3 = bk_ledger b"
          using choose_webhook_lane_hold c3 Inr u3 by fastforce
        moreover have "bk_ledger b1 = l3 \<and> (x = Inl Runners_Busy \<and> rd_lane d \<noteq> ''hosted'' \<or> (\<exists>cp r. x = Inr (d, cp, r)))"
          using assms(2) c1 c3 \<open>r1 = Inl e\<close> l1 False listed Inr
          by (simp add: dispatch_decision_def Let_def split: if_split_asm) (elim conjE, hypsubst, simp)+
        ultimately show ?thesis using u3 Inr by auto
      qed
    qed
  qed
qed

lemma dispatch_delivery_undoable:
  assumes "dispatch_delivery ev row hold b1 = (b2, a, ws)" and "undoable hold l (bk_ledger b1)" and "list_all (refused ev) ws"
  shows "bk_ledger b2 = l"
proof (cases "snd (claim_delivery (dl_repository row) (dl_delivery row) (ev_wall ev 7) (bk_deliveries b1))")
  case False
  then show ?thesis using assms(1,2)
    by (auto simp: dispatch_delivery_def dispatch_record_def release_quietly_def undoable_def split: prod.splits bool.splits)
next
  case True
  then have ws: "ws = [delivery_request row]"
    using assms(1) by (auto simp: dispatch_delivery_def dispatch_record_def Let_def split: prod.splits bool.splits)
  then obtain code m where out: "ev_dispatch ev (dl_repository row) (dl_workflow row) (dl_ref row) (map_of (dl_inputs row)) = Dispatch_Error code m"
      "refusal_state code = Rejected"
    using assms(3) by (auto simp: refused_def delivery_request_def split: github_outcome.splits)
  then show ?thesis using assms(1,2) True
    by (auto simp: dispatch_delivery_def dispatch_record_def conclude_dispatch_def release_quietly_def undoable_def Let_def
        split: prod.splits bool.splits)
qed

lemma register_found [simp]: "register repository delivery fingerprint workflow rf inputs sha now s \<noteq> (s', None)"
proof -
  have "find (\<lambda>r. dl_key r = dl_key x) (s @ [x]) \<noteq> None" for x by (simp add: find_None_iff) blast
  then show ?thesis
    by (force simp: register_def lookup_by_def find_None_iff Let_def dl_key_def split: if_splits)
qed

definition uncharged :: "environment \<Rightarrow> metered_ledger \<Rightarrow> handled \<Rightarrow> bool" where
  "uncharged ev l h \<longleftrightarrow> (list_all (refused ev) (snd (snd h)) \<longrightarrow> bk_ledger (fst h) = l)"

lemma uncharged_simps [simp]:
  "bk_ledger b' = l \<Longrightarrow> uncharged ev l (b', out, ws)"
  "uncharged ev l (catch_store_error h) = uncharged ev l h"
  "\<not> list_all (refused ev) ws \<Longrightarrow> uncharged ev l (with_writes ws h)"
  "uncharged ev l h \<Longrightarrow> uncharged ev l (with_writes ws h)"
  by (auto simp: uncharged_def with_writes_def catch_store_error_def
      split: prod.splits outcome.splits handler_error.splits py_exn.splits)

lemma release_ledger [simp]:
  "undoable hold l (bk_ledger b) \<Longrightarrow> bk_ledger (release_reservation hold b) = l"
  "undoable (rd_reservation d) l (bk_ledger b) \<Longrightarrow> bk_ledger (give_back runner d b) = l"
  "undoable hold l l1 \<Longrightarrow> undoable hold l l"
  by (auto simp: release_reservation_def give_back_def undoable_def)

text \<open>The contract of a fallback that also leaves the ledger alone, under a policy whose budget is attached.\<close>

locale free_fallback =
  lane_fallback ev fallback for ev :: environment and fallback :: "(broker \<Rightarrow> handled) option" +
  fixes sv :: server_config and p :: policy
  assumes fallback_ledger: "fallback = Some f \<Longrightarrow> bk_ledger (fst (f b)) = bk_ledger b"
begin

lemma fallback_uncharged: "fallback = Some f \<Longrightarrow> bk_ledger b = l \<Longrightarrow> uncharged ev l (f b)"
  using fallback_ledger by (simp add: uncharged_def)

lemma adapter_absent_uncharged: "bk_ledger b = l \<Longrightarrow> uncharged ev l (adapter_absent sv ev e workflow reason fallback b)"
  by (simp add: adapter_absent_def Let_def fallback_uncharged split: option.split)

lemma redispatch_uncharged:
  assumes "bk_ledger b = l"
  shows "uncharged ev l (redispatch sv ev e existing delivery fallback b)"
proof -
  obtain l1 hold refusal where r: "reserve_for (sv_policy sv) (map_of (dl_inputs existing) ''cindral_lane'')
      (ev_wall ev 0) (ev_wall ev 1) (bk_ledger b) = (l1, hold, refusal)" by (metis prod_cases3)
  note u = reserve_for_undoable(1) [OF r, unfolded assms] and free = reserve_for_undoable(2) [OF r, unfolded assms]
  obtain b2 a ws where dd: "dispatch_delivery ev existing hold (b\<lparr>bk_ledger := l1\<rparr>) = (b2, a, ws)" by (metis prod_cases3)
  have sent: "list_all (refused ev) ws \<Longrightarrow> bk_ledger b2 = l"
    using dispatch_delivery_undoable [OF dd] u by simp
  have "uncharged ev l (b2, out, ws)" for out using sent by (simp add: uncharged_def)
  moreover have "uncharged ev l (with_writes ws (f b2))" if "fallback = Some f" for f
    using sent fallback_uncharged [OF that, of b2 l] by (cases "list_all (refused ev) ws") simp_all
  ultimately show ?thesis
    using r u free dd by (simp add: redispatch_def Let_def split: option.split)
qed

lemma redeliver_uncharged: "bk_ledger b = l \<Longrightarrow> uncharged ev l (redeliver sv ev e existing delivery fallback b)"
  by (simp add: redeliver_def Let_def redispatch_uncharged adapter_absent_uncharged split: sum.split bool.split prod.split)

lemma conclude_push_uncharged:
  "bk_ledger b = l \<Longrightarrow> undoable (rd_reservation d) l l \<Longrightarrow>
   uncharged ev l (conclude_push sv e branch delivery header inputs row d cp runner fallback a b)"
  by (simp add: conclude_push_def Let_def fallback_uncharged split: dispatch_answer.split delivery_state.split option.split)

lemma dispatch_decided_uncharged:
  assumes "undoable (rd_reservation d) l (bk_ledger b)"
  shows "uncharged ev l (dispatch_decided sv ev e branch fingerprint delivery header rq d cp runner fallback b)"
proof -
  have "uncharged ev l (with_writes ws (conclude_push sv e branch delivery header inputs row d cp runner fallback a b2))"
    if dd: "dispatch_delivery ev row (rd_reservation d) (b\<lparr>bk_deliveries := s\<rparr>) = (b2, a, ws)" for ws inputs row a b2 s
  proof (cases "list_all (refused ev) ws")
    case True
    then show ?thesis
      using dispatch_delivery_undoable [OF dd _ True, of l] assms conclude_push_uncharged release_ledger(3) by simp
  qed simp
  then show ?thesis using assms by (simp add: dispatch_decided_def Let_def split: prod.split option.split)
qed

lemma first_delivery_uncharged:
  assumes "attach_budget True p = Inr (sv_policy sv)" and "bk_ledger b = l"
  shows "uncharged ev l (first_delivery sv ev e branch fingerprint delivery header fallback b)"
proof -
  obtain b1 x where dd: "dispatch_decision sv ev (push_request sv e) (pe_repository e) True b = (b1, x)" by fastforce
  have "uncharged ev l (case x of Inl err \<Rightarrow> (b1, decision_refusal ev err, [])
      | Inr (d, cp, runner) \<Rightarrow>
          dispatch_decided sv ev e branch fingerprint delivery header (push_request sv e) d cp runner fallback b1)"
    using dispatch_decision_undoable [OF assms(1) dd] assms(2)
    by (cases x) (auto simp: dispatch_decided_uncharged)
  then show ?thesis
    using dd assms(2) by (simp add: first_delivery_def Let_def adapter_absent_uncharged split: sum.splits bool.split)
qed

lemma dispatch_push_uncharged:
  "attach_budget True p = Inr (sv_policy sv) \<Longrightarrow> bk_ledger b = l \<Longrightarrow>
   uncharged ev l (dispatch_push sv ev e branch fingerprint header fallback b)"
  by (simp add: dispatch_push_def Let_def first_delivery_uncharged redeliver_uncharged split: sum.split option.split)

end

interpretation no_device: free_fallback ev None sv p for ev sv p
  by unfold_locales simp

lemma enqueue_direct_ledger [simp]: "bk_ledger (fst (enqueue_direct sv ev repository sha rf st header b)) = bk_ledger b"
  by (simp add: enqueue_direct_def split: sum.split prod.split)

interpretation device: free_fallback ev "Some (\<lambda>b. enqueue_direct sv ev repository sha rf st header b)" sv p
  for ev sv repository sha rf st header p
  by unfold_locales auto

lemma push_webhook_uncharged:
  "attach_budget True p = Inr (sv_policy sv) \<Longrightarrow> uncharged ev (bk_ledger b) (push_webhook sv ev rq b)"
  by (simp add: push_webhook_def Let_def no_device.dispatch_push_uncharged [of p] device.dispatch_push_uncharged [of p]
      uncharged_def [of _ _ "enqueue_direct _ _ _ _ _ _ _ _"] split: sum.split)

lemma send_pull_request_uncharged:
  assumes "undoable (rd_reservation d) l (bk_ledger b)"
  shows "uncharged ev l (send_pull_request sv ev e header d b)"
  using assms by (simp add: send_pull_request_def Let_def uncharged_def refused_def split: github_outcome.split)

lemma dispatch_pull_request_uncharged:
  assumes "attach_budget True p = Inr (sv_policy sv)"
  shows "uncharged ev (bk_ledger b) (dispatch_pull_request sv ev e header b)"
proof -
  obtain l x where c: "choose_route (sv_policy sv) (ev_quota ev 0) (pull_request_request e) (sv_runners sv)
      (ev_wall ev 0) (ev_wall ev 1) (bk_ledger b) = (l, x)" by fastforce
  from choose_route_undoable [OF assms c]
  have "uncharged ev (bk_ledger b) (case x of Inl r \<Rightarrow> (b\<lparr>bk_ledger := l\<rparr>, decision_refusal ev (Route_Error r), [])
      | Inr d \<Rightarrow> send_pull_request sv ev e header d (b\<lparr>bk_ledger := l\<rparr>))"
    by (cases x) (auto simp: send_pull_request_uncharged)
  then show ?thesis using c by (simp add: dispatch_pull_request_def Let_def split: sum.splits bool.split)
qed

lemma pull_request_webhook_uncharged:
  "attach_budget True p = Inr (sv_policy sv) \<Longrightarrow> uncharged ev (bk_ledger b) (pull_request_webhook sv ev body header b)"
  by (simp add: pull_request_webhook_def dispatch_pull_request_uncharged uncharged_def [of _ _ "enqueue_direct _ _ _ _ _ _ _ _"]
      split: sum.split)

lemma hand_off_ledger: "hand_off sv ev row b = Inr b' \<Longrightarrow> bk_ledger b' = bk_ledger b"
  by (auto simp: hand_off_def rbind_Inr_conv split: if_splits)

lemma replay_one_uncharged:
  assumes "replay_one sv ev row b = (b', ws)" and "list_all (refused ev) ws"
  shows "bk_ledger b' = bk_ledger b"
proof -
  obtain l1 hold refusal where r: "reserve_for (sv_policy sv) (map_of (dl_inputs row) ''cindral_lane'')
      (ev_wall ev 0) (ev_wall ev 1) (bk_ledger b) = (l1, hold, refusal)" by (metis prod_cases3)
  note u = reserve_for_undoable [OF r]
  obtain b2 a w where dd: "dispatch_delivery ev row hold (b\<lparr>bk_ledger := l1\<rparr>) = (b2, a, w)" by (metis prod_cases3)
  have sent: "list_all (refused ev) w \<Longrightarrow> bk_ledger b2 = bk_ledger b"
    using dispatch_delivery_undoable [OF dd] u by simp
  have q: "bk_ledger (quiet b1 (hand_off sv ev row b1)) = bk_ledger b1" for b1
    by (simp add: quiet_def hand_off_ledger split: sum.split)
  show ?thesis
    using assms r u sent dd release_ledger(3) [OF u(1)]
    by (simp add: replay_one_def Let_def q hand_off_ledger split: sum.split_asm bool.split_asm prod.split_asm option.split_asm if_split_asm)
       (auto simp: hand_off_ledger q)
qed

lemma dispatch_to_github_uncharged:
  assumes "undoable (rd_reservation d) l (bk_ledger b)"
  shows "uncharged ev l (dispatch_to_github sv ev repository workflow rf inputs runner d cp b)"
proof -
  have "definite_refusal out" if "out = Dispatch_Error code m" "refusal_state code = Rejected" for out code m
    using that by (auto simp: definite_refusal_def refusal_state_def split: option.splits if_splits)
  then show ?thesis
    using assms by (auto simp: dispatch_to_github_def Let_def uncharged_def refused_def undoable_def split: github_outcome.split)
qed

lemma dispatch_endpoint_uncharged:
  assumes "attach_budget True p = Inr (sv_policy sv)"
  shows "uncharged ev (bk_ledger b) (dispatch_endpoint sv ev repository workflow rf inputs rq b)"
proof -
  obtain b1 x where d: "dispatch_decision sv ev rq repository False b = (b1, x)" by fastforce
  note u = dispatch_decision_undoable [OF assms d]
  show ?thesis
  proof (cases x)
    case (Inl err)
    then show ?thesis using u d by (simp add: dispatch_endpoint_def split: sum.split)
  next
    case (Inr y)
    obtain dn cp runner where "y = (dn, cp, runner)" by (metis surj_pair)
    then show ?thesis using u d Inr by (simp add: dispatch_endpoint_def dispatch_to_github_uncharged split: sum.split)
  qed
qed


section \<open>Untrusted pull requests\<close>

lemma hosted_request_lane:
  assumes "choose_route p source rq runners t1 t2 l = (l', Inr d)" and "rq_lane rq = ''hosted''"
  shows "rd_lane d = ''hosted'' \<or> (\<exists>reason. snd (snd (reserve_metered p (rq_estimated rq) t1 t2 l)) = Some reason)"
proof -
  have "with_reading source rq = rq" using assms(2) by (simp add: with_reading_def consults_quota_def split: option.split)
  with assms show ?thesis
    by (cases rule: reserve_metered_cases [of p "rq_estimated rq" t1 t2 l])
       (auto simp: choose_route_def choose_held_def choose_lane_def hosted_def HOSTED_LANE_def split: if_splits)
qed

text \<open>
  C10: where an untrusted pull request runs. A pull request from a fork, or from an author who is not
  trusted, is never queued on a device; what is dispatched for it is the repository's own workflow on
  its default branch with the merge ref as its checkout, on the hosted lane, unless the metered
  budget of the month refused the hosted lane.
\<close>

theorem untrusted_pull_request_is_hosted:
  assumes "pull_request_webhook sv ev body header b = (b', out, ws)" and "parse_pull_request_event body = Inr e"
    and "\<not> trusted e"
  shows "bk_jobs b' = bk_jobs b \<and>
     (\<forall>r workflow rf inputs. Dispatch_Request r workflow rf inputs \<in> set ws \<longrightarrow>
        r = pr_repository e \<and> workflow = sv_workflow_file sv \<and> rf = pr_default_branch e \<and>
        inputs ''cindral_ref'' = Some (merge_ref_name e) \<and>
        (inputs ''cindral_lane'' = Some ''hosted'' \<or>
         (\<exists>reason. snd (snd (reserve_metered (sv_policy sv) 10 (ev_wall ev 0) (ev_wall ev 1) (bk_ledger b))) = Some reason)))"
proof -
  have "bk_jobs b' = bk_jobs b"
    using pull_request_webhook_queues [OF assms(1)] assms(2,3) by (auto simp: direct_eligible_def)
  moreover have "r = pr_repository e \<and> workflow = sv_workflow_file sv \<and> rf = pr_default_branch e \<and>
        inputs ''cindral_ref'' = Some (merge_ref_name e) \<and>
        (inputs ''cindral_lane'' = Some ''hosted'' \<or>
         (\<exists>reason. snd (snd (reserve_metered (sv_policy sv) 10 (ev_wall ev 0) (ev_wall ev 1) (bk_ledger b))) = Some reason))"
    if d: "Dispatch_Request r workflow rf inputs \<in> set ws" for r workflow rf inputs
  proof -
    from d assms have "dispatch_pull_request sv ev e header b = (b', out, ws)"
      by (auto simp: pull_request_webhook_def direct_eligible_def split: if_splits)
    with d obtain l dec where c: "choose_route (sv_policy sv) (ev_quota ev 0) (pull_request_request e) (sv_runners sv)
          (ev_wall ev 0) (ev_wall ev 1) (bk_ledger b) = (l, Inr dec)"
        and "send_pull_request sv ev e header dec (b\<lparr>bk_ledger := l\<rparr>) = (b', out, ws)"
      by (auto simp: dispatch_pull_request_def post_pull_request_status_def status_write_def Let_def
          split: if_splits sum.splits bool.splits prod.splits)
    with d have "r = pr_repository e \<and> workflow = sv_workflow_file sv \<and> rf = pr_default_branch e \<and>
        inputs = map_of (pull_request_inputs ev e dec)"
      by (auto simp: send_pull_request_def post_pull_request_status_def status_write_def Let_def
          split: github_outcome.splits if_splits)
    moreover have "rq_lane (pull_request_request e) = ''hosted''" "rq_estimated (pull_request_request e) = 10"
      using assms(3) by (simp_all add: pull_request_request_def)
    ultimately show ?thesis
      using hosted_request_lane [OF c] by (simp add: pull_request_inputs_def)
  qed
  ultimately show ?thesis by blast
qed

section \<open>Where the handlers fall short\<close>

text \<open>
  A preview of the hosted lane takes a hold and nothing gives it back: the decision it answers with
  carries the hold, and the ledger keeps it.
\<close>

theorem preview_takes_a_hold:
  assumes "attach_budget True p = Inr (sv_policy sv)" and "p_minute_budget p = Some m"
    and "''hosted'' \<notin> set (p_local_priority (sv_policy sv))"
    and "route_endpoint sv ev rq b = (b', Reply 200 (Decision_Reply d cp), ws)" and "rd_lane d = ''hosted''"
  shows "\<exists>n. rd_reservation d = Some n \<and> ws = [] \<and>
     ledger_reserve REPOSITORY_UNKNOWN HOSTED_LANE [] [] (ev_wall ev 1) (bk_ledger b) = (bk_ledger b', n)"
proof -
  note q = attach_budget_fields [OF assms(1,2)]
  obtain budget where "p_metered (sv_policy sv) = Some budget" using q(2) by blast
  note held = hosted_holds [OF _ assms(5,3) q(1) this q(4)]
  have c: "choose_held (sv_policy sv) (with_reading (ev_quota ev 0) rq) (sv_runners sv) (ev_wall ev 0) (ev_wall ev 1) (bk_ledger b)
      = (bk_ledger b', Inr d)" and ws: "ws = []"
    using assms(4) by (auto simp: route_endpoint_def choose_route_def decision_refusal_def split: prod.splits sum.splits if_splits)
  from choose_held_ledger [OF c q(5)] held [OF c] obtain n where n: "rd_reservation d = Some n"
    "reserve_metered (sv_policy sv) (rq_estimated (with_reading (ev_quota ev 0) rq)) (ev_wall ev 0) (ev_wall ev 1) (bk_ledger b) =
       (bk_ledger b', Some n, None)" by auto
  then show ?thesis
    using ws by (cases rule: reserve_metered_cases [of "sv_policy sv" "rq_estimated (with_reading (ev_quota ev 0) rq)"
        "ev_wall ev 0" "ev_wall ev 1" "bk_ledger b"]) auto
qed

text \<open>
  A hold's id is used again once the hold is given back. Giving the same hold back a second time, as
  the push path does for a delivery another attempt settled, then erases a hold taken in between.
\<close>

theorem second_release_erases_another_hold:
  assumes "ledger_reserve repository lane workflow rf now l = (l1, n)"
    and "ledger_reserve repository' lane' workflow' rf' now' (ledger_release (Some n) l1) = (l2, n')"
  shows "n' = n \<and> l2 \<noteq> l \<and> ledger_release (Some n) l2 = l"
  using assms release_reserved [OF assms(1)] release_reserved [OF assms(2)] by (auto simp: ledger_reserve_def)

section \<open>A concrete broker\<close>

definition example_target :: dispatch_target where
  "example_target = \<lparr>t_mode = ''both'', t_repository = ''o/r'', t_workflows = [''ci.yml''], t_refs = [''refs/heads/main''],
     t_push_lane = ''device''\<rparr>"

definition example_server :: "policy \<Rightarrow> server_config" where
  "example_server p = \<lparr>sv_policy = p, sv_targets = [example_target], sv_runners = [example_runner], sv_github = True,
     sv_jobs = True, sv_agent_token = True, sv_workflow_file = ''ci.yml'', sv_job_timeout = 3600, sv_reservation_seconds = 10\<rparr>"

definition example_environment :: "github_outcome \<Rightarrow> environment" where
  "example_environment out =
     \<lparr>ev_workflow_exists = \<lambda>_ _. Inr True, ev_list_runners = \<lambda>_. Inr [], ev_dispatch = \<lambda>_ _ _ _. out,
      ev_post_status = \<lambda>_ _. True, ev_merge_sha = \<lambda>_ _. Inr None, ev_fails = \<lambda>_. False, ev_wall = \<lambda>_. 0,
      ev_monotonic = 0, ev_monotonic_ns = 0, ev_quota = \<lambda>_. None, ev_job_id = ''j1'', ev_format = \<lambda>_. []\<rparr>"

definition example_delivery_row :: delivery_row where
  "example_delivery_row = \<lparr>dl_repository = ''o/r'', dl_delivery = ''d1'', dl_fingerprint = ''f'', dl_workflow = ''ci.yml'',
     dl_ref = ''main'', dl_inputs = [(''cindral_lane'', ''fallback'')], dl_state = Ready, dl_created_at = 0,
     dl_updated_at = 0, dl_error = None, dl_sha = ''c0ffee''\<rparr>"

definition example_broker :: "delivery_store \<Rightarrow> metered_ledger \<Rightarrow> broker" where
  "example_broker s l = \<lparr>bk_ledger = l, bk_deliveries = s, bk_jobs = schema_db, bk_reserved = Map.empty\<rparr>"

definition example_repository :: json where
  "example_repository = JObj [(''full_name'', JStr ''o/r''), (''default_branch'', JStr ''main''), (''private'', JBool True)]"

definition example_push :: webhook_request where
  "example_push = \<lparr>wh_body = [], wh_json = Some (JObj [(''ref'', JStr ''refs/heads/main''), (''after'', JStr ''c0ffee''),
     (''repository'', example_repository)]), wh_fingerprint = ''f'', wh_signature = Some ''sha256=ab'',
     wh_event = Some ''push'', wh_delivery = Some ''d1''\<rparr>"

definition example_fork :: json where
  "example_fork = JObj [(''repository'', example_repository), (''number'', JInt 7), (''action'', JStr ''opened''),
     (''pull_request'', JObj [(''author_association'', JStr ''COLLABORATOR''),
        (''head'', JObj [(''sha'', JStr ''f00d''), (''repo'', JObj [(''full_name'', JStr ''fork/r'')])])])]"

lemmas example_defs = example_target_def example_server_def example_environment_def example_delivery_row_def
  example_broker_def example_repository_def example_push_def example_fork_def

lemma example_slug: "is_repository_slug ''o/r''"
  by (simp add: is_repository_slug_def slug_char_def)

lemma lower_example [simp]: "lower ''o/r'' = ''o/r''"
  by (simp add: lower_def lower_char_def)

lemma example_permits [simp]: "permits_device [example_target] ''o/r''" "push_lane [example_target] ''o/r'' = Some ''device''"
  by (simp_all add: permits_device_def push_lane_def target_for_def executes_on_device_def dispatches_to_def example_target_def Let_def)

lemma example_queued:
  "webhook (example_server example_policy) (example_environment Sent) (\<lambda>_ _. ''ab'') (Some ''s'') example_push (example_broker [] []) =
     (example_broker [] []\<lparr>bk_jobs := on_jobs (\<lambda>js. js @ [queued_row (example_server example_policy) (example_environment Sent)
        ''o/r'' ''c0ffee'' ''main'' None (Some ''d1'')]) schema_db\<rparr>,
      Reply 202 (Queued_Reply ''j1'' ''o/r'' ''c0ffee'' True),
      [Check_Run ''j1'', Status_Write ''o/r'' ''c0ffee'' ''pending'' ''queued on the device pool'' True])"
  using example_slug
  by (simp add: webhook_def push_webhook_def parse_push_event_def payload_repository_def obj_field_def str_field_def true_field_def
      example_defs(2-8) MAX_BODY_def verify_signature_def sign_def strip_def is_space_def push_branch_def Let_def or_blank_def
      enqueue_direct_def enqueue_def schema_db_def queued_row_def row_job_def new_row_def head_sha_for_def status_write_def)

theorem device_queue_holds_trusted_code_witness:
  "\<exists>row. on_jobs (\<lambda>js. js @ [queued_row (example_server example_policy) (example_environment Sent) ''o/r'' ''c0ffee'' ''main'' None (Some ''d1'')]) schema_db
     = on_jobs (\<lambda>js. js @ [row]) schema_db \<and> permits_device [example_target] (r_repository row)"
proof -
  have "on_jobs (\<lambda>js. js @ [x]) schema_db \<noteq> schema_db" for x by (simp add: on_jobs_def schema_db_def)
  then show ?thesis
    using device_queue_holds_trusted_code [OF example_queued] by (simp add: example_defs(2,5)) blast
qed

lemma example_check: "check_dispatch [example_target] ''o/r'' ''ci.yml'' ''main'' = Inr ()"
  by code_simp

lemma example_replay:
  "\<exists>b'. replay_one (example_server example_routing) (example_environment (Dispatch_Error (Some 422) [])) example_delivery_row
       (example_broker [example_delivery_row] []) = (b', [Dispatch_Request ''o/r'' ''ci.yml'' ''main'' (map_of [(''cindral_lane'', ''fallback'')])]) \<and>
     bk_jobs b' \<noteq> schema_db"
  using example_check
  by (simp add: replay_one_def example_defs(2-5) reserve_for_def HOSTED_LANE_def dispatch_delivery_def dispatch_record_def
      claim_delivery_def update_where_def rowcount_def in_state_def dl_key_def attempt_row_def conclude_dispatch_def refusal_state_def
      finish_quietly_def finish_def result_row_def delivery_request_def hand_off_def enqueue_def schema_db_def on_jobs_def Let_def)


definition example_fork_event :: pull_request_event where
  "example_fork_event = \<lparr>pr_repository = ''o/r'', pr_private = True, pr_default_branch = ''main'', pr_number = 7,
     pr_action = ''opened'', pr_author_association = ''COLLABORATOR'', pr_head_repo = ''fork/r'', pr_head_sha = ''f00d'',
     pr_merge_sha = [], pr_draft = False, pr_author = [], pr_author_type = []\<rparr>"

lemma example_fork_parsed: "parse_pull_request_event (Some example_fork) = Inr example_fork_event"
  by (simp add: parse_pull_request_event_def payload_repository_def obj_field_def str_field_def true_field_def head_of_def
      author_of_def merge_sha_of_def or_blank_def example_fork_def example_repository_def example_fork_event_def)

lemma example_fork_untrusted [simp]: "\<not> trusted example_fork_event" "\<not> direct_eligible example_fork_event" "should_route example_fork_event"
    "pr_repository example_fork_event = ''o/r''"
  by (simp_all add: example_fork_event_def trusted_def same_repo_def direct_eligible_def should_route_def)

lemma example_fork_sent:
  assumes "choose_route p None (pull_request_request example_fork_event) [example_runner] 0 0 l = (l', Inr d)"
  shows "\<exists>b' out ws. pull_request_webhook (example_server p) (example_environment Sent) (Some example_fork) None (example_broker [] l) = (b', out, ws) \<and>
     Dispatch_Request ''o/r'' ''ci.yml'' ''main'' (map_of (pull_request_inputs (example_environment Sent) example_fork_event d)) \<in> set ws"
  using assms example_slug
  by (simp add: pull_request_webhook_def example_fork_parsed dispatch_pull_request_def send_pull_request_def example_defs(2-5) Let_def)
     (simp add: example_fork_event_def)

lemma example_fork_hosted:
  "choose_route example_policy None (pull_request_request example_fork_event) [example_runner] 0 0 [] =
     ([], Inr (hosted example_policy Hosted_Selected))"
proof -
  have "reserve_metered example_policy x 0 0 [] = ([], None, None)" for x
    by (simp add: reserve_metered_def example_policy_def metered_policy.defs policy.defs example_ceiling_def)
  then show ?thesis
    by (simp add: choose_route_def with_reading_def choose_held_def choose_lane_def pull_request_request_def)
qed

theorem untrusted_pull_request_is_hosted_witness:
  "map_of (pull_request_inputs (example_environment Sent) example_fork_event (hosted example_policy Hosted_Selected)) ''cindral_lane'' = Some ''hosted'' \<or>
   (\<exists>reason. snd (snd (reserve_metered example_policy 10 0 0 [])) = Some reason)"
proof -
  obtain b' out ws where
    "pull_request_webhook (example_server example_policy) (example_environment Sent) (Some example_fork) None (example_broker [] []) = (b', out, ws)"
    "Dispatch_Request ''o/r'' ''ci.yml'' ''main'' (map_of (pull_request_inputs (example_environment Sent) example_fork_event
       (hosted example_policy Hosted_Selected))) \<in> set ws"
    using example_fork_sent [OF example_fork_hosted] by blast
  from untrusted_pull_request_is_hosted [OF this(1) example_fork_parsed example_fork_untrusted(1),
      THEN conjunct2, rule_format, OF this(2)]
  show ?thesis by (simp add: example_server_def example_environment_def example_broker_def)
qed

text \<open>
  Once the month's budget is spent, a fork's pull request is dispatched on a local lane: routing
  answers a request for the hosted lane with the first local lane that has an idle runner.
\<close>

definition spent_ledger :: metered_ledger where
  "spent_ledger = fst (ledger_reserve REPOSITORY_UNKNOWN HOSTED_LANE [] [] 0 (fst (ledger_reserve REPOSITORY_UNKNOWN HOSTED_LANE [] [] 0 [])))"

lemma example_spent: "\<exists>reason. reserve_metered example_routing x 0 0 spent_ledger = (spent_ledger, None, Some reason)"
proof -
  have "ledger_count (month_start 0) HOSTED_LANE spent_ledger = 2"
    using month_start_le [of 0] by (simp add: spent_ledger_def ledger_reserve_def ledger_count_def rowcount_def)
  then show ?thesis
    by (simp add: reserve_metered_def example_routing_def metered_policy.defs policy.defs example_attached_def
        spent_minutes_def dispatches_def dispatch_cost_def Let_def le_max_iff_disj)
qed

theorem spent_budget_sends_fork_to_local_lane:
  "\<exists>b' out ws inputs. pull_request_webhook (example_server example_routing) (example_environment Sent) (Some example_fork) None
       (example_broker [] spent_ledger) = (b', out, ws) \<and>
     Dispatch_Request ''o/r'' ''ci.yml'' ''main'' inputs \<in> set ws \<and> inputs ''cindral_lane'' = Some ''fallback'' \<and>
     inputs ''cindral_reason'' = Some ''the head repository is not this repository, so hosted execution is required''"
proof -
  obtain reason where r: "reserve_metered example_routing (rq_estimated (pull_request_request example_fork_event)) 0 0 spent_ledger =
      (spent_ledger, None, Some reason)" using example_spent by blast
  have "\<exists>l d. choose_route example_routing None (pull_request_request example_fork_event) [example_runner] 0 0 spent_ledger = (l, Inr d) \<and>
      rd_lane d = ''fallback''"
    by (simp add: choose_route_def with_reading_def choose_held_def r first_local_def explicit_lane_def lane_request_def
        required_labels_def first_eligible_def eligible_def example_runner_def min_by_def)
  then obtain l d where c: "choose_route example_routing None (pull_request_request example_fork_event) [example_runner] 0 0 spent_ledger = (l, Inr d)"
      and lane: "rd_lane d = ''fallback''" by blast
  have "hosted_reason example_fork_event = ''the head repository is not this repository, so hosted execution is required''"
    by (simp add: hosted_reason_def same_repo_def example_fork_event_def)
  then have "map_of (pull_request_inputs (example_environment Sent) example_fork_event d) ''cindral_lane'' = Some ''fallback''"
    "map_of (pull_request_inputs (example_environment Sent) example_fork_event d) ''cindral_reason'' =
       Some ''the head repository is not this repository, so hosted execution is required''"
    using lane by (simp_all add: pull_request_inputs_def)
  with example_fork_sent [OF c] show ?thesis by blast
qed

end
