(* ===== verification/Webhook_History.thy ===== *)
theory Webhook_History
  imports Webhook_Safety
begin

text \<open>
  The broker's life as a whole: webhooks, first delivered or redelivered, replays of stored deliveries, handlings cut
  off anywhere, restarts, and whatever else happens to the queue and the month between them. Every handler changes
  the delivery ledger only by the statements of \<open>delivery_step\<close>, so what that system keeps, the handlers keep.
  The theorem is that a commit runs on one lane, over all of it.
\<close>

section \<open>The handlers use the ledger's statements only\<close>

definition ledger_statement :: "delivery_store \<Rightarrow> delivery_store \<Rightarrow> bool" where
  "ledger_statement s s' \<longleftrightarrow> (\<exists>e. s' = dy_store (delivery_step \<lparr>dy_store = s, dy_sent = []\<rparr> e))"

abbreviation ledger_statements :: "delivery_store \<Rightarrow> delivery_store \<Rightarrow> bool" where
  "ledger_statements \<equiv> rtranclp ledger_statement"

lemma statement_of: "s' = dy_store (delivery_step \<lparr>dy_store = s, dy_sent = []\<rparr> e) \<Longrightarrow> ledger_statements s s'"
  unfolding ledger_statement_def by blast

lemma register_statements: "register repo dv fp flow rf inputs sha now s = (s', x) \<Longrightarrow> ledger_statements s s'"
  by (rule statement_of [of _ _ "Register_Delivery repo dv fp flow rf inputs sha now"]) simp

lemma claim_statements: "claim_delivery repo dv now s = (s', x) \<Longrightarrow> ledger_statements s s'"
  by (rule statement_of [of _ _ "Begin_Attempt repo dv now"]) simp

lemma reject_statements: "reject_ready repo dv reason now s = (s', x) \<Longrightarrow> ledger_statements s s'"
  by (rule statement_of [of _ _ "Reject_Delivery repo dv reason now"]) simp

lemma recover_statements: "ledger_statements s (fst (recover now s))"
  by (rule statement_of [of _ _ "Recover_Deliveries now"]) simp

lemma finish_quietly_statements: "finish_quietly row st error now s = (s', x) \<Longrightarrow> ledger_statements s s'"
  by (rule statement_of [of _ _ "Record_Result (dl_repository row) (dl_delivery row) st error now"])
     (auto simp: finish_quietly_def split: sum.splits)

lemma step_store_only: "dy_store (delivery_step y e) = dy_store (delivery_step \<lparr>dy_store = dy_store y, dy_sent = []\<rparr> e)"
  by (cases e) (auto simp: case_prod_beta split: sum.splits)

lemma run_statements: "ledger_statements (dy_store y) (dy_store (run_steps delivery_step y es))"
proof (induction es arbitrary: y)
  case (Cons e es)
  have "ledger_statements (dy_store y) (dy_store (delivery_step y e))" by (rule statement_of) (rule step_store_only)
  then show ?case using Cons [of "delivery_step y e"] by simp
qed simp

lemma conclude_statements:
  "conclude_dispatch row out now hold (s, l) = ((s', l'), a) \<Longrightarrow> ledger_statements s s'"
  by (auto simp: conclude_dispatch_def Let_def split: github_outcome.splits prod.splits dest: finish_quietly_statements)

text \<open>A delivery whose attempt has begun, whatever came of it.\<close>

definition spent_delivery :: "string \<times> string \<Rightarrow> delivery_store \<Rightarrow> bool" where
  "spent_delivery k s \<longleftrightarrow> (\<exists>r. lookup_by dl_key k s = Some r \<and> dl_state r \<noteq> Ready)"

lemma statements_keep:
  assumes "ledger_statements s s'"
  shows "store_wf s \<Longrightarrow> store_wf s'" and "spent_delivery k s \<Longrightarrow> spent_delivery k s'"
proof -
  have one: "(store_wf s \<longrightarrow> store_wf s') \<and> (spent_delivery k s \<longrightarrow> spent_delivery k s')" if stmt: "ledger_statement s s'" for s s'
  proof -
    obtain e where e: "s' = dy_store (delivery_step \<lparr>dy_store = s, dy_sent = []\<rparr> e)" using stmt unfolding ledger_statement_def by blast
    let ?y = "\<lparr>dy_store = s, dy_sent = []\<rparr>"
    have "store_wf s \<longrightarrow> store_wf s'" using store_wf_step [of ?y e] e by simp
    moreover have "spent_delivery k s'" if spent: "spent_delivery k s"
    proof -
      obtain r where r: "lookup_by dl_key k (dy_store ?y) = Some r" "dl_state r \<noteq> Ready" using spent by (auto simp: spent_delivery_def)
      from delivery_step_row [OF r(1), of e] obtain r' where "lookup_by dl_key k s' = Some r'" "delivery_change r r'" using e by blast
      then show ?thesis using delivery_change_never_ready r(2) unfolding spent_delivery_def by blast
    qed
    ultimately show ?thesis by blast
  qed
  have "(store_wf s \<longrightarrow> store_wf s') \<and> (spent_delivery k s \<longrightarrow> spent_delivery k s')"
    using assms by (induction rule: rtranclp_induct) (use one in blast)+
  then show "store_wf s \<Longrightarrow> store_wf s'" "spent_delivery k s \<Longrightarrow> spent_delivery k s'" by blast+
qed

section \<open>One dispatch of a stored delivery\<close>

fun is_request :: "github_write \<Rightarrow> bool" where
  "is_request (Dispatch_Request _ _ _ _) = True"
| "is_request _ = False"

definition no_request :: "github_write list \<Rightarrow> bool" where
  "no_request ws \<longleftrightarrow> (\<forall>w \<in> set ws. \<not> is_request w)"

lemma no_request_simps [simp]:
  "no_request []" "no_request (w # ws) \<longleftrightarrow> \<not> is_request w \<and> no_request ws" "no_request (ws @ ws') \<longleftrightarrow> no_request ws \<and> no_request ws'"
  "\<not> is_request (status_write ev repository sha state description)"
  by (auto simp: no_request_def status_write_def)

definition row_key :: "delivery_row \<Rightarrow> string \<times> string" where
  "row_key r = (lower (dl_repository r), dl_delivery r)"

lemma row_key_stored: "get_delivery repository delivery s = Some r \<Longrightarrow> row_key r = (lower repository, delivery)"
  using lookup_by_Some_in [of dl_key "(lower repository, delivery)" s r]
  by (auto simp: get_delivery_def row_key_def dl_key_def)

lemma dispatch_delivery_ledger:
  assumes "dispatch_delivery ev r hold b = (b', a, ws)" and "store_wf (bk_deliveries b)"
  shows "ledger_statements (bk_deliveries b) (bk_deliveries b')"
    and "\<not> no_request ws \<Longrightarrow> spent_delivery (row_key r) (bk_deliveries b')"
    and "spent_delivery (row_key r) (bk_deliveries b) \<Longrightarrow> ws = [] \<and> \<not> should_fallback a"
    and "should_fallback a \<Longrightarrow> spent_delivery (row_key r) (bk_deliveries b')"
proof -
  obtain s1 c where claim: "claim_delivery (dl_repository r) (dl_delivery r) (ev_wall ev 7) (bk_deliveries b) = (s1, c)"
    by (cases "claim_delivery (dl_repository r) (dl_delivery r) (ev_wall ev 7) (bk_deliveries b)")
  note claimed = claim_statements [OF claim]
  have c: "c \<longleftrightarrow> (\<exists>q. lookup_by dl_key (row_key r) (bk_deliveries b) = Some q \<and> dl_state q = Ready)"
    using claim_accepted_iff [OF assms(2), of "dl_repository r" "dl_delivery r" "ev_wall ev 7"] claim
    by (simp add: get_delivery_def row_key_def)
  let ?o = "ev_dispatch ev (dl_repository r) (dl_workflow r) (dl_ref r) (map_of (dl_inputs r))"
  obtain s2 l2 a2 where conclude: "conclude_dispatch r ?o (ev_wall ev 8) hold (s1, Some (bk_ledger b)) = ((s2, l2), a2)"
    by (metis surj_pair)
  note concluded = conclude_statements [OF conclude]
  have b': "bk_deliveries b' = (if c then s2 else s1)" and ws: "ws = (if c then [delivery_request r] else [])"
    using assms(1) claim conclude by (auto simp: dispatch_delivery_def dispatch_record_def Let_def split: prod.splits bool.splits)
  show "ledger_statements (bk_deliveries b) (bk_deliveries b')" using claimed concluded b' by auto
  have "spent_delivery (row_key r) s1" if attempted: "c"
  proof -
    from attempted c obtain q where q: "lookup_by dl_key (row_key r) (bk_deliveries b) = Some q" "dl_state q = Ready" by blast
    then have "lookup_by dl_key (row_key r) s1 = Some (attempt_row (ev_wall ev 7) q)"
      using claim lookup_by_Some_in [OF q(1)] by (auto simp: claim_delivery_def attempting.lookup in_state_def row_key_def)
    then show ?thesis by (simp add: spent_delivery_def attempt_row_def)
  qed
  then have attempted: "spent_delivery (row_key r) (bk_deliveries b')" if "c"
    using that b' statements_keep(2) [OF concluded] by simp
  then show "spent_delivery (row_key r) (bk_deliveries b')" if "\<not> no_request ws" using that ws by (auto split: if_splits)
  show "spent_delivery (row_key r) (bk_deliveries b')" if "should_fallback a"
  proof (cases c)
    case False
    then have "lookup_by dl_key (row_key r) s1 \<noteq> None \<and> dl_state (the (lookup_by dl_key (row_key r) s1)) = Rejected"
      using assms(1) claim that
      by (auto simp: dispatch_delivery_def dispatch_record_def get_delivery_def row_key_def split: prod.splits option.splits if_splits
          elim: should_fallback.elims(2))
    then show ?thesis using b' False by (auto simp: spent_delivery_def)
  qed (rule attempted)
  assume spent: "spent_delivery (row_key r) (bk_deliveries b)"
  then have "\<not> c" using c by (auto simp: spent_delivery_def)
  moreover obtain q where q: "lookup_by dl_key (row_key r) s1 = Some q" "dl_state q \<noteq> Ready"
    using statements_keep(2) [OF claimed spent] by (auto simp: spent_delivery_def)
  ultimately have "a = (if dl_state q \<in> {Accepted, Rejected, Uncertain} then Duplicate else Answer (dl_state q) [])"
    using assms(1) claim by (auto simp: dispatch_delivery_def dispatch_record_def get_delivery_def row_key_def split: prod.splits)
  then have "\<not> should_fallback a" using q(2) by (cases "dl_state q") simp_all
  then show "ws = [] \<and> \<not> should_fallback a" using ws \<open>\<not> c\<close> by simp
qed

lemma rejected_is_spent:
  assumes "reject_ready repository delivery reason now s = (s', True)" and "store_wf s"
  shows "spent_delivery (lower repository, delivery) s'"
proof -
  have "rowcount (in_state repository delivery Ready) s = 1" using assms(1) by (simp add: reject_ready_def)
  then obtain r where r: "lookup_by dl_key (lower repository, delivery) s = Some r" "dl_state r = Ready"
    using rowcount_key_eq_1 [OF assms(2) [unfolded store_wf_def], of "(lower repository, delivery)" "\<lambda>r. dl_state r = Ready"]
    by (auto simp: in_state_def [abs_def])
  then have "lookup_by dl_key (lower repository, delivery) s' = Some (result_row Rejected reason now r)"
    using assms(1) lookup_by_Some_in [OF r(1)] by (auto simp: reject_ready_def recording.lookup in_state_def)
  then show ?thesis by (simp add: spent_delivery_def result_row_def)
qed

section \<open>A handled push\<close>

definition unstored :: "string \<times> string \<Rightarrow> delivery_store \<Rightarrow> bool" where
  "unstored k s \<longleftrightarrow> lookup_by dl_key k s = None"

text \<open>
  A handling changes the ledger by its statements; a delivery it sent a request for, or queued a run for while the
  ledger holds the delivery, has been attempted afterwards.
\<close>

definition follows_ledger :: "string \<times> string \<Rightarrow> broker \<Rightarrow> handled \<Rightarrow> bool" where
  "follows_ledger k b h \<longleftrightarrow> ledger_statements (bk_deliveries b) (bk_deliveries (fst h)) \<and>
     (\<not> no_request (snd (snd h)) \<longrightarrow> spent_delivery k (bk_deliveries (fst h))) \<and>
     (bk_jobs (fst h) \<noteq> bk_jobs b \<longrightarrow> spent_delivery k (bk_deliveries (fst h)) \<or> unstored k (bk_deliveries (fst h)))"

lemma follows_quiet [simp]: "bk_deliveries b' = bk_deliveries b \<Longrightarrow> bk_jobs b' = bk_jobs b \<Longrightarrow> no_request ws \<Longrightarrow> follows_ledger k b (b', out, ws)"
  by (simp add: follows_ledger_def)

lemma follows_later:
  "follows_ledger k b1 h \<Longrightarrow> ledger_statements (bk_deliveries b) (bk_deliveries b1) \<Longrightarrow> bk_jobs b1 = bk_jobs b \<Longrightarrow> follows_ledger k b h"
  unfolding follows_ledger_def by (metis rtranclp_trans)

lemma follows_statements:
  "ledger_statements (bk_deliveries b) (bk_deliveries b') \<Longrightarrow> no_request ws \<or> spent_delivery k (bk_deliveries b') \<Longrightarrow> bk_jobs b' = bk_jobs b \<Longrightarrow>
   follows_ledger k b (b', out, ws)"
  by (auto simp: follows_ledger_def)

lemma follows_with_writes:
  assumes "follows_ledger k b1 h" and "ledger_statements (bk_deliveries b) (bk_deliveries b1)"
    and "no_request ws \<or> spent_delivery k (bk_deliveries b1)" and "bk_jobs b1 = bk_jobs b"
  shows "follows_ledger k b (with_writes ws h)"
  using assms statements_keep(2) [of "bk_deliveries b1" "bk_deliveries (fst h)" k]
  by (auto simp: follows_ledger_def with_writes_def split: prod.splits)

lemma follows_catch: "follows_ledger k b h \<Longrightarrow> follows_ledger k b (catch_store_error h)"
  by (auto simp: follows_ledger_def catch_store_error_def split: prod.splits outcome.splits handler_error.splits py_exn.splits)

lemma release_deliveries [simp]:
  "bk_deliveries (give_back r d b) = bk_deliveries b"
  "bk_deliveries (name_hold n repository workflow rf b) = bk_deliveries b"
  "bk_deliveries (expire_reservations repository now b) = bk_deliveries b"
  "bk_deliveries (reserve_runner repository i x b) = bk_deliveries b"
  by (simp_all add: release_reservation_def release_runner_def put_reservations_def expire_reservations_def
      reserve_runner_def give_back_def name_hold_def split: option.splits)

lemma dispatch_decision_deliveries: "dispatch_decision sv ev rq repository busy b = (b', x) \<Longrightarrow> bk_deliveries b' = bk_deliveries b"
  unfolding dispatch_decision_def Let_def
  by (simp split: prod.split_asm sum.split_asm if_split_asm) (elim conjE, hypsubst, simp)+

text \<open>What the push path asks of its fallback here: that it leaves the ledger alone and sends nothing.\<close>

locale silent_fallback =
  fixes fallback :: "(broker \<Rightarrow> handled) option"
  assumes fallback_silent: "fallback = Some f \<Longrightarrow> bk_deliveries (fst (f b)) = bk_deliveries b \<and> no_request (snd (snd (f b)))"
begin

lemma fallback_follows:
  "fallback = Some f \<Longrightarrow> spent_delivery k (bk_deliveries b) \<or> unstored k (bk_deliveries b) \<Longrightarrow> follows_ledger k b (f b)"
  using fallback_silent by (simp add: follows_ledger_def)

lemma adapter_absent_follows:
  "spent_delivery k (bk_deliveries b) \<or> unstored k (bk_deliveries b) \<Longrightarrow>
   follows_ledger k b (adapter_absent sv ev e workflow reason fallback b)"
  by (simp add: adapter_absent_def Let_def post_refusal_def fallback_follows split: option.split)

lemma redispatch_follows:
  assumes "store_wf (bk_deliveries b)" and "row_key existing = k"
  shows "follows_ledger k b (redispatch sv ev e existing delivery fallback b)"
proof -
  have "follows_ledger k b (b2, out, ws)" "fallback = Some f \<Longrightarrow> should_fallback a \<Longrightarrow> follows_ledger k b (with_writes ws (f b2))"
    if d: "dispatch_delivery ev existing hold (b\<lparr>bk_ledger := l\<rparr>) = (b2, a, ws)" for l hold b2 a ws f out
  proof -
    note led = dispatch_delivery_ledger [OF d]
    have st: "ledger_statements (bk_deliveries b) (bk_deliveries b2)" "no_request ws \<or> spent_delivery k (bk_deliveries b2)"
      "bk_jobs b2 = bk_jobs b"
      using led(1,2) assms dispatch_delivery_jobs [OF d] by auto
    show "follows_ledger k b (b2, out, ws)" using st by (rule follows_statements)
    show "follows_ledger k b (with_writes ws (f b2))" if "fallback = Some f" "should_fallback a"
      by (rule follows_with_writes [OF fallback_follows [OF that(1)] st]) (use led(4) that(2) assms in simp)
  qed
  then show ?thesis
    by (simp add: redispatch_def Let_def split: option.split prod.split)
qed

lemma redeliver_follows:
  assumes "store_wf (bk_deliveries b)" and "row_key existing = k" and "k = (lower (pe_repository e), delivery)"
  shows "follows_ledger k b (redeliver sv ev e existing delivery fallback b)"
proof -
  have "x \<Longrightarrow> follows_ledger k b (catch_store_error (adapter_absent sv ev e w reason fallback (b\<lparr>bk_deliveries := s\<rparr>)))"
      "follows_ledger k b (redispatch sv ev e existing delivery fallback (b\<lparr>bk_deliveries := s\<rparr>))"
    if r: "reject_ready (pe_repository e) delivery why now (bk_deliveries b) = (s, x)" for why now s x w reason
  proof -
    have st: "ledger_statements (bk_deliveries b) (bk_deliveries (b\<lparr>bk_deliveries := s\<rparr>))" using reject_statements [OF r] by simp
    then have "store_wf (bk_deliveries (b\<lparr>bk_deliveries := s\<rparr>))" using statements_keep(1) assms(1) by blast
    from redispatch_follows [OF this assms(2)] st
    show "follows_ledger k b (redispatch sv ev e existing delivery fallback (b\<lparr>bk_deliveries := s\<rparr>))" by (rule follows_later) simp
    show "follows_ledger k b (catch_store_error (adapter_absent sv ev e w reason fallback (b\<lparr>bk_deliveries := s\<rparr>)))" if x
      by (rule follows_catch, rule follows_later [OF adapter_absent_follows st]) (use rejected_is_spent [of "pe_repository e" delivery] r that assms(1,3) in auto)
  qed
  then show ?thesis
    using redispatch_follows [OF assms(1,2)] by (simp add: redeliver_def Let_def split: sum.split bool.split prod.split)
qed

lemma conclude_push_follows:
  assumes "should_fallback a \<Longrightarrow> spent_delivery k (bk_deliveries b)"
  shows "follows_ledger k b (conclude_push sv e branch delivery header inputs row d cp runner fallback a b)"
proof -
  have "follows_ledger k b (f (release_runner runner b))" if "fallback = Some f" "should_fallback a" for f
    by (rule follows_later [OF fallback_follows [OF that(1)]]) (use assms that(2) in simp_all)
  then show ?thesis
    by (simp add: conclude_push_def Let_def split: dispatch_answer.split delivery_state.split option.split)
qed

lemma dispatch_decided_follows:
  assumes "store_wf (bk_deliveries b)" and "k = (lower (pe_repository e), delivery)"
  shows "follows_ledger k b (dispatch_decided sv ev e branch fingerprint delivery header rq d cp runner fallback b)"
proof -
  have "follows_ledger k b (give_back runner d (b\<lparr>bk_deliveries := s\<rparr>), out, [])"
      "row \<noteq> None \<Longrightarrow> dispatch_delivery ev (the row) hold (b\<lparr>bk_deliveries := s\<rparr>) = (b2, a, ws) \<Longrightarrow>
        follows_ledger k b (with_writes ws (conclude_push sv e branch delivery header inputs (the row) d cp runner fallback a b2))"
    if r: "register (pe_repository e) delivery fp flow rf inputs' sha now (bk_deliveries b) = (s, row)"
    for fp flow rf inputs' sha now s row hold b2 a ws inputs out
  proof -
    note st = register_statements [OF r]
    show "follows_ledger k b (give_back runner d (b\<lparr>bk_deliveries := s\<rparr>), out, [])"
      using st by (intro follows_statements) simp_all
    assume row: "row \<noteq> None" and d: "dispatch_delivery ev (the row) hold (b\<lparr>bk_deliveries := s\<rparr>) = (b2, a, ws)"
    have "get_delivery (pe_repository e) delivery s = Some (the row)"
      using r row by (auto simp: register_def Let_def get_delivery_def)
    then have key: "row_key (the row) = k" using row_key_stored assms(2) by simp
    note led = dispatch_delivery_ledger [OF d]
    have "store_wf (bk_deliveries (b\<lparr>bk_deliveries := s\<rparr>))" using statements_keep(1) [OF st] assms(1) by simp
    then have "ledger_statements (bk_deliveries b) (bk_deliveries b2)" "no_request ws \<or> spent_delivery k (bk_deliveries b2)"
        "should_fallback a \<Longrightarrow> spent_delivery k (bk_deliveries b2)" "bk_jobs b2 = bk_jobs b"
      using led(1,2,4) st key dispatch_delivery_jobs [OF d] by auto
    from follows_with_writes [OF conclude_push_follows [OF this(3)] this(1,2,4)]
    show "follows_ledger k b (with_writes ws (conclude_push sv e branch delivery header inputs (the row) d cp runner fallback a b2))" .
  qed
  note parts = this
  show ?thesis
    by (simp add: dispatch_decided_def Let_def split: prod.split option.split) (use parts in fastforce)
qed

lemma first_delivery_follows:
  assumes "store_wf (bk_deliveries b)" and "k = (lower (pe_repository e), delivery)" and "sv_github sv \<Longrightarrow> unstored k (bk_deliveries b)"
  shows "follows_ledger k b (first_delivery sv ev e branch fingerprint delivery header fallback b)"
proof -
  have "follows_ledger k b (b1, out, [])" "follows_ledger k b (dispatch_decided sv ev e branch fp delivery header rq d cp runner fallback b1)"
    if dd: "dispatch_decision sv ev rq' repository busy b = (b1, x)" for b1 x rq' repository busy out fp rq d cp runner
  proof -
    have same: "bk_deliveries b1 = bk_deliveries b" "bk_jobs b1 = bk_jobs b"
      using dispatch_decision_deliveries [OF dd] dispatch_decision_jobs [OF dd] by simp_all
    then show "follows_ledger k b (b1, out, [])" by simp
    show "follows_ledger k b (dispatch_decided sv ev e branch fp delivery header rq d cp runner fallback b1)"
      by (rule follows_later [OF dispatch_decided_follows]) (use assms same in simp_all)
  qed
  then show ?thesis using assms(3)
    by (simp add: first_delivery_def Let_def adapter_absent_follows split: prod.split sum.split bool.split)
qed

lemma dispatch_push_follows:
  assumes "store_wf (bk_deliveries b)" and "k = (lower (pe_repository e), if or_blank header = [] then fingerprint else or_blank header)"
  shows "follows_ledger k b (dispatch_push sv ev e branch fingerprint header fallback b)"
proof -
  define d where "d = (if or_blank header = [] then fingerprint else or_blank header)"
  have k: "k = (lower (pe_repository e), d)" using assms(2) by (simp add: d_def)
  have first: "follows_ledger k b (first_delivery sv ev e branch fingerprint d header fallback b)"
    if "sv_github sv \<Longrightarrow> get_delivery (pe_repository e) d (bk_deliveries b) = None"
    by (rule first_delivery_follows [OF assms(1) k]) (use that k in \<open>simp add: unstored_def get_delivery_def\<close>)
  show ?thesis
  proof (cases "get_delivery (pe_repository e) d (bk_deliveries b)")
    case None
    then show ?thesis using first unfolding dispatch_push_def Let_def d_def [symmetric] by (simp split: sum.split)
  next
    case (Some existing)
    have "row_key existing = k" using row_key_stored [OF Some] k by simp
    note again = redeliver_follows [OF assms(1) this k, of sv ev]
    have "\<not> sv_github sv \<Longrightarrow> follows_ledger k b (first_delivery sv ev e branch fingerprint d header fallback b)" using first by simp
    then show ?thesis using again Some unfolding dispatch_push_def Let_def d_def [symmetric] by (simp split: sum.split)
  qed
qed

end

interpretation no_fallback: silent_fallback None
  by unfold_locales simp

interpretation direct_fallback: silent_fallback "Some (\<lambda>b. enqueue_direct sv ev repository sha rf st header b)" for sv ev repository sha rf st header
  by unfold_locales (auto simp: enqueue_direct_def split: sum.split prod.split)


section \<open>Whole webhooks and replays\<close>

text \<open>
  The delivery a push webhook is about: the ledger's key for its repository and its \<open>X-GitHub-Delivery\<close> header, or
  the fingerprint of its body without one. \<open>hosted_first\<close> is that delivery when the policy asks GitHub before the
  device pool; with a push lane of \<open>device\<close> the pool is all that is asked.
\<close>

definition push_key :: "webhook_request \<Rightarrow> (string \<times> string) option" where
  "push_key rq =
     (if wh_event rq \<noteq> Some ''push'' then None
      else case parse_push_event (wh_json rq) of
        Inl _ \<Rightarrow> None
      | Inr e \<Rightarrow> Some (lower (pe_repository e), if or_blank (wh_delivery rq) = [] then wh_fingerprint rq else or_blank (wh_delivery rq)))"

definition hosted_first :: "server_config \<Rightarrow> webhook_request \<Rightarrow> (string \<times> string) option" where
  "hosted_first sv rq =
     (case push_key rq of
        None \<Rightarrow> None
      | Some k \<Rightarrow> if push_lane (sv_targets sv) (fst k) = Some ''device'' then None else Some k)"

lemma push_lane_lower [simp]: "push_lane targets (lower repository) = push_lane targets repository"
  by (simp add: push_lane_def target_for_def)

lemma hosted_first_push:
  assumes "hosted_first sv rq = Some k"
  obtains e where "wh_event rq = Some ''push''" and "parse_push_event (wh_json rq) = Inr e"
    and "k = (lower (pe_repository e), if or_blank (wh_delivery rq) = [] then wh_fingerprint rq else or_blank (wh_delivery rq))"
    and "push_lane (sv_targets sv) (pe_repository e) \<noteq> Some ''device''"
  using assms by (auto simp: hosted_first_def push_key_def split: option.splits if_splits sum.splits)

lemma push_webhook_statements:
  assumes "store_wf (bk_deliveries b)"
  shows "ledger_statements (bk_deliveries b) (bk_deliveries (fst (push_webhook sv ev rq b)))"
proof (cases "parse_push_event (wh_json rq)")
  case (Inl err)
  then show ?thesis by (simp add: push_webhook_def)
next
  case (Inr e)
  have "ledger_statements (bk_deliveries b) (bk_deliveries (fst (dispatch_push sv ev e branch fp header None b)))"
    "ledger_statements (bk_deliveries b)
       (bk_deliveries (fst (dispatch_push sv ev e branch fp header (Some (\<lambda>b. enqueue_direct sv ev repository sha rf st header' b)) b)))"
    for branch fp header repository sha rf st header'
    using no_fallback.dispatch_push_follows [OF assms refl] direct_fallback.dispatch_push_follows [OF assms refl]
    unfolding follows_ledger_def by blast+
  moreover have "bk_deliveries (fst (enqueue_direct sv ev repository sha rf st header b)) = bk_deliveries b" for repository sha rf st header
    using direct_fallback.fallback_silent [OF refl] by blast
  ultimately show ?thesis by (simp add: push_webhook_def Inr Let_def)
qed

lemma push_webhook_follows:
  assumes "store_wf (bk_deliveries b)" and "hosted_first sv rq = Some k"
  shows "follows_ledger k b (push_webhook sv ev rq b)"
proof -
  obtain e where e: "parse_push_event (wh_json rq) = Inr e" "push_lane (sv_targets sv) (pe_repository e) \<noteq> Some ''device''"
    and k: "k = (lower (pe_repository e), if or_blank (wh_delivery rq) = [] then wh_fingerprint rq else or_blank (wh_delivery rq))"
    using assms(2) by (rule hosted_first_push)
  note handled = no_fallback.dispatch_push_follows [OF assms(1) k] direct_fallback.dispatch_push_follows [OF assms(1) k]
  show ?thesis by (simp add: push_webhook_def e Let_def handled)
qed

lemma pull_request_webhook_deliveries: "bk_deliveries (fst (pull_request_webhook sv ev body header b)) = bk_deliveries b"
proof -
  have "bk_deliveries (fst (dispatch_pull_request sv ev e header b)) = bk_deliveries b" for e
    by (simp add: dispatch_pull_request_def send_pull_request_def Let_def split: sum.split bool.split prod.split github_outcome.split)
  then show ?thesis
    by (simp add: pull_request_webhook_def enqueue_direct_def split: sum.split prod.split)
qed

lemma webhook_cases:
  "webhook sv ev hmac_hex secret rq b = push_webhook sv ev rq b \<and> wh_event rq = Some ''push'' \<or>
   webhook sv ev hmac_hex secret rq b = pull_request_webhook sv ev (wh_json rq) (wh_delivery rq) b \<and> wh_event rq = Some ''pull_request'' \<or>
   (\<exists>out. webhook sv ev hmac_hex secret rq b = (b, out, []))"
  by (auto simp: webhook_def)

lemma webhook_statements:
  "store_wf (bk_deliveries b) \<Longrightarrow> ledger_statements (bk_deliveries b) (bk_deliveries (fst (webhook sv ev hmac_hex secret rq b)))"
  using webhook_cases [of sv ev hmac_hex secret rq b] push_webhook_statements pull_request_webhook_deliveries by force

lemma webhook_follows:
  assumes "store_wf (bk_deliveries b)" and "hosted_first sv rq = Some k"
  shows "follows_ledger k b (webhook sv ev hmac_hex secret rq b)"
proof -
  have "wh_event rq = Some ''push''" using assms(2) by (rule hosted_first_push)
  then show ?thesis using webhook_cases [of sv ev hmac_hex secret rq b] push_webhook_follows [OF assms] by auto
qed

lemma hand_off_deliveries: "bk_deliveries (quiet b (hand_off sv ev r b)) = bk_deliveries b" "hand_off sv ev r b = Inr b' \<Longrightarrow> bk_deliveries b' = bk_deliveries b"
  by (auto simp: hand_off_def quiet_def rbind_def split: sum.splits if_splits prod.splits)

lemma replay_one_follows:
  assumes "store_wf (bk_deliveries b)" and "replay_one sv ev row b = (b', ws)"
  shows "follows_ledger (row_key row) b (b', out, ws)"
proof -
  have rejected: "ledger_statements (bk_deliveries b) s \<and> (x \<longrightarrow> spent_delivery (row_key row) s)"
    if "reject_ready (dl_repository row) (dl_delivery row) reason now (bk_deliveries b) = (s, x)" for reason now s x
    using reject_statements [OF that] rejected_is_spent [OF _ assms(1)] that by (auto simp: row_key_def)
  have sent: "ledger_statements (bk_deliveries b) (bk_deliveries b2) \<and> bk_jobs b2 = bk_jobs b \<and>
      (no_request ws' \<or> spent_delivery (row_key row) (bk_deliveries b2)) \<and>
      (should_fallback a \<longrightarrow> spent_delivery (row_key row) (bk_deliveries b2))"
    if "dispatch_delivery ev row hold (b\<lparr>bk_ledger := l\<rparr>) = (b2, a, ws')" for hold l b2 a ws'
    using dispatch_delivery_ledger(1,2,4) [OF that] dispatch_delivery_jobs [OF that] assms(1) by auto
  show ?thesis
    using assms(2) hand_off_deliveries(2)
    by (auto simp: follows_ledger_def replay_one_def Let_def hand_off_deliveries(1) dest!: rejected sent
        split: sum.split_asm bool.split_asm prod.split_asm option.split_asm if_split_asm)
qed

section \<open>A delivery whose attempt has begun is left alone\<close>

lemma spent_push_is_idle:
  assumes "spent_delivery (lower (pe_repository e), if or_blank header = [] then fingerprint else or_blank header) (bk_deliveries b)"
  shows "\<exists>out. dispatch_push sv ev e branch fingerprint header fallback b = (b, out, [])"
  using assms by (auto simp: dispatch_push_def Let_def spent_delivery_def get_delivery_def split: sum.split)

lemma spent_webhook_is_idle:
  assumes "hosted_first sv rq = Some k" and "spent_delivery k (bk_deliveries b)"
    and "webhook sv ev hmac_hex secret rq b = (b', out, ws)"
  shows "b' = b \<and> ws = []"
proof -
  obtain e where e: "parse_push_event (wh_json rq) = Inr e" "push_lane (sv_targets sv) (pe_repository e) \<noteq> Some ''device''"
    and push: "wh_event rq = Some ''push''"
    and k: "k = (lower (pe_repository e), if or_blank (wh_delivery rq) = [] then wh_fingerprint rq else or_blank (wh_delivery rq))"
    using assms(1) by (rule hosted_first_push)
  have idle: "\<exists>out. dispatch_push sv ev e branch (wh_fingerprint rq) (wh_delivery rq) fallback b = (b, out, [])" for branch fallback
    using spent_push_is_idle assms(2) k by blast
  have "\<exists>out. push_webhook sv ev rq b = (b, out, [])" by (simp add: push_webhook_def e Let_def idle)
  then show ?thesis using assms(3) push webhook_cases [of sv ev hmac_hex secret rq b] by auto
qed

lemma spent_replay_is_idle:
  assumes "store_wf (bk_deliveries b)" and "spent_delivery (row_key row) (bk_deliveries b)" and "replay_one sv ev row b = (b', ws)"
  shows "bk_jobs b' = bk_jobs b \<and> no_request ws"
proof -
  have no_reject: "reject_ready (dl_repository row) (dl_delivery row) reason now (bk_deliveries b) \<noteq> (s, True)" for reason now s
  proof -
    have "rowcount (in_state (dl_repository row) (dl_delivery row) Ready) (bk_deliveries b) \<noteq> 1"
      using rowcount_key_eq_1 [OF assms(1) [unfolded store_wf_def], of "row_key row" "\<lambda>r. dl_state r = Ready"] assms(2)
      by (auto simp: spent_delivery_def in_state_def [abs_def] row_key_def)
    then show ?thesis by (simp add: reject_ready_def)
  qed
  have no_send: "bk_jobs b2 = bk_jobs b \<and> ws' = [] \<and> \<not> should_fallback a"
    if "dispatch_delivery ev row hold (b\<lparr>bk_ledger := l\<rparr>) = (b2, a, ws')" for hold l b2 a ws'
    using dispatch_delivery_ledger(3) [OF that] dispatch_delivery_jobs [OF that] assms(1,2) by simp
  show ?thesis
    using assms(3) no_reject
    by (auto dest!: no_send simp: replay_one_def Let_def split: sum.split_asm bool.split_asm prod.split_asm option.split_asm if_split_asm)
qed

section \<open>The broker's life\<close>

text \<open>What GitHub's answer to a dispatch leaves open: only a definite refusal says that no run started.\<close>

fun says_no_run :: "github_outcome \<Rightarrow> bool" where
  "says_no_run (Dispatch_Error None _) = True"
| "says_no_run (Dispatch_Error (Some code) _) \<longleftrightarrow> code < 500 \<and> code \<noteq> 403 \<and> code \<noteq> 429"
| "says_no_run _ = False"

definition may_have_started :: "environment \<Rightarrow> github_write list \<Rightarrow> bool" where
  "may_have_started ev ws \<longleftrightarrow>
     (\<exists>repository workflow rf inputs. Dispatch_Request repository workflow rf inputs \<in> set ws \<and>
        \<not> says_no_run (ev_dispatch ev repository workflow rf inputs))"

text \<open>
  A handling that may have started a run on GitHub, or that queued one on the device pool for a delivery the ledger
  holds, settles the delivery it is about.
\<close>

definition settles :: "environment \<Rightarrow> (string \<times> string) option \<Rightarrow> broker \<Rightarrow> broker \<Rightarrow> github_write list \<Rightarrow> (string \<times> string) set" where
  "settles ev delivery b b' ws =
     {k. delivery = Some k \<and> (may_have_started ev ws \<or> bk_jobs b' \<noteq> bk_jobs b \<and> \<not> unstored k (bk_deliveries b'))}"

text \<open>
  The states a broker comes to, with the deliveries settled so far. A handling meets an environment and a policy of
  its own. It may also be cut off anywhere, or be another thread's: then some statements reach the ledger, and each
  request that was begun may have started a run. Everything else (agents, verdicts, expiry, previews) does what it
  likes with the queue, the month and the runner reservations.
\<close>

inductive broker_life :: "(string \<Rightarrow> string \<Rightarrow> string) \<Rightarrow> string option \<Rightarrow> broker \<Rightarrow> (string \<times> string) set \<Rightarrow> bool"
  for hmac_hex secret where
  fresh: "bk_deliveries b = [] \<Longrightarrow> broker_life hmac_hex secret b {}"
| delivered: "broker_life hmac_hex secret b settled \<Longrightarrow> webhook sv ev hmac_hex secret rq b = (b', out, ws) \<Longrightarrow>
    broker_life hmac_hex secret b' (settled \<union> settles ev (hosted_first sv rq) b b' ws)"
| replayed: "broker_life hmac_hex secret b settled \<Longrightarrow> replay_one sv ev row b = (b', ws) \<Longrightarrow>
    broker_life hmac_hex secret b' (settled \<union> settles ev (Some (row_key row)) b b' ws)"
| cut_off: "broker_life hmac_hex secret b settled \<Longrightarrow>
    run_steps delivery_step \<lparr>dy_store = bk_deliveries b, dy_sent = []\<rparr> es = y \<Longrightarrow>
    broker_life hmac_hex secret (b\<lparr>bk_deliveries := dy_store y\<rparr>) (settled \<union> set (dy_sent y))"
| restarted: "broker_life hmac_hex secret b settled \<Longrightarrow>
    broker_life hmac_hex secret (b\<lparr>bk_deliveries := fst (recover now (bk_deliveries b)), bk_reserved := (\<lambda>_. None)\<rparr>) settled"
| elsewhere: "broker_life hmac_hex secret b settled \<Longrightarrow> bk_deliveries b' = bk_deliveries b \<Longrightarrow> broker_life hmac_hex secret b' settled"

definition settled_are_spent :: "broker \<Rightarrow> (string \<times> string) set \<Rightarrow> bool" where
  "settled_are_spent b settled \<longleftrightarrow> store_wf (bk_deliveries b) \<and> (\<forall>k \<in> settled. spent_delivery k (bk_deliveries b))"

lemma settled_later:
  "settled_are_spent b settled \<Longrightarrow> ledger_statements (bk_deliveries b) (bk_deliveries b') \<Longrightarrow> settled_are_spent b' settled"
  using statements_keep unfolding settled_are_spent_def by blast

lemma settled_more: "settled_are_spent b s \<Longrightarrow> (\<And>k. k \<in> t \<Longrightarrow> spent_delivery k (bk_deliveries b)) \<Longrightarrow> settled_are_spent b (s \<union> t)"
  unfolding settled_are_spent_def by blast

lemma may_have_started_request: "may_have_started ev ws \<Longrightarrow> \<not> no_request ws"
  unfolding may_have_started_def no_request_def by fastforce

lemma follows_settles:
  assumes "follows_ledger k b (b', out, ws)" and "k \<in> settles ev (Some k) b b' ws"
  shows "spent_delivery k (bk_deliveries b')"
  using assms may_have_started_request unfolding follows_ledger_def settles_def fst_conv snd_conv by blast

lemma cut_off_spent:
  assumes "store_wf s" and "run_steps delivery_step \<lparr>dy_store = s, dy_sent = []\<rparr> es = y" and "k \<in> set (dy_sent y)"
  shows "spent_delivery k (dy_store y)"
proof -
  have "sent_once \<lparr>dy_store = s, dy_sent = []\<rparr>" using assms(1) by (simp add: sent_once_def)
  then have "sent_once y" using delivery_ledger.inv_run_from assms(2) by blast
  moreover have "count_list (dy_sent y) k \<noteq> 0" using assms(3) by (simp add: count_list_0_iff)
  ultimately show ?thesis unfolding sent_once_def spent_delivery_def by metis
qed

lemma broker_life_settled: "broker_life hmac_hex secret b settled \<Longrightarrow> settled_are_spent b settled"
proof (induction rule: broker_life.induct)
  case (fresh b)
  then show ?case by (simp add: settled_are_spent_def store_wf_def)
next
  case (delivered b settled sv ev rq b' out ws)
  have wf: "store_wf (bk_deliveries b)" using delivered.IH by (simp add: settled_are_spent_def)
  have "settled_are_spent b' settled"
    using webhook_statements [OF wf, of sv ev hmac_hex secret rq] delivered by (auto intro: settled_later)
  moreover have "spent_delivery k (bk_deliveries b')" if k: "k \<in> settles ev (hosted_first sv rq) b b' ws" for k
  proof -
    have h: "hosted_first sv rq = Some k" using k by (simp add: settles_def)
    have "follows_ledger k b (b', out, ws)" using webhook_follows [OF wf h] delivered.hyps(2) by metis
    from follows_settles [OF this] k h show ?thesis by simp
  qed
  ultimately show ?case by (rule settled_more)
next
  case (replayed b settled sv ev row b' ws)
  have wf: "store_wf (bk_deliveries b)" using replayed.IH by (simp add: settled_are_spent_def)
  note f = replay_one_follows [OF wf replayed.hyps(2)]
  have "settled_are_spent b' settled"
    using f replayed.IH unfolding follows_ledger_def fst_conv by (blast intro: settled_later)
  moreover have "spent_delivery k (bk_deliveries b')" if "k \<in> settles ev (Some (row_key row)) b b' ws" for k
    using follows_settles [OF f] that by (auto simp: settles_def)
  ultimately show ?case by (rule settled_more)
next
  case (cut_off b settled es y)
  have wf: "store_wf (bk_deliveries b)" using cut_off.IH by (simp add: settled_are_spent_def)
  have "ledger_statements (bk_deliveries b) (dy_store y)"
    using run_statements [of "\<lparr>dy_store = bk_deliveries b, dy_sent = []\<rparr>" es] cut_off.hyps(2) by simp
  then have "settled_are_spent (b\<lparr>bk_deliveries := dy_store y\<rparr>) settled"
    using settled_later [OF cut_off.IH, of "b\<lparr>bk_deliveries := dy_store y\<rparr>"] by simp
  then show ?case by (rule settled_more) (use cut_off_spent [OF wf cut_off.hyps(2)] in simp)
next
  case (restarted b settled now)
  then show ?case by (intro settled_later [OF restarted.IH]) (simp add: recover_statements)
next
  case (elsewhere b settled b')
  then show ?case by (simp add: settled_are_spent_def)
qed

lemma refused_says_no_run:
  "refused ev (Dispatch_Request repository workflow rf inputs) \<longleftrightarrow> says_no_run (ev_dispatch ev repository workflow rf inputs)"
  by (cases "ev_dispatch ev repository workflow rf inputs" rule: says_no_run.cases) (auto simp: refused_def refusal_state_def)

text \<open>
  C8: a commit runs on one lane. First, over the broker's whole life: once a push's delivery may have started a run on GitHub, or
  has queued one on the device pool while the ledger holds it, no webhook that brings it again and no replay of it queues
  a run or sends a request, whatever came between, restarts and handlings that were cut off included; redelivered
  pushes are those the policy asks GitHub about first. Second, in any one handling of a webhook, pull requests included, or replay,
  a run is queued beside a request only if GitHub refused the request in a way that says no run started. What is left is a
  delivery whose adapter was missing, which the ledger does not hold: \<open>returned_adapter_runs_it_again\<close>.
\<close>

theorem commit_runs_on_one_lane:
  assumes "broker_life hmac_hex secret b settled"
    and "webhook sv ev hmac_hex secret rq b = (b', out, ws) \<and> delivery = hosted_first sv rq \<or>
      replay_one sv ev row b = (b', ws) \<and> delivery = Some (row_key row)"
  shows "(delivery = Some k \<and> k \<in> settled \<longrightarrow> bk_jobs b' = bk_jobs b \<and> no_request ws) \<and>
    (bk_jobs b' \<noteq> bk_jobs b \<and> Dispatch_Request repository workflow rf inputs \<in> set ws \<longrightarrow>
       says_no_run (ev_dispatch ev repository workflow rf inputs))"
proof (intro conjI impI; elim conjE)
  have inv: "store_wf (bk_deliveries b)" "\<And>k. k \<in> settled \<Longrightarrow> spent_delivery k (bk_deliveries b)"
    using broker_life_settled [OF assms(1)] by (simp_all add: settled_are_spent_def)
  assume k: "delivery = Some k" "k \<in> settled"
  note spent = inv(2) [OF k(2)]
  have "b' = b \<and> ws = []" if "webhook sv ev hmac_hex secret rq b = (b', out, ws)" "hosted_first sv rq = Some k"
    using spent_webhook_is_idle [OF that(2) spent that(1)] .
  moreover have "bk_jobs b' = bk_jobs b \<and> no_request ws" if "replay_one sv ev row b = (b', ws)" "row_key row = k"
    using spent_replay_is_idle [OF inv(1) _ that(1)] spent that(2) by simp
  ultimately show "bk_jobs b' = bk_jobs b" "no_request ws" using assms(2) k(1) by auto
next
  assume "bk_jobs b' \<noteq> bk_jobs b" and request: "Dispatch_Request repository workflow rf inputs \<in> set ws"
  then have "list_all (refused ev) ws"
    using one_handling_one_lane [of sv ev hmac_hex secret rq b b' out ws row] assms(2) by blast
  then show "says_no_run (ev_dispatch ev repository workflow rf inputs)"
    using request refused_says_no_run by (auto simp: list_all_iff)
qed


section \<open>What is left\<close>

definition example_hosted_server :: server_config where
  "example_hosted_server = (example_server (example_routing\<lparr>p_minute_budget := None\<rparr>))\<lparr>sv_targets := [example_target\<lparr>t_push_lane := ''hosted''\<rparr>]\<rparr>"

definition without_adapter :: environment where
  "without_adapter = (example_environment Sent)\<lparr>ev_workflow_exists := \<lambda>_ _. Inr False\<rparr>"

lemma example_hosted_simps [simp]:
  "permits_device [example_target\<lparr>t_push_lane := ''hosted''\<rparr>] ''o/r''"
  "push_lane [example_target\<lparr>t_push_lane := ''hosted''\<rparr>] ''o/r'' = Some ''hosted''"
  "check_dispatch [example_target\<lparr>t_push_lane := ''hosted''\<rparr>] ''o/r'' ''ci.yml'' ''main'' = Inr ()"
  using example_check
  by (simp_all add: permits_device_def push_lane_def target_for_def executes_on_device_def dispatches_to_def check_dispatch_def
      example_target_def Let_def)

lemma missing_adapter_queues:
  "\<exists>d out ws. webhook example_hosted_server without_adapter (\<lambda>_ _. ''ab'') (Some ''s'') example_push (example_broker [] []) =
     (example_broker [] []\<lparr>bk_jobs := d\<rparr>, out, ws) \<and> d \<noteq> schema_db"
  using example_slug
  by (simp add: example_hosted_server_def without_adapter_def webhook_def push_webhook_def parse_push_event_def payload_repository_def
      obj_field_def str_field_def true_field_def example_defs(2-8) MAX_BODY_def verify_signature_def sign_def strip_def is_space_def
      push_branch_def Let_def or_blank_def enqueue_direct_def enqueue_def schema_db_def on_jobs_def row_job_def new_row_def
      head_sha_for_def status_write_def dispatch_push_def get_delivery_def first_delivery_def adapter_absent_def)

lemma returned_adapter_sends:
  "\<exists>b' out ws. webhook example_hosted_server (example_environment Sent) (\<lambda>_ _. ''ab'') (Some ''s'') example_push
       (example_broker [] []\<lparr>bk_jobs := d\<rparr>) = (b', out, ws) \<and> \<not> no_request ws"
  using example_slug
  by (simp add: example_hosted_server_def webhook_def push_webhook_def parse_push_event_def payload_repository_def
      obj_field_def str_field_def true_field_def example_defs(2-8) MAX_BODY_def verify_signature_def sign_def strip_def is_space_def
      push_branch_def Let_def or_blank_def dispatch_push_def get_delivery_def first_delivery_def dispatch_decision_def choose_route_def
      with_reading_def choose_held_def reserve_metered_def choose_lane_def push_request_def dispatch_decided_def register_def
      dispatch_delivery_def dispatch_record_def claim_delivery_def rowcount_def in_state_def dl_key_def conclude_dispatch_def
      finish_quietly_def finish_def update_where_def attempt_row_def conclude_push_def decision_inputs_def with_writes_def
      delivery_request_def hosted_def lookup_by_def split: dispatch_answer.split)

text \<open>
  A delivery whose adapter is missing is queued on the device pool and never stored; brought again once the adapter is
  back, it is sent to GitHub as well, and its commit runs on both lanes.
\<close>

lemma returned_adapter_runs_it_again:
  "\<exists>d out ws b' out' ws'.
     webhook example_hosted_server without_adapter (\<lambda>_ _. ''ab'') (Some ''s'') example_push (example_broker [] []) =
       (example_broker [] []\<lparr>bk_jobs := d\<rparr>, out, ws) \<and> d \<noteq> schema_db \<and>
     webhook example_hosted_server (example_environment Sent) (\<lambda>_ _. ''ab'') (Some ''s'') example_push (example_broker [] []\<lparr>bk_jobs := d\<rparr>) =
       (b', out', ws') \<and> \<not> no_request ws'"
  using missing_adapter_queues returned_adapter_sends by blast

section \<open>A concrete life\<close>

theorem commit_runs_on_one_lane_witness:
  "let b = (example_broker [] [])\<lparr>bk_deliveries := dy_store (run_steps delivery_step \<lparr>dy_store = [], dy_sent = []\<rparr>
         [Register_Delivery ''o/r'' ''d1'' ''f'' ''ci.yml'' ''main'' [] ''c0ffee'' 1, Begin_Attempt ''o/r'' ''d1'' 2])\<rparr>;
       b = b\<lparr>bk_deliveries := fst (recover 3 (bk_deliveries b)), bk_reserved := (\<lambda>_. None)\<rparr>;
       (b', ws) = replay_one (example_server example_routing) (example_environment Sent) example_delivery_row b
   in bk_jobs b' = bk_jobs b \<and> no_request ws"
proof -
  let ?es = "[Register_Delivery ''o/r'' ''d1'' ''f'' ''ci.yml'' ''main'' [] ''c0ffee'' 1, Begin_Attempt ''o/r'' ''d1'' 2]"
  define y where "y = run_steps delivery_step \<lparr>dy_store = [], dy_sent = []\<rparr> ?es"
  define b where "b = (example_broker [] [])\<lparr>bk_deliveries := dy_store y\<rparr>"
  define b1 where "b1 = b\<lparr>bk_deliveries := fst (recover 3 (bk_deliveries b)), bk_reserved := (\<lambda>_. None)\<rparr>"
  have sent: "(''o/r'', ''d1'') \<in> set (dy_sent y)"
    by (simp add: y_def register_def Let_def claim_delivery_def rowcount_def in_state_def dl_key_def)
  have "broker_life (\<lambda>_ _. []) None (example_broker [] []) {}" by (rule broker_life.fresh) (simp add: example_broker_def)
  from broker_life.cut_off [OF this, of ?es y] have "broker_life (\<lambda>_ _. []) None b ({} \<union> set (dy_sent y))"
    by (simp add: y_def b_def example_broker_def)
  from broker_life.restarted [OF this, of 3] have life: "broker_life (\<lambda>_ _. []) None b1 ({} \<union> set (dy_sent y))"
    unfolding b1_def .
  obtain b' ws where r: "replay_one (example_server example_routing) (example_environment Sent) example_delivery_row b1 = (b', ws)"
    by (cases "replay_one (example_server example_routing) (example_environment Sent) example_delivery_row b1")
  have "row_key example_delivery_row = (''o/r'', ''d1'')" by (simp add: row_key_def example_delivery_row_def)
  then have "bk_jobs b' = bk_jobs b1 \<and> no_request ws"
    using commit_runs_on_one_lane [OF life disjI2 [OF conjI [OF r refl]]] sent by blast
  then show ?thesis using r unfolding Let_def y_def [symmetric] b_def [symmetric] b1_def [symmetric] by simp
qed

end
