(* ===== verification/Device_Api.thy ===== *)
theory Device_Api
  imports Verdict_Delivery
begin

text \<open>
  Which device a credential speaks for (\<open>device_auth.py\<close>), the heartbeat a device sends and the
  routing of the device-facing job paths (\<open>jobapi.py\<close>), over the queue and the endpoints of
  \<open>Status_Drain\<close>. SHA-256 and the JSON decoder are parameters. A request body arrives as the fields
  the handlers read from it, or as the exception reading it raised. An exception that no handler
  catches is answered here by 500; the server drops such a request.
\<close>

section \<open>Credentials\<close>

type_synonym token_map = "(string \<times> string) list"

definition TOKENS_SHAPE :: string where
  "TOKENS_SHAPE = ''CINDRAL_AGENT_TOKENS must be a JSON object of device to token''"

definition parse_tokens :: "(string \<Rightarrow> json option) \<Rightarrow> (json \<Rightarrow> string) \<Rightarrow> string option \<Rightarrow> token_map option result" where
  "parse_tokens loads shown raw =
     (case raw of
        None \<Rightarrow> Inr None
      | Some s \<Rightarrow>
          if strip s = [] then Inr None
          else (case loads s of
                  Some (JObj kvs) \<Rightarrow>
                    if kvs = [] then Inl (ValueError TOKENS_SHAPE)
                    else (let tokens = map (\<lambda>(name, v). (name, py_str shown v)) kvs
                          in if list_ex (\<lambda>(name, v). name = [] \<or> v = []) tokens
                             then Inl (ValueError ''every device in CINDRAL_AGENT_TOKENS needs a name and a token'')
                             else Inr (Some tokens))
                | _ \<Rightarrow> Inl (ValueError TOKENS_SHAPE)))"

definition token_index :: "(string \<Rightarrow> string) \<Rightarrow> token_map \<Rightarrow> (string \<times> string) list result" where
  "token_index sha256 tokens =
     (let built = map (\<lambda>(name, token). (sha256 token, name)) tokens
      in if card (fst ` set built) \<noteq> length tokens
         then Inl (ValueError ''every device in CINDRAL_AGENT_TOKENS must have a distinct token'')
         else Inr built)"

definition device_for :: "(string \<Rightarrow> string) \<Rightarrow> string \<Rightarrow> token_map \<Rightarrow> string option result" where
  "device_for sha256 presented tokens =
     rbind (token_index sha256 tokens) (\<lambda>built. Inr (map_of built (sha256 presented)))"

record gate =
  g_agent_tokens :: "token_map option"
  g_agent_token :: "string option"
  g_pool_token :: "string option"

text \<open>The token a header presents.\<close>

definition bearer :: "string \<Rightarrow> string option" where
  "bearer header = (if prefix ''Bearer '' header then Some (strip (drop 7 header)) else None)"

definition has_map :: "gate \<Rightarrow> bool" where
  "has_map g \<longleftrightarrow> (case g_agent_tokens g of None \<Rightarrow> False | Some tokens \<Rightarrow> tokens \<noteq> [])"

definition presented_agent_device :: "(string \<Rightarrow> string) \<Rightarrow> gate \<Rightarrow> string \<Rightarrow> string option result" where
  "presented_agent_device sha256 g header =
     (if \<not> has_map g then Inr None
      else case bearer header of
             None \<Rightarrow> Inr None
           | Some presented \<Rightarrow> device_for sha256 presented (the (g_agent_tokens g)))"

definition token_authorized :: "string option \<Rightarrow> string \<Rightarrow> bool" where
  "token_authorized expected header \<longleftrightarrow>
     (case expected of
        None \<Rightarrow> False
      | Some t \<Rightarrow> t \<noteq> [] \<and> bearer header = Some t)"

definition agent_authorized_as :: "(string \<Rightarrow> string) \<Rightarrow> gate \<Rightarrow> string \<Rightarrow> string \<Rightarrow> bool result" where
  "agent_authorized_as sha256 g header device =
     (if \<not> has_map g then Inr (token_authorized (g_agent_token g) header)
      else rbind (presented_agent_device sha256 g header) (\<lambda>p. Inr (p = Some device)))"

definition agent_authorized :: "(string \<Rightarrow> string) \<Rightarrow> gate \<Rightarrow> string \<Rightarrow> bool result" where
  "agent_authorized sha256 g header =
     (if has_map g then rbind (presented_agent_device sha256 g header) (\<lambda>p. Inr (p \<noteq> None))
      else Inr (token_authorized (g_agent_token g) header))"

definition pool_authorized :: "gate \<Rightarrow> string \<Rightarrow> bool" where
  "pool_authorized g header = token_authorized (g_pool_token g) header"

definition read_authorized :: "(string \<Rightarrow> string) \<Rightarrow> gate \<Rightarrow> string \<Rightarrow> bool result" where
  "read_authorized sha256 g header =
     rbind (agent_authorized sha256 g header) (\<lambda>ok. Inr (ok \<or> pool_authorized g header))"

section \<open>Heartbeats\<close>

definition MAX_DEVICE_CHARS :: nat where "MAX_DEVICE_CHARS = 200"
definition MAX_LABELS :: nat where "MAX_LABELS = 64"
definition MAX_LABEL_CHARS :: nat where "MAX_LABEL_CHARS = 200"
definition MAX_CONCURRENCY :: int where "MAX_CONCURRENCY = 1024"

record heartbeat =
  hb_device :: string
  hb_labels :: "string list"
  hb_max_concurrency :: int
  hb_build :: "(string \<times> string) list"

fun strings_of :: "json list \<Rightarrow> string list option" where
  "strings_of [] = Some []"
| "strings_of (JStr s # vs) = map_option ((#) s) (strings_of vs)"
| "strings_of (_ # vs) = None"

definition heartbeat_build :: "jobj \<Rightarrow> (string \<times> string) list result" where
  "heartbeat_build payload =
     (case map_of payload ''build'' of
        None \<Rightarrow> Inr []
      | Some (JObj kvs) \<Rightarrow>
          (case strings_of (map snd kvs) of
             None \<Rightarrow> Inl (ValueError ''build must be an object of strings'')
           | Some vs \<Rightarrow>
               Inr (concat (map (\<lambda>key. case map_of (zip (map fst kvs) vs) key of None \<Rightarrow> [] | Some v \<Rightarrow> [(key, v)])
                      [''version'', ''commit'', ''built_at''])))
      | Some _ \<Rightarrow> Inl (ValueError ''build must be an object of strings''))"

definition heartbeat_labels :: "jobj \<Rightarrow> string list result" where
  "heartbeat_labels payload =
     (case map_of payload ''labels'' of
        Some (JList vs) \<Rightarrow>
          (case strings_of vs of
             None \<Rightarrow> Inl (ValueError ''labels must be an array of strings'')
           | Some labels \<Rightarrow>
               if length labels > MAX_LABELS then Inl (ValueError ''labels must hold at most 64 entries'')
               else if list_ex (\<lambda>l. strip l = [] \<or> length l > MAX_LABEL_CHARS) labels
               then Inl (ValueError ''each label must be 1 to 200 characters'')
               else Inr labels)
      | _ \<Rightarrow> Inl (ValueError ''labels must be an array of strings''))"

definition heartbeat_concurrency :: "jobj \<Rightarrow> int result" where
  "heartbeat_concurrency payload =
     (case map_of payload ''max_concurrency'' of
        Some (JInt n) \<Rightarrow>
          if 1 \<le> n \<and> n \<le> MAX_CONCURRENCY then Inr n
          else Inl (ValueError ''max_concurrency must be between 1 and 1024'')
      | _ \<Rightarrow> Inl (ValueError ''max_concurrency must be an integer''))"

definition parse_heartbeat :: "jobj \<Rightarrow> heartbeat result" where
  "parse_heartbeat payload =
     (case map_of payload ''device'' of
        Some (JStr device) \<Rightarrow>
          if strip device = [] then Inl (ValueError ''device must be a non-empty string'')
          else if length device > MAX_DEVICE_CHARS then Inl (ValueError ''device must be at most 200 characters'')
          else rbind (heartbeat_build payload) (\<lambda>build.
                 rbind (heartbeat_labels payload) (\<lambda>labels.
                   rbind (heartbeat_concurrency payload) (\<lambda>n.
                     Inr \<lparr>hb_device = device, hb_labels = labels, hb_max_concurrency = n, hb_build = build\<rparr>)))
      | _ \<Rightarrow> Inl (ValueError ''device must be a non-empty string''))"

definition agents_endpoint :: "(string \<Rightarrow> string) \<Rightarrow> gate \<Rightarrow> string \<Rightarrow> jobj result \<Rightarrow> real \<Rightarrow> db \<Rightarrow> db \<times> real response" where
  "agents_endpoint sha256 g header body now d =
     (case agent_authorized sha256 g header of
        Inl _ \<Rightarrow> (d, Refused 500 [])
      | Inr False \<Rightarrow> (d, Refused 401 ''agent requests require a bearer token'')
      | Inr True \<Rightarrow>
          (case rbind body parse_heartbeat of
             Inl e \<Rightarrow> (d, error_response e)
           | Inr hb \<Rightarrow>
               (case agent_authorized_as sha256 g header (hb_device hb) of
                  Inl _ \<Rightarrow> (d, Refused 500 [])
                | Inr False \<Rightarrow> (d, token_refusal)
                | Inr True \<Rightarrow>
                    (let (d', seen) = record_heartbeat (hb_device hb) (hb_labels hb) (hb_max_concurrency hb) now (hb_build hb) d
                     in (d', Sent 200 seen)))))"

section \<open>Job paths\<close>

record agent_server =
  as_gate :: gate
  as_publish :: "job \<Rightarrow> string \<Rightarrow> string \<Rightarrow> bool"
  as_check :: "(job \<Rightarrow> bool) option"
  as_github :: "(job \<Rightarrow> string \<Rightarrow> string \<Rightarrow> bool) option"
  as_cap :: "int option"

record agent_request =
  ar_method :: string
  ar_path :: string
  ar_authorization :: string

record agent_body =
  ab_device :: string
  ab_labels :: "string list"
  ab_lease :: int
  ab_error :: string
  ab_exit_code :: "int option"
  ab_log :: string
  ab_steps :: json

datatype job_answer =
    Claimed "job option"
  | Renewed string
  | Reported "job option"
  | Job_Status job
  | Job_Log string
  | To_Artifact_Upload string
  | To_Artifact_Download string

fun map_response :: "('a \<Rightarrow> 'b) \<Rightarrow> 'a response \<Rightarrow> 'b response" where
  "map_response f (Sent c x) = Sent c (f x)"
| "map_response f (Refused c m) = Refused c m"

definition clean_path :: "string \<Rightarrow> string" where
  "clean_path path = rev (dropWhile (\<lambda>c. c = CHR ''/'') (rev (before CHR ''?'' path)))"

definition mutating :: "string \<Rightarrow> string \<Rightarrow> bool" where
  "mutating method path \<longleftrightarrow>
     list_ex (\<lambda>s. suffix s path) [''/claim'', ''/renew'', ''/report''] \<or> suffix ''/artifacts'' path \<and> method \<noteq> ''GET''"

definition JOBS_PATH :: string where "JOBS_PATH = ''/v1/jobs/''"

text \<open>\<open>partition("/")\<close> of what follows the prefix.\<close>

definition path_job :: "string \<Rightarrow> string" where
  "path_job path = before CHR ''/'' (drop (length JOBS_PATH) path)"

definition path_action :: "string \<Rightarrow> string" where
  "path_action path = drop (Suc (length (path_job path))) (drop (length JOBS_PATH) path)"

definition speaks_for :: "(string \<Rightarrow> string) \<Rightarrow> gate \<Rightarrow> string \<Rightarrow> string \<Rightarrow> bool" where
  "speaks_for sha256 g header device \<longleftrightarrow> agent_authorized_as sha256 g header device = Inr True"

definition with_body :: "db \<Rightarrow> agent_body result \<Rightarrow> (agent_body \<Rightarrow> db \<times> posted list \<times> job_answer response) \<Rightarrow>
    db \<times> posted list \<times> job_answer response" where
  "with_body d body f = (case body of Inl e \<Rightarrow> (d, [], error_response e) | Inr b \<Rightarrow> f b)"

definition claim_path ::
  "(string \<Rightarrow> string) \<Rightarrow> agent_server \<Rightarrow> string \<Rightarrow> agent_body result \<Rightarrow> real \<Rightarrow> real \<Rightarrow> db \<Rightarrow> db \<times> posted list \<times> job_answer response" where
  "claim_path sha256 sv header body released_at now d =
     with_body d body (\<lambda>b.
       let (d', posts, r) = claim_endpoint (as_publish sv) (as_check sv) (speaks_for sha256 (as_gate sv) header)
             (ab_device b) (ab_labels b) (ab_lease b) (as_cap sv) released_at now d
       in (d', posts, map_response Claimed r))"

definition renew_path ::
  "(string \<Rightarrow> string) \<Rightarrow> agent_server \<Rightarrow> string \<Rightarrow> string \<Rightarrow> agent_body result \<Rightarrow> real \<Rightarrow> db \<Rightarrow> db \<times> posted list \<times> job_answer response" where
  "renew_path sha256 sv header i body now d =
     with_body d body (\<lambda>b.
       let (d', r) = renew_endpoint (speaks_for sha256 (as_gate sv) header) i (ab_device b) (ab_lease b) now d
       in (d', [], map_response Renewed r))"

definition report_path ::
  "(string \<Rightarrow> string) \<Rightarrow> agent_server \<Rightarrow> string \<Rightarrow> string \<Rightarrow> agent_body result \<Rightarrow> real \<Rightarrow> real \<Rightarrow> db \<Rightarrow>
   db \<times> posted list \<times> job_answer response" where
  "report_path sha256 sv header i body checked_at now d =
     (if get d i = None then (d, [], Refused 404 ''unknown job'')
      else with_body d body (\<lambda>b.
        let (d', posts, r) = report_endpoint (as_github sv) (speaks_for sha256 (as_gate sv) header) i (ab_device b)
              (ab_error b) (ab_exit_code b) (ab_log b) (ab_steps b) checked_at now d
        in (d', posts, map_response Reported r)))"

definition job_route ::
  "(string \<Rightarrow> string) \<Rightarrow> agent_server \<Rightarrow> agent_request \<Rightarrow> string \<Rightarrow> agent_body result \<Rightarrow> real \<Rightarrow> real \<Rightarrow> db \<Rightarrow>
   db \<times> posted list \<times> job_answer response" where
  "job_route sha256 sv rq path body released_at now d =
     (let method = ar_method rq; header = ar_authorization rq; i = path_job path; action = path_action path
      in if path = ''/v1/jobs/claim''
         then (if method \<noteq> ''POST'' then (d, [], Refused 405 ''claim requires POST'')
               else claim_path sha256 sv header body released_at now d)
         else if \<not> prefix JOBS_PATH path then (d, [], Refused 404 ''not found'')
         else if i = [] then (d, [], Refused 404 ''not found'')
         else if action \<in> {''renew'', ''report''}
         then (if method \<noteq> ''POST'' then (d, [], Refused 405 (action @ '' requires POST''))
               else if action = ''renew'' then renew_path sha256 sv header i body now d
               else report_path sha256 sv header i body released_at now d)
         else if action = []
         then (if method \<noteq> ''GET'' then (d, [], Refused 405 ''job status requires GET'')
               else (case get d i of None \<Rightarrow> (d, [], Refused 404 ''unknown job'') | Some j \<Rightarrow> (d, [], Sent 200 (Job_Status j))))
         else if action = ''log''
         then (if method \<noteq> ''GET'' then (d, [], Refused 405 ''job log requires GET'')
               else (case get d i of None \<Rightarrow> (d, [], Refused 404 ''unknown job'') | Some j \<Rightarrow> (d, [], Sent 200 (Job_Log (job_log j)))))
         else if action = ''artifacts''
         then (if method = ''GET'' then (d, [], Sent 200 (To_Artifact_Download i))
               else if method = ''POST'' then (d, [], Sent 200 (To_Artifact_Upload i))
               else (d, [], Refused 405 ''job artifacts requires GET or POST''))
         else (d, [], Refused 404 ''not found''))"

definition jobs_endpoint ::
  "(string \<Rightarrow> string) \<Rightarrow> agent_server \<Rightarrow> agent_request \<Rightarrow> agent_body result \<Rightarrow> real \<Rightarrow> real \<Rightarrow> db \<Rightarrow>
   db \<times> posted list \<times> job_answer response" where
  "jobs_endpoint sha256 sv rq body released_at now d =
     (let path = clean_path (ar_path rq);
          authorized = (if mutating (ar_method rq) path then agent_authorized sha256 (as_gate sv) (ar_authorization rq)
                        else read_authorized sha256 (as_gate sv) (ar_authorization rq))
      in case authorized of
           Inl _ \<Rightarrow> (d, [], Refused 500 [])
         | Inr False \<Rightarrow> (d, [], Refused 401 ''job requests require a bearer token'')
         | Inr True \<Rightarrow> job_route sha256 sv rq path body released_at now d)"

section \<open>Credentials name one device\<close>

lemma token_index_Inr:
  "token_index sha256 tokens = Inr built \<longleftrightarrow>
     built = map (\<lambda>(name, token). (sha256 token, name)) tokens \<and> distinct (map (sha256 \<circ> snd) tokens)"
proof -
  have keys: "map fst (map (\<lambda>(name, token). (sha256 token, name)) tokens) = map (sha256 \<circ> snd) tokens"
    by (induction tokens) auto
  have "card (set (map (sha256 \<circ> snd) tokens)) = length tokens \<longleftrightarrow> distinct (map (sha256 \<circ> snd) tokens)"
    using card_distinct distinct_card length_map by metis
  then show ?thesis unfolding token_index_def Let_def keys [symmetric] by (auto simp flip: set_map)
qed

lemma device_for_Some:
  assumes "device_for sha256 presented tokens = Inr (Some device)"
  obtains token where "(device, token) \<in> set tokens" "sha256 token = sha256 presented"
  using assms by (fastforce simp: device_for_def rbind_Inr_conv token_index_Inr dest: map_of_SomeD)

lemma speaks_for_map:
  assumes "has_map g" and "g_agent_tokens g = Some tokens" and "speaks_for sha256 g header device"
  obtains presented where "bearer header = Some presented" "device_for sha256 presented tokens = Inr (Some device)"
  using assms by (auto simp: speaks_for_def agent_authorized_as_def presented_agent_device_def rbind_Inr_conv split: option.splits)

lemma speaks_for_one:
  "has_map g \<Longrightarrow> speaks_for sha256 g header device \<Longrightarrow> speaks_for sha256 g header other \<Longrightarrow> other = device"
  by (auto simp: speaks_for_def agent_authorized_as_def rbind_Inr_conv)

section \<open>What a request may change\<close>

lemma path_action_suffix:
  assumes "prefix JOBS_PATH path" and "path_action path = action" and "action \<noteq> []"
  shows "suffix (CHR ''/'' # action) path"
proof -
  obtain rest where path: "path = JOBS_PATH @ rest" using assms(1) by (auto simp: prefix_def)
  define i where "i = before CHR ''/'' rest"
  have action: "action = drop (Suc (length i)) rest"
    using assms(2) path by (simp add: path_action_def path_job_def i_def)
  have split: "rest = i @ dropWhile (\<lambda>x. x \<noteq> CHR ''/'') rest" by (simp add: i_def before_def)
  obtain c tl where tl: "dropWhile (\<lambda>x. x \<noteq> CHR ''/'') rest = c # tl"
    using split action assms(3) by (cases "dropWhile (\<lambda>x. x \<noteq> CHR ''/'') rest") auto
  then have "c = CHR ''/''" by (simp add: dropWhile_eq_Cons_conv)
  moreover have "action = tl" using split action tl by (metis append_eq_conv_conj drop_Suc tl_drop list.sel(3))
  ultimately show ?thesis using split tl path by (metis append.assoc suffixI)
qed

lemma reading_changes_nothing:
  assumes "\<not> mutating (ar_method rq) path"
  shows "fst (job_route sha256 sv rq path body released_at now d) = d \<and> fst (snd (job_route sha256 sv rq path body released_at now d)) = []"
proof -
  have "path \<noteq> ''/v1/jobs/claim''" using assms by (auto simp: mutating_def suffix_def)
  moreover have "path_action path \<notin> {''renew'', ''report''}" if "prefix JOBS_PATH path"
    using assms path_action_suffix [OF that refl] by (auto simp: mutating_def)
  ultimately show ?thesis by (auto simp: job_route_def Let_def split: option.split)
qed

text \<open>
  C12: only a device credential changes the queue. A request on the job paths that changes the database
  in any way, or posts any commit status, carries a credential the broker takes for a device: the
  read-only pool token changes nothing whatever the method, the path and the body.
\<close>

theorem queue_change_needs_device_credential:
  assumes "jobs_endpoint sha256 sv rq body released_at now d = (d', posts, r)" and "d' \<noteq> d \<or> posts \<noteq> []"
  shows "agent_authorized sha256 (as_gate sv) (ar_authorization rq) = Inr True"
proof (cases "mutating (ar_method rq) (clean_path (ar_path rq))")
  case True
  then show ?thesis using assms
    by (auto simp: jobs_endpoint_def Let_def split: sum.splits bool.splits)
next
  case False
  then show ?thesis using assms reading_changes_nothing [OF False, of sha256 sv body released_at now d]
    by (auto simp: jobs_endpoint_def Let_def split: sum.splits bool.splits)
qed

text \<open>
  What shows that a handler did its work: the queue is no longer what it was, a status went out, or it said yes.
\<close>

definition worked :: "db \<Rightarrow> db \<Rightarrow> posted list \<Rightarrow> 'a response \<Rightarrow> bool" where
  "worked d d' posts r \<longleftrightarrow> d' \<noteq> d \<or> posts \<noteq> [] \<or> (\<exists>c x. r = Sent c x)"

lemma error_response_not_Sent [simp]: "error_response e \<noteq> Sent c x"
  by (cases e) auto

lemma map_response_Sent: "map_response f r = Sent c y \<longleftrightarrow> (\<exists>x. r = Sent c x \<and> y = f x)"
  by (cases r) auto

lemma update_where_none: "\<not> list_ex P xs \<Longrightarrow> update_where P f xs = xs"
  by (induction xs) (auto simp: update_where_def)

lemma renew_endpoint_worked:
  assumes "renew_endpoint speaks i device lease now d = (d', r)" and "worked d d' [] r"
  shows "speaks device \<and> holds_lease i device now d"
proof -
  have "speaks device" using assms by (auto simp: renew_endpoint_def worked_def token_refusal_def split: if_splits)
  moreover have "holds_lease i device now d"
  proof (rule ccontr)
    assume none: "\<not> holds_lease i device now d"
    then have "rowcount (leased_to d i device now) (jobs d) = 0"
      by (simp add: holds_lease_def rowcount_def list_ex_iff filter_empty_conv)
    moreover have "on_jobs (update_where (leased_to d i device now) g) d = d" for g
      using none by (simp add: on_jobs_def holds_lease_def update_where_none)
    ultimately show False using assms \<open>speaks device\<close>
      by (auto simp: renew_endpoint_def renew_def worked_def lease_refusal_def split: if_splits)
  qed
  ultimately show ?thesis ..
qed

lemma report_endpoint_worked:
  assumes "report_endpoint github speaks i device err reported log_text steps checked_at now d = (d', posts, r)" and "worked d d' posts r"
  shows "speaks device \<and> holds_lease i device checked_at d"
  using assms by (auto simp: report_endpoint_def Let_def worked_def lease_refusal_def token_refusal_def split: option.splits if_splits)

lemma renew_path_worked:
  assumes "renew_path sha256 sv header i body now d = (d', posts, r)" and "worked d d' posts r"
  shows "\<exists>b. body = Inr b \<and> speaks_for sha256 (as_gate sv) header (ab_device b) \<and> holds_lease i (ab_device b) now d"
proof (cases body)
  case (Inl e)
  then show ?thesis using assms by (auto simp: renew_path_def with_body_def worked_def)
next
  case (Inr b)
  obtain r' where e: "renew_endpoint (speaks_for sha256 (as_gate sv) header) i (ab_device b) (ab_lease b) now d = (d', r')"
      "posts = []" "r = map_response Renewed r'"
    using assms(1) Inr by (auto simp: renew_path_def with_body_def split: prod.splits)
  have "worked d d' [] r'" using assms(2) e(2,3) by (auto simp: worked_def map_response_Sent)
  from renew_endpoint_worked [OF e(1) this] Inr show ?thesis by blast
qed

lemma report_path_worked:
  assumes "report_path sha256 sv header i body checked_at now d = (d', posts, r)" and "worked d d' posts r"
  shows "\<exists>b. body = Inr b \<and> speaks_for sha256 (as_gate sv) header (ab_device b) \<and> holds_lease i (ab_device b) checked_at d"
proof (cases "get d i = None")
  case True
  then show ?thesis using assms by (auto simp: report_path_def worked_def)
next
  case False
  show ?thesis
  proof (cases body)
    case (Inl e)
    then show ?thesis using False assms by (auto simp: report_path_def with_body_def worked_def)
  next
    case (Inr b)
    obtain r' where e: "report_endpoint (as_github sv) (speaks_for sha256 (as_gate sv) header) i (ab_device b)
          (ab_error b) (ab_exit_code b) (ab_log b) (ab_steps b) checked_at now d = (d', posts, r')"
        "r = map_response Reported r'"
      using assms(1) Inr False by (auto simp: report_path_def with_body_def split: prod.splits)
    have "worked d d' posts r'" using assms(2) e(2) by (auto simp: worked_def map_response_Sent)
    from report_endpoint_worked [OF e(1) this] Inr show ?thesis by blast
  qed
qed

text \<open>On a path that names one run, only these two handlers do more than read.\<close>

lemma job_route_worked:
  assumes "job_route sha256 sv rq path body released_at now d = (d', posts, r)"
    and "d' \<noteq> d \<or> posts \<noteq> [] \<or> (\<exists>i. r = Sent 200 (Renewed i)) \<or> (\<exists>j. r = Sent 200 (Reported j))" and "path \<noteq> ''/v1/jobs/claim''"
  shows "\<exists>b t. body = Inr b \<and> speaks_for sha256 (as_gate sv) (ar_authorization rq) (ab_device b) \<and> t \<in> {released_at, now} \<and>
    holds_lease (path_job path) (ab_device b) t d"
proof -
  have "worked d d' posts r" using assms(2) by (auto simp: worked_def)
  moreover have "renew_path sha256 sv (ar_authorization rq) (path_job path) body now d = (d', posts, r) \<or>
      report_path sha256 sv (ar_authorization rq) (path_job path) body released_at now d = (d', posts, r)"
    using assms by (auto simp: job_route_def Let_def split: if_splits option.splits)
  ultimately have "\<exists>t b. t \<in> {released_at, now} \<and> body = Inr b \<and> speaks_for sha256 (as_gate sv) (ar_authorization rq) (ab_device b) \<and>
      holds_lease (path_job path) (ab_device b) t d"
    using renew_path_worked report_path_worked by (metis insertCI)
  then show ?thesis by blast
qed

text \<open>
  C11: a verdict needs the holder's own token. When the broker has a token for each device, any request on
  the path of one run that changes the queue in any way, posts a status, or is told that it renewed or reported,
  names in its body the device that holds the run's lease, at one of the two instants the handler looked, and
  presented the very token configured for that device; with that token the same request could have named no
  other device. The hash is taken to be free of collisions.
\<close>

theorem verdict_needs_the_holders_token:
  assumes "inj sha256" and "has_map (as_gate sv)"
    and "jobs_endpoint sha256 sv rq body released_at now d = (d', posts, r)" and "clean_path (ar_path rq) \<noteq> ''/v1/jobs/claim''"
    and "d' \<noteq> d \<or> posts \<noteq> [] \<or> (\<exists>i. r = Sent 200 (Renewed i)) \<or> (\<exists>j. r = Sent 200 (Reported j))"
  shows "\<exists>b token t.
     body = Inr b \<and> (ab_device b, token) \<in> set (the (g_agent_tokens (as_gate sv))) \<and> bearer (ar_authorization rq) = Some token \<and>
     t \<in> {released_at, now} \<and> holds_lease (path_job (clean_path (ar_path rq))) (ab_device b) t d \<and>
     (\<forall>other. speaks_for sha256 (as_gate sv) (ar_authorization rq) other \<longrightarrow> other = ab_device b)"
proof -
  have route: "job_route sha256 sv rq (clean_path (ar_path rq)) body released_at now d = (d', posts, r)"
    using assms(3,5) by (auto simp: jobs_endpoint_def Let_def split: sum.splits bool.splits)
  obtain b t where dev: "body = Inr b" "speaks_for sha256 (as_gate sv) (ar_authorization rq) (ab_device b)" "t \<in> {released_at, now}"
      "holds_lease (path_job (clean_path (ar_path rq))) (ab_device b) t d"
    using job_route_worked [OF route assms(5,4)] by blast
  obtain tokens where tokens: "g_agent_tokens (as_gate sv) = Some tokens" using assms(2) by (auto simp: has_map_def split: option.splits)
  obtain presented where p: "bearer (ar_authorization rq) = Some presented" "device_for sha256 presented tokens = Inr (Some (ab_device b))"
    by (rule speaks_for_map [OF assms(2) tokens dev(2)])
  obtain token where token: "(ab_device b, token) \<in> set tokens" "sha256 token = sha256 presented" by (rule device_for_Some [OF p(2)])
  have "token = presented" using injD [OF assms(1) token(2)] .
  then have "(ab_device b, presented) \<in> set (the (g_agent_tokens (as_gate sv)))" using token(1) tokens by simp
  with p(1) dev(1,3,4) speaks_for_one [OF assms(2) dev(2)] show ?thesis by blast
qed

section \<open>A concrete broker\<close>

definition example_gate :: gate where
  "example_gate = \<lparr>g_agent_tokens = Some [(''dev'', ''t1''), (''other'', ''t2'')], g_agent_token = None, g_pool_token = Some ''pool''\<rparr>"

definition example_agent_server :: agent_server where
  "example_agent_server = \<lparr>as_gate = example_gate, as_publish = (\<lambda>_ _ _. True), as_check = None, as_github = None, as_cap = None\<rparr>"

definition example_renew :: agent_request where
  "example_renew = \<lparr>ar_method = ''POST'', ar_path = ''/v1/jobs/j1/renew'', ar_authorization = ''Bearer t1''\<rparr>"

definition example_body :: agent_body where
  "example_body = \<lparr>ab_device = ''dev'', ab_labels = [], ab_lease = 300, ab_error = [], ab_exit_code = None, ab_log = [], ab_steps = JNull\<rparr>"

lemma example_gate_passes:
  "has_map example_gate" "agent_authorized id example_gate ''Bearer t1'' = Inr True" "speaks_for id example_gate ''Bearer t1'' ''dev''"
  "clean_path ''/v1/jobs/j1/renew'' = ''/v1/jobs/j1/renew''" "mutating ''POST'' ''/v1/jobs/j1/renew''"
  "path_job ''/v1/jobs/j1/renew'' = ''j1''" "path_action ''/v1/jobs/j1/renew'' = ''renew''" "prefix JOBS_PATH ''/v1/jobs/j1/renew''"
  by (code_simp, code_simp, code_simp, code_simp, code_simp, code_simp, code_simp, code_simp)

lemma example_renewed:
  "\<exists>d'. d' \<noteq> example_leased \<and>
     jobs_endpoint id example_agent_server example_renew (Inr example_body) 400 400 example_leased = (d', [], Sent 200 (Renewed ''j1''))"
proof -
  let ?r = "take_lease ''dev'' 500 example_row"
  have row: "leased_to example_leased ''j1'' ''dev'' 400 ?r"
    by (simp add: leased_to_def spent_lease_def take_lease_def example_row_def new_row_def)
  have "renew ''j1'' ''dev'' 300 400 example_leased = Inr (example_leased\<lparr>jobs := [set_lease 700 ?r]\<rparr>, True)"
    using row by (simp add: renew_def on_jobs_def update_where_def rowcount_def example_leased_eq)
  moreover have "example_leased\<lparr>jobs := [set_lease 700 ?r]\<rparr> \<noteq> example_leased"
    by (auto simp: example_leased_eq example_queue_eq set_lease_def take_lease_def dest!: arg_cong [of _ _ "\<lambda>d. map r_lease_expires (jobs d)"])
  ultimately show ?thesis
    by (simp add: jobs_endpoint_def Let_def example_renew_def example_agent_server_def example_gate_passes job_route_def renew_path_def
        with_body_def renew_endpoint_def example_body_def)
qed

theorem queue_change_needs_device_credential_witness:
  "agent_authorized id (as_gate example_agent_server) (ar_authorization example_renew) = Inr True"
  using example_renewed queue_change_needs_device_credential by blast

theorem verdict_needs_the_holders_token_witness:
  "\<exists>b token t. Inr example_body = (Inr b :: agent_body result) \<and> (ab_device b, token) \<in> set [(''dev'', ''t1''), (''other'', ''t2'')] \<and>
     bearer ''Bearer t1'' = Some token \<and> holds_lease ''j1'' (ab_device b) t example_leased"
proof -
  obtain d' where run: "d' \<noteq> example_leased"
      "jobs_endpoint id example_agent_server example_renew (Inr example_body) 400 400 example_leased = (d', [], Sent 200 (Renewed ''j1''))"
    using example_renewed by blast
  have gate: "has_map (as_gate example_agent_server)" by (simp add: example_agent_server_def example_gate_passes)
  have path: "clean_path (ar_path example_renew) \<noteq> ''/v1/jobs/claim''" by (simp add: example_renew_def example_gate_passes)
  have "\<exists>b token t. Inr example_body = (Inr b :: agent_body result) \<and> (ab_device b, token) \<in> set (the (g_agent_tokens (as_gate example_agent_server))) \<and>
      bearer (ar_authorization example_renew) = Some token \<and> holds_lease (path_job (clean_path (ar_path example_renew))) (ab_device b) t example_leased"
    using verdict_needs_the_holders_token [OF inj_on_id gate run(2) path] run(1) by blast
  then show ?thesis by (simp add: example_agent_server_def example_gate_def example_renew_def example_gate_passes)
qed

end
