(* ===== verification/Pool_View.thy ===== *)
theory Pool_View
  imports Queue_Properties Route_Policy
begin

text \<open>
  What the control panel and the metrics read of the pool (\<open>pool.py\<close>) and why a pool that is not
  working is not working (\<open>stalls.py\<close>), over the tables of the job queue. A snapshot prunes the
  agents table, so it answers the database it leaves as well. The labels of a device are a set. The
  build metadata of the broker and the Prometheus text are not modelled.
\<close>

section \<open>Stalls\<close>

datatype stall = No_Agents | Idle_Devices | Deferred | No_Eligible_Device

definition AGENT_ONLINE_SECONDS :: real where "AGENT_ONLINE_SECONDS = 60"
definition STALL_SECONDS :: real where "STALL_SECONDS = 300"

definition status_count :: "job_status \<Rightarrow> db \<Rightarrow> int" where
  "status_count s d = int (rowcount (\<lambda>r. r_status r = s) (jobs d))"

definition reclaimable :: "db \<Rightarrow> real \<Rightarrow> job_row \<Rightarrow> bool" where
  "reclaimable d now r \<longleftrightarrow> r_status r = Running \<and> spent_lease d now r"

definition queue_depth :: "db \<Rightarrow> real \<Rightarrow> (job_status \<Rightarrow> int) \<times> int" where
  "queue_depth d now =
     (let counts = (\<lambda>s. status_count s d); n = int (rowcount (reclaimable d now) (jobs d))
      in (counts(Running := counts Running - n, Pending := counts Pending + n), n))"

definition waiting :: "db \<Rightarrow> real \<Rightarrow> job_row \<Rightarrow> bool" where
  "waiting d now r \<longleftrightarrow> r_status r = Pending \<or> reclaimable d now r"

definition is_deferred :: "db \<Rightarrow> real \<Rightarrow> bool" where
  "is_deferred d now =
     (case min_by id (map (\<lambda>r. case r_available_at r of None \<Rightarrow> 0 | Some t \<Rightarrow> t) (filter (waiting d now) (jobs d))) of
        None \<Rightarrow> False
      | Some soonest \<Rightarrow> soonest > now)"

definition agent_online :: "real \<Rightarrow> agent_row \<Rightarrow> bool" where
  "agent_online now a \<longleftrightarrow> now - a_last_seen a \<le> AGENT_ONLINE_SECONDS"

definition unclaimable :: "db \<Rightarrow> agent_row list \<Rightarrow> real \<Rightarrow> bool" where
  "unclaimable d as now =
     (let ready = filter (\<lambda>r. waiting d now r \<and> (case r_available_at r of None \<Rightarrow> True | Some t \<Rightarrow> t \<le> now)) (jobs d);
          offered = map (\<lambda>a. set (a_labels a)) (filter (agent_online now) as)
      in \<not> list_ex (\<lambda>r. list_ex (\<lambda>labels. set (r_labels r) \<subseteq> labels) offered) ready)"

definition oldest_pending_age :: "db \<Rightarrow> real \<Rightarrow> real" where
  "oldest_pending_age d now =
     (case min_by r_created_at (filter (waiting d now) (jobs d)) of
        None \<Rightarrow> 0
      | Some r \<Rightarrow> max 0 (now - r_created_at r))"

definition meta_total :: "db \<Rightarrow> string \<Rightarrow> int" where
  "meta_total d key = (case meta d key of None \<Rightarrow> 0 | Some v \<Rightarrow> v)"

section \<open>Devices\<close>

definition active_lease :: "real \<Rightarrow> job_row \<Rightarrow> bool" where
  "active_lease now r \<longleftrightarrow> r_status r = Running \<and> (case r_lease_expires r of None \<Rightarrow> False | Some e \<Rightarrow> e > now) \<and>
     (case r_device r of None \<Rightarrow> False | Some dev \<Rightarrow> dev \<noteq> [])"

record lease_view =
  lv_job :: string
  lv_repository :: string
  lv_sha :: string
  lv_ref :: string
  lv_expires :: real
  lv_remaining :: real

definition lease_view_of :: "real \<Rightarrow> job_row \<Rightarrow> lease_view" where
  "lease_view_of now r =
     \<lparr>lv_job = r_id r, lv_repository = r_repository r, lv_sha = r_sha r, lv_ref = r_ref r,
      lv_expires = the (r_lease_expires r), lv_remaining = max 0 (the (r_lease_expires r) - now)\<rparr>"

definition active_leases :: "db \<Rightarrow> real \<Rightarrow> string \<Rightarrow> lease_view list" where
  "active_leases d now dev =
     order_by lv_expires (map (lease_view_of now) (filter (\<lambda>r. active_lease now r \<and> r_device r = Some dev) (jobs d)))"

definition leasing_devices :: "db \<Rightarrow> real \<Rightarrow> string list" where
  "leasing_devices d now = map (\<lambda>r. the (r_device r)) (filter (active_lease now) (jobs d))"

record device_view =
  dv_name :: string
  dv_status :: string
  dv_healthy :: bool
  dv_busy :: bool
  dv_labels :: "string set"
  dv_leases :: "lease_view list"
  dv_agent_online :: bool
  dv_build :: "(string \<times> string) list"
  dv_last_seen :: "real option"
  dv_max_concurrency :: "int option"
  dv_active_jobs :: nat
  dv_available_slots :: "int option"

definition device_view_of :: "string \<Rightarrow> runner option \<Rightarrow> lease_view list \<Rightarrow> agent_row option \<Rightarrow> real \<Rightarrow> device_view" where
  "device_view_of name rn leases agent now =
     (let online = (case agent of None \<Rightarrow> False | Some a \<Rightarrow> agent_online now a)
      in \<lparr>dv_name = name,
          dv_status = (case rn of None \<Rightarrow> ''online'' | Some r \<Rightarrow> rn_status r),
          dv_healthy = (case rn of None \<Rightarrow> True | Some r \<Rightarrow> rn_healthy r),
          dv_busy = ((case rn of None \<Rightarrow> False | Some r \<Rightarrow> rn_busy r) \<or> leases \<noteq> []),
          dv_labels = (case rn of Some r \<Rightarrow> rn_labels r | None \<Rightarrow> (case agent of None \<Rightarrow> {} | Some a \<Rightarrow> set (a_labels a))),
          dv_leases = leases,
          dv_agent_online = online,
          dv_build = (case agent of None \<Rightarrow> [] | Some a \<Rightarrow> a_build a),
          dv_last_seen = map_option a_last_seen agent,
          dv_max_concurrency = map_option a_max_concurrency agent,
          dv_active_jobs = length leases,
          dv_available_slots =
            (case agent of
               None \<Rightarrow> None
             | Some a \<Rightarrow> if \<not> online then None else Some (max 0 (a_max_concurrency a - int (length leases))))\<rparr>)"

definition agent_named :: "agent_row list \<Rightarrow> string \<Rightarrow> agent_row option" where
  "agent_named as name = lookup_by a_device name as"

definition devices_view :: "runner list \<Rightarrow> db \<Rightarrow> real \<Rightarrow> device_view list" where
  "devices_view runners d now =
     (let seen = map rn_name runners;
          others = sort (remdups (filter (\<lambda>n. n \<notin> set seen) (leasing_devices d now @ map a_device (agents d))))
      in map (\<lambda>r. device_view_of (rn_name r) (Some r) (active_leases d now (rn_name r)) (agent_named (agents d) (rn_name r)) now) runners @
         map (\<lambda>n. device_view_of n None (active_leases d now n) (agent_named (agents d) n) now) others)"

section \<open>The snapshot\<close>

definition RECENT_JOB_LIMIT :: nat where "RECENT_JOB_LIMIT = 50"
definition SNAPSHOT_LOG_CHARS :: nat where "SNAPSHOT_LOG_CHARS = 4000"

definition round_half_even :: "real \<Rightarrow> int" where
  "round_half_even x =
     (let f = \<lfloor>x\<rfloor>; rest = x - of_int f
      in if rest < 1 / 2 \<or> rest = 1 / 2 \<and> even f then f else f + 1)"

definition round2 :: "real \<Rightarrow> real" where
  "round2 x = of_int (round_half_even (x * 100)) / 100"

text \<open>The preview of a job: the tail of its log, whether that is not all of it, and its steps without
  their output.\<close>

definition recent_jobs :: "db \<Rightarrow> (job \<times> bool) list" where
  "recent_jobs d =
     map (\<lambda>r. let j = row_job r
              in (j\<lparr>job_log := tail_chars SNAPSHOT_LOG_CHARS (job_log j),
                     job_steps := map (\<lambda>s. s\<lparr>st_output := []\<rparr>) (job_steps j)\<rparr>, length (job_log j) > SNAPSHOT_LOG_CHARS))
       (take RECENT_JOB_LIMIT (order_by (\<lambda>r. - r_created_at r) (jobs d)))"

record pool_snapshot =
  ps_devices :: "device_view list"
  ps_queue_depth :: "job_status \<Rightarrow> int"
  ps_expired_leases :: int
  ps_oldest_pending :: real
  ps_stalled_reason :: "stall option"
  ps_reclaims :: int
  ps_live_reclaims :: int
  ps_recent_jobs :: "(job \<times> bool) list"

definition free_slot :: "device_view \<Rightarrow> bool" where
  "free_slot v \<longleftrightarrow> (case dv_available_slots v of None \<Rightarrow> False | Some n \<Rightarrow> n > 0)"

definition stalled_reason :: "(job_status \<Rightarrow> int) \<Rightarrow> device_view list \<Rightarrow> db \<Rightarrow> real \<Rightarrow> stall option" where
  "stalled_reason counts devices d now =
     (if counts Pending \<noteq> 0 \<and> round2 (oldest_pending_age d now) \<ge> STALL_SECONDS
      then if \<not> list_ex dv_agent_online devices then Some No_Agents
           else if \<not> list_ex free_slot devices then Some Idle_Devices
           else if is_deferred d now then Some Deferred
           else if unclaimable d (agents d) now then Some No_Eligible_Device
           else None
      else None)"

definition pool_snapshot_of :: "runner list \<Rightarrow> real \<Rightarrow> bool \<Rightarrow> db \<Rightarrow> db \<times> pool_snapshot" where
  "pool_snapshot_of runners now include_recent d =
     (let (counts, n) = queue_depth d now;
          d' = prune_agents now d;
          devices = devices_view runners d' now
      in (d', \<lparr>ps_devices = devices, ps_queue_depth = counts, ps_expired_leases = n,
               ps_oldest_pending = round2 (oldest_pending_age d' now),
               ps_stalled_reason = stalled_reason counts devices d' now,
               ps_reclaims = meta_total d' ''reclaims'', ps_live_reclaims = meta_total d' ''reclaims_live'',
               ps_recent_jobs = (if include_recent then recent_jobs d' else [])\<rparr>))"

section \<open>Pruning\<close>

lemma prune_simps [simp]: "jobs (prune_agents now d) = jobs d" "meta (prune_agents now d) = meta d"
  by (simp_all add: prune_agents_def)

text \<open>Retention is longer than the grace, so pruning changes the standing of no lease.\<close>

lemma spent_lease_pruned [simp]: "spent_lease (prune_agents now d) now r = spent_lease d now r"
proof -
  have "present (prune_agents now d) (now - LIVE_DEVICE_GRACE_SECONDS) dev = present d (now - LIVE_DEVICE_GRACE_SECONDS) dev" for dev
    by (auto simp: present_def prune_agents_def list_ex_iff LIVE_DEVICE_GRACE_SECONDS_def AGENT_RETENTION_SECONDS_def)
  then show ?thesis by (simp add: spent_lease_def split: option.split)
qed

lemma waiting_pruned [simp]:
  "waiting (prune_agents now d) now = waiting d now" "reclaimable (prune_agents now d) now = reclaimable d now"
  by (simp_all add: fun_eq_iff waiting_def reclaimable_def)

lemma views_pruned [simp]:
  "oldest_pending_age (prune_agents now d) now = oldest_pending_age d now" "is_deferred (prune_agents now d) now = is_deferred d now"
  by (simp_all add: oldest_pending_age_def is_deferred_def)

lemma db_wf_pruned: "db_wf d \<Longrightarrow> db_wf (prune_agents now d)"
  by (simp add: db_wf_def prune_agents_def distinct_map_filter)

section \<open>Devices and agents\<close>

lemma agent_named_in: "distinct (map a_device as) \<Longrightarrow> a \<in> set as \<Longrightarrow> agent_named as (a_device a) = Some a"
  unfolding agent_named_def by (rule lookup_by_unique)

text \<open>Every agent is behind one of the listed devices.\<close>

lemma set_devices_view:
  "set (devices_view runners d now) =
     (\<lambda>r. device_view_of (rn_name r) (Some r) (active_leases d now (rn_name r)) (agent_named (agents d) (rn_name r)) now) ` set runners \<union>
     (\<lambda>n. device_view_of n None (active_leases d now n) (agent_named (agents d) n) now) `
       {n \<in> set (leasing_devices d now) \<union> a_device ` set (agents d). n \<notin> rn_name ` set runners}"
proof -
  have "set (filter (\<lambda>n. n \<notin> set (map rn_name runners)) (leasing_devices d now @ map a_device (agents d))) =
      {n \<in> set (leasing_devices d now) \<union> a_device ` set (agents d). n \<notin> rn_name ` set runners}" by auto
  then show ?thesis unfolding devices_view_def Let_def by (simp only: set_append set_map set_sort set_remdups)
qed

lemma device_view_of_agent [simp]:
  "dv_agent_online (device_view_of name rn leases (Some a) now) = agent_online now a"
  "dv_available_slots (device_view_of name rn leases (Some a) now) =
     (if agent_online now a then Some (max 0 (a_max_concurrency a - int (length leases))) else None)"
  by (simp_all add: device_view_of_def Let_def)

lemma device_of_agent:
  assumes "distinct (map a_device (agents d))" and "a \<in> set (agents d)"
  obtains rn where "device_view_of (a_device a) rn (active_leases d now (a_device a)) (Some a) now \<in> set (devices_view runners d now)"
proof -
  note named = agent_named_in [OF assms]
  show ?thesis
  proof (cases "a_device a \<in> rn_name ` set runners")
    case True
    then obtain r where "r \<in> set runners" "rn_name r = a_device a" by force
    then have "device_view_of (a_device a) (Some r) (active_leases d now (a_device a)) (Some a) now \<in> set (devices_view runners d now)"
      unfolding set_devices_view using named by (intro UnI1 image_eqI [of _ _ r]) simp_all
    then show ?thesis by (rule that)
  next
    case False
    then have "device_view_of (a_device a) None (active_leases d now (a_device a)) (Some a) now \<in> set (devices_view runners d now)"
      unfolding set_devices_view using named assms(2) by (intro UnI2 image_eqI [of _ _ "a_device a"]) simp_all
    then show ?thesis by (rule that)
  qed
qed

section \<open>Claims and stalls\<close>

lemma claim_nothing:
  assumes "\<And>r. r \<in> set (jobs d) \<Longrightarrow> claimable now r \<Longrightarrow> \<not> set (r_labels r) \<subseteq> set labels"
    and "0 < lease" and "\<And>m. cap = Some m \<Longrightarrow> 0 < m"
  shows "claim device labels lease now cap d = Inr (d, None)"
proof -
  have "filter (job_eligible d (set labels) cap) (order_by r_created_at (filter (claimable now) (jobs d))) = []"
    using assms(1) by (auto simp: filter_empty_conv job_eligible_def)
  then have "pick_job d (order_by r_created_at (filter (claimable now) (jobs d))) (set labels) cap = None"
    by (simp add: pick_job_def)
  then show ?thesis using assms(2,3) by (auto simp: claim_def split: option.splits)
qed

lemma claim_something:
  assumes "r \<in> set (jobs d)" and "claimable now r" and "job_eligible d (set labels) cap r" and "0 < lease" and "distinct (map r_id (jobs d))"
    and "\<And>m. cap = Some m \<Longrightarrow> 0 < m"
  shows "\<exists>d' j. claim device labels lease now cap d = Inr (d', Some j)"
proof -
  let ?rows = "order_by r_created_at (filter (claimable now) (jobs d))"
  have "r \<in> set (filter (job_eligible d (set labels) cap) ?rows)" using assms(1-3) by simp
  then have "filter (job_eligible d (set labels) cap) ?rows \<noteq> []" by (metis empty_iff list.set(1))
  then obtain p where p: "pick_job d ?rows (set labels) cap = Some p"
    unfolding pick_job_def by (metis min_by_None_iff option.exhaust)
  then have "p \<in> set (jobs d)" using min_by_in [OF p [unfolded pick_job_def]] by simp
  then have "row_of d (r_id p) = Some p" unfolding row_of_def by (rule lookup_by_unique [OF assms(5)])
  then have "get (on_jobs (update_where (\<lambda>r. r_id r = r_id p \<and> r_status r = Pending) (take_lease device (now + of_int lease))) d) (r_id p) \<noteq> None"
    by (simp add: get_def row_of_on_update)
  then show ?thesis using p assms(4,6) by (auto simp: claim_def Let_def split: option.split)
qed

lemma deferred_none_claimable:
  assumes "is_deferred d now" and "0 \<le> now" and "r \<in> set (jobs d)"
  shows "\<not> claimable now r"
proof
  assume c: "claimable now r"
  let ?av = "\<lambda>r. case r_available_at r of None \<Rightarrow> 0 | Some t \<Rightarrow> t"
  obtain s where s: "min_by id (map ?av (filter (waiting d now) (jobs d))) = Some s" "now < s"
    using assms(1) by (auto simp: is_deferred_def split: option.splits)
  have "waiting d now r" using c by (simp add: claimable_def waiting_def)
  then have "s \<le> ?av r" using min_by_le [OF s(1), of "?av r"] assms(3) by simp
  then show False using c s(2) assms(2) by (auto simp: claimable_def split: option.splits)
qed

lemma unclaimable_iff:
  "unclaimable d as now \<longleftrightarrow>
     (\<forall>r \<in> set (jobs d). \<forall>a \<in> set as. waiting d now r \<and> (case r_available_at r of None \<Rightarrow> True | Some t \<Rightarrow> t \<le> now) \<and> agent_online now a
        \<longrightarrow> \<not> set (r_labels r) \<subseteq> set (a_labels a))"
  by (auto simp: unclaimable_def Let_def list_ex_iff)

lemma snapshot_stall:
  assumes "pool_snapshot_of runners now recent d = (d', ps)"
  shows "d' = prune_agents now d" "ps_devices ps = devices_view runners d' now" "ps_queue_depth ps = fst (queue_depth d now)"
    "ps_stalled_reason ps = stalled_reason (fst (queue_depth d now)) (devices_view runners d' now) d' now"
    "ps_oldest_pending ps = round2 (oldest_pending_age d' now)"
  using assms by (auto simp: pool_snapshot_of_def Let_def split: prod.splits)

text \<open>
  A reported stall is one. A pool with no agents has no agent that spoke within the online window;
  a pool without capacity has no such agent with fewer leases than it takes; while the queue is
  deferred no claim of any device is given a run; and when no device is eligible, no connected device
  that claims with the labels it announced is given one.
\<close>

theorem stall_reason_is_sound:
  assumes "db_wf d" and "pool_snapshot_of runners now recent d = (d', ps)" and "ps_stalled_reason ps = Some reason"
    and "0 \<le> now" and "0 < lease" and "\<And>m. cap = Some m \<Longrightarrow> 0 < m"
  shows "case reason of
       No_Agents \<Rightarrow> \<forall>a \<in> set (agents d'). \<not> agent_online now a
     | Idle_Devices \<Rightarrow> \<forall>a \<in> set (agents d'). agent_online now a \<longrightarrow> a_max_concurrency a \<le> int (length (active_leases d' now (a_device a)))
     | Deferred \<Rightarrow> \<forall>device labels. claim device labels lease now cap d' = Inr (d', None)
     | No_Eligible_Device \<Rightarrow> \<forall>a \<in> set (agents d'). agent_online now a \<longrightarrow> claim (a_device a) (a_labels a) lease now cap d' = Inr (d', None)"
proof -
  note snap = snapshot_stall [OF assms(2)]
  have reason: "stalled_reason (fst (queue_depth d now)) (devices_view runners d' now) d' now = Some reason" using assms(3) snap(4) by simp
  have "distinct (map a_device (agents d'))" using db_wf_pruned [OF assms(1)] snap(1) by (simp add: db_wf_def)
  note device = device_of_agent [OF this, where runners = runners and now = now]
  show ?thesis
  proof (cases reason)
    case No_Agents
    then have none: "\<forall>v \<in> set (devices_view runners d' now). \<not> dv_agent_online v"
      using reason by (auto simp: stalled_reason_def list_ex_iff split: if_splits)
    have "\<not> agent_online now a" if "a \<in> set (agents d')" for a
      using device [OF that] none device_view_of_agent(1) by metis
    then show ?thesis using No_Agents by simp
  next
    case Idle_Devices
    then have none: "\<forall>v \<in> set (devices_view runners d' now). \<not> free_slot v"
      using reason by (auto simp: stalled_reason_def list_ex_iff split: if_splits)
    have "a_max_concurrency a \<le> int (length (active_leases d' now (a_device a)))" if a: "a \<in> set (agents d')" "agent_online now a" for a
    proof -
      obtain rn where "\<not> free_slot (device_view_of (a_device a) rn (active_leases d' now (a_device a)) (Some a) now)"
        using device [OF a(1)] none by metis
      then show ?thesis using a(2) by (simp add: free_slot_def)
    qed
    then show ?thesis using Idle_Devices by simp
  next
    case Deferred
    then have "is_deferred d' now" using reason by (auto simp: stalled_reason_def split: if_splits)
    then show ?thesis using Deferred deferred_none_claimable [OF _ assms(4)] claim_nothing [of d' now _ lease cap] assms(5,6) by auto
  next
    case No_Eligible_Device
    then have "unclaimable d' (agents d') now" using reason by (auto simp: stalled_reason_def split: if_splits)
    then have "claim (a_device a) (a_labels a) lease now cap d' = Inr (d', None)" if "a \<in> set (agents d')" "agent_online now a" for a
      using that claim_nothing [of d' now "a_labels a" lease cap "a_device a"] assms(5,6)
      by (auto simp: unclaimable_iff claimable_def waiting_def)
    then show ?thesis using No_Eligible_Device by simp
  qed
qed

text \<open>
  A waiting run a connected device could take: past its backoff, with labels the device announced.
\<close>

definition takeable :: "db \<Rightarrow> real \<Rightarrow> job_row \<Rightarrow> agent_row \<Rightarrow> bool" where
  "takeable d now r a \<longleftrightarrow> r \<in> set (jobs d) \<and> a \<in> set (agents d) \<and> claimable now r \<and> agent_online now a \<and> set (r_labels r) \<subseteq> set (a_labels a)"

definition live_runs :: "db \<Rightarrow> real \<Rightarrow> string \<Rightarrow> job_row list" where
  "live_runs d now repository = filter (\<lambda>q. r_status q = Running \<and> r_repository q = repository \<and> \<not> spent_lease d now q) (jobs d)"

lemma nothing_spent: "lapsed_rows now d = [] \<Longrightarrow> active_count (jobs d) repository = length (live_runs d now repository)"
  by (auto simp: lapsed_rows_def filter_empty_conv active_count_def live_runs_def intro!: arg_cong [where f = length] filter_cong)

text \<open>
  C37: a pool that is not reported stalled can move, under the cap on the runs of one repository the broker claims
  with. When runs wait, the oldest has waited the five minutes and no stall is reported, then some connected device
  is given a run if it claims now with the labels it announced, or the reclaim has a run to take back now, or runs
  wait that a connected device could take and each of them is held back by the cap alone: its repository has as many
  runs on devices, under leases that are not spent, as the cap allows.
\<close>

theorem unstalled_pool_can_move:
  assumes "db_wf d" and "pool_snapshot_of runners now recent d = (d', ps)" and "ps_stalled_reason ps = None"
    and "ps_queue_depth ps Pending > 0" and "ps_oldest_pending ps \<ge> STALL_SECONDS" and "0 < lease" and "0 < m"
  shows "(\<exists>a \<in> set (agents d'). agent_online now a \<and> (\<exists>d'' j. claim (a_device a) (a_labels a) lease now (Some m) d' = Inr (d'', Some j))) \<or>
     snd (reclaim_expired now publish d') \<noteq> [] \<or>
     ((\<exists>r a. takeable d' now r a) \<and> (\<forall>r a. takeable d' now r a \<longrightarrow> m \<le> int (length (live_runs d' now (r_repository r)))))"
proof -
  note snap = snapshot_stall [OF assms(2)]
  have wf: "db_wf d'" using db_wf_pruned [OF assms(1)] snap(1) by simp
  have "\<not> unclaimable d' (agents d') now"
    using assms(3-5) snap by (auto simp: stalled_reason_def split: if_splits)
  then obtain r a where ra: "r \<in> set (jobs d')" "a \<in> set (agents d')" "waiting d' now r"
      "case r_available_at r of None \<Rightarrow> True | Some t \<Rightarrow> t \<le> now" "agent_online now a" "set (r_labels r) \<subseteq> set (a_labels a)"
    by (auto simp: unclaimable_iff)
  show ?thesis
  proof (cases "lapsed_rows now d' = []")
    case True
    then have "r_status r = Pending" using ra(1,3) by (auto simp: waiting_def reclaimable_def lapsed_rows_def filter_empty_conv)
    then have some: "takeable d' now r a" using ra by (simp add: takeable_def claimable_def)
    have "m \<le> int (length (live_runs d' now (r_repository q)))"
      if t: "takeable d' now q b" and none: "\<not> (\<exists>d'' j. claim (a_device b) (a_labels b) lease now (Some m) d' = Inr (d'', Some j))" for q b
    proof (rule ccontr)
      assume "\<not> ?thesis"
      then have "job_eligible d' (set (a_labels b)) (Some m) q" using t by (simp add: takeable_def job_eligible_def nothing_spent [OF True])
      then show False
        using none claim_something [of q d' now "a_labels b" "Some m" lease "a_device b"] t assms(6,7) db_wf_distinct [OF wf] by (simp add: takeable_def)
    qed
    then show ?thesis using some unfolding takeable_def by blast
  next
    case False
    then show ?thesis by (simp add: reclaim_expired_def expire_jobs [OF db_wf_distinct [OF wf]])
  qed
qed

text \<open>
  The reported depth is what the reclaim leaves. The runs counted as running are those that are
  still running once every spent lease is released, and those counted as waiting are the ones that
  wait then, with the ones the release parks for good.
\<close>

theorem queue_depth_after_reclaim:
  assumes "db_wf d" and "d' = fst (reclaim_expired now publish d)"
  shows "fst (queue_depth d now) Running = status_count Running d' \<and>
     fst (queue_depth d now) Pending = status_count Pending d' + (status_count Dead d' - status_count Dead d) \<and>
     snd (queue_depth d now) = int (length (snd (reclaim_expired now publish d)))"
proof -
  note exp = expire_jobs [OF db_wf_distinct [OF assms(1)], of now publish]
  let ?f = "release_lapsed d now publish"
  have kept: "?f r = r" if "\<not> reclaimable d now r" for r using that by (auto simp: release_lapsed_def reclaimable_def)
  have taken: "r_status r = Running" "r_status (?f r) = Pending \<or> r_status (?f r) = Dead" if "reclaimable d now r" for r
    using that by (auto simp: release_lapsed_def reclaimable_def release_row_def)
  have count: "int (length (filter (\<lambda>r. r_status r = Running) js)) - int (length (filter (reclaimable d now) js)) =
        int (length (filter (\<lambda>r. r_status r = Running) (map ?f js))) \<and>
      int (length (filter (\<lambda>r. r_status r = Pending) js)) + int (length (filter (reclaimable d now) js)) + int (length (filter (\<lambda>r. r_status r = Dead) js)) =
        int (length (filter (\<lambda>r. r_status r = Pending) (map ?f js))) + int (length (filter (\<lambda>r. r_status r = Dead) (map ?f js)))" for js
  proof (induction js)
    case (Cons r js)
    show ?case
    proof (cases "reclaimable d now r")
      case True
      from taken(2) [OF True] show ?thesis using Cons taken(1) [OF True] True by (elim disjE) simp_all
    next
      case False
      then show ?thesis using Cons kept [OF False] by simp
    qed
  qed simp
  have lapsed: "lapsed_rows now d = filter (reclaimable d now) (jobs d)" by (simp add: lapsed_rows_def reclaimable_def [abs_def])
  show ?thesis
    using count [of "jobs d"] exp
    by (simp add: assms(2) queue_depth_def status_count_def Let_def rowcount_def reclaim_expired_def lapsed)
qed

section \<open>A concrete pool\<close>

definition example_pool :: "string \<Rightarrow> db" where
  "example_pool label = example_queue\<lparr>agents := [\<lparr>a_device = ''dev'', a_labels = [label], a_max_concurrency = 1, a_last_seen = 500, a_build = []\<rparr>]\<rparr>"

lemma example_pool_wf: "db_wf (example_pool label)"
  using example_wf(1) by (simp add: example_pool_def db_wf_def)

lemma example_pool_views:
  "prune_agents 500 (example_pool label) = example_pool label"
  "fst (queue_depth (example_pool label) 500) Pending = 1"
  "oldest_pending_age (example_pool label) 500 = 400"
  "\<not> is_deferred (example_pool label) 500"
  "active_leases (example_pool label) 500 dev = []" "leasing_devices (example_pool label) 500 = []"
  by (simp_all add: prune_agents_def AGENT_RETENTION_SECONDS_def example_pool_def queue_depth_def status_count_def Let_def rowcount_def
      reclaimable_def example_queue_eq example_row_def new_row_def oldest_pending_age_def waiting_def min_by_def is_deferred_def
      active_leases_def active_lease_def leasing_devices_def)

lemma example_pool_stall:
  "ps_stalled_reason (snd (pool_snapshot_of [] 500 False (example_pool label))) = (if label = ''linux'' then None else Some No_Eligible_Device)"
proof -
  let ?d = "example_pool label"
  have "list_ex dv_agent_online (devices_view [] ?d 500)" "list_ex free_slot (devices_view [] ?d 500)"
    by (simp_all add: devices_view_def Let_def example_pool_views agent_named_def lookup_by_def free_slot_def agent_online_def AGENT_ONLINE_SECONDS_def)
       (simp_all add: example_pool_def free_slot_def agent_online_def AGENT_ONLINE_SECONDS_def)
  moreover have "unclaimable ?d (agents ?d) 500 \<longleftrightarrow> label \<noteq> ''linux''"
    by (auto simp: unclaimable_iff example_pool_def example_queue_eq example_row_def new_row_def waiting_def agent_online_def AGENT_ONLINE_SECONDS_def)
  moreover have "round2 400 = 400" by (simp add: round2_def round_half_even_def Let_def)
  ultimately show ?thesis
    by (simp add: pool_snapshot_of_def Let_def case_prod_unfold example_pool_views stalled_reason_def STALL_SECONDS_def)
qed

theorem stall_reason_is_sound_witness:
  "claim ''dev'' [''mac''] 60 500 None (example_pool ''mac'') = Inr (example_pool ''mac'', None)"
proof -
  obtain d' ps where snap: "pool_snapshot_of [] 500 False (example_pool ''mac'') = (d', ps)" by fastforce
  then have "ps_stalled_reason ps = Some No_Eligible_Device" "d' = example_pool ''mac''"
    using example_pool_stall [of "''mac''"] snapshot_stall(1) [OF snap] by (simp_all add: example_pool_views)
  then have "\<forall>a \<in> set (agents (example_pool ''mac'')). agent_online 500 a \<longrightarrow>
      claim (a_device a) (a_labels a) 60 500 None (example_pool ''mac'') = Inr (example_pool ''mac'', None)"
    using stall_reason_is_sound [OF example_pool_wf snap, of No_Eligible_Device 60 None] by simp
  moreover have "agents (example_pool ''mac'') = [\<lparr>a_device = ''dev'', a_labels = [''mac''], a_max_concurrency = 1, a_last_seen = 500, a_build = []\<rparr>]"
    by (simp add: example_pool_def)
  ultimately show ?thesis by (simp add: agent_online_def AGENT_ONLINE_SECONDS_def)
qed

theorem unstalled_pool_can_move_witness:
  "\<exists>a \<in> set (agents (example_pool ''linux'')). agent_online 500 a \<and>
     (\<exists>d'' j. claim (a_device a) (a_labels a) 60 500 (Some 2) (example_pool ''linux'') = Inr (d'', Some j))"
proof -
  obtain d' ps where snap: "pool_snapshot_of [] 500 False (example_pool ''linux'') = (d', ps)" by fastforce
  have "ps_stalled_reason ps = None" "d' = example_pool ''linux''" "ps_queue_depth ps Pending > 0" "ps_oldest_pending ps \<ge> STALL_SECONDS"
    using example_pool_stall [of "''linux''"] snap snapshot_stall [OF snap]
    by (simp_all add: example_pool_views round2_def round_half_even_def Let_def STALL_SECONDS_def)
  moreover have "snd (reclaim_expired 500 None (example_pool ''linux'')) = []"
    by (simp add: reclaim_expired_def expire_jobs [OF db_wf_distinct [OF example_pool_wf]] lapsed_rows_def)
       (simp add: example_pool_def example_queue_eq example_row_def new_row_def)
  moreover have "live_runs (example_pool ''linux'') 500 q = []" for q
    by (simp add: live_runs_def example_pool_def example_queue_eq example_row_def new_row_def)
  ultimately show ?thesis using unstalled_pool_can_move [OF example_pool_wf snap, of 60 2 None] by auto
qed

theorem queue_depth_after_reclaim_witness:
  "fst (queue_depth example_leased 600) Running = status_count Running (fst (reclaim_expired 600 None example_leased))"
  using queue_depth_after_reclaim [OF example_wf(2) refl] by blast

end
