(* ===== verification/Cache_Store.thy ===== *)
theory Cache_Store
  imports Dispatch_Targets
begin

text \<open>
  The content-addressed build cache (\<open>cache.py\<close>): entries scoped to a repository, branch and
  architecture, blobs named by their digest, least-recently-used eviction to a repository quota and
  a storage quota. The database is a list of rows, the blob directory a map from digest to content;
  SHA-256 is a parameter, and the file operations succeed. A row that ties with another in the eviction order is taken in table
  order. Times are real, sizes natural.
\<close>

section \<open>State\<close>

record cache_row =
  c_repository :: string
  c_branch :: string
  c_architecture :: string
  c_key :: string
  c_digest :: string
  c_size :: nat
  c_created :: real
  c_accessed :: real

definition c_id :: "cache_row \<Rightarrow> string \<times> string \<times> string \<times> string" where
  "c_id r = (c_repository r, c_branch r, c_architecture r, c_key r)"

record cache_entry =
  ce_repository :: string
  ce_branch :: string
  ce_architecture :: string
  ce_key :: string
  ce_digest :: string
  ce_size :: nat
  ce_created :: real

definition cache_entry_of :: "cache_row \<Rightarrow> cache_entry" where
  "cache_entry_of r = \<lparr>ce_repository = c_repository r, ce_branch = c_branch r, ce_architecture = c_architecture r,
     ce_key = c_key r, ce_digest = c_digest r, ce_size = c_size r, ce_created = c_created r\<rparr>"

record cache_limits =
  cl_ttl :: int
  cl_repository_quota :: int
  cl_storage_quota :: int
  cl_max_blob :: int

record cache =
  ch_rows :: "cache_row list"
  ch_blobs :: "string \<rightharpoonup> string"
  ch_hits :: int
  ch_misses :: int
  ch_writes :: int
  ch_bytes_written :: int

definition new_cache :: "cache_limits \<Rightarrow> cache result" where
  "new_cache cl =
     (if min (min (cl_ttl cl) (cl_repository_quota cl)) (min (cl_storage_quota cl) (cl_max_blob cl)) < 1
      then Inl (ValueError ''cache limits must be positive'')
      else Inr \<lparr>ch_rows = [], ch_blobs = Map.empty, ch_hits = 0, ch_misses = 0, ch_writes = 0, ch_bytes_written = 0\<rparr>)"

section \<open>Scopes\<close>

definition sized :: "nat \<Rightarrow> string \<Rightarrow> bool" where
  "sized n s \<longleftrightarrow> 1 \<le> length s \<and> length s \<le> n"

definition cache_repository_ok :: "string \<Rightarrow> bool" where
  "cache_repository_ok repository \<longleftrightarrow>
     (case split_char CHR ''/'' repository of
        [owner, name] \<Rightarrow> list_all (\<lambda>part. part \<noteq> [] \<and> list_all slug_char part \<and> part \<notin> {''.'', ''..''}) [owner, name]
      | _ \<Rightarrow> False)"

definition cache_key_ok :: "string \<Rightarrow> bool" where
  "cache_key_ok key \<longleftrightarrow> sized 200 key \<and> list_all slug_char key"

definition digest_ok :: "string \<Rightarrow> bool" where
  "digest_ok digest \<longleftrightarrow> length digest = 64 \<and> list_all (\<lambda>c. c \<in> set ''0123456789abcdef'') digest"

definition validate_scope :: "string \<Rightarrow> string \<Rightarrow> string \<Rightarrow> string \<Rightarrow> unit result" where
  "validate_scope repository branch architecture key =
     (if \<not> cache_repository_ok repository then Inl (ValueError ''repository must use owner/name format'')
      else if \<not> (sized 255 branch \<and> list_all (\<lambda>c. slug_char c \<or> c = CHR ''/'') branch) \<or> sublist ''..'' branch
      then Inl (ValueError ''invalid branch'')
      else if \<not> (sized 64 architecture \<and> list_all slug_char architecture) then Inl (ValueError ''invalid architecture'')
      else if \<not> cache_key_ok key then Inl (ValueError ''invalid cache key'')
      else Inr ())"

section \<open>Expiry, quotas and blobs\<close>

definition expire_rows :: "cache_limits \<Rightarrow> real \<Rightarrow> cache_row list \<Rightarrow> cache_row list" where
  "expire_rows cl now rows = filter (\<lambda>r. \<not> c_accessed r < now - of_int (cl_ttl cl)) rows"

text \<open>The bytes a set of rows keeps on disk: a blob two rows share counts once.\<close>

definition stored_bytes :: "cache_row list \<Rightarrow> nat" where
  "stored_bytes rows = (\<Sum>d \<in> c_digest ` set rows. Max (c_size ` set (filter (\<lambda>r. c_digest r = d) rows)))"

definition delete_row :: "cache_row \<Rightarrow> cache_row list \<Rightarrow> cache_row list" where
  "delete_row r rows = filter (\<lambda>s. c_id s \<noteq> c_id r) rows"

lemma delete_row_shorter: "r \<in> set rows \<Longrightarrow> length (delete_row r rows) < length rows"
  unfolding delete_row_def by (rule length_filter_less) auto

function evict_to_quota :: "(cache_row \<Rightarrow> bool) \<Rightarrow> int \<Rightarrow> cache_row list \<Rightarrow> cache_row list" where
  "evict_to_quota P quota rows =
     (if int (stored_bytes (filter P rows)) \<le> quota then rows
      else case min_by (\<lambda>r. (c_accessed r, c_created r, c_key r)) (filter P rows) of
             None \<Rightarrow> rows
           | Some r \<Rightarrow> evict_to_quota P quota (delete_row r rows))"
  by pat_completeness auto

termination
  by (relation "measure (\<lambda>(_, _, rows). length rows)") (auto dest!: min_by_in intro!: delete_row_shorter)

declare evict_to_quota.simps [simp del]

definition collect_blobs :: "cache_row list \<Rightarrow> (string \<rightharpoonup> string) \<Rightarrow> (string \<rightharpoonup> string)" where
  "collect_blobs rows blobs = blobs |` (c_digest ` set rows)"

definition enforce_quota :: "cache_limits \<Rightarrow> string \<Rightarrow> cache_row list \<Rightarrow> cache_row list" where
  "enforce_quota cl repository rows =
     evict_to_quota (\<lambda>_. True) (cl_storage_quota cl)
       (evict_to_quota (\<lambda>r. c_repository r = repository) (cl_repository_quota cl) rows)"

section \<open>Operations\<close>

definition in_scope :: "string \<Rightarrow> string \<Rightarrow> string \<Rightarrow> cache_row \<Rightarrow> bool" where
  "in_scope repository branch architecture r \<longleftrightarrow>
     c_repository r = repository \<and> c_branch r = branch \<and> c_architecture r = architecture"

text \<open>The newest entry of the scope under a prefix, then the next prefix.\<close>

fun restore_match :: "cache_row list \<Rightarrow> string list \<Rightarrow> cache_row option" where
  "restore_match rows [] = None"
| "restore_match rows (p # ps) =
     (case min_by (\<lambda>r. (- c_accessed r, c_key r)) (filter (\<lambda>r. take (length p) (c_key r) = p) rows) of
        None \<Rightarrow> restore_match rows ps
      | Some r \<Rightarrow> Some r)"

definition touch_row :: "real \<Rightarrow> cache_row \<Rightarrow> cache_row" where
  "touch_row now r = r\<lparr>c_accessed := now\<rparr>"

definition cache_lookup ::
  "cache_limits \<Rightarrow> string \<Rightarrow> string \<Rightarrow> string \<Rightarrow> string \<Rightarrow> string list \<Rightarrow> real \<Rightarrow> cache \<Rightarrow> (cache \<times> cache_entry option) result" where
  "cache_lookup cl repository branch architecture key restore_keys now c =
     rbind (validate_scope repository branch architecture key) (\<lambda>_.
       if length restore_keys > 20 \<or> \<not> list_all cache_key_ok restore_keys
       then Inl (ValueError ''restore_keys must contain at most 20 valid prefixes'')
       else
         (let rows = expire_rows cl now (ch_rows c);
              blobs = collect_blobs rows (ch_blobs c);
              found = (case lookup_by c_id (repository, branch, architecture, key) rows of
                         Some r \<Rightarrow> Some r
                       | None \<Rightarrow> restore_match (filter (in_scope repository branch architecture) rows) restore_keys)
          in case found of
               None \<Rightarrow> Inr (c\<lparr>ch_rows := rows, ch_blobs := blobs, ch_misses := ch_misses c + 1\<rparr>, None)
             | Some r \<Rightarrow>
                 if blobs (c_digest r) = None
                 then Inr (c\<lparr>ch_rows := delete_row r (update_where (\<lambda>s. c_id s = c_id r) (touch_row now) rows), ch_blobs := blobs,
                             ch_misses := ch_misses c + 1\<rparr>, None)
                 else Inr (c\<lparr>ch_rows := update_where (\<lambda>s. c_id s = c_id r) (touch_row now) rows, ch_blobs := blobs,
                             ch_hits := ch_hits c + 1\<rparr>, Some (cache_entry_of r))))"

text \<open>\<open>put\<close>; the upload is what the client sends, of which the stated length is read.\<close>

definition cache_put ::
  "(string \<Rightarrow> string) \<Rightarrow> cache_limits \<Rightarrow> string \<Rightarrow> string \<Rightarrow> string \<Rightarrow> string \<Rightarrow> string \<Rightarrow> int \<Rightarrow> real \<Rightarrow> cache \<Rightarrow>
   (cache \<times> cache_entry \<times> bool) result" where
  "cache_put sha256 cl repository branch architecture key upload content_length now c =
     rbind (validate_scope repository branch architecture key) (\<lambda>_.
       if content_length < 0 \<or> content_length > cl_max_blob cl
       then Inl (ValueError ''cache blob exceeds the configured size limit'')
       else if content_length > cl_repository_quota cl then Inl (ValueError ''cache blob exceeds the repository quota'')
       else if int (length upload) < content_length then Inl (ValueError ''cache upload ended before Content-Length'')
       else
         (let body = take (nat content_length) upload;
              rows = expire_rows cl now (ch_rows c);
              blobs = (if length rows < length (ch_rows c) then collect_blobs rows (ch_blobs c) else ch_blobs c)
          in case lookup_by c_id (repository, branch, architecture, key) rows of
               Some r \<Rightarrow> Inr (c\<lparr>ch_rows := rows, ch_blobs := blobs\<rparr>, cache_entry_of r, False)
             | None \<Rightarrow>
                 (let blobs' = (if blobs (sha256 body) = None then blobs(sha256 body \<mapsto> body) else blobs);
                      r = \<lparr>c_repository = repository, c_branch = branch, c_architecture = architecture, c_key = key,
                           c_digest = sha256 body, c_size = length body, c_created = now, c_accessed = now\<rparr>;
                      kept = enforce_quota cl repository (expire_rows cl now (rows @ [r]))
                  in Inr (c\<lparr>ch_rows := kept, ch_blobs := collect_blobs kept blobs', ch_writes := ch_writes c + 1,
                            ch_bytes_written := ch_bytes_written c + int (length body)\<rparr>,
                          cache_entry_of r, True))))"

datatype cache_open_error = Cache_Error string | Blob_Not_Found

definition open_blob ::
  "cache_limits \<Rightarrow> string \<Rightarrow> string \<Rightarrow> string \<Rightarrow> string \<Rightarrow> string \<Rightarrow> real \<Rightarrow> cache \<Rightarrow> cache_open_error + string" where
  "open_blob cl digest repository branch architecture key now c =
     (if \<not> digest_ok digest then Inl (Cache_Error ''invalid content digest'')
      else case validate_scope repository branch architecture key of
        Inl (ValueError m) \<Rightarrow> Inl (Cache_Error m)
      | Inl _ \<Rightarrow> Inl (Cache_Error [])
      | Inr _ \<Rightarrow>
          if list_ex (\<lambda>r. c_id r = (repository, branch, architecture, key) \<and> c_digest r = digest \<and>
                          c_accessed r \<ge> now - of_int (cl_ttl cl)) (ch_rows c)
          then (case ch_blobs c digest of None \<Rightarrow> Inl Blob_Not_Found | Some body \<Rightarrow> Inr body)
          else Inl Blob_Not_Found)"

section \<open>Stored bytes\<close>

lemma stored_bytes_mono:
  assumes "\<And>r. r \<in> set xs \<Longrightarrow> \<exists>s \<in> set ys. c_digest s = c_digest r \<and> c_size s = c_size r"
  shows "stored_bytes xs \<le> stored_bytes ys"
proof -
  let ?m = "\<lambda>rows d. Max (c_size ` set (filter (\<lambda>r. c_digest r = d) rows))"
  have sub: "c_digest ` set xs \<subseteq> c_digest ` set ys"
  proof
    fix d
    assume "d \<in> c_digest ` set xs"
    then obtain r where "r \<in> set xs" "d = c_digest r" by blast
    then show "d \<in> c_digest ` set ys" using assms [of r] by (metis imageI)
  qed
  have le: "?m xs d \<le> ?m ys d" if d: "d \<in> c_digest ` set xs" for d
  proof (rule Max_mono)
    show "c_size ` set (filter (\<lambda>r. c_digest r = d) xs) \<subseteq> c_size ` set (filter (\<lambda>r. c_digest r = d) ys)"
      using assms by (force simp: image_iff)
    show "c_size ` set (filter (\<lambda>r. c_digest r = d) xs) \<noteq> {}" using d by auto
  qed simp
  have "stored_bytes xs \<le> (\<Sum>d \<in> c_digest ` set xs. ?m ys d)"
    unfolding stored_bytes_def by (rule sum_mono) (rule le)
  also have "\<dots> \<le> stored_bytes ys"
    unfolding stored_bytes_def by (rule sum_mono2) (use sub in auto)
  finally show ?thesis .
qed

lemma stored_bytes_subset: "set xs \<subseteq> set ys \<Longrightarrow> stored_bytes xs \<le> stored_bytes ys"
  by (rule stored_bytes_mono) blast

lemma stored_bytes_touched:
  "stored_bytes (filter (\<lambda>r. P (c_repository r)) (update_where Q (touch_row now) rows)) \<le> stored_bytes (filter (\<lambda>r. P (c_repository r)) rows)"
  by (rule stored_bytes_mono) (auto simp: update_where_def touch_row_def split: if_splits)

lemma stored_bytes_Nil [simp]: "stored_bytes [] = 0"
  by (simp add: stored_bytes_def)

section \<open>Eviction\<close>

lemma evict_filters: "\<exists>Q. evict_to_quota P quota rows = filter Q rows"
proof (induction P quota rows rule: evict_to_quota.induct)
  case (1 P quota rows)
  have keep: "\<exists>Q. rows = filter Q rows" by (rule exI [of _ "\<lambda>_. True"]) simp
  show ?case
  proof (cases "int (stored_bytes (filter P rows)) \<le> quota")
    case True
    then show ?thesis using keep by (simp add: evict_to_quota.simps)
  next
    case False
    show ?thesis
    proof (cases "min_by (\<lambda>r. (c_accessed r, c_created r, c_key r)) (filter P rows)")
      case None
      then have "evict_to_quota P quota rows = rows" by (subst evict_to_quota.simps) (simp add: min_by_def)
      then show ?thesis using keep by simp
    next
      case (Some r)
      then obtain Q where "evict_to_quota P quota (delete_row r rows) = filter Q (delete_row r rows)"
        using 1 False by blast
      then show ?thesis using False Some by (auto simp: evict_to_quota.simps delete_row_def)
    qed
  qed
qed

lemma evict_within_quota: "0 \<le> quota \<Longrightarrow> int (stored_bytes (filter P (evict_to_quota P quota rows))) \<le> quota"
proof (induction P quota rows rule: evict_to_quota.induct)
  case (1 P quota rows)
  show ?case
  proof (cases "int (stored_bytes (filter P rows)) \<le> quota")
    case True
    then show ?thesis by (simp add: evict_to_quota.simps)
  next
    case False
    then have "filter P rows \<noteq> []" using \<open>0 \<le> quota\<close> by (metis of_nat_0 stored_bytes_Nil)
    then obtain r where r: "min_by (\<lambda>r. (c_accessed r, c_created r, c_key r)) (filter P rows) = Some r"
      by (metis min_by_None_iff option.exhaust)
    have "evict_to_quota P quota rows = evict_to_quota P quota (delete_row r rows)"
      using False r by (simp add: evict_to_quota.simps [of P quota rows])
    with "1.IH" [OF False r "1.prems"] show ?thesis by simp
  qed
qed

text \<open>Eviction takes the least recently used entries: whatever survives was used no earlier than what went.\<close>

lemma evict_takes_oldest:
  assumes "r \<in> set rows" and "r \<notin> set (evict_to_quota P quota rows)" and "s \<in> set (evict_to_quota P quota rows)" and "P s"
    and "distinct (map c_id rows)"
  shows "c_accessed r \<le> c_accessed s"
  using assms
proof (induction P quota rows rule: evict_to_quota.induct)
  case (1 P quota rows)
  from "1.prems"(1,2) have over: "\<not> int (stored_bytes (filter P rows)) \<le> quota"
    by (auto simp: evict_to_quota.simps)
  then obtain v where v: "min_by (\<lambda>r. (c_accessed r, c_created r, c_key r)) (filter P rows) = Some v"
    using "1.prems"(1,2) by (cases "min_by (\<lambda>r. (c_accessed r, c_created r, c_key r)) (filter P rows)")
      (auto simp: evict_to_quota.simps)
  have e: "evict_to_quota P quota rows = evict_to_quota P quota (delete_row v rows)"
    using over v by (simp add: evict_to_quota.simps [of P quota rows])
  obtain Q where "evict_to_quota P quota (delete_row v rows) = filter Q (delete_row v rows)" using evict_filters by blast
  then have s: "s \<in> set rows" using "1.prems"(3) e by (auto simp: delete_row_def)
  show ?case
  proof (cases "c_id r = c_id v")
    case True
    then have "r = v" using min_by_in [OF v] "1.prems"(1,5) distinct_key_eq by (metis filter_is_subset subsetD)
    then show ?thesis using min_by_le [OF v, of s] s "1.prems"(4) by (auto simp: less_eq_prod_def)
  next
    case False
    then have "r \<in> set (delete_row v rows)" "distinct (map c_id (delete_row v rows))"
      using "1.prems"(1,5) by (auto simp: delete_row_def distinct_map_filter)
    then show ?thesis using "1.IH" [OF over v] "1.prems"(2-4) e by simp
  qed
qed

section \<open>The invariant of the store\<close>

definition cache_ok :: "(string \<Rightarrow> string) \<Rightarrow> cache_limits \<Rightarrow> cache \<Rightarrow> bool" where
  "cache_ok sha256 cl c \<longleftrightarrow>
     distinct (map c_id (ch_rows c)) \<and>
     (\<forall>r \<in> set (ch_rows c). ch_blobs c (c_digest r) \<noteq> None) \<and>
     (\<forall>d body. ch_blobs c d = Some body \<longrightarrow> sha256 body = d) \<and>
     int (stored_bytes (ch_rows c)) \<le> cl_storage_quota cl \<and>
     (\<forall>repository. int (stored_bytes (filter (\<lambda>r. c_repository r = repository) (ch_rows c))) \<le> cl_repository_quota cl)"

lemma quota_kept:
  assumes "set rows' \<subseteq> set rows" and "int (stored_bytes rows) \<le> q"
  shows "int (stored_bytes rows') \<le> q"
  using stored_bytes_subset [OF assms(1)] assms(2) by linarith

lemma repository_quota_kept:
  assumes "set rows' \<subseteq> set rows" and "int (stored_bytes (filter P rows)) \<le> q"
  shows "int (stored_bytes (filter P rows')) \<le> q"
  by (rule quota_kept [OF _ assms(2)]) (use assms(1) in auto)

text \<open>Dropping rows, and then the blobs nothing names, keeps the invariant; so does touching a row.\<close>

lemma cache_ok_filtered:
  assumes "cache_ok sha256 cl c" and "ch_rows c' = filter P (ch_rows c)"
    and "ch_blobs c' = ch_blobs c \<or> ch_blobs c' = collect_blobs (ch_rows c') (ch_blobs c)"
  shows "cache_ok sha256 cl c'"
proof -
  have sub: "set (ch_rows c') \<subseteq> set (ch_rows c)" using assms(2) by auto
  have "distinct (map c_id (ch_rows c'))" using assms(1,2) by (simp add: cache_ok_def distinct_map_filter)
  moreover have "\<forall>r \<in> set (ch_rows c'). ch_blobs c' (c_digest r) \<noteq> None"
    using assms(1,3) sub by (auto simp: cache_ok_def collect_blobs_def restrict_map_def)
  moreover have "\<forall>d body. ch_blobs c' d = Some body \<longrightarrow> sha256 body = d"
    using assms(1,3) by (auto simp: cache_ok_def collect_blobs_def restrict_map_def split: if_splits)
  ultimately show ?thesis
    using assms(1) quota_kept [OF sub] repository_quota_kept [OF sub] by (simp add: cache_ok_def)
qed

interpretation touching: row_update c_id "touch_row now" for now
  by unfold_locales (simp add: c_id_def touch_row_def)

lemma cache_ok_touched:
  assumes "cache_ok sha256 cl c" and "ch_rows c' = update_where P (touch_row now) (ch_rows c)" and "ch_blobs c' = ch_blobs c"
  shows "cache_ok sha256 cl c'"
proof -
  have le: "int (stored_bytes (filter (\<lambda>r. Q (c_repository r)) (ch_rows c'))) \<le> q"
    if "int (stored_bytes (filter (\<lambda>r. Q (c_repository r)) (ch_rows c))) \<le> q" for Q q
    using stored_bytes_touched [of Q P now "ch_rows c"] that unfolding assms(2) by linarith
  have "distinct (map c_id (ch_rows c'))" using assms(1,2) by (simp add: cache_ok_def touching.keys)
  moreover have "\<forall>r \<in> set (ch_rows c'). ch_blobs c' (c_digest r) \<noteq> None"
    using assms by (auto simp: cache_ok_def update_where_def touch_row_def)
  ultimately show ?thesis
    using assms(1,3) le [of "\<lambda>_. True"] le [of "\<lambda>x. x = _"] by (simp add: cache_ok_def)
qed

lemma enforce_quota_filters: "\<exists>Q. enforce_quota cl repository rows = filter Q rows"
  unfolding enforce_quota_def using evict_filters by (metis filter_filter)

lemma cache_ok_stored:
  assumes "distinct (map c_id rows)" and "\<And>r. r \<in> set rows \<Longrightarrow> blobs (c_digest r) \<noteq> None"
    and "\<And>d body. blobs d = Some body \<Longrightarrow> sha256 body = d"
    and "\<And>other. other \<noteq> repository \<Longrightarrow> int (stored_bytes (filter (\<lambda>r. c_repository r = other) rows)) \<le> cl_repository_quota cl"
    and "0 \<le> cl_repository_quota cl" "0 \<le> cl_storage_quota cl"
    and "ch_rows c = enforce_quota cl repository rows" and "ch_blobs c = collect_blobs (ch_rows c) blobs"
  shows "cache_ok sha256 cl c"
proof -
  obtain Q where Q: "ch_rows c = filter Q rows" using enforce_quota_filters assms(7) by metis
  let ?mid = "evict_to_quota (\<lambda>r. c_repository r = repository) (cl_repository_quota cl) rows"
  have mid: "set (ch_rows c) \<subseteq> set ?mid"
    using evict_filters [of "\<lambda>_. True" "cl_storage_quota cl" ?mid] assms(7) by (auto simp: enforce_quota_def)
  have "int (stored_bytes (ch_rows c)) \<le> cl_storage_quota cl"
    using evict_within_quota [OF assms(6), of "\<lambda>_. True" ?mid] assms(7) by (simp add: enforce_quota_def)
  moreover have "int (stored_bytes (filter (\<lambda>r. c_repository r = other) (ch_rows c))) \<le> cl_repository_quota cl" for other
  proof (cases "other = repository")
    case True
    then show ?thesis using repository_quota_kept [OF mid evict_within_quota [OF assms(5)]] by simp
  next
    case False
    then show ?thesis using repository_quota_kept [OF _ assms(4) [OF False], of "ch_rows c"] Q by auto
  qed
  moreover have "distinct (map c_id (ch_rows c))" using assms(1) Q by (simp add: distinct_map_filter)
  moreover have "\<forall>r \<in> set (ch_rows c). ch_blobs c (c_digest r) \<noteq> None"
    using assms(2,8) Q by (auto simp: collect_blobs_def restrict_map_def)
  moreover have "\<forall>d body. ch_blobs c d = Some body \<longrightarrow> sha256 body = d"
    using assms(3,8) by (auto simp: collect_blobs_def restrict_map_def split: if_splits)
  ultimately show ?thesis by (simp add: cache_ok_def)
qed

definition limits_ok :: "cache_limits \<Rightarrow> bool" where
  "limits_ok cl \<longleftrightarrow> 1 \<le> cl_ttl cl \<and> 1 \<le> cl_repository_quota cl \<and> 1 \<le> cl_storage_quota cl \<and> 1 \<le> cl_max_blob cl"

definition empty_cache :: cache where
  "empty_cache = \<lparr>ch_rows = [], ch_blobs = Map.empty, ch_hits = 0, ch_misses = 0, ch_writes = 0, ch_bytes_written = 0\<rparr>"

lemma new_cache_Inr: "new_cache cl = Inr c \<longleftrightarrow> limits_ok cl \<and> c = empty_cache"
  by (auto simp: new_cache_def limits_ok_def empty_cache_def)

lemma cache_lookup_ok:
  assumes "cache_ok sha256 cl c" and "cache_lookup cl repository branch architecture key restore_keys now c = Inr (c', e)"
  shows "cache_ok sha256 cl c'"
proof -
  let ?rows = "expire_rows cl now (ch_rows c)"
  let ?c = "c\<lparr>ch_rows := ?rows, ch_blobs := collect_blobs ?rows (ch_blobs c)\<rparr>"
  have base: "cache_ok sha256 cl ?c"
    by (rule cache_ok_filtered [OF assms(1)]) (simp_all add: expire_rows_def)
  have touched: "cache_ok sha256 cl (?c\<lparr>ch_rows := update_where P (touch_row now) ?rows\<rparr>)" for P
    by (rule cache_ok_touched [OF base]) simp_all
  from assms(2) have "ch_blobs c' = ch_blobs ?c"
    and "ch_rows c' = ?rows \<or> (\<exists>found. ch_rows c' = update_where (\<lambda>s. c_id s = c_id found) (touch_row now) ?rows) \<or>
     (\<exists>found. ch_rows c' = delete_row found (update_where (\<lambda>s. c_id s = c_id found) (touch_row now) ?rows))"
    unfolding cache_lookup_def rbind_Inr_conv Let_def
    by (auto split: if_splits option.splits)
  then obtain found where c': "ch_blobs c' = ch_blobs ?c"
    "ch_rows c' = ?rows \<or> ch_rows c' = update_where (\<lambda>s. c_id s = c_id found) (touch_row now) ?rows \<or>
     ch_rows c' = delete_row found (update_where (\<lambda>s. c_id s = c_id found) (touch_row now) ?rows)"
    by blast
  have same: "cache_ok sha256 cl c'" if "cache_ok sha256 cl d" "ch_rows c' = ch_rows d" "ch_blobs c' = ch_blobs d" for d
    using that by (simp add: cache_ok_def)
  show ?thesis
    using c'(2) same [OF base] same [OF touched] c'(1)
      cache_ok_filtered [OF touched, of c' "\<lambda>s. c_id s \<noteq> c_id found"]
    by (auto simp: delete_row_def)
qed

lemma expire_idem: "expire_rows cl now (expire_rows cl now rows) = expire_rows cl now rows"
  by (simp add: expire_rows_def)

lemma expire_fresh: "limits_ok cl \<Longrightarrow> c_accessed r = now \<Longrightarrow> expire_rows cl now (rows @ [r]) = expire_rows cl now rows @ [r]"
  by (simp add: expire_rows_def limits_ok_def)

lemma cache_put_cases:
  assumes "cache_put sha256 cl repository branch architecture key upload content_length now c = Inr (c', e, created)"
    and "limits_ok cl"
  defines "rows \<equiv> expire_rows cl now (ch_rows c)"
    and "body \<equiv> take (nat content_length) upload"
  obtains (kept) r where "\<not> created" "e = cache_entry_of r" "lookup_by c_id (repository, branch, architecture, key) rows = Some r"
      "ch_rows c' = rows" "ch_blobs c' = ch_blobs c \<or> ch_blobs c' = collect_blobs rows (ch_blobs c)"
  | (stored) blobs r where "created" "lookup_by c_id (repository, branch, architecture, key) rows = None"
      "r = \<lparr>c_repository = repository, c_branch = branch, c_architecture = architecture, c_key = key,
            c_digest = sha256 body, c_size = length body, c_created = now, c_accessed = now\<rparr>"
      "e = cache_entry_of r" "ch_rows c' = enforce_quota cl repository (rows @ [r])"
      "ch_blobs c' = collect_blobs (ch_rows c') blobs" "length body = nat content_length"
      "blobs (sha256 body) \<noteq> None" "\<And>d b. blobs d = Some b \<Longrightarrow> ch_blobs c d = Some b \<or> d = sha256 body \<and> b = body"
      "\<And>d. d \<in> c_digest ` set rows \<Longrightarrow> ch_blobs c d \<noteq> None \<Longrightarrow> blobs d \<noteq> None"
proof -
  note put = assms(1) [unfolded cache_put_def rbind_Inr_conv Let_def, folded rows_def body_def]
  have fresh: "expire_rows cl now (rows @ [r]) = rows @ [r]" if "c_accessed r = now" for r
    using expire_fresh [OF assms(2) that, of rows] by (simp add: rows_def expire_idem)
  show ?thesis
  proof (cases "lookup_by c_id (repository, branch, architecture, key) rows")
    case (Some r)
    then show ?thesis using put by (intro kept [of r]) (auto split: if_splits)
  next
    case None
    let ?blobs = "if length rows < length (ch_rows c) then collect_blobs rows (ch_blobs c) else ch_blobs c"
    let ?all = "if ?blobs (sha256 body) = None then ?blobs(sha256 body \<mapsto> body) else ?blobs"
    let ?r = "\<lparr>c_repository = repository, c_branch = branch, c_architecture = architecture, c_key = key,
            c_digest = sha256 body, c_size = length body, c_created = now, c_accessed = now\<rparr>"
    from put None have c': "c' = c\<lparr>ch_rows := enforce_quota cl repository (rows @ [?r]),
        ch_blobs := collect_blobs (enforce_quota cl repository (rows @ [?r])) ?all, ch_writes := ch_writes c + 1,
        ch_bytes_written := ch_bytes_written c + int (length body)\<rparr>" "e = cache_entry_of ?r" "created" "length body = nat content_length"
      by (auto simp: fresh body_def split: if_splits)
    show ?thesis
      by (rule stored [of ?r ?all])
         (use None c' in \<open>auto simp: collect_blobs_def restrict_map_def split: if_splits\<close>)
  qed
qed

lemma cache_put_ok:
  assumes "cache_ok sha256 cl c" and "limits_ok cl"
    and "cache_put sha256 cl repository branch architecture key upload content_length now c = Inr (c', e, created)"
  shows "cache_ok sha256 cl c'"
  using assms(3,2)
proof (cases rule: cache_put_cases)
  case (kept r)
  show ?thesis
    by (rule cache_ok_filtered [OF assms(1)]) (use kept in \<open>simp_all add: expire_rows_def\<close>)
next
  case (stored blobs r)
  let ?rows = "expire_rows cl now (ch_rows c)"
  have sub: "set ?rows \<subseteq> set (ch_rows c)" by (auto simp: expire_rows_def)
  show ?thesis
  proof (rule cache_ok_stored [where rows = "?rows @ [r]" and repository = repository and blobs = blobs])
    have "distinct (map c_id ?rows)" using assms(1) by (simp add: cache_ok_def expire_rows_def distinct_map_filter)
    then show "distinct (map c_id (?rows @ [r]))"
      using stored(2,3) by (auto simp: lookup_by_None_iff c_id_def image_iff)
    show "blobs (c_digest q) \<noteq> None" if "q \<in> set (?rows @ [r])" for q
      using that stored(3,8,10) assms(1) sub by (auto simp: cache_ok_def)
    show "sha256 b = d" if "blobs d = Some b" for d b
      using stored(9) [OF that] assms(1) by (auto simp: cache_ok_def)
    show "int (stored_bytes (filter (\<lambda>q. c_repository q = other) (?rows @ [r]))) \<le> cl_repository_quota cl"
      if "other \<noteq> repository" for other
      using repository_quota_kept [OF sub, of "\<lambda>q. c_repository q = other"] assms(1) stored(3) that
      by (simp add: cache_ok_def)
  qed (use assms(2) stored(5,6) in \<open>simp_all add: limits_ok_def\<close>)
qed

section \<open>Every reachable cache\<close>

datatype cache_event =
    Cache_Lookup string string string string "string list" real
  | Cache_Put string string string string string int real

fun cache_step :: "(string \<Rightarrow> string) \<Rightarrow> cache_limits \<Rightarrow> cache \<Rightarrow> cache_event \<Rightarrow> cache" where
  "cache_step sha256 cl c (Cache_Lookup repository branch architecture key restore_keys now) =
     (case cache_lookup cl repository branch architecture key restore_keys now c of Inl _ \<Rightarrow> c | Inr (c', _) \<Rightarrow> c')"
| "cache_step sha256 cl c (Cache_Put repository branch architecture key upload content_length now) =
     (case cache_put sha256 cl repository branch architecture key upload content_length now c of Inl _ \<Rightarrow> c | Inr (c', _) \<Rightarrow> c')"

interpretation cache_system: invariant_system empty_cache "cache_step sha256 cl" "\<lambda>c. limits_ok cl \<longrightarrow> cache_ok sha256 cl c"
  for sha256 cl
proof
  show "limits_ok cl \<longrightarrow> cache_ok sha256 cl empty_cache"
    by (simp add: limits_ok_def cache_ok_def empty_cache_def)
  show "limits_ok cl \<longrightarrow> cache_ok sha256 cl (cache_step sha256 cl c e)" if "limits_ok cl \<longrightarrow> cache_ok sha256 cl c" for c e
    using that by (cases e) (auto split: sum.splits intro: cache_lookup_ok cache_put_ok)
qed

text \<open>
  C29: the cache stays within its quotas. Whatever is stored and looked up, at whatever times, the
  bytes the entries keep on disk, a shared blob counted once, never exceed the storage quota, and
  those of each repository never exceed the repository quota; the eviction loop that ensures it
  ends on every table.
\<close>

theorem cache_stays_within_quota:
  assumes "new_cache cl = Inr c0" and "c = run_steps (cache_step sha256 cl) c0 es"
  shows "int (stored_bytes (ch_rows c)) \<le> cl_storage_quota cl \<and>
     int (stored_bytes (filter (\<lambda>r. c_repository r = repository) (ch_rows c))) \<le> cl_repository_quota cl"
  using cache_system.inv_run [of cl sha256 es] assms by (simp add: new_cache_Inr cache_ok_def)

lemma restore_match_some:
  "restore_match rows ps = Some r \<Longrightarrow> r \<in> set rows \<and> (\<exists>p \<in> set ps. prefix p (c_key r))"
  by (induction ps) (auto split: option.splits dest!: min_by_in simp: take_is_prefix, metis take_is_prefix)

lemma cache_lookup_hit:
  assumes "cache_lookup cl repository branch architecture key restore_keys now c = Inr (c', Some e)"
  obtains r where "r \<in> set (expire_rows cl now (ch_rows c))" "e = cache_entry_of r" "in_scope repository branch architecture r"
    "c_key r = key \<or> (\<exists>p \<in> set restore_keys. prefix p (c_key r)) \<and>
       lookup_by c_id (repository, branch, architecture, key) (expire_rows cl now (ch_rows c)) = None"
    "ch_rows c' = update_where (\<lambda>s. c_id s = c_id r) (touch_row now) (expire_rows cl now (ch_rows c))"
    "ch_blobs c' (c_digest r) \<noteq> None" "ch_blobs c' = collect_blobs (expire_rows cl now (ch_rows c)) (ch_blobs c)"
proof -
  let ?rows = "expire_rows cl now (ch_rows c)"
  let ?found = "case lookup_by c_id (repository, branch, architecture, key) ?rows of Some r \<Rightarrow> Some r
      | None \<Rightarrow> restore_match (filter (in_scope repository branch architecture) ?rows) restore_keys"
  from assms obtain r where r: "?found = Some r" "e = cache_entry_of r"
      "ch_rows c' = update_where (\<lambda>s. c_id s = c_id r) (touch_row now) ?rows"
      "ch_blobs c' (c_digest r) \<noteq> None" "ch_blobs c' = collect_blobs ?rows (ch_blobs c)"
    by (auto simp: cache_lookup_def rbind_Inr_conv Let_def split: if_splits option.splits)
  then have "r \<in> set ?rows \<and> in_scope repository branch architecture r \<and>
      (c_key r = key \<or> (\<exists>p \<in> set restore_keys. prefix p (c_key r)) \<and>
         lookup_by c_id (repository, branch, architecture, key) ?rows = None)"
  proof (cases "lookup_by c_id (repository, branch, architecture, key) ?rows")
    case (Some q)
    then show ?thesis using r(1) lookup_by_Some_in [OF Some] by (auto simp: c_id_def in_scope_def)
  next
    case None
    then show ?thesis
      using r(1) restore_match_some [of "filter (in_scope repository branch architecture) ?rows" restore_keys r] by auto
  qed
  with r that show ?thesis by blast
qed

text \<open>Every stored row passed the scope check, and its digest is one the hash gave.\<close>

definition rows_valid :: "(string \<Rightarrow> string) \<Rightarrow> cache_row list \<Rightarrow> bool" where
  "rows_valid sha256 rows \<longleftrightarrow>
     (\<forall>r \<in> set rows. validate_scope (c_repository r) (c_branch r) (c_architecture r) (c_key r) = Inr () \<and> c_digest r \<in> range sha256)"

lemma rows_valid_subset: "rows_valid sha256 rows \<Longrightarrow> set rows' \<subseteq> set rows \<Longrightarrow> rows_valid sha256 rows'"
  unfolding rows_valid_def by blast

lemma rows_valid_filter: "rows_valid sha256 rows \<Longrightarrow> rows_valid sha256 (filter P rows)"
  by (rule rows_valid_subset) auto

lemma rows_valid_touched: "rows_valid sha256 rows \<Longrightarrow> rows_valid sha256 (update_where P (touch_row now) rows)"
  by (auto simp: rows_valid_def update_where_def touch_row_def)

lemma rows_valid_lookup:
  assumes "rows_valid sha256 (ch_rows c)" and "cache_lookup cl repository branch architecture key restore_keys now c = Inr (c', e)"
  shows "rows_valid sha256 (ch_rows c')"
proof -
  have base: "rows_valid sha256 (expire_rows cl now (ch_rows c))"
    by (rule rows_valid_subset [OF assms(1)]) (auto simp: expire_rows_def)
  show ?thesis
    using assms(2) base rows_valid_touched [OF base]
    unfolding cache_lookup_def rbind_Inr_conv Let_def
    by (auto simp: delete_row_def rows_valid_filter split: if_splits option.splits)
qed

lemma rows_valid_put:
  assumes "rows_valid sha256 (ch_rows c)" and "limits_ok cl"
    and "cache_put sha256 cl repository branch architecture key upload content_length now c = Inr (c', e, created)"
  shows "rows_valid sha256 (ch_rows c')"
proof -
  have valid: "validate_scope repository branch architecture key = Inr ()"
    using assms(3) by (auto simp: cache_put_def rbind_Inr_conv)
  from assms(3,2) show ?thesis
  proof (cases rule: cache_put_cases)
    case (kept r)
    then show ?thesis using rows_valid_subset [OF assms(1)] by (auto simp: expire_rows_def)
  next
    case (stored blobs r)
    have "rows_valid sha256 (ch_rows c @ [r])" using assms(1) valid stored(3) by (auto simp: rows_valid_def)
    moreover have "set (ch_rows c') \<subseteq> set (ch_rows c @ [r])"
      using stored(5) enforce_quota_filters [of cl repository "expire_rows cl now (ch_rows c) @ [r]"]
      by (auto simp: expire_rows_def split: if_splits)
    ultimately show ?thesis by (rule rows_valid_subset)
  qed
qed

interpretation valid_system: invariant_system empty_cache "cache_step sha256 cl" "\<lambda>c. limits_ok cl \<longrightarrow> rows_valid sha256 (ch_rows c)"
  for sha256 cl
proof
  show "limits_ok cl \<longrightarrow> rows_valid sha256 (ch_rows empty_cache)"
    by (simp add: rows_valid_def empty_cache_def)
  show "limits_ok cl \<longrightarrow> rows_valid sha256 (ch_rows (cache_step sha256 cl c e))"
    if "limits_ok cl \<longrightarrow> rows_valid sha256 (ch_rows c)" for c e
    using that by (cases e) (auto split: sum.splits intro: rows_valid_lookup rows_valid_put)
qed

text \<open>
  A hit is in scope and can be read. In every reachable cache a lookup that hits answers an
  entry of the very repository, branch and architecture it asked for, under the key itself, or under
  a restore prefix when the key has no entry; the entry has not expired; and opening its blob at that
  moment yields a content with the entry's digest. The hash is assumed to answer 64 lower-case
  hexadecimal digits, which is what \<open>hexdigest\<close> of a SHA-256 is.
\<close>

theorem cache_hit_is_scoped_and_served:
  assumes "new_cache cl = Inr c0" and "c = run_steps (cache_step sha256 cl) c0 es"
    and "cache_lookup cl repository branch architecture key restore_keys now c = Inr (c', Some e)"
    and "\<And>body. digest_ok (sha256 body)"
  shows "ce_repository e = repository \<and> ce_branch e = branch \<and> ce_architecture e = architecture \<and>
     (ce_key e = key \<or>
      (\<exists>p \<in> set restore_keys. prefix p (ce_key e)) \<and>
      (\<forall>r \<in> set (ch_rows c). c_id r = (repository, branch, architecture, key) \<longrightarrow> c_accessed r < now - of_int (cl_ttl cl))) \<and>
     (\<exists>body. open_blob cl (ce_digest e) repository branch architecture (ce_key e) now c' = Inr body \<and> sha256 body = ce_digest e)"
  using assms(3)
proof (cases rule: cache_lookup_hit)
  case (1 r)
  have ok: "limits_ok cl" "cache_ok sha256 cl c'"
    using cache_lookup_ok [OF _ assms(3)] cache_system.inv_run [of cl sha256 es] assms(1,2) by (auto simp: new_cache_Inr)
  have e: "ce_repository e = repository" "ce_branch e = branch" "ce_architecture e = architecture" "ce_key e = c_key r"
      "ce_digest e = c_digest r"
    using 1(2,3) by (simp_all add: cache_entry_of_def in_scope_def)
  have "rows_valid sha256 (ch_rows c)" using valid_system.inv_run [of cl sha256 es] assms(1,2) by (simp add: new_cache_Inr)
  then have valid: "validate_scope repository branch architecture (ce_key e) = Inr ()" "digest_ok (ce_digest e)"
    using 1(1,3) e assms(4) by (auto simp: rows_valid_def expire_rows_def in_scope_def)
  have key: "ce_key e = key \<or> (\<exists>p \<in> set restore_keys. prefix p (ce_key e)) \<and>
      (\<forall>r \<in> set (ch_rows c). c_id r = (repository, branch, architecture, key) \<longrightarrow> c_accessed r < now - of_int (cl_ttl cl))"
    using 1(4) e(4) by (auto simp: lookup_by_None_iff expire_rows_def image_iff)
  have "touch_row now r \<in> set (ch_rows c')" using 1(1,5) by (force simp: set_update_where)
  moreover have "c_id (touch_row now r) = (repository, branch, architecture, ce_key e)" "c_accessed (touch_row now r) = now"
      "c_digest (touch_row now r) = ce_digest e"
    using 1(3) e by (simp_all add: c_id_def touch_row_def in_scope_def)
  moreover obtain body where "ch_blobs c' (ce_digest e) = Some body" using 1(6) e(5) by auto
  ultimately have "\<exists>body. open_blob cl (ce_digest e) repository branch architecture (ce_key e) now c' = Inr body \<and> sha256 body = ce_digest e"
    using valid ok by (auto simp: open_blob_def list_ex_iff limits_ok_def cache_ok_def)
  then show ?thesis using e(1-3) key by blast
qed

text \<open>
  The first write of a key wins. Storing under a key that has an unexpired entry changes no entry
  of it and answers that entry; storing under a free key adds at most the one entry with the digest
  and the length of the uploaded body, and every other entry of the table was there before.
\<close>

theorem cache_first_write_wins:
  assumes "new_cache cl = Inr c0" and "c = run_steps (cache_step sha256 cl) c0 es"
    and "cache_put sha256 cl repository branch architecture key upload content_length now c = Inr (c', e, created)"
  shows "if created
     then (\<forall>r \<in> set (ch_rows c). c_id r = (repository, branch, architecture, key) \<longrightarrow> c_accessed r < now - of_int (cl_ttl cl)) \<and>
          ce_digest e = sha256 (take (nat content_length) upload) \<and> ce_size e = nat content_length \<and>
          (\<forall>r \<in> set (ch_rows c'). r \<in> set (ch_rows c) \<or> cache_entry_of r = e)
     else (\<exists>r \<in> set (ch_rows c). c_id r = (repository, branch, architecture, key) \<and> e = cache_entry_of r \<and> r \<in> set (ch_rows c')) \<and>
          set (ch_rows c') \<subseteq> set (ch_rows c)"
proof -
  have ok: "limits_ok cl" using assms(1) by (simp add: new_cache_Inr)
  from assms(3) ok show ?thesis
  proof (cases rule: cache_put_cases)
    case (kept r)
    then show ?thesis using lookup_by_Some_in [OF kept(3)] by (auto simp: expire_rows_def)
  next
    case (stored blobs r)
    obtain Q where Q: "ch_rows c' = filter Q (expire_rows cl now (ch_rows c) @ [r])"
      using enforce_quota_filters stored(5) by metis
    have "\<forall>q \<in> set (ch_rows c'). q \<in> set (ch_rows c) \<or> cache_entry_of q = e"
      using stored(4) unfolding Q by (auto simp: expire_rows_def)
    moreover have "ce_digest e = sha256 (take (nat content_length) upload)" "ce_size e = nat content_length"
      using stored(3,4,7) by (simp_all add: cache_entry_of_def)
    moreover have "\<forall>r \<in> set (ch_rows c). c_id r = (repository, branch, architecture, key) \<longrightarrow> c_accessed r < now - of_int (cl_ttl cl)"
      using stored(2) by (auto simp: lookup_by_None_iff expire_rows_def image_iff)
    ultimately show ?thesis using stored(1) by simp
  qed
qed

section \<open>A concrete cache\<close>

definition example_limits :: cache_limits where
  "example_limits = \<lparr>cl_ttl = 10, cl_repository_quota = 100, cl_storage_quota = 100, cl_max_blob = 100\<rparr>"

definition example_digest :: string where "example_digest = replicate 64 CHR ''0''"

definition example_cache_row :: cache_row where
  "example_cache_row = \<lparr>c_repository = ''o/r'', c_branch = ''main'', c_architecture = ''x64'', c_key = ''deps-1'',
     c_digest = example_digest, c_size = 3, c_created = 0, c_accessed = 0\<rparr>"

definition example_puts :: "cache_event list" where
  "example_puts = [Cache_Put ''o/r'' ''main'' ''x64'' ''deps-1'' ''abcd'' 3 0]"

lemma example_new: "new_cache example_limits = Inr empty_cache"
  by (simp add: new_cache_Inr limits_ok_def example_limits_def)

lemma example_scope: "validate_scope ''o/r'' ''main'' ''x64'' ''deps-1'' = Inr ()" "validate_scope ''o/r'' ''main'' ''x64'' ''deps-2'' = Inr ()"
    "cache_key_ok ''deps-''"
  by code_simp+

lemma example_stored:
  "run_steps (cache_step (\<lambda>_. example_digest) example_limits) empty_cache example_puts =
     empty_cache\<lparr>ch_rows := [example_cache_row], ch_blobs := [example_digest \<mapsto> ''abc''], ch_writes := 1, ch_bytes_written := 3\<rparr>"
proof -
  have "enforce_quota example_limits ''o/r'' [example_cache_row] = [example_cache_row]"
    by (simp add: enforce_quota_def evict_to_quota.simps stored_bytes_def example_limits_def example_cache_row_def)
  then have quota: "enforce_quota example_limits ''o/r'' (expire_rows example_limits 0 [example_cache_row]) = [example_cache_row]"
    by (simp add: expire_rows_def example_limits_def example_cache_row_def)
  have row: "\<lparr>c_repository = ''o/r'', c_branch = ''main'', c_architecture = ''x64'', c_key = ''deps-1'',
      c_digest = example_digest, c_size = length (take (nat 3) ''abcd''), c_created = 0, c_accessed = 0\<rparr> = example_cache_row"
    by (simp add: example_cache_row_def)
  have "cache_put (\<lambda>_. example_digest) example_limits ''o/r'' ''main'' ''x64'' ''deps-1'' ''abcd'' 3 0 empty_cache =
      Inr (empty_cache\<lparr>ch_rows := [example_cache_row], ch_blobs := [example_digest \<mapsto> ''abc''], ch_writes := 1,
             ch_bytes_written := 3\<rparr>, cache_entry_of example_cache_row, True)"
    unfolding cache_put_def Let_def example_scope row
    by (simp add: empty_cache_def example_limits_def [THEN arg_cong [of _ _ cl_max_blob]]
        example_limits_def [THEN arg_cong [of _ _ cl_repository_quota]] expire_rows_def [of _ _ "[]"] lookup_by_def quota
        collect_blobs_def restrict_map_def fun_eq_iff)
       (simp add: example_cache_row_def)
  then show ?thesis by (simp add: example_puts_def)
qed

lemma example_hit:
  "\<exists>c'. cache_lookup example_limits ''o/r'' ''main'' ''x64'' ''deps-2'' [''deps-''] 1
      (run_steps (cache_step (\<lambda>_. example_digest) example_limits) empty_cache example_puts) =
     Inr (c', Some (cache_entry_of example_cache_row))"
  unfolding example_stored
  by (simp add: cache_lookup_def example_scope expire_rows_def collect_blobs_def restrict_map_def lookup_by_def c_id_def
      in_scope_def min_by_def example_cache_row_def example_limits_def)

theorem cache_stays_within_quota_witness:
  "int (stored_bytes (ch_rows (run_steps (cache_step (\<lambda>_. example_digest) example_limits) empty_cache example_puts))) \<le> 100 \<and>
   int (stored_bytes (filter (\<lambda>r. c_repository r = ''o/r'')
     (ch_rows (run_steps (cache_step (\<lambda>_. example_digest) example_limits) empty_cache example_puts)))) \<le> 100"
  using cache_stays_within_quota [OF example_new refl] by (simp add: example_limits_def)

theorem cache_hit_is_scoped_and_served_witness:
  "\<exists>c' body. open_blob example_limits example_digest ''o/r'' ''main'' ''x64'' ''deps-1'' 1 c' = Inr body"
proof -
  obtain c' where hit: "cache_lookup example_limits ''o/r'' ''main'' ''x64'' ''deps-2'' [''deps-''] 1
      (run_steps (cache_step (\<lambda>_. example_digest) example_limits) empty_cache example_puts) =
     Inr (c', Some (cache_entry_of example_cache_row))" using example_hit by blast
  have "ce_key (cache_entry_of example_cache_row) = ''deps-1''" "ce_digest (cache_entry_of example_cache_row) = example_digest"
    by (simp_all add: cache_entry_of_def example_cache_row_def)
  moreover have "digest_ok example_digest" by (simp add: digest_ok_def example_digest_def list_all_iff)
  ultimately show ?thesis using cache_hit_is_scoped_and_served [OF example_new refl hit] by auto
qed

theorem cache_first_write_wins_witness:
  "\<exists>c' e. cache_put (\<lambda>_. example_digest) example_limits ''o/r'' ''main'' ''x64'' ''deps-1'' ''zz'' 2 1
      (run_steps (cache_step (\<lambda>_. example_digest) example_limits) empty_cache example_puts) = Inr (c', e, False) \<and>
     (\<exists>r \<in> set (ch_rows c'). e = cache_entry_of r)"
proof -
  have "\<exists>c' e. cache_put (\<lambda>_. example_digest) example_limits ''o/r'' ''main'' ''x64'' ''deps-1'' ''zz'' 2 1
      (run_steps (cache_step (\<lambda>_. example_digest) example_limits) empty_cache example_puts) = Inr (c', e, False)"
    unfolding example_stored
    by (simp add: cache_put_def example_scope expire_rows_def lookup_by_def c_id_def example_cache_row_def example_limits_def)
  then obtain c' e where put: "cache_put (\<lambda>_. example_digest) example_limits ''o/r'' ''main'' ''x64'' ''deps-1'' ''zz'' 2 1
      (run_steps (cache_step (\<lambda>_. example_digest) example_limits) empty_cache example_puts) = Inr (c', e, False)" by blast
  with cache_first_write_wins [OF example_new refl put] show ?thesis by auto
qed

end
