(* ===== verification/Job_Condition.thy ===== *)
theory Job_Condition
  imports Cindral_Prelude
begin

text \<open>
  A job's own \<open>if:\<close> condition (\<open>jobcondition.py\<close>): the tokenizer, the recursive-descent
  evaluator and its three-valued verdict. The evaluator takes the context as a function from a path to
  the value the run carries (\<open>RunContext.value\<close>), and Python's \<open>float\<close> of a text as a
  parameter, because its rounding is the platform's. The set of unread names the code passes down and
  adds to is returned: each part answers the names it adds.

  The four mutually recursive functions and their loops carry a fuel that every call spends one of;
  \<open>Out_Of_Fuel\<close> is no answer of the code, and the fuel of \<open>evaluate_condition\<close> is shown to
  be enough for every condition.
\<close>

section \<open>Tokens\<close>

datatype token_kind = T_Operator | T_String | T_Path | T_Number

type_synonym token = "token_kind \<times> string"

datatype condition_error =
    Condition_Empty
  | Unreadable string
  | Nests_Too_Deep string
  | Ends_After_Operator
  | Unbalanced_Parenthesis
  | Not_A_Float string
  | Out_Of_Fuel

definition letter :: "char \<Rightarrow> bool" where
  "letter c \<longleftrightarrow> CHR ''A'' \<le> c \<and> c \<le> CHR ''Z'' \<or> CHR ''a'' \<le> c \<and> c \<le> CHR ''z'' \<or> c = CHR ''_''"

definition digit :: "char \<Rightarrow> bool" where
  "digit c \<longleftrightarrow> CHR ''0'' \<le> c \<and> c \<le> CHR ''9''"

definition word_char :: "char \<Rightarrow> bool" where
  "word_char c \<longleftrightarrow> letter c \<or> digit c"

definition OPERATORS :: "string list" where
  "OPERATORS = [''||'', ''&&'', ''=='', ''!='', ''!'', ''('', '')'']"

text \<open>The rest of a quoted literal after its opening quote: a doubled quote is part of it wherever
  a closing quote still follows, which is where the pattern backtracks to.\<close>

fun scan_string :: "char \<Rightarrow> string \<Rightarrow> (string \<times> string) option" where
  "scan_string q [] = None"
| "scan_string q (c # s) =
     (if c \<noteq> q then map_option (\<lambda>(body, rest). (c # body, rest)) (scan_string q s)
      else case s of
             [] \<Rightarrow> Some ([], s)
           | d # t \<Rightarrow>
               if d = q
               then (case scan_string q t of Some (body, rest) \<Rightarrow> Some (q # q # body, rest) | None \<Rightarrow> Some ([], s))
               else Some ([], s))"

function scan_dotted :: "string \<Rightarrow> string" where
  "scan_dotted s =
     (case s of
        [] \<Rightarrow> []
      | c # t \<Rightarrow>
          (let w = takeWhile (\<lambda>x. word_char x \<or> x = CHR ''-'') t
           in if c = CHR ''.'' \<and> w \<noteq> [] then CHR ''.'' # w @ scan_dotted (drop (length w) t) else []))"
  by pat_completeness auto

termination by (relation "measure length") auto

declare scan_dotted.simps [simp del]

definition scan_path :: "string \<Rightarrow> string" where
  "scan_path s = (let w = takeWhile word_char s in w @ scan_dotted (drop (length w) s))"

definition scan_number :: "string \<Rightarrow> string" where
  "scan_number s =
     (let sign = takeWhile (\<lambda>c. c = CHR ''-'') (take 1 s);
          whole = takeWhile digit (drop (length sign) s);
          tl1 = drop (length sign + length whole) s;
          frac = (case tl1 of c # t \<Rightarrow> if c = CHR ''.'' then takeWhile digit t else [] | [] \<Rightarrow> [])
      in if whole = [] then [] else sign @ whole @ (if frac = [] then [] else CHR ''.'' # frac))"

text \<open>The token a text that starts with no space begins with, by the alternatives of \<open>TOKEN\<close> in
  their order; \<open>None\<close> is the alternative \<open>other\<close>, which the tokenizer refuses.\<close>

definition next_token :: "string \<Rightarrow> token option" where
  "next_token s =
     (case find (\<lambda>op. prefix op s) OPERATORS of
        Some op \<Rightarrow> Some (T_Operator, op)
      | None \<Rightarrow>
          (case s of
             [] \<Rightarrow> None
           | c # t \<Rightarrow>
               if c \<in> {CHR 0x27, CHR 0x22}
               then map_option (\<lambda>(body, rest). (T_String, c # body @ [c])) (scan_string c t)
               else if letter c then Some (T_Path, scan_path s)
               else if scan_number s \<noteq> [] then Some (T_Number, scan_number s)
               else None))"

lemma scan_path_nonempty: "letter c \<Longrightarrow> scan_path (c # t) \<noteq> []"
  by (simp add: scan_path_def word_char_def Let_def)

lemma next_token_nonempty: "next_token s = Some (k, t) \<Longrightarrow> t \<noteq> []"
  by (auto simp: next_token_def OPERATORS_def scan_path_nonempty split: option.splits list.splits if_splits)

function tokenize :: "string \<Rightarrow> condition_error + token list" where
  "tokenize s =
     (case s of
        [] \<Rightarrow> Inr []
      | c # t \<Rightarrow>
          if is_space c then tokenize t
          else (case next_token s of
                  None \<Rightarrow> Inl (Unreadable [c])
                | Some (kind, txt) \<Rightarrow> rbind (tokenize (drop (length txt) s)) (\<lambda>ts. Inr ((kind, txt) # ts))))"
  by pat_completeness auto

termination
  by (relation "measure length") (auto dest: next_token_nonempty)

declare tokenize.simps [simp del]

section \<open>Values\<close>

datatype value_kind = V_String | V_Number | V_Boolean | V_Path

text \<open>A Python float as far as equality tells: a real number, an infinity or a NaN.\<close>

datatype pyfloat = Finite real | Infinite bool | Not_A_Number

fun float_eq :: "pyfloat \<Rightarrow> pyfloat \<Rightarrow> bool" where
  "float_eq (Finite x) (Finite y) = (x = y)"
| "float_eq (Infinite a) (Infinite b) = (a = b)"
| "float_eq _ _ = False"

definition LITERAL :: "(string \<times> string) list" where
  "LITERAL = [(''true'', ''true''), (''false'', ''''), (''null'', ''''), (''none'', '''')]"

definition MAX_DEPTH :: nat where "MAX_DEPTH = 64"

fun undouble :: "char \<Rightarrow> string \<Rightarrow> string" where
  "undouble q (a # b # s) = (if a = q \<and> b = q then q # undouble q s else a # undouble q (b # s))"
| "undouble q s = s"

definition unquote :: "string \<Rightarrow> string" where
  "unquote txt = undouble CHR 0x22 (undouble CHR 0x27 (butlast (tl txt)))"

definition as_text :: "bool option \<Rightarrow> string option" where
  "as_text v = map_option (\<lambda>b. if b then ''true'' else []) v"

definition as_number :: "(string \<Rightarrow> pyfloat option) \<Rightarrow> string \<Rightarrow> pyfloat option" where
  "as_number fl v = (if strip v = [] then Some (Finite 0) else fl (strip v))"

definition coerce :: "(string \<Rightarrow> pyfloat option) \<Rightarrow> string \<Rightarrow> value_kind \<Rightarrow> pyfloat" where
  "coerce fl v kind =
     (if kind = V_Boolean then Finite (if v = ''true'' then 1 else 0)
      else case as_number fl v of None \<Rightarrow> Not_A_Number | Some x \<Rightarrow> x)"

definition equal_values :: "(string \<Rightarrow> pyfloat option) \<Rightarrow> string \<Rightarrow> value_kind \<Rightarrow> string \<Rightarrow> value_kind \<Rightarrow> bool" where
  "equal_values fl l lk r rk =
     (if lk = rk then
        if lk = V_String then lower l = lower r
        else if lk = V_Boolean then l = r
        else (case (as_number fl l, as_number fl r) of
                (None, None) \<Rightarrow> True
              | (Some x, Some y) \<Rightarrow> float_eq x y
              | _ \<Rightarrow> False)
      else float_eq (coerce fl l lk) (coerce fl r rk))"

definition either :: "bool option \<Rightarrow> bool option \<Rightarrow> bool \<Rightarrow> bool option" where
  "either l r decisive =
     (if l = Some decisive \<or> r = Some decisive then Some decisive
      else if l = None \<or> r = None then None
      else Some (\<not> decisive))"

section \<open>The evaluator\<close>

definition is_op :: "token list \<Rightarrow> string \<Rightarrow> bool" where
  "is_op ts op \<longleftrightarrow> (case ts of [] \<Rightarrow> False | t # _ \<Rightarrow> t = (T_Operator, op))"

abbreviation open_paren :: token where "open_paren \<equiv> (T_Operator, ''('')"
abbreviation close_paren :: token where "close_paren \<equiv> (T_Operator, '')'')"

text \<open>After the opening parentheses: an operand that the group closes behind at once.\<close>

definition one_operand :: "token list \<Rightarrow> bool" where
  "one_operand ts \<longleftrightarrow>
     (case ts of
        t # u # _ \<Rightarrow> fst t \<in> {T_Path, T_Number, T_String} \<and> u = close_paren
      | _ \<Rightarrow> False)"

fun bare_value :: "(string \<Rightarrow> pyfloat option) \<Rightarrow> string option \<Rightarrow> value_kind \<Rightarrow> condition_error + bool option" where
  "bare_value fl None kind = Inr None"
| "bare_value fl (Some v) kind =
     (if kind = V_Number
      then (case fl v of None \<Rightarrow> Inl (Not_A_Float v) | Some x \<Rightarrow> Inr (Some (\<not> float_eq x (Finite 0))))
      else Inr (Some (v \<noteq> [])))"

function cond_or :: "(string \<Rightarrow> pyfloat option) \<Rightarrow> (string \<Rightarrow> string option) \<Rightarrow> nat \<Rightarrow> token list \<Rightarrow> nat \<Rightarrow>
      condition_error + bool option \<times> token list \<times> string list"
  and cond_or_loop :: "(string \<Rightarrow> pyfloat option) \<Rightarrow> (string \<Rightarrow> string option) \<Rightarrow> nat \<Rightarrow> bool option \<times> token list \<times> string list \<Rightarrow> nat \<Rightarrow>
      condition_error + bool option \<times> token list \<times> string list"
  and cond_and :: "(string \<Rightarrow> pyfloat option) \<Rightarrow> (string \<Rightarrow> string option) \<Rightarrow> nat \<Rightarrow> token list \<Rightarrow> nat \<Rightarrow>
      condition_error + bool option \<times> token list \<times> string list"
  and cond_and_loop :: "(string \<Rightarrow> pyfloat option) \<Rightarrow> (string \<Rightarrow> string option) \<Rightarrow> nat \<Rightarrow> bool option \<times> token list \<times> string list \<Rightarrow> nat \<Rightarrow>
      condition_error + bool option \<times> token list \<times> string list"
  and cond_not :: "(string \<Rightarrow> pyfloat option) \<Rightarrow> (string \<Rightarrow> string option) \<Rightarrow> nat \<Rightarrow> token list \<Rightarrow> nat \<Rightarrow>
      condition_error + bool option \<times> token list \<times> string list"
  and comparison :: "(string \<Rightarrow> pyfloat option) \<Rightarrow> (string \<Rightarrow> string option) \<Rightarrow> nat \<Rightarrow> token list \<Rightarrow> nat \<Rightarrow>
      condition_error + bool option \<times> token list \<times> string list"
  and operand :: "(string \<Rightarrow> pyfloat option) \<Rightarrow> (string \<Rightarrow> string option) \<Rightarrow> nat \<Rightarrow> token list \<Rightarrow> nat \<Rightarrow>
      condition_error + string option \<times> value_kind \<times> token list \<times> string list" where
  "cond_or fl ctx 0 ts depth = Inl Out_Of_Fuel"
| "cond_or fl ctx (Suc n) ts depth =
     (if depth > MAX_DEPTH then Inl (Nests_Too_Deep ''parentheses'')
      else rbind (cond_and fl ctx n ts depth) (\<lambda>p. cond_or_loop fl ctx n p depth))"
| "cond_or_loop fl ctx 0 p depth = Inl Out_Of_Fuel"
| "cond_or_loop fl ctx (Suc n) p depth =
     (case p of (v, rest, unread) \<Rightarrow>
        if is_op rest ''||''
        then rbind (cond_and fl ctx n (tl rest) depth) (\<lambda>(right, rest', more).
               cond_or_loop fl ctx n (either v right True, rest', unread @ more) depth)
        else Inr p)"
| "cond_and fl ctx 0 ts depth = Inl Out_Of_Fuel"
| "cond_and fl ctx (Suc n) ts depth =
     rbind (cond_not fl ctx n ts depth) (\<lambda>p. cond_and_loop fl ctx n p depth)"
| "cond_and_loop fl ctx 0 p depth = Inl Out_Of_Fuel"
| "cond_and_loop fl ctx (Suc n) p depth =
     (case p of (v, rest, unread) \<Rightarrow>
        if is_op rest ''&&''
        then rbind (cond_not fl ctx n (tl rest) depth) (\<lambda>(right, rest', more).
               cond_and_loop fl ctx n (either v right False, rest', unread @ more) depth)
        else Inr p)"
| "cond_not fl ctx 0 ts depth = Inl Out_Of_Fuel"
| "cond_not fl ctx (Suc n) ts depth =
     (if depth > MAX_DEPTH then Inl (Nests_Too_Deep ''terms'')
      else if is_op ts ''!''
      then rbind (cond_not fl ctx n (tl ts) (depth + 1)) (\<lambda>(v, rest, unread). Inr (map_option Not v, rest, unread))
      else comparison fl ctx n ts depth)"
| "comparison fl ctx 0 ts depth = Inl Out_Of_Fuel"
| "comparison fl ctx (Suc n) ts depth =
     rbind (operand fl ctx n ts depth) (\<lambda>(l, lk, rest, unread).
       if \<not> (is_op rest ''=='' \<or> is_op rest ''!='')
       then rbind (bare_value fl l lk) (\<lambda>v. Inr (v, rest, unread))
       else rbind (operand fl ctx n (tl rest) depth) (\<lambda>(r, rk, rest', more).
              Inr (case (l, r) of
                     (Some a, Some b) \<Rightarrow> Some (equal_values fl a lk b rk = is_op rest ''=='')
                   | _ \<Rightarrow> None,
                   rest', unread @ more)))"
| "operand fl ctx 0 ts depth = Inl Out_Of_Fuel"
| "operand fl ctx (Suc n) ts depth =
     (if depth > MAX_DEPTH then Inl (Nests_Too_Deep ''parentheses'')
      else case ts of
        [] \<Rightarrow> Inl Ends_After_Operator
      | (kind, txt) # rest \<Rightarrow>
          if kind = T_Operator \<and> txt = ''('' then
            (let inner = dropWhile (\<lambda>t. t = open_paren) rest
             in if one_operand inner
                then rbind (operand fl ctx n inner (depth + (length rest - length inner) + 1))
                       (\<lambda>(v, k, after, unread). Inr (v, k, dropWhile (\<lambda>t. t = close_paren) after, unread))
                else rbind (cond_or fl ctx n rest (depth + 1)) (\<lambda>(v, rest', unread).
                       if is_op rest' '')'' then Inr (as_text v, V_Boolean, tl rest', unread)
                       else Inl Unbalanced_Parenthesis))
          else if kind = T_String then Inr (Some (unquote txt), V_String, rest, [])
          else if kind = T_Number then Inr (Some txt, V_Number, rest, [])
          else if kind \<noteq> T_Path then Inl (Unreadable txt)
          else (case map_of LITERAL (lower txt) of
                  Some v \<Rightarrow> Inr (Some v, V_Boolean, rest, [])
                | None \<Rightarrow>
                    (case ctx txt of
                       None \<Rightarrow> Inr (None, V_Path, rest, [txt])
                     | Some v \<Rightarrow> Inr (Some v, V_String, rest, []))))"
  by pat_completeness auto

termination
  by (relation "measure (case_sum (case_sum (\<lambda>(_, _, n, _). n) (case_sum (\<lambda>(_, _, n, _). n) (\<lambda>(_, _, n, _). n)))
         (case_sum (case_sum (\<lambda>(_, _, n, _). n) (\<lambda>(_, _, n, _). n)) (case_sum (\<lambda>(_, _, n, _). n) (\<lambda>(_, _, n, _). n))))") simp_all

text \<open>The fuel that is enough for every token list.\<close>

definition condition_fuel :: "token list \<Rightarrow> nat" where
  "condition_fuel ts = 8 * length ts + 8"

record condition =
  cd_value :: "bool option"
  cd_unread :: "string list"

definition decided :: "condition \<Rightarrow> bool" where
  "decided c \<longleftrightarrow> cd_value c \<noteq> None"

definition evaluate_tokens :: "(string \<Rightarrow> pyfloat option) \<Rightarrow> (string \<Rightarrow> string option) \<Rightarrow> token list \<Rightarrow> condition_error + condition" where
  "evaluate_tokens fl ctx ts =
     (if ts = [] then Inl Condition_Empty
      else rbind (cond_or fl ctx (condition_fuel ts) ts 0) (\<lambda>(v, rest, unread).
             case rest of
               t # _ \<Rightarrow> Inl (Unreadable (snd t))
             | [] \<Rightarrow> Inr \<lparr>cd_value = v, cd_unread = (if v \<noteq> None then [] else sort (remdups unread))\<rparr>))"

definition evaluate_condition :: "(string \<Rightarrow> pyfloat option) \<Rightarrow> (string \<Rightarrow> string option) \<Rightarrow> string \<Rightarrow> condition_error + condition" where
  "evaluate_condition fl ctx expression = rbind (tokenize expression) (evaluate_tokens fl ctx)"

section \<open>Progress\<close>

text \<open>Whatever is read, the remainder is shorter: by a token at least for every part but a loop.\<close>

definition progresses :: "(string \<Rightarrow> pyfloat option) \<Rightarrow> (string \<Rightarrow> string option) \<Rightarrow> nat \<Rightarrow> bool" where
  "progresses fl ctx n \<longleftrightarrow>
     (\<forall>ts d v rest u. cond_or fl ctx n ts d = Inr (v, rest, u) \<longrightarrow> length rest < length ts) \<and>
     (\<forall>p d v rest u. cond_or_loop fl ctx n p d = Inr (v, rest, u) \<longrightarrow> length rest \<le> length (fst (snd p))) \<and>
     (\<forall>ts d v rest u. cond_and fl ctx n ts d = Inr (v, rest, u) \<longrightarrow> length rest < length ts) \<and>
     (\<forall>p d v rest u. cond_and_loop fl ctx n p d = Inr (v, rest, u) \<longrightarrow> length rest \<le> length (fst (snd p))) \<and>
     (\<forall>ts d v rest u. cond_not fl ctx n ts d = Inr (v, rest, u) \<longrightarrow> length rest < length ts) \<and>
     (\<forall>ts d v rest u. comparison fl ctx n ts d = Inr (v, rest, u) \<longrightarrow> length rest < length ts) \<and>
     (\<forall>ts d v k rest u. operand fl ctx n ts d = Inr (v, k, rest, u) \<longrightarrow> length rest < length ts)"

lemma is_op_Cons [simp]: "is_op (t # ts) op \<longleftrightarrow> t = (T_Operator, op)" "\<not> is_op [] op"
  by (simp_all add: is_op_def)

lemma is_op_tl: "is_op ts op \<Longrightarrow> length (tl ts) < length ts"
  by (cases ts) auto

lemmas progressesD =
  progresses_def [THEN iffD1, THEN conjunct1, rule_format]
  progresses_def [THEN iffD1, THEN conjunct2, THEN conjunct1, rule_format]
  progresses_def [THEN iffD1, THEN conjunct2, THEN conjunct2, THEN conjunct1, rule_format]
  progresses_def [THEN iffD1, THEN conjunct2, THEN conjunct2, THEN conjunct2, THEN conjunct1, rule_format]
  progresses_def [THEN iffD1, THEN conjunct2, THEN conjunct2, THEN conjunct2, THEN conjunct2, THEN conjunct1, rule_format]
  progresses_def [THEN iffD1, THEN conjunct2, THEN conjunct2, THEN conjunct2, THEN conjunct2, THEN conjunct2, THEN conjunct1, rule_format]
  progresses_def [THEN iffD1, THEN conjunct2, THEN conjunct2, THEN conjunct2, THEN conjunct2, THEN conjunct2, THEN conjunct2, rule_format]

lemma progresses_operand:
  assumes "progresses fl ctx n" and "operand fl ctx (Suc n) ts d = Inr (v, k, rest, u)"
  shows "length rest < length ts"
proof (cases ts)
  case Nil
  then show ?thesis using assms(2) by (auto split: if_splits)
next
  case (Cons t ts')
  let ?inner = "dropWhile (\<lambda>t. t = open_paren) ts'"
  have inner: "length ?inner \<le> length ts'" by (rule length_dropWhile_le)
  consider (group) "t = open_paren" "one_operand ?inner" | (nested) "t = open_paren" "\<not> one_operand ?inner" | (plain) "t \<noteq> open_paren"
    by blast
  then show ?thesis
  proof cases
    case group
    then obtain d' after where "operand fl ctx n ?inner d' = Inr (v, k, after, u)" "rest = dropWhile (\<lambda>t. t = close_paren) after"
      using assms(2) Cons by (auto simp: rbind_Inr_conv Let_def split: if_splits)
    then have "length rest \<le> length after" "length after < length ?inner"
      using progressesD(7) [OF assms(1)] length_dropWhile_le by auto
    then show ?thesis using inner Cons by simp
  next
    case nested
    then obtain w rest' where "cond_or fl ctx n ts' (Suc d) = Inr (w, rest', u)" "rest = tl rest'"
      using assms(2) Cons by (auto simp: rbind_Inr_conv Let_def split: if_splits)
    then show ?thesis using progressesD(1) [OF assms(1)] Cons by fastforce
  next
    case plain
    then show ?thesis using assms(2) Cons
      by (cases t) (auto split: if_splits option.splits)
  qed
qed

lemma progresses_comparison:
  assumes "progresses fl ctx n" and "comparison fl ctx (Suc n) ts d = Inr (v, rest, u)"
  shows "length rest < length ts"
proof -
  obtain l k mid w where o: "operand fl ctx n ts d = Inr (l, k, mid, w)"
    using assms(2) by (auto simp: rbind_Inr_conv)
  then have "length mid < length ts" by (rule progressesD(7) [OF assms(1)])
  moreover have "length rest \<le> length mid"
  proof (cases "is_op mid ''=='' \<or> is_op mid ''!=''")
    case True
    then obtain r rk w' where "operand fl ctx n (tl mid) d = Inr (r, rk, rest, w')"
      using assms(2) o by (auto simp: rbind_Inr_conv)
    then have "length rest < length (tl mid)" by (rule progressesD(7) [OF assms(1)])
    then show ?thesis by simp
  next
    case False
    then show ?thesis using assms(2) o by (auto simp: rbind_Inr_conv)
  qed
  ultimately show ?thesis by simp
qed

lemma progresses_always: "progresses fl ctx n"
proof (induction n)
  case 0
  show ?case by (simp add: progresses_def)
next
  case (Suc n)
  note IH = progressesD [OF Suc]
  have ors: "length rest < length ts" if "cond_or fl ctx (Suc n) ts d = Inr (v, rest, u)" for ts d v rest u
    using that by (auto simp: rbind_Inr_conv split: if_splits dest!: IH(2,3))
  have ands: "length rest < length ts" if "cond_and fl ctx (Suc n) ts d = Inr (v, rest, u)" for ts d v rest u
    using that by (auto simp: rbind_Inr_conv dest!: IH(4,5))
  have or_loops: "length rest \<le> length (fst (snd p))" if "cond_or_loop fl ctx (Suc n) p d = Inr (v, rest, u)" for p d v rest u
    using that is_op_tl by (cases p) (fastforce simp: rbind_Inr_conv split: if_splits dest!: IH(2,3))
  have and_loops: "length rest \<le> length (fst (snd p))" if "cond_and_loop fl ctx (Suc n) p d = Inr (v, rest, u)" for p d v rest u
    using that is_op_tl by (cases p) (fastforce simp: rbind_Inr_conv split: if_splits dest!: IH(4,5))
  have nots: "length rest < length ts" if "cond_not fl ctx (Suc n) ts d = Inr (v, rest, u)" for ts d v rest u
    using that by (auto simp: rbind_Inr_conv split: if_splits dest!: IH(5,6))
  show ?case
    unfolding progresses_def
    using ors or_loops ands and_loops nots progresses_comparison [OF Suc] progresses_operand [OF Suc] by blast
qed

lemmas progress = progressesD [OF progresses_always]

section \<open>Fuel\<close>

text \<open>With eight units for a token the evaluator never runs out.\<close>

definition fed :: "(string \<Rightarrow> pyfloat option) \<Rightarrow> (string \<Rightarrow> string option) \<Rightarrow> nat \<Rightarrow> bool" where
  "fed fl ctx n \<longleftrightarrow>
     (\<forall>ts d. cond_or fl ctx n ts d = Inl Out_Of_Fuel \<longrightarrow> n < 8 * length ts + 5) \<and>
     (\<forall>p d. cond_or_loop fl ctx n p d = Inl Out_Of_Fuel \<longrightarrow> n < 8 * length (fst (snd p)) + 1) \<and>
     (\<forall>ts d. cond_and fl ctx n ts d = Inl Out_Of_Fuel \<longrightarrow> n < 8 * length ts + 4) \<and>
     (\<forall>p d. cond_and_loop fl ctx n p d = Inl Out_Of_Fuel \<longrightarrow> n < 8 * length (fst (snd p)) + 1) \<and>
     (\<forall>ts d. cond_not fl ctx n ts d = Inl Out_Of_Fuel \<longrightarrow> n < 8 * length ts + 3) \<and>
     (\<forall>ts d. comparison fl ctx n ts d = Inl Out_Of_Fuel \<longrightarrow> n < 8 * length ts + 2) \<and>
     (\<forall>ts d. operand fl ctx n ts d = Inl Out_Of_Fuel \<longrightarrow> n < 8 * length ts + 1)"

lemmas fedD =
  fed_def [THEN iffD1, THEN conjunct1, rule_format]
  fed_def [THEN iffD1, THEN conjunct2, THEN conjunct1, rule_format]
  fed_def [THEN iffD1, THEN conjunct2, THEN conjunct2, THEN conjunct1, rule_format]
  fed_def [THEN iffD1, THEN conjunct2, THEN conjunct2, THEN conjunct2, THEN conjunct1, rule_format]
  fed_def [THEN iffD1, THEN conjunct2, THEN conjunct2, THEN conjunct2, THEN conjunct2, THEN conjunct1, rule_format]
  fed_def [THEN iffD1, THEN conjunct2, THEN conjunct2, THEN conjunct2, THEN conjunct2, THEN conjunct2, THEN conjunct1, rule_format]
  fed_def [THEN iffD1, THEN conjunct2, THEN conjunct2, THEN conjunct2, THEN conjunct2, THEN conjunct2, THEN conjunct2, rule_format]

lemma bare_value_fed [simp]: "bare_value fl v k \<noteq> Inl Out_Of_Fuel"
  by (cases v) (auto split: option.splits)

lemma fed_operand:
  assumes "fed fl ctx n" and "operand fl ctx (Suc n) ts d = Inl Out_Of_Fuel"
  shows "Suc n < 8 * length ts + 1"
proof (cases ts)
  case Nil
  then show ?thesis using assms(2) by (auto split: if_splits)
next
  case (Cons t ts')
  let ?inner = "dropWhile (\<lambda>t. t = open_paren) ts'"
  have "length ?inner \<le> length ts'" by (rule length_dropWhile_le)
  moreover have "(\<exists>d'. operand fl ctx n ?inner d' = Inl Out_Of_Fuel) \<or> (\<exists>d'. cond_or fl ctx n ts' d' = Inl Out_Of_Fuel)"
    using assms(2) Cons by (cases t) (auto simp: rbind_Inl_conv Let_def split: if_splits option.splits)
  ultimately show ?thesis using fedD(1,7) [OF assms(1)] Cons by fastforce
qed

lemma fed_comparison:
  assumes "fed fl ctx n" and "comparison fl ctx (Suc n) ts d = Inl Out_Of_Fuel"
  shows "Suc n < 8 * length ts + 2"
proof -
  consider "operand fl ctx n ts d = Inl Out_Of_Fuel"
    | l k rest u where "operand fl ctx n ts d = Inr (l, k, rest, u)" "operand fl ctx n (tl rest) d = Inl Out_Of_Fuel"
    using assms(2) by (auto simp: rbind_Inl_conv split: if_splits)
  then show ?thesis
  proof cases
    case 1
    then show ?thesis using fedD(7) [OF assms(1)] by auto
  next
    case 2
    then show ?thesis using fedD(7) [OF assms(1) 2(2)] progress(7) [OF 2(1)] by simp
  qed
qed

lemma is_op_length: "is_op ts op \<Longrightarrow> length ts = Suc (length (tl ts))"
  by (cases ts) auto

lemma fed_always: "fed fl ctx n"
proof (induction n)
  case 0
  show ?case by (simp add: fed_def)
next
  case (Suc n)
  note IH = fedD [OF Suc]
  have ors: "Suc n < 8 * length ts + 5" if "cond_or fl ctx (Suc n) ts d = Inl Out_Of_Fuel" for ts d
    using that by (auto simp: rbind_Inl_conv split: if_splits dest!: IH(2,3) progress(3))
  have ands: "Suc n < 8 * length ts + 4" if "cond_and fl ctx (Suc n) ts d = Inl Out_Of_Fuel" for ts d
    using that by (auto simp: rbind_Inl_conv split: if_splits dest!: IH(4,5) progress(5))
  have or_loops: "Suc n < 8 * length (fst (snd p)) + 1" if "cond_or_loop fl ctx (Suc n) p d = Inl Out_Of_Fuel" for p d
    using that
    by (cases p) (auto simp: rbind_Inl_conv split: if_splits dest!: IH(2,3) progress(3) is_op_length)
  have and_loops: "Suc n < 8 * length (fst (snd p)) + 1" if "cond_and_loop fl ctx (Suc n) p d = Inl Out_Of_Fuel" for p d
    using that
    by (cases p) (auto simp: rbind_Inl_conv split: if_splits dest!: IH(4,5) progress(5) is_op_length)
  have nots: "Suc n < 8 * length ts + 3" if "cond_not fl ctx (Suc n) ts d = Inl Out_Of_Fuel" for ts d
    using that is_op_tl [of ts "''!''"] by (auto simp: rbind_Inl_conv split: if_splits dest!: IH(5,6))
  show ?case
    unfolding fed_def
    using ors or_loops ands and_loops nots fed_comparison [OF Suc] fed_operand [OF Suc] by blast
qed

lemmas enough_fuel = fedD [OF fed_always]

text \<open>More fuel changes no answer.\<close>

definition steady :: "(string \<Rightarrow> pyfloat option) \<Rightarrow> (string \<Rightarrow> string option) \<Rightarrow> nat \<Rightarrow> nat \<Rightarrow> bool" where
  "steady fl ctx n m \<longleftrightarrow>
     (\<forall>ts d. cond_or fl ctx n ts d \<noteq> Inl Out_Of_Fuel \<longrightarrow> cond_or fl ctx m ts d = cond_or fl ctx n ts d) \<and>
     (\<forall>p d. cond_or_loop fl ctx n p d \<noteq> Inl Out_Of_Fuel \<longrightarrow> cond_or_loop fl ctx m p d = cond_or_loop fl ctx n p d) \<and>
     (\<forall>ts d. cond_and fl ctx n ts d \<noteq> Inl Out_Of_Fuel \<longrightarrow> cond_and fl ctx m ts d = cond_and fl ctx n ts d) \<and>
     (\<forall>p d. cond_and_loop fl ctx n p d \<noteq> Inl Out_Of_Fuel \<longrightarrow> cond_and_loop fl ctx m p d = cond_and_loop fl ctx n p d) \<and>
     (\<forall>ts d. cond_not fl ctx n ts d \<noteq> Inl Out_Of_Fuel \<longrightarrow> cond_not fl ctx m ts d = cond_not fl ctx n ts d) \<and>
     (\<forall>ts d. comparison fl ctx n ts d \<noteq> Inl Out_Of_Fuel \<longrightarrow> comparison fl ctx m ts d = comparison fl ctx n ts d) \<and>
     (\<forall>ts d. operand fl ctx n ts d \<noteq> Inl Out_Of_Fuel \<longrightarrow> operand fl ctx m ts d = operand fl ctx n ts d)"

lemmas steadyD =
  steady_def [THEN iffD1, THEN conjunct1, rule_format]
  steady_def [THEN iffD1, THEN conjunct2, THEN conjunct1, rule_format]
  steady_def [THEN iffD1, THEN conjunct2, THEN conjunct2, THEN conjunct1, rule_format]
  steady_def [THEN iffD1, THEN conjunct2, THEN conjunct2, THEN conjunct2, THEN conjunct1, rule_format]
  steady_def [THEN iffD1, THEN conjunct2, THEN conjunct2, THEN conjunct2, THEN conjunct2, THEN conjunct1, rule_format]
  steady_def [THEN iffD1, THEN conjunct2, THEN conjunct2, THEN conjunct2, THEN conjunct2, THEN conjunct2, THEN conjunct1, rule_format]
  steady_def [THEN iffD1, THEN conjunct2, THEN conjunct2, THEN conjunct2, THEN conjunct2, THEN conjunct2, THEN conjunct2, rule_format]

lemma rbind_steady:
  assumes "rbind r f \<noteq> Inl e" and "r \<noteq> Inl e \<Longrightarrow> r' = r" and "\<And>x. r = Inr x \<Longrightarrow> f x \<noteq> Inl e \<Longrightarrow> f' x = f x"
  shows "rbind r' f' = rbind r f"
  using assms by (cases r) auto

lemma steady_operand:
  assumes "steady fl ctx n m" and "operand fl ctx (Suc n) ts d \<noteq> Inl Out_Of_Fuel"
  shows "operand fl ctx (Suc m) ts d = operand fl ctx (Suc n) ts d"
proof (cases ts)
  case Nil
  then show ?thesis by simp
next
  case (Cons t ts')
  let ?inner = "dropWhile (\<lambda>t. t = open_paren) ts'"
  consider (group) "t = open_paren" "one_operand ?inner" | (nested) "t = open_paren" "\<not> one_operand ?inner" | (plain) "t \<noteq> open_paren"
    by blast
  then show ?thesis
  proof cases
    case group
    with assms(2) Cons show ?thesis
      by (auto simp: Let_def intro!: rbind_steady steadyD(7) [OF assms(1)])
  next
    case nested
    with assms(2) Cons show ?thesis
      by (auto simp: Let_def intro!: rbind_steady steadyD(1) [OF assms(1)])
  next
    case plain
    then show ?thesis using Cons by (cases t) auto
  qed
qed

lemma steady_always: "n \<le> m \<Longrightarrow> steady fl ctx n m"
proof (induction n arbitrary: m)
  case 0
  show ?case by (simp add: steady_def)
next
  case (Suc n)
  then obtain k where k: "m = Suc k" "n \<le> k" by (cases m) auto
  note steady = Suc.IH [OF k(2)]
  note IH = steadyD [OF steady]
  have ors: "cond_or fl ctx (Suc k) ts d = cond_or fl ctx (Suc n) ts d" if "cond_or fl ctx (Suc n) ts d \<noteq> Inl Out_Of_Fuel" for ts d
    using that by (cases "MAX_DEPTH < d") (auto intro!: rbind_steady IH(2,3))
  have ands: "cond_and fl ctx (Suc k) ts d = cond_and fl ctx (Suc n) ts d" if "cond_and fl ctx (Suc n) ts d \<noteq> Inl Out_Of_Fuel" for ts d
    using that by (auto intro!: rbind_steady IH(4,5))
  have or_loops: "cond_or_loop fl ctx (Suc k) p d = cond_or_loop fl ctx (Suc n) p d"
    if "cond_or_loop fl ctx (Suc n) p d \<noteq> Inl Out_Of_Fuel" for p d
    using that by (cases p) (auto intro!: rbind_steady IH(2,3))
  have and_loops: "cond_and_loop fl ctx (Suc k) p d = cond_and_loop fl ctx (Suc n) p d"
    if "cond_and_loop fl ctx (Suc n) p d \<noteq> Inl Out_Of_Fuel" for p d
    using that by (cases p) (auto intro!: rbind_steady IH(4,5))
  have nots: "cond_not fl ctx (Suc k) ts d = cond_not fl ctx (Suc n) ts d" if "cond_not fl ctx (Suc n) ts d \<noteq> Inl Out_Of_Fuel" for ts d
    using that by (auto intro!: rbind_steady IH(5,6))
  have "comparison fl ctx (Suc k) ts d = comparison fl ctx (Suc n) ts d"
    if "comparison fl ctx (Suc n) ts d \<noteq> Inl Out_Of_Fuel" for ts d
    using that by (auto intro!: rbind_steady IH(7))
  with ors ands or_loops and_loops nots steady_operand [OF steady] show ?case unfolding steady_def k(1) by blast
qed

lemma cond_or_steady:
  assumes "8 * length ts + 5 \<le> n" and "n \<le> m"
  shows "cond_or fl ctx m ts d = cond_or fl ctx n ts d"
  using steadyD(1) [OF steady_always [OF assms(2)]] enough_fuel(1) [of fl ctx n ts d] assms(1) by fastforce

text \<open>
  C36: reading a condition ends. The evaluator's fuel is enough for every text, context and reading of
  numbers: no condition makes it run out, and any larger amount gives the same answer.
\<close>

theorem condition_evaluation_ends:
  "evaluate_condition fl ctx expression \<noteq> Inl Out_Of_Fuel \<and>
   cond_or fl ctx (condition_fuel ts + extra) ts d = cond_or fl ctx (condition_fuel ts) ts d"
proof
  have tok: "tokenize s \<noteq> Inl Out_Of_Fuel" for s
  proof (induction s rule: tokenize.induct)
    case (1 s)
    then show ?case by (subst tokenize.simps) (auto simp: rbind_Inl_conv split: list.splits option.splits)
  qed
  have "evaluate_tokens fl ctx ts \<noteq> Inl Out_Of_Fuel" for ts
    using enough_fuel(1) [of fl ctx "condition_fuel ts" ts 0]
    by (auto simp: evaluate_tokens_def condition_fuel_def rbind_Inl_conv split: list.splits if_splits)
  then show "evaluate_condition fl ctx expression \<noteq> Inl Out_Of_Fuel"
    using tok by (auto simp: evaluate_condition_def rbind_Inl_conv)
  show "cond_or fl ctx (condition_fuel ts + extra) ts d = cond_or fl ctx (condition_fuel ts) ts d"
    by (rule cond_or_steady) (simp_all add: condition_fuel_def)
qed

section \<open>What a verdict rests on\<close>

text \<open>
  Two contexts, the second carrying every value the first carries: each part of a condition fails in
  both in the same way, or reads the same tokens in both, with the same value wherever the first
  context gave one.
\<close>

definition verdict_le :: "bool option \<times> token list \<times> string list \<Rightarrow> bool option \<times> token list \<times> string list \<Rightarrow> bool" where
  "verdict_le = (\<lambda>(v, rest, _) (v', rest', _). (v = None \<or> v' = v) \<and> rest' = rest)"

definition operand_le ::
  "string option \<times> value_kind \<times> token list \<times> string list \<Rightarrow> string option \<times> value_kind \<times> token list \<times> string list \<Rightarrow> bool" where
  "operand_le = (\<lambda>(v, k, rest, _) (v', k', rest', _). (v = None \<and> k' \<noteq> V_Number \<or> v' = v \<and> k' = k) \<and> rest' = rest)"

lemma verdict_le_iff [simp]: "verdict_le (v, rest, u) (v', rest', u') \<longleftrightarrow> (v = None \<or> v' = v) \<and> rest' = rest"
  by (simp add: verdict_le_def)

lemma operand_le_iff [simp]:
  "operand_le (v, k, rest, u) (v', k', rest', u') \<longleftrightarrow> (v = None \<and> k' \<noteq> V_Number \<or> v' = v \<and> k' = k) \<and> rest' = rest"
  by (simp add: operand_le_def)

lemma rbind_rel:
  assumes "rel_sum (=) A r r'" and "\<And>x x'. A x x' \<Longrightarrow> rel_sum (=) B (f x) (f' x')"
  shows "rel_sum (=) B (rbind r f) (rbind r' f')"
  using assms by (cases r; cases r') auto

lemma either_le:
  "v = None \<or> v' = v \<Longrightarrow> r = None \<or> r' = r \<Longrightarrow> either v r b = None \<or> either v' r' b = either v r b"
  by (auto simp: either_def)

definition extends :: "(string \<Rightarrow> pyfloat option) \<Rightarrow> (string \<Rightarrow> string option) \<Rightarrow> (string \<Rightarrow> string option) \<Rightarrow> nat \<Rightarrow> bool" where
  "extends fl ctx ctx' n \<longleftrightarrow>
     (\<forall>ts d. rel_sum (=) verdict_le (cond_or fl ctx n ts d) (cond_or fl ctx' n ts d)) \<and>
     (\<forall>p p' d. verdict_le p p' \<longrightarrow> rel_sum (=) verdict_le (cond_or_loop fl ctx n p d) (cond_or_loop fl ctx' n p' d)) \<and>
     (\<forall>ts d. rel_sum (=) verdict_le (cond_and fl ctx n ts d) (cond_and fl ctx' n ts d)) \<and>
     (\<forall>p p' d. verdict_le p p' \<longrightarrow> rel_sum (=) verdict_le (cond_and_loop fl ctx n p d) (cond_and_loop fl ctx' n p' d)) \<and>
     (\<forall>ts d. rel_sum (=) verdict_le (cond_not fl ctx n ts d) (cond_not fl ctx' n ts d)) \<and>
     (\<forall>ts d. rel_sum (=) verdict_le (comparison fl ctx n ts d) (comparison fl ctx' n ts d)) \<and>
     (\<forall>ts d. rel_sum (=) operand_le (operand fl ctx n ts d) (operand fl ctx' n ts d))"

lemmas extendsD =
  extends_def [THEN iffD1, THEN conjunct1, rule_format]
  extends_def [THEN iffD1, THEN conjunct2, THEN conjunct1, rule_format]
  extends_def [THEN iffD1, THEN conjunct2, THEN conjunct2, THEN conjunct1, rule_format]
  extends_def [THEN iffD1, THEN conjunct2, THEN conjunct2, THEN conjunct2, THEN conjunct1, rule_format]
  extends_def [THEN iffD1, THEN conjunct2, THEN conjunct2, THEN conjunct2, THEN conjunct2, THEN conjunct1, rule_format]
  extends_def [THEN iffD1, THEN conjunct2, THEN conjunct2, THEN conjunct2, THEN conjunct2, THEN conjunct2, THEN conjunct1, rule_format]
  extends_def [THEN iffD1, THEN conjunct2, THEN conjunct2, THEN conjunct2, THEN conjunct2, THEN conjunct2, THEN conjunct2, rule_format]


lemma bare_value_le:
  assumes "l = None \<and> k' \<noteq> V_Number \<or> l' = l \<and> k' = k"
  shows "rel_sum (=) (\<lambda>v v'. v = None \<or> v' = v) (bare_value fl l k) (bare_value fl l' k')"
  using assms by (cases l; cases l') (auto split: option.splits)

lemma extends_operand:
  assumes "ctx \<subseteq>\<^sub>m ctx'" and "extends fl ctx ctx' n"
  shows "rel_sum (=) operand_le (operand fl ctx (Suc n) ts d) (operand fl ctx' (Suc n) ts d)"
proof (cases ts)
  case Nil
  then show ?thesis by simp
next
  case (Cons t ts')
  let ?inner = "dropWhile (\<lambda>t. t = open_paren) ts'"
  consider (group) "t = open_paren" "one_operand ?inner" | (nested) "t = open_paren" "\<not> one_operand ?inner" | (plain) "t \<noteq> open_paren"
    by blast
  then show ?thesis
  proof cases
    case group
    then show ?thesis using Cons by (auto simp: Let_def intro!: rbind_rel extendsD(7) [OF assms(2)])
  next
    case nested
    then show ?thesis using Cons by (auto simp: Let_def as_text_def intro!: rbind_rel [where A = verdict_le] extendsD(1) [OF assms(2)])
  next
    case plain
    have "ctx (snd t) = None \<or> ctx' (snd t) = ctx (snd t)"
      using assms(1) by (cases "ctx (snd t)") (auto simp: map_le_def dom_def)
    then show ?thesis using Cons plain by (cases t) (auto split: option.splits)
  qed
qed

lemma extends_always:
  assumes "ctx \<subseteq>\<^sub>m ctx'"
  shows "extends fl ctx ctx' n"
proof (induction n)
  case 0
  show ?case by (simp add: extends_def)
next
  case (Suc n)
  note IH = extendsD [OF Suc]
  have ors: "rel_sum (=) verdict_le (cond_or fl ctx (Suc n) ts d) (cond_or fl ctx' (Suc n) ts d)" for ts d
    by (auto intro!: rbind_rel [where A = verdict_le] IH(2,3))
  have ands: "rel_sum (=) verdict_le (cond_and fl ctx (Suc n) ts d) (cond_and fl ctx' (Suc n) ts d)" for ts d
    by (auto intro!: rbind_rel [where A = verdict_le] IH(4,5))
  have or_loops: "rel_sum (=) verdict_le (cond_or_loop fl ctx (Suc n) p d) (cond_or_loop fl ctx' (Suc n) p' d)" if "verdict_le p p'" for p p' d
    using that either_le by (cases p; cases p') (auto intro!: rbind_rel [where A = verdict_le] IH(2,3))
  have and_loops: "rel_sum (=) verdict_le (cond_and_loop fl ctx (Suc n) p d) (cond_and_loop fl ctx' (Suc n) p' d)" if "verdict_le p p'" for p p' d
    using that either_le by (cases p; cases p') (auto intro!: rbind_rel [where A = verdict_le] IH(4,5))
  have nots: "rel_sum (=) verdict_le (cond_not fl ctx (Suc n) ts d) (cond_not fl ctx' (Suc n) ts d)" for ts d
    by (auto intro!: rbind_rel [where A = verdict_le] IH(5,6))
  have "rel_sum (=) verdict_le (comparison fl ctx (Suc n) ts d) (comparison fl ctx' (Suc n) ts d)" for ts d
    by (auto intro!: rbind_rel [where A = operand_le] rbind_rel [OF bare_value_le] IH(7) split: option.splits)
  with ors ands or_loops and_loops nots extends_operand [OF assms Suc] show ?case unfolding extends_def by blast
qed

text \<open>An undecided part names a path the context lacks, and every name reported is one.\<close>

definition verdict_reports :: "(string \<Rightarrow> string option) \<Rightarrow> bool option \<times> token list \<times> string list \<Rightarrow> bool" where
  "verdict_reports ctx = (\<lambda>(v, _, u). (v = None \<longrightarrow> u \<noteq> []) \<and> (\<forall>p \<in> set u. ctx p = None))"

definition operand_reports :: "(string \<Rightarrow> string option) \<Rightarrow> string option \<times> value_kind \<times> token list \<times> string list \<Rightarrow> bool" where
  "operand_reports ctx = (\<lambda>(v, _, _, u). (v = None \<longrightarrow> u \<noteq> []) \<and> (\<forall>p \<in> set u. ctx p = None))"

lemma verdict_reports_iff [simp]:
  "verdict_reports ctx (v, rest, u) \<longleftrightarrow> (v = None \<longrightarrow> u \<noteq> []) \<and> (\<forall>p \<in> set u. ctx p = None)"
  by (simp add: verdict_reports_def)

lemma operand_reports_iff [simp]:
  "operand_reports ctx (v, k, rest, u) \<longleftrightarrow> (v = None \<longrightarrow> u \<noteq> []) \<and> (\<forall>p \<in> set u. ctx p = None)"
  by (simp add: operand_reports_def)

abbreviation answers :: "('a \<Rightarrow> bool) \<Rightarrow> condition_error + 'a \<Rightarrow> bool" where
  "answers \<equiv> pred_sum (\<lambda>_. True)"

lemma rbind_answers:
  assumes "answers A r" and "\<And>x. A x \<Longrightarrow> answers B (f x)"
  shows "answers B (rbind r f)"
  using assms by (cases r) auto

lemma either_None: "either v r b = None \<Longrightarrow> v = None \<or> r = None"
  by (auto simp: either_def split: if_splits)

definition reports :: "(string \<Rightarrow> pyfloat option) \<Rightarrow> (string \<Rightarrow> string option) \<Rightarrow> nat \<Rightarrow> bool" where
  "reports fl ctx n \<longleftrightarrow>
     (\<forall>ts d. answers (verdict_reports ctx) (cond_or fl ctx n ts d)) \<and>
     (\<forall>p d. verdict_reports ctx p \<longrightarrow> answers (verdict_reports ctx) (cond_or_loop fl ctx n p d)) \<and>
     (\<forall>ts d. answers (verdict_reports ctx) (cond_and fl ctx n ts d)) \<and>
     (\<forall>p d. verdict_reports ctx p \<longrightarrow> answers (verdict_reports ctx) (cond_and_loop fl ctx n p d)) \<and>
     (\<forall>ts d. answers (verdict_reports ctx) (cond_not fl ctx n ts d)) \<and>
     (\<forall>ts d. answers (verdict_reports ctx) (comparison fl ctx n ts d)) \<and>
     (\<forall>ts d. answers (operand_reports ctx) (operand fl ctx n ts d))"

lemmas reportsD =
  reports_def [THEN iffD1, THEN conjunct1, rule_format]
  reports_def [THEN iffD1, THEN conjunct2, THEN conjunct1, rule_format]
  reports_def [THEN iffD1, THEN conjunct2, THEN conjunct2, THEN conjunct1, rule_format]
  reports_def [THEN iffD1, THEN conjunct2, THEN conjunct2, THEN conjunct2, THEN conjunct1, rule_format]
  reports_def [THEN iffD1, THEN conjunct2, THEN conjunct2, THEN conjunct2, THEN conjunct2, THEN conjunct1, rule_format]
  reports_def [THEN iffD1, THEN conjunct2, THEN conjunct2, THEN conjunct2, THEN conjunct2, THEN conjunct2, THEN conjunct1, rule_format]
  reports_def [THEN iffD1, THEN conjunct2, THEN conjunct2, THEN conjunct2, THEN conjunct2, THEN conjunct2, THEN conjunct2, rule_format]

lemma bare_value_answers: "answers (\<lambda>v. v = None \<longrightarrow> l = None) (bare_value fl l k)"
  by (cases l) (auto split: option.splits)

lemma reports_operand:
  assumes "reports fl ctx n"
  shows "answers (operand_reports ctx) (operand fl ctx (Suc n) ts d)"
proof (cases ts)
  case Nil
  then show ?thesis by simp
next
  case (Cons t ts')
  let ?inner = "dropWhile (\<lambda>t. t = open_paren) ts'"
  consider (group) "t = open_paren" "one_operand ?inner" | (nested) "t = open_paren" "\<not> one_operand ?inner" | (plain) "t \<noteq> open_paren"
    by blast
  then show ?thesis
  proof cases
    case group
    then show ?thesis using Cons by (auto simp: Let_def intro!: rbind_answers [where A = "operand_reports ctx"] reportsD(7) [OF assms])
  next
    case nested
    then show ?thesis using Cons
      by (auto simp: Let_def as_text_def intro!: rbind_answers [where A = "verdict_reports ctx"] reportsD(1) [OF assms])
  next
    case plain
    then show ?thesis using Cons by (cases t) (auto split: option.splits)
  qed
qed

lemma reports_always: "reports fl ctx n"
proof (induction n)
  case 0
  show ?case by (simp add: reports_def)
next
  case (Suc n)
  note IH = reportsD [OF Suc]
  have ors: "answers (verdict_reports ctx) (cond_or fl ctx (Suc n) ts d)" for ts d
    by (auto intro!: rbind_answers [where A = "verdict_reports ctx"] IH(2,3))
  have ands: "answers (verdict_reports ctx) (cond_and fl ctx (Suc n) ts d)" for ts d
    by (auto intro!: rbind_answers [where A = "verdict_reports ctx"] IH(4,5))
  have or_loops: "answers (verdict_reports ctx) (cond_or_loop fl ctx (Suc n) p d)" if "verdict_reports ctx p" for p d
    using that by (cases p) (auto intro!: rbind_answers [where A = "verdict_reports ctx"] IH(2,3) dest!: either_None)
  have and_loops: "answers (verdict_reports ctx) (cond_and_loop fl ctx (Suc n) p d)" if "verdict_reports ctx p" for p d
    using that by (cases p) (auto intro!: rbind_answers [where A = "verdict_reports ctx"] IH(4,5) dest!: either_None)
  have nots: "answers (verdict_reports ctx) (cond_not fl ctx (Suc n) ts d)" for ts d
    by (auto intro!: rbind_answers [where A = "verdict_reports ctx"] IH(5,6))
  have "answers (verdict_reports ctx) (comparison fl ctx (Suc n) ts d)" for ts d
    by (auto intro!: rbind_answers [where A = "operand_reports ctx"] rbind_answers [OF bare_value_answers] IH(7) split: option.splits)
  with ors ands or_loops and_loops nots reports_operand [OF Suc] show ?case unfolding reports_def by blast
qed

section \<open>Verdicts\<close>

text \<open>
  A verdict rests on what was read. When a condition is decided in one context, every context that
  carries at least the same values decides it in the same way; and a text that is refused in one of
  them is refused in the other with the same error. So a path the run lacks never decided anything.
\<close>

theorem condition_verdict_is_stable:
  assumes "ctx \<subseteq>\<^sub>m ctx'"
  shows "(\<forall>c. evaluate_condition fl ctx expression = Inr c \<and> decided c \<longrightarrow> evaluate_condition fl ctx' expression = Inr c) \<and>
     (\<forall>e. evaluate_condition fl ctx expression = Inl e \<longleftrightarrow> evaluate_condition fl ctx' expression = Inl e)"
proof (cases "tokenize expression")
  case (Inl e)
  then show ?thesis by (simp add: evaluate_condition_def)
next
  case (Inr ts)
  let ?run = "\<lambda>c. cond_or fl c (condition_fuel ts) ts 0"
  have "rel_sum (=) verdict_le (?run ctx) (?run ctx')" by (rule extendsD(1) [OF extends_always [OF assms]])
  then show ?thesis
    using Inr by (cases "?run ctx"; cases "?run ctx'")
      (auto simp: evaluate_condition_def evaluate_tokens_def decided_def split: list.splits if_splits)
qed

lemma evaluate_tokens_Inr:
  "evaluate_tokens fl ctx ts = Inr c \<longleftrightarrow>
     (\<exists>v u. ts \<noteq> [] \<and> cond_or fl ctx (condition_fuel ts) ts 0 = Inr (v, [], u) \<and>
        c = \<lparr>cd_value = v, cd_unread = (if v \<noteq> None then [] else sort (remdups u))\<rparr>)"
proof (cases "cond_or fl ctx (condition_fuel ts) ts 0")
  case (Inl e)
  then show ?thesis by (simp add: evaluate_tokens_def)
next
  case (Inr x)
  obtain v rest u where "x = (v, rest, u)" by (rule prod_cases3)
  with Inr show ?thesis by (cases rest) (auto simp: evaluate_tokens_def)
qed

text \<open>
  An undecided condition names what it lacks. A condition that is read without a verdict reports at
  least one path, each once and in order, and each a path the context carries no value for; a decided
  condition reports none.
\<close>

theorem undecided_condition_names_missing:
  assumes "evaluate_condition fl ctx expression = Inr c"
  shows "if decided c then cd_unread c = []
     else cd_unread c \<noteq> [] \<and> sorted_wrt (<) (cd_unread c) \<and> (\<forall>p \<in> set (cd_unread c). ctx p = None)"
proof -
  obtain ts v u where c: "cond_or fl ctx (condition_fuel ts) ts 0 = Inr (v, [], u)"
      "c = \<lparr>cd_value = v, cd_unread = (if v \<noteq> None then [] else sort (remdups u))\<rparr>"
    using assms by (auto simp: evaluate_condition_def evaluate_tokens_Inr rbind_Inr_conv)
  then have "answers (verdict_reports ctx) (Inr (v, [], u))" using reportsD(1) [OF reports_always] by metis
  then have "(v = None \<longrightarrow> u \<noteq> []) \<and> (\<forall>p \<in> set u. ctx p = None)" by simp
  moreover have "sort (remdups u) = [] \<longleftrightarrow> u = []" by (metis set_empty set_remdups set_sort)
  moreover have "sorted_wrt (<) (sort (remdups u))" by (simp add: strict_sorted_iff)
  ultimately show ?thesis using c(2) by (simp add: decided_def)
qed

section \<open>Concrete conditions\<close>

definition example_float :: "string \<Rightarrow> pyfloat option" where
  "example_float s = (if s = ''0'' then Some (Finite 0) else if s = ''1'' then Some (Finite 1) else None)"

definition example_context :: "string \<Rightarrow> string option" where
  "example_context p = (if p = ''github.ref'' then Some ''refs/heads/main'' else None)"

lemma example_decided:
  "evaluate_condition example_float example_context ''github.ref == 'REFS/heads/main' || github.actor'' =
     Inr \<lparr>cd_value = Some True, cd_unread = []\<rparr>"
  by code_simp

theorem condition_verdict_is_stable_witness:
  "evaluate_condition example_float (example_context(''github.actor'' \<mapsto> ''me'')) ''github.ref == 'REFS/heads/main' || github.actor'' =
     Inr \<lparr>cd_value = Some True, cd_unread = []\<rparr>"
proof -
  have "example_context \<subseteq>\<^sub>m example_context(''github.actor'' \<mapsto> ''me'')"
    by (simp add: map_le_def example_context_def dom_def)
  moreover have "decided \<lparr>cd_value = Some True, cd_unread = []\<rparr>" by (simp add: decided_def)
  ultimately show ?thesis using condition_verdict_is_stable example_decided by blast
qed

theorem undecided_condition_names_missing_witness:
  "\<exists>c. evaluate_condition example_float example_context ''github.ref && github.actor'' = Inr c \<and> cd_unread c \<noteq> []"
proof -
  have "evaluate_condition example_float example_context ''github.ref && github.actor'' =
      Inr \<lparr>cd_value = None, cd_unread = [''github.actor'']\<rparr>" by code_simp
  with undecided_condition_names_missing [OF this] show ?thesis by (auto simp: decided_def)
qed

text \<open>
  A group around a single operand takes every closing parenthesis behind it: a comparison or a
  negation in parentheses that ends in such a group is refused, and surplus parentheses are accepted.
\<close>

lemma single_operand_group_takes_closings:
  "evaluate_condition example_float example_context ''((github.ref) == 'x')'' = Inl (Unreadable '')'')"
  "evaluate_condition example_float example_context ''(!(github.ref))'' = Inl Unbalanced_Parenthesis"
  "evaluate_condition example_float example_context ''(1 == (github.ref))'' = Inl Unbalanced_Parenthesis"
  "evaluate_condition example_float example_context ''(github.ref))))'' = Inr \<lparr>cd_value = Some True, cd_unread = []\<rparr>"
  by code_simp+

end
