(* ===== verification/Condition_Semantics.thy ===== *)
theory Condition_Semantics
  imports Job_Condition
begin

text \<open>
  A reference semantics of job conditions: expression trees, the token list each is written as, and
  their value in strong Kleene logic. The evaluator of \<open>jobcondition.py\<close> reads every tree of
  the grammar back with exactly that value, up to the parentheses around a single operand, which the
  evaluator reads in a way of its own.
\<close>

section \<open>Trees\<close>

datatype cond_expr =
    Or_E cond_expr cond_expr
  | And_E cond_expr cond_expr
  | Not_E cond_expr
  | Test operand_expr
  | Compare operand_expr bool operand_expr
and operand_expr =
    Atom token
  | Group cond_expr

primrec write_cond :: "cond_expr \<Rightarrow> token list" and write_operand :: "operand_expr \<Rightarrow> token list" where
  "write_cond (Or_E a b) = write_cond a @ (T_Operator, ''||'') # write_cond b"
| "write_cond (And_E a b) = write_cond a @ (T_Operator, ''&&'') # write_cond b"
| "write_cond (Not_E a) = (T_Operator, ''!'') # write_cond a"
| "write_cond (Test x) = write_operand x"
| "write_cond (Compare x same y) = write_operand x @ (T_Operator, if same then ''=='' else ''!='') # write_operand y"
| "write_operand (Atom t) = [t]"
| "write_operand (Group e) = open_paren # write_cond e @ [close_paren]"

text \<open>Operator precedence: a level writes no operator of a lower one outside parentheses, and
  chains associate to the left. A group holds more than one operand.\<close>

definition atom_ok :: "(string \<Rightarrow> pyfloat option) \<Rightarrow> token \<Rightarrow> bool" where
  "atom_ok fl t \<longleftrightarrow> fst t \<noteq> T_Operator \<and> (fst t = T_Number \<longrightarrow> fl (snd t) \<noteq> None)"

fun is_atom :: "cond_expr \<Rightarrow> bool" where
  "is_atom (Test (Atom _)) = True"
| "is_atom _ = False"

primrec level_of :: "cond_expr \<Rightarrow> nat" where
  "level_of (Or_E _ _) = 0"
| "level_of (And_E _ _) = 1"
| "level_of (Not_E _) = 2"
| "level_of (Test _) = 2"
| "level_of (Compare _ _ _) = 2"

primrec cond_ok :: "(string \<Rightarrow> pyfloat option) \<Rightarrow> cond_expr \<Rightarrow> bool"
  and operand_ok :: "(string \<Rightarrow> pyfloat option) \<Rightarrow> operand_expr \<Rightarrow> bool" where
  "cond_ok fl (Or_E a b) \<longleftrightarrow> cond_ok fl a \<and> cond_ok fl b \<and> 1 \<le> level_of b"
| "cond_ok fl (And_E a b) \<longleftrightarrow> cond_ok fl a \<and> cond_ok fl b \<and> 1 \<le> level_of a \<and> 2 \<le> level_of b"
| "cond_ok fl (Not_E a) \<longleftrightarrow> cond_ok fl a \<and> 2 \<le> level_of a"
| "cond_ok fl (Test x) \<longleftrightarrow> operand_ok fl x"
| "cond_ok fl (Compare x same y) \<longleftrightarrow> operand_ok fl x \<and> operand_ok fl y"
| "operand_ok fl (Atom t) \<longleftrightarrow> atom_ok fl t"
| "operand_ok fl (Group e) \<longleftrightarrow> cond_ok fl e \<and> \<not> is_atom e"

primrec nesting :: "cond_expr \<Rightarrow> nat" and operand_nesting :: "operand_expr \<Rightarrow> nat" where
  "nesting (Or_E a b) = max (nesting a) (nesting b)"
| "nesting (And_E a b) = max (nesting a) (nesting b)"
| "nesting (Not_E a) = Suc (nesting a)"
| "nesting (Test x) = operand_nesting x"
| "nesting (Compare x same y) = max (operand_nesting x) (operand_nesting y)"
| "operand_nesting (Atom t) = 0"
| "operand_nesting (Group e) = Suc (nesting e)"

section \<open>Values\<close>

definition kleene_and :: "bool option \<Rightarrow> bool option \<Rightarrow> bool option" where
  "kleene_and a b = (if a = Some False \<or> b = Some False then Some False
     else if a = Some True \<and> b = Some True then Some True else None)"

definition kleene_not :: "bool option \<Rightarrow> bool option" where
  "kleene_not a = map_option Not a"

definition kleene_or :: "bool option \<Rightarrow> bool option \<Rightarrow> bool option" where
  "kleene_or a b = kleene_not (kleene_and (kleene_not a) (kleene_not b))"

definition atom_value :: "(string \<Rightarrow> string option) \<Rightarrow> token \<Rightarrow> string option \<times> value_kind" where
  "atom_value ctx t =
     (case t of (kind, txt) \<Rightarrow>
        if kind = T_String then (Some (unquote txt), V_String)
        else if kind = T_Number then (Some txt, V_Number)
        else case map_of LITERAL (lower txt) of
               Some v \<Rightarrow> (Some v, V_Boolean)
             | None \<Rightarrow> (case ctx txt of None \<Rightarrow> (None, V_Path) | Some v \<Rightarrow> (Some v, V_String)))"

definition truth :: "(string \<Rightarrow> pyfloat option) \<Rightarrow> string option \<times> value_kind \<Rightarrow> bool option" where
  "truth fl p =
     map_option (\<lambda>v. if snd p = V_Number then \<not> float_eq (the (fl v)) (Finite 0) else v \<noteq> []) (fst p)"

definition compare_values :: "(string \<Rightarrow> pyfloat option) \<Rightarrow> string option \<times> value_kind \<Rightarrow> bool \<Rightarrow> string option \<times> value_kind \<Rightarrow> bool option" where
  "compare_values fl p same q =
     (case (fst p, fst q) of
        (Some a, Some b) \<Rightarrow> Some (equal_values fl a (snd p) b (snd q) = same)
      | _ \<Rightarrow> None)"

primrec cond_value :: "(string \<Rightarrow> pyfloat option) \<Rightarrow> (string \<Rightarrow> string option) \<Rightarrow> cond_expr \<Rightarrow> bool option"
  and operand_value :: "(string \<Rightarrow> pyfloat option) \<Rightarrow> (string \<Rightarrow> string option) \<Rightarrow> operand_expr \<Rightarrow> string option \<times> value_kind" where
  "cond_value fl ctx (Or_E a b) = kleene_or (cond_value fl ctx a) (cond_value fl ctx b)"
| "cond_value fl ctx (And_E a b) = kleene_and (cond_value fl ctx a) (cond_value fl ctx b)"
| "cond_value fl ctx (Not_E a) = kleene_not (cond_value fl ctx a)"
| "cond_value fl ctx (Test x) = truth fl (operand_value fl ctx x)"
| "cond_value fl ctx (Compare x same y) = compare_values fl (operand_value fl ctx x) same (operand_value fl ctx y)"
| "operand_value fl ctx (Atom t) = atom_value ctx t"
| "operand_value fl ctx (Group e) = (as_text (cond_value fl ctx e), V_Boolean)"

definition atom_missing :: "(string \<Rightarrow> string option) \<Rightarrow> token \<Rightarrow> string list" where
  "atom_missing ctx t = (if fst (atom_value ctx t) = None then [snd t] else [])"

primrec missing :: "(string \<Rightarrow> string option) \<Rightarrow> cond_expr \<Rightarrow> string list"
  and operand_missing :: "(string \<Rightarrow> string option) \<Rightarrow> operand_expr \<Rightarrow> string list" where
  "missing ctx (Or_E a b) = missing ctx a @ missing ctx b"
| "missing ctx (And_E a b) = missing ctx a @ missing ctx b"
| "missing ctx (Not_E a) = missing ctx a"
| "missing ctx (Test x) = operand_missing ctx x"
| "missing ctx (Compare x same y) = operand_missing ctx x @ operand_missing ctx y"
| "operand_missing ctx (Atom t) = atom_missing ctx t"
| "operand_missing ctx (Group e) = missing ctx e"

lemma either_kleene: "either a b True = kleene_or a b" "either a b False = kleene_and a b"
  by (cases a; cases b; auto simp: either_def kleene_or_def kleene_and_def kleene_not_def)+

section \<open>Enough fuel\<close>

text \<open>What a computation answers with every large enough fuel.\<close>

definition settles :: "(nat \<Rightarrow> 'a) \<Rightarrow> 'a \<Rightarrow> bool" where
  "settles f r \<longleftrightarrow> (\<exists>N. \<forall>n \<ge> N. f n = r)"

lemma settles_const [simp]: "settles (\<lambda>_. r) r"
  by (simp add: settles_def)

lemma settles_Suc: "settles (\<lambda>n. f (Suc n)) r \<Longrightarrow> settles f r"
  unfolding settles_def by (metis Suc_le_D Suc_le_mono)

lemma settles_rbind:
  assumes "settles f (Inr x)" and "settles (\<lambda>n. g n x) r"
  shows "settles (\<lambda>n. rbind (f n) (g n)) r"
proof -
  obtain N M where "\<forall>n \<ge> N. f n = Inr x" "\<forall>n \<ge> M. g n x = r" using assms by (auto simp: settles_def)
  then have "\<forall>n \<ge> max N M. rbind (f n) (g n) = r" by simp
  then show ?thesis unfolding settles_def by blast
qed

section \<open>Reading a tree back\<close>

lemma atom_not_paren: "atom_ok fl t \<Longrightarrow> t \<noteq> (T_Operator, op)"
  by (auto simp: atom_ok_def)

lemma one_operand_atom: "one_operand (t # u # s) \<Longrightarrow> u = close_paren"
  by (simp add: one_operand_def)

lemma one_operand_operator: "\<not> one_operand ((T_Operator, op) # s)"
  by (auto simp: one_operand_def split: list.splits)

text \<open>Only a group around one operand looks like one to the evaluator.\<close>

lemma write_starts:
  shows "cond_ok fl e \<Longrightarrow> \<not> is_atom e \<Longrightarrow> \<not> one_operand (dropWhile (\<lambda>t. t = open_paren) (write_cond e @ s))"
    and "operand_ok fl x \<Longrightarrow> x = Group e' \<Longrightarrow> \<not> one_operand (dropWhile (\<lambda>t. t = open_paren) (write_operand x @ s))"
proof (induction e and x arbitrary: s and s e')
  case (Or_E a b)
  then show ?case
    by (cases a rule: is_atom.cases) (auto dest: one_operand_atom atom_not_paren)
next
  case (And_E a b)
  then show ?case
    by (cases a rule: is_atom.cases) (auto dest: one_operand_atom atom_not_paren)
next
  case (Not_E a)
  then show ?case by (simp add: one_operand_operator)
next
  case (Test x)
  then show ?case by (cases x) auto
next
  case (Compare x same y)
  then show ?case by (cases x) (auto dest: one_operand_atom atom_not_paren)
next
  case (Group e)
  then show ?case by simp
qed simp_all

lemma comparison_test:
  assumes "settles (\<lambda>n. operand fl ctx n ts d) (Inr (fst p, snd p, rest, u))" and "bare_value fl (fst p) (snd p) = Inr (truth fl p)"
    and "\<not> is_op rest ''==''" "\<not> is_op rest ''!=''"
  shows "settles (\<lambda>n. comparison fl ctx n ts d) (Inr (truth fl p, rest, u))"
  by (rule settles_Suc, simp, rule settles_rbind [OF assms(1)]) (simp add: assms(2-4))

lemma comparison_compare:
  assumes "settles (\<lambda>n. operand fl ctx n ts d) (Inr (fst p, snd p, (T_Operator, if same then ''=='' else ''!='') # ts', u))"
    and "settles (\<lambda>n. operand fl ctx n ts' d) (Inr (fst q, snd q, rest, u'))"
  shows "settles (\<lambda>n. comparison fl ctx n ts d) (Inr (compare_values fl p same q, rest, u @ u'))"
  by (rule settles_Suc, simp, rule settles_rbind [OF assms(1)], simp, intro conjI impI)
     (rule settles_rbind [OF assms(2)], simp add: compare_values_def split: option.splits)+

lemma bare_atom: "atom_ok fl t \<Longrightarrow> p = atom_value ctx t \<Longrightarrow> bare_value fl (fst p) (snd p) = Inr (truth fl p)"
  by (cases t) (auto simp: atom_ok_def atom_value_def truth_def split: option.splits if_splits)

lemma bare_group: "bare_value fl (as_text v) V_Boolean = Inr (truth fl (as_text v, V_Boolean))"
  by (cases v) (auto simp: as_text_def truth_def)

lemma bare_operand:
  "operand_ok fl x \<Longrightarrow> bare_value fl (fst (operand_value fl ctx x)) (snd (operand_value fl ctx x)) = Inr (truth fl (operand_value fl ctx x))"
  by (cases x) (auto simp: bare_group bare_atom)

lemma operand_atom:
  assumes "atom_ok fl t" and "d \<le> MAX_DEPTH"
  shows "settles (\<lambda>n. operand fl ctx n (t # rest) d) (Inr (fst (atom_value ctx t), snd (atom_value ctx t), rest, atom_missing ctx t))"
proof -
  obtain k x where t: "t = (k, x)" by (cases t)
  then have "settles (\<lambda>n. operand fl ctx (Suc n) (t # rest) d)
      (Inr (fst (atom_value ctx t), snd (atom_value ctx t), rest, atom_missing ctx t))"
    using assms by (cases k) (simp_all add: not_less atom_ok_def atom_value_def atom_missing_def split: option.split)
  then show ?thesis by (rule settles_Suc)
qed

lemma operand_group:
  assumes "settles (\<lambda>n. cond_or fl ctx n (ts @ close_paren # rest) (Suc d)) (Inr (v, close_paren # rest, u))"
    and "\<not> one_operand (dropWhile (\<lambda>t. t = open_paren) (ts @ close_paren # rest))" and "d \<le> MAX_DEPTH"
  shows "settles (\<lambda>n. operand fl ctx n (open_paren # ts @ close_paren # rest) d) (Inr (as_text v, V_Boolean, rest, u))"
  by (rule settles_Suc) (use assms(2,3) in \<open>simp add: Let_def not_less settles_rbind [OF assms(1)]\<close>)

lemma loops_stop:
  "\<not> is_op rest ''||'' \<Longrightarrow> settles (\<lambda>n. cond_or_loop fl ctx n (v, rest, u) d) (Inr (v, rest, u))"
  "\<not> is_op rest ''&&'' \<Longrightarrow> settles (\<lambda>n. cond_and_loop fl ctx n (v, rest, u) d) (Inr (v, rest, u))"
  by (rule settles_Suc, simp)+

text \<open>What each level of the evaluator makes of a tree it can begin with. The two chains read the
  tree as their left operand, so their loop goes on from it.\<close>

definition reads :: "(string \<Rightarrow> pyfloat option) \<Rightarrow> (string \<Rightarrow> string option) \<Rightarrow> cond_expr \<Rightarrow> nat \<Rightarrow> token list \<Rightarrow> bool" where
  "reads fl ctx e d rest \<longleftrightarrow>
     (2 \<le> level_of e \<longrightarrow>
        settles (\<lambda>n. cond_not fl ctx n (write_cond e @ rest) d) (Inr (cond_value fl ctx e, rest, missing ctx e))) \<and>
     (1 \<le> level_of e \<longrightarrow>
        (\<forall>r. settles (\<lambda>n. cond_and_loop fl ctx n (cond_value fl ctx e, rest, missing ctx e) d) r \<longrightarrow>
             settles (\<lambda>n. cond_and fl ctx n (write_cond e @ rest) d) r)) \<and>
     (\<not> is_op rest ''&&'' \<longrightarrow>
        (\<forall>r. settles (\<lambda>n. cond_or_loop fl ctx n (cond_value fl ctx e, rest, missing ctx e) d) r \<longrightarrow>
             settles (\<lambda>n. cond_or fl ctx n (write_cond e @ rest) d) r))"

lemma readsD:
  assumes "reads fl ctx e d rest"
  shows "2 \<le> level_of e \<Longrightarrow> settles (\<lambda>n. cond_not fl ctx n (write_cond e @ rest) d) (Inr (cond_value fl ctx e, rest, missing ctx e))"
    and "1 \<le> level_of e \<Longrightarrow> settles (\<lambda>n. cond_and_loop fl ctx n (cond_value fl ctx e, rest, missing ctx e) d) r \<Longrightarrow>
       settles (\<lambda>n. cond_and fl ctx n (write_cond e @ rest) d) r"
    and "\<not> is_op rest ''&&'' \<Longrightarrow> settles (\<lambda>n. cond_or_loop fl ctx n (cond_value fl ctx e, rest, missing ctx e) d) r \<Longrightarrow>
       settles (\<lambda>n. cond_or fl ctx n (write_cond e @ rest) d) r"
  using assms by (simp_all add: reads_def)

lemma and_of_not:
  assumes "settles (\<lambda>n. cond_not fl ctx n ts d) (Inr p)" and "settles (\<lambda>n. cond_and_loop fl ctx n p d) r"
  shows "settles (\<lambda>n. cond_and fl ctx n ts d) r"
  by (rule settles_Suc) (simp add: settles_rbind [OF assms(1)] assms(2))

lemma or_of_and:
  assumes "settles (\<lambda>n. cond_and fl ctx n ts d) (Inr p)" and "settles (\<lambda>n. cond_or_loop fl ctx n p d) r" and "d \<le> MAX_DEPTH"
  shows "settles (\<lambda>n. cond_or fl ctx n ts d) r"
  by (rule settles_Suc) (use assms(3) in \<open>simp add: settles_rbind [OF assms(1)] assms(2)\<close>)

lemma and_loop_step:
  assumes "settles (\<lambda>n. cond_not fl ctx n ts d) (Inr (b, rest, u'))"
    and "settles (\<lambda>n. cond_and_loop fl ctx n (kleene_and a b, rest, u @ u') d) r"
  shows "settles (\<lambda>n. cond_and_loop fl ctx n (a, (T_Operator, ''&&'') # ts, u) d) r"
  by (rule settles_Suc, simp, rule settles_rbind [OF assms(1)]) (simp add: either_kleene assms(2))

lemma or_loop_step:
  assumes "settles (\<lambda>n. cond_and fl ctx n ts d) (Inr (b, rest, u'))"
    and "settles (\<lambda>n. cond_or_loop fl ctx n (kleene_or a b, rest, u @ u') d) r"
  shows "settles (\<lambda>n. cond_or_loop fl ctx n (a, (T_Operator, ''||'') # ts, u) d) r"
  by (rule settles_Suc, simp, rule settles_rbind [OF assms(1)]) (simp add: either_kleene assms(2))

text \<open>A level settles the ones below it.\<close>

lemma reads_and:
  assumes "\<And>r. settles (\<lambda>n. cond_and_loop fl ctx n (cond_value fl ctx e, rest, missing ctx e) d) r \<Longrightarrow>
       settles (\<lambda>n. cond_and fl ctx n (write_cond e @ rest) d) r"
    and "level_of e = 1" and "d \<le> MAX_DEPTH"
  shows "reads fl ctx e d rest"
  unfolding reads_def using assms by (auto intro: or_of_and [OF assms(1) [OF loops_stop(2)]])

lemma reads_not:
  assumes "settles (\<lambda>n. cond_not fl ctx n (write_cond e @ rest) d) (Inr (cond_value fl ctx e, rest, missing ctx e))"
    and "d \<le> MAX_DEPTH"
  shows "reads fl ctx e d rest"
  unfolding reads_def
  using assms by (auto intro: and_of_not or_of_and [OF and_of_not [OF assms(1) loops_stop(2)]])

lemma not_of_comparison:
  assumes "settles (\<lambda>n. comparison fl ctx n ts d) r" and "d \<le> MAX_DEPTH" and "\<not> is_op ts ''!''"
  shows "settles (\<lambda>n. cond_not fl ctx n ts d) r"
  by (rule settles_Suc) (use assms in \<open>simp add: not_less\<close>)

lemma not_of_not:
  assumes "settles (\<lambda>n. cond_not fl ctx n ts (Suc d)) (Inr (v, rest, u))" and "d \<le> MAX_DEPTH"
  shows "settles (\<lambda>n. cond_not fl ctx n ((T_Operator, ''!'') # ts) d) (Inr (kleene_not v, rest, u))"
  by (rule settles_Suc) (use assms(2) in \<open>simp add: not_less kleene_not_def settles_rbind [OF assms(1)]\<close>)

lemma write_operand_starts: "operand_ok fl x \<Longrightarrow> \<not> is_op (write_operand x @ s) ''!''"
  by (cases x) (auto dest: atom_not_paren)

lemma reads_always:
  shows "cond_ok fl e \<Longrightarrow> d + nesting e \<le> MAX_DEPTH \<Longrightarrow> \<not> is_op rest ''=='' \<Longrightarrow> \<not> is_op rest ''!='' \<Longrightarrow> reads fl ctx e d rest"
    and "operand_ok fl x \<Longrightarrow> d + operand_nesting x \<le> MAX_DEPTH \<Longrightarrow>
      settles (\<lambda>n. operand fl ctx n (write_operand x @ rest) d)
        (Inr (fst (operand_value fl ctx x), snd (operand_value fl ctx x), rest, operand_missing ctx x))"
proof (induction e and x arbitrary: d rest and d rest)
  case (Or_E a b)
  let ?rest = "(T_Operator, ''||'') # write_cond b @ rest"
  have a: "reads fl ctx a d ?rest" and b: "reads fl ctx b d rest" and level: "1 \<le> level_of b" using Or_E by simp_all
  have "settles (\<lambda>n. cond_or fl ctx n (write_cond a @ ?rest) d) r"
    if "\<not> is_op rest ''&&''" "settles (\<lambda>n. cond_or_loop fl ctx n (cond_value fl ctx (Or_E a b), rest, missing ctx (Or_E a b)) d) r" for r
  proof (rule readsD(3) [OF a])
    show "settles (\<lambda>n. cond_or_loop fl ctx n (cond_value fl ctx a, ?rest, missing ctx a) d) r"
      using or_loop_step [OF readsD(2) [OF b level loops_stop(2)]] that by simp
  qed simp
  then show ?case by (simp add: reads_def)
next
  case (And_E a b)
  let ?rest = "(T_Operator, ''&&'') # write_cond b @ rest"
  have a: "reads fl ctx a d ?rest" and b: "reads fl ctx b d rest" and level: "1 \<le> level_of a" "2 \<le> level_of b" and d: "d \<le> MAX_DEPTH"
    using And_E by simp_all
  show ?case
  proof (rule reads_and)
    show "settles (\<lambda>n. cond_and fl ctx n (write_cond (And_E a b) @ rest) d) r"
      if "settles (\<lambda>n. cond_and_loop fl ctx n (cond_value fl ctx (And_E a b), rest, missing ctx (And_E a b)) d) r" for r
      using readsD(2) [OF a level(1) and_loop_step [OF readsD(1) [OF b level(2)]]] that by simp
  qed (use d in simp_all)
next
  case (Not_E a)
  then have "reads fl ctx a (Suc d) rest" "2 \<le> level_of a" "d \<le> MAX_DEPTH" by simp_all
  then show ?case using not_of_not [OF readsD(1)] by (intro reads_not) simp_all
next
  case (Test x)
  then have "operand_ok fl x" "d \<le> MAX_DEPTH" by simp_all
  with Test show ?case
    by (intro reads_not not_of_comparison) (simp_all add: comparison_test bare_operand write_operand_starts)
next
  case (Compare x same y)
  let ?rest = "(T_Operator, if same then ''=='' else ''!='') # write_operand y @ rest"
  have ok: "operand_ok fl x" "d \<le> MAX_DEPTH" using Compare.prems by simp_all
  have "settles (\<lambda>n. operand fl ctx n (write_operand x @ ?rest) d)
      (Inr (fst (operand_value fl ctx x), snd (operand_value fl ctx x), ?rest, operand_missing ctx x))"
    using Compare.IH(1) Compare.prems by simp
  moreover have "settles (\<lambda>n. operand fl ctx n (write_operand y @ rest) d)
      (Inr (fst (operand_value fl ctx y), snd (operand_value fl ctx y), rest, operand_missing ctx y))"
    using Compare.IH(2) Compare.prems by simp
  ultimately have "settles (\<lambda>n. comparison fl ctx n (write_operand x @ ?rest) d)
      (Inr (compare_values fl (operand_value fl ctx x) same (operand_value fl ctx y), rest, operand_missing ctx x @ operand_missing ctx y))"
    by (rule comparison_compare)
  then show ?case using ok by (intro reads_not not_of_comparison) (simp_all add: write_operand_starts)
next
  case (Atom t)
  then show ?case by (simp add: operand_atom)
next
  case (Group e)
  then have e: "reads fl ctx e (Suc d) (close_paren # rest)" "cond_ok fl e" "\<not> is_atom e" by simp_all
  have "settles (\<lambda>n. cond_or fl ctx n (write_cond e @ close_paren # rest) (Suc d)) (Inr (cond_value fl ctx e, close_paren # rest, missing ctx e))"
    by (rule readsD(3) [OF e(1)]) (simp_all add: loops_stop)
  then show ?case using operand_group [OF _ write_starts(1) [OF e(2,3)]] Group.prems by simp
qed

text \<open>
  C21: the evaluator implements three-valued logic. A condition written from an expression tree, with
  the parentheses precedence asks for and at most 64 levels deep, is read back with the value of the
  tree in strong Kleene logic, where a path the context lacks has no value; when there is no value,
  the names reported are the paths of the tree that have none. No group of the tree holds a single
  operand, and the numbers in it are ones \<open>float\<close> reads.
\<close>

theorem condition_has_kleene_value:
  assumes "cond_ok fl e" and "nesting e \<le> MAX_DEPTH"
  shows "evaluate_tokens fl ctx (write_cond e) =
     Inr \<lparr>cd_value = cond_value fl ctx e,
          cd_unread = (if cond_value fl ctx e \<noteq> None then [] else sort (remdups (missing ctx e)))\<rparr>"
proof -
  let ?ts = "write_cond e"
  have "reads fl ctx e 0 []" using reads_always(1) [OF assms(1), of 0 "[]" ctx] assms(2) by simp
  then have "settles (\<lambda>n. cond_or fl ctx n (?ts @ []) 0) (Inr (cond_value fl ctx e, [], missing ctx e))"
    by (rule readsD(3)) (simp_all add: loops_stop)
  then obtain N where N: "\<And>n. n \<ge> N \<Longrightarrow> cond_or fl ctx n ?ts 0 = Inr (cond_value fl ctx e, [], missing ctx e)"
    by (auto simp: settles_def)
  have "cond_or fl ctx (condition_fuel ?ts) ?ts 0 = cond_or fl ctx (max N (condition_fuel ?ts)) ?ts 0"
    by (rule cond_or_steady [symmetric]) (simp_all add: condition_fuel_def)
  then have run: "cond_or fl ctx (condition_fuel ?ts) ?ts 0 = Inr (cond_value fl ctx e, [], missing ctx e)" using N by simp
  then have "?ts \<noteq> []" using progress(1) [OF run] by auto
  with run show ?thesis by (simp add: evaluate_tokens_def)
qed

theorem condition_has_kleene_value_witness:
  "evaluate_tokens example_float example_context
     (write_cond (And_E (Test (Atom (T_Number, ''1''))) (Not_E (Test (Group (Or_E (Test (Atom (T_Path, ''github.actor''))) (Test (Atom (T_Path, ''null'')))))))))
   = Inr \<lparr>cd_value = None, cd_unread = [''github.actor'']\<rparr>"
proof -
  let ?e = "And_E (Test (Atom (T_Number, ''1''))) (Not_E (Test (Group (Or_E (Test (Atom (T_Path, ''github.actor''))) (Test (Atom (T_Path, ''null'')))))))"
  have "cond_ok example_float ?e" "nesting ?e \<le> MAX_DEPTH"
    by (simp_all add: atom_ok_def example_float_def MAX_DEPTH_def)
  moreover have "cond_value example_float example_context ?e = None" "sort (remdups (missing example_context ?e)) = [''github.actor'']"
    by code_simp+
  ultimately show ?thesis using condition_has_kleene_value [of example_float ?e example_context] by simp
qed

end
