(* ===== verification/Artifact_Store.thy ===== *)
theory Artifact_Store
  imports Device_Api
begin

text \<open>
  Build artifacts (\<open>artifact.py\<close>, \<open>artifact_staging.py\<close>, \<open>artifactapi.py\<close>): one archive for a run,
  stored under its job id, with a time to live and two quotas; the upload a device makes while it
  holds the run's lease, and the download. The table is a list of rows and the archive directory a map
  from job id to content. An operation of the store holds its lock and is one function; the files of
  dropped rows go after the commit, so they are collected first and removed last, as in the code. The
  staging files are not modelled: a body is staged whole or refused. SHA-256 is a parameter.

  An upload reads its body between two looks at the lease, so it is not one step: the last sections
  run uploads, reads and every queue operation in any order.
\<close>

section \<open>State\<close>

record artifact_row =
  af_job :: string
  af_repository :: string
  af_name :: string
  af_size :: nat
  af_digest :: string
  af_created :: real
  af_expires :: real

record artifact_limits =
  al_ttl :: int
  al_repository_quota :: int
  al_storage_quota :: int
  al_max_bytes :: int

record artifacts =
  at_rows :: "artifact_row list"
  at_files :: "string \<rightharpoonup> string"

definition new_artifacts :: "artifact_limits \<Rightarrow> artifacts result" where
  "new_artifacts al =
     (if min (min (al_ttl al) (al_repository_quota al)) (min (al_storage_quota al) (al_max_bytes al)) < 1
      then Inl (ValueError ''artifact limits must be positive'')
      else Inr \<lparr>at_rows = [], at_files = Map.empty\<rparr>)"

definition ARTIFACT_SUFFIX :: string where "ARTIFACT_SUFFIX = ''.tar''"

definition archive_path :: "string \<Rightarrow> string result" where
  "archive_path i =
     (if length i = 32 \<and> list_all (\<lambda>c. c \<in> set ''0123456789abcdef'') i then Inr (i @ ARTIFACT_SUFFIX)
      else Inl (ValueError ''invalid job id''))"

section \<open>Drops, expiry and quotas\<close>

definition drop_matches :: "string \<Rightarrow> string option \<Rightarrow> real option \<Rightarrow> artifact_row \<Rightarrow> bool" where
  "drop_matches i digest created r \<longleftrightarrow>
     af_job r = i \<and>
     (case digest of
        None \<Rightarrow> True
      | Some g \<Rightarrow> af_digest r = g \<and> (case created of None \<Rightarrow> True | Some t \<Rightarrow> af_created r = t))"

definition drop_artifact :: "string \<Rightarrow> string option \<Rightarrow> real option \<Rightarrow> artifact_row list \<Rightarrow> artifact_row list" where
  "drop_artifact i digest created rows = filter (\<lambda>r. \<not> drop_matches i digest created r) rows"

definition unlink_all :: "string list \<Rightarrow> (string \<rightharpoonup> string) \<Rightarrow> (string \<rightharpoonup> string)" where
  "unlink_all gone files = files |` (- set gone)"

definition expire_artifacts :: "real \<Rightarrow> artifact_row list \<Rightarrow> artifact_row list \<times> string list" where
  "expire_artifacts now rows =
     (let gone = map af_job (filter (\<lambda>r. af_expires r \<le> now) rows)
      in (foldl (\<lambda>rs i. drop_artifact i None None rs) rows gone, gone))"

definition artifact_bytes :: "artifact_row list \<Rightarrow> int" where
  "artifact_bytes rows = int (sum_list (map af_size rows))"

lemma drop_artifact_shorter: "r \<in> set rows \<Longrightarrow> length (drop_artifact (af_job r) None None rows) < length rows"
  unfolding drop_artifact_def by (rule length_filter_less) (auto simp: drop_matches_def)

function evict_artifacts :: "(artifact_row \<Rightarrow> bool) \<Rightarrow> int \<Rightarrow> artifact_row list \<Rightarrow> artifact_row list \<times> string list" where
  "evict_artifacts P quota rows =
     (if artifact_bytes (filter P rows) \<le> quota then (rows, [])
      else case min_by (\<lambda>r. (af_created r, af_job r)) (filter P rows) of
             None \<Rightarrow> (rows, [])
           | Some r \<Rightarrow>
               (let (kept, gone) = evict_artifacts P quota (drop_artifact (af_job r) None None rows)
                in (kept, af_job r # gone)))"
  by pat_completeness auto

termination
  by (relation "measure (\<lambda>(_, _, rows). length rows)") (auto dest!: min_by_in intro!: drop_artifact_shorter)

declare evict_artifacts.simps [simp del]

section \<open>Operations of the store\<close>

text \<open>
  A body is read block by block until the declared length is there; a read answers at most what it was
  asked for, and nothing once the sender has closed.
\<close>

definition STAGE_BLOCK :: nat where "STAGE_BLOCK = 1024 * 1024"

function stage_blocks :: "string \<Rightarrow> nat \<Rightarrow> string result" where
  "stage_blocks source remaining =
     (if remaining = 0 then Inr []
      else let block = take (min STAGE_BLOCK remaining) source
           in if block = [] then Inl (ValueError ''artifact upload ended before Content-Length'')
              else rbind (stage_blocks (drop (length block) source) (remaining - length block)) (\<lambda>rest. Inr (block @ rest)))"
  by pat_completeness auto

termination
  by (relation "measure snd") auto

declare stage_blocks.simps [simp del]

definition stage_upload :: "(string \<Rightarrow> string) \<Rightarrow> string \<Rightarrow> int \<Rightarrow> (string \<times> string) result" where
  "stage_upload sha256 source content_length =
     rbind (stage_blocks source (nat content_length)) (\<lambda>body. Inr (body, sha256 body))"

lemma stage_blocks_eq:
  "stage_blocks source n = (if length source < n then Inl (ValueError ''artifact upload ended before Content-Length'') else Inr (take n source))"
proof (induction source n rule: stage_blocks.induct)
  case (1 source n)
  let ?k = "min STAGE_BLOCK n"
  have k: "0 < n \<Longrightarrow> 0 < ?k" by (simp add: STAGE_BLOCK_def)
  show ?case
  proof (cases "n = 0 \<or> source = []")
    case True
    then show ?thesis by (auto simp: stage_blocks.simps [of source n])
  next
    case False
    define block where "block = take ?k source"
    have block: "block \<noteq> []" "length block \<le> n" "length block \<le> length source" using False k by (auto simp: block_def)
    have "take (length block) source = block" by (auto simp: block_def min_def)
    then have all: "block @ take (n - length block) (drop (length block) source) = take n source"
      using take_add [of "length block" "n - length block" source] block(2) by simp
    have "stage_blocks source n = rbind (stage_blocks (drop (length block) source) (n - length block)) (\<lambda>rest. Inr (block @ rest))"
      using False block(1) by (simp add: stage_blocks.simps [of source n] Let_def flip: block_def)
    moreover have "stage_blocks (drop (length block) source) (n - length block) =
        (if length source < n then Inl (ValueError ''artifact upload ended before Content-Length'')
         else Inr (take (n - length block) (drop (length block) source)))"
      using 1 [OF _ block_def block(1)] False block(2,3) by (auto simp: less_diff_conv)
    ultimately show ?thesis using all by simp
  qed
qed

lemma stage_upload_eq:
  "stage_upload sha256 source content_length =
     (if length source < nat content_length then Inl (ValueError ''artifact upload ended before Content-Length'')
      else Inr (take (nat content_length) source, sha256 (take (nat content_length) source)))"
  by (simp add: stage_upload_def stage_blocks_eq)

definition artifact_put ::
  "(string \<Rightarrow> string) \<Rightarrow> artifact_limits \<Rightarrow> string \<Rightarrow> string \<Rightarrow> string \<Rightarrow> int \<Rightarrow> real \<Rightarrow> artifacts \<Rightarrow>
   (artifacts \<times> artifact_row \<times> bool) result" where
  "artifact_put sha256 al i repository upload content_length now st =
     rbind (archive_path i) (\<lambda>name.
       if content_length < 0 \<or> content_length > al_max_bytes al
       then Inl (ValueError ''artifact archive exceeds the configured size limit'')
       else rbind (stage_upload sha256 upload content_length) (\<lambda>(body, digest).
          let r = \<lparr>af_job = i, af_repository = repository, af_name = name, af_size = length body, af_digest = digest,
                   af_created = now, af_expires = now + of_int (al_ttl al)\<rparr>;
              (rows, gone) = expire_artifacts now (at_rows st)
          in case lookup_by af_job i rows of
               Some standing \<Rightarrow> Inr (st\<lparr>at_rows := rows, at_files := unlink_all gone (at_files st)\<rparr>, standing, False)
             | None \<Rightarrow>
                 (let (rows1, gone1) = evict_artifacts (\<lambda>q. af_repository q = repository) (al_repository_quota al) (rows @ [r]);
                      (rows2, gone2) = evict_artifacts (\<lambda>_. True) (al_storage_quota al) rows1
                  in Inr (st\<lparr>at_rows := rows2, at_files := unlink_all (gone @ gone1 @ gone2) ((at_files st)(i \<mapsto> body))\<rparr>, r, True))))"

definition discard_artifact :: "string \<Rightarrow> string option \<Rightarrow> real option \<Rightarrow> artifacts \<Rightarrow> artifacts" where
  "discard_artifact i digest created st =
     (if list_ex (drop_matches i digest created) (at_rows st)
      then st\<lparr>at_rows := drop_artifact i digest created (at_rows st), at_files := unlink_all [i] (at_files st)\<rparr>
      else st)"

definition artifact_get :: "string \<Rightarrow> real \<Rightarrow> artifacts \<Rightarrow> (artifacts \<times> artifact_row option) result" where
  "artifact_get i now st =
     rbind (archive_path i) (\<lambda>_.
       let (rows, gone) = expire_artifacts now (at_rows st);
           st1 = st\<lparr>at_rows := rows, at_files := unlink_all gone (at_files st)\<rparr>
       in Inr (case lookup_by af_job i rows of
                 None \<Rightarrow> (st1, None)
               | Some r \<Rightarrow>
                   if at_files st1 i = None then (discard_artifact i (Some (af_digest r)) (Some (af_created r)) st1, None)
                   else (st1, Some r)))"

definition artifact_open :: "string \<Rightarrow> real \<Rightarrow> artifacts \<Rightarrow> (artifacts \<times> (string \<times> artifact_row) option) result" where
  "artifact_open i now st =
     rbind (artifact_get i now st) (\<lambda>(st', found).
       Inr (st', case found of None \<Rightarrow> None | Some r \<Rightarrow> map_option (\<lambda>body. (body, r)) (at_files st' i)))"

section \<open>The endpoints\<close>

text \<open>What an upload is refused with before a byte of it is read.\<close>

definition upload_refusal ::
  "(string \<Rightarrow> bool) \<Rightarrow> artifact_limits \<Rightarrow> string \<Rightarrow> string \<Rightarrow> int \<Rightarrow> real \<Rightarrow> db \<Rightarrow> artifact_row response option" where
  "upload_refusal speaks al i device content_length now d =
     (if get d i = None then Some (Refused 404 ''unknown job'')
      else if \<not> speaks device then Some token_refusal
      else if \<not> holds_lease i device now d then Some lease_refusal
      else if content_length < 0 \<or> content_length > al_max_bytes al
      then Some (Refused 413 ''artifact archive exceeds the configured size limit'')
      else None)"

text \<open>The second look at the lease, once the archive is in its place.\<close>

definition conclude_upload ::
  "string \<Rightarrow> string \<Rightarrow> artifact_row \<Rightarrow> bool \<Rightarrow> real \<Rightarrow> db \<Rightarrow> artifacts \<Rightarrow> artifacts \<times> artifact_row response" where
  "conclude_upload i device r created now d st =
     (if \<not> holds_lease i device now d
      then (if created then discard_artifact i (Some (af_digest r)) (Some (af_created r)) st else st, lease_refusal)
      else if created
      then (case artifact_get i now st of
              Inl e \<Rightarrow> (st, error_response e)
            | Inr (st', None) \<Rightarrow> (st', Refused 507 ''artifact archive is larger than the configured storage quota'')
            | Inr (st', Some _) \<Rightarrow> (st', Sent 201 r))
      else (st, Sent 200 r))"

definition upload_endpoint ::
  "(string \<Rightarrow> string) \<Rightarrow> (string \<Rightarrow> bool) \<Rightarrow> artifact_limits \<Rightarrow> string \<Rightarrow> string \<Rightarrow> string \<Rightarrow> int \<Rightarrow> real \<Rightarrow> db \<Rightarrow> artifacts \<Rightarrow>
   artifacts \<times> artifact_row response" where
  "upload_endpoint sha256 speaks al i device upload content_length now d st =
     (case upload_refusal speaks al i device content_length now d of
        Some refusal \<Rightarrow> (st, refusal)
      | None \<Rightarrow>
          (case artifact_put sha256 al i (job_repository (the (get d i))) upload content_length now st of
             Inl e \<Rightarrow> (st, error_response e)
           | Inr (st', r, created) \<Rightarrow> conclude_upload i device r created now d st'))"

definition download_endpoint :: "string \<Rightarrow> real \<Rightarrow> db \<Rightarrow> artifacts \<Rightarrow> artifacts \<times> (string \<times> artifact_row) response" where
  "download_endpoint i now d st =
     (case artifact_get i now st of
        Inl e \<Rightarrow> (st, error_response e)
      | Inr (st1, found) \<Rightarrow>
          (case (found, get d i) of
             (Some r, Some j) \<Rightarrow>
               if af_repository r \<noteq> job_repository j then (st1, Refused 404 ''job has no artifact'')
               else (case artifact_open i now st1 of
                       Inl e \<Rightarrow> (st1, error_response e)
                     | Inr (st2, None) \<Rightarrow> (st2, Refused 404 ''job has no artifact'')
                     | Inr (st2, Some served) \<Rightarrow> (st2, Sent 200 served))
           | _ \<Rightarrow> (st1, Refused 404 ''job has no artifact'')))"

section \<open>Uploads among everything else\<close>

text \<open>
  An upload in flight: its body is still being read, or it is placed and the lease is still to be
  looked at again. \<open>us_owner\<close> remembers which device placed the archive that stands for a run; no
  operation reads it. A reclaim and the discards that belong to it are one step: the run it releases
  is not claimable before its backoff, which is half a minute at least.
\<close>

datatype upload =
    Reading string string string
  | Placed string string artifact_row bool

record upload_state =
  us_db :: db
  us_store :: artifacts
  us_uploads :: "upload list"
  us_owner :: "string \<rightharpoonup> string"

datatype upload_event =
    Queue queue_event
  | Start string string real
  | Place nat string int real
  | Recheck nat real
  | Read string real

definition discard_released :: "queue_event \<Rightarrow> db \<Rightarrow> artifacts \<Rightarrow> artifacts" where
  "discard_released e d st =
     (case e of
        Reclaim now publish \<Rightarrow> foldl (\<lambda>st j. discard_artifact (job_id j) None None st) st (snd (reclaim_expired now publish d))
      | _ \<Rightarrow> st)"

definition placed :: "(string \<Rightarrow> string) \<Rightarrow> artifact_limits \<Rightarrow> nat \<Rightarrow> string \<Rightarrow> string \<Rightarrow> string \<Rightarrow> string \<Rightarrow> int \<Rightarrow> real \<Rightarrow> upload_state \<Rightarrow> upload_state" where
  "placed sha256 al k i device repository body content_length now s =
     (case artifact_put sha256 al i repository body content_length now (us_store s) of
        Inl _ \<Rightarrow> s\<lparr>us_uploads := remove_nth k (us_uploads s)\<rparr>
      | Inr (st, r, created) \<Rightarrow>
          s\<lparr>us_store := st, us_uploads := (us_uploads s)[k := Placed i device r created],
            us_owner := (if created then (us_owner s)(i \<mapsto> device) else us_owner s)\<rparr>)"

fun upload_step :: "(string \<Rightarrow> string) \<Rightarrow> artifact_limits \<Rightarrow> upload_state \<Rightarrow> upload_event \<Rightarrow> upload_state" where
  "upload_step sha256 al s (Queue e) =
     s\<lparr>us_db := queue_step (us_db s) e, us_store := discard_released e (us_db s) (us_store s)\<rparr>"
| "upload_step sha256 al s (Start i device now) =
     (case get (us_db s) i of
        None \<Rightarrow> s
      | Some j \<Rightarrow> if holds_lease i device now (us_db s)
                  then s\<lparr>us_uploads := us_uploads s @ [Reading i device (job_repository j)]\<rparr> else s)"
| "upload_step sha256 al s (Place k body content_length now) =
     (if k < length (us_uploads s)
      then (case us_uploads s ! k of
              Reading i device repository \<Rightarrow> placed sha256 al k i device repository body content_length now s
            | Placed _ _ _ _ \<Rightarrow> s)
      else s)"
| "upload_step sha256 al s (Recheck k now) =
     (if k < length (us_uploads s)
      then (case us_uploads s ! k of
              Placed i device r created \<Rightarrow>
                s\<lparr>us_store := fst (conclude_upload i device r created now (us_db s) (us_store s)),
                  us_uploads := remove_nth k (us_uploads s)\<rparr>
            | Reading _ _ _ \<Rightarrow> s)
      else s)"
| "upload_step sha256 al s (Read i now) =
     (case artifact_get i now (us_store s) of Inl _ \<Rightarrow> s | Inr (st, _) \<Rightarrow> s\<lparr>us_store := st\<rparr>)"

definition upload_start :: upload_state where
  "upload_start = \<lparr>us_db = schema_db, us_store = \<lparr>at_rows = [], at_files = Map.empty\<rparr>, us_uploads = [], us_owner = Map.empty\<rparr>"

section \<open>What the store's operations keep\<close>

text \<open>An operation that only takes rows and files away.\<close>

definition shrinks :: "artifacts \<Rightarrow> artifacts \<Rightarrow> bool" where
  "shrinks st st' \<longleftrightarrow> (\<exists>P. at_rows st' = filter P (at_rows st)) \<and> at_files st' \<subseteq>\<^sub>m at_files st"

lemma shrinks_refl [simp]: "shrinks st st"
  unfolding shrinks_def by (auto intro: exI [of _ "\<lambda>_. True"])

lemma shrinks_trans: "shrinks st st1 \<Longrightarrow> shrinks st1 st2 \<Longrightarrow> shrinks st st2"
  unfolding shrinks_def by (auto intro: map_le_trans)

lemma unlink_le [simp]: "unlink_all gone files \<subseteq>\<^sub>m files"
  by (auto simp: unlink_all_def map_le_def restrict_map_def split: if_splits)

lemma drops_filter: "foldl (\<lambda>rs i. drop_artifact i None None rs) rows gone = filter (\<lambda>r. af_job r \<notin> set gone) rows"
  by (induction gone arbitrary: rows) (auto simp: drop_artifact_def drop_matches_def intro: filter_cong)

lemma expire_artifacts_eq:
  "expire_artifacts now rows =
     (filter (\<lambda>r. af_job r \<notin> af_job ` set (filter (\<lambda>q. af_expires q \<le> now) rows)) rows, map af_job (filter (\<lambda>q. af_expires q \<le> now) rows))"
  by (simp add: expire_artifacts_def drops_filter)

lemma shrinks_expire: "shrinks st (st\<lparr>at_rows := fst (expire_artifacts now (at_rows st)), at_files := unlink_all gone (at_files st)\<rparr>)"
  unfolding shrinks_def by (auto simp: expire_artifacts_eq)

lemma shrinks_discard: "shrinks st (discard_artifact i digest created st)"
  unfolding shrinks_def discard_artifact_def drop_artifact_def by (auto intro: exI [of _ "\<lambda>_. True"])

lemma shrinks_get:
  assumes "artifact_get i now st = Inr (st', found)"
  shows "shrinks st st'"
proof -
  let ?st1 = "st\<lparr>at_rows := fst (expire_artifacts now (at_rows st)), at_files := unlink_all (snd (expire_artifacts now (at_rows st))) (at_files st)\<rparr>"
  have "st' = ?st1 \<or> (\<exists>g t. st' = discard_artifact i g t ?st1)"
    using assms by (auto simp: artifact_get_def rbind_Inr_conv Let_def case_prod_unfold split: option.splits if_splits)
  then show ?thesis using shrinks_expire shrinks_trans [OF shrinks_expire shrinks_discard] by metis
qed

lemma evict_filters_rows: "\<exists>Q. fst (evict_artifacts P quota rows) = filter Q rows"
proof (induction P quota rows rule: evict_artifacts.induct)
  case (1 P quota rows)
  have keep: "\<exists>Q. rows = filter Q rows" by (rule exI [of _ "\<lambda>_. True"]) simp
  show ?case
  proof (cases "artifact_bytes (filter P rows) \<le> quota")
    case True
    then show ?thesis using keep by (simp add: evict_artifacts.simps)
  next
    case False
    show ?thesis
    proof (cases "min_by (\<lambda>r. (af_created r, af_job r)) (filter P rows)")
      case None
      then have "evict_artifacts P quota rows = (rows, [])" by (subst evict_artifacts.simps) (simp add: min_by_def)
      then show ?thesis using keep by simp
    next
      case (Some r)
      then obtain Q where "fst (evict_artifacts P quota (drop_artifact (af_job r) None None rows)) = filter Q (drop_artifact (af_job r) None None rows)"
        using 1 False by blast
      then show ?thesis using False Some by (auto simp: evict_artifacts.simps [of P quota rows] drop_artifact_def case_prod_unfold)
    qed
  qed
qed

lemma artifact_put_cases:
  assumes "artifact_put sha256 al i repository upload content_length now st = Inr (st', r, created)"
  obtains (standing) "\<not> created" "shrinks st st'" "r \<in> set (at_rows st')"
  | (stored) body Q where "created" "af_job r = i" "af_digest r = sha256 body" "i \<notin> af_job ` set (filter Q (at_rows st))"
      "\<exists>Q'. at_rows st' = filter Q' (filter Q (at_rows st) @ [r])" "at_files st' \<subseteq>\<^sub>m (at_files st)(i \<mapsto> body)"
      "body = take (nat content_length) upload" "af_expires r = now + of_int (al_ttl al)" "af_repository r = repository"
proof -
  let ?rows = "fst (expire_artifacts now (at_rows st))"
  note put = assms [unfolded artifact_put_def stage_upload_eq rbind_Inr_conv Let_def case_prod_unfold]
  obtain Q where Q: "?rows = filter Q (at_rows st)" by (auto simp: expire_artifacts_eq)
  show ?thesis
  proof (cases "lookup_by af_job i ?rows")
    case (Some q)
    then have "\<not> created" "st' = st\<lparr>at_rows := ?rows, at_files := unlink_all (snd (expire_artifacts now (at_rows st))) (at_files st)\<rparr>" "r = q"
      using put by (auto split: if_splits)
    then show ?thesis using standing shrinks_expire lookup_by_Some_in [OF Some] by simp
  next
    case None
    let ?body = "take (nat content_length) upload"
    let ?e1 = "\<lambda>r. evict_artifacts (\<lambda>q. af_repository q = repository) (al_repository_quota al) (?rows @ [r])"
    let ?e2 = "\<lambda>r. evict_artifacts (\<lambda>_. True) (al_storage_quota al) (fst (?e1 r))"
    from put None have r: "created" "af_job r = i" "af_digest r = sha256 ?body"
        "af_expires r = now + of_int (al_ttl al)" "af_repository r = repository"
      and st': "st' = st\<lparr>at_rows := fst (?e2 r), at_files := unlink_all (snd (expire_artifacts now (at_rows st)) @ snd (?e1 r) @ snd (?e2 r)) ((at_files st)(i \<mapsto> ?body))\<rparr>"
      by (auto split: if_splits)
    have "\<exists>Q'. at_rows st' = filter Q' (?rows @ [r])"
      using evict_filters_rows [of "\<lambda>_. True" "al_storage_quota al" "fst (?e1 r)"]
        evict_filters_rows [of "\<lambda>q. af_repository q = repository" "al_repository_quota al" "?rows @ [r]"]
      unfolding st' by (auto simp del: filter_append filter.simps)
    moreover have "i \<notin> af_job ` set ?rows" using None by (simp add: lookup_by_None_iff)
    ultimately show ?thesis using stored [of ?body Q] r st' Q by simp
  qed
qed

section \<open>Holders\<close>

text \<open>The device that is on a run, or whose verdict it carries.\<close>

definition holder :: "string \<Rightarrow> job_row \<Rightarrow> bool" where
  "holder device q \<longleftrightarrow> r_device q = Some device \<and> r_status q \<in> {Running, Success, Failure}"

text \<open>The runs a device gives back itself, by reporting an error in place of an exit code.\<close>

fun gives_back :: "queue_event \<Rightarrow> (string \<times> string) set" where
  "gives_back (Report i device _ _ _ err _) = (if err \<noteq> [] then {(i, device)} else {})"
| "gives_back _ = {}"

lemma holder_update:
  assumes "row_of d i = Some q" and "holder device q" and "\<And>r. r_id (f r) = r_id r" and "P q \<Longrightarrow> holder device (f q)"
  shows "\<exists>q'. row_of (on_jobs (update_where P f) d) i = Some q' \<and> holder device q'"
  using assms by (auto simp: row_of_on_update)

lemma holder_row [simp]:
  "holder device q \<Longrightarrow> holder device (set_lease e q)" "holder device q \<Longrightarrow> holder device (verdict_row c l ss q)"
  "holder device q \<Longrightarrow> holder device (owe_row tx q)" "holder device q \<Longrightarrow> holder device (restore_row tx q)"
  "holder device q \<Longrightarrow> holder device (clear_row q)"
  by (auto simp: holder_def row_defs)

lemma holder_report:
  assumes "db_wf d" and "row_of d i = Some q" and "holder device q" and "report j dev c now l err ss d = Inr (d', x)"
    and "err = [] \<or> (j, dev) \<noteq> (i, device)"
  shows "\<exists>q'. row_of d' i = Some q' \<and> holder device q'"
proof -
  have "settle j dev c now l err ss d = Inr d'" using assms(4) by (auto simp: report_def rbind_Inr_conv)
  then show ?thesis using db_wf_distinct [OF assms(1)]
  proof (cases rule: settle_cases)
    case (error r)
    have "j \<noteq> i" using error(1,3,5) assms(2,3,5) by (auto simp: holder_def)
    then show ?thesis unfolding error(6) using row_of_in [OF assms(2)] by (intro holder_update [OF assms(2,3)]) (auto simp: row_defs)
  next
    case (verdict r c')
    then show ?thesis using holder_update [OF assms(2,3)] assms(3) by simp
  qed
qed

lemma holder_claim:
  assumes "row_of d i = Some q" and "holder device q" and "claim dev labels secs now cap d = Inr (d', x)"
  shows "\<exists>q'. row_of d' i = Some q' \<and> holder device q'"
  using assms(3)
proof (cases rule: claim_cases)
  case none
  then show ?thesis using assms by simp
next
  case (some p)
  show ?thesis unfolding some(5)
    by (rule holder_update [OF assms(1,2)]) (use assms(2) in \<open>auto simp: holder_def\<close>)
qed

lemma holder_step:
  assumes "db_wf d" and "row_of d i = Some q" and "holder device q" and "(i, device) \<notin> gives_back e" and "\<And>now publish. e \<noteq> Reclaim now publish"
  shows "\<exists>q'. row_of (queue_step d e) i = Some q' \<and> holder device q'"
proof -
  have commit: "\<exists>q'. row_of (commit_or d x) i = Some q' \<and> holder device q'"
    if "\<And>d' y. x = Inr (d', y) \<Longrightarrow> \<exists>q'. row_of d' i = Some q' \<and> holder device q'" for x :: "(db \<times> 'a) result"
    by (rule commit_or_induct) (use assms(2,3) that in blast)+
  note upd = holder_update [OF assms(2,3)]
  show ?thesis
  proof (cases e)
    case Enqueue
    then show ?thesis using row_change_enqueue [OF _ assms(2)] assms(3) by (auto intro!: commit)
  next
    case Claim
    then show ?thesis using holder_claim [OF assms(2,3)] by (auto intro!: commit)
  next
    case Renew
    then show ?thesis using assms(3) by (auto intro!: commit upd simp: renew_def split: if_splits)
  next
    case Report
    then show ?thesis using holder_report [OF assms(1-3)] assms(4) by (auto intro!: commit split: if_splits)
  next
    case Claim_Owed
    then show ?thesis using assms(2,3) row_of_on_map [of clear_row d i] by (simp add: claim_owed_eq [OF db_wf_distinct [OF assms(1)]])
  next
    case (Heartbeat dev labels mc now build)
    then have "row_of (queue_step d e) i = row_of d i" by (simp add: row_of_def)
    then show ?thesis using assms(2,3) by simp
  next
    case (Prune now)
    then have "row_of (queue_step d e) i = row_of d i" by (simp add: row_of_def)
    then show ?thesis using assms(2,3) by simp
  qed (use assms(3,5) upd in \<open>auto simp: restore_status_def owe_status_def clear_status_def\<close>)
qed

section \<open>Whose archive stands\<close>

text \<open>\<open>G\<close> collects the runs with the devices that gave them back.\<close>

definition row_owned :: "(string \<times> string) set \<Rightarrow> db \<Rightarrow> upload list \<Rightarrow> (string \<rightharpoonup> string) \<Rightarrow> artifact_row \<Rightarrow> bool" where
  "row_owned G d ups owner r \<longleftrightarrow>
     (\<exists>device. owner (af_job r) = Some device \<and>
        ((af_job r, device) \<in> G \<or> (\<exists>q. row_of d (af_job r) = Some q \<and> holder device q) \<or> Placed (af_job r) device r True \<in> set ups))"

definition uploads_ok :: "(string \<Rightarrow> string) \<Rightarrow> (string \<times> string) set \<Rightarrow> upload_state \<Rightarrow> bool" where
  "uploads_ok sha256 G s \<longleftrightarrow>
     db_wf (us_db s) \<and> distinct (map af_job (at_rows (us_store s))) \<and>
     (\<forall>r \<in> set (at_rows (us_store s)). row_owned G (us_db s) (us_uploads s) (us_owner s) r) \<and>
     (\<forall>r \<in> set (at_rows (us_store s)). \<forall>body. at_files (us_store s) (af_job r) = Some body \<longrightarrow> sha256 body = af_digest r)"

lemma shrinks_rows: "shrinks st st' \<Longrightarrow> set (at_rows st') \<subseteq> set (at_rows st)"
  by (auto simp: shrinks_def)

lemma shrinks_files: "shrinks st st' \<Longrightarrow> at_files st' i = Some body \<Longrightarrow> at_files st i = Some body"
  by (auto simp: shrinks_def map_le_def dom_def)

lemma shrinks_distinct: "shrinks st st' \<Longrightarrow> distinct (map af_job (at_rows st)) \<Longrightarrow> distinct (map af_job (at_rows st'))"
  by (auto simp: shrinks_def distinct_map_filter)

text \<open>A step that only shrinks the store keeps the invariant when every row it leaves is still owned.\<close>

lemma uploads_ok_shrinks:
  assumes "uploads_ok sha256 G s" and "shrinks (us_store s) (us_store s')" and "db_wf (us_db s')"
    and "\<And>r. r \<in> set (at_rows (us_store s')) \<Longrightarrow> row_owned G (us_db s) (us_uploads s) (us_owner s) r \<Longrightarrow>
           row_owned G (us_db s') (us_uploads s') (us_owner s') r"
  shows "uploads_ok sha256 G s'"
  using assms shrinks_rows [OF assms(2)] shrinks_distinct [OF assms(2)] shrinks_files [OF assms(2)]
  unfolding uploads_ok_def by blast

lemma shrinks_released: "shrinks st (foldl (\<lambda>st j. discard_artifact (job_id j) None None st) st js)"
  by (induction js arbitrary: st) (auto intro: shrinks_trans shrinks_discard)

lemma released_gone:
  "set (at_rows (foldl (\<lambda>st j. discard_artifact (job_id j) None None st) st js)) = {r \<in> set (at_rows st). af_job r \<notin> job_id ` set js}"
proof (induction js arbitrary: st)
  case (Cons j js)
  have "set (at_rows (discard_artifact (job_id j) None None st)) = {r \<in> set (at_rows st). af_job r \<noteq> job_id j}"
    by (auto simp: discard_artifact_def drop_artifact_def drop_matches_def list_ex_iff)
  then show ?case using Cons by auto
qed simp

lemma row_owned_queue:
  assumes "db_wf d" and "row_owned G d ups owner r" and "gives_back e \<subseteq> G" and "r \<in> set (at_rows (discard_released e d st))"
  shows "row_owned G (queue_step d e) ups owner r"
proof -
  obtain device where dev: "owner (af_job r) = Some device"
      "(af_job r, device) \<in> G \<or> (\<exists>q. row_of d (af_job r) = Some q \<and> holder device q) \<or> Placed (af_job r) device r True \<in> set ups"
    using assms(2) by (auto simp: row_owned_def)
  have "\<exists>q'. row_of (queue_step d e) (af_job r) = Some q' \<and> holder device q'"
    if q: "row_of d (af_job r) = Some q" "holder device q" and kept: "(af_job r, device) \<notin> G" for q
  proof (cases "\<exists>now publish. e = Reclaim now publish")
    case True
    then obtain now publish where Reclaim: "e = Reclaim now publish" by blast
    have "af_job r \<notin> job_id ` set (snd (reclaim_expired now publish d))"
      using assms(4) Reclaim by (simp add: discard_released_def released_gone)
    then have "q \<notin> set (lapsed_rows now d)"
      using row_of_in [OF q(1)] by (auto simp: reclaim_expired_def expire_jobs [OF db_wf_distinct [OF assms(1)]] image_iff)
    then have "release_lapsed d now publish q = q"
      using row_of_in [OF q(1)] by (auto simp: release_lapsed_def lapsed_rows_def)
    then show ?thesis using q Reclaim by (simp add: reclaim_expired_def row_of_expire [OF assms(1)])
  next
    case False
    have "(af_job r, device) \<notin> gives_back e" using assms(3) kept by blast
    then show ?thesis using holder_step [OF assms(1) q] False by blast
  qed
  then show ?thesis using dev by (auto simp: row_owned_def)
qed

lemma placed_ok:
  assumes "uploads_ok sha256 G s" and "k < length (us_uploads s)" and "us_uploads s ! k = Reading i device repository"
  shows "uploads_ok sha256 G (placed sha256 al k i device repository body content_length now s)"
proof (cases "artifact_put sha256 al i repository body content_length now (us_store s)")
  case (Inl e)
  have other: "p \<in> set (remove_nth k (us_uploads s))" if "p \<in> set (us_uploads s)" "p \<noteq> Reading i device repository" for p
    using that set_nth_remove_nth [OF assms(2)] assms(3) by auto
  show ?thesis
    using Inl other by (intro uploads_ok_shrinks [OF assms(1)]) (use assms(1) in \<open>auto simp: placed_def uploads_ok_def row_owned_def\<close>)
next
  case (Inr x)
  obtain st r created where x: "x = (st, r, created)" by (rule prod_cases3)
  let ?ups = "(us_uploads s)[k := Placed i device r created]"
  have other: "p \<in> set ?ups" if "p \<in> set (us_uploads s)" "p \<noteq> Reading i device repository" for p
    using that assms(2,3) by (metis in_set_conv_nth length_list_update nth_list_update_neq)
  have new: "Placed i device r created \<in> set ?ups" using assms(2) by (rule set_update_memI)
  have s': "placed sha256 al k i device repository body content_length now s =
      s\<lparr>us_store := st, us_uploads := ?ups, us_owner := (if created then (us_owner s)(i \<mapsto> device) else us_owner s)\<rparr>"
    using Inr x by (simp add: placed_def)
  from Inr [unfolded x] show ?thesis
  proof (cases rule: artifact_put_cases)
    case standing
    show ?thesis
      unfolding s' using standing other
      by (intro uploads_ok_shrinks [OF assms(1)]) (use assms(1) in \<open>auto simp: uploads_ok_def row_owned_def\<close>)
  next
    case (stored content Q)
    obtain Q' where rows: "at_rows st = filter Q' (filter Q (at_rows (us_store s)) @ [r])" using stored(5) by blast
    have old: "af_job p \<noteq> i \<and> p \<in> set (at_rows (us_store s))" if "p \<in> set (at_rows st)" "p \<noteq> r" for p
      using that stored(4) rows by (auto split: if_splits)
    have files: "at_files st j = Some b \<Longrightarrow> ((at_files (us_store s))(i \<mapsto> content)) j = Some b" for j b
      using stored(6) by (auto simp: map_le_def dom_def)
    have "distinct (map af_job (filter Q (at_rows (us_store s)) @ [r]))"
      using assms(1) stored(2,4) by (auto simp: uploads_ok_def distinct_map_filter)
    then have "distinct (map af_job (at_rows st))" unfolding rows by (rule distinct_map_filter)
    moreover have "row_owned G (us_db s) ?ups ((us_owner s)(i \<mapsto> device)) p" if "p \<in> set (at_rows st)" for p
    proof (cases "p = r")
      case True
      then show ?thesis using new stored(1,2) by (auto simp: row_owned_def)
    next
      case False
      then show ?thesis using old [OF that False] assms(1) other by (fastforce simp: uploads_ok_def row_owned_def)
    qed
    moreover have "sha256 b = af_digest p" if "p \<in> set (at_rows st)" "at_files st (af_job p) = Some b" for p b
      using that old [OF that(1)] files [OF that(2)] stored(2,3) assms(1) by (cases "p = r") (auto simp: uploads_ok_def)
    ultimately show ?thesis unfolding s' using assms(1) stored(1) by (simp add: uploads_ok_def)
  qed
qed

lemma shrinks_conclude: "shrinks st (fst (conclude_upload i device r created now d st))"
  unfolding conclude_upload_def using shrinks_discard shrinks_get by (auto split: sum.split option.split)

lemma recheck_ok:
  assumes "uploads_ok sha256 G s" and "k < length (us_uploads s)" and "us_uploads s ! k = Placed i device r created"
  shows "uploads_ok sha256 G (upload_step sha256 al s (Recheck k now))"
proof -
  let ?s' = "upload_step sha256 al s (Recheck k now)"
  have s': "?s' = s\<lparr>us_store := fst (conclude_upload i device r created now (us_db s) (us_store s)), us_uploads := remove_nth k (us_uploads s)\<rparr>"
    using assms(2,3) by simp
  have "row_owned G (us_db s) (remove_nth k (us_uploads s)) (us_owner s) p"
    if p: "p \<in> set (at_rows (us_store ?s'))" and own: "row_owned G (us_db s) (us_uploads s) (us_owner s) p" for p
  proof -
    obtain dev where dev: "us_owner s (af_job p) = Some dev"
        "(af_job p, dev) \<in> G \<or> (\<exists>q. row_of (us_db s) (af_job p) = Some q \<and> holder dev q) \<or> Placed (af_job p) dev p True \<in> set (us_uploads s)"
      using own by (auto simp: row_owned_def)
    show ?thesis
    proof (cases "Placed (af_job p) dev p True = us_uploads s ! k")
      case True
      then have eq: "i = af_job p" "device = dev" "r = p" "created" using assms(3) by auto
      have "holds_lease i device now (us_db s)"
      proof (rule ccontr)
        assume "\<not> holds_lease i device now (us_db s)"
        then have "p \<in> set (at_rows (discard_artifact (af_job p) (Some (af_digest p)) (Some (af_created p)) (us_store s)))"
          using p eq s' by (simp add: conclude_upload_def)
        then show False by (auto simp: discard_artifact_def drop_artifact_def drop_matches_def list_ex_iff split: if_splits)
      qed
      then have "\<exists>q. row_of (us_db s) (af_job p) = Some q \<and> holder dev q"
        using assms(1) eq by (auto simp: uploads_ok_def holder_def holds_lease_iff [OF db_wf_distinct])
      then show ?thesis using dev(1) by (auto simp: row_owned_def)
    next
      case False
      then show ?thesis using dev set_nth_remove_nth [OF assms(2)] by (auto simp: row_owned_def)
    qed
  qed
  then show ?thesis
    using assms(1) shrinks_conclude unfolding s' by (intro uploads_ok_shrinks [OF assms(1)]) (auto simp: uploads_ok_def)
qed

fun returns_run :: "upload_event \<Rightarrow> (string \<times> string) set" where
  "returns_run (Queue e) = gives_back e"
| "returns_run _ = {}"

lemma upload_step_ok:
  assumes "uploads_ok sha256 G s" and "returns_run e \<subseteq> G"
  shows "uploads_ok sha256 G (upload_step sha256 al s e)"
proof (cases e)
  case (Queue q)
  have "shrinks (us_store s) (discard_released q (us_db s) (us_store s))"
    using shrinks_released by (auto simp: discard_released_def split: queue_event.split)
  moreover have "db_wf (queue_step (us_db s) q)" using assms(1) db_wf_step by (auto simp: uploads_ok_def)
  ultimately show ?thesis
    using assms Queue row_owned_queue by (intro uploads_ok_shrinks [OF assms(1)]) (auto simp: uploads_ok_def)
next
  case (Start i device now)
  then show ?thesis
    using assms(1) by (intro uploads_ok_shrinks [OF assms(1)]) (auto simp: uploads_ok_def row_owned_def split: option.split)
next
  case (Place k body content_length now)
  then show ?thesis using assms(1) placed_ok by (auto split: upload.split)
next
  case (Recheck k now)
  then show ?thesis
    using assms(1) recheck_ok [OF assms(1)] by (cases "k < length (us_uploads s)"; cases "us_uploads s ! k") simp_all
next
  case (Read i now)
  show ?thesis
  proof (cases "artifact_get i now (us_store s)")
    case (Inr x)
    then have "shrinks (us_store s) (fst x)" using shrinks_get [of i now "us_store s" "fst x" "snd x"] by simp
    then show ?thesis
      using Read Inr assms(1) by (intro uploads_ok_shrinks [OF assms(1)]) (auto simp: uploads_ok_def case_prod_unfold)
  qed (use Read assms(1) in simp)
qed

text \<open>The system in which no run is given back but those of \<open>G\<close>.\<close>

definition attempt_step :: "(string \<times> string) set \<Rightarrow> (string \<Rightarrow> string) \<Rightarrow> artifact_limits \<Rightarrow> upload_state \<Rightarrow> upload_event \<Rightarrow> upload_state" where
  "attempt_step G sha256 al s e = (if returns_run e \<subseteq> G then upload_step sha256 al s e else s)"

lemma uploads_ok_start: "uploads_ok sha256 G upload_start"
  by (simp add: uploads_ok_def upload_start_def db_wf_schema)

interpretation attempts: invariant_system upload_start "attempt_step G sha256 al" "uploads_ok sha256 G" for G sha256 al
  by unfold_locales (auto simp: attempt_step_def intro: uploads_ok_start upload_step_ok)

lemma run_attempt_steps:
  "\<Union>(returns_run ` set es) \<subseteq> G \<Longrightarrow> run_steps (upload_step sha256 al) s es = run_steps (attempt_step G sha256 al) s es"
  by (induction es arbitrary: s) (auto simp: attempt_step_def)

section \<open>Reading back\<close>

lemma get_found:
  assumes "artifact_get i now st = Inr (st', Some r)"
  obtains body where "r \<in> set (at_rows st')" "af_job r = i" "at_files st' i = Some body" "shrinks st st'" "archive_path i \<noteq> Inl e"
proof -
  let ?st1 = "st\<lparr>at_rows := fst (expire_artifacts now (at_rows st)), at_files := unlink_all (snd (expire_artifacts now (at_rows st))) (at_files st)\<rparr>"
  have "st' = ?st1" "lookup_by af_job i (at_rows ?st1) = Some r" "at_files ?st1 i \<noteq> None" "archive_path i \<noteq> Inl e"
    using assms by (auto simp: artifact_get_def rbind_Inr_conv Let_def case_prod_unfold split: option.splits if_splits)
  then show ?thesis using that lookup_by_Some_in shrinks_get [OF assms] by fastforce
qed

lemma get_finds:
  assumes "distinct (map af_job (at_rows st))" and "r \<in> set (at_rows st)" and "now < af_expires r"
    and "at_files st (af_job r) = Some body" and "\<forall>e. archive_path (af_job r) \<noteq> Inl e"
  obtains st' where "artifact_get (af_job r) now st = Inr (st', Some r)"
    "distinct (map af_job (at_rows st'))" "r \<in> set (at_rows st')" "at_files st' (af_job r) = Some body"
proof -
  let ?gone = "map af_job (filter (\<lambda>q. af_expires q \<le> now) (at_rows st))"
  let ?st' = "st\<lparr>at_rows := filter (\<lambda>r. af_job r \<notin> set ?gone) (at_rows st), at_files := unlink_all ?gone (at_files st)\<rparr>"
  have keep: "af_job r \<notin> set ?gone" using assms(3) distinct_key_eq [OF assms(1,2)] by force
  have dist: "distinct (map af_job (at_rows ?st'))" using assms(1) by (simp add: distinct_map_filter)
  have r: "r \<in> set (at_rows ?st')" using assms(2) keep by simp
  have f: "at_files ?st' (af_job r) = Some body" using assms(4) keep by (simp add: unlink_all_def restrict_map_def)
  obtain p where "archive_path (af_job r) = Inr p" using assms(5) by (cases "archive_path (af_job r)") auto
  then have "artifact_get (af_job r) now st = Inr (?st', Some r)"
    using lookup_by_unique [OF dist r] f by (simp add: artifact_get_def expire_artifacts_eq Let_def)
  then show ?thesis using that dist r f by blast
qed


lemma upload_stored_cases:
  assumes "upload_endpoint sha256 speaks al i device sent content_length now d st = (st', Sent 201 r)"
  obtains j st1 where "get d i = Some j" "holds_lease i device now d" "speaks device"
    "artifact_put sha256 al i (job_repository j) sent content_length now st = Inr (st1, r, True)"
    "\<exists>q. artifact_get i now st1 = Inr (st', Some q)"
  using assms
  by (auto simp: upload_endpoint_def upload_refusal_def conclude_upload_def lease_refusal_def token_refusal_def
      split: option.splits sum.splits if_splits)

section \<open>What stands, stays readable\<close>

text \<open>A row that an operation leaves in the table has its file left alone.\<close>

lemma discard_keeps:
  assumes "distinct (map af_job (at_rows st))" and "r \<in> set (at_rows (discard_artifact i g c st))"
  shows "at_files (discard_artifact i g c st) (af_job r) = at_files st (af_job r)"
proof (cases "list_ex (drop_matches i g c) (at_rows st)")
  case True
  then obtain q where q: "q \<in> set (at_rows st)" "drop_matches i g c q" by (auto simp: list_ex_iff)
  have r: "r \<in> set (at_rows st)" "\<not> drop_matches i g c r" using assms(2) True by (auto simp: discard_artifact_def drop_artifact_def)
  then have "af_job r \<noteq> af_job q" using q distinct_key_eq [OF assms(1)] by metis
  then show ?thesis using q(2) True by (simp add: discard_artifact_def unlink_all_def restrict_map_def drop_matches_def)
qed (simp add: discard_artifact_def)

lemma released_keeps:
  assumes "distinct (map af_job (at_rows st))" and "r \<in> set (at_rows (foldl (\<lambda>st j. discard_artifact (job_id j) None None st) st js))"
  shows "at_files (foldl (\<lambda>st j. discard_artifact (job_id j) None None st) st js) (af_job r) = at_files st (af_job r)"
  using assms
proof (induction js arbitrary: st)
  case (Cons j js)
  let ?st = "discard_artifact (job_id j) None None st"
  have r: "r \<in> set (at_rows (foldl (\<lambda>st j. discard_artifact (job_id j) None None st) ?st js))" using Cons.prems(2) by simp
  have d: "distinct (map af_job (at_rows ?st))" by (rule shrinks_distinct [OF shrinks_discard Cons.prems(1)])
  have "r \<in> set (at_rows ?st)" using r shrinks_rows [OF shrinks_released] by blast
  then show ?case using Cons.IH [OF d r] discard_keeps [OF Cons.prems(1)] by simp
qed simp

lemma expire_keeps:
  "r \<in> set (fst (expire_artifacts now rows)) \<Longrightarrow> unlink_all (snd (expire_artifacts now rows)) files (af_job r) = files (af_job r)"
  by (simp add: expire_artifacts_eq unlink_all_def restrict_map_def)

lemma get_keeps:
  assumes "artifact_get i now st = Inr (st', found)" and "distinct (map af_job (at_rows st))" and "r \<in> set (at_rows st')"
  shows "at_files st' (af_job r) = at_files st (af_job r)"
proof -
  let ?st1 = "st\<lparr>at_rows := fst (expire_artifacts now (at_rows st)), at_files := unlink_all (snd (expire_artifacts now (at_rows st))) (at_files st)\<rparr>"
  have st': "st' = ?st1 \<or> (\<exists>g t. st' = discard_artifact i g t ?st1)"
    using assms(1) by (auto simp: artifact_get_def rbind_Inr_conv Let_def case_prod_unfold split: option.splits if_splits)
  have d: "distinct (map af_job (at_rows ?st1))" by (rule shrinks_distinct [OF shrinks_expire assms(2)])
  have "r \<in> set (at_rows ?st1)" using st' assms(3) shrinks_rows [OF shrinks_discard] by blast
  then have "at_files ?st1 (af_job r) = at_files st (af_job r)" using expire_keeps by simp
  then show ?thesis using st' discard_keeps [OF d] assms(3) by metis
qed

lemma evict_gone: "fst (evict_artifacts P quota rows) = filter (\<lambda>r. af_job r \<notin> set (snd (evict_artifacts P quota rows))) rows"
proof (induction P quota rows rule: evict_artifacts.induct)
  case (1 P quota rows)
  show ?case
  proof (cases "artifact_bytes (filter P rows) \<le> quota \<or> min_by (\<lambda>r. (af_created r, af_job r)) (filter P rows) = None")
    case True
    then have "evict_artifacts P quota rows = (rows, [])" by (subst evict_artifacts.simps) (auto simp: min_by_def)
    then show ?thesis by simp
  next
    case False
    then obtain r where r: "min_by (\<lambda>r. (af_created r, af_job r)) (filter P rows) = Some r" by blast
    from False have "fst (evict_artifacts P quota (drop_artifact (af_job r) None None rows)) =
        filter (\<lambda>q. af_job q \<notin> set (snd (evict_artifacts P quota (drop_artifact (af_job r) None None rows)))) (drop_artifact (af_job r) None None rows)"
      using 1 r by blast
    then show ?thesis using False r
      by (auto simp: evict_artifacts.simps [of P quota rows] case_prod_unfold Let_def drop_artifact_def drop_matches_def intro: filter_cong)
  qed
qed

lemma evict_keeps: "r \<in> set (fst (evict_artifacts P quota rows)) \<Longrightarrow> r \<in> set rows \<and> af_job r \<notin> set (snd (evict_artifacts P quota rows))"
  by (subst (asm) evict_gone) simp

lemma put_keeps:
  assumes "artifact_put sha256 al i repository upload n now st = Inr (st', q, created)" and "distinct (map af_job (at_rows st))"
    and "r \<in> set (at_rows st)" and "r \<in> set (at_rows st')" and "0 < al_ttl al"
  shows "at_files st' (af_job r) = at_files st (af_job r)"
proof -
  let ?e0 = "expire_artifacts now (at_rows st)"
  note put = assms(1) [unfolded artifact_put_def stage_upload_eq rbind_Inr_conv Let_def case_prod_unfold]
  show ?thesis
  proof (cases "lookup_by af_job i (fst ?e0)")
    case (Some p)
    then have "st' = st\<lparr>at_rows := fst ?e0, at_files := unlink_all (snd ?e0) (at_files st)\<rparr>" using put by (auto split: if_splits)
    then show ?thesis using assms(4) expire_keeps by simp
  next
    case None
    define e1 where "e1 = evict_artifacts (\<lambda>p. af_repository p = repository) (al_repository_quota al) (fst ?e0 @ [q])"
    define e2 where "e2 = evict_artifacts (\<lambda>_. True) (al_storage_quota al) (fst e1)"
    obtain body where st': "st' = st\<lparr>at_rows := fst e2, at_files := unlink_all (snd ?e0 @ snd e1 @ snd e2) ((at_files st)(i \<mapsto> body))\<rparr>"
        and q: "af_expires q = now + of_int (al_ttl al)"
      using put None by (auto simp: e1_def e2_def split: if_splits)
    have "r \<in> set (fst e2)" using assms(4) st' by simp
    from evict_keeps [OF this [unfolded e2_def]] have e2: "r \<in> set (fst e1)" "af_job r \<notin> set (snd e2)" by (simp_all add: e2_def)
    from evict_keeps [OF e2(1) [unfolded e1_def]] have e1: "r \<in> set (fst ?e0 @ [q])" "af_job r \<notin> set (snd e1)" by (simp_all add: e1_def)
    have in0: "r \<in> set (fst ?e0)"
    proof (rule ccontr)
      assume out: "\<not> ?thesis"
      then have "r = q" using e1(1) by simp
      obtain p where "p \<in> set (at_rows st)" "af_expires p \<le> now" "af_job p = af_job r"
        using out assms(3) by (auto simp: expire_artifacts_eq)
      then have "af_expires r \<le> now" using distinct_key_eq [OF assms(2)] assms(3) by metis
      then show False using q assms(5) \<open>r = q\<close> by simp
    qed
    then have "af_job r \<noteq> i" using None by (auto simp: lookup_by_None_iff)
    moreover have "af_job r \<notin> set (snd ?e0)" using in0 by (simp add: expire_artifacts_eq)
    ultimately show ?thesis using e1(2) e2(2) by (simp add: st' unlink_all_def restrict_map_def)
  qed
qed

lemma placed_distinct:
  assumes "artifact_put sha256 al i repository upload n now st = Inr (st', q, created)" and "distinct (map af_job (at_rows st))"
  shows "distinct (map af_job (at_rows st'))"
  using assms(1)
proof (cases rule: artifact_put_cases)
  case standing
  then show ?thesis using shrinks_distinct assms(2) by blast
next
  case (stored body Q)
  obtain Q' where rows: "at_rows st' = filter Q' (filter Q (at_rows st) @ [q])" using stored(5) by blast
  have "distinct (map af_job (filter Q (at_rows st) @ [q]))" using assms(2) stored(2,4) by (auto simp: distinct_map_filter)
  then show ?thesis unfolding rows by (rule distinct_map_filter)
qed

lemma conclude_keeps:
  assumes "r \<in> set (at_rows (fst (conclude_upload i device q created now d st)))" and "distinct (map af_job (at_rows st))"
  shows "at_files (fst (conclude_upload i device q created now d st)) (af_job r) = at_files st (af_job r)"
  using assms discard_keeps [OF assms(2)] get_keeps [OF _ assms(2)]
  by (auto simp: conclude_upload_def split: sum.splits option.splits if_splits)

text \<open>What a store must hold for a row to be read: its file, and no second row of the run.\<close>

definition readable :: "artifact_row \<Rightarrow> string \<Rightarrow> artifacts \<Rightarrow> bool" where
  "readable r body st \<longleftrightarrow> distinct (map af_job (at_rows st)) \<and> r \<in> set (at_rows st) \<and> at_files st (af_job r) = Some body"

lemma readable_shrinks:
  assumes "readable r body st" and "shrinks st st'" and "r \<in> set (at_rows st')" and "at_files st' (af_job r) = at_files st (af_job r)"
  shows "readable r body st'"
  using assms shrinks_distinct [OF assms(2)] by (simp add: readable_def)

lemma readable_step:
  assumes "readable r body (us_store s)" and "r \<in> set (at_rows (us_store (upload_step sha256 al s e)))" and "0 < al_ttl al"
  shows "readable r body (us_store (upload_step sha256 al s e))"
proof (cases e)
  case (Queue qe)
  have "readable r body (discard_released qe (us_db s) (us_store s))"
  proof (rule readable_shrinks [OF assms(1)])
    show "shrinks (us_store s) (discard_released qe (us_db s) (us_store s))"
      using shrinks_released by (auto simp: discard_released_def split: queue_event.split)
    show "r \<in> set (at_rows (discard_released qe (us_db s) (us_store s)))" using assms(2) Queue by simp
    then show "at_files (discard_released qe (us_db s) (us_store s)) (af_job r) = at_files (us_store s) (af_job r)"
      using assms(1) by (simp add: discard_released_def readable_def released_keeps split: queue_event.splits)
  qed
  then show ?thesis using Queue by simp
next
  case (Start i device now)
  then show ?thesis using assms(1) by (auto split: option.split)
next
  case (Place k sent n now)
  show ?thesis
  proof (cases "upload_step sha256 al s e = s")
    case False
    then obtain i device repository st q created where
        step: "upload_step sha256 al s e = placed sha256 al k i device repository sent n now s"
      using Place by (auto split: if_splits upload.splits)
    show ?thesis
    proof (cases "artifact_put sha256 al i repository sent n now (us_store s)")
      case (Inl x)
      then show ?thesis using assms(1) step by (simp add: placed_def)
    next
      case (Inr x)
      obtain st q created where x: "x = (st, q, created)" by (rule prod_cases3)
      have "us_store (upload_step sha256 al s e) = st" using step Inr x by (simp add: placed_def)
      then show ?thesis
        using assms placed_distinct [OF Inr [unfolded x]] put_keeps [OF Inr [unfolded x]] by (simp add: readable_def)
    qed
  qed (use assms(1) in simp)
next
  case (Recheck k now)
  show ?thesis
  proof (cases "upload_step sha256 al s e = s")
    case False
    then obtain i device q created where
        step: "us_store (upload_step sha256 al s e) = fst (conclude_upload i device q created now (us_db s) (us_store s))"
      using Recheck by (auto split: if_splits upload.splits)
    show ?thesis
      using assms(1,2) unfolding step
      by (intro readable_shrinks [OF assms(1) shrinks_conclude] conclude_keeps) (simp_all add: readable_def)
  qed (use assms(1) in simp)
next
  case (Read i now)
  show ?thesis
  proof (cases "artifact_get i now (us_store s)")
    case (Inl x)
    then show ?thesis using assms(1) Read by simp
  next
    case (Inr x)
    obtain st found where x: "x = (st, found)" by (cases x)
    have step: "us_store (upload_step sha256 al s e) = st" using Read Inr x by simp
    have "r \<in> set (at_rows st)" using assms(2) step by simp
    then show ?thesis
      using assms(1) readable_shrinks [OF assms(1) shrinks_get [OF Inr [unfolded x]]] get_keeps [OF Inr [unfolded x]]
      by (simp add: step readable_def)
  qed
qed

text \<open>The row stands in the table now and after each of the steps.\<close>

fun stands_through :: "(string \<Rightarrow> string) \<Rightarrow> artifact_limits \<Rightarrow> artifact_row \<Rightarrow> upload_state \<Rightarrow> upload_event list \<Rightarrow> bool" where
  "stands_through sha256 al r s [] \<longleftrightarrow> r \<in> set (at_rows (us_store s))"
| "stands_through sha256 al r s (e # es) \<longleftrightarrow> r \<in> set (at_rows (us_store s)) \<and> stands_through sha256 al r (upload_step sha256 al s e) es"

lemma stands_now: "stands_through sha256 al r s es \<Longrightarrow> r \<in> set (at_rows (us_store s))"
  by (cases es) auto

lemma readable_run:
  assumes "readable r body (us_store s)" and "stands_through sha256 al r s es" and "0 < al_ttl al"
  shows "readable r body (us_store (run_steps (upload_step sha256 al) s es))"
  using assms(1,2)
proof (induction es arbitrary: s)
  case (Cons e es)
  have "readable r body (us_store (upload_step sha256 al s e))"
    using Cons.prems stands_now [of sha256 al r "upload_step sha256 al s e" es] by (intro readable_step assms(3)) auto
  then show ?case using Cons by simp
qed simp

text \<open>A run stays the run of its repository.\<close>

definition run_of :: "string \<Rightarrow> string \<Rightarrow> db \<Rightarrow> bool" where
  "run_of i repository d \<longleftrightarrow> db_wf d \<and> (\<exists>q. row_of d i = Some q \<and> r_repository q = repository)"

lemma run_of_step: "run_of i repository d \<Longrightarrow> run_of i repository (queue_step d e)"
proof -
  assume a: "run_of i repository d"
  obtain q where q: "row_of d i = Some q" "r_repository q = repository" "db_wf d" using a by (auto simp: run_of_def)
  obtain q' where "row_of (queue_step d e) i = Some q'" "row_step q q'" using row_step_step [OF q(3,1)] by blast
  moreover have "r_repository q' = r_repository q" using calculation(2) by (auto simp: row_step_iff row_defs elim!: row_change.cases)
  ultimately show ?thesis using q db_wf_step by (simp add: run_of_def)
qed

lemma run_of_run: "run_of i repository (us_db s) \<Longrightarrow> run_of i repository (us_db (run_steps (upload_step sha256 al) s es))"
proof (induction es arbitrary: s)
  case (Cons e es)
  have "run_of i repository (us_db (upload_step sha256 al s e))"
    using Cons.prems run_of_step
    by (cases e) (auto simp: placed_def split: option.split upload.split sum.split prod.split)
  then show ?case using Cons.IH by simp
qed simp

lemma readable_download:
  assumes "readable r body st" and "now < af_expires r" and "\<forall>e. archive_path (af_job r) \<noteq> Inl e" and "run_of (af_job r) (af_repository r) d"
  shows "\<exists>st'. download_endpoint (af_job r) now d st = (st', Sent 200 (body, r))"
proof -
  note rd = assms(1) [unfolded readable_def]
  obtain st2 where g2: "artifact_get (af_job r) now st = Inr (st2, Some r)" and d2: "distinct (map af_job (at_rows st2))"
      and r2: "r \<in> set (at_rows st2)" and f2: "at_files st2 (af_job r) = Some body"
    using get_finds [of st r now body] rd assms(2,3) by metis
  obtain st3 where g3: "artifact_get (af_job r) now st2 = Inr (st3, Some r)" and f3: "at_files st3 (af_job r) = Some body"
    using get_finds [OF d2 r2 assms(2) f2 assms(3)] by metis
  obtain q where "row_of d (af_job r) = Some q" "r_repository q = af_repository r" using assms(4) by (auto simp: run_of_def)
  then have "get d (af_job r) = Some (row_job q)" "job_repository (row_job q) = af_repository r" by (simp_all add: get_def row_job_def)
  then show ?thesis using g2 g3 f3 by (simp add: download_endpoint_def artifact_open_def)
qed

text \<open>
  C23: an upload answered 201 can be downloaded. Whatever uploads, reads and queue operations follow, while the
  row the answer carried stands in the store and its time to live has not passed, a download of the run serves the
  very bytes that were sent and that row. (The store drops a row for its quotas or its age, and a reclaim of the run
  or a lost lease discards it.)
\<close>

theorem stored_upload_is_served:
  assumes "upload_endpoint sha256 speaks al i device sent content_length now (us_db s) (us_store s) = (st, Sent 201 r)"
    and "stands_through sha256 al r (s\<lparr>us_store := st\<rparr>) es" and "now' < af_expires r"
    and "distinct (map af_job (at_rows (us_store s)))" and "db_wf (us_db s)" and "0 < al_ttl al"
  shows "af_expires r = now + of_int (al_ttl al) \<and>
    (let s' = run_steps (upload_step sha256 al) (s\<lparr>us_store := st\<rparr>) es
     in \<exists>st'. download_endpoint i now' (us_db s') (us_store s') = (st', Sent 200 (take (nat content_length) sent, r)))"
proof -
  obtain j st1 q where j: "get (us_db s) i = Some j"
      and put: "artifact_put sha256 al i (job_repository j) sent content_length now (us_store s) = Inr (st1, r, True)"
      and got: "artifact_get i now st1 = Inr (st, Some q)"
    by (rule upload_stored_cases [OF assms(1)]) blast
  from put show ?thesis
  proof (cases rule: artifact_put_cases)
    case (stored body Q)
    obtain b where q: "q \<in> set (at_rows st)" "af_job q = i" "at_files st i = Some b" "shrinks st1 st" "\<forall>e. archive_path i \<noteq> Inl e"
      using get_found [OF got] by metis
    have dist: "distinct (map af_job (at_rows st))" by (rule shrinks_distinct [OF q(4) placed_distinct [OF put assms(4)]])
    have "r \<in> set (at_rows st)" using stands_now [OF assms(2)] by simp
    moreover have "at_files st1 i = Some b" by (rule shrinks_files [OF q(4,3)])
    then have "b = body" using stored(6) by (force simp: map_le_def dom_def)
    ultimately have "readable r body st" using q(3) dist stored(2) by (simp add: readable_def)
    then have rd: "readable r body (us_store (run_steps (upload_step sha256 al) (s\<lparr>us_store := st\<rparr>) es))"
      by (intro readable_run [OF _ assms(2,6)]) simp
    have "run_of i (af_repository r) (us_db (s\<lparr>us_store := st\<rparr>))"
      using j stored(9) assms(5) by (auto simp: run_of_def get_def row_job_def)
    then have run: "run_of i (af_repository r) (us_db (run_steps (upload_step sha256 al) (s\<lparr>us_store := st\<rparr>) es))" by (rule run_of_run)
    show ?thesis
      using readable_download [OF rd assms(3)] run q(5) stored(2,7,8) by (simp add: Let_def)
  qed simp
qed

text \<open>
  An upload for a run whose earlier archive has just expired: the expiry notes the old file for removal,
  the new archive is renamed to the same path, and the removal after the commit takes the new file. The
  row stands without its file, and the next look at it drops it.
\<close>

lemma upload_over_expired_archive_is_lost:
  assumes "q \<in> set (at_rows st)" and "af_expires q \<le> now" and "af_job q = i"
    and "artifact_put sha256 al i repository sent content_length now st = Inr (st', r, created)"
  shows "created \<and> at_files st' i = None"
proof -
  let ?gone = "snd (expire_artifacts now (at_rows st))"
  have gone: "i \<in> set ?gone" using assms(1-3) by (auto simp: expire_artifacts_eq)
  then have "lookup_by af_job i (fst (expire_artifacts now (at_rows st))) = None"
    by (auto simp: expire_artifacts_eq lookup_by_None_iff image_iff)
  then show ?thesis
    using assms(4) gone by (auto simp: artifact_put_def stage_upload_eq rbind_Inr_conv Let_def case_prod_unfold unlink_all_def split: if_splits)
qed


lemma evict_within: "artifact_bytes (filter P (fst (evict_artifacts P quota rows))) \<le> max quota 0"
proof (induction P quota rows rule: evict_artifacts.induct)
  case (1 P quota rows)
  show ?case
  proof (cases "artifact_bytes (filter P rows) \<le> quota")
    case True
    then show ?thesis by (simp add: evict_artifacts.simps)
  next
    case False
    show ?thesis
    proof (cases "min_by (\<lambda>r. (af_created r, af_job r)) (filter P rows)")
      case None
      then have "filter P rows = []" by (simp add: min_by_def split: list.splits if_splits)
      then show ?thesis using False by (simp add: evict_artifacts.simps [of P quota rows] artifact_bytes_def min_by_def)
    next
      case (Some r)
      then show ?thesis using 1 False by (simp add: evict_artifacts.simps [of P quota rows] case_prod_unfold Let_def)
    qed
  qed
qed

lemma artifact_bytes_filter: "artifact_bytes (filter P (filter Q rows)) \<le> artifact_bytes (filter P rows)"
  by (induction rows) (auto simp: artifact_bytes_def)

text \<open>After an upload that published, its repository and the whole store are within their quotas.\<close>

lemma upload_keeps_quotas:
  assumes "artifact_put sha256 al i repository sent content_length now st = Inr (st', r, True)"
    and "0 \<le> al_repository_quota al" and "0 \<le> al_storage_quota al"
  shows "artifact_bytes (at_rows st') \<le> al_storage_quota al \<and>
     artifact_bytes (filter (\<lambda>q. af_repository q = repository) (at_rows st')) \<le> al_repository_quota al"
proof -
  let ?P = "\<lambda>q. af_repository q = repository"
  obtain rows where rows: "at_rows st' = fst (evict_artifacts (\<lambda>_. True) (al_storage_quota al) (fst (evict_artifacts ?P (al_repository_quota al) rows)))"
    using assms(1) by (auto simp: artifact_put_def stage_upload_eq rbind_Inr_conv Let_def case_prod_unfold split: if_splits option.splits)
  let ?mid = "fst (evict_artifacts ?P (al_repository_quota al) rows)"
  obtain Q where "at_rows st' = filter Q ?mid" using evict_filters_rows rows by metis
  then have "artifact_bytes (filter ?P (at_rows st')) \<le> artifact_bytes (filter ?P ?mid)"
    by (simp only: artifact_bytes_filter)
  then show ?thesis
    using evict_within [of ?P "al_repository_quota al" rows] evict_within [of "\<lambda>_. True" "al_storage_quota al" ?mid] assms(2,3) rows by simp
qed

section \<open>A concrete upload\<close>

definition upload_id :: string where "upload_id = replicate 32 CHR ''a''"

definition upload_row :: job_row where
  "upload_row = new_row upload_id ''o/r'' ''c0ffee'' ''refs/heads/main'' [] [''linux''] 3600 None None 100"

definition upload_db :: db where
  "upload_db = schema_db\<lparr>jobs := [take_lease ''dev'' 500 upload_row]\<rparr>"

definition upload_limits :: artifact_limits where
  "upload_limits = \<lparr>al_ttl = 10, al_repository_quota = 100, al_storage_quota = 100, al_max_bytes = 100\<rparr>"

definition no_artifacts :: artifacts where "no_artifacts = \<lparr>at_rows = [], at_files = Map.empty\<rparr>"

definition upload_record :: artifact_row where
  "upload_record = \<lparr>af_job = upload_id, af_repository = ''o/r'', af_name = upload_id @ ARTIFACT_SUFFIX, af_size = 3, af_digest = ''abc'',
     af_created = 300, af_expires = 310\<rparr>"

lemma upload_queue:
  "run_steps queue_step schema_db [Enqueue upload_id ''o/r'' ''c0ffee'' ''refs/heads/main'' [] [''linux''] 3600 None None 100,
     Claim ''dev'' [''linux''] 300 200 (Some 2)] = upload_db"
proof -
  have q: "queue_step schema_db (Enqueue upload_id ''o/r'' ''c0ffee'' ''refs/heads/main'' [] [''linux''] 3600 None None 100) = schema_db\<lparr>jobs := [upload_row]\<rparr>"
    by (simp add: enqueue_def Let_def commit_or_def schema_db_def on_jobs_def upload_row_def)
  have "claimable 200 upload_row" "job_eligible (schema_db\<lparr>jobs := [upload_row]\<rparr>) {''linux''} (Some 2) upload_row"
    by (simp_all add: claimable_def job_eligible_def upload_row_def new_row_def active_count_def)
  then have "claim ''dev'' [''linux''] 300 200 (Some 2) (schema_db\<lparr>jobs := [upload_row]\<rparr>) =
      Inr (upload_db, Some (row_job (take_lease ''dev'' 500 upload_row)))"
    by (simp add: claim_def pick_job_def min_by_def upload_db_def schema_db_def on_jobs_def update_where_def
        get_def row_of_def lookup_by_def upload_row_def new_row_def take_lease_def)
  with q show ?thesis by (simp add: commit_or_def)
qed

lemma upload_wf: "db_wf upload_db"
  by (metis upload_queue queue.inv_run)

lemma upload_held: "holds_lease upload_id ''dev'' 300 upload_db"
  by (simp add: holds_lease_def leased_to_def upload_db_def upload_row_def new_row_def take_lease_def spent_lease_def)

lemma upload_found: "get upload_db upload_id = Some (row_job (take_lease ''dev'' 500 upload_row))"
  by (simp add: get_def row_of_def lookup_by_def upload_db_def upload_row_def new_row_def take_lease_def)

lemma upload_path: "archive_path upload_id = Inr (upload_id @ ARTIFACT_SUFFIX)"
  by (simp add: archive_path_def upload_id_def list_all_iff)

lemma upload_evict: "artifact_bytes (filter P rows) \<le> quota \<Longrightarrow> evict_artifacts P quota rows = (rows, [])"
  by (simp add: evict_artifacts.simps)

lemma upload_put:
  "artifact_put id upload_limits upload_id ''o/r'' ''abcd'' 3 300 no_artifacts =
     Inr (\<lparr>at_rows = [upload_record], at_files = [upload_id \<mapsto> ''abc'']\<rparr>, upload_record, True)"
proof -
  have r: "\<lparr>af_job = upload_id, af_repository = ''o/r'', af_name = upload_id @ ARTIFACT_SUFFIX, af_size = Suc (Suc (Suc 0)),
      af_digest = ''abc'', af_created = 300, af_expires = 300 + of_int (al_ttl upload_limits)\<rparr> = upload_record"
    by (simp add: upload_record_def upload_limits_def)
  have quota: "evict_artifacts P (al_repository_quota upload_limits) [upload_record] = ([upload_record], [])"
      "evict_artifacts P (al_storage_quota upload_limits) [upload_record] = ([upload_record], [])" for P
    by (rule upload_evict, simp add: artifact_bytes_def upload_record_def upload_limits_def)+
  have staged: "stage_upload id ''abcd'' 3 = Inr (''abc'', ''abc'')" by (simp add: stage_upload_eq numeral_3_eq_3)
  have "3 \<le> al_max_bytes upload_limits" by (simp add: upload_limits_def)
  then show ?thesis
    unfolding artifact_put_def upload_path rbind_simps staged Let_def r
    by (simp add: no_artifacts_def expire_artifacts_def lookup_by_def unlink_all_def quota r Let_def numeral_3_eq_3)
qed

lemma upload_got:
  "artifact_get upload_id 300 \<lparr>at_rows = [upload_record], at_files = [upload_id \<mapsto> ''abc'']\<rparr> =
     Inr (\<lparr>at_rows = [upload_record], at_files = [upload_id \<mapsto> ''abc'']\<rparr>, Some upload_record)"
  by (simp add: artifact_get_def upload_path Let_def expire_artifacts_def unlink_all_def lookup_by_def) (simp_all add: upload_record_def)

lemma upload_answer:
  "upload_endpoint id (\<lambda>_. True) upload_limits upload_id ''dev'' ''abcd'' 3 300 upload_db no_artifacts =
     (\<lparr>at_rows = [upload_record], at_files = [upload_id \<mapsto> ''abc'']\<rparr>, Sent 201 upload_record)"
proof -
  have "job_repository (row_job (take_lease ''dev'' 500 upload_row)) = ''o/r''"
    by (simp add: row_job_def take_lease_def upload_row_def new_row_def)
  then show ?thesis
    by (simp add: upload_endpoint_def upload_refusal_def upload_found upload_held upload_put conclude_upload_def upload_got)
       (simp add: upload_limits_def)
qed

theorem stored_upload_is_served_witness:
  "\<exists>st'. download_endpoint upload_id 305 (queue_step upload_db (Heartbeat ''dev'' [] 1 304 []))
       \<lparr>at_rows = [upload_record], at_files = [upload_id \<mapsto> ''abc'']\<rparr> = (st', Sent 200 (''abc'', upload_record))"
proof -
  let ?s = "\<lparr>us_db = upload_db, us_store = no_artifacts, us_uploads = [], us_owner = Map.empty\<rparr>"
  let ?st = "\<lparr>at_rows = [upload_record], at_files = [upload_id \<mapsto> ''abc'']\<rparr>"
  have answer: "upload_endpoint id (\<lambda>_. True) upload_limits upload_id ''dev'' ''abcd'' 3 300 (us_db ?s) (us_store ?s) = (?st, Sent 201 upload_record)"
    using upload_answer by simp
  have stands: "stands_through id upload_limits upload_record (?s\<lparr>us_store := ?st\<rparr>) [Queue (Heartbeat ''dev'' [] 1 304 [])]"
    by (simp add: discard_released_def)
  have live: "305 < af_expires upload_record" by (simp add: upload_record_def)
  have rest: "distinct (map af_job (at_rows (us_store ?s)))" "db_wf (us_db ?s)" "0 < al_ttl upload_limits"
    using upload_wf by (simp_all add: no_artifacts_def upload_limits_def)
  from stored_upload_is_served [OF answer stands live rest] show ?thesis
    by (simp add: Let_def discard_released_def numeral_3_eq_3)
qed

definition upload_events :: "upload_event list" where
  "upload_events =
     [Queue (Enqueue upload_id ''o/r'' ''c0ffee'' ''refs/heads/main'' [] [''linux''] 3600 None None 100),
      Queue (Claim ''dev'' [''linux''] 300 200 (Some 2)), Start upload_id ''dev'' 300, Place 0 ''abcd'' 3 300, Recheck 0 300]"

lemma upload_run:
  "run_steps (upload_step id upload_limits) upload_start upload_events =
     \<lparr>us_db = upload_db, us_store = \<lparr>at_rows = [upload_record], at_files = [upload_id \<mapsto> ''abc'']\<rparr>, us_uploads = [], us_owner = [upload_id \<mapsto> ''dev'']\<rparr>"
proof -
  have repo: "r_repository (take_lease ''dev'' 500 upload_row) = ''o/r''"
    by (simp add: take_lease_def upload_row_def new_row_def)
  have db: "queue_step (queue_step schema_db (Enqueue upload_id ''o/r'' ''c0ffee'' ''refs/heads/main'' [] [''linux''] 3600 None None 100))
      (Claim ''dev'' [''linux''] 300 200 (Some 2)) = upload_db"
    using upload_queue by simp
  show ?thesis
    by (simp del: queue_step.simps add: upload_events_def upload_start_def discard_released_def db upload_found upload_held repo
        placed_def upload_put [unfolded no_artifacts_def] conclude_upload_def upload_got remove_nth_def)
qed


end
