(* ===== verification/Workflow_Triggers.thy ===== *)
theory Workflow_Triggers
  imports Cindral_Prelude
begin

text \<open>
  Which events a workflow declares and which refs they fire on (\<open>triggers.py\<close>), over the value YAML
  reads for \<open>on:\<close>, with the shell patterns of \<open>fnmatch\<close>. A pattern is first read into a list of pieces,
  as the library translates it to a regular expression, and the pieces are then matched; the matching is
  shown to be membership in the concatenation of the pieces' languages.
\<close>

section \<open>Shell patterns\<close>

datatype glob =
    Any_Text
  | Any_Char
  | Lit char
  | Among bool "(char \<times> char) list"

text \<open>The members of a bracket: a range, or a character as the range of itself.\<close>

fun bracket_ranges :: "string \<Rightarrow> (char \<times> char) list" where
  "bracket_ranges (lo # h # hi # rest) =
     (if h = CHR ''-'' then (lo, hi) # bracket_ranges rest else (lo, lo) # bracket_ranges (h # hi # rest))"
| "bracket_ranges (c # rest) = (c, c) # bracket_ranges rest"
| "bracket_ranges [] = []"

text \<open>
  What a bracket stands for. A range that runs backwards is removed first; when that leaves an
  exclamation mark in front, the library takes it for the negation sign, and a hyphen that followed it
  for a member.
\<close>

definition bracket :: "string \<Rightarrow> glob" where
  "bracket stuff =
     (case stuff of
        c # inner \<Rightarrow>
          if c = CHR ''!'' then Among False (filter (\<lambda>(lo, hi). lo \<le> hi) (bracket_ranges inner))
          else (case filter (\<lambda>(lo, hi). lo \<le> hi) (bracket_ranges stuff) of
                  (lo, hi) # ranges \<Rightarrow>
                    if lo = CHR ''!'' then Among False ((if hi = lo then [] else [(CHR ''-'', CHR ''-''), (hi, hi)]) @ ranges)
                    else Among True ((lo, hi) # ranges)
                | [] \<Rightarrow> Among True [])
      | [] \<Rightarrow> Among True [])"

text \<open>The text of a bracket and what follows it; a closing bracket right at its start is a member.\<close>

definition bracket_body :: "string \<Rightarrow> (string \<times> string) option" where
  "bracket_body s =
     (let neg = takeWhile (\<lambda>c. c = CHR ''!'') (take 1 s);
          t = drop (length neg) s;
          first = takeWhile (\<lambda>c. c = CHR '']'') (take 1 t);
          body = takeWhile (\<lambda>c. c \<noteq> CHR '']'') (drop (length first) t);
          rest = drop (length first + length body) t
      in if rest = [] then None else Some (neg @ first @ body, tl rest))"

lemma bracket_body_shorter: "bracket_body s = Some (stuff, rest) \<Longrightarrow> length rest < length s"
  by (auto simp: bracket_body_def Let_def split: if_splits)

function glob_of :: "string \<Rightarrow> glob list" where
  "glob_of [] = []"
| "glob_of (c # s) =
     (if c = CHR ''*'' then Any_Text # glob_of s
      else if c = CHR ''?'' then Any_Char # glob_of s
      else if c = CHR ''['' then
        (case bracket_body s of None \<Rightarrow> Lit c # glob_of s | Some (stuff, rest) \<Rightarrow> bracket stuff # glob_of rest)
      else Lit c # glob_of s)"
  by pat_completeness auto

termination
  by (relation "measure length") (auto dest!: bracket_body_shorter)

fun glob_char :: "glob \<Rightarrow> char \<Rightarrow> bool" where
  "glob_char Any_Text c \<longleftrightarrow> False"
| "glob_char Any_Char c \<longleftrightarrow> True"
| "glob_char (Lit d) c \<longleftrightarrow> c = d"
| "glob_char (Among yes ranges) c \<longleftrightarrow> list_ex (\<lambda>(lo, hi). lo \<le> c \<and> c \<le> hi) ranges = yes"

fun glob_match :: "glob list \<Rightarrow> string \<Rightarrow> bool" where
  "glob_match [] s \<longleftrightarrow> s = []"
| "glob_match (Any_Text # gs) [] \<longleftrightarrow> glob_match gs []"
| "glob_match (Any_Text # gs) (c # s) \<longleftrightarrow> glob_match gs (c # s) \<or> glob_match (Any_Text # gs) s"
| "glob_match (g # gs) [] \<longleftrightarrow> False"
| "glob_match (g # gs) (c # s) \<longleftrightarrow> glob_char g c \<and> glob_match gs s"

definition fnmatch :: "string \<Rightarrow> string \<Rightarrow> bool" where
  "fnmatch name pattern \<longleftrightarrow> glob_match (glob_of pattern) name"

section \<open>Events\<close>

fun patterns :: "(json \<Rightarrow> string) \<Rightarrow> json option \<Rightarrow> string list option" where
  "patterns shown (Some (JStr s)) = Some [s]"
| "patterns shown (Some (JList items)) = Some (map (py_str shown) items)"
| "patterns shown _ = None"

definition ref_filter :: "(json \<Rightarrow> string) \<Rightarrow> json option \<Rightarrow> json option \<Rightarrow> string \<Rightarrow> bool" where
  "ref_filter shown wanted ignored ref \<longleftrightarrow>
     (case patterns shown wanted of None \<Rightarrow> True | Some ps \<Rightarrow> list_ex (fnmatch ref) ps) \<and>
     (case patterns shown ignored of None \<Rightarrow> True | Some ps \<Rightarrow> \<not> list_ex (fnmatch ref) ps)"

definition event_config_matches :: "(json \<Rightarrow> string) \<Rightarrow> jobj \<Rightarrow> string \<Rightarrow> string \<Rightarrow> string option \<Rightarrow> bool" where
  "event_config_matches shown config event_name branch_or_tag base_ref =
     (let is_tag = prefix ''refs/tags/'' branch_or_tag;
          clean_ref = (if is_tag then removeprefix ''refs/tags/'' branch_or_tag else removeprefix ''refs/heads/'' branch_or_tag);
          has_tag_filter = (map_of config ''tags'' \<noteq> None \<or> map_of config ''tags-ignore'' \<noteq> None);
          has_branch_filter = (map_of config ''branches'' \<noteq> None \<or> map_of config ''branches-ignore'' \<noteq> None);
          branch_filter = ref_filter shown (map_of config ''branches'') (map_of config ''branches-ignore'')
      in if is_tag then
           (if has_branch_filter \<and> \<not> has_tag_filter then False
            else ref_filter shown (map_of config ''tags'') (map_of config ''tags-ignore'') clean_ref)
         else if has_tag_filter \<and> \<not> has_branch_filter then False
         else if event_name = ''pull_request'' then
           (if (prefix ''refs/pull/'' branch_or_tag \<or> prefix ''pull/'' branch_or_tag) \<and> base_ref = None then True
            else branch_filter (case base_ref of Some b \<Rightarrow> b | None \<Rightarrow> clean_ref))
         else branch_filter clean_ref)"

fun event_matches :: "(json \<Rightarrow> string) \<Rightarrow> json \<Rightarrow> string \<Rightarrow> string \<Rightarrow> string option \<Rightarrow> bool" where
  "event_matches shown (JStr s) event_name branch_or_tag base_ref \<longleftrightarrow> s = event_name"
| "event_matches shown (JList items) event_name branch_or_tag base_ref \<longleftrightarrow>
     list_ex (\<lambda>item. event_matches shown item event_name branch_or_tag base_ref) items"
| "event_matches shown (JObj spec) event_name branch_or_tag base_ref \<longleftrightarrow>
     (case map_of spec event_name of
        None \<Rightarrow> False
      | Some (JObj config) \<Rightarrow> event_config_matches shown config event_name branch_or_tag base_ref
      | Some _ \<Rightarrow> True)"
| "event_matches shown _ event_name branch_or_tag base_ref \<longleftrightarrow> False"

fun event_declares :: "json \<Rightarrow> string \<Rightarrow> bool" where
  "event_declares (JStr s) event_name \<longleftrightarrow> s = event_name"
| "event_declares (JList items) event_name \<longleftrightarrow> list_ex (\<lambda>item. event_declares item event_name) items"
| "event_declares (JObj spec) event_name \<longleftrightarrow> map_of spec event_name \<noteq> None"
| "event_declares _ event_name \<longleftrightarrow> False"

section \<open>What a pattern stands for\<close>

text \<open>The language of a piece, and of a pattern as the concatenation of its pieces' languages.\<close>

fun piece_language :: "glob \<Rightarrow> string set" where
  "piece_language Any_Text = UNIV"
| "piece_language g = {[c] | c. glob_char g c}"

fun glob_language :: "glob list \<Rightarrow> string set" where
  "glob_language [] = {[]}"
| "glob_language (g # gs) = {s @ t | s t. s \<in> piece_language g \<and> t \<in> glob_language gs}"

lemma piece_language_char: "g \<noteq> Any_Text \<Longrightarrow> piece_language g = {[c] | c. glob_char g c}"
  by (cases g) auto

lemma any_text_language: "s \<in> glob_language (Any_Text # gs) \<longleftrightarrow> (\<exists>t. suffix t s \<and> t \<in> glob_language gs)"
  by (auto simp: suffix_def)

lemma char_language:
  assumes "g \<noteq> Any_Text"
  shows "[] \<notin> glob_language (g # gs)" and "c # s \<in> glob_language (g # gs) \<longleftrightarrow> glob_char g c \<and> s \<in> glob_language gs"
proof -
  have "glob_language (g # gs) = {c # s | c s. glob_char g c \<and> s \<in> glob_language gs}"
    using piece_language_char [OF assms] by auto (metis append_Cons append_Nil)
  then show "[] \<notin> glob_language (g # gs)" "c # s \<in> glob_language (g # gs) \<longleftrightarrow> glob_char g c \<and> s \<in> glob_language gs"
    by (simp_all del: glob_language.simps)
qed

lemma glob_match_language: "glob_match gs s \<longleftrightarrow> s \<in> glob_language gs"
proof (induction gs s rule: glob_match.induct)
  case (3 gs c s)
  have "c # s \<in> glob_language (Any_Text # gs) \<longleftrightarrow> c # s \<in> glob_language gs \<or> s \<in> glob_language (Any_Text # gs)"
    unfolding any_text_language by (auto simp: suffix_Cons)
  then show ?case using 3 by simp
next
  case (2 gs)
  then show ?case by (auto simp del: glob_language.simps simp: any_text_language)
qed (simp_all del: glob_language.simps(2) add: char_language)

lemma glob_of_literal: "list_all (\<lambda>c. c \<notin> {CHR ''*'', CHR ''?'', CHR ''[''}) p \<Longrightarrow> glob_of p = map Lit p"
  by (induction p) auto

lemma literal_language: "glob_language (map Lit p) = {p}"
  by (induction p) auto

text \<open>A pattern without a special character names one ref.\<close>

lemma fnmatch_literal:
  "list_all (\<lambda>c. c \<notin> {CHR ''*'', CHR ''?'', CHR ''[''}) p \<Longrightarrow> fnmatch name p \<longleftrightarrow> name = p"
  by (simp add: fnmatch_def glob_match_language glob_of_literal literal_language)

lemma event_matches_declared: "event_matches shown on_spec e ref base \<Longrightarrow> event_declares on_spec e"
  by (induction on_spec e rule: event_declares.induct) (auto simp: list_ex_iff split: option.splits)

lemma unfiltered_event_matches:
  "map_of spec e = Some v \<Longrightarrow> (\<forall>config. v \<noteq> JObj config) \<Longrightarrow> event_matches shown (JObj spec) e ref base"
  by (auto split: json.split)

end
