(* ===== verification/Run_Contract.thy ===== *)
theory Run_Contract
  imports Cindral_Prelude
begin

text \<open>
  The contract a run is executed from (\<open>contract.py\<close>): its steps, its image, its services, read from a
  committed \<open>.cindral/ci.toml\<close>. A decoded TOML document is a \<^typ>\<open>json\<close> value; a refusal is a value of
  \<open>workflow_error\<close>, which also carries the errors of \<open>workflow_errors.py\<close> and \<open>workflow_context.py\<close> and, as
  \<open>Python_Error\<close>, an exception of another class. Its messages
  leave out quotation marks and entry numbers.
\<close>

section \<open>Refusals\<close>

datatype workflow_error =
    Contract_Error string
  | Context_Error string
  | Workflow_Error string
  | Workflow_No_Match string
  | Workflow_Unsupported string
  | Workflow_Ambiguous string
  | Python_Error string

section \<open>Contracts\<close>

record service =
  sv_name :: string
  sv_image :: string
  sv_env :: "(string \<times> string) list"
  sv_command :: "string list"
  sv_health_cmd :: "string option"

record contract =
  ct_steps :: "string list"
  ct_image :: "string option"
  ct_dockerfile :: "string option"
  ct_env :: "(string \<times> string) list"
  ct_services :: "service list"
  ct_timeout_minutes :: "int option"
  ct_docker :: bool
  ct_contract_only :: bool
  ct_labels :: "string list"

section \<open>Reading a table\<close>

definition get_or :: "jobj \<Rightarrow> string \<Rightarrow> json \<Rightarrow> json" where
  "get_or table key dflt = (case map_of table key of Some v \<Rightarrow> v | None \<Rightarrow> dflt)"

definition optional_str :: "jobj \<Rightarrow> string \<Rightarrow> string \<Rightarrow> workflow_error + string option" where
  "optional_str table key label =
     (case get_or table key JNull of
        JNull \<Rightarrow> Inr None
      | JStr s \<Rightarrow> if strip s = [] then Inl (Contract_Error (label @ ''.'' @ key @ '' must be a non-empty string'')) else Inr (Some (strip s))
      | _ \<Rightarrow> Inl (Contract_Error (label @ ''.'' @ key @ '' must be a non-empty string'')))"

text \<open>\<open>PurePosixPath\<close>: its parts, without empty and single-dot ones, and its text.\<close>

definition path_parts :: "string \<Rightarrow> string list" where
  "path_parts s = filter (\<lambda>p. p \<noteq> [] \<and> p \<noteq> ''.'') (split_char (CHR ''/'') s)"

definition path_text :: "string \<Rightarrow> string" where
  "path_text s = (if path_parts s = [] then ''.'' else join_with ''/'' (path_parts s))"

definition relative_path :: "string \<Rightarrow> string \<Rightarrow> workflow_error + string" where
  "relative_path s label =
     (if prefix ''/'' s \<or> ''..'' \<in> set (path_parts s) then Inl (Contract_Error (label @ '' must be a relative path inside the repository''))
      else Inr (path_text s))"

definition is_alnum :: "char \<Rightarrow> bool" where
  "is_alnum c \<longleftrightarrow> CHR ''A'' \<le> c \<and> c \<le> CHR ''Z'' \<or> CHR ''a'' \<le> c \<and> c \<le> CHR ''z'' \<or> CHR ''0'' \<le> c \<and> c \<le> CHR ''9''"

definition is_alias :: "string \<Rightarrow> bool" where
  "is_alias name \<longleftrightarrow>
     name \<noteq> [] \<and> length name \<le> 63 \<and> list_all (\<lambda>c. is_alnum c \<or> c \<in> {CHR ''-'', CHR ''_'', CHR ''.''}) name \<and> is_alnum (hd name)"

fun string_of :: "string \<Rightarrow> json \<Rightarrow> workflow_error + string" where
  "string_of message (JStr s) = Inr s"
| "string_of message _ = Inl (Contract_Error message)"

fun string_map :: "string \<Rightarrow> json \<Rightarrow> workflow_error + (string \<times> string) list" where
  "string_map label (JObj kvs) =
     traverse (\<lambda>(k, v). rbind (string_of (label @ ''.'' @ k @ '' must be a string'') v) (\<lambda>s. Inr (k, s))) kvs"
| "string_map label _ = Inl (Contract_Error (label @ '' must be a table of strings''))"

section \<open>Parsing\<close>

definition parse_image :: "jobj \<Rightarrow> workflow_error + string option \<times> string option" where
  "parse_image data =
     (case get_or data ''image'' (JObj []) of
        JObj table \<Rightarrow>
          rbind (optional_str table ''ref'' ''[image]'') (\<lambda>img.
          rbind (optional_str table ''dockerfile'' ''[image]'') (\<lambda>dockerfile.
            if (img \<noteq> None) = (dockerfile \<noteq> None) then Inl (Contract_Error ''[image] must set exactly one of ref or dockerfile'')
            else case dockerfile of
                   None \<Rightarrow> Inr (img, None)
                 | Some f \<Rightarrow> rbind (relative_path f ''[image].dockerfile'') (\<lambda>f'. Inr (img, Some f'))))
      | _ \<Rightarrow> Inl (Contract_Error ''[image] must be a table''))"

fun parse_step :: "json \<Rightarrow> workflow_error + string" where
  "parse_step (JObj table) =
     (case map_of table ''run'' of
        Some (JStr command) \<Rightarrow>
          if strip command = [] then Inl (Contract_Error ''steps.run must not be empty'') else Inr (strip command)
      | _ \<Rightarrow> Inl (Contract_Error ''steps must be a table with a string run''))"
| "parse_step _ = Inl (Contract_Error ''steps must be a table with a string run'')"

fun parse_steps_table :: "json \<Rightarrow> workflow_error + string list" where
  "parse_steps_table (JList (s # ss)) = traverse parse_step (s # ss)"
| "parse_steps_table _ = Inl (Contract_Error ''define at least one [[steps]] entry'')"

definition parse_flag :: "jobj \<Rightarrow> string \<Rightarrow> string \<Rightarrow> workflow_error + bool" where
  "parse_flag data table key =
     (case get_or data table (JObj []) of
        JObj kvs \<Rightarrow>
          (case get_or kvs key (JBool False) of
             JBool b \<Rightarrow> Inr b
           | _ \<Rightarrow> Inl (Contract_Error (''['' @ table @ ''].'' @ key @ '' must be a boolean'')))
      | _ \<Rightarrow> Inl (Contract_Error (''['' @ table @ ''] must be a table'')))"

fun parse_service :: "json \<Rightarrow> workflow_error + service" where
  "parse_service (JObj entry) =
     (case map_of entry ''name'' of
        Some (JStr name) \<Rightarrow>
          if \<not> is_alias name then Inl (Contract_Error ''services.name must be a lowercase docker alias'')
          else (case map_of entry ''image'' of
                  Some (JStr img) \<Rightarrow>
                    if strip img = [] then Inl (Contract_Error ''services.image must be a non-empty string'')
                    else rbind (string_map ''services.env'' (get_or entry ''env'' (JObj []))) (\<lambda>env.
                         rbind (case get_or entry ''command'' (JList []) of
                                  JList parts \<Rightarrow> traverse (string_of ''services.command must be a list of strings'') parts
                                | _ \<Rightarrow> Inl (Contract_Error ''services.command must be a list of strings'')) (\<lambda>command.
                         rbind (case get_or entry ''health_cmd'' JNull of
                                  JNull \<Rightarrow> Inr None
                                | JStr h \<Rightarrow> if strip h = [] then Inl (Contract_Error ''services.health_cmd must be a non-empty string'') else Inr (Some (strip h))
                                | _ \<Rightarrow> Inl (Contract_Error ''services.health_cmd must be a non-empty string'')) (\<lambda>health.
                           Inr \<lparr>sv_name = name, sv_image = strip img, sv_env = env, sv_command = command, sv_health_cmd = health\<rparr>)))
                | _ \<Rightarrow> Inl (Contract_Error ''services.image must be a non-empty string''))
      | _ \<Rightarrow> Inl (Contract_Error ''services.name must be a lowercase docker alias''))"
| "parse_service _ = Inl (Contract_Error ''services must be a table'')"

fun parse_timeout :: "json \<Rightarrow> workflow_error + int option" where
  "parse_timeout JNull = Inr None"
| "parse_timeout (JInt n) = (if n \<le> 0 then Inl (Contract_Error ''timeout_minutes must be a positive integer'') else Inr (Some n))"
| "parse_timeout _ = Inl (Contract_Error ''timeout_minutes must be a positive integer'')"

text \<open>\<open>None\<close> is a text that is not valid TOML.\<close>

fun parse_contract :: "json option \<Rightarrow> workflow_error + contract" where
  "parse_contract None = Inl (Contract_Error ''.cindral/ci.toml is not valid TOML'')"
| "parse_contract (Some (JObj data)) =
     rbind (parse_image data) (\<lambda>(img, dockerfile).
     rbind (parse_steps_table (get_or data ''steps'' (JList []))) (\<lambda>steps.
     rbind (string_map ''[env]'' (get_or data ''env'' (JObj []))) (\<lambda>env.
     rbind (parse_flag data ''runner'' ''docker'') (\<lambda>docker.
     rbind (parse_flag data ''ci'' ''contract_only'') (\<lambda>contract_only.
     rbind (case get_or data ''services'' (JList []) of
              JList entries \<Rightarrow> traverse parse_service entries
            | _ \<Rightarrow> Inl (Contract_Error ''[[services]] must be an array of tables'')) (\<lambda>services.
     rbind (parse_timeout (get_or data ''timeout_minutes'' JNull)) (\<lambda>timeout.
       Inr \<lparr>ct_steps = steps, ct_image = img, ct_dockerfile = dockerfile, ct_env = env, ct_services = services,
            ct_timeout_minutes = timeout, ct_docker = docker, ct_contract_only = contract_only, ct_labels = []\<rparr>)))))))"
| "parse_contract (Some _) = Inl (Contract_Error ''.cindral/ci.toml must be a TOML table'')"

section \<open>Well-formed contracts\<close>

definition service_ok :: "service \<Rightarrow> bool" where
  "service_ok s \<longleftrightarrow> is_alias (sv_name s) \<and> sv_image s \<noteq> [] \<and> sv_health_cmd s \<noteq> Some []"

definition dockerfile_ok :: "string \<Rightarrow> bool" where
  "dockerfile_ok f \<longleftrightarrow> f \<noteq> [] \<and> hd f \<noteq> CHR ''/'' \<and> ''..'' \<notin> set (split_char (CHR ''/'') f)"

definition contract_ok :: "contract \<Rightarrow> bool" where
  "contract_ok c \<longleftrightarrow>
     ct_steps c \<noteq> [] \<and> list_all (\<lambda>s. s \<noteq> []) (ct_steps c) \<and>
     (ct_image c \<noteq> None) \<noteq> (ct_dockerfile c \<noteq> None) \<and>
     pred_option (\<lambda>i. i \<noteq> []) (ct_image c) \<and> pred_option dockerfile_ok (ct_dockerfile c) \<and>
     list_all service_ok (ct_services c) \<and> pred_option (\<lambda>n. 0 < n) (ct_timeout_minutes c)"

lemma traverse_all:
  assumes "traverse f xs = Inr ys" and "\<And>x y. f x = Inr y \<Longrightarrow> P y"
  shows "list_all P ys"
  using assms(1) by (induction xs arbitrary: ys) (auto simp: rbind_Inr_conv dest: assms(2))

lemma parse_step_ok: "parse_step v = Inr s \<Longrightarrow> s \<noteq> []"
  by (cases v) (auto split: option.splits json.splits if_splits)

lemma parse_steps_ok: "parse_steps_table v = Inr ss \<Longrightarrow> ss \<noteq> [] \<and> list_all (\<lambda>s. s \<noteq> []) ss"
proof (cases v rule: parse_steps_table.cases)
  case (1 x xs)
  assume "parse_steps_table v = Inr ss"
  with 1 have t: "traverse parse_step (x # xs) = Inr ss" by simp
  then have "list_all (\<lambda>s. s \<noteq> []) ss" by (rule traverse_all) (rule parse_step_ok)
  with t show ?thesis by (auto simp: rbind_Inr_conv)
qed auto

lemma parse_service_ok: "parse_service v = Inr s \<Longrightarrow> service_ok s"
  by (cases v) (auto simp: service_ok_def rbind_Inr_conv split: option.splits json.splits if_splits)

lemma optional_str_ok: "optional_str t k l = Inr (Some s) \<Longrightarrow> s \<noteq> []"
  by (auto simp: optional_str_def split: json.splits if_splits)

lemma split_char_nonempty: "split_char c s \<noteq> []"
  by (cases s) (auto split: list.split)

lemma split_char_append:
  "c \<notin> set p \<Longrightarrow> split_char c (p @ c # s) = p # split_char c s"
  by (induction p) auto

lemma split_char_single: "c \<notin> set p \<Longrightarrow> split_char c p = [p]"
  by (induction p) auto

lemma split_char_join:
  "ps \<noteq> [] \<Longrightarrow> list_all (\<lambda>p. c \<notin> set p) ps \<Longrightarrow> split_char c (join_with [c] ps) = ps"
  by (induction "[c]" ps rule: join_with.induct) (auto simp: split_char_append split_char_single)

lemma split_char_parts: "p \<in> set (split_char c s) \<Longrightarrow> c \<notin> set p"
proof (induction s arbitrary: p)
  case (Cons x s)
  then show ?case by (cases "split_char c s") (auto split: if_splits)
qed simp

lemma relative_path_ok:
  assumes "relative_path s l = Inr f"
  shows "dockerfile_ok f"
proof (cases "path_parts s = []")
  case True
  then show ?thesis using assms by (auto simp: relative_path_def path_text_def dockerfile_ok_def split: if_splits)
next
  case False
  have f: "f = join_with ''/'' (path_parts s)" "''..'' \<notin> set (path_parts s)"
    using assms False by (auto simp: relative_path_def path_text_def split: if_splits)
  have parts: "list_all (\<lambda>p. CHR ''/'' \<notin> set p \<and> p \<noteq> []) (path_parts s)"
    by (auto simp: path_parts_def list_all_iff dest: split_char_parts)
  have split: "split_char (CHR ''/'') f = path_parts s"
    unfolding f(1) using False parts by (intro split_char_join) (auto simp: list_all_iff)
  have "f \<noteq> [] \<and> hd f \<noteq> CHR ''/''"
  proof (cases f)
    case Nil
    then have "path_parts s = [[]]" using split by simp
    then show ?thesis using parts by simp
  next
    case (Cons x t)
    have "x \<noteq> CHR ''/''"
    proof
      assume "x = CHR ''/''"
      then have "path_parts s = [] # split_char (CHR ''/'') t" using split Cons by simp
      then show False using parts by simp
    qed
    then show ?thesis using Cons by simp
  qed
  then show ?thesis using split f(2) by (simp add: dockerfile_ok_def)
qed

lemma parse_image_ok:
  assumes "parse_image data = Inr (img, dockerfile)"
  shows "(img \<noteq> None) \<noteq> (dockerfile \<noteq> None) \<and> pred_option (\<lambda>i. i \<noteq> []) img \<and> pred_option dockerfile_ok dockerfile"
  using assms relative_path_ok optional_str_ok
  by (auto simp: parse_image_def rbind_Inr_conv split: json.splits option.splits if_splits)

lemma parse_timeout_ok: "parse_timeout v = Inr t \<Longrightarrow> pred_option (\<lambda>n. 0 < n) t"
  by (cases v) (auto split: if_splits)

text \<open>
  C28: every contract the parser accepts is well formed: at least one step and none of them blank, an image
  or a build file but not both, a build file that stays inside the repository, service names that are
  aliases, and a positive time limit if any.
\<close>

theorem parsed_contract_is_well_formed:
  assumes "parse_contract doc = Inr c"
  shows "contract_ok c"
proof (cases doc)
  case (Some v)
  then obtain data where doc: "doc = Some (JObj data)" using assms by (cases v) auto
  obtain img dockerfile services where
      img: "parse_image data = Inr (img, dockerfile)" "ct_image c = img" "ct_dockerfile c = dockerfile"
    and steps: "parse_steps_table (get_or data ''steps'' (JList [])) = Inr (ct_steps c)"
    and services: "(case get_or data ''services'' (JList []) of JList entries \<Rightarrow> traverse parse_service entries
            | _ \<Rightarrow> Inl (Contract_Error ''[[services]] must be an array of tables'')) = Inr (ct_services c)"
    and timeout: "parse_timeout (get_or data ''timeout_minutes'' JNull) = Inr (ct_timeout_minutes c)"
    using assms unfolding doc by (auto simp: rbind_Inr_conv)
  have "list_all service_ok (ct_services c)"
    using services traverse_all [OF _ parse_service_ok] by (auto split: json.splits)
  then show ?thesis
    using parse_image_ok [OF img(1)] img(2,3) parse_steps_ok [OF steps] parse_timeout_ok [OF timeout]
    by (auto simp: contract_ok_def)
qed (use assms in simp)

definition example_toml :: json where
  "example_toml = JObj [(''image'', JObj [(''dockerfile'', JStr ''./ci//Dockerfile'')]), (''steps'', JList [JObj [(''run'', JStr '' make test '')]])]"

theorem parsed_contract_is_well_formed_witness:
  "\<exists>c. parse_contract (Some example_toml) = Inr c \<and> contract_ok c \<and> ct_dockerfile c = Some ''ci/Dockerfile'' \<and> ct_steps c = [''make test'']"
proof -
  have "parse_contract (Some example_toml) = Inr \<lparr>ct_steps = [''make test''], ct_image = None, ct_dockerfile = Some ''ci/Dockerfile'', ct_env = [],
      ct_services = [], ct_timeout_minutes = None, ct_docker = False, ct_contract_only = False, ct_labels = []\<rparr>"
    by code_simp
  then show ?thesis using parsed_contract_is_well_formed by fastforce
qed

end
