(* ===== verification/Workflow_Context.thy ===== *)
theory Workflow_Context
  imports Job_Condition Run_Contract
begin

text \<open>
  The Actions context a queued run resolves (\<open>workflow_context.py\<close>): the event payload made from the
  queue record, the values of context paths, the substitution of expressions in a step's text, and the
  refusal of context the run does not carry. A refusal is a value; \<open>shown\<close> is \<open>str\<close> of a float, which no
  payload made here holds.
\<close>

section \<open>Texts\<close>

definition after :: "char \<Rightarrow> string \<Rightarrow> string" where
  "after c s = tl (dropWhile (\<lambda>x. x \<noteq> c) s)"

section \<open>The run and its event\<close>

record job_spec =
  js_id :: string
  js_repository :: string
  js_sha :: string
  js_ref :: string
  js_command :: "string list"
  js_timeout :: int

record run_context =
  rc_event_name :: string
  rc_event :: jobj
  rc_env :: "(string \<times> string) list"
  rc_workflow :: string
  rc_job_id :: string

definition BRANCH_PREFIX :: string where "BRANCH_PREFIX = ''refs/heads/''"
definition PULL_PREFIX :: string where "PULL_PREFIX = ''refs/pull/''"
definition CONTAINER_REPO :: string where "CONTAINER_REPO = ''/workspace/repo''"
definition ENGINE_ROOTS :: "string list" where "ENGINE_ROOTS = [''job'', ''runner'', ''steps'', ''strategy'']"
definition UNSUPPLIED_ROOTS :: "string list" where "UNSUPPLIED_ROOTS = [''inputs'', ''matrix'', ''needs'', ''secrets'', ''vars'']"

definition is_pull_ref :: "string \<Rightarrow> bool" where
  "is_pull_ref ref \<longleftrightarrow> prefix ''refs/pull/'' ref \<or> prefix ''pull/'' ref"

definition event_name_for :: "job_spec \<Rightarrow> string" where
  "event_name_for job = (if is_pull_ref (js_ref job) then ''pull_request'' else ''push'')"

definition qualified_ref :: "string \<Rightarrow> string" where
  "qualified_ref ref =
     (if prefix ''refs/'' ref then ref
      else if prefix ''pull/'' ref then PULL_PREFIX @ removeprefix ''pull/'' ref
      else BRANCH_PREFIX @ ref)"

definition ref_parts :: "string \<Rightarrow> string \<times> string" where
  "ref_parts ref =
     (if prefix ''refs/tags/'' ref then (removeprefix ''refs/tags/'' ref, ''tag'')
      else if prefix PULL_PREFIX ref then (removeprefix PULL_PREFIX ref, ''branch'')
      else if prefix BRANCH_PREFIX ref then (removeprefix BRANCH_PREFIX ref, ''branch'')
      else (removeprefix ''refs/'' ref, ''branch''))"

definition digits_value :: "string \<Rightarrow> int" where
  "digits_value ds = foldl (\<lambda>n c. 10 * n + (int (of_char c) - 48)) 0 ds"

definition pull_number :: "string \<Rightarrow> workflow_error + int" where
  "pull_number ref =
     (let s = removeprefix PULL_PREFIX (qualified_ref ref);
          ds = takeWhile digit s
      in if ds \<noteq> [] \<and> prefix ''/'' (drop (length ds) s) then Inr (digits_value ds)
         else Inl (Context_Error (''ref '' @ ref @ '' carries no pull request number to read'')))"

definition create_event_payload :: "job_spec \<Rightarrow> string \<Rightarrow> workflow_error + jobj" where
  "create_event_payload job event_name =
     (let owner = before (CHR ''/'') (js_repository job);
          name = after (CHR ''/'') (js_repository job);
          base = [(''repository'', JObj [(''full_name'', JStr (js_repository job)),
                                         (''name'', JStr (if name = [] then js_repository job else name)),
                                         (''owner'', JObj [(''login'', JStr owner)])]),
                  (''ref'', JStr (qualified_ref (js_ref job))),
                  (''sha'', JStr (js_sha job))]
      in if event_name = ''pull_request'' \<or> is_pull_ref (js_ref job)
         then rbind (pull_number (js_ref job)) (\<lambda>number.
           Inr (base @ [(''number'', JInt number),
                        (''pull_request'', JObj [(''number'', JInt number), (''head'', JObj [(''sha'', JStr (js_sha job))])])]))
         else Inr (base @ [(''after'', JStr (js_sha job))]))"

definition from_job :: "job_spec \<Rightarrow> string \<Rightarrow> string \<Rightarrow> string \<Rightarrow> (string \<times> string) list \<Rightarrow> workflow_error + run_context" where
  "from_job job event_name workflow job_id env =
     rbind (create_event_payload job event_name) (\<lambda>event.
       Inr \<lparr>rc_event_name = event_name, rc_event = event, rc_env = env, rc_workflow = workflow, rc_job_id = job_id\<rparr>)"

section \<open>Values\<close>

fun lookup_path :: "json \<Rightarrow> string list \<Rightarrow> json option" where
  "lookup_path v [] = Some v"
| "lookup_path (JObj kvs) (part # parts) = (case map_of kvs part of None \<Rightarrow> None | Some v \<Rightarrow> lookup_path v parts)"
| "lookup_path _ (part # parts) = None"

fun scalar :: "(json \<Rightarrow> string) \<Rightarrow> json option \<Rightarrow> string option" where
  "scalar shown (Some (JBool b)) = Some (if b then ''true'' else ''false'')"
| "scalar shown (Some (JInt i)) = Some (int_str i)"
| "scalar shown (Some (JFloat x)) = Some (shown (JFloat x))"
| "scalar shown (Some (JStr s)) = Some s"
| "scalar shown _ = None"

definition sub_object :: "jobj \<Rightarrow> string \<Rightarrow> jobj" where
  "sub_object kvs key = (case map_of kvs key of Some (JObj inner) \<Rightarrow> inner | _ \<Rightarrow> [])"

definition text_of :: "(json \<Rightarrow> string) \<Rightarrow> jobj \<Rightarrow> string \<Rightarrow> string" where
  "text_of shown kvs key = (case map_of kvs key of Some v \<Rightarrow> py_str shown v | None \<Rightarrow> [])"

definition non_empty :: "string option \<Rightarrow> string option" where
  "non_empty v = (case v of Some [] \<Rightarrow> None | _ \<Rightarrow> v)"

definition github_value :: "(json \<Rightarrow> string) \<Rightarrow> run_context \<Rightarrow> string \<Rightarrow> string option" where
  "github_value shown ctx path =
     (let repository = sub_object (rc_event ctx) ''repository'';
          ref = text_of shown (rc_event ctx) ''ref'';
          (ref_name, ref_type) = ref_parts ref;
          fields = [(''github.event_name'', rc_event_name ctx), (''github.job'', rc_job_id ctx), (''github.ref'', ref),
                    (''github.ref_name'', ref_name), (''github.ref_type'', ref_type), (''github.workspace'', CONTAINER_REPO),
                    (''github.repository'', text_of shown repository ''full_name''),
                    (''github.repository_owner'', text_of shown (sub_object repository ''owner'') ''login''),
                    (''github.sha'', text_of shown (rc_event ctx) ''sha''), (''github.workflow'', rc_workflow ctx)]
      in non_empty (map_of fields path))"

definition context_value :: "(json \<Rightarrow> string) \<Rightarrow> run_context \<Rightarrow> string \<Rightarrow> string option" where
  "context_value shown ctx path =
     (if prefix ''github.event.'' path
      then scalar shown (lookup_path (JObj (rc_event ctx)) (split_char (CHR ''.'') (removeprefix ''github.event.'' path)))
      else if prefix ''github.'' path then github_value shown ctx path
      else if prefix ''env.'' path then non_empty (map_of (rc_env ctx) (removeprefix ''env.'' path))
      else None)"

section \<open>Expressions in a text\<close>

text \<open>A text as the expressions in it, each up to the first closing braces, and the characters around them.\<close>

datatype piece = Char char | Expression string

fun until_close :: "string \<Rightarrow> (string \<times> string) option" where
  "until_close [] = None"
| "until_close (c # s) =
     (if prefix ''}}'' (c # s) then Some ([], tl s) else map_option (\<lambda>(inner, rest). (c # inner, rest)) (until_close s))"

lemma until_close_shorter: "until_close s = Some (inner, rest) \<Longrightarrow> length rest < length s"
  by (induction s arbitrary: inner rest) (fastforce split: if_splits)+

function text_pieces :: "string \<Rightarrow> piece list" where
  "text_pieces [] = []"
| "text_pieces (c # s) =
     (if prefix ''${{'' (c # s)
      then (case until_close (drop 2 s) of
              Some (inner, rest) \<Rightarrow> Expression inner # text_pieces rest
            | None \<Rightarrow> Char c # text_pieces s)
      else Char c # text_pieces s)"
  by pat_completeness auto

termination
  by (relation "measure length") (auto dest!: until_close_shorter)

declare text_pieces.simps(2) [simp del]

definition path_ok :: "string \<Rightarrow> bool" where
  "path_ok path \<longleftrightarrow>
     (case split_char (CHR ''.'') path of
        (c # w) # parts \<Rightarrow> letter c \<and> list_all word_char w \<and> list_all (\<lambda>p. p \<noteq> [] \<and> list_all word_char p) parts
      | _ \<Rightarrow> False)"

fun substitute :: "(json \<Rightarrow> string) \<Rightarrow> run_context \<Rightarrow> string \<Rightarrow> piece \<Rightarrow> workflow_error + string" where
  "substitute shown ctx label (Char c) = Inr [c]"
| "substitute shown ctx label (Expression inner) =
     (let path = strip inner in
      if \<not> path_ok path then Inl (Context_Error (label @ '' reads expression '' @ path @ '', which this run cannot evaluate''))
      else case context_value shown ctx path of
             None \<Rightarrow> Inl (Context_Error (label @ '' reads context '' @ path @ '' that this run does not carry''))
           | Some v \<Rightarrow> Inr v)"

definition expand :: "(json \<Rightarrow> string) \<Rightarrow> run_context \<Rightarrow> string \<Rightarrow> string \<Rightarrow> workflow_error + string" where
  "expand shown ctx txt label = rbind (traverse (substitute shown ctx label) (text_pieces txt)) (\<lambda>ss. Inr (concat ss))"

definition expand_env ::
  "(json \<Rightarrow> string) \<Rightarrow> run_context \<Rightarrow> (string \<times> string) list \<Rightarrow> string \<Rightarrow> workflow_error + (string \<times> string) list" where
  "expand_env shown ctx env label =
     traverse (\<lambda>(name, v). rbind (expand shown ctx v (label @ '' env '' @ name)) (\<lambda>v'. Inr (name, v'))) env"

section \<open>What the engine would resolve to nothing\<close>

definition key_char :: "char \<Rightarrow> bool" where
  "key_char c \<longleftrightarrow> word_char c \<or> c = CHR ''.'' \<or> c = CHR ''-''"

definition is_quote :: "char \<Rightarrow> bool" where
  "is_quote c \<longleftrightarrow> c = CHR 0x27 \<or> c = CHR 0x22"

text \<open>An index right after its opening bracket: the key and what follows the closing bracket.\<close>

definition read_index :: "string \<Rightarrow> (string \<times> string) option" where
  "read_index s =
     (let s1 = dropWhile is_space s;
          s2 = drop (length (takeWhile is_quote (take 1 s1))) s1;
          key = takeWhile key_char s2;
          s3 = drop (length key) s2;
          s4 = dropWhile is_space (drop (length (takeWhile is_quote (take 1 s3))) s3)
      in if key \<noteq> [] \<and> prefix '']'' s4 then Some (key, tl s4) else None)"

lemma read_index_shorter: "read_index s = Some (key, rest) \<Longrightarrow> length rest < length s"
proof -
  assume a: "read_index s = Some (key, rest)"
  have "length (dropWhile is_space (drop n (drop m (drop k (dropWhile is_space s))))) \<le> length s" for n m k
    using length_dropWhile_le [of is_space s] by (intro order_trans [OF length_dropWhile_le]) simp
  moreover obtain n m k where "prefix '']'' (dropWhile is_space (drop n (drop m (drop k (dropWhile is_space s)))))"
      "rest = tl (dropWhile is_space (drop n (drop m (drop k (dropWhile is_space s)))))"
    using a unfolding read_index_def Let_def by (metis option.distinct(1) option.inject prod.inject)
  ultimately show ?thesis
    by (metis Suc_le_eq length_Cons list.sel(3) prefix_Cons not_Cons_self2 list.distinct(1) list.collapse prefix_Nil)
qed

function index_paths :: "string \<Rightarrow> string" where
  "index_paths [] = []"
| "index_paths (c # s) =
     (if c = CHR ''['' then (case read_index s of Some (key, rest) \<Rightarrow> CHR ''.'' # key @ index_paths rest | None \<Rightarrow> c # index_paths s)
      else c # index_paths s)"
  by pat_completeness auto

termination
  by (relation "measure length") (auto dest!: read_index_shorter)

function drop_quoted :: "string \<Rightarrow> string" where
  "drop_quoted [] = []"
| "drop_quoted (c # s) =
     (if is_quote c \<and> c \<in> set s then drop_quoted (tl (dropWhile (\<lambda>x. x \<noteq> c) s)) else c # drop_quoted s)"
  by pat_completeness auto

termination
  by (relation "measure length") (auto simp: less_Suc_eq_le intro: order_trans [OF diff_le_self] length_dropWhile_le)

definition readable_expression :: "string \<Rightarrow> string" where
  "readable_expression expression = drop_quoted (index_paths expression)"

function path_tokens :: "string \<Rightarrow> string list" where
  "path_tokens [] = []"
| "path_tokens (c # s) =
     (if letter c then scan_path (c # s) # path_tokens (drop (length (scan_path (c # s))) (c # s)) else path_tokens s)"
  by pat_completeness auto

termination
proof (relation "measure length", goal_cases)
  case (2 c s)
  then show ?case using scan_path_nonempty [of c s] by (cases "scan_path (c # s)") auto
qed auto

definition require_token :: "(json \<Rightarrow> string) \<Rightarrow> run_context \<Rightarrow> string \<Rightarrow> string \<Rightarrow> workflow_error + unit" where
  "require_token shown ctx label token =
     (let root = before (CHR ''.'') token;
          rest = after (CHR ''.'') token;
          refused = Inl (Context_Error (label @ '' reads context '' @ token @ '' that this run does not carry''))
      in if root \<in> set UNSUPPLIED_ROOTS then refused
         else if rest = [] \<or> root \<in> set ENGINE_ROOTS then Inr ()
         else if context_value shown ctx token = None then refused
         else Inr ())"

definition require_expression :: "(json \<Rightarrow> string) \<Rightarrow> run_context \<Rightarrow> string \<Rightarrow> string \<Rightarrow> workflow_error + unit" where
  "require_expression shown ctx expression label =
     (let readable = readable_expression expression in
      if CHR ''['' \<in> set readable then Inl (Context_Error (label @ '' reads context by index, which this run does not carry''))
      else rbind (traverse (require_token shown ctx label) (path_tokens readable)) (\<lambda>_. Inr ()))"

fun expressions_of :: "piece list \<Rightarrow> string list" where
  "expressions_of [] = []"
| "expressions_of (Char c # ps) = expressions_of ps"
| "expressions_of (Expression e # ps) = e # expressions_of ps"

definition require_resolvable :: "(json \<Rightarrow> string) \<Rightarrow> run_context \<Rightarrow> string \<Rightarrow> string \<Rightarrow> workflow_error + unit" where
  "require_resolvable shown ctx txt label =
     rbind (traverse (\<lambda>e. require_expression shown ctx e label) (expressions_of (text_pieces txt))) (\<lambda>_. Inr ())"

section \<open>The context of a job\<close>

definition run_context_for :: "(json \<Rightarrow> string) \<Rightarrow> job_spec \<Rightarrow> string \<Rightarrow> string \<Rightarrow> (string \<times> string) list \<Rightarrow> workflow_error + run_context" where
  "run_context_for shown job workflow job_id env =
     rbind (from_job job (event_name_for job) workflow job_id []) (\<lambda>declared.
     rbind (expand_env shown declared env (''job '' @ job_id)) (\<lambda>env'. Inr (declared\<lparr>rc_env := env'\<rparr>)))"

definition resolve_service :: "(json \<Rightarrow> string) \<Rightarrow> run_context \<Rightarrow> bool \<Rightarrow> service \<Rightarrow> workflow_error + service" where
  "resolve_service shown ctx native s =
     (let label = ''service '' @ sv_name s in
      if native
      then rbind (expand shown ctx (sv_image s) (label @ '' image'')) (\<lambda>img.
           rbind (expand_env shown ctx (sv_env s) label) (\<lambda>env. Inr (s\<lparr>sv_image := img, sv_env := env\<rparr>)))
      else rbind (require_resolvable shown ctx (sv_image s) (label @ '' image'')) (\<lambda>_.
           rbind (traverse (\<lambda>(name, v). require_resolvable shown ctx v (label @ '' env '' @ name)) (sv_env s)) (\<lambda>_. Inr s)))"

definition resolve_services :: "(json \<Rightarrow> string) \<Rightarrow> run_context \<Rightarrow> service list \<Rightarrow> bool \<Rightarrow> workflow_error + service list" where
  "resolve_services shown ctx services native = traverse (resolve_service shown ctx native) services"

section \<open>What an expansion writes\<close>

text \<open>A text written as literals and context reads, with spaces allowed around a path.\<close>

datatype segment = Literal string | Reads string string string

fun segment_text :: "segment \<Rightarrow> string" where
  "segment_text (Literal l) = l"
| "segment_text (Reads a p b) = ''${{'' @ a @ p @ b @ ''}}''"

fun segment_ok :: "segment \<Rightarrow> bool" where
  "segment_ok (Literal l) \<longleftrightarrow> \<not> sublist ''${{'' l"
| "segment_ok (Reads a p b) \<longleftrightarrow> list_all is_space a \<and> path_ok p \<and> list_all is_space b"

fun segments_ok :: "segment list \<Rightarrow> bool" where
  "segments_ok [] \<longleftrightarrow> True"
| "segments_ok (Literal l # Literal m # gs) \<longleftrightarrow> False"
| "segments_ok (g # gs) \<longleftrightarrow> segment_ok g \<and> segments_ok gs"

fun segment_value :: "(json \<Rightarrow> string) \<Rightarrow> run_context \<Rightarrow> string \<Rightarrow> segment \<Rightarrow> workflow_error + string" where
  "segment_value shown ctx label (Literal l) = Inr l"
| "segment_value shown ctx label (Reads a p b) =
     (case context_value shown ctx p of
        None \<Rightarrow> Inl (Context_Error (label @ '' reads context '' @ p @ '' that this run does not carry''))
      | Some v \<Rightarrow> Inr v)"

lemma split_char_set: "set s \<subseteq> insert c (\<Union> (set ` set (split_char c s)))"
proof (induction s)
  case (Cons x s)
  then show ?case by (cases "split_char c s") (auto split: if_splits)
qed simp

lemma path_ok_chars:
  assumes "path_ok p"
  shows "p \<noteq> []" and "x \<in> set p \<Longrightarrow> word_char x \<or> x = CHR ''.''"
proof -
  obtain c w parts where split: "split_char (CHR ''.'') p = (c # w) # parts"
      and ok: "letter c" "list_all word_char w" "list_all (\<lambda>p. p \<noteq> [] \<and> list_all word_char p) parts"
    using assms by (auto simp: path_ok_def split: list.splits)
  show "p \<noteq> []" using split by auto
  show "x \<in> set p \<Longrightarrow> word_char x \<or> x = CHR ''.''"
    using split_char_set [of p "CHR ''.''"] ok unfolding split by (auto simp: list_all_iff word_char_def)
qed

lemma word_char_plain: "word_char x \<or> x = CHR ''.'' \<Longrightarrow> \<not> is_space x \<and> x \<noteq> CHR ''}''"
  by (auto simp: word_char_def letter_def digit_def is_space_def less_eq_char_def)

lemma space_no_brace: "is_space x \<Longrightarrow> x \<noteq> CHR ''}''"
  by (auto simp: is_space_def)

lemma until_close_plain: "CHR ''}'' \<notin> set s \<Longrightarrow> until_close (s @ ''}}'' @ rest) = Some (s, rest)"
  by (induction s) auto

lemma strip_spaces:
  assumes "list_all is_space a" and "list_all is_space b" and "p \<noteq> []" and "\<forall>x \<in> set p. \<not> is_space x"
  shows "strip (a @ p @ b) = p"
proof -
  have "dropWhile is_space (a @ p @ b) = p @ b"
    using assms by (cases p) (auto simp: dropWhile_append list_all_iff)
  moreover have "dropWhile is_space (rev b @ rev p) = rev p"
    using assms by (cases "rev p") (auto simp: dropWhile_append list_all_iff)
  ultimately show ?thesis by (simp add: strip_def)
qed

lemma pieces_read:
  assumes "segment_ok (Reads a p b)"
  shows "text_pieces (segment_text (Reads a p b) @ rest) = Expression (a @ p @ b) # text_pieces rest"
proof -
  have "\<forall>x \<in> set a \<union> set b. x \<noteq> CHR ''}''" using assms space_no_brace by (auto simp: list_all_iff simp del: insert_iff)
  moreover have "\<forall>x \<in> set p. x \<noteq> CHR ''}''" using assms word_char_plain path_ok_chars(2) [of p] by (metis segment_ok.simps(2))
  ultimately have "CHR ''}'' \<notin> set (a @ p @ b)" by auto
  then show ?thesis using until_close_plain [of "a @ p @ b" rest] by (simp add: text_pieces.simps(2))
qed

lemma no_open_across:
  assumes "\<not> sublist ''${{'' (c # l)" and "rest = [] \<or> prefix ''$'' rest"
  shows "\<not> prefix ''${{'' (c # l @ rest)"
proof
  assume p: "prefix ''${{'' (c # l @ rest)"
  consider "l = []" | x where "l = [x]" | x y l' where "l = x # y # l'" by (cases l; cases "tl l") auto
  then show False
  proof cases
    case 3
    then have "prefix ''${{'' (c # l)" using p by auto
    then show False using assms(1) prefix_imp_sublist by blast
  qed (use p assms(2) in \<open>auto simp: prefix_def\<close>)
qed

lemma pieces_literal:
  assumes "\<not> sublist ''${{'' l" and "rest = [] \<or> prefix ''$'' rest"
  shows "text_pieces (l @ rest) = map Char l @ text_pieces rest"
  using assms(1)
proof (induction l)
  case (Cons c l)
  have "\<not> sublist ''${{'' l" using Cons.prems by (simp add: sublist_Cons_right)
  then show ?case using Cons no_open_across [OF Cons.prems assms(2)] by (auto simp: text_pieces.simps(2))
qed simp

lemma pieces_of_segments:
  "segments_ok gs \<Longrightarrow> text_pieces (concat (map segment_text gs)) =
     concat (map (\<lambda>g. case g of Literal l \<Rightarrow> map Char l | Reads a p b \<Rightarrow> [Expression (a @ p @ b)]) gs)"
proof (induction gs rule: segments_ok.induct, goal_cases)
  case (3 a p b gs)
  then show ?case using pieces_read by simp
next
  case (4 g)
  then show ?case using pieces_literal [of _ "[]"] pieces_read [of _ _ _ "[]"] by (cases g) simp_all
next
  case (5 g a p b gs)
  let ?rest = "concat (map segment_text (Reads a p b # gs))"
  have "prefix ''$'' ?rest" by simp
  then have "text_pieces (segment_text g @ ?rest) =
      (case g of Literal l \<Rightarrow> map Char l | Reads a p b \<Rightarrow> [Expression (a @ p @ b)]) @ text_pieces ?rest"
    using 5 pieces_literal [of _ ?rest] pieces_read [of _ _ _ ?rest] by (cases g) simp_all
  then show ?case using 5 by simp
qed auto

lemma traverse_append:
  "traverse f (xs @ ys) = rbind (traverse f xs) (\<lambda>as. rbind (traverse f ys) (\<lambda>bs. Inr (as @ bs)))"
  by (induction xs) (auto simp: rbind_def split: sum.split)

lemma traverse_chars: "traverse (substitute shown ctx label) (map Char l) = Inr (map (\<lambda>c. [c]) l)"
  by (induction l) auto

lemma traverse_concat:
  assumes "\<And>g. g \<in> set gs \<Longrightarrow> rbind (traverse f (h g)) (\<lambda>ss. Inr (concat ss)) = k g"
  shows "rbind (traverse f (concat (map h gs))) (\<lambda>ss. Inr (concat ss)) = rbind (traverse k gs) (\<lambda>ss. Inr (concat ss))"
  using assms
proof (induction gs)
  case (Cons g gs)
  have "k g = rbind (traverse f (h g)) (\<lambda>ss. Inr (concat ss))" using Cons.prems by simp
  then show ?case using Cons by (cases "traverse f (h g)"; cases "traverse f (concat (map h gs))"; cases "traverse k gs") (auto simp: traverse_append)
qed simp

text \<open>
  C27: what a step's text becomes. A text of literals and context reads is expanded to the same literals
  with the value of each path in its place; if a path has no value, the refusal names the first such path,
  and no text is produced.
\<close>

theorem expansion_substitutes_values:
  assumes "segments_ok gs"
  shows "expand shown ctx (concat (map segment_text gs)) label = rbind (traverse (segment_value shown ctx label) gs) (\<lambda>ss. Inr (concat ss))"
  unfolding expand_def pieces_of_segments [OF assms]
proof (rule traverse_concat)
  fix g assume "g \<in> set gs"
  then have "segment_ok g" using assms by (induction gs rule: segments_ok.induct) auto
  then show "rbind (traverse (substitute shown ctx label) (case g of Literal l \<Rightarrow> map Char l | Reads a p b \<Rightarrow> [Expression (a @ p @ b)]))
      (\<lambda>ss. Inr (concat ss)) = segment_value shown ctx label g"
  proof (cases g)
    case (Literal l)
    then show ?thesis by (simp add: traverse_chars)
  next
    case (Reads a p b)
    then have "strip (a @ p @ b) = p" "path_ok p"
      using \<open>segment_ok g\<close> path_ok_chars [of p] word_char_plain by (auto intro!: strip_spaces)
    then show ?thesis using Reads by (simp split: option.split)
  qed
qed

definition example_run :: run_context where
  "example_run = \<lparr>rc_event_name = ''push'', rc_event = [(''sha'', JStr ''c0ffee'')], rc_env = [], rc_workflow = ''ci'', rc_job_id = ''test''\<rparr>"

theorem expansion_substitutes_values_witness:
  "expand (\<lambda>_. []) example_run ''echo ${{ github.sha }}!'' ''step'' = Inr ''echo c0ffee!''"
proof -
  let ?gs = "[Literal ''echo '', Reads '' '' ''github.sha'' '' '', Literal ''!'']"
  have "path_ok ''github.sha''" by code_simp
  then have "segments_ok ?gs" by (simp add: sublist_code is_space_def)
  then have "expand (\<lambda>_. []) example_run (concat (map segment_text ?gs)) ''step'' =
      rbind (traverse (segment_value (\<lambda>_. []) example_run ''step'') ?gs) (\<lambda>ss. Inr (concat ss))"
    by (rule expansion_substitutes_values)
  moreover have "context_value (\<lambda>_. []) example_run ''github.sha'' = Some ''c0ffee''" by code_simp
  ultimately show ?thesis by simp
qed

end
