(* ===== verification/Workflow_Jobs.thy ===== *)
theory Workflow_Jobs
  imports Workflow_Context
begin

text \<open>
  Reading a repository's workflow files (\<open>discovery.py\<close>, \<open>workflow_inputs.py\<close>): the jobs a file declares,
  with a call of a reusable workflow replaced by the jobs of the workflow it calls. PyYAML is not modelled:
  a file is the value it reads, a mapping with string keys, and beside it the value under the boolean key
  \<open>True\<close>, which is what \<open>on:\<close> becomes. A file the reader refuses is \<open>Bad_Yaml\<close>. The resolution of a path
  in the checkout, the text of a file and the decoded \<open>package.json\<close> are fields of the repository. Python's texts of floats and containers, its \<open>float\<close>, its \<open>int\<close> and its JSON text are
  the fields of \<open>python\<close>.
\<close>

record python =
  py_shown :: "json \<Rightarrow> string"
  py_float :: "string \<Rightarrow> pyfloat option"
  py_int :: "string \<Rightarrow> int option"
  py_dumps :: "json \<Rightarrow> string"

datatype yaml_file = Bad_Yaml | Yaml json "json option"

record repository =
  rp_entries :: "(string \<times> bool) list"
  rp_files :: "(string \<times> yaml_file) list"
  rp_resolve :: "string \<Rightarrow> string option"
  rp_inside :: "string \<Rightarrow> bool"
  rp_text :: "string \<Rightarrow> string option"
  rp_package :: "json option"

section \<open>Mappings\<close>

fun dict_put :: "(string \<times> 'v) list \<Rightarrow> string \<Rightarrow> 'v \<Rightarrow> (string \<times> 'v) list" where
  "dict_put [] k v = [(k, v)]"
| "dict_put ((k', v') # kvs) k v = (if k' = k then (k, v) # kvs else (k', v') # dict_put kvs k v)"

definition dict_update :: "(string \<times> 'v) list \<Rightarrow> (string \<times> 'v) list \<Rightarrow> (string \<times> 'v) list" where
  "dict_update kvs extra = foldl (\<lambda>d (k, v). dict_put d k v) kvs extra"

definition texts_of :: "python \<Rightarrow> json option \<Rightarrow> (string \<times> string) list" where
  "texts_of py v = (case v of Some (JObj kvs) \<Rightarrow> map (\<lambda>(k, x). (k, py_str (py_shown py) x)) kvs | _ \<Rightarrow> [])"

definition on_spec_of :: "jobj \<Rightarrow> json option \<Rightarrow> json" where
  "on_spec_of data under_true =
     (case map_of data ''on'' of
        Some v \<Rightarrow> if truthy v then v else (case under_true of Some w \<Rightarrow> if truthy w then w else JObj [] | None \<Rightarrow> JObj [])
      | None \<Rightarrow> (case under_true of Some w \<Rightarrow> if truthy w then w else JObj [] | None \<Rightarrow> JObj []))"

section \<open>Inputs\<close>

definition quoted_text :: "string \<Rightarrow> string" where
  "quoted_text s = [CHR 0x27] @ concat (map (\<lambda>c. if c = CHR 0x27 then [CHR 0x27, CHR 0x27] else [c]) s) @ [CHR 0x27]"

fun is_true_default :: "json \<Rightarrow> bool" where
  "is_true_default (JBool b) \<longleftrightarrow> b"
| "is_true_default (JInt i) \<longleftrightarrow> i = 1"
| "is_true_default (JFloat x) \<longleftrightarrow> x = 1"
| "is_true_default (JStr s) \<longleftrightarrow> s = ''true'' \<or> s = ''True''"
| "is_true_default _ \<longleftrightarrow> False"

text \<open>\<open>float(default or 0)\<close>; \<open>None\<close> is an exception.\<close>

fun default_number :: "python \<Rightarrow> json \<Rightarrow> pyfloat option" where
  "default_number py (JInt i) = Some (Finite (of_int i))"
| "default_number py (JFloat x) = Some (Finite x)"
| "default_number py (JStr s) = (if s = [] then Some (Finite 0) else py_float py s)"
| "default_number py (JBool b) = Some (Finite (if b then 1 else 0))"
| "default_number py v = (if truthy v then None else Some (Finite 0))"

definition as_expression :: "python \<Rightarrow> json option \<Rightarrow> json \<Rightarrow> workflow_error + string" where
  "as_expression py declared_type dflt =
     (if (case dflt of JBool b \<Rightarrow> True | _ \<Rightarrow> False) \<or> declared_type = Some (JStr ''boolean'')
      then Inr (if is_true_default dflt then ''true'' else ''false'')
      else if declared_type = Some (JStr ''number'')
      then (case default_number py dflt of
              None \<Rightarrow> Inl (Workflow_Unsupported ''input default is declared a number and is not one'')
            | Some x \<Rightarrow> Inr (if float_eq x (Finite 0) then ''0'' else py_str (py_shown py) dflt))
      else Inr (quoted_text (if dflt = JNull then [] else py_str (py_shown py) dflt)))"

text \<open>The declarations of one trigger that carry a default.\<close>

definition declared_defaults :: "json \<Rightarrow> string \<Rightarrow> (string \<times> json option \<times> json) list" where
  "declared_defaults on_spec trigger =
     (case on_spec of
        JObj spec \<Rightarrow>
          (case map_of spec trigger of
             Some (JObj call) \<Rightarrow>
               (case map_of call ''inputs'' of
                  Some (JObj inputs) \<Rightarrow>
                    concat (map (\<lambda>(name, v). case v of
                                               JObj decl \<Rightarrow> (case map_of decl ''default'' of
                                                               Some d \<Rightarrow> [(name, map_of decl ''type'', d)]
                                                             | None \<Rightarrow> [])
                                             | _ \<Rightarrow> []) inputs)
                | _ \<Rightarrow> [])
           | _ \<Rightarrow> [])
      | _ \<Rightarrow> [])"

text \<open>
  The caller's inputs at their defaults: the first declaration of a name counts, but every default is
  read, so one that is no number is refused even where it would not count.
\<close>

definition caller_inputs :: "python \<Rightarrow> json \<Rightarrow> workflow_error + (string \<times> string) list" where
  "caller_inputs py on_spec =
     rbind (traverse (\<lambda>(name, kind, d). rbind (as_expression py kind d) (\<lambda>e. Inr (name, e)))
             (declared_defaults on_spec ''workflow_dispatch'' @ declared_defaults on_spec ''workflow_call''))
       (\<lambda>all. Inr (foldl (\<lambda>d (k, v). if map_of d k = None then d @ [(k, v)] else d) [] all))"

definition call_inputs :: "python \<Rightarrow> json \<Rightarrow> (string \<times> json option \<times> string) list" where
  "call_inputs py on_spec =
     map (\<lambda>(name, kind, d). (name, kind, py_str (py_shown py) d)) (declared_defaults on_spec ''workflow_call'')"

definition guard_inputs :: "python \<Rightarrow> (string \<times> json option \<times> string) list \<Rightarrow> workflow_error + (string \<times> string) list" where
  "guard_inputs py declared = traverse (\<lambda>(name, kind, v). rbind (as_expression py kind (JStr v)) (\<lambda>e. Inr (name, e))) declared"

definition plain_inputs :: "(string \<times> json option \<times> string) list \<Rightarrow> (string \<times> string) list" where
  "plain_inputs declared = map (\<lambda>(name, kind, v). (name, v)) declared"

section \<open>Substituting inputs\<close>

definition input_char :: "char \<Rightarrow> bool" where
  "input_char c \<longleftrightarrow> word_char c \<or> c = CHR ''-''"

definition input_name :: "string \<Rightarrow> string" where
  "input_name s = (if s \<noteq> [] \<and> letter (hd s) then takeWhile input_char s else [])"

text \<open>A read of an input after its opening braces: its name and what follows the closing braces.\<close>

definition close_braces :: "string \<Rightarrow> string \<Rightarrow> (string \<times> string) option" where
  "close_braces name s = (let t = dropWhile is_space s in if name \<noteq> [] \<and> prefix ''}}'' t then Some (name, drop 2 t) else None)"

definition read_input :: "string \<Rightarrow> (string \<times> string) option" where
  "read_input s =
     (let t = dropWhile is_space s in
      if prefix ''inputs.'' t
      then (let u = drop 7 t; name = input_name u in close_braces name (drop (length name) u))
      else if prefix ''inputs['' t
      then (let u = dropWhile is_space (drop 7 t) in
            if u \<noteq> [] \<and> is_quote (hd u)
            then (let name = input_name (tl u); v = drop (length name) (tl u) in
                  if v \<noteq> [] \<and> is_quote (hd v)
                  then (let w = dropWhile is_space (tl v) in if prefix '']'' w then close_braces name (tl w) else None)
                  else None)
            else None)
      else None)"

text \<open>A text as its reads of inputs and the characters around them.\<close>

lemma close_braces_suffix: "close_braces name s = Some (n, rest) \<Longrightarrow> suffix rest s"
  by (auto simp: close_braces_def Let_def split: if_splits) (meson suffix_drop suffix_dropWhile suffix_order.trans)

lemma read_input_suffix: "read_input s = Some (name, rest) \<Longrightarrow> suffix rest s"
  unfolding read_input_def Let_def
  by (auto dest!: close_braces_suffix split: if_splits)
    (meson suffix_drop suffix_dropWhile suffix_tl suffix_order.trans)+

function input_pieces :: "string \<Rightarrow> piece list" where
  "input_pieces [] = []"
| "input_pieces (c # s) =
     (if prefix ''${{'' (c # s)
      then (case read_input (drop 2 s) of
              Some (name, rest) \<Rightarrow> Expression name # input_pieces rest
            | None \<Rightarrow> Char c # input_pieces s)
      else Char c # input_pieces s)"
  by pat_completeness auto

termination
  by (relation "measure length") (auto dest!: read_input_suffix suffix_length_le)

declare input_pieces.simps(2) [simp del]

fun input_value :: "(string \<times> string) list \<Rightarrow> string \<Rightarrow> piece \<Rightarrow> workflow_error + string" where
  "input_value inputs ctx (Char c) = Inr [c]"
| "input_value inputs ctx (Expression name) =
     (case map_of inputs name of
        None \<Rightarrow> Inl (Workflow_Unsupported (ctx @ '' reads input '' @ name @ '', which the caller does not pass''))
      | Some v \<Rightarrow> Inr v)"

definition substitute_text :: "(string \<times> string) list \<Rightarrow> string \<Rightarrow> string \<Rightarrow> workflow_error + string" where
  "substitute_text inputs ctx s =
     rbind (traverse (input_value inputs ctx) (input_pieces s)) (\<lambda>ss. Inr (concat ss))"

lemma rbind_cong [fundef_cong]: "r = r' \<Longrightarrow> (\<And>x. r' = Inr x \<Longrightarrow> f x = g x) \<Longrightarrow> rbind r f = rbind r' g"
  by (cases r') auto

lemma traverse_cong [fundef_cong]: "xs = ys \<Longrightarrow> (\<And>x. x \<in> set ys \<Longrightarrow> f x = g x) \<Longrightarrow> traverse f xs = traverse g ys"
  by (induction ys arbitrary: xs) (auto intro: rbind_cong)

fun substitute_inputs :: "(string \<times> string) list \<Rightarrow> string \<Rightarrow> json \<Rightarrow> workflow_error + json" where
  "substitute_inputs inputs ctx (JStr s) = rbind (substitute_text inputs ctx s) (\<lambda>t. Inr (JStr t))"
| "substitute_inputs inputs ctx (JObj kvs) =
     rbind (traverse (\<lambda>(k, v). rbind (substitute_inputs inputs ctx v) (\<lambda>v'. Inr (k, v'))) kvs) (\<lambda>kvs'. Inr (JObj kvs'))"
| "substitute_inputs inputs ctx (JList vs) = rbind (traverse (substitute_inputs inputs ctx) vs) (\<lambda>vs'. Inr (JList vs'))"
| "substitute_inputs inputs ctx v = Inr v"

section \<open>Calls of reusable workflows\<close>

definition UNMAPPED_JOB_KEYS :: "(string \<times> string) list" where
  "UNMAPPED_JOB_KEYS =
     [(''needs'', ''job dependencies''), (''strategy'', ''matrix fan-out''), (''secrets'', ''secrets''),
      (''defaults'', ''step defaults''), (''container'', ''job container'')]"

definition condition_of :: "jobj \<Rightarrow> string option" where
  "condition_of raw_job =
     (case map_of raw_job ''if'' of
        Some (JBool b) \<Rightarrow> Some (if b then ''true'' else ''false'')
      | Some (JStr s) \<Rightarrow> Some s
      | _ \<Rightarrow> None)"

fun combined_condition :: "string option \<Rightarrow> string option \<Rightarrow> string option" where
  "combined_condition (Some caller) (Some called) = Some (''('' @ caller @ '') && ('' @ called @ '')'')"
| "combined_condition (Some caller) None = Some caller"
| "combined_condition None called = called"

definition substitute_job :: "(string \<times> string) list \<Rightarrow> (string \<times> string) list \<Rightarrow> string \<Rightarrow> json \<Rightarrow> workflow_error + json" where
  "substitute_job guards inputs ctx job =
     rbind (case job of
              JObj kvs \<Rightarrow>
                (case map_of kvs ''if'' of
                   Some (JStr g) \<Rightarrow> rbind (substitute_text guards ctx g) (\<lambda>g'. Inr (JObj (dict_put kvs ''if'' (JStr g'))))
                 | _ \<Rightarrow> Inr job)
            | _ \<Rightarrow> Inr job)
       (substitute_inputs inputs ctx)"

definition read_call ::
  "python \<Rightarrow> repository \<Rightarrow> string \<Rightarrow> string \<Rightarrow> string \<Rightarrow> json option \<Rightarrow> workflow_error + jobj \<times> (string \<times> string) list" where
  "read_call py repo called_path called job_id with_inputs =
     (case map_of (rp_files repo) called_path of
        Some (Yaml (JObj data) under_true) \<Rightarrow>
          (case map_of data ''jobs'' of
             Some (JObj called_jobs) \<Rightarrow>
               (let declared = call_inputs py (on_spec_of data under_true);
                    overrides = texts_of py with_inputs;
                    ctx = ''job '' @ job_id @ '' calls '' @ called
                in rbind (guard_inputs py declared) (\<lambda>guards0.
                   rbind (traverse (\<lambda>(name, v). rbind (as_expression py (case map_of declared name of Some (kind, _) \<Rightarrow> kind | None \<Rightarrow> None) (JStr v))
                                                  (\<lambda>e. Inr (name, e))) overrides) (\<lambda>guards1.
                   rbind (traverse (\<lambda>(key, job). rbind (substitute_job (dict_update guards0 guards1) (dict_update (plain_inputs declared) overrides) ctx job)
                                                   (\<lambda>job'. Inr (key, job'))) called_jobs) (\<lambda>substituted.
                     Inr (substituted, texts_of py (map_of data ''env''))))))
           | _ \<Rightarrow> Inl (Workflow_Unsupported (''job '' @ job_id @ '' calls '' @ called @ '', which defines no jobs'')))
      | Some (Yaml _ _) \<Rightarrow> Inl (Workflow_Unsupported (''job '' @ job_id @ '' calls '' @ called @ '', which defines no jobs''))
      | _ \<Rightarrow> Inl (Workflow_Unsupported (''job '' @ job_id @ '' calls '' @ called @ '', which cannot be read'')))"

text \<open>The workflow a job calls, when it calls one.\<close>

definition called_by :: "json \<Rightarrow> (jobj \<times> string) option" where
  "called_by raw_job =
     (case raw_job of
        JObj kvs \<Rightarrow> (case map_of kvs ''uses'' of Some (JStr called) \<Rightarrow> Some (kvs, called) | _ \<Rightarrow> None)
      | _ \<Rightarrow> None)"

definition call_target :: "repository \<Rightarrow> string list \<Rightarrow> string \<Rightarrow> jobj \<Rightarrow> string \<Rightarrow> workflow_error + string" where
  "call_target repo seen job_id raw_job called =
     (if \<not> prefix ''./'' called
      then Inl (Workflow_Unsupported (''job '' @ job_id @ '' calls the reusable workflow '' @ called @ '', which is not in this repository''))
      else case rp_resolve repo (removeprefix ''./'' called) of
             None \<Rightarrow> Inl (Workflow_Unsupported (''job '' @ job_id @ '' calls '' @ called @ '', which could not be resolved''))
           | Some called_path \<Rightarrow>
               if \<not> rp_inside repo called_path
               then Inl (Workflow_Unsupported (''job '' @ job_id @ '' calls '' @ called @ '', which reaches outside the repository''))
               else if called_path \<in> set seen
               then Inl (Workflow_Unsupported (''job '' @ job_id @ '' calls '' @ called @ '', which is already being read''))
               else case find (\<lambda>(key, _). map_of raw_job key \<noteq> None) UNMAPPED_JOB_KEYS of
                      Some (key, what) \<Rightarrow>
                        Inl (Workflow_Unsupported (''job '' @ job_id @ '' calls a reusable workflow and declares '' @ what))
                    | None \<Rightarrow> Inr called_path)"

text \<open>One job of the called workflow under the calling job: its environment and both guards.\<close>

definition inline_job ::
  "(string \<times> string) list option \<Rightarrow> string \<Rightarrow> jobj \<Rightarrow> (string \<times> string) list \<Rightarrow> jobj \<Rightarrow> workflow_error + json" where
  "inline_job inputs job_id raw_job called_env called_job =
     rbind (case map_of called_job ''env'' of
              Some (JObj env) \<Rightarrow> Inr env
            | Some v \<Rightarrow> if truthy v then Inl (Python_Error ''TypeError'') else Inr []
            | None \<Rightarrow> Inr []) (\<lambda>own_env.
     rbind (case (condition_of raw_job, inputs) of
              (Some guard, Some ins) \<Rightarrow> rbind (substitute_text ins (''the if of job '' @ job_id) guard) (\<lambda>g. Inr (Some g))
            | (guard, _) \<Rightarrow> Inr guard) (\<lambda>guard.
       Inr (JObj (dict_put (dict_put called_job ''env'' (JObj (dict_update (map (\<lambda>(k, v). (k, JStr v)) called_env) own_env)))
              ''if'' (case combined_condition guard (condition_of called_job) of Some c \<Rightarrow> JStr c | None \<Rightarrow> JNull)))))"

definition inline_jobs ::
  "(string \<times> string) list option \<Rightarrow> string \<Rightarrow> jobj \<Rightarrow> (string \<times> string) list \<Rightarrow> jobj \<Rightarrow> workflow_error + jobj" where
  "inline_jobs inputs job_id raw_job called_env called_jobs =
     rbind (traverse (\<lambda>(called_id, called_job).
              case called_job of
                JObj kvs \<Rightarrow> rbind (inline_job inputs job_id raw_job called_env kvs) (\<lambda>m. Inr [(job_id @ ''/'' @ called_id, m)])
              | _ \<Rightarrow> Inr []) called_jobs) (\<lambda>js. Inr (concat js))"

lemma read_call_file: "read_call py repo p called j w = Inr x \<Longrightarrow> p \<in> fst ` set (rp_files repo)"
  by (auto simp: read_call_def image_iff split: option.splits dest!: map_of_SomeD) force

lemma call_target_new: "call_target repo seen j kvs called = Inr p \<Longrightarrow> p \<notin> set seen"
  by (auto simp: call_target_def split: if_splits option.splits)

lemma fewer_files:
  assumes "p \<in> fst ` set files" and "p \<notin> set seen"
  shows "card (fst ` set files - set (p # seen)) < card (fst ` set files - set seen)"
  using assms by (intro psubset_card_mono) auto

text \<open>\<open>expand_calls\<close> follows a call only into a file that is not being read, so its depth is bounded by the files.\<close>

function expand_calls ::
  "python \<Rightarrow> repository \<Rightarrow> string list \<Rightarrow> (string \<times> string) list option \<Rightarrow> jobj \<Rightarrow> jobj \<Rightarrow> workflow_error + jobj" where
  "expand_calls py repo seen inputs expanded [] = Inr expanded"
| "expand_calls py repo seen inputs expanded ((job_id, raw_job) # rest) =
     (case called_by raw_job of
        None \<Rightarrow> expand_calls py repo seen inputs (dict_put expanded job_id raw_job) rest
      | Some (kvs, called) \<Rightarrow>
          rbind (call_target repo seen job_id kvs called) (\<lambda>called_path.
          rbind (read_call py repo called_path called job_id (map_of kvs ''with'')) (\<lambda>(called_jobs, called_env).
          rbind (expand_calls py repo (called_path # seen) None [] called_jobs) (\<lambda>inner.
          rbind (inline_jobs inputs job_id kvs called_env inner) (\<lambda>js.
            expand_calls py repo seen inputs (dict_update expanded js) rest)))))"
  by pat_completeness auto

termination
  by (relation "measures [\<lambda>(_, repo, seen, _, _, _). card (fst ` set (rp_files repo) - set seen), \<lambda>(_, _, _, _, _, jobs). length jobs]")
    (auto dest!: read_call_file call_target_new intro: fewer_files [simplified])

section \<open>Files\<close>

record workflow_job =
  wj_id :: string
  wj_name :: string
  wj_runs_on :: "string list"
  wj_steps :: "jobj list"
  wj_env :: "(string \<times> string) list"
  wj_services :: "service list"
  wj_timeout_minutes :: "int option"
  wj_unmapped :: "string list"
  wj_condition :: "string option"

record workflow =
  wf_path :: string
  wf_name :: string
  wf_on :: json
  wf_jobs :: "(string \<times> workflow_job) list"

definition read_runs_on :: "python \<Rightarrow> jobj \<Rightarrow> string list" where
  "read_runs_on py raw_job =
     (case get_or raw_job ''runs-on'' (JStr ''ubuntu-latest'') of
        JStr s \<Rightarrow> [s]
      | JList items \<Rightarrow> map (py_str (py_shown py)) items
      | _ \<Rightarrow> [''ubuntu-latest''])"

definition read_services :: "python \<Rightarrow> jobj \<Rightarrow> service list" where
  "read_services py raw_job =
     (case map_of raw_job ''services'' of
        Some (JObj svcs) \<Rightarrow>
          concat (map (\<lambda>(name, v). case v of
                                     JObj d \<Rightarrow> (case map_of d ''image'' of
                                                  Some img \<Rightarrow> [\<lparr>sv_name = lower name, sv_image = strip (py_str (py_shown py) img),
                                                               sv_env = texts_of py (map_of d ''env''), sv_command = [], sv_health_cmd = None\<rparr>]
                                                | None \<Rightarrow> [])
                                   | _ \<Rightarrow> []) svcs)
      | _ \<Rightarrow> [])"

definition read_steps :: "jobj \<Rightarrow> jobj list" where
  "read_steps raw_job =
     (case map_of raw_job ''steps'' of
        Some (JList items) \<Rightarrow> concat (map (\<lambda>s. case s of JObj kvs \<Rightarrow> [kvs] | _ \<Rightarrow> []) items)
      | _ \<Rightarrow> [])"

definition read_timeout :: "python \<Rightarrow> string \<Rightarrow> jobj \<Rightarrow> workflow_error + int option" where
  "read_timeout py job_id raw_job =
     (let refused = Inl (Workflow_Error (''job '' @ job_id @ '' timeout-minutes must be a positive integer''));
          checked = (\<lambda>n. if n \<le> 0 then refused else Inr (Some n))
      in case get_or raw_job ''timeout-minutes'' JNull of
           JNull \<Rightarrow> Inr None
         | JInt n \<Rightarrow> checked n
         | JStr s \<Rightarrow> (case py_int py s of Some n \<Rightarrow> checked n | None \<Rightarrow> refused)
         | _ \<Rightarrow> refused)"

definition read_job :: "python \<Rightarrow> (string \<times> string) list \<Rightarrow> string \<Rightarrow> jobj \<Rightarrow> workflow_error + workflow_job" where
  "read_job py workflow_env job_id raw_job =
     rbind (read_timeout py job_id raw_job) (\<lambda>timeout.
       Inr \<lparr>wj_id = job_id, wj_name = py_str (py_shown py) (get_or raw_job ''name'' (JStr job_id)), wj_runs_on = read_runs_on py raw_job,
            wj_steps = read_steps raw_job, wj_env = dict_update workflow_env (texts_of py (map_of raw_job ''env'')),
            wj_services = read_services py raw_job, wj_timeout_minutes = timeout,
            wj_unmapped = filter (\<lambda>key. map_of raw_job key \<noteq> None) (map fst UNMAPPED_JOB_KEYS),
            wj_condition = condition_of raw_job\<rparr>)"

definition WORKFLOWS :: string where "WORKFLOWS = ''.github/workflows/''"

definition is_workflow_file :: "string \<times> bool \<Rightarrow> bool" where
  "is_workflow_file entry \<longleftrightarrow>
     snd entry \<and> (suffix ''.yml'' (fst entry) \<or> suffix ''.yaml'' (fst entry)) \<and> \<not> prefix ''.'' (fst entry)"

definition workflow_files :: "repository \<Rightarrow> string list" where
  "workflow_files repo = sort (map fst (filter is_workflow_file (rp_entries repo)))"

definition file_stem :: "string \<Rightarrow> string" where
  "file_stem name = rev (tl (dropWhile (\<lambda>c. c \<noteq> CHR ''.'') (rev name)))"

definition parse_workflow :: "python \<Rightarrow> repository \<Rightarrow> string \<Rightarrow> workflow_error + workflow" where
  "parse_workflow py repo name =
     (case rp_resolve repo (WORKFLOWS @ name) of
        None \<Rightarrow> Inl (Python_Error ''OSError'')
      | Some path \<Rightarrow>
          (case map_of (rp_files repo) path of
             Some (Yaml (JObj data) under_true) \<Rightarrow>
               (let on_spec = on_spec_of data under_true;
                    workflow_env = texts_of py (map_of data ''env'')
                in case map_of data ''jobs'' of
                     Some (JObj (raw # raws)) \<Rightarrow>
                       rbind (caller_inputs py on_spec) (\<lambda>inputs.
                       rbind (expand_calls py repo [path] (Some inputs) [] (raw # raws)) (\<lambda>raw_jobs.
                       rbind (traverse (\<lambda>(job_id, v). case v of
                                                        JObj kvs \<Rightarrow> rbind (read_job py workflow_env job_id kvs) (\<lambda>j. Inr [(job_id, j)])
                                                      | _ \<Rightarrow> Inr []) raw_jobs) (\<lambda>jobs.
                         Inr \<lparr>wf_path = name, wf_name = py_str (py_shown py) (get_or data ''name'' (JStr (file_stem name))),
                              wf_on = on_spec, wf_jobs = concat jobs\<rparr>)))
                   | _ \<Rightarrow> Inl (Workflow_Error (''workflow '' @ name @ '' must define at least one job'')))
           | Some (Yaml _ _) \<Rightarrow> Inl (Workflow_Error (''workflow '' @ name @ '' must be a YAML mapping''))
           | _ \<Rightarrow> Inl (Workflow_Error (''invalid workflow YAML in '' @ name))))"

fun is_workflow_error :: "workflow_error \<Rightarrow> bool" where
  "is_workflow_error (Workflow_Error _) \<longleftrightarrow> True"
| "is_workflow_error (Workflow_No_Match _) \<longleftrightarrow> True"
| "is_workflow_error (Workflow_Unsupported _) \<longleftrightarrow> True"
| "is_workflow_error (Workflow_Ambiguous _) \<longleftrightarrow> True"
| "is_workflow_error _ \<longleftrightarrow> False"

fun collect_workflows :: "(string \<Rightarrow> workflow_error + workflow) \<Rightarrow> string list \<Rightarrow> workflow_error + workflow list \<times> (string \<times> workflow_error) list" where
  "collect_workflows parse [] = Inr ([], [])"
| "collect_workflows parse (name # names) =
     (case parse name of
        Inr w \<Rightarrow> rbind (collect_workflows parse names) (\<lambda>(ws, broken). Inr (w # ws, broken))
      | Inl (Workflow_Unsupported m) \<Rightarrow> Inl (Workflow_Unsupported m)
      | Inl e \<Rightarrow>
          if is_workflow_error e then rbind (collect_workflows parse names) (\<lambda>(ws, broken). Inr (ws, (name, e) # broken)) else Inl e)"

definition parseable_workflows :: "python \<Rightarrow> repository \<Rightarrow> workflow_error + workflow list \<times> (string \<times> workflow_error) list" where
  "parseable_workflows py repo = collect_workflows (parse_workflow py repo) (workflow_files repo)"

section \<open>Expansion\<close>

text \<open>No job of an expanded workflow is a call, however the called workflows call each other.\<close>

lemma dict_put_in: "x \<in> set (dict_put kvs k v) \<Longrightarrow> x = (k, v) \<or> x \<in> set kvs"
  by (induction kvs) (auto split: if_splits)

lemma dict_update_in: "x \<in> set (dict_update kvs extra) \<Longrightarrow> x \<in> set kvs \<or> x \<in> set extra"
  unfolding dict_update_def by (induction extra arbitrary: kvs) (auto dest!: dict_put_in)

lemma map_of_dict_put: "map_of (dict_put kvs k v) = (map_of kvs)(k \<mapsto> v)"
  by (induction kvs) auto

lemma called_by_None: "called_by (JObj kvs) = None \<longleftrightarrow> (\<forall>called. map_of kvs ''uses'' \<noteq> Some (JStr called))"
  by (simp add: called_by_def split: option.split json.split)

lemma inline_job_no_call:
  assumes "inline_job inputs j raw env called_job = Inr m" and "called_by (JObj called_job) = None"
  shows "called_by m = None"
  using assms by (auto simp: inline_job_def rbind_Inr_conv called_by_None map_of_dict_put)

lemma inline_jobs_in:
  assumes "inline_jobs inputs j raw env called = Inr js" and "(k, m) \<in> set js"
  obtains i kvs where "(i, JObj kvs) \<in> set called" "k = j @ ''/'' @ i" "inline_job inputs j raw env kvs = Inr m"
proof -
  obtain jss where t: "traverse (\<lambda>(called_id, called_job). case called_job of
                JObj kvs \<Rightarrow> rbind (inline_job inputs j raw env kvs) (\<lambda>m. Inr [(j @ ''/'' @ called_id, m)])
              | _ \<Rightarrow> Inr []) called = Inr jss" and js: "js = concat jss"
    using assms(1) by (auto simp: inline_jobs_def rbind_Inr_conv)
  from assms(2) js obtain ms where "ms \<in> set jss" "(k, m) \<in> set ms" by auto
  then obtain i v where "(i, v) \<in> set called" "(case v of
                JObj kvs \<Rightarrow> rbind (inline_job inputs j raw env kvs) (\<lambda>m. Inr [(j @ ''/'' @ i, m)])
              | _ \<Rightarrow> Inr []) = Inr ms"
    using traverse_in [OF t] by fastforce
  with \<open>(k, m) \<in> set ms\<close> show ?thesis using that by (auto simp: rbind_Inr_conv split: json.splits)
qed

lemma expand_calls_no_call:
  assumes "expand_calls py repo seen inputs expanded jobs = Inr js" and "\<forall>(k, v) \<in> set expanded. called_by v = None"
  shows "\<forall>(k, v) \<in> set js. called_by v = None"
  using assms
proof (induction py repo seen inputs expanded jobs arbitrary: js rule: expand_calls.induct)
  case (2 py repo seen inputs expanded job_id raw_job rest)
  show ?case
  proof (cases "called_by raw_job")
    case None
    then show ?thesis using 2 by (auto dest!: dict_put_in)
  next
    case (Some c)
    obtain kvs called where c: "c = (kvs, called)" by (cases c)
    obtain p called_jobs env inner ms where steps: "call_target repo seen job_id kvs called = Inr p"
        "read_call py repo p called job_id (map_of kvs ''with'') = Inr (called_jobs, env)"
        "expand_calls py repo (p # seen) None [] called_jobs = Inr inner"
        "inline_jobs inputs job_id kvs env inner = Inr ms"
        "expand_calls py repo seen inputs (dict_update expanded ms) rest = Inr js"
      using 2(4) Some c by (auto simp: rbind_Inr_conv)
    have inner: "\<forall>(k, v) \<in> set inner. called_by v = None"
      using 2(2) [OF Some [unfolded c] refl steps(1,2) refl steps(3)] by simp
    have "called_by m = None" if "(k, m) \<in> set ms" for k m
      by (rule inline_jobs_in [OF steps(4) that]) (use inner inline_job_no_call in fastforce)
    then have "\<forall>(k, v) \<in> set (dict_update expanded ms). called_by v = None" using 2(5) by (auto dest!: dict_update_in)
    then show ?thesis using 2(3) [OF Some [unfolded c] refl steps(1,2) refl steps(3,4,5)] by blast
  qed
qed simp

end
