(* ===== verification/Toolchain_Install.thy ===== *)
theory Toolchain_Install
  imports Workflow_Jobs
begin

text \<open>
  The install a setup action becomes (\<open>toolchain.py\<close>): which actions and inputs are understood, the
  version a step pins, directly, by an expression or by a file of the repository, and the shell commands
  that install it. The version is written into a command without quoting, so what a version may contain
  is what keeps a workflow's text out of the shell.
\<close>

section \<open>Versions\<close>

definition digits :: "string \<Rightarrow> bool" where
  "digits s \<longleftrightarrow> s \<noteq> [] \<and> list_all digit s"

definition without_v :: "string \<Rightarrow> string" where
  "without_v s = (case s of c # t \<Rightarrow> if c = CHR ''v'' then t else s | [] \<Rightarrow> [])"

definition exact_version :: "string \<Rightarrow> bool" where
  "exact_version s \<longleftrightarrow> list_all digits (split_char (CHR ''.'') (without_v s))"

definition release_line :: "string \<Rightarrow> bool" where
  "release_line s \<longleftrightarrow> exact_version s \<and> length (split_char (CHR ''.'') (without_v s)) \<le> 3"

definition python_version :: "string \<Rightarrow> bool" where
  "python_version s \<longleftrightarrow>
     (let parts = split_char (CHR ''.'') s in hd parts = ''3'' \<and> length parts \<in> {2, 3} \<and> list_all digits (tl parts))"

definition python_line :: "string \<Rightarrow> bool" where
  "python_line s \<longleftrightarrow> (let parts = split_char (CHR ''.'') s in hd parts = ''3'' \<and> length parts = 2 \<and> list_all digits (tl parts))"

text \<open>Three numbers joined by dots at the start of a text, and what follows them.\<close>

definition three_numbers :: "string \<Rightarrow> (string \<times> string) option" where
  "three_numbers s =
     (let a = takeWhile digit s; s1 = drop (length a) s;
          b = takeWhile digit (tl s1); s2 = drop (length b) (tl s1);
          c = takeWhile digit (tl s2); rest = drop (length c) (tl s2)
      in if a \<noteq> [] \<and> b \<noteq> [] \<and> c \<noteq> [] \<and> prefix ''.'' s1 \<and> prefix ''.'' s2
         then Some (a @ ''.'' @ b @ ''.'' @ c, rest) else None)"

definition pnpm_char :: "char \<Rightarrow> bool" where
  "pnpm_char c \<longleftrightarrow> is_alnum c \<or> c \<in> {CHR ''.'', CHR ''+'', CHR ''-''}"

definition pnpm_version :: "string \<Rightarrow> bool" where
  "pnpm_version s \<longleftrightarrow>
     (case three_numbers s of
        None \<Rightarrow> False
      | Some (_, rest) \<Rightarrow>
          rest = [] \<or> (hd rest \<in> {CHR ''-'', CHR ''+''} \<and> tl rest \<noteq> [] \<and> list_all pnpm_char (tl rest)))"

text \<open>The version a \<open>packageManager\<close> field names: it ends at the integrity hash.\<close>

definition package_manager_version :: "string \<Rightarrow> string option" where
  "package_manager_version s =
     (if \<not> prefix ''pnpm@'' s then None
      else let t = drop 5 s; v = (if prefix ''v'' t then ''v'' else [])
           in case three_numbers (drop (length v) t) of
                None \<Rightarrow> None
              | Some (n, rest) \<Rightarrow>
                  (let tail = (case rest of
                                 c # r \<Rightarrow> (let w = takeWhile (\<lambda>x. is_alnum x \<or> x = CHR ''.'' \<or> x = CHR ''-'') r
                                           in if c = CHR ''-'' \<and> w \<noteq> [] then c # w else [])
                               | [] \<Rightarrow> [])
                   in Some (v @ n @ tail)))"

section \<open>Version files\<close>

definition line_break :: "char \<Rightarrow> bool" where
  "line_break c \<longleftrightarrow> (of_char c :: nat) \<in> {10, 11, 12, 13, 28, 29, 30, 133}"

fun lines_of :: "string \<Rightarrow> string list" where
  "lines_of [] = [[]]"
| "lines_of (c # s) = (if line_break c then [] # lines_of s else (c # hd (lines_of s)) # tl (lines_of s))"

text \<open>A directive at the start of a line; the space in it may run over line ends.\<close>

definition go_directive_at :: "string \<Rightarrow> string option" where
  "go_directive_at s =
     (if \<not> prefix ''go'' s then None
      else let t = drop 2 s; u = dropWhile is_space t;
               v = takeWhile (\<lambda>c. \<not> is_space c) u;
               rest = dropWhile (\<lambda>c. is_space c \<and> c \<noteq> CHR 0x0A) (drop (length v) u);
               parts = split_char (CHR ''.'') (without_v v)
           in if u \<noteq> t \<and> list_all digits parts \<and> length parts \<in> {2, 3} \<and> (rest = [] \<or> hd rest = CHR 0x0A) then Some v else None)"

fun find_directive :: "bool \<Rightarrow> string \<Rightarrow> string option" where
  "find_directive at_start [] = None"
| "find_directive at_start (c # s) =
     (case (if at_start then go_directive_at (c # s) else None) of
        Some v \<Rightarrow> Some v
      | None \<Rightarrow> find_directive (c = CHR 0x0A) s)"

fun before_comment :: "string \<Rightarrow> string" where
  "before_comment [] = []"
| "before_comment (c # s) = (if prefix ''//'' (c # s) then [] else c # before_comment s)"

definition version_of_text :: "string \<Rightarrow> string option" where
  "version_of_text txt =
     (case find_directive True txt of
        Some v \<Rightarrow> Some v
      | None \<Rightarrow> find exact_version (map (\<lambda>l. strip (before_comment l)) (lines_of txt)))"

definition go_version_file :: "repository option \<Rightarrow> string option \<Rightarrow> workflow_error + string option" where
  "go_version_file repo path =
     (case path of
        None \<Rightarrow> Inr None
      | Some p \<Rightarrow>
          (let refused = (\<lambda>why. Inl (Workflow_Unsupported (''actions/setup-go reads go-version-file '' @ p @ '', which '' @ why))) in
           case repo of
             None \<Rightarrow> refused ''this translation cannot read''
           | Some r \<Rightarrow>
               (case rp_resolve r p of
                  None \<Rightarrow> refused ''could not be resolved''
                | Some target \<Rightarrow>
                    if \<not> rp_inside r target then refused ''reaches outside the repository''
                    else (case rp_text r target of
                            None \<Rightarrow> refused ''could not be read''
                          | Some txt \<Rightarrow>
                              (case version_of_text txt of
                                 Some v \<Rightarrow> Inr (Some v)
                               | None \<Rightarrow> refused ''names no Go version'')))))"

section \<open>Inputs\<close>

definition SETUP_ACTIONS :: "string list" where
  "SETUP_ACTIONS = [''actions/setup-go'', ''actions/setup-node'', ''actions/setup-python'', ''pnpm/action-setup'']"

definition VERSION_INPUTS :: "(string \<times> string list) list" where
  "VERSION_INPUTS =
     [(''actions/setup-go'', [''go-version'', ''go-version-file'']), (''actions/setup-node'', [''node-version'']),
      (''actions/setup-python'', [''python-version'']), (''pnpm/action-setup'', [''version''])]"

definition CACHE_INPUTS :: "string list" where "CACHE_INPUTS = [''cache'', ''cache-dependency-path'']"

definition CACHE_ACTIONS :: "string list" where
  "CACHE_ACTIONS = [''actions/setup-go'', ''actions/setup-node'', ''actions/setup-python'']"

definition action_name :: "python \<Rightarrow> jobj \<Rightarrow> string option" where
  "action_name py step =
     (case get_or step ''uses'' JNull of JNull \<Rightarrow> None | v \<Rightarrow> Some (strip (before (CHR ''@'') (py_str (py_shown py) v))))"

definition is_setup_action :: "python \<Rightarrow> jobj \<Rightarrow> bool" where
  "is_setup_action py step \<longleftrightarrow> (case action_name py step of None \<Rightarrow> False | Some n \<Rightarrow> n \<in> set SETUP_ACTIONS)"

type_synonym expander = "string \<Rightarrow> string \<Rightarrow> workflow_error + string"

definition setup_input :: "python \<Rightarrow> jobj \<Rightarrow> expander option \<Rightarrow> string \<Rightarrow> workflow_error + string option" where
  "setup_input py inputs ex name =
     (case get_or inputs name JNull of
        JNull \<Rightarrow> Inr None
      | v \<Rightarrow>
          (let txt = strip (py_str (py_shown py) v) in
           if txt = [] then Inr None
           else if sublist ''${{'' txt
           then (case ex of
                   None \<Rightarrow> Inl (Workflow_Unsupported (''input '' @ name @ '' reads an expression this run cannot resolve''))
                 | Some f \<Rightarrow> rbind (f txt name) (\<lambda>t. Inr (Some (strip t))))
           else Inr (Some txt)))"

section \<open>Commands\<close>

record toolchain =
  tc_action :: string
  tc_tool :: string
  tc_version :: string
  tc_commands :: "string list"

definition ARCH :: string where
  \<open>ARCH = ''a=$(uname -m) && case "$a" in x86_64) g=amd64; n=x64; p=amd64 ;; aarch64|arm64) g=arm64; n=arm64; p=arm64 ;; '' @
     ''*) echo "cindral: no release for architecture $a" >&2; exit 1 ;; esac''\<close>

definition FETCH :: string where
  "FETCH = ''apt-get update -qq && apt-get install -y -qq --no-install-recommends ca-certificates curl''"

definition quote_char :: string where "quote_char = [CHR 0x27]"
definition backslash :: string where "backslash = [CHR 0x5C]"

definition escape_dots :: "string \<Rightarrow> string" where
  "escape_dots s = concat (map (\<lambda>c. if c = CHR ''.'' then backslash @ [c] else [c]) s)"

definition count_dots :: "string \<Rightarrow> nat" where
  "count_dots s = length (filter (\<lambda>c. c = CHR ''.'') s)"

definition go_commands :: "string \<Rightarrow> string list" where
  \<open>go_commands version =
     (let resolved = (count_dots version \<noteq> 2);
          release = (if \<not> resolved then ''go'' @ version
                     else ''$(curl -fsSL '' @ quote_char @ ''https://go.dev/dl/?mode=json&include=all'' @ quote_char @ '' | grep -oE '' @ quote_char @
                          ''"version": "go'' @ escape_dots version @ backslash @ ''.[0-9]+"'' @ quote_char @ '' | head -1 | cut -d'' @ quote_char @ ''"'' @ quote_char @ '' -f4)'');
          install = ARCH @ '' && curl -fsSL "https://go.dev/dl/'' @ release @ ''.linux-$g.tar.gz" | tar -xz -C /usr/local '' @
                    ''&& ln -sf /usr/local/go/bin/go /usr/local/bin/go && ln -sf /usr/local/go/bin/gofmt /usr/local/bin/gofmt && go version''
      in if resolved
         then [FETCH, ARCH @ '' && [ -n "'' @ release @ ''" ] || { echo "cindral: no Go release published for line '' @ version @ ''" >&2; exit 1; }'', install]
         else [FETCH, install])\<close>

definition node_file :: string where
  \<open>node_file = ''| awk -v a="linux-$n.tar.gz" '' @ quote_char @ ''$2 ~ a"$" {print $2; exit}'' @ quote_char @ '') ''\<close>

definition node_install :: "string \<Rightarrow> string \<Rightarrow> string list" where
  \<open>node_install directory label =
     [FETCH,
      ARCH @ '' && sums=$(curl -fsSL "https://nodejs.org/dist/'' @ directory @ ''/SHASUMS256.txt") || { echo "cindral: no Node release published for '' @ label @
      ''" >&2; exit 1; }; file=$(printf '' @ quote_char @ ''%s'' @ backslash @ ''n'' @ quote_char @ '' "$sums" '' @ node_file @
      ''&& [ -n "$file" ] && curl -fsSL "https://nodejs.org/dist/'' @ directory @ ''/$file" | tar -xz -C /usr/local --strip-components=1 && node --version'']\<close>

definition node_install_from_index :: "string \<Rightarrow> string list" where
  \<open>node_install_from_index version =
     [FETCH,
      ARCH @ '' && release=$(curl -fsSL https://nodejs.org/dist/index.json | grep -oE '' @ quote_char @ ''"version":"v'' @ escape_dots version @ backslash @
      ''.[0-9]+"'' @ quote_char @ '' | head -1 | cut -d'' @ quote_char @ ''"'' @ quote_char @ '' -f4) && [ -n "$release" ] || { echo "cindral: no Node release published for line '' @
      version @ ''" >&2; exit 1; } && dir="https://nodejs.org/dist/$release" && file=$(curl -fsSL "$dir/SHASUMS256.txt" '' @ node_file @
      ''&& [ -n "$file" ] && curl -fsSL "$dir/$file" | tar -xz -C /usr/local --strip-components=1 && node --version'']\<close>

definition node_commands :: "string \<Rightarrow> string list" where
  "node_commands version =
     (if count_dots version = 2 then node_install (''v'' @ version) (''version '' @ version)
      else if CHR ''.'' \<in> set version then node_install_from_index version
      else node_install (''latest-v'' @ version @ ''.x'') (''line '' @ version))"

definition python_commands :: "string \<Rightarrow> string list" where
  \<open>python_commands version =
     [FETCH @ '' && apt-get install -y -qq --no-install-recommends gnupg'',
      ''mkdir -p /etc/apt/keyrings && curl -fsSL '' @ quote_char @
      ''https://keyserver.ubuntu.com/pks/lookup?op=get&search=0xF23C5A6CF475977595C89F51BA6932366A755776'' @ quote_char @
      '' -o /etc/apt/keyrings/deadsnakes.asc && . /etc/os-release && printf "deb [signed-by=/etc/apt/keyrings/deadsnakes.asc] '' @
      ''https://ppa.launchpadcontent.net/deadsnakes/ppa/ubuntu/ $UBUNTU_CODENAME main'' @ backslash @ ''n" '' @
      ''> /etc/apt/sources.list.d/cindral-deadsnakes.list && apt-get update -qq'',
      ''apt-get install -y -qq --no-install-recommends python'' @ version @ '' python'' @ version @
      ''-venv && curl -fsSL https://bootstrap.pypa.io/get-pip.py | python'' @ version @ '' - --break-system-packages '' @
      ''&& ln -sf /usr/bin/python'' @ version @ '' /usr/local/bin/python3 && ln -sf /usr/bin/python'' @ version @
      '' /usr/local/bin/python && python --version'']\<close>

definition pnpm_commands :: "string \<Rightarrow> string list" where
  \<open>pnpm_commands version =
     [FETCH,
      ARCH @ '' && curl -fsSL "https://github.com/pnpm/pnpm/releases/download/v'' @ version @ ''/pnpm-linux-$p.tar.gz" '' @
      ''| tar -xz -C /usr/local/bin && pnpm --version'']\<close>

section \<open>The install of a step\<close>

definition setup_go :: "python \<Rightarrow> jobj \<Rightarrow> repository option \<Rightarrow> expander option \<Rightarrow> workflow_error + toolchain" where
  "setup_go py inputs repo ex =
     rbind (setup_input py inputs ex ''go-version'') (\<lambda>pinned.
     rbind (case pinned of
              Some v \<Rightarrow> Inr (Some v)
            | None \<Rightarrow> rbind (setup_input py inputs ex ''go-version-file'') (go_version_file repo)) (\<lambda>version.
       case version of
         None \<Rightarrow> Inl (Workflow_Unsupported ''actions/setup-go sets no go-version, and no go-version-file names one either'')
       | Some v \<Rightarrow>
           if \<not> exact_version v then Inl (Workflow_Unsupported (''actions/setup-go pins go-version '' @ v @ '', which names no release''))
           else Inr \<lparr>tc_action = ''actions/setup-go'', tc_tool = ''go'', tc_version = without_v v, tc_commands = go_commands (without_v v)\<rparr>))"

definition setup_node :: "python \<Rightarrow> jobj \<Rightarrow> expander option \<Rightarrow> workflow_error + toolchain" where
  "setup_node py inputs ex =
     rbind (setup_input py inputs ex ''node-version'') (\<lambda>version.
       case version of
         None \<Rightarrow> Inl (Workflow_Unsupported ''actions/setup-node sets no node-version'')
       | Some v \<Rightarrow>
           if \<not> release_line v then Inl (Workflow_Unsupported (''actions/setup-node pins node-version '' @ v @ '', which names no release line''))
           else Inr \<lparr>tc_action = ''actions/setup-node'', tc_tool = ''node'', tc_version = without_v v, tc_commands = node_commands (without_v v)\<rparr>)"

definition setup_python :: "python \<Rightarrow> jobj \<Rightarrow> expander option \<Rightarrow> workflow_error + toolchain" where
  "setup_python py inputs ex =
     rbind (setup_input py inputs ex ''python-version'') (\<lambda>version.
       case version of
         None \<Rightarrow> Inl (Workflow_Unsupported ''actions/setup-python sets no python-version'')
       | Some v \<Rightarrow>
           if \<not> python_version v then Inl (Workflow_Unsupported (''actions/setup-python pins python-version '' @ v @ '', which names no release line''))
           else if \<not> python_line v then Inl (Workflow_Unsupported (''actions/setup-python pins python-version '' @ v @ '', which names a patch release''))
           else Inr \<lparr>tc_action = ''actions/setup-python'', tc_tool = ''python'', tc_version = v, tc_commands = python_commands v\<rparr>)"

definition package_manager :: "python \<Rightarrow> repository option \<Rightarrow> string option" where
  "package_manager py repo =
     (case repo of
        None \<Rightarrow> None
      | Some r \<Rightarrow>
          (case rp_package r of
             Some (JObj kvs) \<Rightarrow>
               (let declared = get_or kvs ''packageManager'' JNull
                in package_manager_version (if truthy declared then py_str (py_shown py) declared else []))
           | _ \<Rightarrow> None))"

definition setup_pnpm :: "python \<Rightarrow> jobj \<Rightarrow> repository option \<Rightarrow> workflow_error + toolchain" where
  "setup_pnpm py inputs repo =
     rbind (setup_input py inputs None ''version'') (\<lambda>pinned.
       case (case pinned of Some v \<Rightarrow> Some v | None \<Rightarrow> package_manager py repo) of
         None \<Rightarrow> Inl (Workflow_Unsupported ''pnpm/action-setup sets no version, and no packageManager field names one either'')
       | Some v \<Rightarrow>
           if \<not> pnpm_version v then Inl (Workflow_Unsupported (''pnpm/action-setup pins version '' @ v @ '', which names no release''))
           else Inr \<lparr>tc_action = ''pnpm/action-setup'', tc_tool = ''pnpm'', tc_version = v, tc_commands = pnpm_commands v\<rparr>)"

definition toolchain_for :: "python \<Rightarrow> jobj \<Rightarrow> repository option \<Rightarrow> expander option \<Rightarrow> workflow_error + toolchain option" where
  "toolchain_for py step repo ex =
     (case action_name py step of
        None \<Rightarrow> Inr None
      | Some name \<Rightarrow>
          if name \<notin> set SETUP_ACTIONS then Inr None
          else
            (let inputs = (case map_of step ''with'' of Some (JObj kvs) \<Rightarrow> kvs | _ \<Rightarrow> []);
                 versions = (case map_of VERSION_INPUTS name of Some ns \<Rightarrow> ns | None \<Rightarrow> [])
             in case find (\<lambda>(key, _). key \<notin> set versions \<and> \<not> (key \<in> set CACHE_INPUTS \<and> name \<in> set CACHE_ACTIONS)) inputs of
                  Some (key, _) \<Rightarrow> Inl (Workflow_Unsupported (name @ '' sets input '' @ key @ '', which Cindral does not apply''))
                | None \<Rightarrow>
                    rbind (if name = ''actions/setup-go'' then setup_go py inputs repo ex
                           else if name = ''actions/setup-node'' then setup_node py inputs ex
                           else if name = ''actions/setup-python'' then setup_python py inputs ex
                           else setup_pnpm py inputs repo) (\<lambda>t. Inr (Some t))))"

section \<open>What a version contains\<close>

text \<open>Characters no shell gives a meaning to, quoted or not, and no URL either.\<close>

definition version_char :: "char \<Rightarrow> bool" where
  "version_char c \<longleftrightarrow> is_alnum c \<or> c = CHR ''.'' \<or> c = CHR ''+'' \<or> c = CHR ''-''"

lemma digit_version_char: "digit c \<Longrightarrow> version_char c"
  by (auto simp: digit_def version_char_def is_alnum_def)

lemma digits_version: "list_all digits (split_char (CHR ''.'') s) \<Longrightarrow> list_all version_char s"
  using split_char_set [of s "CHR ''.''"] digit_version_char
  by (fastforce simp: list_all_iff digits_def version_char_def)

lemma exact_version_plain: "exact_version v \<Longrightarrow> list_all version_char (without_v v)"
  by (simp add: exact_version_def digits_version)

lemma python_line_plain:
  assumes "python_line v"
  shows "list_all version_char v"
proof -
  have "list_all digits (split_char (CHR ''.'') v)"
    using assms by (cases "split_char (CHR ''.'') v") (auto simp: python_line_def Let_def digits_def digit_def)
  then show ?thesis by (rule digits_version)
qed

lemma three_numbers_plain: "three_numbers s = Some (n, rest) \<Longrightarrow> s = n @ rest \<and> list_all version_char n"
proof -
  assume a: "three_numbers s = Some (n, rest)"
  define a1 s1 where "a1 = takeWhile digit s" and "s1 = drop (length a1) s"
  define b1 s2 where "b1 = takeWhile digit (tl s1)" and "s2 = drop (length b1) (tl s1)"
  define c1 where "c1 = takeWhile digit (tl s2)"
  note defs = a1_def s1_def b1_def s2_def c1_def
  have split: "s = a1 @ s1" "tl s1 = b1 @ s2" "tl s2 = c1 @ drop (length c1) (tl s2)"
    unfolding defs by (simp_all flip: dropWhile_eq_drop)
  have "prefix ''.'' s1" "prefix ''.'' s2" and n: "n = a1 @ ''.'' @ b1 @ ''.'' @ c1" and r: "rest = drop (length c1) (tl s2)"
    using a unfolding three_numbers_def Let_def defs by (auto split: if_splits)
  then have dots: "s1 = CHR ''.'' # tl s1" "s2 = CHR ''.'' # tl s2" by (auto simp: prefix_def)
  have "s = n @ rest" using split dots n r by (metis append.assoc append_Cons append_Nil)
  moreover have "list_all version_char n"
    using digit_version_char unfolding n defs by (auto simp: list_all_iff version_char_def dest: set_takeWhileD)
  ultimately show ?thesis ..
qed

lemma pnpm_version_plain:
  assumes "pnpm_version v"
  shows "list_all version_char v"
proof -
  obtain n rest where n: "three_numbers v = Some (n, rest)"
      and rest: "rest = [] \<or> (hd rest \<in> {CHR ''-'', CHR ''+''} \<and> list_all pnpm_char (tl rest))"
    using assms by (auto simp: pnpm_version_def split: option.splits)
  have "list_all version_char rest"
  proof (cases rest)
    case (Cons c r)
    then have "version_char c" "list_all pnpm_char r" using rest by (auto simp: version_char_def)
    moreover have "pnpm_char = version_char" by (auto simp: pnpm_char_def version_char_def fun_eq_iff)
    ultimately show ?thesis using Cons by simp
  qed simp
  then show ?thesis using three_numbers_plain [OF n] by simp
qed

lemma setup_go_plain: "setup_go py inputs repo ex = Inr t \<Longrightarrow> list_all version_char (tc_version t) \<and> tc_commands t = go_commands (tc_version t)"
  using exact_version_plain unfolding setup_go_def rbind_Inr_conv
  by (elim exE conjE) (auto split: option.splits if_splits)

lemma setup_node_plain: "setup_node py inputs ex = Inr t \<Longrightarrow> list_all version_char (tc_version t) \<and> tc_commands t = node_commands (tc_version t)"
  using exact_version_plain unfolding setup_node_def rbind_Inr_conv
  by (elim exE conjE) (force simp: release_line_def split: option.splits if_splits)

lemma setup_python_plain: "setup_python py inputs ex = Inr t \<Longrightarrow> list_all version_char (tc_version t) \<and> tc_commands t = python_commands (tc_version t)"
  using python_line_plain unfolding setup_python_def rbind_Inr_conv
  by (elim exE conjE) (force split: option.splits if_splits)

lemma setup_pnpm_plain: "setup_pnpm py inputs repo = Inr t \<Longrightarrow> list_all version_char (tc_version t) \<and> tc_commands t = pnpm_commands (tc_version t)"
  using pnpm_version_plain unfolding setup_pnpm_def rbind_Inr_conv
  by (elim exE conjE) (force split: option.splits if_splits)

text \<open>
  Whatever a workflow, an expression or a file of the repository gives for a version, the version an
  install command is built from is made of letters, digits, dots, pluses and hyphens, so no text of the
  repository reaches the shell as anything but a version; and the commands are those of its tool for that
  version.
\<close>

theorem install_version_is_plain:
  assumes "toolchain_for py step repo ex = Inr (Some t)"
  shows "list_all version_char (tc_version t) \<and>
    tc_commands t \<in> {go_commands (tc_version t), node_commands (tc_version t), python_commands (tc_version t), pnpm_commands (tc_version t)}"
proof -
  obtain inputs where "setup_go py inputs repo ex = Inr t \<or> setup_node py inputs ex = Inr t \<or> setup_python py inputs ex = Inr t \<or> setup_pnpm py inputs repo = Inr t"
    using assms by (auto simp: toolchain_for_def Let_def rbind_Inr_conv split: option.splits if_splits)
  then show ?thesis using setup_go_plain setup_node_plain setup_python_plain setup_pnpm_plain by blast
qed

theorem install_version_is_plain_witness:
  "\<exists>t. toolchain_for \<lparr>py_shown = (\<lambda>_. []), py_float = (\<lambda>_. None), py_int = (\<lambda>_. None), py_dumps = (\<lambda>_. [])\<rparr>
       [(''uses'', JStr ''actions/setup-node@v4''), (''with'', JObj [(''node-version'', JStr ''v22.14''), (''cache'', JStr ''npm'')])] None None = Inr (Some t) \<and>
     tc_version t = ''22.14'' \<and> list_all version_char (tc_version t)"
proof -
  have "toolchain_for \<lparr>py_shown = (\<lambda>_. []), py_float = (\<lambda>_. None), py_int = (\<lambda>_. None), py_dumps = (\<lambda>_. [])\<rparr>
       [(''uses'', JStr ''actions/setup-node@v4''), (''with'', JObj [(''node-version'', JStr ''v22.14''), (''cache'', JStr ''npm'')])] None None =
     Inr (Some \<lparr>tc_action = ''actions/setup-node'', tc_tool = ''node'', tc_version = ''22.14'', tc_commands = node_commands ''22.14''\<rparr>)"
    by code_simp
  then show ?thesis using install_version_is_plain by fastforce
qed

end
