(* ===== verification/Act_Engine.thy ===== *)
theory Act_Engine
  imports Workflow_Jobs
begin

text \<open>
  The contract that runs a workflow job through act (\<open>act.py\<close>): the argument list, and the shell script
  that carries it, with \<open>shlex.quote\<close> around every part. A small reader of shell words is the reference
  that says what such a line means to the shell.
\<close>

section \<open>Quoting\<close>

definition shell_safe :: "char \<Rightarrow> bool" where
  "shell_safe c \<longleftrightarrow> word_char c \<or>
     c \<in> {CHR ''@'', CHR ''%'', CHR ''+'', CHR ''='', CHR '':'', CHR '','', CHR ''.'', CHR ''/'', CHR ''-''}"

definition shell_quote :: "string \<Rightarrow> string" where
  "shell_quote s =
     (if s = [] then [CHR 0x27, CHR 0x27]
      else if list_all shell_safe s then s
      else [CHR 0x27] @ concat (map (\<lambda>c. if c = CHR 0x27 then [CHR 0x27, CHR 0x22, CHR 0x27, CHR 0x22, CHR 0x27] else [c]) s) @ [CHR 0x27])"

section \<open>The command\<close>

definition ACT_VERSION :: string where "ACT_VERSION = ''0.2.89''"
definition ACT_IMAGE :: string where "ACT_IMAGE = ''cindral-act:'' @ ACT_VERSION"
definition ACT_BINARY :: string where "ACT_BINARY = ''/usr/local/bin/act''"
definition EVENT_PATH :: string where "EVENT_PATH = ''/workspace/cindral-act-event.json''"

definition job_network :: "string \<Rightarrow> string" where
  "job_network job_id = ''cindral-'' @ job_id"

definition container_workflow_path :: "string \<Rightarrow> string" where
  "container_workflow_path name = CONTAINER_REPO @ ''/'' @ WORKFLOWS @ name"

definition build_act_command ::
  "string \<Rightarrow> string \<Rightarrow> string \<Rightarrow> string \<Rightarrow> string \<Rightarrow> string option \<Rightarrow> (string \<times> string) list \<Rightarrow> (string \<times> string) list \<Rightarrow> string option \<Rightarrow> string list" where
  "build_act_command act workflow_path workdir job_id event_name event_path platforms env network =
     [act, event_name, ''-W'', workflow_path, ''-C'', workdir, ''-j'', job_id] @
     (case event_path of Some p \<Rightarrow> [''--eventpath'', p] | None \<Rightarrow> []) @
     [''--bind=false''] @ [''--container-daemon-socket'', ''-''] @
     (case network of Some n \<Rightarrow> if n = [] then [] else [''--network'', n] | None \<Rightarrow> []) @
     concat (map (\<lambda>(label, img). [''-P'', label @ ''='' @ img]) (sort platforms)) @
     concat (map (\<lambda>(key, v). [''--env'', key @ ''='' @ v]) (sort env))"

record act_job =
  aj_workflow :: string
  aj_job_id :: string
  aj_event_name :: string
  aj_event :: jobj
  aj_reason :: string
  aj_platforms :: "(string \<times> string) list"
  aj_steps :: "jobj list"
  aj_env :: "(string \<times> string) list"
  aj_network :: "string option"
  aj_timeout_minutes :: "int option"

definition action_references :: "python \<Rightarrow> jobj list \<Rightarrow> string list" where
  "action_references py steps =
     concat (map (\<lambda>s. case get_or s ''uses'' JNull of JNull \<Rightarrow> [] | v \<Rightarrow> [strip (py_str (py_shown py) v)]) steps)"

definition echo_line :: "string \<Rightarrow> string" where
  "echo_line message = ''printf '' @ [CHR 0x27] @ ''%s'' @ [CHR 0x5C] @ ''n'' @ [CHR 0x27] @ '' '' @ shell_quote message"

definition act_argv :: "act_job \<Rightarrow> string list" where
  "act_argv r =
     build_act_command ACT_BINARY (container_workflow_path (aj_workflow r)) CONTAINER_REPO (aj_job_id r) (aj_event_name r)
       (Some EVENT_PATH) (aj_platforms r) (aj_env r) (aj_network r)"

definition exec_line :: "string list \<Rightarrow> string" where
  "exec_line argv = ''exec '' @ join_with '' '' (map shell_quote argv)"

definition act_script :: "python \<Rightarrow> act_job \<Rightarrow> string list \<Rightarrow> string" where
  "act_script py r argv =
     join_with [CHR 0x0A]
       [echo_line (''cindral: act '' @ ACT_VERSION @ '' ('' @ ACT_IMAGE @ '') runs job '' @ [CHR 0x27] @ aj_job_id r @ [CHR 0x27] @ '' of '' @ aj_workflow r @ '': '' @ aj_reason r),
        echo_line (''cindral: act actions: '' @ (if action_references py (aj_steps r) = [] then ''none'' else join_with '', '' (action_references py (aj_steps r)))),
        ''printf '' @ [CHR 0x27] @ ''%s'' @ [CHR 0x27] @ '' '' @ shell_quote (py_dumps py (JObj (aj_event r))) @ '' > '' @ shell_quote EVENT_PATH,
        exec_line argv]"

definition act_contract :: "python \<Rightarrow> act_job \<Rightarrow> contract" where
  "act_contract py r =
     \<lparr>ct_steps = [act_script py r (act_argv r)], ct_image = Some ACT_IMAGE, ct_dockerfile = None, ct_env = [], ct_services = [],
      ct_timeout_minutes = aj_timeout_minutes r, ct_docker = True, ct_contract_only = False, ct_labels = []\<rparr>"

section \<open>What the shell reads\<close>

text \<open>
  The words of a command line: blanks separate them, single quotes keep every character, double quotes
  every character but the ones the shell still expands. \<open>None\<close> is a line with an open quote or with a
  character that means more to the shell than itself.
\<close>

datatype quoting = Bare | Single | Double

fun shell_words :: "quoting \<Rightarrow> string \<Rightarrow> string \<Rightarrow> string list option" where
  "shell_words Bare word [] = Some [word]"
| "shell_words Bare word (c # s) =
     (if c = CHR '' '' then map_option (Cons word) (shell_words Bare [] s)
      else if c = CHR 0x27 then shell_words Single word s
      else if c = CHR 0x22 then shell_words Double word s
      else if shell_safe c then shell_words Bare (word @ [c]) s
      else None)"
| "shell_words Single word [] = None"
| "shell_words Single word (c # s) = (if c = CHR 0x27 then shell_words Bare word s else shell_words Single (word @ [c]) s)"
| "shell_words Double word [] = None"
| "shell_words Double word (c # s) =
     (if c = CHR 0x22 then shell_words Bare word s
      else if c \<in> {CHR ''$'', CHR 0x5C, CHR 0x60} then None
      else shell_words Double (word @ [c]) s)"

lemma safe_plain: "shell_safe c \<Longrightarrow> c \<noteq> CHR '' '' \<and> c \<noteq> CHR 0x27 \<and> c \<noteq> CHR 0x22"
  by (auto simp: shell_safe_def word_char_def letter_def digit_def less_eq_char_def)

lemma bare_word: "list_all shell_safe s \<Longrightarrow> shell_words Bare word (s @ rest) = shell_words Bare (word @ s) rest"
  by (induction s arbitrary: word) (auto dest: safe_plain)

lemma single_word:
  "shell_words Single word
     (concat (map (\<lambda>c. if c = CHR 0x27 then [CHR 0x27, CHR 0x22, CHR 0x27, CHR 0x22, CHR 0x27] else [c]) s) @ CHR 0x27 # rest) =
   shell_words Bare (word @ s) rest"
  by (induction s arbitrary: word) auto

lemma quoted_word: "shell_words Bare word (shell_quote s @ rest) = shell_words Bare (word @ s) rest"
  by (auto simp: shell_quote_def bare_word single_word)

lemma quoted_words:
  "shell_words Bare word (join_with '' '' (map shell_quote ws)) = (case ws of [] \<Rightarrow> Some [word] | w # ws' \<Rightarrow> Some ((word @ w) # ws'))"
proof (induction ws arbitrary: word rule: induct_list012)
  case (2 w)
  then show ?case using quoted_word [of word w "[]"] by simp
next
  case (3 w v ws)
  then show ?case using quoted_word [of word w "'' '' @ join_with '' '' (map shell_quote (v # ws))"] by simp
qed simp

text \<open>
  C26: the shell starts act with exactly the arguments the code built, and the notes are printed as they
  are: whatever a repository writes into a job id, an environment value or an action name, a quoted part
  is read back as one word.
\<close>

theorem act_runs_the_built_arguments:
  "shell_words Bare [] (exec_line (act_argv r)) = Some (''exec'' # act_argv r) \<and>
   shell_words Bare [] (echo_line message) = Some [''printf'', ''%s'' @ [CHR 0x5C] @ ''n'', message]"
proof
  have "act_argv r \<noteq> []" by (simp add: act_argv_def build_act_command_def)
  then obtain w ws where argv: "act_argv r = w # ws" by (cases "act_argv r") auto
  have "shell_words Bare [] (''exec'' @ '' '' @ join_with '' '' (map shell_quote (w # ws))) = Some (''exec'' # w # ws)"
    using bare_word [of "''exec''" "[]" "'' '' @ join_with '' '' (map shell_quote (w # ws))"] quoted_words [of "[]" "w # ws"]
    by (simp add: shell_safe_def word_char_def letter_def)
  then show "shell_words Bare [] (exec_line (act_argv r)) = Some (''exec'' # act_argv r)"
    by (simp add: exec_line_def argv)
  show "shell_words Bare [] (echo_line message) = Some [''printf'', ''%s'' @ [CHR 0x5C] @ ''n'', message]"
    using quoted_word [of "[]" message "[]"]
    by (simp add: echo_line_def shell_safe_def word_char_def letter_def)
qed

end
