(* ===== verification/Workflow_Translation.thy ===== *)
theory Workflow_Translation
  imports Workflow_Triggers Toolchain_Install Act_Engine
begin

text \<open>
  From a repository and a queued run to the contract that is executed (\<open>actions.py\<close>): which job of which
  workflow the run is for, whether its own condition lets it run, the steps it becomes, or the act
  contract where a step asks for more than the translation gives.
\<close>

section \<open>The job a run is for\<close>

definition matches_target :: "string \<Rightarrow> workflow_job \<Rightarrow> workflow \<Rightarrow> string option \<Rightarrow> bool" where
  "matches_target job_id job w target \<longleftrightarrow>
     (case target of
        None \<Rightarrow> True
      | Some t \<Rightarrow>
          t \<in> {job_id, wj_name job, wf_path w @ '':'' @ job_id} \<or>
          (CHR ''/'' \<in> set job_id \<and> rev (takeWhile (\<lambda>c. c \<noteq> CHR ''/'') (rev job_id)) = t) \<or>
          (t = wf_path w \<and> length (wf_jobs w) = 1))"

fun as_unsupported :: "workflow_error + 'a \<Rightarrow> workflow_error + 'a" where
  "as_unsupported (Inl (Context_Error m)) = Inl (Workflow_Unsupported m)"
| "as_unsupported r = r"

definition job_runs :: "python \<Rightarrow> workflow_job \<Rightarrow> workflow \<Rightarrow> job_spec \<Rightarrow> workflow_error + bool" where
  "job_runs py job w spec =
     (case wj_condition job of
        None \<Rightarrow> Inr True
      | Some condition \<Rightarrow>
          rbind (as_unsupported (run_context_for (py_shown py) spec (wf_name w) (wj_id job) (wj_env job))) (\<lambda>ctx.
            case evaluate_condition (py_float py) (context_value (py_shown py) ctx) condition of
              Inl e \<Rightarrow> Inl (Workflow_Unsupported (''job '' @ wj_id job @ '' has a job-level if that Cindral does not read''))
            | Inr c \<Rightarrow>
                (case cd_value c of
                   Some b \<Rightarrow> Inr b
                 | None \<Rightarrow> Inl (Workflow_Unsupported (''job '' @ wj_id job @ '' has a job-level if that reads context '' @
                     join_with '', '' (cd_unread c) @ '', which this run does not carry; the repository must decide the condition'')))))"

definition candidates :: "python \<Rightarrow> job_spec \<Rightarrow> workflow list \<Rightarrow> (workflow \<times> string \<times> workflow_job) list" where
  "candidates py job workflows =
     concat (map (\<lambda>w.
       if event_matches (py_shown py) (wf_on w) (event_name_for job) (js_ref job) None
       then map (Pair w) (filter (\<lambda>(i, j). matches_target i j w (case js_command job of [] \<Rightarrow> None | t # _ \<Rightarrow> Some t)) (wf_jobs w))
       else []) workflows)"

definition is_preferred :: "workflow \<times> string \<times> workflow_job \<Rightarrow> bool" where
  "is_preferred m \<longleftrightarrow> (case m of (w, i, j) \<Rightarrow> wj_id j \<in> {''ci'', ''test''} \<or> lower (wj_name j) \<in> {''ci'', ''test''})"

definition no_match :: "python \<Rightarrow> job_spec \<Rightarrow> workflow list \<Rightarrow> (string \<times> workflow_error) list \<Rightarrow> (workflow \<times> string \<times> workflow_job) list \<Rightarrow> workflow_error" where
  "no_match py job workflows broken skipped =
     (let event_name = event_name_for job;
          target_clause = (case js_command job of t # _ \<Rightarrow> if t = [] then [] else '' for target '' @ t | [] \<Rightarrow> []);
          detail = (if broken = [] then [] else '', and these workflow files could not be parsed: '' @ join_with '', '' (map fst broken));
          message = ''no workflow job matched event '' @ event_name @ '' on ref '' @ js_ref job @ target_clause @ detail
      in if skipped \<noteq> [] then Workflow_Error (''every job matching event '' @ event_name @ '' is skipped by its own if: '' @
              join_with '', '' (map (\<lambda>(w, i, j). wf_path w @ '':'' @ i) skipped) @ target_clause)
         else if js_command job \<noteq> [] \<or> broken \<noteq> [] \<or> list_ex (\<lambda>w. event_declares (wf_on w) event_name) workflows
         then Workflow_Error message
         else Workflow_No_Match message)"

definition pick_match ::
  "job_spec \<Rightarrow> workflow_error \<Rightarrow> (workflow \<times> string \<times> workflow_job) list \<Rightarrow> workflow_error + workflow \<times> string \<times> workflow_job" where
  "pick_match job nothing matching =
     (case matching of
        [] \<Rightarrow> Inl nothing
      | [m] \<Rightarrow> Inr m
      | _ \<Rightarrow>
          (case (if js_command job = [] then filter is_preferred matching else []) of
             [m] \<Rightarrow> Inr m
           | _ \<Rightarrow> Inl (Workflow_Ambiguous (''multiple workflow jobs matched ('' @
                    join_with '', '' (map (\<lambda>(w, i, j). wf_path w @ '':'' @ wj_id j) matching) @ ''); specify an unambiguous target job''))))"

definition resolve_workflow_job :: "python \<Rightarrow> repository \<Rightarrow> job_spec \<Rightarrow> workflow_error + workflow \<times> workflow_job" where
  "resolve_workflow_job py repo job =
     rbind (parseable_workflows py repo) (\<lambda>(workflows, broken).
       if workflows = []
       then Inl (case broken of (_, e) # _ \<Rightarrow> e | [] \<Rightarrow> Workflow_Error ''repository has no .cindral/ci.toml and no .github/workflows/*.{yml,yaml}'')
       else rbind (traverse (\<lambda>(w, i, j). rbind (job_runs py j w job) (\<lambda>b. Inr (b, w, i, j))) (candidates py job workflows)) (\<lambda>verdicts.
            rbind (pick_match job (no_match py job workflows broken (map snd (filter (\<lambda>d. \<not> fst d) verdicts))) (map snd (filter fst verdicts)))
              (\<lambda>(w, i, j). Inr (w, j))))"

section \<open>Images\<close>

definition DEFAULT_RUNNER_IMAGE :: string where "DEFAULT_RUNNER_IMAGE = ''ubuntu:24.04''"

definition IMAGE_MAP :: "(string \<times> string) list" where
  "IMAGE_MAP =
     [(''ubuntu-latest'', ''ubuntu:24.04''), (''ubuntu-24.04'', ''ubuntu:24.04''), (''ubuntu-22.04'', ''ubuntu:22.04''), (''ubuntu-20.04'', ''ubuntu:20.04'')]"

text \<open>The shape of a hosted platform's label; the pattern's end also accepts one line feed.\<close>

definition hosted_label :: "string \<Rightarrow> bool" where
  "hosted_label label \<longleftrightarrow>
     (let l = lower label; s = (if suffix [CHR 0x0A] l then butlast l else l) in
      list_ex (\<lambda>p. prefix (p @ ''-'') s \<and>
                   (let v = drop (length p + 1) s in
                    v = ''latest'' \<or> (v \<noteq> [] \<and> digit (hd v) \<and> list_all (\<lambda>c. digit c \<or> c = CHR ''.'') (tl v))))
              [''ubuntu'', ''windows'', ''macos''])"

definition runner_image :: "workflow_job \<Rightarrow> workflow_error + string" where
  "runner_image job =
     (case find (\<lambda>label. hosted_label label \<and> map_of IMAGE_MAP (lower label) = None) (wj_runs_on job) of
        Some label \<Rightarrow> Inl (Workflow_Unsupported (''job '' @ wj_id job @ '' asks for '' @ label @
          '', which this build has no image for; the device pool runs linux/amd64 and linux/arm64 only''))
      | None \<Rightarrow>
          Inr (case find (\<lambda>label. map_of IMAGE_MAP (lower label) \<noteq> None) (wj_runs_on job) of
                 Some label \<Rightarrow> the (map_of IMAGE_MAP (lower label))
               | None \<Rightarrow> DEFAULT_RUNNER_IMAGE))"

section \<open>Steps\<close>

definition is_checkout :: "python \<Rightarrow> jobj \<Rightarrow> bool" where
  "is_checkout py step \<longleftrightarrow>
     (case get_or step ''uses'' JNull of JNull \<Rightarrow> False | v \<Rightarrow> before (CHR ''@'') (py_str (py_shown py) v) = ''actions/checkout'')"

definition step_label :: "workflow_job \<Rightarrow> nat \<Rightarrow> string" where
  "step_label job index = ''job '' @ wj_id job @ '' step '' @ nat_str index"

definition expander_for :: "python \<Rightarrow> run_context \<Rightarrow> string \<Rightarrow> expander" where
  "expander_for py ctx label txt name =
     (let place = label @ '' with.'' @ name in
      rbind (require_resolvable (py_shown py) ctx txt place) (\<lambda>_. expand (py_shown py) ctx txt place))"

text \<open>Python compares a number with a boolean, so \<open>1\<close> and \<open>0\<close> pass for \<open>True\<close> and \<open>False\<close>.\<close>

fun means_true :: "json \<Rightarrow> bool" where
  "means_true JNull \<longleftrightarrow> True"
| "means_true (JBool b) \<longleftrightarrow> b"
| "means_true (JInt i) \<longleftrightarrow> i = 1"
| "means_true (JFloat x) \<longleftrightarrow> x = 1"
| "means_true (JStr s) \<longleftrightarrow> s = ''true''"
| "means_true _ \<longleftrightarrow> False"

fun means_false :: "json \<Rightarrow> bool" where
  "means_false JNull \<longleftrightarrow> True"
| "means_false (JBool b) \<longleftrightarrow> \<not> b"
| "means_false (JInt i) \<longleftrightarrow> i = 0"
| "means_false (JFloat x) \<longleftrightarrow> x = 0"
| "means_false (JStr s) \<longleftrightarrow> s = ''false''"
| "means_false _ \<longleftrightarrow> False"

definition step_blocker :: "python \<Rightarrow> repository \<Rightarrow> run_context \<Rightarrow> string \<Rightarrow> jobj \<Rightarrow> workflow_error + string option" where
  "step_blocker py repo ctx label step =
     (let get = (\<lambda>key. get_or step key JNull) in
      if \<not> means_true (get ''if'') then Inr (Some ''unsupported if condition'')
      else if get ''working-directory'' \<noteq> JNull then Inr (Some ''unsupported working-directory'')
      else if get ''shell'' \<noteq> JNull then Inr (Some ''step shell'')
      else if \<not> means_false (get ''continue-on-error'') \<or> get ''timeout-minutes'' \<noteq> JNull then Inr (Some ''step failure or timeout settings'')
      else
        rbind (if get ''uses'' \<noteq> JNull \<and> \<not> is_checkout py step
               then (if is_setup_action py step
                     then (case toolchain_for py step (Some repo) (Some (expander_for py ctx label)) of
                             Inl (Workflow_Unsupported m) \<Rightarrow> Inr (Some m)
                           | Inl e \<Rightarrow> Inl e
                           | Inr _ \<Rightarrow> Inr None)
                     else Inr (Some (''unsupported action '' @ strip (py_str (py_shown py) (get ''uses'')))))
               else Inr None) (\<lambda>blocked.
          Inr (case blocked of
                 Some m \<Rightarrow> Some m
               | None \<Rightarrow>
                   if (case get ''env'' of JObj (_ # _) \<Rightarrow> True | _ \<Rightarrow> False) then Some ''step env''
                   else if get ''uses'' = JNull \<and> get ''run'' = JNull then Some ''neither run nor uses''
                   else None)))"

definition checkout_inputs :: "python \<Rightarrow> jobj \<Rightarrow> string list" where
  "checkout_inputs py step =
     (case map_of step ''with'' of
        Some (JObj (kv # kvs)) \<Rightarrow> if is_checkout py step then sort (map fst (kv # kvs)) else []
      | _ \<Rightarrow> [])"

definition step_values :: "jobj \<Rightarrow> (string \<times> string) list" where
  "step_values step =
     concat (map (\<lambda>key. case map_of step key of Some (JStr s) \<Rightarrow> [(key, s)] | _ \<Rightarrow> []) [''run'', ''if'', ''uses'', ''working-directory'', ''shell'']) @
     concat (map (\<lambda>key. case map_of step key of
                          Some (JObj kvs) \<Rightarrow> concat (map (\<lambda>(name, v). case v of JStr s \<Rightarrow> [(key @ ''.'' @ name, s)] | _ \<Rightarrow> []) kvs)
                        | _ \<Rightarrow> []) [''with'', ''env''])"

definition numbered :: "'a list \<Rightarrow> (nat \<times> 'a) list" where
  "numbered xs = zip [1..<Suc (length xs)] xs"

definition translate_step :: "python \<Rightarrow> repository \<Rightarrow> run_context \<Rightarrow> string \<Rightarrow> jobj \<Rightarrow> workflow_error + string list" where
  "translate_step py repo ctx label step =
     rbind (step_blocker py repo ctx label step) (\<lambda>blocker.
       case blocker of
         Some m \<Rightarrow> Inl (Workflow_Unsupported (label @ '' is not translatable natively: '' @ m @ '' (requires act engine)''))
       | None \<Rightarrow>
           rbind (toolchain_for py step (Some repo) (Some (expander_for py ctx label))) (\<lambda>install.
             case install of
               Some t \<Rightarrow> Inr (tc_commands t)
             | None \<Rightarrow>
                 (case map_of step ''run'' of
                    None \<Rightarrow> Inr []
                  | Some v \<Rightarrow>
                      (let run_cmd = strip (py_str (py_shown py) v) in
                       if run_cmd = [] then Inr []
                       else rbind (expand (py_shown py) ctx run_cmd (label @ '' run'')) (\<lambda>c. Inr [c])))))"

definition workflow_to_contract :: "python \<Rightarrow> repository \<Rightarrow> workflow_job \<Rightarrow> run_context \<Rightarrow> workflow_error + contract" where
  "workflow_to_contract py repo job ctx =
     rbind (traverse (\<lambda>(index, step). translate_step py repo ctx (step_label job index) step) (numbered (wj_steps job))) (\<lambda>commands.
       if concat commands = [] then Inl (Workflow_Error (''job '' @ wj_id job @ '' has no executable steps''))
       else rbind (runner_image job) (\<lambda>img.
         Inr \<lparr>ct_steps = concat commands, ct_image = Some img, ct_dockerfile = None, ct_env = rc_env ctx, ct_services = wj_services job,
              ct_timeout_minutes = wj_timeout_minutes job, ct_docker = False, ct_contract_only = False,
              ct_labels = filter (\<lambda>l. lower (strip l) \<noteq> ''self-hosted'') (wj_runs_on job)\<rparr>))"

definition native_blockers :: "python \<Rightarrow> repository \<Rightarrow> workflow_job \<Rightarrow> run_context \<Rightarrow> workflow_error + string list" where
  "native_blockers py repo job ctx =
     rbind (traverse (\<lambda>(index, step). rbind (step_blocker py repo ctx (step_label job index) step) (\<lambda>b.
              Inr (case b of Some m \<Rightarrow> [step_label job index @ '': '' @ m] | None \<Rightarrow> []))) (numbered (wj_steps job)))
       (\<lambda>bs. Inr (concat bs))"

section \<open>The contract\<close>

definition check_value :: "python \<Rightarrow> run_context \<Rightarrow> bool \<Rightarrow> string \<Rightarrow> string \<times> string \<Rightarrow> workflow_error + unit" where
  "check_value py ctx native label kv =
     (case kv of (key, txt) \<Rightarrow>
        if key = ''if'' then require_expression (py_shown py) ctx txt (label @ '' '' @ key)
        else if native then rbind (expand (py_shown py) ctx txt (label @ '' '' @ key)) (\<lambda>_. Inr ())
        else require_resolvable (py_shown py) ctx txt (label @ '' '' @ key))"

definition check_step :: "python \<Rightarrow> run_context \<Rightarrow> bool \<Rightarrow> string \<Rightarrow> jobj \<Rightarrow> workflow_error + unit" where
  "check_step py ctx native label step =
     (case checkout_inputs py step of
        name # _ \<Rightarrow> Inl (Workflow_Unsupported (label @ '' sets checkout input '' @ name @ '', which Cindral does not apply''))
      | [] \<Rightarrow> rbind (traverse (check_value py ctx native label) (step_values step)) (\<lambda>_. Inr ()))"

text \<open>What is done under the context: the blockers, and the native contract where there is none.\<close>

definition translate_job :: "python \<Rightarrow> repository \<Rightarrow> workflow_job \<Rightarrow> run_context \<Rightarrow> workflow_error + string list \<times> contract option" where
  "translate_job py repo job ctx =
     rbind (native_blockers py repo job ctx) (\<lambda>blockers.
     rbind (resolve_services (py_shown py) ctx (wj_services job) (blockers = [])) (\<lambda>services.
     rbind (traverse (\<lambda>(index, step). check_step py ctx (blockers = []) (step_label job index) step) (numbered (wj_steps job))) (\<lambda>_.
       if blockers = []
       then rbind (workflow_to_contract py repo (job\<lparr>wj_services := services\<rparr>) ctx) (\<lambda>c. Inr (blockers, Some c))
       else Inr (blockers, None))))"

definition act_request :: "workflow \<Rightarrow> workflow_job \<Rightarrow> job_spec \<Rightarrow> run_context \<Rightarrow> string list \<Rightarrow> string \<Rightarrow> act_job" where
  "act_request w job spec ctx blockers img =
     \<lparr>aj_workflow = wf_path w, aj_job_id = wj_id job, aj_event_name = rc_event_name ctx, aj_event = rc_event ctx,
      aj_reason = join_with ''; '' blockers, aj_platforms = dict_update [] (map (\<lambda>l. (l, img)) (wj_runs_on job)), aj_steps = wj_steps job,
      aj_env = wj_env job, aj_network = Some (job_network (js_id spec)), aj_timeout_minutes = wj_timeout_minutes job\<rparr>"

definition conclude_contract ::
  "python \<Rightarrow> workflow \<Rightarrow> workflow_job \<Rightarrow> job_spec \<Rightarrow> run_context \<Rightarrow> string list \<Rightarrow> contract option \<Rightarrow> workflow_error + contract" where
  "conclude_contract py w job spec ctx blockers native =
     (case native of
        Some c \<Rightarrow> Inr c
      | None \<Rightarrow>
          (case runner_image job of
             Inl (Workflow_Unsupported m) \<Rightarrow> Inl (Workflow_Unsupported (join_with ''; '' (m # blockers)))
           | Inl e \<Rightarrow> Inl e
           | Inr img \<Rightarrow> Inr (act_contract py (act_request w job spec ctx blockers img))))"

definition contract_of_job :: "python \<Rightarrow> repository \<Rightarrow> job_spec \<Rightarrow> workflow \<Rightarrow> workflow_job \<Rightarrow> workflow_error + contract" where
  "contract_of_job py repo spec w job =
     (case wj_unmapped job of
        key # _ \<Rightarrow> Inl (Workflow_Unsupported (''job '' @ wj_id job @ '' declares '' @
          (case map_of UNMAPPED_JOB_KEYS key of Some what \<Rightarrow> what | None \<Rightarrow> []) @ '' ('' @ key @ ''), which Cindral does not run yet''))
      | [] \<Rightarrow>
          rbind (as_unsupported (rbind (run_context_for (py_shown py) spec (wf_name w) (wj_id job) (wj_env job)) (\<lambda>ctx.
                   rbind (translate_job py repo job ctx) (\<lambda>r. Inr (ctx, r)))))
            (\<lambda>(ctx, blockers, native). conclude_contract py w job spec ctx blockers native))"

definition resolve_workflow_contract :: "python \<Rightarrow> repository \<Rightarrow> job_spec \<Rightarrow> workflow_error + contract" where
  "resolve_workflow_contract py repo spec =
     rbind (resolve_workflow_job py repo spec) (\<lambda>(w, job). contract_of_job py repo spec w job)"

section \<open>What is selected\<close>

lemma as_unsupported_Inr [simp]: "as_unsupported r = Inr x \<longleftrightarrow> r = Inr x"
  by (cases r rule: as_unsupported.cases) auto

lemma job_runs_True:
  assumes "job_runs py j w job = Inr True" and "wj_condition j = Some condition"
  shows "\<exists>ctx. run_context_for (py_shown py) job (wf_name w) (wj_id j) (wj_env j) = Inr ctx \<and>
           (\<exists>c. evaluate_condition (py_float py) (context_value (py_shown py) ctx) condition = Inr c \<and> cd_value c = Some True)"
proof -
  let ?run = "run_context_for (py_shown py) job (wf_name w) (wj_id j) (wj_env j)"
  let ?eval = "\<lambda>ctx. evaluate_condition (py_float py) (context_value (py_shown py) ctx) condition"
  obtain ctx where ctx: "as_unsupported ?run = Inr ctx"
      and v: "(case ?eval ctx of
              Inl e \<Rightarrow> Inl (Workflow_Unsupported (''job '' @ wj_id j @ '' has a job-level if that Cindral does not read''))
            | Inr c \<Rightarrow>
                (case cd_value c of
                   Some b \<Rightarrow> Inr b
                 | None \<Rightarrow> Inl (Workflow_Unsupported (''job '' @ wj_id j @ '' has a job-level if that reads context '' @
                     join_with '', '' (cd_unread c) @ '', which this run does not carry; the repository must decide the condition'')))) = Inr True"
    using assms(1) unfolding job_runs_def assms(2) option.case rbind_Inr_conv by blast
  have c: "\<exists>c. ?eval ctx = Inr c \<and> cd_value c = Some True"
    using v by (cases "?eval ctx") (auto split: option.splits)
  from ctx have "?run = Inr ctx" by simp
  with c show ?thesis by blast
qed

lemma verdict_members:
  assumes "traverse (\<lambda>(w, i, j). rbind (job_runs py j w job) (\<lambda>b. Inr (b, w, i, j))) ms = Inr vs"
  shows "set vs = {(b, w, i, j). (w, i, j) \<in> set ms \<and> job_runs py j w job = Inr b}"
  using assms by (induction ms arbitrary: vs) (auto simp: rbind_Inr_conv)

lemma candidates_in:
  "(w, i, j) \<in> set (candidates py job ws) \<longleftrightarrow>
     w \<in> set ws \<and> (i, j) \<in> set (wf_jobs w) \<and> event_matches (py_shown py) (wf_on w) (event_name_for job) (js_ref job) None \<and>
     matches_target i j w (case js_command job of [] \<Rightarrow> None | t # _ \<Rightarrow> Some t)"
  by (auto simp: candidates_def)

lemma pick_match_Inr:
  assumes "pick_match job nothing ms = Inr m"
  shows "m \<in> set ms" and "m' \<in> set ms \<Longrightarrow> m' = m \<or> (js_command job = [] \<and> is_preferred m \<and> \<not> is_preferred m')"
proof -
  have "ms = [m] \<or> (js_command job = [] \<and> filter is_preferred ms = [m])"
    using assms by (auto simp: pick_match_def split: list.splits if_splits)
  then have "ms = [m] \<or> (js_command job = [] \<and> {x \<in> set ms. is_preferred x} = {m})" by (metis set_filter list.simps(15) empty_set)
  then show "m \<in> set ms" "m' \<in> set ms \<Longrightarrow> m' = m \<or> (js_command job = [] \<and> is_preferred m \<and> \<not> is_preferred m')" by auto
qed

text \<open>
  C24: the job a run executes is one its repository asked for: it is in a workflow that parses and whose
  triggers fire on the run's event and ref, it is the target the run names, and its own condition is true
  in the run's context. Every other job that could have run was either not there, or the run named no
  target, the chosen job is called \<open>ci\<close> or \<open>test\<close> and the other is not.
\<close>

theorem selected_job_is_asked_for:
  assumes "resolve_workflow_job py repo job = Inr (w, j)"
  shows "\<exists>ws broken i. parseable_workflows py repo = Inr (ws, broken) \<and> (w, i, j) \<in> set (candidates py job ws) \<and>
    event_declares (wf_on w) (event_name_for job) \<and> job_runs py j w job = Inr True \<and>
    (\<forall>w' i' j'. (w', i', j') \<in> set (candidates py job ws) \<and> job_runs py j' w' job = Inr True \<longrightarrow>
       (w', i', j') = (w, i, j) \<or> (js_command job = [] \<and> is_preferred (w, i, j) \<and> \<not> is_preferred (w', i', j')))"
proof -
  obtain ws broken vs i where ws: "parseable_workflows py repo = Inr (ws, broken)"
      and vs: "traverse (\<lambda>(w, i, j). rbind (job_runs py j w job) (\<lambda>b. Inr (b, w, i, j))) (candidates py job ws) = Inr vs"
      and pick: "pick_match job (no_match py job ws broken (map snd (filter (\<lambda>d. \<not> fst d) vs))) (map snd (filter fst vs)) = Inr (w, i, j)"
    using assms unfolding resolve_workflow_job_def by (auto simp: rbind_Inr_conv split: if_splits)
  have matching: "(w', i', j') \<in> set (map snd (filter fst vs)) \<longleftrightarrow> (w', i', j') \<in> set (candidates py job ws) \<and> job_runs py j' w' job = Inr True" for w' i' j'
    using verdict_members [OF vs] by (auto simp: image_iff)
  have m: "(w, i, j) \<in> set (candidates py job ws)" "job_runs py j w job = Inr True" using pick_match_Inr(1) [OF pick] matching by blast+
  then have "event_declares (wf_on w) (event_name_for job)" using candidates_in event_matches_declared by blast
  then show ?thesis using ws m matching pick_match_Inr(2) [OF pick] by blast
qed

section \<open>What is executed\<close>

lemma runner_image_known:
  assumes "runner_image job = Inr img" and "label \<in> set (wj_runs_on job)" and "hosted_label label"
  shows "map_of IMAGE_MAP (lower label) \<noteq> None"
  using assms by (auto simp: runner_image_def find_None_iff split: option.splits)

lemma numbered_in: "step \<in> set steps \<Longrightarrow> \<exists>k. (k, step) \<in> set (numbered steps)"
proof -
  assume "step \<in> set steps"
  then have "step \<in> set (map snd (numbered steps))" by (simp add: numbered_def del: upt_Suc)
  then show ?thesis by force
qed

lemma traverse_ok: "traverse f xs = Inr ys \<Longrightarrow> x \<in> set xs \<Longrightarrow> \<exists>y. f x = Inr y"
  by (induction xs arbitrary: ys) (auto simp: rbind_Inr_conv)

lemma checked_steps:
  assumes "traverse (\<lambda>(index, step). check_step py ctx native (step_label job index) step) (numbered steps) = Inr us" and "step \<in> set steps"
  shows "checkout_inputs py step = []"
proof -
  obtain k where "(k, step) \<in> set (numbered steps)" using numbered_in [OF assms(2)] by blast
  then obtain u where "check_step py ctx native (step_label job k) step = Inr u" using traverse_ok [OF assms(1)] by fastforce
  then show ?thesis by (simp add: check_step_def split: list.splits)
qed

lemma workflow_to_contract_shape:
  "workflow_to_contract py repo job ctx = Inr c \<Longrightarrow>
     \<not> ct_docker c \<and> ct_steps c \<noteq> [] \<and> ct_services c = wj_services job \<and> (\<exists>img. runner_image job = Inr img \<and> ct_image c = Some img)"
  by (auto simp: workflow_to_contract_def rbind_Inr_conv split: if_splits)

lemma runner_image_services [simp]: "runner_image (job\<lparr>wj_services := ss\<rparr>) = runner_image job"
  by (simp add: runner_image_def split: option.split)

lemma translate_job_Inr:
  assumes "translate_job py repo job ctx = Inr (blockers, native)"
  shows "native_blockers py repo job ctx = Inr blockers" and "step \<in> set (wj_steps job) \<Longrightarrow> checkout_inputs py step = []"
    and "native = None \<longleftrightarrow> blockers \<noteq> []"
    and "native = Some c \<Longrightarrow> \<not> ct_docker c \<and> ct_steps c \<noteq> [] \<and> (\<exists>img. runner_image job = Inr img \<and> ct_image c = Some img)"
proof -
  obtain bs ss us where p: "native_blockers py repo job ctx = Inr bs"
      "traverse (\<lambda>(index, step). check_step py ctx (bs = []) (step_label job index) step) (numbered (wj_steps job)) = Inr us"
      "(if bs = [] then rbind (workflow_to_contract py repo (job\<lparr>wj_services := ss\<rparr>) ctx) (\<lambda>c. Inr (bs, Some c)) else Inr (bs, None)) = Inr (blockers, native)"
    using assms unfolding translate_job_def rbind_Inr_conv by blast
  then have bs: "bs = blockers" by (auto simp: rbind_Inr_conv split: if_splits)
  have parts: "native_blockers py repo job ctx = Inr blockers"
      "traverse (\<lambda>(index, step). check_step py ctx (blockers = []) (step_label job index) step) (numbered (wj_steps job)) = Inr us"
      "if blockers = [] then (\<exists>c. workflow_to_contract py repo (job\<lparr>wj_services := ss\<rparr>) ctx = Inr c \<and> native = Some c) else native = None"
    using p(1,2) p(3) unfolding bs by (auto simp: rbind_Inr_conv split: if_splits)
  show "native_blockers py repo job ctx = Inr blockers" by (rule parts(1))
  show "checkout_inputs py step = []" if "step \<in> set (wj_steps job)" using checked_steps [OF parts(2) that] .
  show "native = None \<longleftrightarrow> blockers \<noteq> []" using parts(3) by (auto split: if_splits)
  show "\<not> ct_docker c \<and> ct_steps c \<noteq> [] \<and> (\<exists>img. runner_image job = Inr img \<and> ct_image c = Some img)" if "native = Some c"
    using parts(3) that workflow_to_contract_shape by (fastforce split: if_splits)
qed

text \<open>
  What a step is translated to, read off the step: it asks for nothing a plain command cannot do, a setup action
  becomes the commands of its tool, a \<open>run\<close> becomes its expanded text, and only a checkout or a blank \<open>run\<close>
  needs no command.
\<close>

definition plain_step :: "jobj \<Rightarrow> bool" where
  "plain_step step \<longleftrightarrow>
     means_true (get_or step ''if'' JNull) \<and> get_or step ''working-directory'' JNull = JNull \<and> get_or step ''shell'' JNull = JNull \<and>
     means_false (get_or step ''continue-on-error'' JNull) \<and> get_or step ''timeout-minutes'' JNull = JNull \<and>
     (\<forall>kv kvs. get_or step ''env'' JNull \<noteq> JObj (kv # kvs))"

definition run_text :: "python \<Rightarrow> jobj \<Rightarrow> string" where
  "run_text py step = (case map_of step ''run'' of None \<Rightarrow> [] | Some v \<Rightarrow> strip (py_str (py_shown py) v))"

definition step_done :: "python \<Rightarrow> repository \<Rightarrow> run_context \<Rightarrow> string \<Rightarrow> jobj \<Rightarrow> string list \<Rightarrow> bool" where
  "step_done py repo ctx label step commands \<longleftrightarrow>
     plain_step step \<and>
     (case toolchain_for py step (Some repo) (Some (expander_for py ctx label)) of
        Inl _ \<Rightarrow> False
      | Inr (Some t) \<Rightarrow> commands = tc_commands t
      | Inr None \<Rightarrow>
          if run_text py step = [] then commands = [] \<and> (is_checkout py step \<or> get_or step ''run'' JNull \<noteq> JNull)
          else \<exists>c. expand (py_shown py) ctx (run_text py step) (label @ '' run'') = Inr c \<and> commands = [c])"

lemma no_blocker:
  assumes "step_blocker py repo ctx label step = Inr None"
  shows "plain_step step" and "get_or step ''uses'' JNull = JNull \<Longrightarrow> get_or step ''run'' JNull \<noteq> JNull"
    and "get_or step ''uses'' JNull \<noteq> JNull \<Longrightarrow> is_checkout py step \<or> is_setup_action py step"
  using assms by (auto simp: step_blocker_def plain_step_def Let_def rbind_Inr_conv split: if_splits option.splits sum.splits workflow_error.splits json.splits list.splits)

lemma setup_has_toolchain: "is_setup_action py step \<Longrightarrow> toolchain_for py step repo ex \<noteq> Inr None"
  by (auto simp: is_setup_action_def toolchain_for_def Let_def rbind_Inr_conv split: option.splits)

lemma translate_step_done:
  assumes "translate_step py repo ctx label step = Inr commands"
  shows "step_done py repo ctx label step commands"
proof -
  have b: "step_blocker py repo ctx label step = Inr None" using assms by (auto simp: translate_step_def rbind_Inr_conv split: option.splits)
  obtain install where t: "toolchain_for py step (Some repo) (Some (expander_for py ctx label)) = Inr install"
    using assms b by (auto simp: translate_step_def rbind_Inr_conv)
  show ?thesis
  proof (cases install)
    case None
    then have "\<not> is_setup_action py step" using t setup_has_toolchain by metis
    then have "is_checkout py step \<or> get_or step ''run'' JNull \<noteq> JNull" using no_blocker [OF b] by blast
    then show ?thesis using assms b t None no_blocker(1) [OF b]
      by (auto simp: translate_step_def step_done_def run_text_def Let_def rbind_Inr_conv split: option.splits if_splits)
  next
    case (Some tc)
    then show ?thesis using assms b t no_blocker(1) [OF b] by (simp add: translate_step_def step_done_def)
  qed
qed

lemma traverse_list_all2: "traverse f xs = Inr ys \<Longrightarrow> list_all2 (\<lambda>x y. f x = Inr y) xs ys"
  by (induction xs arbitrary: ys) (auto simp: rbind_Inr_conv)

lemma native_steps_done:
  assumes "workflow_to_contract py repo j ctx = Inr c"
  shows "\<exists>cs. list_all2 (\<lambda>(k, step) commands. step_done py repo ctx (step_label j k) step commands) (numbered (wj_steps j)) cs \<and> ct_steps c = concat cs"
proof -
  obtain cs where cs: "traverse (\<lambda>(index, step). translate_step py repo ctx (step_label j index) step) (numbered (wj_steps j)) = Inr cs"
      "ct_steps c = concat cs"
    using assms by (auto simp: workflow_to_contract_def rbind_Inr_conv split: if_splits)
  have "list_all2 (\<lambda>(k, step) commands. step_done py repo ctx (step_label j k) step commands) (numbered (wj_steps j)) cs"
    using traverse_list_all2 [OF cs(1)] by (rule list_all2_mono) (auto intro: translate_step_done)
  then show ?thesis using cs(2) by blast
qed

text \<open>
  Read off the step again: it needs the act engine where it asks for more than a plain command, names an action
  that is neither a checkout nor a setup of a known tool, or does nothing at all. The blockers of a job are
  exactly those of these steps.
\<close>

definition needs_act :: "python \<Rightarrow> repository \<Rightarrow> run_context \<Rightarrow> string \<Rightarrow> jobj \<Rightarrow> bool" where
  "needs_act py repo ctx label step \<longleftrightarrow>
     \<not> plain_step step \<or> (get_or step ''uses'' JNull = JNull \<and> get_or step ''run'' JNull = JNull) \<or>
     (get_or step ''uses'' JNull \<noteq> JNull \<and> \<not> is_checkout py step \<and>
      (\<forall>t. toolchain_for py step (Some repo) (Some (expander_for py ctx label)) \<noteq> Inr (Some t)))"

lemma no_toolchain: "\<not> is_setup_action py step \<Longrightarrow> toolchain_for py step repo ex = Inr None"
  by (auto simp: is_setup_action_def toolchain_for_def split: option.splits)

lemma blocker_iff:
  assumes "step_blocker py repo ctx label step = Inr b"
  shows "b \<noteq> None \<longleftrightarrow> needs_act py repo ctx label step"
proof (cases "is_setup_action py step")
  case True
  then show ?thesis using assms setup_has_toolchain [OF True, of "Some repo" "Some (expander_for py ctx label)"]
    by (auto simp: step_blocker_def needs_act_def plain_step_def Let_def rbind_Inr_conv
        split: if_splits option.splits sum.splits workflow_error.splits json.splits list.splits)
next
  case False
  then show ?thesis using assms no_toolchain [OF False, of "Some repo" "Some (expander_for py ctx label)"]
    by (auto simp: step_blocker_def needs_act_def plain_step_def Let_def rbind_Inr_conv
        split: if_splits option.splits sum.splits workflow_error.splits json.splits list.splits)
qed

definition blocked_lines :: "python \<Rightarrow> repository \<Rightarrow> run_context \<Rightarrow> workflow_job \<Rightarrow> nat \<times> jobj \<Rightarrow> workflow_error + string list" where
  "blocked_lines py repo ctx j = (\<lambda>(index, step). rbind (step_blocker py repo ctx (step_label j index) step) (\<lambda>b.
     Inr (case b of Some m \<Rightarrow> [step_label j index @ '': '' @ m] | None \<Rightarrow> [])))"

definition some_needs_act :: "python \<Rightarrow> repository \<Rightarrow> run_context \<Rightarrow> workflow_job \<Rightarrow> (nat \<times> jobj) list \<Rightarrow> bool" where
  "some_needs_act py repo ctx j xs \<longleftrightarrow> (\<exists>(k, step) \<in> set xs. needs_act py repo ctx (step_label j k) step)"

lemma blocked_lines_iff: "blocked_lines py repo ctx j (k, step) = Inr ls \<Longrightarrow> ls \<noteq> [] \<longleftrightarrow> needs_act py repo ctx (step_label j k) step"
  by (auto simp: blocked_lines_def rbind_Inr_conv blocker_iff [symmetric] split: option.splits)

lemma traverse_blocked: "traverse (blocked_lines py repo ctx j) xs = Inr bs \<Longrightarrow> concat bs \<noteq> [] \<longleftrightarrow> some_needs_act py repo ctx j xs"
proof (induction xs arbitrary: bs)
  case (Cons x xs)
  obtain k step where x: "x = (k, step)" by (cases x)
  obtain ls bs' where b: "blocked_lines py repo ctx j (k, step) = Inr ls" "traverse (blocked_lines py repo ctx j) xs = Inr bs'" "bs = ls # bs'"
    using Cons.prems by (auto simp: x rbind_Inr_conv)
  have "concat bs \<noteq> [] \<longleftrightarrow> ls \<noteq> [] \<or> concat bs' \<noteq> []" using b(3) by simp
  also have "\<dots> \<longleftrightarrow> some_needs_act py repo ctx j (x # xs)"
    unfolding blocked_lines_iff [OF b(1)] Cons.IH [OF b(2)] by (simp add: x some_needs_act_def)
  finally show ?case .
qed (simp add: some_needs_act_def)

lemma native_blockers_iff:
  assumes "native_blockers py repo j ctx = Inr blockers"
  shows "blockers \<noteq> [] \<longleftrightarrow> some_needs_act py repo ctx j (numbered (wj_steps j))"
proof -
  obtain bs where bs: "traverse (blocked_lines py repo ctx j) (numbered (wj_steps j)) = Inr bs" "blockers = concat bs"
    using assms unfolding native_blockers_def rbind_Inr_conv blocked_lines_def by auto
  show ?thesis unfolding bs(2) by (rule traverse_blocked [OF bs(1)])
qed

lemma translate_job_native:
  assumes "translate_job py repo j ctx = Inr (blockers, Some c)"
  shows "\<exists>cs. list_all2 (\<lambda>(k, step) commands. step_done py repo ctx (step_label j k) step commands) (numbered (wj_steps j)) cs \<and> ct_steps c = concat cs"
proof -
  obtain ss where "workflow_to_contract py repo (j\<lparr>wj_services := ss\<rparr>) ctx = Inr c"
    using assms unfolding translate_job_def rbind_Inr_conv by (auto simp: rbind_Inr_conv split: if_splits)
  from native_steps_done [OF this] show ?thesis by (simp add: step_label_def)
qed

text \<open>
  C25: a job is translated whole or refused. The contract comes from a job that declares no construct the
  build leaves out and no checkout input, whose labels name no platform without an image. It asks for the
  Docker socket exactly when some step of the job needs the act engine, and then it is the act engine's contract for
  the whole job; otherwise every step, in order, contributes the commands it stands for and nothing else
  is run: a setup action those of its tool, a \<open>run\<close> its expanded text, a checkout or a blank \<open>run\<close> none.
\<close>

theorem job_is_translated_whole:
  assumes "resolve_workflow_contract py repo spec = Inr c"
  shows "\<exists>w j ctx blockers. resolve_workflow_job py repo spec = Inr (w, j) \<and> wj_unmapped j = [] \<and>
    run_context_for (py_shown py) spec (wf_name w) (wj_id j) (wj_env j) = Inr ctx \<and> ct_steps c \<noteq> [] \<and>
    (ct_docker c \<longleftrightarrow> some_needs_act py repo ctx j (numbered (wj_steps j))) \<and>
    (if ct_docker c then \<exists>img. c = act_contract py (act_request w j spec ctx blockers img)
     else \<exists>cs. list_all2 (\<lambda>(k, step) commands. step_done py repo ctx (step_label j k) step commands) (numbered (wj_steps j)) cs \<and>
            ct_steps c = concat cs) \<and>
    (\<forall>step \<in> set (wj_steps j). checkout_inputs py step = []) \<and>
    (\<forall>label \<in> set (wj_runs_on j). hosted_label label \<longrightarrow> map_of IMAGE_MAP (lower label) \<noteq> None)"
proof -
  obtain w j where job: "resolve_workflow_job py repo spec = Inr (w, j)" "contract_of_job py repo spec w j = Inr c"
    using assms by (auto simp: resolve_workflow_contract_def rbind_Inr_conv)
  then have un: "wj_unmapped j = []" by (auto simp: contract_of_job_def split: list.splits)
  obtain ctx blockers native where ctx: "run_context_for (py_shown py) spec (wf_name w) (wj_id j) (wj_env j) = Inr ctx"
      and tr: "translate_job py repo j ctx = Inr (blockers, native)" and res: "conclude_contract py w j spec ctx blockers native = Inr c"
    using job(2) un by (auto simp: contract_of_job_def rbind_Inr_conv)
  have img: "\<exists>img. runner_image j = Inr img" and shape: "(ct_docker c \<longleftrightarrow> blockers \<noteq> []) \<and> ct_steps c \<noteq> []"
    using res translate_job_Inr(3,4) [OF tr] by (auto simp: act_contract_def conclude_contract_def split: option.splits sum.splits workflow_error.splits)
  note blocked = native_blockers_iff [OF translate_job_Inr(1) [OF tr]]
  have whole: "if ct_docker c then \<exists>img. c = act_contract py (act_request w j spec ctx blockers img)
     else \<exists>cs. list_all2 (\<lambda>(k, step) commands. step_done py repo ctx (step_label j k) step commands) (numbered (wj_steps j)) cs \<and>
            ct_steps c = concat cs"
  proof (cases native)
    case None
    then have "\<exists>img. c = act_contract py (act_request w j spec ctx blockers img)"
      using res by (auto simp: conclude_contract_def split: sum.splits workflow_error.splits)
    then show ?thesis using None translate_job_Inr(3) [OF tr] shape by simp
  next
    case (Some n)
    then have "n = c" using res by (simp add: conclude_contract_def)
    then show ?thesis using Some translate_job_native tr translate_job_Inr(3) [OF tr] shape by simp
  qed
  show ?thesis
    using job(1) un ctx shape blocked whole translate_job_Inr(2) [OF tr] img runner_image_known by blast
qed

section \<open>A concrete repository\<close>

definition example_python :: python where
  "example_python = \<lparr>py_shown = (\<lambda>_. []), py_float = (\<lambda>_. None), py_int = (\<lambda>_. None), py_dumps = (\<lambda>_. ''{}'')\<rparr>"

definition example_yaml :: json where
  "example_yaml =
     JObj [(''jobs'', JObj [(''test'', JObj [(''if'', JStr (''github.ref == '' @ [CHR 0x27] @ ''refs/heads/main'' @ [CHR 0x27])),
       (''runs-on'', JStr ''ubuntu-latest''),
       (''steps'', JList [JObj [(''uses'', JStr ''actions/checkout@v4'')], JObj [(''run'', JStr ''make ${{ github.sha }}'')]])])])]"

definition example_repository :: repository where
  "example_repository =
     \<lparr>rp_entries = [(''README.md'', True), (''ci.yml'', True)],
      rp_files = [(''/r/ci.yml'', Yaml example_yaml (Some (JObj [(''push'', JObj [(''branches'', JList [JStr ''ma*''])])])))],
      rp_resolve = (\<lambda>p. if p = ''.github/workflows/ci.yml'' then Some ''/r/ci.yml'' else None), rp_inside = (\<lambda>_. True),
      rp_text = (\<lambda>_. None), rp_package = None\<rparr>"

definition example_spec :: job_spec where
  "example_spec = \<lparr>js_id = ''j1'', js_repository = ''o/r'', js_sha = ''c0ffee'', js_ref = ''refs/heads/main'', js_command = [], js_timeout = 3600\<rparr>"

lemma example_contract:
  "resolve_workflow_contract example_python example_repository example_spec =
     Inr \<lparr>ct_steps = [''make c0ffee''], ct_image = Some ''ubuntu:24.04'', ct_dockerfile = None, ct_env = [], ct_services = [],
          ct_timeout_minutes = None, ct_docker = False, ct_contract_only = False, ct_labels = [''ubuntu-latest'']\<rparr>"
  by code_simp

lemma example_job: "\<exists>w j. resolve_workflow_job example_python example_repository example_spec = Inr (w, j)"
  using example_contract by (auto simp: resolve_workflow_contract_def rbind_Inr_conv)

theorem selected_job_is_asked_for_witness:
  "\<exists>w j. resolve_workflow_job example_python example_repository example_spec = Inr (w, j) \<and>
     event_declares (wf_on w) (event_name_for example_spec) \<and> job_runs example_python j w example_spec = Inr True"
proof -
  obtain w j where "resolve_workflow_job example_python example_repository example_spec = Inr (w, j)" using example_job by blast
  then show ?thesis using selected_job_is_asked_for [of example_python example_repository example_spec w j] by blast
qed

theorem job_is_translated_whole_witness:
  "\<exists>w j ctx. resolve_workflow_job example_python example_repository example_spec = Inr (w, j) \<and>
     (\<exists>cs. list_all2 (\<lambda>(k, step) commands. step_done example_python example_repository ctx (step_label j k) step commands)
        (numbered (wj_steps j)) cs \<and> concat cs = [''make c0ffee''])"
proof -
  obtain w j ctx where w: "resolve_workflow_job example_python example_repository example_spec = Inr (w, j)"
      "\<exists>cs. list_all2 (\<lambda>(k, step) commands. step_done example_python example_repository ctx (step_label j k) step commands)
          (numbered (wj_steps j)) cs \<and> [''make c0ffee''] = concat cs"
    using job_is_translated_whole [OF example_contract] unfolding contract.simps if_False by (elim exE conjE) blast
  then show ?thesis by metis
qed

end
