(* ===== verification/Contract_Choice.thy ===== *)
theory Contract_Choice
  imports Workflow_Translation
begin

text \<open>
  Which CI definition answers for a run (\<open>inference.py\<close>): the repository's workflow, its contract, or the
  commands its lockfile implies. The decoded contract and \<open>package.json\<close> and the presence of the other files
  are fields of the checkout.
\<close>

record checkout =
  ck_repo :: repository
  ck_contract :: "json option option"
  ck_file :: "string \<Rightarrow> bool"
  ck_manifest :: "json option"

definition CONTRACT_PATH :: string where "CONTRACT_PATH = ''.cindral/ci.toml''"

fun error_text :: "workflow_error \<Rightarrow> string" where
  "error_text (Contract_Error m) = m"
| "error_text (Context_Error m) = m"
| "error_text (Workflow_Error m) = m"
| "error_text (Workflow_No_Match m) = m"
| "error_text (Workflow_Unsupported m) = m"
| "error_text (Workflow_Ambiguous m) = m"
| "error_text (Python_Error m) = m"

definition has_workflow :: "checkout \<Rightarrow> bool" where
  "has_workflow ck \<longleftrightarrow> workflow_files (ck_repo ck) \<noteq> []"

definition has_contract :: "checkout \<Rightarrow> bool" where
  "has_contract ck \<longleftrightarrow> ck_contract ck \<noteq> None"

definition committed_contract :: "checkout \<Rightarrow> workflow_error + contract" where
  "committed_contract ck = parse_contract (case ck_contract ck of None \<Rightarrow> None | Some toml \<Rightarrow> toml)"

definition declares_itself_ci :: "checkout \<Rightarrow> bool" where
  "declares_itself_ci ck \<longleftrightarrow>
     (case ck_contract ck of
        Some (Some (JObj data)) \<Rightarrow>
          (case map_of data ''ci'' of Some (JObj section) \<Rightarrow> map_of section ''contract_only'' = Some (JBool True) | _ \<Rightarrow> False)
      | _ \<Rightarrow> False)"

text \<open>Contracts implied by a lockfile.\<close>

definition plain_contract :: "string \<Rightarrow> string list \<Rightarrow> contract" where
  "plain_contract img steps =
     \<lparr>ct_steps = steps, ct_image = Some img, ct_dockerfile = None, ct_env = [], ct_services = [], ct_timeout_minutes = None,
      ct_docker = False, ct_contract_only = False, ct_labels = []\<rparr>"

definition ci_script :: "jobj \<Rightarrow> bool" where
  "ci_script data \<longleftrightarrow>
     (case map_of data ''scripts'' of
        Some (JObj scripts) \<Rightarrow> (case map_of scripts ''ci'' of Some (JStr s) \<Rightarrow> strip s \<noteq> [] | _ \<Rightarrow> False)
      | _ \<Rightarrow> False)"

definition infer_contract :: "checkout \<Rightarrow> workflow_error + contract" where
  "infer_contract ck =
     (let pnpm = ck_file ck ''pnpm-lock.yaml''; uv = ck_file ck ''uv.lock'' in
      if pnpm \<and> uv
      then Inl (Contract_Error ''both pnpm-lock.yaml and uv.lock exist; commit .cindral/ci.toml to choose CI commands'')
      else if pnpm
      then (case ck_manifest ck of
              None \<Rightarrow> Inl (Contract_Error ''pnpm-lock.yaml needs a readable package.json with a ci script'')
            | Some (JObj data) \<Rightarrow>
                if ci_script data
                then Inr (plain_contract ''node:22-bookworm'' [''corepack enable && pnpm install --frozen-lockfile'', ''pnpm run ci''])
                else Inl (Contract_Error ''pnpm-lock.yaml needs a package.json ci script; commit .cindral/ci.toml for other commands'')
            | Some _ \<Rightarrow> Inl (Contract_Error ''pnpm-lock.yaml needs a package.json ci script; commit .cindral/ci.toml for other commands''))
      else if uv
      then (if \<not> ck_file ck ''pyproject.toml''
            then Inl (Contract_Error ''uv.lock needs pyproject.toml; commit .cindral/ci.toml for other commands'')
            else if ck_file ck ''scripts/check.py''
            then Inr (plain_contract ''ghcr.io/astral-sh/uv:python3.12-bookworm'' [''uv sync --frozen'', ''uv run python scripts/check.py''])
            else Inl (Contract_Error ''uv.lock needs scripts/check.py; commit .cindral/ci.toml for other commands''))
      else Inl (Contract_Error
        ''no CI definition found; commit .cindral/ci.toml, a matching .github/workflows file, or a supported lockfile and CI script''))"

definition warning :: "string \<Rightarrow> string" where
  "warning m = ''cindral: warning: '' @ m @ [CHR 0x0A]"

text \<open>What follows once no workflow answered: the contract unless the workflows were ambiguous, else the lockfile.\<close>

definition without_workflow :: "checkout \<Rightarrow> bool \<Rightarrow> workflow_error + contract" where
  "without_workflow ck ambiguous = (if has_contract ck \<and> \<not> ambiguous then committed_contract ck else infer_contract ck)"

definition resolve_contract :: "python \<Rightarrow> checkout \<Rightarrow> job_spec \<Rightarrow> string list \<times> (workflow_error + contract)" where
  "resolve_contract py ck job =
     (if has_contract ck \<and> js_command job \<noteq> [] \<and> \<not> has_workflow ck then ([], committed_contract ck)
      else if js_command job = [] \<and> declares_itself_ci ck then ([], committed_contract ck)
      else if js_command job \<noteq> [] \<or> has_workflow ck
      then (case resolve_workflow_contract py (ck_repo ck) job of
              Inr c \<Rightarrow> ([], Inr c)
            | Inl (Workflow_No_Match m) \<Rightarrow>
                ([warning m, warning (''no committed workflow handles this event; running '' @
                    (if has_contract ck then CONTRACT_PATH else ''the inferred commands''))], without_workflow ck False)
            | Inl (Workflow_Ambiguous m) \<Rightarrow>
                ([warning m, warning ''running the inferred commands; name one workflow job to run instead''], without_workflow ck True)
            | Inl (Workflow_Unsupported m) \<Rightarrow>
                if \<not> has_contract ck then ([], Inl (Workflow_Unsupported m))
                else ([warning m, warning (''running '' @ CONTRACT_PATH @ '' instead of the committed workflow'')], committed_contract ck)
            | Inl e \<Rightarrow> ([], Inl e))
      else ([], without_workflow ck False))"

section \<open>Who answers\<close>

text \<open>
  A repository's workflow is not set aside silently: where it has one, the contract a run executes is the
  workflow's own, or the committed contract that declares itself the repository's CI, or the run's log opens
  with the reason the workflow did not answer, which is never that it is broken.
\<close>

lemma fallback_is_announced:
  assumes "has_workflow ck" and "resolve_contract py ck job = (notes, Inr c)"
  shows "resolve_workflow_contract py (ck_repo ck) job = Inr c \<and> notes = [] \<or>
    js_command job = [] \<and> declares_itself_ci ck \<and> committed_contract ck = Inr c \<and> notes = [] \<or>
    (\<exists>e. resolve_workflow_contract py (ck_repo ck) job = Inl e \<and> notes \<noteq> [] \<and> hd notes = warning (error_text e) \<and>
       (case e of
          Workflow_No_Match m \<Rightarrow> without_workflow ck False = Inr c
        | Workflow_Ambiguous m \<Rightarrow> infer_contract ck = Inr c
        | Workflow_Unsupported m \<Rightarrow> has_contract ck \<and> committed_contract ck = Inr c
        | _ \<Rightarrow> False))"
  using assms unfolding resolve_contract_def
  by (auto simp: without_workflow_def split: if_splits sum.splits workflow_error.splits)

text \<open>Only a workflow's job or a committed contract asks for the Docker socket.\<close>

lemma inferred_contract_shape:
  "infer_contract ck = Inr c \<Longrightarrow> \<not> ct_docker c \<and> ct_services c = [] \<and> ct_dockerfile c = None \<and> ct_labels c = []"
  by (auto simp: infer_contract_def plain_contract_def Let_def split: if_splits option.splits json.splits)

end
