(* ===== verification/Device_Client.thy ===== *)
theory Device_Client
  imports Artifact_Store Workflow_Context
begin

text \<open>
  Both ends of a device's requests: what the agent's client sends and makes of a reply
  (\<open>agent.py\<close>, \<open>artifact_client.py\<close>, \<open>build_info.py\<close>, \<open>errors.py\<close>) and how the broker reads the body
  of a job request (\<open>jobapi.py\<close>, \<open>service.py\<close>). A reply is the argument of the function that reads it,
  and so is the JSON decoder, which may also fail on bytes that are no text. A payload travels as the
  object it encodes.
\<close>

section \<open>Python conversions\<close>

text \<open>\<open>int\<close> of a text: blanks around it, a sign, digits with single underscores between them.\<close>

definition int_digits :: "string \<Rightarrow> int option" where
  "int_digits s =
     (let parts = split_char (CHR ''_'') s
      in if list_all (\<lambda>p. p \<noteq> [] \<and> list_all is_digit p) parts then Some (Step_Records.digits_value (concat parts)) else None)"

definition int_text :: "string \<Rightarrow> int option" where
  "int_text s =
     (case strip s of
        [] \<Rightarrow> None
      | c # ds \<Rightarrow>
          if c = CHR ''-'' then map_option uminus (int_digits ds)
          else if c = CHR ''+'' then int_digits ds
          else int_digits (c # ds))"

text \<open>\<open>int\<close> of a decoded value; a float is cut towards zero.\<close>

fun int_value :: "json \<Rightarrow> int result" where
  "int_value (JInt i) = Inr i"
| "int_value (JBool b) = Inr (if b then 1 else 0)"
| "int_value (JFloat x) = Inr (if 0 \<le> x then \<lfloor>x\<rfloor> else \<lceil>x\<rceil>)"
| "int_value (JStr s) =
     (case int_text s of
        Some i \<Rightarrow> Inr i
      | None \<Rightarrow> Inl (ValueError (''invalid literal for int() with base 10: '' @ [CHR 0x27] @ s @ [CHR 0x27])))"
| "int_value _ = Inl (TypeError ''int() argument must be a string, a bytes-like object or a real number'')"

text \<open>The values an iteration over a decoded value yields: a text its characters, an object its keys.\<close>

fun iterated :: "json \<Rightarrow> json list result" where
  "iterated (JList vs) = Inr vs"
| "iterated (JStr s) = Inr (map (\<lambda>c. JStr [c]) s)"
| "iterated (JObj kvs) = Inr (map (JStr \<circ> fst) kvs)"
| "iterated _ = Inl (TypeError ''object is not iterable'')"

definition item :: "jobj \<Rightarrow> string \<Rightarrow> json result" where
  "item kvs key = (case map_of kvs key of None \<Rightarrow> Inl (KeyError key) | Some v \<Rightarrow> Inr v)"

definition field_or :: "jobj \<Rightarrow> string \<Rightarrow> json \<Rightarrow> json" where
  "field_or kvs key v = (case map_of kvs key of None \<Rightarrow> v | Some w \<Rightarrow> w)"

text \<open>\<open>str(payload.get(key, "") or "")\<close>.\<close>

definition text_or_empty :: "(json \<Rightarrow> string) \<Rightarrow> jobj \<Rightarrow> string \<Rightarrow> string" where
  "text_or_empty shown kvs key = (let v = field_or kvs key (JStr []) in if truthy v then py_str shown v else [])"

section \<open>The broker reads a body\<close>

definition MAX_BODY :: int where "MAX_BODY = 1024 * 1024"

text \<open>
  What \<open>json.loads\<close> of some bytes yields: a value, or a decoding error, or the error of bytes that are no text, or
  the \<open>RecursionError\<close> of a value nested too deeply.
\<close>

datatype decoded = Json json | Not_Json string | Not_Text string | Too_Deep string

text \<open>
  \<open>_read_json\<close>: the length is the header's text, absent or empty for zero. A body that is no text
  raises a \<open>UnicodeDecodeError\<close>, which is a \<open>ValueError\<close> as a decoding error is. The bytes read are
  those the length announces; a negative length reads to the end.
\<close>

definition read_json :: "(string \<Rightarrow> decoded) \<Rightarrow> string option \<Rightarrow> string \<Rightarrow> jobj result" where
  "read_json loads content_length stream =
     rbind (case content_length of None \<Rightarrow> Inr 0 | Some t \<Rightarrow> if t = [] then Inr 0 else int_value (JStr t)) (\<lambda>len.
       if len > MAX_BODY then Inl (ValueError ''payload too large'')
       else let body = (if len < 0 then stream else take (nat len) stream)
            in if body = [] then Inr []
               else (case loads body of
                       Json (JObj kvs) \<Rightarrow> Inr kvs
                     | Json _ \<Rightarrow> Inl (ValueError ''body is not a JSON object'')
                     | Not_Json m \<Rightarrow> Inl (ValueError m)
                     | Not_Text m \<Rightarrow> Inl (ValueError m)
                     | Too_Deep _ \<Rightarrow> Inl RecursionError))"

definition empty_body :: "string \<Rightarrow> agent_body" where
  "empty_body device =
     \<lparr>ab_device = device, ab_labels = [], ab_lease = 0, ab_error = [], ab_exit_code = None, ab_log = [], ab_steps = JNull\<rparr>"

definition body_device :: "(json \<Rightarrow> string) \<Rightarrow> jobj \<Rightarrow> string result" where
  "body_device shown payload = rbind (item payload ''device'') (\<lambda>v. Inr (py_str shown v))"

definition body_lease :: "int \<Rightarrow> jobj \<Rightarrow> int result" where
  "body_lease lease_seconds payload = int_value (field_or payload ''lease_seconds'' (JInt lease_seconds))"

definition claim_body :: "(json \<Rightarrow> string) \<Rightarrow> int \<Rightarrow> jobj \<Rightarrow> agent_body result" where
  "claim_body shown lease_seconds payload =
     rbind (body_device shown payload) (\<lambda>device.
     rbind (iterated (field_or payload ''labels'' (JList []))) (\<lambda>labels.
     rbind (body_lease lease_seconds payload) (\<lambda>lease.
       Inr ((empty_body device)\<lparr>ab_labels := map (py_str shown) labels, ab_lease := lease\<rparr>))))"

definition renew_body :: "(json \<Rightarrow> string) \<Rightarrow> int \<Rightarrow> jobj \<Rightarrow> agent_body result" where
  "renew_body shown lease_seconds payload =
     rbind (body_device shown payload) (\<lambda>device.
     rbind (body_lease lease_seconds payload) (\<lambda>lease.
       Inr ((empty_body device)\<lparr>ab_lease := lease\<rparr>)))"

definition NO_VERDICT :: string where "NO_VERDICT = ''a report needs an exit code or a device error''"

definition body_exit_code :: "string \<Rightarrow> json \<Rightarrow> int option result" where
  "body_exit_code error reported =
     (if error = [] \<and> reported = JNull then Inl (ValueError NO_VERDICT)
      else if error \<noteq> [] then Inr None
      else rbind (int_value reported) (\<lambda>c. Inr (Some c)))"

definition report_body :: "(json \<Rightarrow> string) \<Rightarrow> jobj \<Rightarrow> agent_body result" where
  "report_body shown payload =
     rbind (body_device shown payload) (\<lambda>device.
     let error = strip (text_or_empty shown payload ''error'') in
     rbind (body_exit_code error (field_or payload ''exit_code'' JNull)) (\<lambda>exit_code.
       Inr ((empty_body device)\<lparr>ab_error := error, ab_exit_code := exit_code,
              ab_log := text_or_empty shown payload ''log'', ab_steps := field_or payload ''steps'' JNull\<rparr>)))"

text \<open>The job paths, with the body each handler reads; a path without a handler reads none.\<close>

definition path_body :: "(json \<Rightarrow> string) \<Rightarrow> int \<Rightarrow> string \<Rightarrow> jobj result \<Rightarrow> agent_body result" where
  "path_body shown lease_seconds path payload =
     rbind payload
       (if path = ''/v1/jobs/claim'' then claim_body shown lease_seconds
        else if path_action path = ''renew'' then renew_body shown lease_seconds
        else report_body shown)"

definition serve_jobs ::
  "(string \<Rightarrow> string) \<Rightarrow> (json \<Rightarrow> string) \<Rightarrow> agent_server \<Rightarrow> int \<Rightarrow> agent_request \<Rightarrow> jobj result \<Rightarrow> real \<Rightarrow> real \<Rightarrow> db \<Rightarrow>
   db \<times> posted list \<times> job_answer response" where
  "serve_jobs sha256 shown sv lease_seconds rq payload released_at now d =
     jobs_endpoint sha256 sv rq (path_body shown lease_seconds (clean_path (ar_path rq)) payload) released_at now d"

section \<open>The build a process runs\<close>

definition UNKNOWN :: string where "UNKNOWN = ''unknown''"

record build_info =
  bi_version :: string
  bi_commit :: string
  bi_built_at :: string

definition no_build :: build_info where
  "no_build = \<lparr>bi_version = UNKNOWN, bi_commit = UNKNOWN, bi_built_at = UNKNOWN\<rparr>"

definition build_dict :: "build_info \<Rightarrow> (string \<times> string) list" where
  "build_dict b = [(''version'', bi_version b), (''commit'', bi_commit b), (''built_at'', bi_built_at b)]"

definition or_unknown :: "string option \<Rightarrow> string" where
  "or_unknown v = (case v of None \<Rightarrow> UNKNOWN | Some s \<Rightarrow> if s = [] then UNKNOWN else s)"

definition current_build :: "(string \<Rightarrow> string option) \<Rightarrow> build_info" where
  "current_build environ =
     \<lparr>bi_version = or_unknown (environ ''CINDRAL_VERSION''), bi_commit = or_unknown (environ ''CINDRAL_COMMIT''),
      bi_built_at = or_unknown (environ ''CINDRAL_BUILT_AT'')\<rparr>"

text \<open>
  \<open>checkout_build\<close>: \<open>version_file\<close> is the text of the checkout's \<open>VERSION\<close>, where it can be read, and
  \<open>shown\<close> what the one git call prints, where it exits with zero.
\<close>

definition checkout_build :: "string option \<Rightarrow> string option \<Rightarrow> build_info" where
  "checkout_build version_file printed =
     (let version = or_unknown (map_option strip version_file)
      in case printed of
           None \<Rightarrow> no_build\<lparr>bi_version := version\<rparr>
         | Some out \<Rightarrow>
             (let t = strip out; head = before (CHR 0x0A) t; rest = after (CHR 0x0A) t
              in \<lparr>bi_version = version,
                  bi_commit = (if head = [] then UNKNOWN else or_unknown (Some (strip head))),
                  bi_built_at = or_unknown (Some (strip rest))\<rparr>))"

definition label_escape :: "string \<Rightarrow> string" where
  "label_escape s = concat (map (\<lambda>c. if c = CHR 0x5C then [CHR 0x5C, CHR 0x5C]
                                  else if c = CHR 0x22 then [CHR 0x5C, CHR 0x22]
                                  else if c = CHR 0x0A then '' '' else [c]) s)"

definition build_labels :: "build_info \<Rightarrow> string" where
  "build_labels b =
     ''version='' @ [CHR 0x22] @ label_escape (bi_version b) @ [CHR 0x22] @ '',commit='' @ [CHR 0x22] @ label_escape (bi_commit b) @ [CHR 0x22]"

section \<open>The client of the agent\<close>

record client =
  cl_base_url :: string
  cl_token :: string
  cl_build :: build_info
  cl_broker_build :: "(string \<times> string) list"

definition new_client :: "string \<Rightarrow> string \<Rightarrow> build_info \<Rightarrow> client" where
  "new_client base_url token build =
     \<lparr>cl_base_url = rev (dropWhile (\<lambda>c. c = CHR ''/'') (rev base_url)), cl_token = token, cl_build = build, cl_broker_build = []\<rparr>"

record http_request =
  hq_method :: string
  hq_url :: string
  hq_authorization :: string
  hq_payload :: jobj

text \<open>What comes back: a reply, a refusal with its body, an address that cannot be reached, a reply that breaks off.\<close>

datatype transport = Replied nat string | Http_Refused nat string | Unreachable string | Broken_Off string

text \<open>\<open>Decode_Error\<close> is what the client does not turn into an error of its own: a reply that is no text, or nested too deeply.\<close>

datatype client_exn = Cindral_Error string "nat option" | Decode_Error string

definition client_request :: "client \<Rightarrow> string \<Rightarrow> string \<Rightarrow> jobj \<Rightarrow> http_request" where
  "client_request c meth path payload =
     \<lparr>hq_method = meth, hq_url = cl_base_url c @ path, hq_authorization = ''Bearer '' @ cl_token c, hq_payload = payload\<rparr>"

fun client_reply :: "(string \<Rightarrow> decoded) \<Rightarrow> transport \<Rightarrow> client_exn + nat \<times> jobj" where
  "client_reply loads (Http_Refused code detail) =
     Inl (Cindral_Error (''relay request failed with HTTP '' @ nat_str code @ '': '' @ detail) (Some code))"
| "client_reply loads (Unreachable reason) = Inl (Cindral_Error (''relay request failed: '' @ reason) None)"
| "client_reply loads (Broken_Off reason) = Inl (Cindral_Error (''relay request failed: '' @ reason) None)"
| "client_reply loads (Replied status body) =
     (if body = [] then Inr (status, [])
      else case loads body of
             Json (JObj kvs) \<Rightarrow> Inr (status, kvs)
           | Json _ \<Rightarrow> Inl (Cindral_Error ''relay returned a non-object response'' None)
           | Not_Json _ \<Rightarrow> Inl (Cindral_Error ''relay returned invalid JSON'' None)
           | Not_Text m \<Rightarrow> Inl (Decode_Error m)
           | Too_Deep m \<Rightarrow> Inl (Decode_Error m))"

definition job_path :: "string \<Rightarrow> string \<Rightarrow> string" where
  "job_path i action = JOBS_PATH @ i @ ''/'' @ action"

definition claim_request :: "client \<Rightarrow> string \<Rightarrow> string list \<Rightarrow> int \<Rightarrow> http_request" where
  "claim_request c device labels lease =
     client_request c ''POST'' ''/v1/jobs/claim''
       [(''device'', JStr device), (''labels'', JList (map JStr labels)), (''lease_seconds'', JInt lease)]"

definition job_spec_from :: "(json \<Rightarrow> string) \<Rightarrow> jobj \<Rightarrow> job_spec result" where
  "job_spec_from shown kvs =
     (let text = (\<lambda>key. rbind (item kvs key) (\<lambda>v. Inr (py_str shown v))) in
      rbind (text ''id'') (\<lambda>i.
      rbind (text ''repository'') (\<lambda>repository.
      rbind (text ''sha'') (\<lambda>sha.
      rbind (text ''ref'') (\<lambda>ref.
      rbind (iterated (field_or kvs ''command'' (JList []))) (\<lambda>parts.
      rbind (int_value (field_or kvs ''timeout'' (JInt 3600))) (\<lambda>timeout.
        Inr \<lparr>js_id = i, js_repository = repository, js_sha = sha, js_ref = ref,
             js_command = map (py_str shown) parts, js_timeout = timeout\<rparr>)))))))"

definition MALFORMED :: client_exn where "MALFORMED = Cindral_Error ''relay returned a malformed job'' None"

definition claim_reply :: "(json \<Rightarrow> string) \<Rightarrow> (string \<Rightarrow> decoded) \<Rightarrow> transport \<Rightarrow> client_exn + job_spec option" where
  "claim_reply shown loads tr =
     rbind (client_reply loads tr) (\<lambda>(_, payload).
       let job = field_or payload ''job'' JNull
       in if \<not> truthy job then Inr None
          else (case job of
                  JObj kvs \<Rightarrow> (case job_spec_from shown kvs of Inr spec \<Rightarrow> Inr (Some spec) | Inl _ \<Rightarrow> Inl MALFORMED)
                | _ \<Rightarrow> Inl MALFORMED))"

definition renew_request :: "client \<Rightarrow> string \<Rightarrow> string \<Rightarrow> int \<Rightarrow> http_request" where
  "renew_request c i device lease =
     client_request c ''POST'' (job_path i ''renew'') [(''device'', JStr device), (''lease_seconds'', JInt lease)]"

definition renew_reply :: "(string \<Rightarrow> decoded) \<Rightarrow> transport \<Rightarrow> client_exn + unit" where
  "renew_reply loads tr = rbind (client_reply loads tr) (\<lambda>_. Inr ())"

definition heartbeat_request :: "client \<Rightarrow> string \<Rightarrow> string list \<Rightarrow> int \<Rightarrow> http_request" where
  "heartbeat_request c device labels max_concurrency =
     client_request c ''POST'' ''/v1/agents/heartbeat''
       [(''device'', JStr device), (''labels'', JList (map JStr labels)), (''max_concurrency'', JInt max_concurrency),
        (''build'', JObj (map (\<lambda>(k, v). (k, JStr v)) (build_dict (cl_build c))))]"

definition heartbeat_reply :: "(string \<Rightarrow> decoded) \<Rightarrow> transport \<Rightarrow> client \<Rightarrow> client_exn + client" where
  "heartbeat_reply loads tr c =
     rbind (client_reply loads tr) (\<lambda>(_, payload).
       Inr (case field_or payload ''broker_build'' JNull of
              JObj kvs \<Rightarrow> (case strings_of (map snd kvs) of
                             Some vs \<Rightarrow> c\<lparr>cl_broker_build := zip (map fst kvs) vs\<rparr>
                           | None \<Rightarrow> c)
            | _ \<Rightarrow> c))"

definition with_record :: "string \<Rightarrow> json list \<Rightarrow> jobj" where
  "with_record log_text steps =
     (if log_text = [] then [] else [(''log'', JStr log_text)]) @ (if steps = [] then [] else [(''steps'', JList steps)])"

definition report_request :: "client \<Rightarrow> string \<Rightarrow> string \<Rightarrow> int \<Rightarrow> string \<Rightarrow> json list \<Rightarrow> http_request" where
  "report_request c i device exit_code log_text steps =
     client_request c ''POST'' (job_path i ''report'')
       ([(''device'', JStr device), (''exit_code'', JInt exit_code)] @ with_record log_text steps)"

definition report_lost_request :: "client \<Rightarrow> string \<Rightarrow> string \<Rightarrow> string \<Rightarrow> string \<Rightarrow> json list \<Rightarrow> http_request" where
  "report_lost_request c i device error log_text steps =
     client_request c ''POST'' (job_path i ''report'')
       ([(''device'', JStr device), (''error'', JStr (take MAX_ERROR_CHARS error))] @ with_record log_text steps)"

section \<open>The upload of an archive\<close>

definition MAX_ARTIFACT_BYTES :: int where "MAX_ARTIFACT_BYTES = 64 * 1024 * 1024"

datatype upload_exn = Artifact_Client_Error string | Os_Error string | Upload_Decode_Error string

text \<open>\<open>size\<close> is the archive's size, or the text of the error that kept the file from being read.\<close>

fun upload_answer :: "(string \<Rightarrow> decoded) \<Rightarrow> transport \<Rightarrow> upload_exn + jobj" where
  "upload_answer loads (Http_Refused code detail) =
     Inl (Artifact_Client_Error (''artifact upload failed with HTTP '' @ nat_str code @ '': '' @ detail))"
| "upload_answer loads (Unreachable reason) = Inl (Artifact_Client_Error (''artifact upload failed: '' @ reason))"
| "upload_answer loads (Broken_Off reason) = Inl (Artifact_Client_Error (''artifact upload failed: '' @ reason))"
| "upload_answer loads (Replied status payload) =
     (if status \<notin> {200, 201} then Inl (Artifact_Client_Error (''artifact upload failed with HTTP '' @ nat_str status))
      else if payload = [] then Inr []
      else case loads payload of
             Json (JObj kvs) \<Rightarrow> Inr kvs
           | Json _ \<Rightarrow> Inl (Artifact_Client_Error ''artifact upload returned a non-object response'')
           | Not_Json _ \<Rightarrow> Inl (Artifact_Client_Error ''artifact upload returned invalid JSON'')
           | Not_Text m \<Rightarrow> Inl (Upload_Decode_Error m)
           | Too_Deep m \<Rightarrow> Inl (Upload_Decode_Error m))"

definition upload_reply :: "(string \<Rightarrow> decoded) \<Rightarrow> string + int \<Rightarrow> transport \<Rightarrow> upload_exn + jobj" where
  "upload_reply loads archive_size tr =
     (case archive_size of
        Inl m \<Rightarrow> Inl (Os_Error m)
      | Inr len \<Rightarrow>
          if len > MAX_ARTIFACT_BYTES then Inl (Artifact_Client_Error ''artifact archive exceeds the upload size limit'')
          else upload_answer loads tr)"

end
