(* ===== verification/Device_Readiness.thy ===== *)
theory Device_Readiness
  imports Device_Client
begin

text \<open>
  Whether a device may claim work: its code is not behind the broker's (\<open>freshness.py\<close>) and Docker
  answers (\<open>preflight.py\<close>). What git and Docker answer are arguments. The history a checkout holds is an
  ancestry relation in the specification of the comparison, and git's documented answers about it are
  the hypothesis of the theorem that relates the two.
\<close>

section \<open>Bounded texts\<close>

text \<open>\<open>" ".join(s.split())\<close>.\<close>

definition flatten :: "string \<Rightarrow> string" where
  "flatten s = join_with '' '' (filter (\<lambda>w. w \<noteq> []) (split_char (CHR '' '') (map (\<lambda>c. if is_space c then CHR '' '' else c) s)))"

definition error_line :: "string \<Rightarrow> string \<Rightarrow> string" where
  "error_line type_name message = take MAX_ERROR_CHARS (flatten (type_name @ '': '' @ message))"

section \<open>Work done at most once in an interval\<close>

definition FETCH_INTERVAL_SECONDS :: real where "FETCH_INTERVAL_SECONDS = 300"

record throttle =
  th_interval :: real
  th_last :: "real option"

definition new_throttle :: throttle where
  "new_throttle = \<lparr>th_interval = FETCH_INTERVAL_SECONDS, th_last = None\<rparr>"

text \<open>One call: the state after it, and whether the work ran.\<close>

definition throttled :: "real \<Rightarrow> throttle \<Rightarrow> throttle \<times> bool" where
  "throttled moment th =
     (if (case th_last th of None \<Rightarrow> False | Some ran_at \<Rightarrow> moment - ran_at < th_interval th) then (th, False)
      else (th\<lparr>th_last := Some moment\<rparr>, True))"

section \<open>Behind the broker\<close>

definition NOT_AN_ANCESTOR :: int where "NOT_AN_ANCESTOR = 1"

text \<open>
  What git answers about one pair of commits: the status of \<open>cat-file\<close>, which a fetch made by this
  comparison may change, the output of \<open>rev-parse\<close>, the status of \<open>merge-base\<close> and the printed count.
\<close>

record git_answers =
  ga_has :: "bool \<Rightarrow> int option"
  ga_shallow :: "string option"
  ga_relation :: "int option"
  ga_count :: "string option"

definition has_object :: "git_answers \<Rightarrow> bool \<Rightarrow> bool" where
  "has_object ga fetched \<longleftrightarrow> ga_has ga fetched = Some 0"

definition is_shallow :: "git_answers \<Rightarrow> bool" where
  "is_shallow ga \<longleftrightarrow> (case ga_shallow ga of None \<Rightarrow> True | Some out \<Rightarrow> strip out \<noteq> ''false'')"

definition commit_count :: "git_answers \<Rightarrow> int option" where
  "commit_count ga = Option.bind (ga_count ga) int_text"

definition behind_text :: "string \<Rightarrow> string \<Rightarrow> (string \<times> string) list \<Rightarrow> int option \<Rightarrow> bool \<Rightarrow> bool \<Rightarrow> string" where
  "behind_text own broker build distance missing shallow =
     (let version = (case map_of build ''version'' of None \<Rightarrow> ''no version'' | Some v \<Rightarrow> if v = [] then ''no version'' else v);
          far = (case distance of None \<Rightarrow> ''an unknown number of'' | Some n \<Rightarrow> int_str n) @ '' commit(s) behind'';
          how = (if missing then ''which this checkout does not have; run git fetch in the agent's checkout''
                 else if shallow then far @ '' (the history here is shallow, so this is a lower bound)''
                 else far)
      in ''this device runs '' @ take 8 own @ '' '' @ version @ '' and the broker runs '' @ take 8 broker @ '', '' @ how)"

text \<open>The part of the comparison that asks git; \<open>fetch\<close> is absent for a device without a checkout to fetch into.\<close>

definition compare_commits ::
  "string \<Rightarrow> string \<Rightarrow> (string \<times> string) list \<Rightarrow> git_answers \<Rightarrow> bool \<Rightarrow> string option" where
  "compare_commits own broker build ga fetched =
     (if \<not> has_object ga fetched then Some (behind_text own broker build None True False)
      else if is_shallow ga then Some (behind_text own broker build (commit_count ga) False True)
      else if ga_relation ga = Some 0 then Some (behind_text own broker build (commit_count ga) False False)
      else if ga_relation ga = Some NOT_AN_ANCESTOR then None
      else None)"

definition behind_reason ::
  "string \<Rightarrow> string \<Rightarrow> bool \<Rightarrow> (string \<times> string) list \<Rightarrow> real \<Rightarrow> git_answers \<Rightarrow> throttle option \<Rightarrow> throttle option \<times> string option" where
  "behind_reason own_commit broker_commit checkout build moment ga fetch =
     (let own = strip own_commit; broker = strip broker_commit
      in if own = [] \<or> broker = [] \<or> own = UNKNOWN \<or> broker = UNKNOWN then (fetch, None)
         else if own = broker then (fetch, None)
         else if \<not> checkout then (fetch, None)
         else (case (has_object ga False, fetch) of
                 (False, Some th) \<Rightarrow>
                   (let (th', ran) = throttled moment th in (Some th', compare_commits own broker build ga ran))
               | _ \<Rightarrow> (fetch, compare_commits own broker build ga False)))"

section \<open>Docker answers\<close>

record preflight =
  pf_docker :: string
  pf_interval :: real
  pf_unanswered :: string
  pf_reported :: "(bool \<times> string) option"
  pf_ready :: bool
  pf_checked :: "real option"

definition PREFLIGHT_INTERVAL_SECONDS :: real where "PREFLIGHT_INTERVAL_SECONDS = 60"

text \<open>\<open>seconds\<close> is the deadline of a probe as the message shows it.\<close>

definition new_preflight :: "string \<Rightarrow> real \<Rightarrow> string \<Rightarrow> preflight" where
  "new_preflight docker interval seconds =
     \<lparr>pf_docker = docker, pf_interval = interval,
      pf_unanswered = ''the '' @ docker @ '' check did not answer within '' @ seconds @ ''s'',
      pf_reported = None, pf_ready = False, pf_checked = None\<rparr>"

datatype captured = Captured int string | Capture_Raised string string

definition probe_outcome :: "string \<Rightarrow> bool \<Rightarrow> captured \<Rightarrow> bool \<times> string" where
  "probe_outcome docker on_path c =
     (if \<not> on_path then (False, docker @ '' is not on PATH'')
      else case c of
             Captured code out \<Rightarrow>
               (let line = take MAX_ERROR_CHARS (flatten out); detail = (if line = [] then ''no output'' else line)
                in if code = 0 then (True, docker @ '' answers'')
                   else (False, docker @ '' cannot reach its daemon (exit '' @ int_str code @ ''): '' @ detail))
           | Capture_Raised type_name message \<Rightarrow> (False, error_line type_name message))"

definition announce_ready :: "bool \<times> string \<Rightarrow> preflight \<Rightarrow> preflight \<times> string list \<times> bool" where
  "announce_ready outcome pf =
     (if pf_reported pf = Some outcome then (pf, [], fst outcome)
      else (pf\<lparr>pf_reported := Some outcome\<rparr>,
            [''cindral: '' @ snd outcome @ '', claiming '' @ (if fst outcome then ''jobs'' else ''no jobs'')], fst outcome))"

text \<open>
  \<open>ready\<close>: \<open>alive\<close> says that an earlier probe still runs, and \<open>answer\<close> is this probe's outcome, or None
  when it does not answer within its deadline.
\<close>

definition preflight_ready ::
  "real \<Rightarrow> bool \<Rightarrow> (bool \<times> string) option \<Rightarrow> preflight \<Rightarrow> preflight \<times> string list \<times> bool" where
  "preflight_ready now alive answer pf =
     (if (case pf_checked pf of None \<Rightarrow> False | Some t \<Rightarrow> now - t < pf_interval pf) then (pf, [], pf_ready pf)
      else if alive then announce_ready (False, pf_unanswered pf) pf
      else let outcome = (case answer of None \<Rightarrow> (False, pf_unanswered pf) | Some out \<Rightarrow> out);
               (pf', notes, ready) = announce_ready outcome (pf\<lparr>pf_checked := Some now\<rparr>)
           in (pf'\<lparr>pf_ready := ready\<rparr>, notes, ready))"

section \<open>Texts are kept non-empty\<close>

lemma split_char_no_sep: "w \<in> set (split_char c s) \<Longrightarrow> c \<notin> set w"
  by (induction s arbitrary: w) (auto split: list.splits if_splits)

lemma concat_split_char: "concat (split_char c s) = filter (\<lambda>x. x \<noteq> c) s"
  by (induction s) (auto split: list.splits)

lemma split_char_concat_set: "set (concat (split_char c s)) = set s - {c}"
  unfolding concat_split_char by auto

lemma join_with_hd: "ws \<noteq> [] \<Longrightarrow> hd ws \<noteq> [] \<Longrightarrow> join_with sep ws \<noteq> [] \<and> hd (join_with sep ws) = hd (hd ws)"
  by (cases "(sep, ws)" rule: join_with.cases) auto

lemma is_space_blank [simp]: "is_space CHR '' ''"
  by (simp add: is_space_def)

lemma flatten_starts:
  assumes "c \<in> set s" and "\<not> is_space c"
  shows "flatten s \<noteq> [] \<and> \<not> is_space (hd (flatten s))"
proof -
  let ?t = "map (\<lambda>c. if is_space c then CHR '' '' else c) s"
  let ?ws = "filter (\<lambda>w. w \<noteq> []) (split_char (CHR '' '') ?t)"
  have c: "c \<in> set ?t - {CHR '' ''}" using assms by (auto simp: image_iff intro: bexI [of _ c])
  have t: "is_space x \<Longrightarrow> x = CHR '' ''" if "x \<in> set ?t" for x using that by (auto split: if_splits)
  have "c \<in> set (concat (split_char (CHR '' '') ?t))" using c unfolding split_char_concat_set .
  then have ne: "?ws \<noteq> []" unfolding filter_empty_conv by (metis (no_types, lifting) UN_iff list.set(1) empty_iff set_concat)
  then have hd_in: "hd ?ws \<in> set ?ws" by (rule hd_in_set)
  then have h: "hd ?ws \<noteq> []" "hd ?ws \<in> set (split_char (CHR '' '') ?t)" by auto
  have in_word: "hd (hd ?ws) \<in> set (hd ?ws)" using h(1) by simp
  have "hd (hd ?ws) \<in> set (concat (split_char (CHR '' '') ?t))" using in_word h(2) unfolding set_concat by blast
  then have "hd (hd ?ws) \<in> set ?t" "hd (hd ?ws) \<noteq> CHR '' ''" unfolding split_char_concat_set by blast+
  then have "\<not> is_space (hd (hd ?ws))" using t by blast
  with join_with_hd [OF ne h(1), of "'' ''"] show ?thesis by (simp add: flatten_def)
qed

lemma error_line_starts: "error_line n m \<noteq> [] \<and> \<not> is_space (hd (error_line n m))"
  using flatten_starts [of "CHR '':''" "n @ '': '' @ m"]
  by (auto simp: error_line_def is_space_def MAX_ERROR_CHARS_def)

lemma strip_nonempty: "s \<noteq> [] \<Longrightarrow> \<not> is_space (hd s) \<Longrightarrow> strip s \<noteq> []"
  by (cases s) (auto simp: strip_def dropWhile_eq_Nil_conv)

lemma length_error_line: "length (error_line n m) \<le> MAX_ERROR_CHARS"
  by (simp add: error_line_def)

section \<open>The comparison answers what the history says\<close>

text \<open>
  What git documents of its answers about a complete clone that holds the commits \<open>objects fetched\<close> (a
  fetch may add some) whose ancestry is \<open>reaches\<close>: \<open>cat-file -e\<close> exits with zero exactly for a commit it
  holds, \<open>rev-parse --is-shallow-repository\<close> prints \<open>false\<close>, and \<open>merge-base --is-ancestor\<close> on two commits
  it holds exits with zero for an ancestor and one otherwise.
\<close>

definition git_tells :: "(bool \<Rightarrow> string set) \<Rightarrow> (string \<Rightarrow> string \<Rightarrow> bool) \<Rightarrow> string \<Rightarrow> string \<Rightarrow> git_answers \<Rightarrow> bool" where
  "git_tells objects reaches own broker ga \<longleftrightarrow>
     (\<forall>fetched. ga_has ga fetched = Some 0 \<longleftrightarrow> broker \<in> objects fetched) \<and>
     map_option strip (ga_shallow ga) = Some ''false'' \<and>
     ga_relation ga = Some (if reaches own broker then 0 else NOT_AN_ANCESTOR)"

definition names_two_builds :: "string \<Rightarrow> string \<Rightarrow> bool" where
  "names_two_builds own broker \<longleftrightarrow>
     strip own \<notin> {[], UNKNOWN} \<and> strip broker \<notin> {[], UNKNOWN} \<and> strip own \<noteq> strip broker"

lemma compare_commits_spec:
  assumes "git_tells objects reaches own broker ga"
  shows "compare_commits own broker build ga fetched \<noteq> None \<longleftrightarrow> broker \<notin> objects fetched \<or> reaches own broker"
  using assms
  by (auto simp: git_tells_def compare_commits_def has_object_def is_shallow_def NOT_AN_ANCESTOR_def split: option.splits)

lemma behind_reason_spec:
  assumes "git_tells objects reaches (strip own) (strip broker) ga" and "objects False \<subseteq> objects True"
    and "names_two_builds own broker"
    and "behind_reason own broker True build moment ga fetch = (fetch', why)"
  shows "why = None \<Longrightarrow> strip broker \<in> objects True \<and> \<not> reaches (strip own) (strip broker)"
    and "strip broker \<in> objects False \<Longrightarrow> \<not> reaches (strip own) (strip broker) \<Longrightarrow> why = None"
proof -
  let ?c = "compare_commits (strip own) (strip broker) build ga"
  have asked: "(has_object ga False \<longrightarrow> why = ?c False) \<and> (\<exists>fetched. why = ?c fetched)"
    using assms(3,4) unfolding behind_reason_def names_two_builds_def Let_def
    by (auto split: if_splits option.splits bool.splits prod.splits)
  then obtain fetched where why: "why = ?c fetched" by blast
  show "strip broker \<in> objects True \<and> \<not> reaches (strip own) (strip broker)" if "why = None"
    using that why compare_commits_spec [OF assms(1), of build fetched] assms(2) by (cases fetched) auto
  show "why = None" if "strip broker \<in> objects False" "\<not> reaches (strip own) (strip broker)"
    using that asked compare_commits_spec [OF assms(1), of build False] assms(1) by (auto simp: git_tells_def has_object_def)
qed

section \<open>Readiness was proved recently\<close>

text \<open>A sequence of asks; the ghost component is the instant and the outcome of the last probe that was started.\<close>

definition preflight_ok :: "preflight \<Rightarrow> (real \<times> bool) option \<Rightarrow> bool" where
  "preflight_ok pf probe \<longleftrightarrow> pf_checked pf = map_option fst probe \<and> (pf_ready pf \<longrightarrow> map_option snd probe = Some True)"

definition probed ::
  "real \<Rightarrow> bool \<Rightarrow> (bool \<times> string) option \<Rightarrow> preflight \<Rightarrow> (real \<times> bool) option \<Rightarrow> (real \<times> bool) option" where
  "probed now alive answer pf probe =
     (if (case pf_checked pf of None \<Rightarrow> False | Some t \<Rightarrow> now - t < pf_interval pf) \<or> alive then probe
      else Some (now, case answer of None \<Rightarrow> False | Some out \<Rightarrow> fst out))"

lemma announce_ready_simps [simp]:
  "snd (snd (announce_ready outcome pf)) = fst outcome"
  "pf_checked (fst (announce_ready outcome pf)) = pf_checked pf"
  "pf_ready (fst (announce_ready outcome pf)) = pf_ready pf"
  "pf_interval (fst (announce_ready outcome pf)) = pf_interval pf"
  by (simp_all add: announce_ready_def)

lemma preflight_ready_ok:
  assumes "preflight_ok pf probe" and "preflight_ready now alive answer pf = (pf', notes, ready)"
  shows "preflight_ok pf' (probed now alive answer pf probe) \<and>
    (ready \<longrightarrow> 0 < pf_interval pf \<longrightarrow> (\<exists>t. probed now alive answer pf probe = Some (t, True) \<and> now - t < pf_interval pf))"
proof (cases "case pf_checked pf of None \<Rightarrow> False | Some t \<Rightarrow> now - t < pf_interval pf")
  case True
  then have "pf' = pf \<and> ready = pf_ready pf \<and> probed now alive answer pf probe = probe"
    using assms(2) by (auto simp: preflight_ready_def probed_def)
  then show ?thesis using True assms(1) by (cases probe) (auto simp: preflight_ok_def)
next
  case False
  then show ?thesis
    using assms by (cases alive; cases answer) (auto simp: preflight_ready_def probed_def preflight_ok_def announce_ready_def Let_def split: if_splits)
qed

end
