(* ===== verification/Device_Agent.thy ===== *)
theory Device_Agent
  imports Device_Readiness
begin

text \<open>
  The agent on a device (\<open>agent.py\<close>, \<open>heartbeats.py\<close>, \<open>artifact_upload.py\<close>): the thread that keeps a
  run's lease, the thread that announces the device, and one pass of the claim loop, which is a function
  from what the pass is answered to what it does. Shown are when a lease counts as lost, that a run whose
  lease is renewed stays with its device, and what the broker's row says after the device's report. The
  clock, the replies, the executor and whether a lease was lost by then are arguments; the slots' threads
  repeat the pass.
\<close>

section \<open>The lease thread\<close>

definition LEASE_LOST_STATUSES :: "nat set" where "LEASE_LOST_STATUSES = {404, 409}"

text \<open>
  \<open>lt_running\<close> ends when the thread returns. \<open>lost\<close> and \<open>cancel\<close> are set together, so one flag stands for
  both events.
\<close>

record lease_thread =
  lt_lease :: int
  lt_deadline :: real
  lt_noted :: bool
  lt_lost :: bool
  lt_running :: bool

definition lease_interval :: "int \<Rightarrow> int" where
  "lease_interval lease = max 1 (lease div 3)"

definition lease_start :: "int \<Rightarrow> real \<Rightarrow> lease_thread" where
  "lease_start lease now =
     \<lparr>lt_lease = lease, lt_deadline = now + of_int lease, lt_noted = False, lt_lost = False, lt_running = True\<rparr>"

definition lose_lease :: "lease_thread \<Rightarrow> lease_thread" where
  "lose_lease st = st\<lparr>lt_lost := True, lt_running := False\<rparr>"

text \<open>One round after the interval has passed: the reply to the renewal, and the clock after it.\<close>

definition lease_tick :: "(string \<Rightarrow> decoded) \<Rightarrow> transport \<Rightarrow> real \<Rightarrow> lease_thread \<Rightarrow> lease_thread \<times> string list" where
  "lease_tick loads reply now st =
     (if \<not> lt_running st then (st, [])
      else case renew_reply loads reply of
             Inr _ \<Rightarrow> (st\<lparr>lt_deadline := now + of_int (lt_lease st), lt_noted := False\<rparr>, [])
           | Inl (Cindral_Error m status) \<Rightarrow>
               if (case status of None \<Rightarrow> False | Some c \<Rightarrow> c \<in> LEASE_LOST_STATUSES) then (lose_lease st, [])
               else if now \<ge> lt_deadline st then (lose_lease st, [])
               else if \<not> lt_noted st
               then (st\<lparr>lt_noted := True\<rparr>, [''cindral: lease renewal failed ('' @ m @ ''), retrying before it lapses''])
               else (st, [])
           | Inl (Decode_Error m) \<Rightarrow> (st\<lparr>lt_running := False\<rparr>, []))"

definition lease_ticks :: "(string \<Rightarrow> decoded) \<Rightarrow> lease_thread \<Rightarrow> (transport \<times> real) list \<Rightarrow> lease_thread" where
  "lease_ticks loads = foldl (\<lambda>st (reply, now). fst (lease_tick loads reply now st))"

section \<open>The announcing thread\<close>

text \<open>One beat: \<open>failure\<close> is the text of what announcing raised, and \<open>broken\<close> that the last beat failed.\<close>

definition agent_beat :: "string option \<Rightarrow> bool \<Rightarrow> bool \<times> string list" where
  "agent_beat failure broken =
     (case failure of
        Some m \<Rightarrow> (True, if broken then [] else [''cindral: heartbeat failed, claiming continues: '' @ m])
      | None \<Rightarrow> (False, if broken then [''cindral: heartbeat recovered''] else []))"

section \<open>The agent\<close>

definition ONLINE_WINDOW_SECONDS :: real where "ONLINE_WINDOW_SECONDS = 60"
definition MAX_HEARTBEAT_SECONDS :: real where "MAX_HEARTBEAT_SECONDS = ONLINE_WINDOW_SECONDS / 2"
definition MIN_IDLE_SECONDS :: real where "MIN_IDLE_SECONDS = 1 / 10"

record agent =
  ag_client :: client
  ag_device :: string
  ag_labels :: "string list"
  ag_lease_seconds :: int
  ag_idle_seconds :: real
  ag_max_concurrency :: int
  ag_heartbeat_seconds :: real
  ag_preflight :: "preflight option"
  ag_source_root :: "string option"
  ag_fetch :: "throttle option"
  ag_behind_note :: "string option"

definition new_agent ::
  "client \<Rightarrow> string \<Rightarrow> string list \<Rightarrow> int \<Rightarrow> real \<Rightarrow> int \<Rightarrow> real \<Rightarrow> preflight option \<Rightarrow> string option \<Rightarrow> agent result" where
  "new_agent c device labels lease idle max_concurrency beat pf source_root =
     (if \<not> (1 \<le> max_concurrency \<and> max_concurrency \<le> MAX_CONCURRENCY)
      then Inl (ValueError ''max_concurrency must be between 1 and 1024'')
      else if \<not> (0 < beat \<and> beat \<le> MAX_HEARTBEAT_SECONDS)
      then Inl (ValueError ''heartbeat_seconds must be between 0 and 30.0'')
      else if idle < MIN_IDLE_SECONDS
      then Inl (ValueError ''idle_seconds must be a finite number of at least 0.1'')
      else if lease \<le> 0 then Inl (ValueError ''lease_seconds must be greater than zero'')
      else Inr \<lparr>ag_client = c, ag_device = device, ag_labels = labels, ag_lease_seconds = lease, ag_idle_seconds = idle,
                ag_max_concurrency = max_concurrency, ag_heartbeat_seconds = beat, ag_preflight = pf,
                ag_source_root = source_root,
                ag_fetch = (case source_root of None \<Rightarrow> None | Some tree \<Rightarrow> if tree = [] then None else Some new_throttle),
                ag_behind_note = None\<rparr>)"

definition announce :: "agent \<Rightarrow> http_request" where
  "announce ag = heartbeat_request (ag_client ag) (ag_device ag) (ag_labels ag) (ag_max_concurrency ag)"

definition announced :: "(string \<Rightarrow> decoded) \<Rightarrow> transport \<Rightarrow> agent \<Rightarrow> client_exn + agent" where
  "announced loads reply ag = rbind (heartbeat_reply loads reply (ag_client ag)) (\<lambda>c. Inr (ag\<lparr>ag_client := c\<rparr>))"

text \<open>\<open>behind_broker\<close>; \<open>checkout\<close> says whether a directory holds a \<open>.git\<close>.\<close>

definition broker_commit :: "client \<Rightarrow> string" where
  "broker_commit c = (case map_of (cl_broker_build c) ''commit'' of None \<Rightarrow> [] | Some s \<Rightarrow> s)"

definition behind_broker :: "(string \<Rightarrow> bool) \<Rightarrow> real \<Rightarrow> git_answers \<Rightarrow> agent \<Rightarrow> agent \<times> string option" where
  "behind_broker checkout moment ga ag =
     (let (fetch', why) = behind_reason (bi_commit (cl_build (ag_client ag))) (broker_commit (ag_client ag))
            (case ag_source_root ag of None \<Rightarrow> False | Some tree \<Rightarrow> checkout tree)
            (build_dict (cl_build (ag_client ag))) moment ga (ag_fetch ag)
      in (ag\<lparr>ag_fetch := fetch'\<rparr>, why))"

section \<open>One pass\<close>

text \<open>What an executor does: an \<open>ExecutionResult\<close>, a bare exit code, or an exception with its type's name.\<close>

datatype execution = Execution int string "json list" string | Exit_Code int | Raised string string

text \<open>What a pass does, in order.\<close>

datatype agent_act =
    Claims http_request
  | Executes job_spec
  | Uploads string string
  | Discards string
  | Reports http_request
  | Says string

record answers =
  in_loads :: "string \<Rightarrow> decoded"
  in_shown :: "json \<Rightarrow> string"
  in_now :: real
  in_probe_alive :: bool
  in_probe :: "(bool \<times> string) option"
  in_checkout :: "string \<Rightarrow> bool"
  in_git :: git_answers
  in_claim :: transport
  in_execution :: execution
  in_lost :: bool
  in_archive_size :: "string + int"
  in_upload :: transport
  in_lost_later :: bool
  in_report :: transport

text \<open>Exit code, log, steps, archive and device error of an execution.\<close>

fun ran :: "execution \<Rightarrow> int \<times> string \<times> json list \<times> string \<times> string" where
  "ran (Execution c l ss a) = (c, l, ss, a, [])"
| "ran (Exit_Code c) = (c, [], [], [], [])"
| "ran (Raised n m) = (0, [], [], [], error_line n m)"

definition report_step :: "agent \<Rightarrow> job_spec \<Rightarrow> answers \<Rightarrow> agent_act list \<times> (client_exn + bool)" where
  "report_step ag job inp =
     (let (exit_code, log_text, steps, archive, error) = ran (in_execution inp);
          c = ag_client ag; reply = rbind (client_reply (in_loads inp) (in_report inp)) (\<lambda>_. Inr True)
      in if error \<noteq> []
         then ([Says (''cindral: job '' @ js_id job @ '' could not run: '' @ error),
                Reports (report_lost_request c (js_id job) (ag_device ag) error log_text steps)], reply)
         else ([Reports (report_request c (js_id job) (ag_device ag) exit_code log_text steps)], reply))"

text \<open>\<open>upload_archive\<close>: the acts, and the exception that is not caught.\<close>

definition upload_archive :: "string \<Rightarrow> string \<Rightarrow> upload_exn + jobj \<Rightarrow> agent_act list \<times> client_exn option" where
  "upload_archive i archive answer =
     (let note = (\<lambda>m. Says (''cindral: job '' @ i @ '' artifacts were not uploaded: '' @ m))
      in case answer of
           Inr _ \<Rightarrow> ([Uploads i archive, Discards archive], None)
         | Inl (Artifact_Client_Error m) \<Rightarrow> ([Uploads i archive, note m, Discards archive], None)
         | Inl (Os_Error m) \<Rightarrow> ([Uploads i archive, note m, Discards archive], None)
         | Inl (Upload_Decode_Error m) \<Rightarrow> ([Uploads i archive, Discards archive], Some (Decode_Error m)))"

definition after_run :: "agent \<Rightarrow> job_spec \<Rightarrow> answers \<Rightarrow> agent_act list \<times> (client_exn + bool)" where
  "after_run ag job inp =
     (let (_, _, _, archive, _) = ran (in_execution inp)
      in if in_lost inp then (if archive \<noteq> [] then [Discards archive] else [], Inr True)
         else if archive = [] then report_step ag job inp
         else (case upload_archive (js_id job) archive (upload_reply (in_loads inp) (in_archive_size inp) (in_upload inp)) of
                 (acts, Some e) \<Rightarrow> (acts, Inl e)
               | (acts, None) \<Rightarrow>
                   if in_lost_later inp then (acts, Inr True)
                   else (let (more_acts, r) = report_step ag job inp in (acts @ more_acts, r))))"

definition claim_and_run :: "agent \<Rightarrow> answers \<Rightarrow> agent_act list \<times> (client_exn + bool)" where
  "claim_and_run ag inp =
     (let rq = Claims (claim_request (ag_client ag) (ag_device ag) (ag_labels ag) (ag_lease_seconds ag))
      in case claim_reply (in_shown inp) (in_loads inp) (in_claim inp) of
           Inl e \<Rightarrow> ([rq], Inl e)
         | Inr None \<Rightarrow> ([rq], Inr False)
         | Inr (Some job) \<Rightarrow> (let (acts, r) = after_run ag job inp in ([rq, Executes job] @ acts, r)))"

definition pass_preflight :: "answers \<Rightarrow> agent \<Rightarrow> agent \<times> agent_act list \<times> bool" where
  "pass_preflight inp ag =
     (case ag_preflight ag of
        None \<Rightarrow> (ag, [], True)
      | Some pf \<Rightarrow>
          (let (pf', notes, ready) = preflight_ready (in_now inp) (in_probe_alive inp) (in_probe inp) pf
           in (ag\<lparr>ag_preflight := Some pf'\<rparr>, map Says notes, ready)))"

definition run_once :: "agent \<Rightarrow> answers \<Rightarrow> agent \<times> agent_act list \<times> (client_exn + bool)" where
  "run_once ag inp =
     (case pass_preflight inp ag of
        (ag1, said, False) \<Rightarrow> (ag1, said, Inr False)
      | (ag1, said, True) \<Rightarrow>
          (case behind_broker (in_checkout inp) (in_now inp) (in_git inp) ag1 of
             (ag2, Some why) \<Rightarrow>
               (ag2\<lparr>ag_behind_note := Some why\<rparr>,
                said @ (if ag_behind_note ag2 = Some why then []
                        else [Says (''cindral: not claiming work: '' @ why @ ''. Update this checkout and restart the agent.'')]),
                Inr False)
           | (ag2, None) \<Rightarrow>
               (let ag3 = ag2\<lparr>ag_behind_note := None\<rparr>; (acts, r) = claim_and_run ag3 inp in (ag3, said @ acts, r))))"

text \<open>
  A slot repeats the pass. What follows one: another claim at once, or a wait; an exception the loop does
  not expect is said and the slot goes on after a wait.
\<close>

datatype next_act = Claim_Again | Wait real

definition after_pass :: "agent \<Rightarrow> client_exn + bool \<Rightarrow> agent_act list \<times> next_act" where
  "after_pass ag r =
     (case r of
        Inr True \<Rightarrow> ([], Claim_Again)
      | Inr False \<Rightarrow> ([], Wait (ag_idle_seconds ag))
      | Inl (Cindral_Error _ _) \<Rightarrow> ([], Wait (ag_idle_seconds ag))
      | Inl (Decode_Error m) \<Rightarrow>
          ([Says (''cindral: slot restarted after an unexpected failure: '' @ m)], Wait (ag_idle_seconds ag)))"

text \<open>The passes of one slot until it is asked to stop, which ends the list.\<close>

fun slot_run :: "agent \<Rightarrow> answers list \<Rightarrow> agent \<times> (agent_act list \<times> next_act) list" where
  "slot_run ag [] = (ag, [])"
| "slot_run ag (inp # rest) =
     (let (ag', acts, r) = run_once ag inp; (said, next_step) = after_pass ag' r; (ag'', tr) = slot_run ag' rest
      in (ag'', (acts @ said, next_step) # tr))"

section \<open>When a lease counts as lost\<close>

definition renewed :: "(string \<Rightarrow> decoded) \<Rightarrow> transport \<Rightarrow> bool" where
  "renewed loads reply \<longleftrightarrow> renew_reply loads reply = Inr ()"

definition failed :: "(string \<Rightarrow> decoded) \<Rightarrow> transport \<Rightarrow> bool" where
  "failed loads reply \<longleftrightarrow> (\<exists>m status. renew_reply loads reply = Inl (Cindral_Error m status))"

definition lease_refused :: "(string \<Rightarrow> decoded) \<Rightarrow> transport \<Rightarrow> bool" where
  "lease_refused loads reply \<longleftrightarrow> (\<exists>m c. renew_reply loads reply = Inl (Cindral_Error m (Some c)) \<and> c \<in> LEASE_LOST_STATUSES)"

text \<open>The instant of the last renewal the broker confirmed, or of the start.\<close>

definition last_renewed :: "(string \<Rightarrow> decoded) \<Rightarrow> real \<Rightarrow> (transport \<times> real) list \<Rightarrow> real" where
  "last_renewed loads start ticks = foldl (\<lambda>t (reply, now). if renewed loads reply then now else t) start ticks"

definition readable :: "(string \<Rightarrow> decoded) \<Rightarrow> (transport \<times> real) list \<Rightarrow> bool" where
  "readable loads ticks \<longleftrightarrow> list_all (\<lambda>(reply, now). renewed loads reply \<or> failed loads reply) ticks"

definition gives_up :: "(string \<Rightarrow> decoded) \<Rightarrow> int \<Rightarrow> real \<Rightarrow> (transport \<times> real) list \<Rightarrow> transport \<Rightarrow> real \<Rightarrow> bool" where
  "gives_up loads lease start earlier reply now \<longleftrightarrow>
     lease_refused loads reply \<or> failed loads reply \<and> last_renewed loads start earlier + of_int lease \<le> now"

lemma lease_ticks_snoc:
  "lease_ticks loads st (ticks @ [(reply, now)]) = fst (lease_tick loads reply now (lease_ticks loads st ticks))"
  by (simp add: lease_ticks_def)

lemma last_renewed_snoc:
  "last_renewed loads start (ticks @ [(reply, now)]) = (if renewed loads reply then now else last_renewed loads start ticks)"
  by (simp add: last_renewed_def)

lemma lease_tick_frame: "lt_lease (fst (lease_tick loads reply now st)) = lt_lease st"
  by (auto simp: lease_tick_def lose_lease_def split: sum.split client_exn.split)

lemma lease_tick_effect:
  fixes now :: real
  assumes "renewed loads reply \<or> failed loads reply" and "lt_running st = (\<not> lt_lost st)"
    and "\<not> lt_lost st \<Longrightarrow> lt_deadline st = last_renewed loads start ticks + of_int (lt_lease st)"
  defines "st' \<equiv> fst (lease_tick loads reply now st)"
  shows "(lt_lost st' \<longleftrightarrow> lt_lost st \<or> gives_up loads (lt_lease st) start ticks reply now) \<and> lt_running st' = (\<not> lt_lost st') \<and>
    (\<not> lt_lost st' \<longrightarrow> lt_deadline st' = last_renewed loads start (ticks @ [(reply, now)]) + of_int (lt_lease st'))"
  using assms(1-3) unfolding st'_def lease_tick_def gives_up_def last_renewed_snoc
  by (auto simp: renewed_def failed_def lease_refused_def lose_lease_def split: option.splits if_splits)

lemma lease_ticks_state:
  fixes start :: real and lease :: int
  assumes "readable loads ticks"
  defines "st \<equiv> lease_ticks loads (lease_start lease start) ticks"
  shows "lt_lease st = lease \<and> lt_running st = (\<not> lt_lost st) \<and>
    (\<not> lt_lost st \<longrightarrow> lt_deadline st = last_renewed loads start ticks + of_int lease) \<and>
    (lt_lost st \<longleftrightarrow> (\<exists>earlier reply now later. ticks = earlier @ (reply, now) # later \<and> gives_up loads lease start earlier reply now))"
  using assms(1) unfolding st_def
proof (induction ticks rule: rev_induct)
  case Nil
  then show ?case by (simp add: lease_ticks_def lease_start_def last_renewed_def)
next
  case (snoc tick ticks)
  obtain reply now where tick: "tick = (reply, now)" by (cases tick)
  let ?st = "lease_ticks loads (lease_start lease start) ticks"
  have r: "renewed loads reply \<or> failed loads reply" "readable loads ticks"
    using snoc.prems by (auto simp: readable_def tick)
  note IH = snoc.IH [OF r(2)]
  have split: "(\<exists>earlier rp n later. ticks @ [(reply, now)] = earlier @ (rp, n) # later \<and> gives_up loads lease start earlier rp n) \<longleftrightarrow>
      (\<exists>earlier rp n later. ticks = earlier @ (rp, n) # later \<and> gives_up loads lease start earlier rp n) \<or>
      gives_up loads lease start ticks reply now"
  proof
    assume "\<exists>earlier rp n later. ticks @ [(reply, now)] = earlier @ (rp, n) # later \<and> gives_up loads lease start earlier rp n"
    then obtain earlier rp n later where s: "ticks @ [(reply, now)] = earlier @ (rp, n) # later" "gives_up loads lease start earlier rp n"
      by blast
    then show "(\<exists>earlier rp n later. ticks = earlier @ (rp, n) # later \<and> gives_up loads lease start earlier rp n) \<or>
      gives_up loads lease start ticks reply now"
      by (cases later rule: rev_cases) fastforce+
  qed fastforce
  from lease_tick_effect [OF r(1), of ?st start ticks now] IH split lease_tick_frame [of loads reply now ?st] show ?case
    unfolding tick lease_ticks_snoc by simp
qed

text \<open>
  C20: a lease is given up for a reason. While every reply to a renewal can be read, the thread counts the
  lease as lost, and cancels the run, exactly when the broker has answered a renewal with 404 or 409, or a
  renewal has failed a whole lease or more after the last one the broker confirmed; a renewal that merely
  did not get through does not end the run.
\<close>

theorem lease_given_up_iff:
  assumes "readable loads ticks"
  shows "lt_lost (lease_ticks loads (lease_start lease start) ticks) \<longleftrightarrow>
    (\<exists>earlier reply now later. ticks = earlier @ (reply, now) # later \<and>
       (lease_refused loads reply \<or> failed loads reply \<and> last_renewed loads start earlier + of_int lease \<le> now))"
  using lease_ticks_state [OF assms, of lease start] by (simp add: gives_up_def)

section \<open>A renewed run stays with its device\<close>

text \<open>
  What the other users of the queue do between two renewals: anything but report or renew this run as
  this device, while the lease of the last renewal lasts.
\<close>

fun leaves_lease :: "string \<Rightarrow> string \<Rightarrow> real \<Rightarrow> queue_event \<Rightarrow> bool" where
  "leaves_lease i device expires (Renew j dev secs now) \<longleftrightarrow> j \<noteq> i \<or> dev \<noteq> device"
| "leaves_lease i device expires (Report j dev c now l err ss) \<longleftrightarrow> j \<noteq> i \<or> dev \<noteq> device"
| "leaves_lease i device expires (Reclaim now publish) \<longleftrightarrow> now \<le> expires"
| "leaves_lease i device expires e \<longleftrightarrow> True"

definition leased_until :: "string \<Rightarrow> string \<Rightarrow> int \<Rightarrow> real \<Rightarrow> db \<Rightarrow> bool" where
  "leased_until i device attempt expires d \<longleftrightarrow>
     (\<exists>r. row_of d i = Some r \<and> r_status r = Running \<and> r_device r = Some device \<and> r_attempts r = attempt \<and>
        r_lease_expires r = Some expires)"

text \<open>Rounds of the lease thread: what happens in the queue before a renewal, and when it reaches the broker.\<close>

fun renew_rounds :: "string \<Rightarrow> string \<Rightarrow> int \<Rightarrow> db \<Rightarrow> (queue_event list \<times> real) list \<Rightarrow> db" where
  "renew_rounds i device lease d [] = d"
| "renew_rounds i device lease d ((es, t) # rounds) =
     renew_rounds i device lease (queue_step (run_steps queue_step d es) (Renew i device lease t)) rounds"

fun rounds_in_time :: "string \<Rightarrow> string \<Rightarrow> int \<Rightarrow> real \<Rightarrow> (queue_event list \<times> real) list \<Rightarrow> bool" where
  "rounds_in_time i device lease since [] \<longleftrightarrow> True"
| "rounds_in_time i device lease since ((es, t) # rounds) \<longleftrightarrow>
     list_all (leaves_lease i device (since + of_int lease)) es \<and> t \<le> since + of_int lease \<and>
     rounds_in_time i device lease t rounds"

fun last_round :: "real \<Rightarrow> (queue_event list \<times> real) list \<Rightarrow> real" where
  "last_round since [] = since"
| "last_round since ((es, t) # rounds) = last_round t rounds"

lemma leased_until_update:
  assumes "leased_until i device attempt expires d" and "\<And>r. r_id (f r) = r_id r"
    and "\<And>r. row_of d i = Some r \<Longrightarrow> P r \<Longrightarrow> r_status r = Running \<Longrightarrow> r_device r = Some device \<Longrightarrow> r_lease_expires r = Some expires \<Longrightarrow>
      r_status (f r) = Running \<and> r_device (f r) = Some device \<and> r_attempts (f r) = r_attempts r \<and> r_lease_expires (f r) = Some expires"
  shows "leased_until i device attempt expires (on_jobs (update_where P f) d)"
proof -
  obtain r where r: "row_of d i = Some r" "r_status r = Running" "r_device r = Some device" "r_attempts r = attempt"
      "r_lease_expires r = Some expires"
    using assms(1) by (auto simp: leased_until_def)
  have "row_of (on_jobs (update_where P f) d) i = Some (if P r then f r else r)"
    using assms(2) r(1) by (simp add: row_of_on_update)
  then show ?thesis using assms(3) [OF r(1) _ r(2,3,5)] r by (cases "P r") (simp_all add: leased_until_def)
qed

lemma leased_until_jobs: "jobs d = jobs d' \<Longrightarrow> leased_until i device attempt expires d = leased_until i device attempt expires d'"
  using row_of_jobs [of d d' i] by (simp add: leased_until_def)

lemma not_spent_before: "r_lease_expires r = Some expires \<Longrightarrow> now \<le> expires \<Longrightarrow> \<not> spent_lease d now r"
  by (simp add: spent_lease_def)

lemma leased_until_settle:
  assumes "leased_until i device attempt expires d" and "db_wf d" and "j \<noteq> i \<or> dev \<noteq> device"
    and "settle j dev c now l err ss d = Inr d'"
  shows "leased_until i device attempt expires d'"
  using assms(4) db_wf_distinct [OF assms(2)]
proof (cases rule: settle_cases)
  case (error q)
  have "j \<noteq> i" using assms(1,3) error(1,3) by (auto simp: leased_until_def)
  then show ?thesis unfolding error(6) using row_of_in by (auto intro!: leased_until_update [OF assms(1)])
next
  case (verdict q c')
  have "j \<noteq> i" using assms(1,3) verdict(1,3) by (auto simp: leased_until_def)
  then show ?thesis unfolding verdict(7) using row_of_in by (auto intro!: leased_until_update [OF assms(1)])
qed

lemma leased_until_claim:
  assumes "leased_until i device attempt expires d" and "claim dv labels secs now cap d = Inr (d', res)"
  shows "leased_until i device attempt expires d'"
  using assms(2)
proof (cases rule: claim_cases)
  case none
  then show ?thesis using assms(1) by simp
next
  case (some p)
  show ?thesis unfolding some(5) by (rule leased_until_update [OF assms(1)]) auto
qed

lemma leased_until_enqueue:
  assumes "leased_until i device attempt expires d" and "enqueue k repo sha rf cmd lbs tmo dv ssha now d = Inr (d', j)"
  shows "leased_until i device attempt expires d'"
  using assms(1) row_change_enqueue [OF assms(2)] by (auto simp: leased_until_def)

lemma leased_until_step:
  assumes "db_wf d" and "leased_until i device attempt expires d" and "leaves_lease i device expires e"
  shows "leased_until i device attempt expires (queue_step d e)"
proof -
  have commit: "leased_until i device attempt expires (commit_or d x)"
    if "\<And>d' y. x = Inr (d', y) \<Longrightarrow> leased_until i device attempt expires d'" for x :: "(db \<times> 'a) result"
    by (rule commit_or_induct) (use assms(2) that in blast)+
  have ident: "row_of d i = Some r \<Longrightarrow> r_id r = i" for r using row_of_in by blast
  show ?thesis
  proof (cases e)
    case Enqueue
    then show ?thesis using leased_until_enqueue [OF assms(2)] by (auto intro!: commit)
  next
    case Claim
    then show ?thesis using leased_until_claim [OF assms(2)] by (auto intro!: commit)
  next
    case Renew
    then show ?thesis using assms(3) ident
      by (auto intro!: commit leased_until_update [OF assms(2)] simp: renew_def leased_to_def split: if_splits)
  next
    case Report
    then show ?thesis using assms(3)
      by (auto intro!: commit simp: report_def rbind_Inr_conv elim: leased_until_settle [OF assms(2,1), rotated])
  next
    case (Reclaim now publish)
    obtain r where r: "row_of d i = Some r" "r_lease_expires r = Some expires" using assms(2) by (auto simp: leased_until_def)
    have "\<not> spent_lease d now r" using not_spent_before [OF r(2)] Reclaim assms(3) by simp
    then have "row_of (queue_step d e) i = row_of d i"
      using r(1) by (simp add: Reclaim reclaim_expired_def row_of_expire [OF assms(1)] release_lapsed_def)
    then show ?thesis using assms(2) by (simp add: leased_until_def)
  next
    case Claim_Owed
    have "row_of (fst (claim_owed d)) i = map_option clear_row (row_of d i)"
      unfolding claim_owed_eq [OF db_wf_distinct [OF assms(1)]] by (simp add: row_of_on_map)
    then show ?thesis using Claim_Owed assms(2) by (auto simp: leased_until_def clear_row_def)
  qed (use assms(2) in \<open>auto simp: restore_status_def owe_status_def clear_status_def row_defs leased_until_jobs [OF presence_jobs(1)]
        leased_until_jobs [OF presence_jobs(2)] intro!: leased_until_update\<close>)
qed

lemma leased_until_run:
  assumes "db_wf d" and "leased_until i device attempt expires d" and "list_all (leaves_lease i device expires) es"
  shows "leased_until i device attempt expires (run_steps queue_step d es) \<and> db_wf (run_steps queue_step d es)"
  using assms by (induction es arbitrary: d) (auto simp: leased_until_step db_wf_step)

lemma leased_until_renew:
  assumes "leased_until i device attempt expires d" and "t \<le> expires" and "0 < lease"
  shows "leased_until i device attempt (t + of_int lease) (queue_step d (Renew i device lease t))"
proof -
  obtain r where r: "row_of d i = Some r" "r_status r = Running" "r_device r = Some device" "r_attempts r = attempt"
      "r_lease_expires r = Some expires"
    using assms(1) by (auto simp: leased_until_def)
  then have "leased_to d i device t r" using row_of_in [OF r(1)] not_spent_before [OF r(5) assms(2)] by (simp add: leased_to_def)
  then have "row_of (queue_step d (Renew i device lease t)) i = Some (set_lease (t + of_int lease) r)"
    using r(1) assms(3) by (simp add: renew_def commit_or_def row_of_on_update)
  then show ?thesis using r by (simp add: leased_until_def set_lease_def)
qed

lemma renew_rounds_leased:
  assumes "db_wf d" and "leased_until i device attempt (since + of_int lease) d" and "0 < lease"
    and "rounds_in_time i device lease since rounds"
  shows "leased_until i device attempt (last_round since rounds + of_int lease) (renew_rounds i device lease d rounds)"
  using assms
proof (induction rounds arbitrary: d since)
  case (Cons round rounds)
  obtain es t where round: "round = (es, t)" by (cases round)
  let ?d = "run_steps queue_step d es"
  have d: "leased_until i device attempt (since + of_int lease) ?d \<and> db_wf ?d"
    by (rule leased_until_run [OF Cons.prems(1,2)]) (use Cons.prems(4) round in simp)
  have step: "leased_until i device attempt (t + of_int lease) (queue_step ?d (Renew i device lease t))"
    by (rule leased_until_renew [where expires = "since + of_int lease"]) (use d Cons.prems(3,4) round in simp_all)
  have "db_wf (queue_step ?d (Renew i device lease t))" using d db_wf_step by blast
  then show ?case using Cons.IH [OF _ step Cons.prems(3)] Cons.prems(4) round by simp
qed simp

text \<open>
  C19: a run whose lease is renewed in time stays with its device. However claims, reports, reclaims,
  heartbeats and the bookkeeping of verdicts interleave with the device's renewals, as long as each renewal
  reaches the broker while the lease of the one before it lasts, the run is still running on that device in
  the same attempt, under a lease that ends a full lease after the last renewal: it was not reclaimed and
  not handed to another device.
\<close>

theorem renewed_run_stays_on_its_device:
  assumes "db_wf d" and "row_of d i = Some r" and "r_status r = Running" and "r_device r = Some device"
    and "r_lease_expires r = Some (since + of_int lease)" and "0 < lease"
    and "rounds_in_time i device lease since rounds"
  shows "\<exists>r'. row_of (renew_rounds i device lease d rounds) i = Some r' \<and> r_status r' = Running \<and> r_device r' = Some device \<and>
    r_attempts r' = r_attempts r \<and> r_lease_expires r' = Some (last_round since rounds + of_int lease)"
proof -
  have "leased_until i device (r_attempts r) (since + of_int lease) d" using assms by (simp add: leased_until_def)
  from renew_rounds_leased [OF assms(1) this assms(6,7)] show ?thesis by (auto simp: leased_until_def)
qed

section \<open>A device behind the broker claims nothing\<close>

lemma no_claim_said: "Claims rq \<in> set (map Says notes) \<longleftrightarrow> False"
  by auto

text \<open>
  A device that is behind the broker takes no work. When the broker's commit, as its last heartbeat
  named it, is another one that the checkout does not hold even after a fetch, or that the device's own
  commit is an ancestor of, a pass sends no claim, runs nothing and reports nothing. git is taken to answer
  as it documents for a complete clone.
\<close>

theorem stale_device_claims_nothing:
  assumes "git_tells objects reaches (strip own) (strip broker) (in_git inp)" and "objects False \<subseteq> objects True"
    and "names_two_builds own broker"
    and "own = bi_commit (cl_build (ag_client ag))" and "broker = broker_commit (ag_client ag)"
    and "ag_source_root ag = Some tree" and "in_checkout inp tree"
    and "strip broker \<notin> objects True \<or> reaches (strip own) (strip broker)"
    and "run_once ag inp = (ag', acts, res)"
  shows "res = Inr False \<and> (\<forall>act \<in> set acts. \<exists>m. act = Says m)"
proof -
  obtain ag1 said ok where pf: "pass_preflight inp ag = (ag1, said, ok)" by (cases "pass_preflight inp ag")
  have frame: "ag_client ag1 = ag_client ag" "ag_source_root ag1 = ag_source_root ag" "\<exists>notes. said = map Says notes"
    using pf by (auto simp: pass_preflight_def split: option.splits prod.splits)
  obtain fetch' why where b: "behind_reason own broker True (build_dict (cl_build (ag_client ag))) (in_now inp) (in_git inp) (ag_fetch ag1)
      = (fetch', why)"
    by (cases "behind_reason own broker True (build_dict (cl_build (ag_client ag))) (in_now inp) (in_git inp) (ag_fetch ag1)")
  then have bb: "behind_broker (in_checkout inp) (in_now inp) (in_git inp) ag1 = (ag1\<lparr>ag_fetch := fetch'\<rparr>, why)"
    using frame assms(4-7) by (simp add: behind_broker_def)
  have "why \<noteq> None" using behind_reason_spec(1) [OF assms(1-3) b] assms(8) by blast
  then show ?thesis using assms(9) frame(3) unfolding run_once_def pf by (cases ok) (auto simp: bb split: if_splits)
qed

section \<open>What a report records\<close>

text \<open>A request as the broker receives it.\<close>

definition at_broker :: "client \<Rightarrow> http_request \<Rightarrow> agent_request" where
  "at_broker c rq =
     \<lparr>ar_method = hq_method rq, ar_path = drop (length (cl_base_url c)) (hq_url rq), ar_authorization = hq_authorization rq\<rparr>"

definition plain_id :: "string \<Rightarrow> bool" where
  "plain_id i \<longleftrightarrow> i \<noteq> [] \<and> CHR ''/'' \<notin> set i \<and> CHR ''?'' \<notin> set i"

text \<open>The broker's row holds what the executor produced: its exit code and log, or the device's error for a retry.\<close>

fun verdict_recorded :: "int \<Rightarrow> string \<Rightarrow> job_row \<Rightarrow> bool" where
  "verdict_recorded c l r \<longleftrightarrow>
     r_status r = (if c = 0 then Success else Failure) \<and> r_exit_code r = Some c \<and>
     r_log r = (if l = [] then None else Some (take MAX_LOG_CHARS l))"

fun outcome_recorded :: "execution \<Rightarrow> job_row \<Rightarrow> bool" where
  "outcome_recorded (Execution c l ss a) r \<longleftrightarrow> verdict_recorded c l r"
| "outcome_recorded (Exit_Code c) r \<longleftrightarrow> verdict_recorded c [] r"
| "outcome_recorded (Raised n m) r \<longleftrightarrow>
     r_status r \<in> {Pending, Dead} \<and> r_exit_code r = None \<and> r_last_error r = Some (strip (error_line n m))"

lemma strip_Nil [simp]: "strip [] = []"
  by (simp add: strip_def)

lemma report_body_verdict:
  "report_body shown (hq_payload (report_request c i device code l ss)) =
     Inr ((empty_body device)\<lparr>ab_exit_code := Some code, ab_log := l, ab_steps := (if ss = [] then JNull else JList ss)\<rparr>)"
  by (cases "l = []"; cases "ss = []")
    (simp_all add: report_body_def report_request_def client_request_def with_record_def body_device_def item_def text_or_empty_def
      field_or_def body_exit_code_def empty_body_def Let_def)

lemma report_body_lost:
  assumes "error \<noteq> []" and "\<not> is_space (hd error)"
  shows "report_body shown (hq_payload (report_lost_request c i device error l ss)) =
     Inr ((empty_body device)\<lparr>ab_error := strip (take MAX_ERROR_CHARS error), ab_log := l, ab_steps := (if ss = [] then JNull else JList ss)\<rparr>)"
proof -
  have "take MAX_ERROR_CHARS error \<noteq> []" "strip (take MAX_ERROR_CHARS error) \<noteq> []"
    using assms strip_nonempty [of "take MAX_ERROR_CHARS error"] by (simp_all add: MAX_ERROR_CHARS_def hd_take)
  then show ?thesis
    by (cases "l = []"; cases "ss = []") (simp_all add: report_body_def report_lost_request_def client_request_def with_record_def body_device_def item_def text_or_empty_def
        field_or_def body_exit_code_def empty_body_def Let_def)
qed

lemma length_strip_take: "length (strip (take n s)) \<le> n"
  using length_strip_le [of "take n s"] by simp

lemma strip_idem [simp]: "strip (strip s) = strip s"
proof -
  define u where "u = dropWhile is_space s"
  have u: "u = [] \<or> \<not> is_space (hd u)" by (metis u_def hd_dropWhile)
  have t: "strip s = rev (dropWhile is_space (rev u))" by (simp add: strip_def u_def)
  have "suffix (dropWhile is_space (rev u)) (rev u)" by (rule suffix_dropWhile)
  then obtain zs where zs: "u = strip s @ zs" unfolding t suffix_def by (metis rev_append rev_rev_ident)
  have "dropWhile is_space (strip s) = strip s"
  proof (cases "strip s")
    case (Cons c cs)
    then have "hd u = c" "u \<noteq> []" using zs by auto
    then show ?thesis using u Cons by simp
  qed simp
  moreover have "dropWhile is_space (rev (strip s)) = rev (strip s)" by (simp add: strip_def)
  ultimately show ?thesis by (simp add: strip_def [of "strip s"])
qed

lemma settle_and_post_row:
  assumes "settle_and_post github i status d = (d', posts)" and "row_of d j = Some r"
  shows "\<exists>r'. row_of d' j = Some r' \<and> r_status r' = r_status r \<and> r_exit_code r' = r_exit_code r \<and>
     r_last_error r' = r_last_error r \<and> r_log r' = r_log r \<and> (j \<noteq> i \<longrightarrow> r' = r)"
  using assms row_of_in [OF assms(2)]
  by (auto simp: settle_and_post_def owe_status_def row_of_on_update owe_row_def split: option.splits if_splits)

lemma settle_row:
  assumes "settle i device exit_code now l err ss d = Inr d'" and "db_wf d" and "row_of d j = Some q"
  shows "\<exists>r. row_of d' j = Some r \<and> (j \<noteq> i \<longrightarrow> r = q) \<and>
    (j = i \<longrightarrow> (if err \<noteq> [] then r_status r \<in> {Pending, Dead} \<and> r_exit_code r = None \<and> r_last_error r = Some (take MAX_ERROR_CHARS err)
                else \<exists>c. exit_code = Some c \<and> verdict_recorded c l r))"
  using assms(1) db_wf_distinct [OF assms(2)]
proof (cases rule: settle_cases)
  case (error p)
  have "row_wf p" using row_of_in [OF error(1)] db_wf_row [OF assms(2)] by blast
  then have "r_exit_code p = None" using error(2) by (simp add: row_wf_def)
  then show ?thesis using error assms(3) row_of_in [OF assms(3)]
    by (auto simp: row_of_on_update release_row_def supersede_row_def)
next
  case (verdict p c)
  then show ?thesis using assms(3) row_of_in [OF assms(3)] by (auto simp: row_of_on_update verdict_row_def)
qed

lemma report_endpoint_row:
  assumes "report_endpoint github speaks i device raw_error reported l raw_steps checked_at now d = (d', posts, ans)"
    and "db_wf d" and "row_of d j = Some q"
  shows "row_of d' j = Some q \<or> j = i \<and> (\<exists>r. row_of d' i = Some r \<and>
    (if strip raw_error \<noteq> []
     then r_status r \<in> {Pending, Dead} \<and> r_exit_code r = None \<and> r_last_error r = Some (take MAX_ERROR_CHARS (strip raw_error))
     else \<exists>c. reported = Some c \<and> verdict_recorded c l r))"
proof (cases "d' = d")
  case True
  then show ?thesis using assms(3) by simp
next
  case False
  let ?err = "strip raw_error" and ?code = "if strip raw_error \<noteq> [] then None else reported"
  let ?ss = "map step_as_dict (encode_steps raw_steps)"
  obtain jb where jb: "get d i = Some jb" using assms(1) False by (auto simp: report_endpoint_def split: option.splits)
  let ?st = "report_status jb ?err ?code l (encode_steps raw_steps)"
  have "conclude_report github i ?st d (report i device ?code now l ?err ?ss d) = (d', posts, ans)"
    using assms(1) False jb by (auto simp: report_endpoint_def Let_def split: if_splits)
  then obtain d1 g where d1: "report i device ?code now l ?err ?ss d = Inr (d1, g)"
      and p: "settle_and_post github i ?st d1 = (d', posts)"
    using False by (auto simp: conclude_report_def Let_def split: sum.splits prod.splits)
  have settled: "settle i device ?code now l ?err ?ss d = Inr d1" using d1 by (auto simp: report_def rbind_Inr_conv)
  obtain r where r: "row_of d1 j = Some r" "j \<noteq> i \<longrightarrow> r = q"
      "j = i \<longrightarrow> (if ?err \<noteq> [] then r_status r \<in> {Pending, Dead} \<and> r_exit_code r = None \<and> r_last_error r = Some (take MAX_ERROR_CHARS ?err)
                else \<exists>c. ?code = Some c \<and> verdict_recorded c l r)"
    using settle_row [OF settled assms(2,3)] by blast
  obtain r' where r': "row_of d' j = Some r'" "r_status r' = r_status r" "r_exit_code r' = r_exit_code r"
      "r_last_error r' = r_last_error r" "r_log r' = r_log r" "j \<noteq> i \<longrightarrow> r' = r"
    using settle_and_post_row [OF p r(1)] by blast
  show ?thesis
  proof (cases "j = i")
    case True
    have "if ?err \<noteq> [] then r_status r' \<in> {Pending, Dead} \<and> r_exit_code r' = None \<and> r_last_error r' = Some (take MAX_ERROR_CHARS ?err)
          else \<exists>c. reported = Some c \<and> verdict_recorded c l r'"
      using r(3) r' True by (cases "?err = []") simp_all
    then show ?thesis using True r'(1) by blast
  qed (use r r' in simp)
qed

lemma report_url:
  assumes "plain_id i"
  defines "path \<equiv> job_path i ''report''"
  shows "clean_path path = path" "path_job path = i" "path_action path = ''report''" "path \<noteq> ''/v1/jobs/claim''" "prefix JOBS_PATH path"
proof -
  have no: "CHR ''/'' \<notin> set i" "CHR ''?'' \<notin> set i" "i \<noteq> []" using assms(1) by (auto simp: plain_id_def)
  have b: "before CHR ''?'' path = path"
    unfolding before_def takeWhile_eq_all_conv using no by (auto simp: path_def job_path_def JOBS_PATH_def)
  show "clean_path path = path" unfolding clean_path_def b by (simp add: path_def job_path_def)
  have t: "takeWhile (\<lambda>x. x \<noteq> CHR ''/'') (i @ CHR ''/'' # rest) = i" for rest
    using no(1) by (subst takeWhile_append2) auto
  show job: "path_job path = i" by (simp add: path_job_def path_def job_path_def before_def t)
  show act: "path_action path = ''report''" unfolding path_action_def job by (simp add: path_def job_path_def)
  show "prefix JOBS_PATH path" by (simp add: path_def job_path_def)
  show "path \<noteq> ''/v1/jobs/claim''" using act by (auto simp: path_action_def path_job_def before_def JOBS_PATH_def)
qed

lemma serve_report_row:
  assumes "serve_jobs sha256 shown sv lease_seconds rq payload released_at now d = (d', posts, ans)"
    and "plain_id i" and "ar_path rq = job_path i ''report''" and "ar_method rq = ''POST''"
    and "rbind payload (report_body shown) = Inr b" and "db_wf d" and "row_of d j = Some q"
  shows "row_of d' j = Some q \<or> j = i \<and> (\<exists>r. row_of d' i = Some r \<and>
    (if strip (ab_error b) \<noteq> []
     then r_status r \<in> {Pending, Dead} \<and> r_exit_code r = None \<and> r_last_error r = Some (take MAX_ERROR_CHARS (strip (ab_error b)))
     else \<exists>c. ab_exit_code b = Some c \<and> verdict_recorded c (ab_log b) r))"
proof -
  note url = report_url [OF assms(2)]
  have body: "path_body shown lease_seconds (job_path i ''report'') payload = Inr b"
    using assms(5) url(3,4) by (simp add: path_body_def)
  have "d' = d \<or> (\<exists>posts ans. report_path sha256 sv (ar_authorization rq) i (Inr b) released_at now d = (d', posts, ans))"
    using assms(1,2) unfolding serve_jobs_def assms(3) url(1) body jobs_endpoint_def job_route_def
    by (auto simp: assms(3,4) url plain_id_def Let_def split: sum.splits bool.splits)
  then show ?thesis
  proof
    assume "\<exists>posts ans. report_path sha256 sv (ar_authorization rq) i (Inr b) released_at now d = (d', posts, ans)"
    then obtain posts ans where "report_path sha256 sv (ar_authorization rq) i (Inr b) released_at now d = (d', posts, ans)" by blast
    then have "d' = d \<or> (\<exists>posts ans. report_endpoint (as_github sv) (speaks_for sha256 (as_gate sv) (ar_authorization rq)) i (ab_device b)
        (ab_error b) (ab_exit_code b) (ab_log b) (ab_steps b) released_at now d = (d', posts, ans))"
      by (auto simp: report_path_def with_body_def split: if_splits prod.splits)
    then show ?thesis using report_endpoint_row [OF _ assms(6,7)] assms(7) by blast
  qed (use assms(7) in simp)
qed

lemma run_once_reports:
  assumes "run_once ag inp = (ag', acts, res)" and "Reports rq \<in> set acts"
  shows "ag_client ag' = ag_client ag \<and> \<not> in_lost inp \<and>
    (\<exists>job. claim_reply (in_shown inp) (in_loads inp) (in_claim inp) = Inr (Some job) \<and>
      (case ran (in_execution inp) of (code, l, ss, archive, error) \<Rightarrow>
         rq = (if error \<noteq> [] then report_lost_request (ag_client ag) (js_id job) (ag_device ag) error l ss
               else report_request (ag_client ag) (js_id job) (ag_device ag) code l ss)))"
proof -
  obtain ag1 said ok where pf: "pass_preflight inp ag = (ag1, said, ok)" by (cases "pass_preflight inp ag")
  have f1: "ag_client ag1 = ag_client ag" "ag_device ag1 = ag_device ag" "\<exists>notes. said = map Says notes"
    using pf by (auto simp: pass_preflight_def split: option.splits prod.splits)
  obtain ag2 why where bb: "behind_broker (in_checkout inp) (in_now inp) (in_git inp) ag1 = (ag2, why)"
    by (cases "behind_broker (in_checkout inp) (in_now inp) (in_git inp) ag1")
  have f2: "ag_client ag2 = ag_client ag" "ag_device ag2 = ag_device ag"
    using bb f1 by (auto simp: behind_broker_def split: prod.splits)
  let ?ag = "ag2\<lparr>ag_behind_note := None\<rparr>"
  obtain acts' where acts': "ok" "why = None" "ag' = ?ag" "claim_and_run ?ag inp = (acts', res)" "acts = said @ acts'"
    using assms f1(3) unfolding run_once_def pf
    by (cases ok; cases why) (auto simp: bb Let_def split: prod.splits if_splits)
  then have rep: "Reports rq \<in> set acts'" using assms(2) f1(3) by auto
  then obtain job where job: "claim_reply (in_shown inp) (in_loads inp) (in_claim inp) = Inr (Some job)"
      "Reports rq \<in> set (fst (after_run ?ag job inp))"
    using acts'(4) by (auto simp: claim_and_run_def Let_def split: sum.splits option.splits prod.splits)
  obtain code l ss archive error where r: "ran (in_execution inp) = (code, l, ss, archive, error)"
    by (cases "ran (in_execution inp)")
  have "Reports rq \<in> set (fst (report_step ?ag job inp)) \<and> \<not> in_lost inp"
    using job(2) unfolding after_run_def r
    by (auto simp: Let_def upload_archive_def split: if_splits sum.splits upload_exn.splits prod.splits option.splits)
  then show ?thesis using job(1) acts'(3) f2 by (auto simp: report_step_def r Let_def split: if_splits)
qed

lemma ran_cases:
  obtains (verdict) c l ss a where "ran e = (c, l, ss, a, [])" "\<And>r. outcome_recorded e r = verdict_recorded c l r"
    | (lost) n m where "e = Raised n m" "ran e = (0, [], [], [], error_line n m)"
  by (cases e) auto

lemma device_report_outcome:
  assumes "db_wf d" and "run_once ag inp = (ag', acts, res)" and "Reports rq \<in> set acts"
    and "claim_reply (in_shown inp) (in_loads inp) (in_claim inp) = Inr (Some job)" and "plain_id (js_id job)"
    and "serve_jobs sha256 shown sv lease_seconds (at_broker (ag_client ag') rq) (Inr (hq_payload rq)) released_at now d = (d', posts, ans)"
    and "row_of d j = Some q"
  shows "row_of d' j = Some q \<or>
    j = js_id job \<and> (\<exists>r. row_of d' j = Some r \<and> outcome_recorded (in_execution inp) r)"
proof -
  let ?i = "js_id job" and ?c = "ag_client ag"
  note rep = run_once_reports [OF assms(2,3)]
  have c: "ag_client ag' = ?c" using rep by simp
  show ?thesis
  proof (cases rule: ran_cases [of "in_execution inp"])
    case (verdict code l ss a)
    then have rq: "rq = report_request ?c ?i (ag_device ag) code l ss" using rep assms(4) by auto
    have at: "ar_path (at_broker (ag_client ag') rq) = job_path ?i ''report''" "ar_method (at_broker (ag_client ag') rq) = ''POST''"
      by (simp_all add: at_broker_def rq c report_request_def client_request_def)
    have body: "rbind (Inr (hq_payload rq)) (report_body shown) = Inr ((empty_body (ag_device ag))\<lparr>ab_exit_code := Some code, ab_log := l,
        ab_steps := (if ss = [] then JNull else JList ss)\<rparr>)"
      unfolding rq by (simp add: report_body_verdict)
    from serve_report_row [OF assms(6,5) at body assms(1,7)] show ?thesis by (auto simp: verdict(2) empty_body_def)
  next
    case (lost n m)
    let ?error = "error_line n m"
    have rq: "rq = report_lost_request ?c ?i (ag_device ag) ?error [] []"
      using rep assms(4) error_line_starts [of n m] by (auto simp: lost)
    have at: "ar_path (at_broker (ag_client ag') rq) = job_path ?i ''report''" "ar_method (at_broker (ag_client ag') rq) = ''POST''"
      by (simp_all add: at_broker_def rq c report_lost_request_def client_request_def)
    have short: "take MAX_ERROR_CHARS ?error = ?error" using length_error_line by simp
    have body: "rbind (Inr (hq_payload rq)) (report_body shown) = Inr ((empty_body (ag_device ag))\<lparr>ab_error := strip ?error\<rparr>)"
      unfolding rq using report_body_lost [of ?error shown ?c ?i "ag_device ag" "[]" "[]"] error_line_starts [of n m]
      by (simp add: short empty_body_def)
    have "strip ?error \<noteq> []" using strip_nonempty error_line_starts by blast
    moreover have "take MAX_ERROR_CHARS (strip ?error) = strip ?error"
      using length_strip_le [of ?error] length_error_line [of n m] by simp
    ultimately show ?thesis using serve_report_row [OF assms(6,5) at body assms(1,7)] by (auto simp: lost(1))
  qed
qed

text \<open>
  C13: what a device reports is what its executor did. The report of a pass, sent over the agent's client and
  read by the broker's endpoint, leaves the row of the run as it was or records the executor's exit code and
  log; when the executor raised it records the device's error and puts the run back for another attempt, or
  parks it, without an exit code, so that a failed device never reads as a failed run. No other run's row
  changes.
\<close>

theorem device_report_is_the_outcome:
  assumes "db_wf d" and "run_once ag inp = (ag', acts, res)" and "Reports rq \<in> set acts"
    and "claim_reply (in_shown inp) (in_loads inp) (in_claim inp) = Inr (Some job)" and "plain_id (js_id job)"
    and "serve_jobs sha256 shown sv lease_seconds (at_broker (ag_client ag') rq) (Inr (hq_payload rq)) released_at now d = (d', posts, ans)"
    and "row_of d j = Some q"
  shows "row_of d' j = Some q \<or>
    j = js_id job \<and> (\<exists>r. row_of d' j = Some r \<and> outcome_recorded (in_execution inp) r)"
  by (rule device_report_outcome [OF assms])

section \<open>Replies that are no text\<close>

text \<open>
  The client turns every failure it expects into one exception; a reply whose bytes are no text raises
  another. It ends the lease thread without the lease counting as lost, so the run goes on and nothing
  renews its lease; and raised by the upload it ends the pass before the report.
\<close>

lemma unreadable_reply_ends_the_lease_thread:
  fixes now start :: real and lease :: int and ticks :: "(transport \<times> real) list"
  assumes "loads body = Not_Text m" and "body \<noteq> []"
  defines "st \<equiv> lease_ticks loads (lease_start lease start) ((Replied 200 body, now) # ticks)"
  shows "\<not> lt_lost st \<and> \<not> lt_running st \<and> lt_deadline st = start + of_int lease"
proof -
  have first: "fst (lease_tick loads (Replied 200 body) now (lease_start lease start)) = (lease_start lease start)\<lparr>lt_running := False\<rparr>"
    using assms(1,2) by (simp add: lease_tick_def lease_start_def renew_reply_def)
  have "lease_ticks loads st ticks = st" if "\<not> lt_running st" for st ticks
    using that by (induction ticks arbitrary: st) (auto simp: lease_ticks_def lease_tick_def)
  then show ?thesis unfolding st_def using first by (simp add: lease_ticks_def lease_start_def)
qed

lemma unreadable_upload_reply_loses_the_report:
  assumes "in_loads inp body = Not_Text m" and "body \<noteq> []" and "in_upload inp = Replied 201 body" and "in_archive_size inp = Inr 1"
    and "in_execution inp = Execution c l ss archive" and "archive \<noteq> []" and "\<not> in_lost inp"
  shows "after_run ag job inp = ([Uploads (js_id job) archive, Discards archive], Inl (Decode_Error m))"
  using assms by (simp add: after_run_def upload_reply_def upload_archive_def MAX_ARTIFACT_BYTES_def)

section \<open>Two slots of one device\<close>

text \<open>
  A lease names a device and not an attempt. When a lease lapses and another slot of the same device claims
  the run, the first slot's renewals succeed again, and either slot's report settles the second attempt.
\<close>

lemma earlier_slot_renews_the_next_attempt:
  "(let d = run_steps queue_step schema_db
              [Enqueue ''j1'' ''o/r'' ''c0ffee'' ''refs/heads/main'' [] [] 3600 None None 100, Claim ''dev'' [] 300 200 None,
               Reclaim 600 None, Claim ''dev'' [] 300 640 None]
    in map_option r_attempts (row_of d ''j1'') = Some 2 \<and>
       (case renew ''j1'' ''dev'' 300 650 d of Inr (_, ok) \<Rightarrow> ok | Inl _ \<Rightarrow> False))"
  by code_simp

section \<open>A concrete device\<close>

text \<open>The run of the example queue is leased to \<open>dev\<close> from 200 to 500.\<close>

definition example_loads :: "string \<Rightarrow> decoded" where
  "example_loads body =
     (if body = ''job'' then Json (JObj [(''job'', JObj [(''id'', JStr ''j1''), (''repository'', JStr ''o/r''), (''sha'', JStr ''c0ffee''),
           (''ref'', JStr ''refs/heads/main'')])])
      else Json (JObj []))"

definition example_device :: agent where
  "example_device =
     \<lparr>ag_client = \<lparr>cl_base_url = ''http://b'', cl_token = ''t1'', cl_build = no_build\<lparr>bi_commit := ''aaa''\<rparr>, cl_broker_build = [(''commit'', ''bbb'')]\<rparr>,
      ag_device = ''dev'', ag_labels = [''linux''], ag_lease_seconds = 300, ag_idle_seconds = 15, ag_max_concurrency = 1,
      ag_heartbeat_seconds = 15, ag_preflight = None, ag_source_root = Some ''/src'', ag_fetch = None, ag_behind_note = None\<rparr>"

definition example_git :: "int \<Rightarrow> git_answers" where
  "example_git relation = \<lparr>ga_has = (\<lambda>_. Some 0), ga_shallow = Some ''false'', ga_relation = Some relation, ga_count = Some ''2''\<rparr>"

definition example_answers :: "int \<Rightarrow> execution \<Rightarrow> answers" where
  "example_answers relation e =
     \<lparr>in_loads = example_loads, in_shown = (\<lambda>_. []), in_now = 0, in_probe_alive = False, in_probe = None, in_checkout = (\<lambda>_. True),
      in_git = example_git relation, in_claim = Replied 200 ''job'', in_execution = e, in_lost = False, in_archive_size = Inr 0,
      in_upload = Unreachable [], in_lost_later = False, in_report = Replied 200 []\<rparr>"

definition example_report :: http_request where
  "example_report =
     \<lparr>hq_method = ''POST'', hq_url = ''http://b/v1/jobs/j1/report'', hq_authorization = ''Bearer t1'',
      hq_payload = [(''device'', JStr ''dev''), (''error'', JStr ''OSError: gone'')]\<rparr>"

lemma example_pass:
  "run_once example_device (example_answers 1 (Raised ''OSError'' ''gone'')) =
     (example_device,
      [Claims (claim_request (ag_client example_device) ''dev'' [''linux''] 300), Executes \<lparr>js_id = ''j1'', js_repository = ''o/r'', js_sha = ''c0ffee'',
         js_ref = ''refs/heads/main'', js_command = [], js_timeout = 3600\<rparr>,
       Says ''cindral: job j1 could not run: OSError: gone'', Reports example_report], Inr True)"
  by code_simp

lemma example_claim_reply:
  "claim_reply (\<lambda>_. []) example_loads (Replied 200 ''job'') = Inr (Some \<lparr>js_id = ''j1'', js_repository = ''o/r'', js_sha = ''c0ffee'',
     js_ref = ''refs/heads/main'', js_command = [], js_timeout = 3600\<rparr>)"
  by code_simp

theorem lease_given_up_iff_witness:
  "\<not> lt_lost (lease_ticks example_loads (lease_start 300 0) [(Unreachable [], 100), (Replied 200 [], 200), (Unreachable [], 400)]) \<and>
   lt_lost (lease_ticks example_loads (lease_start 300 0) [(Replied 200 [], 200), (Unreachable [], 500)])"
proof -
  have r: "readable example_loads [(Unreachable [], 100), (Replied 200 [], 200), (Unreachable [], 400)]"
      "readable example_loads [(Replied 200 [], 200), (Unreachable [], 500)]"
    by (simp_all add: readable_def renewed_def failed_def renew_reply_def)
  have "\<not> lt_lost (lease_ticks example_loads (lease_start 300 0) [(Unreachable [], 100), (Replied 200 [], 200), (Unreachable [], 400)])"
    unfolding lease_given_up_iff [OF r(1)]
    by (auto simp: Cons_eq_append_conv lease_refused_def failed_def renewed_def renew_reply_def last_renewed_def)
  moreover have "lt_lost (lease_ticks example_loads (lease_start 300 0) [(Replied 200 [], 200), (Unreachable [], 500)])"
    unfolding lease_given_up_iff [OF r(2)]
    by (rule exI [of _ "[(Replied 200 [], 200)]"], rule exI [of _ "Unreachable []"], rule exI [of _ 500], rule exI [of _ "[]"])
       (simp add: failed_def renewed_def renew_reply_def last_renewed_def)
  ultimately show ?thesis by simp
qed

theorem renewed_run_stays_on_its_device_witness:
  "\<exists>r'. row_of (renew_rounds ''j1'' ''dev'' 300 example_leased [([Claim ''other'' [''linux''] 300 350 None, Reclaim 400 None], 450), ([], 740)]) ''j1'' = Some r' \<and>
     r_status r' = Running \<and> r_device r' = Some ''dev'' \<and> r_attempts r' = 1 \<and> r_lease_expires r' = Some 1040"
  using renewed_run_stays_on_its_device [OF example_wf(2) example_leased_row(1), where since = 200 and lease = 300 and device = "''dev''"
      and rounds = "[([Claim ''other'' [''linux''] 300 350 None, Reclaim 400 None], 450), ([], 740)]"]
  by (simp add: take_lease_def example_row_def new_row_def)

theorem stale_device_claims_nothing_witness:
  "\<exists>ag' acts res. run_once example_device (example_answers 0 (Exit_Code 0)) = (ag', acts, res) \<and> res = Inr False"
proof -
  obtain ag' acts res where r: "run_once example_device (example_answers 0 (Exit_Code 0)) = (ag', acts, res)"
    by (cases "run_once example_device (example_answers 0 (Exit_Code 0))")
  have "strip ''aaa'' = ''aaa''" "strip ''bbb'' = ''bbb''" "strip ''false'' = ''false''" by code_simp+
  then have "git_tells (\<lambda>_. {''bbb''}) (\<lambda>_ _. True) (strip ''aaa'') (strip ''bbb'') (in_git (example_answers 0 (Exit_Code 0)))"
      "names_two_builds ''aaa'' ''bbb''"
    by (simp_all add: git_tells_def names_two_builds_def example_answers_def example_git_def UNKNOWN_def)
  note stale = stale_device_claims_nothing [OF this(1) _ this(2) _ _ _ _ _ r, of "''/src''"]
  have "ag_source_root example_device = Some ''/src''" "''aaa'' = bi_commit (cl_build (ag_client example_device))"
      "''bbb'' = broker_commit (ag_client example_device)" "in_checkout (example_answers 0 (Exit_Code 0)) ''/src''"
    by (simp_all add: example_device_def broker_commit_def no_build_def example_answers_def)
  then have "res = Inr False" using stale by blast
  with r show ?thesis by blast
qed

theorem device_report_is_the_outcome_witness:
  "\<exists>d' posts ans. serve_jobs id (\<lambda>_. []) example_agent_server 300 (at_broker (ag_client example_device) example_report)
       (Inr (hq_payload example_report)) 300 300 example_leased = (d', posts, ans) \<and>
     (row_of d' ''j1'' = Some (take_lease ''dev'' 500 example_row) \<or>
      (\<exists>r. row_of d' ''j1'' = Some r \<and> r_exit_code r = None \<and> r_last_error r = Some ''OSError: gone''))"
proof -
  obtain d' posts ans where d': "serve_jobs id (\<lambda>_. []) example_agent_server 300 (at_broker (ag_client example_device) example_report)
       (Inr (hq_payload example_report)) 300 300 example_leased = (d', posts, ans)"
    by (cases "serve_jobs id (\<lambda>_. []) example_agent_server 300 (at_broker (ag_client example_device) example_report)
       (Inr (hq_payload example_report)) 300 300 example_leased")
  let ?inp = "example_answers 1 (Raised ''OSError'' ''gone'')"
  have error: "strip (error_line ''OSError'' ''gone'') = ''OSError: gone''" by code_simp
  have claimed: "claim_reply (in_shown ?inp) (in_loads ?inp) (in_claim ?inp) = Inr (Some \<lparr>js_id = ''j1'', js_repository = ''o/r'',
      js_sha = ''c0ffee'', js_ref = ''refs/heads/main'', js_command = [], js_timeout = 3600\<rparr>)"
    unfolding example_answers_def by (simp add: example_claim_reply)
  have plain: "plain_id (js_id \<lparr>js_id = ''j1'', js_repository = ''o/r'',
      js_sha = ''c0ffee'', js_ref = ''refs/heads/main'', js_command = [], js_timeout = 3600\<rparr>)" by (simp add: plain_id_def)
  have sent: "Reports example_report \<in> set [Claims c, Executes js, Says m, Reports example_report]" for c js m by simp
  have "row_of d' ''j1'' = Some (take_lease ''dev'' 500 example_row) \<or>
      (\<exists>r. row_of d' ''j1'' = Some r \<and> outcome_recorded (in_execution ?inp) r)"
    using device_report_is_the_outcome [OF example_wf(2) example_pass sent claimed plain d' example_leased_row(1)] by blast
  moreover have "in_execution ?inp = Raised ''OSError'' ''gone''" by (simp add: example_answers_def)
  ultimately show ?thesis using d' error by auto
qed

end
