(* ===== verification/Device_Execution.thy ===== *)
theory Device_Execution
  imports Contract_Choice Device_Agent
begin

text \<open>
  The execution of a run on a device (\<open>executor.py\<close>, \<open>limits.py\<close>, \<open>docker_support.py\<close>, \<open>process.py\<close>, the
  shell script and the result of \<open>steps.py\<close>): the commands the device starts, in order, for a checkout, an
  image, the services and the job's container, and the clean-up after them. The host is a record of
  answers: the exit code of a command after the commands before it, what a captured command prints, whether
  the run is cancelled by then, and what the file system holds. Shown are how the containers of a whole run are
  confined, that the clean-up reaches every container whose start exited with zero, and what was run when a success
  is reported.
\<close>

section \<open>Limits\<close>

record job_limits =
  jl_cpus :: "real option"
  jl_memory :: "string option"
  jl_disk_write :: "int option"
  jl_disk_read :: "int option"

definition new_limits :: "real option \<Rightarrow> string option \<Rightarrow> int option \<Rightarrow> int option \<Rightarrow> job_limits result" where
  "new_limits cpus memory disk_write disk_read =
     (let bad = (\<lambda>v. case v of None \<Rightarrow> False | Some n \<Rightarrow> n \<le> 0);
          refusal = (\<lambda>name v. Inl (ValueError (''a '' @ name @ '' cap must be positive bytes per second, not '' @ int_str (the v))))
      in if bad disk_read then refusal ''disk read'' disk_read
         else if bad disk_write then refusal ''disk write'' disk_write
         else Inr \<lparr>jl_cpus = cpus, jl_memory = memory, jl_disk_write = disk_write, jl_disk_read = disk_read\<rparr>)"

definition capped :: "job_limits \<Rightarrow> bool" where
  "capped l \<longleftrightarrow> jl_cpus l \<noteq> None \<or> jl_memory l \<noteq> None \<or> jl_disk_write l \<noteq> None \<or> jl_disk_read l \<noteq> None"

definition cpu_and_memory :: "job_limits \<Rightarrow> (string \<times> string) list" where
  "cpu_and_memory l =
     (case jl_cpus l of None \<Rightarrow> [] | Some c \<Rightarrow> [(''cpu-period'', ''100000''), (''cpu-quota'', int_str \<lfloor>c * 100000\<rfloor>)]) @
     (case jl_memory l of None \<Rightarrow> [] | Some m \<Rightarrow> [(''memory'', m), (''memory-swap'', m)])"

definition disk_caps :: "job_limits \<Rightarrow> (string \<times> string) list" where
  "disk_caps l =
     (case jl_disk_write l of None \<Rightarrow> [] | Some n \<Rightarrow> [(''device-write-bps'', int_str n)]) @
     (case jl_disk_read l of None \<Rightarrow> [] | Some n \<Rightarrow> [(''device-read-bps'', int_str n)])"

definition flags :: "(string \<times> string) list \<Rightarrow> string list" where
  "flags values = concat (map (\<lambda>(k, v). [''--'' @ k, v]) values)"

definition run_args :: "job_limits \<Rightarrow> string list" where
  "run_args l = flags (cpu_and_memory l @ disk_caps l)"

definition build_args :: "bool \<Rightarrow> job_limits \<Rightarrow> string list" where
  "build_args resource l =
     (if resource then concat (map (\<lambda>(k, v). [''--resource'', k @ ''='' @ v]) (cpu_and_memory l))
      else flags (cpu_and_memory l))"

definition build_disk_note :: "job_limits \<Rightarrow> string option" where
  "build_disk_note l =
     (let sides = (if jl_disk_write l = None then [] else [''write'']) @ (if jl_disk_read l = None then [] else [''read''])
      in if sides = [] then None
         else Some (''cindral: warning: the disk '' @ join_with '', '' sides @ '' cap does not reach the build container:'' @
           '' docker build has no block-I/O resource flag, so it applies to the job'' @ '' container and to nothing before it''))"

text \<open>\<open>describe\<close>; \<open>shown\<close> is the short text of a number of cpus.\<close>

definition limit_parts :: "(real \<Rightarrow> string) \<Rightarrow> job_limits \<Rightarrow> (string \<times> string option) list" where
  "limit_parts shown l =
     [(''cpu'', map_option (\<lambda>c. ''cpu='' @ shown c) (jl_cpus l)), (''memory'', map_option (\<lambda>m. ''memory='' @ m) (jl_memory l)),
      (''disk-write'', map_option (\<lambda>n. ''disk-write='' @ int_str n @ ''B/s'') (jl_disk_write l)),
      (''disk-read'', map_option (\<lambda>n. ''disk-read='' @ int_str n @ ''B/s'') (jl_disk_read l))]"

definition describe_limits :: "(real \<Rightarrow> string) \<Rightarrow> job_limits \<Rightarrow> string" where
  "describe_limits shown l =
     (let set_parts = filter (\<lambda>(_, p). p \<noteq> None) (limit_parts shown l); missing = filter (\<lambda>(_, p). p = None) (limit_parts shown l)
      in if set_parts = []
         then ''no job limits: cpu, memory, disk read and disk write are all uncapped,'' @
              '' so a stream of jobs can saturate this host's disk and memory''
         else ''job limits: '' @ join_with '', '' (map (the \<circ> snd) set_parts) @
              (if missing = [] then [] else '' (uncapped: '' @ join_with '', '' (map fst missing) @ '')''))"

section \<open>The host\<close>

type_synonym command = "string list"

record host =
  ho_code :: "command list \<Rightarrow> command \<Rightarrow> int"
  ho_capture :: "command list \<Rightarrow> command \<Rightarrow> int \<times> string"
  ho_cancelled :: "command list \<Rightarrow> bool"
  ho_round :: "nat \<Rightarrow> real"
  ho_socket :: "string \<Rightarrow> nat option"
  ho_which :: "string \<Rightarrow> string option"
  ho_dir :: "string \<Rightarrow> bool"
  ho_file :: "string \<Rightarrow> bool"
  ho_remove :: "command list \<Rightarrow> string option"
  ho_write :: "string \<Rightarrow> string option"

text \<open>An error of the executor, one of the operating system, and an exception that nothing below \<open>_execute\<close> catches.\<close>

datatype exec_error = Executor_Error string | OS_Error string | Uncaught string

text \<open>A part of an execution: from the commands started so far to those started then, and its value or error.\<close>

type_synonym 'a step_result = "command list \<times> (exec_error + 'a)"

definition andthen :: "'a step_result \<Rightarrow> (command list \<Rightarrow> 'a \<Rightarrow> 'b step_result) \<Rightarrow> 'b step_result" where
  "andthen r f = (case r of (h, Inl e) \<Rightarrow> (h, Inl e) | (h, Inr x) \<Rightarrow> f h x)"

definition run_command :: "host \<Rightarrow> command \<Rightarrow> command list \<Rightarrow> command list \<times> int" where
  "run_command ho argv h = (h @ [argv], ho_code ho h argv)"

definition check_command :: "host \<Rightarrow> command \<Rightarrow> command list \<Rightarrow> unit step_result" where
  "check_command ho argv h =
     (let (h', code) = run_command ho argv h
      in if code \<noteq> 0 then (h', Inl (Executor_Error (''command failed (exit '' @ int_str code @ ''): '' @ join_with '' '' argv)))
         else (h', Inr ()))"

definition capture_command :: "host \<Rightarrow> command \<Rightarrow> command list \<Rightarrow> command list \<times> int \<times> string" where
  "capture_command ho argv h = (h @ [argv], ho_capture ho h argv)"

fun run_all :: "host \<Rightarrow> command list \<Rightarrow> command list \<Rightarrow> command list" where
  "run_all ho [] h = h"
| "run_all ho (argv # rest) h = run_all ho rest (fst (run_command ho argv h))"

text \<open>
  A file the executor writes is an entry of the history as well, so that what a container finds in its workspace
  can be read off it. No command is spelled like one: its second word is a path with a slash.
\<close>

definition write_of :: "string \<Rightarrow> string \<Rightarrow> command" where
  "write_of path content = [''>'', path, content]"

definition write_file :: "host \<Rightarrow> string \<Rightarrow> string \<Rightarrow> command list \<Rightarrow> unit step_result" where
  "write_file ho path content h =
     (case ho_write ho path of Some m \<Rightarrow> (h, Inl (OS_Error m)) | None \<Rightarrow> (h @ [write_of path content], Inr ()))"

section \<open>Docker from inside a job\<close>

definition DOCKER_SOCKET :: string where "DOCKER_SOCKET = ''/var/run/docker.sock''"
definition DOCKER_PLUGIN_DIRS :: "string list" where
  "DOCKER_PLUGIN_DIRS = [''/usr/lib/docker/cli-plugins'', ''/usr/libexec/docker/cli-plugins'', ''/usr/local/lib/docker/cli-plugins'']"

definition mount :: "string \<Rightarrow> string \<Rightarrow> string list" where
  "mount source target = [''-v'', source @ '':'' @ target]"

definition docker_cli_mounts :: "host \<Rightarrow> string \<Rightarrow> string list result" where
  "docker_cli_mounts ho docker =
     (case ho_socket ho DOCKER_SOCKET of
        None \<Rightarrow> Inl (ValueError (''contract requests docker but '' @ DOCKER_SOCKET @ '' is missing''))
      | Some gid \<Rightarrow>
          (case ho_which ho docker of
             None \<Rightarrow> Inl (ValueError (''contract requests docker but '' @ docker @ '' is not on PATH''))
           | Some binary \<Rightarrow>
               Inr (mount DOCKER_SOCKET DOCKER_SOCKET @ [''--group-add'', nat_str gid] @ mount binary (binary @ '':ro'') @
                    concat (map (\<lambda>dir. if ho_dir ho dir then mount dir (dir @ '':ro'') else []) DOCKER_PLUGIN_DIRS))))"

text \<open>\<open>make_cache_readable\<close>: one container that changes the owner of a directory, for the ids given.\<close>

definition make_cache_readable :: "host \<Rightarrow> string \<Rightarrow> string \<Rightarrow> string \<Rightarrow> nat \<Rightarrow> nat \<Rightarrow> string \<Rightarrow> command list \<Rightarrow> unit step_result" where
  "make_cache_readable ho docker cache_path img uid gid shell h =
     (case check_command ho
       ([docker, ''run'', ''--rm'', ''--network'', ''none'', ''--user'', ''0:0''] @ mount cache_path ''/cindral-cache'' @
        [''--entrypoint'', shell, img, ''-lc'',
         ''if ! chown -R '' @ nat_str uid @ '':'' @ nat_str gid @ '' /cindral-cache; then '' @
         ''echo 'cindral: warning: chown failed, falling back to chmod' >&2; '' @ ''chmod -R a+rX /cindral-cache; fi'']) h of
        (h', Inl (Executor_Error m)) \<Rightarrow> (h', Inl (OS_Error (''cache permissions could not be prepared: '' @ m)))
      | other \<Rightarrow> other)"

section \<open>The executor\<close>

definition SERVICE_HEALTH_TIMEOUT :: real where "SERVICE_HEALTH_TIMEOUT = 90"
definition SERVICE_HEALTH_POLL_SECONDS :: real where "SERVICE_HEALTH_POLL_SECONDS = 2"
definition MIN_JOB_CPUS :: real where "MIN_JOB_CPUS = 1 / 100"

record executor =
  ex_token :: string
  ex_workspace_root :: string
  ex_docker :: string
  ex_git :: string
  ex_github_base :: string
  ex_shell :: string
  ex_cleanup :: bool
  ex_limits :: job_limits
  ex_labels :: "string list"

definition new_executor ::
  "string option \<Rightarrow> string \<Rightarrow> string \<Rightarrow> string \<Rightarrow> string \<Rightarrow> string \<Rightarrow> bool \<Rightarrow> real option \<Rightarrow> string option \<Rightarrow> int option \<Rightarrow> int option \<Rightarrow>
   string list \<Rightarrow> executor result" where
  "new_executor token workspace_root docker git github_base shell cleanup cpus memory disk_write disk_read labels =
     (if (case cpus of None \<Rightarrow> False | Some c \<Rightarrow> c < MIN_JOB_CPUS)
      then Inl (RuntimeError ''a cpu cap is too small to run anything; the minimum is 0.01'')
      else rbind (new_limits cpus memory disk_write disk_read) (\<lambda>l.
        Inr \<lparr>ex_token = (case token of None \<Rightarrow> [] | Some t \<Rightarrow> t), ex_workspace_root = workspace_root, ex_docker = docker, ex_git = git,
             ex_github_base = rev (dropWhile (\<lambda>c. c = CHR ''/'') (rev github_base)), ex_shell = shell, ex_cleanup = cleanup,
             ex_limits = l, ex_labels = map (lower \<circ> strip) labels\<rparr>))"

definition workspace_of :: "executor \<Rightarrow> job_spec \<Rightarrow> string" where
  "workspace_of ex job = ex_workspace_root ex @ ''/'' @ js_id job"

definition repo_of :: "executor \<Rightarrow> job_spec \<Rightarrow> string" where
  "repo_of ex job = workspace_of ex job @ ''/repo''"

text \<open>The environment of git when there is a token; \<open>b64\<close> is the base64 text of a text.\<close>

definition git_env :: "(string \<Rightarrow> string) \<Rightarrow> executor \<Rightarrow> (string \<times> string) list" where
  "git_env b64 ex =
     (if ex_token ex = [] then []
      else [(''GIT_CONFIG_COUNT'', ''1''), (''GIT_CONFIG_KEY_0'', ''http.extraheader''),
            (''GIT_CONFIG_VALUE_0'', ''AUTHORIZATION: basic '' @ b64 (''x-access-token:'' @ ex_token ex)), (''GIT_TERMINAL_PROMPT'', ''0'')])"

definition git_in :: "executor \<Rightarrow> job_spec \<Rightarrow> string list \<Rightarrow> command" where
  "git_in ex job args = [ex_git ex, ''-C'', repo_of ex job] @ args"

definition checkout_commit :: "host \<Rightarrow> executor \<Rightarrow> job_spec \<Rightarrow> command list \<Rightarrow> unit step_result" where
  "checkout_commit ho ex job h =
     (let url = ex_github_base ex @ ''/'' @ js_repository job @ ''.git'' in
      andthen (check_command ho [ex_git ex, ''init'', ''-q'', repo_of ex job] h) (\<lambda>h _.
      andthen (check_command ho (git_in ex job [''remote'', ''add'', ''origin'', url]) h) (\<lambda>h _.
      andthen (case run_command ho (git_in ex job [''fetch'', ''--depth'', ''1'', ''origin'', js_sha job]) h of
                 (h, code) \<Rightarrow> if code \<noteq> 0 then check_command ho (git_in ex job [''fetch'', ''origin'', js_ref job]) h else (h, Inr ()))
        (\<lambda>h _. check_command ho (git_in ex job [''checkout'', ''--detach'', js_sha job]) h))))"

text \<open>The labels a job asks for that are no image and that the device does not advertise.\<close>

definition missing_labels :: "executor \<Rightarrow> contract \<Rightarrow> string list" where
  "missing_labels ex c =
     filter (\<lambda>l. \<not> hosted_label l \<and> lower (strip l) \<notin> set (ex_labels ex)) (ct_labels c)"

definition load_contract :: "python \<Rightarrow> checkout \<Rightarrow> executor \<Rightarrow> job_spec \<Rightarrow> exec_error + contract" where
  "load_contract py ck ex job =
     (case snd (resolve_contract py ck job) of
        Inl e \<Rightarrow> Inl (Executor_Error (error_text e))
      | Inr c \<Rightarrow>
          if missing_labels ex c \<noteq> []
          then Inl (Executor_Error (''this device does not advertise '' @ join_with '', '' (sort (missing_labels ex c)) @ '', and the job asks for it''))
          else Inr c)"

text \<open>How this \<open>docker build\<close> spells the caps, by the text of its help.\<close>

definition build_style :: "string \<Rightarrow> string" where
  "build_style help_text =
     (if sublist ''--resource'' help_text then ''resource'' else if sublist ''--cpu-quota'' help_text then ''legacy'' else [])"

definition build_limit_args :: "host \<Rightarrow> executor \<Rightarrow> string option \<Rightarrow> command list \<Rightarrow> command list \<times> string option \<times> string list" where
  "build_limit_args ho ex style h =
     (if \<not> capped (ex_limits ex) then (h, style, [])
      else let (h', style') =
             (case style of
                Some st \<Rightarrow> (h, st)
              | None \<Rightarrow> (case capture_command ho [ex_docker ex, ''build'', ''--help''] h of (h', _, out) \<Rightarrow> (h', build_style out)))
           in (h', Some style', if style' = [] then [] else build_args (style' = ''resource'') (ex_limits ex)))"

definition job_image :: "host \<Rightarrow> executor \<Rightarrow> job_spec \<Rightarrow> contract \<Rightarrow> string option \<Rightarrow> command list \<Rightarrow> string step_result" where
  "job_image ho ex job c style h =
     (case (ct_dockerfile c, ct_image c) of
        (Some dockerfile, _) \<Rightarrow>
          (let tag = ''cindral-job-'' @ js_id job; path = repo_of ex job @ ''/'' @ dockerfile
           in if \<not> ho_file ho path then (h, Inl (Executor_Error (''dockerfile not found: '' @ dockerfile)))
              else (case build_limit_args ho ex style h of
                      (h, _, args) \<Rightarrow>
                        andthen (check_command ho ([ex_docker ex, ''build''] @ args @ [''-t'', tag, ''-f'', path, repo_of ex job]) h)
                          (\<lambda>h _. (h, Inr tag))))
      | (None, None) \<Rightarrow> (h, Inl (Executor_Error ''unexpected executor failure''))
      | (None, Some img) \<Rightarrow>
          (case run_command ho [ex_docker ex, ''image'', ''inspect'', img] h of
             (h, code) \<Rightarrow>
               if code \<noteq> 0 then andthen (check_command ho [ex_docker ex, ''pull'', img] h) (\<lambda>h _. (h, Inr img))
               else (h, Inr img)))"

section \<open>The script\<close>

definition step_block :: "string \<Rightarrow> nat \<times> string \<Rightarrow> string" where
  "step_block nonce numbered_step =
     (case numbered_step of (index, step) \<Rightarrow>
        (let nl = [CHR 0x0A]; q = [CHR 0x27]; esc = [CHR 0x5C] @ ''n''; mark = ''cindral: step '' @ nat_str index @ '' '' @ nonce in
         ''printf '' @ q @ esc @ mark @ '': %s'' @ esc @ q @ '' '' @ shell_quote step @ nl @
         ''if ( '' @ step @ nl @ '') ; then'' @ nl @
         ''  printf '' @ q @ esc @ mark @ '' end'' @ esc @ q @ nl @
         ''else'' @ nl @
         ''  cindral_step_status=$?'' @ nl @
         ''  exit '' @ [CHR 0x22] @ ''$cindral_step_status'' @ [CHR 0x22] @ nl @
         ''fi''))"

definition run_script :: "string list \<Rightarrow> string \<Rightarrow> string" where
  "run_script steps nonce =
     join_with [CHR 0x0A] (''set -e'' # map (step_block nonce) (zip [1..<Suc (length steps)] steps)) @ [CHR 0x0A]"

definition script_path :: "executor \<Rightarrow> job_spec \<Rightarrow> string" where
  "script_path ex job = workspace_of ex job @ ''/run.sh''"

section \<open>The steps in their containers\<close>

definition env_args :: "(string \<times> string) list \<Rightarrow> string list" where
  "env_args env = concat (map (\<lambda>(k, v). [''-e'', k @ ''='' @ v]) env)"

definition service_container :: "executor \<Rightarrow> string \<Rightarrow> service \<Rightarrow> command" where
  "service_container ex network sv =
     [ex_docker ex, ''run'', ''-d'', ''--name'', network @ ''-'' @ sv_name sv, ''--network'', network, ''--network-alias'', sv_name sv] @
     run_args (ex_limits ex) @
     (case sv_health_cmd sv of
        None \<Rightarrow> []
      | Some cmd \<Rightarrow> [''--health-cmd'', cmd, ''--health-interval'', ''2s'', ''--health-timeout'', ''5s'', ''--health-retries'', ''30'']) @
     env_args (sv_env sv) @ [sv_image sv] @ sv_command sv"

text \<open>Starts the services in order; the names of those whose command succeeded are kept, whatever comes after.\<close>

fun start_services :: "host \<Rightarrow> executor \<Rightarrow> string \<Rightarrow> service list \<Rightarrow> string list \<Rightarrow> command list \<Rightarrow> string list \<times> unit step_result" where
  "start_services ho ex network [] started h = (started, h, Inr ())"
| "start_services ho ex network (sv # rest) started h =
     (case check_command ho (service_container ex network sv) h of
        (h', Inl e) \<Rightarrow> (started, h', Inl e)
      | (h', Inr _) \<Rightarrow> start_services ho ex network rest (started @ [network @ ''-'' @ sv_name sv]) h')"

definition healthy :: "host \<Rightarrow> executor \<Rightarrow> string \<Rightarrow> command list \<Rightarrow> command list \<times> bool" where
  "healthy ho ex name h =
     (case capture_command ho [ex_docker ex, ''inspect'', ''--format'', ''{{.State.Health.Status}}'', name] h of
        (h', code, status) \<Rightarrow> (h', code = 0 \<and> strip status = ''healthy''))"

fun still_waiting :: "host \<Rightarrow> executor \<Rightarrow> string list \<Rightarrow> command list \<Rightarrow> command list \<times> string list" where
  "still_waiting ho ex [] h = (h, [])"
| "still_waiting ho ex (name # names) h =
     (let (h1, ok) = healthy ho ex name h; (h2, rest) = still_waiting ho ex names h1
      in (h2, if ok then rest else name # rest))"

text \<open>
  \<open>_wait_for_services\<close>: \<open>ho_round k\<close> is the clock when round \<open>k\<close> has asked, and at \<open>k = 0\<close> when the wait begins.
  The fuel bounds the rounds; None is the wait that does not end.
\<close>

fun wait_rounds :: "nat \<Rightarrow> nat \<Rightarrow> host \<Rightarrow> executor \<Rightarrow> string list \<Rightarrow> command list \<Rightarrow> bool step_result option" where
  "wait_rounds fuel k ho ex names h =
     (if names = [] then Some (h, Inr True)
      else case fuel of
             0 \<Rightarrow> None
           | Suc fuel' \<Rightarrow>
               (let (h', pending) = still_waiting ho ex names h
                in if pending = [] then Some (h', Inr True)
                   else if ho_cancelled ho h' then Some (h', Inr False)
                   else if ho_round ho (Suc k) \<ge> ho_round ho 0 + SERVICE_HEALTH_TIMEOUT
                   then Some (h', Inl (Executor_Error (''services did not become healthy within 90s: '' @ join_with '', '' pending)))
                   else wait_rounds fuel' (Suc k) ho ex pending h'))"

definition WAIT_FUEL :: nat where "WAIT_FUEL = 46"

definition wait_for_services :: "host \<Rightarrow> executor \<Rightarrow> string list \<Rightarrow> command list \<Rightarrow> bool step_result" where
  "wait_for_services ho ex names h =
     (case wait_rounds WAIT_FUEL 0 ho ex names h of Some r \<Rightarrow> r | None \<Rightarrow> (h, Inr False))"

definition job_container ::
  "executor \<Rightarrow> job_spec \<Rightarrow> string \<Rightarrow> string list \<Rightarrow> string option \<Rightarrow> (string \<times> string) list \<Rightarrow> command" where
  "job_container ex job img docker_cli cache_root env =
     (let network = job_network (js_id job) in
      [ex_docker ex, ''run'', ''--name'', network @ ''-job'', ''--network'', network] @
      mount (workspace_of ex job) ''/workspace'' @ [''-w'', ''/workspace/repo''] @
      [''-e'', ''CINDRAL_JOB_ID='' @ js_id job, ''-e'', ''CI=true''] @
      run_args (ex_limits ex) @ docker_cli @
      (case cache_root of None \<Rightarrow> [] | Some root_dir \<Rightarrow> mount root_dir ''/cindral-cache'') @
      env_args env @ [img, ex_shell ex, ''-lc'', ''sh /workspace/run.sh''])"

text \<open>Inside the network: the services, the wait, the job. The names of the services started come first.\<close>

definition in_network ::
  "host \<Rightarrow> executor \<Rightarrow> job_spec \<Rightarrow> contract \<Rightarrow> string \<Rightarrow> string list \<Rightarrow> string option \<Rightarrow> (string \<times> string) list \<Rightarrow> command list \<Rightarrow>
   string list \<times> int step_result" where
  "in_network ho ex job c img docker_cli cache_root cache_env h =
     (let network = job_network (js_id job);
          (started, r) = start_services ho ex network (ct_services c) [] h;
          waiting = map (\<lambda>sv. network @ ''-'' @ sv_name sv) (filter (\<lambda>sv. sv_health_cmd sv \<noteq> None) (ct_services c))
      in (started,
          andthen r (\<lambda>h _.
          andthen (wait_for_services ho ex waiting h) (\<lambda>h ok.
            if \<not> ok then (h, Inr 130)
            else let (h', code) = run_command ho (job_container ex job img docker_cli cache_root (dict_update (ct_env c) cache_env)) h
                 in (h', Inr (if ho_cancelled ho h' then 130 else code))))))"

definition cleanup_commands :: "executor \<Rightarrow> string \<Rightarrow> string list \<Rightarrow> command list" where
  "cleanup_commands ex network started =
     map (\<lambda>name. [ex_docker ex, ''rm'', ''-f'', name]) ((network @ ''-job'') # started) @ [[ex_docker ex, ''network'', ''rm'', network]]"

definition run_job_steps ::
  "host \<Rightarrow> executor \<Rightarrow> job_spec \<Rightarrow> contract \<Rightarrow> string \<Rightarrow> string \<Rightarrow> string option \<Rightarrow> (string \<times> string) list \<Rightarrow> command list \<Rightarrow> int step_result" where
  "run_job_steps ho ex job c img nonce cache_root cache_env h =
     (case (if ct_docker c then docker_cli_mounts ho (ex_docker ex) else Inr []) of
        Inl (ValueError m) \<Rightarrow> (h, Inl (Executor_Error m))
      | Inl _ \<Rightarrow> (h, Inl (Executor_Error []))
      | Inr docker_cli \<Rightarrow>
          (let network = job_network (js_id job) in
           andthen (write_file ho (script_path ex job) (run_script (ct_steps c) nonce) h) (\<lambda>h _.
           andthen (check_command ho [ex_docker ex, ''network'', ''create'', network] h) (\<lambda>h _.
             let (started, h', r) = in_network ho ex job c img docker_cli cache_root cache_env h
             in (run_all ho (cleanup_commands ex network started) h', r)))))"

text \<open>The seconds after which a run is cancelled; none for zero.\<close>

definition run_timeout :: "job_spec \<Rightarrow> contract \<Rightarrow> int" where
  "run_timeout job c =
     (case ct_timeout_minutes c of
        Some m \<Rightarrow> if m \<noteq> 0 then min (js_timeout job) (m * 60) else js_timeout job
      | None \<Rightarrow> js_timeout job)"

section \<open>The result\<close>

definition log_tail :: "string \<Rightarrow> string" where
  "log_tail text =
     (if length text \<le> MAX_LOG_CHARS then text else ''...(truncated)...'' @ [CHR 0x0A] @ tail_chars MAX_LOG_CHARS text)"

definition result_for :: "int \<Rightarrow> string \<Rightarrow> string \<Rightarrow> string \<Rightarrow> execution" where
  "result_for exit_code log_text nonce archive =
     Execution exit_code (log_tail log_text) (map step_as_dict (parse_steps log_text nonce)) archive"

text \<open>\<open>log_file\<close> is the text of the log where there is one; the warning is added to it.\<close>

definition completed_log :: "string option \<Rightarrow> int \<Rightarrow> string option \<Rightarrow> string \<Rightarrow> string \<Rightarrow> execution" where
  "completed_log log_file exit_code cleanup_warning nonce archive =
     (let text = (case log_file of None \<Rightarrow> [] | Some t \<Rightarrow> t);
          warn = (case cleanup_warning of
                    None \<Rightarrow> []
                  | Some w \<Rightarrow> if w = [] then [] else ''cindral: warning: '' @ w @ [CHR 0x0A])
      in result_for exit_code (text @ warn) nonce archive)"

section \<open>A whole run\<close>

text \<open>
  What surrounds the steps (the caches themselves are modelled in \<open>Cache_Client\<close>): the exception of the detection or
  the restore that is not caught, the directory to mount where a cache plan sets a variable, and the variables the
  plans set; the directories to store after a run that passed, none without a cache client, whether packing a
  directory meets a file the agent may not read, and the exception of a store that is not caught; the archive of the
  artifacts; the log's text.
\<close>

record surroundings =
  su_cache_raises :: "string option"
  su_cache_root :: "string option"
  su_cache_env :: "(string \<times> string) list"
  su_stored :: "string list"
  su_unreadable :: "command list \<Rightarrow> string \<Rightarrow> bool"
  su_store_raises :: "string \<Rightarrow> string option"
  su_archive :: string
  su_owner :: "nat \<times> nat"
  su_build_style :: "string option"
  su_nonce :: string
  su_log :: "command list \<Rightarrow> string option"

definition make_readable :: "host \<Rightarrow> executor \<Rightarrow> surroundings \<Rightarrow> string \<Rightarrow> string \<Rightarrow> command list \<Rightarrow> unit step_result" where
  "make_readable ho ex su img path h = make_cache_readable ho (ex_docker ex) path img (fst (su_owner su)) (snd (su_owner su)) (ex_shell ex) h"

text \<open>\<open>store_caches\<close>: an error of one plan is written to the log and the next plan follows, unless nothing catches it.\<close>

fun store_caches :: "host \<Rightarrow> executor \<Rightarrow> surroundings \<Rightarrow> string \<Rightarrow> string list \<Rightarrow> command list \<Rightarrow> unit step_result" where
  "store_caches ho ex su img [] h = (h, Inr ())"
| "store_caches ho ex su img (path # paths) h =
     (let h' = (if su_unreadable su h path then fst (make_readable ho ex su img path h) else h)
      in case su_store_raises su path of
           Some m \<Rightarrow> (h', Inl (Uncaught m))
         | None \<Rightarrow> store_caches ho ex su img paths h')"

definition run_cached_job :: "host \<Rightarrow> executor \<Rightarrow> surroundings \<Rightarrow> job_spec \<Rightarrow> contract \<Rightarrow> string \<Rightarrow> command list \<Rightarrow> int step_result" where
  "run_cached_job ho ex su job c img h =
     (case su_cache_raises su of
        Some m \<Rightarrow> (h, Inl (Uncaught m))
      | None \<Rightarrow>
          andthen (run_job_steps ho ex job c img (su_nonce su) (su_cache_root su) (su_cache_env su) h) (\<lambda>h code.
            if code = 0 \<and> \<not> ho_cancelled ho h
            then andthen (store_caches ho ex su img (su_stored su) h) (\<lambda>h _. (h, Inr code))
            else (h, Inr code)))"

text \<open>\<open>pack_artifacts\<close>: every error leaves no archive.\<close>

definition ARTIFACT_PATH :: string where "ARTIFACT_PATH = ''.cindral/artifacts''"

definition pack_artifacts :: "host \<Rightarrow> executor \<Rightarrow> surroundings \<Rightarrow> job_spec \<Rightarrow> string \<Rightarrow> command list \<Rightarrow> command list \<times> string" where
  "pack_artifacts ho ex su job img h =
     (let directory = repo_of ex job @ ''/'' @ ARTIFACT_PATH in
      if su_unreadable su h directory
      then (case make_readable ho ex su img directory h of (h', Inl _) \<Rightarrow> (h', []) | (h', Inr _) \<Rightarrow> (h', su_archive su))
      else (h, su_archive su))"

definition execute_job ::
  "python \<Rightarrow> checkout \<Rightarrow> host \<Rightarrow> executor \<Rightarrow> surroundings \<Rightarrow> job_spec \<Rightarrow> command list \<times> int \<times> string option \<times> string" where
  "execute_job py ck ho ex su job =
     (case checkout_commit ho ex job [] of
        (h, Inl e) \<Rightarrow> (h, 1, None, [])
      | (h, Inr _) \<Rightarrow>
          (case load_contract py ck ex job of
             Inl e \<Rightarrow> (h, 1, None, [])
           | Inr c \<Rightarrow>
               (case job_image ho ex job c (su_build_style su) h of
                  (h, Inl e) \<Rightarrow> (h, 1, None, [])
                | (h, Inr img) \<Rightarrow>
                    (case run_cached_job ho ex su job c img h of
                       (h, Inl e) \<Rightarrow> (h, 1, Some img, [])
                     | (h, Inr code) \<Rightarrow> (case pack_artifacts ho ex su job img h of (h, archive) \<Rightarrow> (h, code, Some img, archive))))))"

text \<open>Removing the workspace, with a container for the files only root may remove.\<close>

definition cleanup_workspace :: "host \<Rightarrow> executor \<Rightarrow> job_spec \<Rightarrow> string option \<Rightarrow> command list \<Rightarrow> command list \<times> string option" where
  "cleanup_workspace ho ex job img h =
     (let workspace = workspace_of ex job; report = (\<lambda>extra m. ''could not remove workspace '' @ workspace @ extra @ '': '' @ m) in
      case (ho_remove ho h, img) of
        (None, _) \<Rightarrow> (h, None)
      | (Some m, None) \<Rightarrow> (h, Some (report [] m))
      | (Some m, Some i) \<Rightarrow>
          (case run_command ho
                  ([ex_docker ex, ''run'', ''--rm'', ''--network'', ''none'', ''--user'', ''0:0''] @ mount workspace ''/cleanup'' @
                   run_args (ex_limits ex) @ [''--entrypoint'', ex_shell ex, i, ''-lc'', ''rm -rf /cleanup/* /cleanup/.[!.]* /cleanup/..?*'']) h of
             (h', code) \<Rightarrow>
               if code \<noteq> 0
               then (h', Some (''could not remove root-owned files from workspace '' @ workspace @ '' (cleanup container exited '' @ int_str code @ '')''))
               else (h', map_option (report '' after container cleanup'') (ho_remove ho h'))))"

definition run_job :: "python \<Rightarrow> checkout \<Rightarrow> host \<Rightarrow> executor \<Rightarrow> surroundings \<Rightarrow> job_spec \<Rightarrow> command list \<times> execution" where
  "run_job py ck ho ex su job =
     (let (h, exit_code, img, archive) = execute_job py ck ho ex su job;
          (h', cleanup_warning) = (if ex_cleanup ex then cleanup_workspace ho ex job img h else (h, None))
      in (h', completed_log (su_log su h) exit_code cleanup_warning (su_nonce su) archive))"

text \<open>
  A log the device cut to its tail is longer than what the broker stores, by the line that says so; the broker keeps
  the beginning of it, and the last eighteen characters of the run's output are lost.
\<close>

lemma stored_log_loses_its_end:
  assumes "MAX_LOG_CHARS < length t"
  shows "r_log (verdict_row code (log_tail t) steps r) =
    Some (''...(truncated)...'' @ [CHR 0x0A] @ take (MAX_LOG_CHARS - 18) (tail_chars MAX_LOG_CHARS t))"
proof -
  define mark where "mark = ''...(truncated)...'' @ [CHR 0x0A]"
  have tail: "log_tail t = mark @ tail_chars MAX_LOG_CHARS t" using assms by (simp add: log_tail_def mark_def)
  have "length mark = 18" by (simp add: mark_def)
  then have "take MAX_LOG_CHARS (log_tail t) = mark @ take (MAX_LOG_CHARS - 18) (tail_chars MAX_LOG_CHARS t)" "log_tail t \<noteq> []"
    unfolding tail by (auto simp: MAX_LOG_CHARS_def)
  then show ?thesis by (simp add: verdict_row_def mark_def)
qed

section \<open>Options of a container\<close>

text \<open>
  A reading of \<open>docker run\<close>'s arguments: options before the image, each with a value but for two that have
  none, then the image and its command. It is used only to state what the commands above ask for.
\<close>

fun docker_options :: "string list \<Rightarrow> (string \<times> string) list \<times> string list" where
  "docker_options [] = ([], [])"
| "docker_options (a # rest) =
     (if a \<in> {''-d'', ''--rm''} then (let (opts, image_part) = docker_options rest in ((a, []) # opts, image_part))
      else if prefix ''-'' a
      then (case rest of [] \<Rightarrow> ([], []) | v # rest' \<Rightarrow> (let (opts, image_part) = docker_options rest' in ((a, v) # opts, image_part)))
      else ([], a # rest))"

definition values_of :: "string \<Rightarrow> (string \<times> string) list \<Rightarrow> string list" where
  "values_of key opts = map snd (filter (\<lambda>(k, v). k = key) opts)"

definition spelled :: "(string \<times> string) list \<Rightarrow> string list" where
  "spelled opts = concat (map (\<lambda>(k, v). [k, v]) opts)"

definition valued :: "(string \<times> string) list \<Rightarrow> bool" where
  "valued opts \<longleftrightarrow> list_all (\<lambda>(k, v). prefix ''-'' k \<and> k \<notin> {''-d'', ''--rm''}) opts"

lemma docker_options_spelled:
  "valued opts \<Longrightarrow> docker_options (spelled opts @ rest) = (opts @ fst (docker_options rest), snd (docker_options rest))"
  by (induction opts) (auto simp: valued_def spelled_def split: prod.split)

lemma docker_options_image: "\<not> prefix ''-'' img \<Longrightarrow> docker_options (img # rest) = ([], img # rest)"
  by auto

lemma spelled_simps [simp]: "spelled [] = []" "spelled (kv # opts) = fst kv # snd kv # spelled opts" "spelled (xs @ ys) = spelled xs @ spelled ys"
  by (auto simp: spelled_def split: prod.split)

lemma valued_simps [simp]:
  "valued []" "valued (kv # opts) \<longleftrightarrow> prefix ''-'' (fst kv) \<and> fst kv \<notin> {''-d'', ''--rm''} \<and> valued opts" "valued (xs @ ys) \<longleftrightarrow> valued xs \<and> valued ys"
  by (auto simp: valued_def split: prod.split)

lemma values_of_simps [simp]:
  "values_of key [] = []" "values_of key (kv # opts) = (if fst kv = key then snd kv # values_of key opts else values_of key opts)"
  "values_of key (xs @ ys) = values_of key xs @ values_of key ys"
  by (auto simp: values_of_def split: prod.split)

definition limit_options :: "job_limits \<Rightarrow> (string \<times> string) list" where
  "limit_options l = map (\<lambda>(k, v). (''--'' @ k, v)) (cpu_and_memory l @ disk_caps l)"

definition env_options :: "(string \<times> string) list \<Rightarrow> (string \<times> string) list" where
  "env_options env = map (\<lambda>(k, v). (''-e'', k @ ''='' @ v)) env"

lemma run_args_spelled: "run_args l = spelled (limit_options l)"
  by (auto simp: run_args_def flags_def spelled_def limit_options_def cpu_and_memory_def disk_caps_def split: option.split)

lemma env_args_spelled: "env_args env = spelled (env_options env)"
  by (induction env) (auto simp: env_args_def env_options_def split: prod.split)

lemma limit_keys:
  "fst ` set (limit_options l) \<subseteq> {''--cpu-period'', ''--cpu-quota'', ''--memory'', ''--memory-swap'', ''--device-write-bps'', ''--device-read-bps''}"
  by (auto simp: limit_options_def cpu_and_memory_def disk_caps_def split: option.split)

lemma valued_limit_options [simp]: "valued (limit_options l)"
  by (auto simp: limit_options_def cpu_and_memory_def disk_caps_def split: option.split)

lemma valued_env_options [simp]: "valued (env_options env)"
  by (induction env) (auto simp: env_options_def split: prod.split)

lemma values_of_limits [simp]: "key \<in> {''-v'', ''--network'', ''--name''} \<Longrightarrow> values_of key (limit_options l) = []"
  by (auto simp: limit_options_def cpu_and_memory_def disk_caps_def split: option.split)

lemma values_of_env [simp]: "key \<noteq> ''-e'' \<Longrightarrow> values_of key (env_options env) = []"
  by (induction env) (auto simp: env_options_def split: prod.split)

lemma env_keys: "fst ` set (env_options env) \<subseteq> {''-e''}"
  by (auto simp: env_options_def)

section \<open>What the containers ask for\<close>

definition service_options :: "executor \<Rightarrow> string \<Rightarrow> service \<Rightarrow> (string \<times> string) list" where
  "service_options ex network sv =
     [(''--name'', network @ ''-'' @ sv_name sv), (''--network'', network), (''--network-alias'', sv_name sv)] @ limit_options (ex_limits ex) @
     (case sv_health_cmd sv of
        None \<Rightarrow> []
      | Some cmd \<Rightarrow> [(''--health-cmd'', cmd), (''--health-interval'', ''2s''), (''--health-timeout'', ''5s''), (''--health-retries'', ''30'')]) @
     env_options (sv_env sv)"

definition docker_cli_options :: "host \<Rightarrow> string \<Rightarrow> nat \<Rightarrow> (string \<times> string) list" where
  "docker_cli_options ho binary gid =
     [(''-v'', DOCKER_SOCKET @ '':'' @ DOCKER_SOCKET), (''--group-add'', nat_str gid), (''-v'', binary @ '':'' @ binary @ '':ro'')] @
     concat (map (\<lambda>dir. if ho_dir ho dir then [(''-v'', dir @ '':'' @ dir @ '':ro'')] else []) DOCKER_PLUGIN_DIRS)"

definition job_options ::
  "executor \<Rightarrow> job_spec \<Rightarrow> (string \<times> string) list \<Rightarrow> string option \<Rightarrow> (string \<times> string) list \<Rightarrow> (string \<times> string) list" where
  "job_options ex job cli cache_root env =
     [(''--name'', job_network (js_id job) @ ''-job''), (''--network'', job_network (js_id job)), (''-v'', workspace_of ex job @ '':/workspace''),
      (''-w'', ''/workspace/repo''), (''-e'', ''CINDRAL_JOB_ID='' @ js_id job), (''-e'', ''CI=true'')] @
     limit_options (ex_limits ex) @ cli @ (case cache_root of None \<Rightarrow> [] | Some dir \<Rightarrow> [(''-v'', dir @ '':/cindral-cache'')]) @ env_options env"

lemma service_container_options:
  assumes "\<not> prefix ''-'' (sv_image sv)"
  shows "docker_options (drop 2 (service_container ex network sv)) = ((''-d'', []) # service_options ex network sv, sv_image sv # sv_command sv)"
proof -
  have "drop 2 (service_container ex network sv) = ''-d'' # spelled (service_options ex network sv) @ sv_image sv # sv_command sv"
    by (simp add: service_container_def service_options_def run_args_spelled env_args_spelled split: option.split)
  moreover have "valued (service_options ex network sv)" by (simp add: service_options_def split: option.split)
  ultimately show ?thesis using docker_options_spelled [of "service_options ex network sv"] docker_options_image [OF assms] by simp
qed

lemma docker_cli_mounts_spelled:
  assumes "docker_cli_mounts ho docker = Inr cli"
  shows "\<exists>binary gid. cli = spelled (docker_cli_options ho binary gid) \<and> ho_which ho docker = Some binary"
proof -
  have dirs: "concat (map (\<lambda>dir. if ho_dir ho dir then mount dir (dir @ '':ro'') else []) ds) =
      spelled (concat (map (\<lambda>dir. if ho_dir ho dir then [(''-v'', dir @ '':'' @ dir @ '':ro'')] else []) ds))" for ds
    by (induction ds) (auto simp: mount_def)
  from assms show ?thesis
    by (auto simp: docker_cli_mounts_def docker_cli_options_def dirs mount_def split: option.splits)
qed

lemma valued_cli [simp]: "valued (docker_cli_options ho binary gid)"
  by (simp add: docker_cli_options_def DOCKER_PLUGIN_DIRS_def)

lemma job_container_options:
  assumes "\<not> prefix ''-'' img" and "valued cli"
  shows "docker_options (drop 2 (job_container ex job img (spelled cli) cache_root env)) =
     (job_options ex job cli cache_root env, [img, ex_shell ex, ''-lc'', ''sh /workspace/run.sh''])"
proof -
  have "drop 2 (job_container ex job img (spelled cli) cache_root env) =
      spelled (job_options ex job cli cache_root env) @ [img, ex_shell ex, ''-lc'', ''sh /workspace/run.sh'']"
    by (simp add: job_container_def job_options_def run_args_spelled env_args_spelled mount_def Let_def split: option.split)
  moreover have "valued (job_options ex job cli cache_root env)" using assms(2) by (simp add: job_options_def split: option.split)
  ultimately show ?thesis
    using docker_options_spelled [of "job_options ex job cli cache_root env"] docker_options_image [OF assms(1)] by simp
qed

section \<open>The commands of the steps\<close>

lemma check_command_cases:
  assumes "check_command ho argv h = (h', r)"
  shows "h' = h @ [argv] \<and> (r = Inr () \<longleftrightarrow> ho_code ho h argv = 0) \<and> (\<exists>e. r = Inl e \<or> r = Inr ())"
  using assms by (auto simp: check_command_def run_command_def Let_def split: if_splits)

lemma run_all_append: "run_all ho cmds h = h @ cmds"
  by (induction cmds arbitrary: h) (auto simp: run_command_def)

lemma start_services_run:
  assumes "start_services ho ex network svs started h = (started', h', r)"
  shows "\<exists>k failed. k \<le> length svs \<and> started' = started @ map (\<lambda>sv. network @ ''-'' @ sv_name sv) (take k svs) \<and>
     h' = h @ map (service_container ex network) (take k svs) @ failed \<and>
     (failed = [] \<or> (\<exists>sv \<in> set svs. failed = [service_container ex network sv] \<and>
        ho_code ho (h @ map (service_container ex network) (take k svs)) (service_container ex network sv) \<noteq> 0))"
  using assms
proof (induction svs arbitrary: started h)
  case Nil
  then show ?case by auto
next
  case (Cons sv svs)
  let ?c = "service_container ex network sv"
  obtain h1 r1 where c: "check_command ho ?c h = (h1, r1)" by (cases "check_command ho ?c h")
  note cc = check_command_cases [OF c]
  show ?case
  proof (cases r1)
    case (Inl e)
    then have "started' = started \<and> h' = h @ [?c] \<and> ho_code ho h ?c \<noteq> 0" using Cons.prems c cc by auto
    then show ?thesis by (intro exI [of _ 0] exI [of _ "[?c]"]) auto
  next
    case (Inr u)
    then have "start_services ho ex network svs (started @ [network @ ''-'' @ sv_name sv]) (h @ [?c]) = (started', h', r)"
      using Cons.prems c cc by auto
    from Cons.IH [OF this] obtain k failed where k: "k \<le> length svs"
        "started' = (started @ [network @ ''-'' @ sv_name sv]) @ map (\<lambda>sv. network @ ''-'' @ sv_name sv) (take k svs)"
        "h' = (h @ [?c]) @ map (service_container ex network) (take k svs) @ failed"
        "failed = [] \<or> (\<exists>sv \<in> set svs. failed = [service_container ex network sv] \<and>
          ho_code ho ((h @ [?c]) @ map (service_container ex network) (take k svs)) (service_container ex network sv) \<noteq> 0)"
      by blast
    then show ?thesis by (intro exI [of _ "Suc k"] exI [of _ failed]) auto
  qed
qed

definition inspection :: "executor \<Rightarrow> command \<Rightarrow> bool" where
  "inspection ex argv \<longleftrightarrow> take 2 argv = [ex_docker ex, ''inspect'']"

lemma still_waiting_run:
  "still_waiting ho ex names h = (h', rest) \<Longrightarrow> \<exists>asked. h' = h @ asked \<and> list_all (inspection ex) asked"
proof (induction names arbitrary: h h' rest)
  case (Cons name names)
  obtain h1 ok where a: "healthy ho ex name h = (h1, ok)" by (cases "healthy ho ex name h")
  obtain h2 rest2 where b: "still_waiting ho ex names h1 = (h2, rest2)" by (cases "still_waiting ho ex names h1")
  obtain q where q: "h1 = h @ [q]" "inspection ex q"
    using a by (auto simp: healthy_def capture_command_def inspection_def split: prod.splits)
  from Cons.IH [OF b] Cons.prems a b q show ?case by (auto split: if_splits)
qed simp

lemma wait_rounds_run:
  "wait_rounds fuel k ho ex names h = Some (h', r) \<Longrightarrow> \<exists>asked. h' = h @ asked \<and> list_all (inspection ex) asked"
proof (induction fuel arbitrary: k names h)
  case (Suc fuel)
  obtain h1 pending where w: "still_waiting ho ex names h = (h1, pending)" by (cases "still_waiting ho ex names h")
  obtain asked where a: "h1 = h @ asked" "list_all (inspection ex) asked" using still_waiting_run [OF w] by blast
  from Suc.prems w have "h' = h \<or> h' = h1 \<or> wait_rounds fuel (Suc k) ho ex pending h1 = Some (h', r)"
    by (auto split: if_splits)
  then show ?case using a Suc.IH [of "Suc k" pending h1] by (auto intro: exI [of _ "[]"])
qed (auto split: if_splits)

lemma wait_for_services_run:
  "wait_for_services ho ex names h = (h', r) \<Longrightarrow> \<exists>asked. h' = h @ asked \<and> list_all (inspection ex) asked"
  using wait_rounds_run by (fastforce simp: wait_for_services_def split: option.splits)

text \<open>The wait ends: rounds are two seconds apart and the deadline is ninety seconds after the first.\<close>

definition steady_clock :: "host \<Rightarrow> bool" where
  "steady_clock ho \<longleftrightarrow> (\<forall>k. ho_round ho 0 + SERVICE_HEALTH_POLL_SECONDS * of_nat k \<le> ho_round ho (Suc k))"

lemma wait_rounds_end:
  assumes "steady_clock ho" and "fuel + k \<ge> WAIT_FUEL" and "fuel > 0"
  shows "wait_rounds fuel k ho ex names h \<noteq> None"
  using assms(2,3)
proof (induction fuel arbitrary: k names h)
  case (Suc fuel)
  obtain h1 pending where w: "still_waiting ho ex names h = (h1, pending)" by (cases "still_waiting ho ex names h")
  show ?case
  proof (cases "fuel = 0")
    case True
    then have "45 \<le> k" using Suc.prems(1) by (simp add: WAIT_FUEL_def)
    then have "SERVICE_HEALTH_TIMEOUT \<le> SERVICE_HEALTH_POLL_SECONDS * of_nat k"
      by (simp add: SERVICE_HEALTH_TIMEOUT_def SERVICE_HEALTH_POLL_SECONDS_def)
    then have "ho_round ho 0 + SERVICE_HEALTH_TIMEOUT \<le> ho_round ho (Suc k)"
      using assms(1) unfolding steady_clock_def by (meson add_left_mono order_trans)
    then show ?thesis using w by simp
  next
    case False
    then have IH: "wait_rounds fuel (Suc k) ho ex pending h1 \<noteq> None" using Suc.IH [of "Suc k" pending h1] Suc.prems(1) by simp
    show ?thesis by (subst wait_rounds.simps) (use IH w in \<open>simp del: wait_rounds.simps\<close>)
  qed
qed simp

lemma wait_ends: "steady_clock ho \<Longrightarrow> wait_rounds WAIT_FUEL 0 ho ex names h \<noteq> None"
  by (rule wait_rounds_end) (simp_all add: WAIT_FUEL_def)

text \<open>The shape of what a run starts: the network, the services, the questions, the job, the clean-up.\<close>

definition service_name :: "job_spec \<Rightarrow> service \<Rightarrow> string" where
  "service_name job sv = job_network (js_id job) @ ''-'' @ sv_name sv"

abbreviation service_command :: "executor \<Rightarrow> job_spec \<Rightarrow> service \<Rightarrow> command" where
  "service_command ex job sv \<equiv> service_container ex (job_network (js_id job)) sv"

lemma in_network_run:
  assumes "in_network ho ex job c img cli cache_root cache_env h = (started, h', r)"
  shows "\<exists>k failed asked last_part. started = map (service_name job) (take k (ct_services c)) \<and>
    h' = h @ map (service_command ex job) (take k (ct_services c)) @ failed @ asked @ last_part \<and> list_all (inspection ex) asked \<and>
    (failed = [] \<or> (\<exists>sv \<in> set (ct_services c). failed = [service_command ex job sv] \<and>
       ho_code ho (h @ map (service_command ex job) (take k (ct_services c))) (service_command ex job sv) \<noteq> 0)) \<and>
    (last_part = [] \<or> last_part = [job_container ex job img cli cache_root (dict_update (ct_env c) cache_env)]) \<and>
    (r = Inr 0 \<longrightarrow> (\<exists>pre. h' = pre @ [job_container ex job img cli cache_root (dict_update (ct_env c) cache_env)] \<and>
       ho_code ho pre (job_container ex job img cli cache_root (dict_update (ct_env c) cache_env)) = 0 \<and> \<not> ho_cancelled ho h'))"
proof -
  let ?net = "job_network (js_id job)" and ?jc = "job_container ex job img cli cache_root (dict_update (ct_env c) cache_env)"
  let ?waiting = "map (\<lambda>sv. ?net @ ''-'' @ sv_name sv) (filter (\<lambda>sv. sv_health_cmd sv \<noteq> None) (ct_services c))"
  obtain started1 h1 r1 where st: "start_services ho ex ?net (ct_services c) [] h = (started1, h1, r1)"
    by (cases "start_services ho ex ?net (ct_services c) [] h") auto
  from start_services_run [OF st] obtain k failed where k:
      "started1 = map (service_name job) (take k (ct_services c))" "h1 = h @ map (service_command ex job) (take k (ct_services c)) @ failed"
      "failed = [] \<or> (\<exists>sv \<in> set (ct_services c). failed = [service_command ex job sv] \<and>
         ho_code ho (h @ map (service_command ex job) (take k (ct_services c))) (service_command ex job sv) \<noteq> 0)"
    by (auto simp: service_name_def [abs_def])
  have started: "started = started1" using assms st by (auto simp: in_network_def Let_def)
  show ?thesis
  proof (cases r1)
    case (Inl e)
    then have "h' = h1 \<and> r = Inl e" using assms st by (auto simp: in_network_def Let_def andthen_def)
    then show ?thesis using k started by (intro exI [of _ k] exI [of _ failed] exI [of _ "[]"]) auto
  next
    case (Inr u)
    obtain h2 w where w: "wait_for_services ho ex ?waiting h1 = (h2, w)" by (cases "wait_for_services ho ex ?waiting h1")
    from wait_for_services_run [OF w] obtain asked where a: "h2 = h1 @ asked" "list_all (inspection ex) asked" by blast
    have "(h' = h2 \<and> r \<noteq> Inr 0) \<or> (h' = h2 @ [?jc] \<and> r = Inr (if ho_cancelled ho (h2 @ [?jc]) then 130 else ho_code ho h2 ?jc))"
      using assms st Inr w by (auto simp: in_network_def Let_def andthen_def run_command_def split: sum.splits if_splits)
    then show ?thesis
    proof
      assume "h' = h2 \<and> r \<noteq> Inr 0"
      then show ?thesis using k started a
        by (intro exI [of _ k] exI [of _ failed] exI [of _ asked] exI [of _ "[]"]) auto
    next
      assume *: "h' = h2 @ [?jc] \<and> r = Inr (if ho_cancelled ho (h2 @ [?jc]) then 130 else ho_code ho h2 ?jc)"
      then have "r = Inr 0 \<longrightarrow> (\<exists>pre. h' = pre @ [?jc] \<and> ho_code ho pre ?jc = 0 \<and> \<not> ho_cancelled ho h')" by auto
      moreover have "h' = h @ map (service_command ex job) (take k (ct_services c)) @ failed @ asked @ [?jc]" using * a(1) k(2) by simp
      ultimately show ?thesis using k(1,3) started a(2) by blast
    qed
  qed
qed

definition network_create :: "executor \<Rightarrow> job_spec \<Rightarrow> command" where
  "network_create ex job = [ex_docker ex, ''network'', ''create'', job_network (js_id job)]"

text \<open>What a run does first: it writes its script and creates its network.\<close>

definition script_write :: "executor \<Rightarrow> job_spec \<Rightarrow> contract \<Rightarrow> string \<Rightarrow> command" where
  "script_write ex job c nonce = write_of (script_path ex job) (run_script (ct_steps c) nonce)"

lemma run_job_steps_run:
  assumes "run_job_steps ho ex job c img nonce cache_root cache_env h = (h', r)"
  shows "(h' = h \<or> h' = h @ [script_write ex job c nonce] \<or> h' = h @ [script_write ex job c nonce, network_create ex job]) \<and> r \<noteq> Inr 0 \<or>
    (\<exists>cli started h1. (if ct_docker c then docker_cli_mounts ho (ex_docker ex) else Inr []) = Inr cli \<and>
       in_network ho ex job c img cli cache_root cache_env (h @ [script_write ex job c nonce, network_create ex job]) = (started, h1, r) \<and>
       h' = h1 @ cleanup_commands ex (job_network (js_id job)) started)"
proof (cases "if ct_docker c then docker_cli_mounts ho (ex_docker ex) else Inr []")
  case (Inl e)
  then show ?thesis using assms by (cases e) (auto simp: run_job_steps_def)
next
  case (Inr cli)
  let ?w = "script_write ex job c nonce" and ?n = "network_create ex job"
  show ?thesis
  proof (cases "ho_write ho (script_path ex job)")
    case (Some m)
    then show ?thesis using assms Inr by (auto simp: run_job_steps_def Let_def andthen_def write_file_def)
  next
    case None
    then have w: "write_file ho (script_path ex job) (run_script (ct_steps c) nonce) h = (h @ [?w], Inr ())"
      by (simp add: write_file_def script_write_def)
    obtain h0 r0 where n: "check_command ho ?n (h @ [?w]) = (h0, r0)" by (cases "check_command ho ?n (h @ [?w])")
    note nc = check_command_cases [OF n]
    obtain started h1 r1 where i: "in_network ho ex job c img cli cache_root cache_env h0 = (started, h1, r1)"
      by (cases "in_network ho ex job c img cli cache_root cache_env h0") auto
    show ?thesis
    proof (cases r0)
      case (Inl e)
      then show ?thesis using assms Inr w n nc by (auto simp: run_job_steps_def Let_def andthen_def network_create_def)
    next
      case Inr': (Inr u)
      then have "h' = h1 @ cleanup_commands ex (job_network (js_id job)) started \<and> r = r1"
        using assms Inr w n i by (auto simp: run_job_steps_def Let_def andthen_def network_create_def run_all_append)
      then show ?thesis using Inr i nc by auto
    qed
  qed
qed

section \<open>Confinement and clean-up\<close>

text \<open>
  Images that cannot be read as an option. The contract's parser does not ask for this of a service's image, and
  \<open>service_image_as_option\<close> below shows what one that is not plain does.
\<close>

definition plain_images :: "string \<Rightarrow> contract \<Rightarrow> bool" where
  "plain_images img c \<longleftrightarrow> \<not> prefix ''-'' img \<and> list_all (\<lambda>sv. \<not> prefix ''-'' (sv_image sv)) (ct_services c)"

definition is_run :: "executor \<Rightarrow> command \<Rightarrow> bool" where
  "is_run ex argv \<longleftrightarrow> take 2 argv = [ex_docker ex, ''run'']"

definition container_options :: "command \<Rightarrow> (string \<times> string) list" where
  "container_options argv = fst (docker_options (drop 2 argv))"

definition docker_mounts :: "host \<Rightarrow> string \<Rightarrow> string set" where
  "docker_mounts ho docker =
     {DOCKER_SOCKET @ '':'' @ DOCKER_SOCKET} \<union> (\<lambda>dir. dir @ '':'' @ dir @ '':ro'') ` (set_option (ho_which ho docker) \<union> set DOCKER_PLUGIN_DIRS)"

definition confined :: "host \<Rightarrow> executor \<Rightarrow> job_spec \<Rightarrow> contract \<Rightarrow> string option \<Rightarrow> command \<Rightarrow> bool" where
  "confined ho ex job c cache_root argv \<longleftrightarrow>
     values_of ''--network'' (container_options argv) = [job_network (js_id job)] \<and>
     set (values_of ''-v'' (container_options argv)) \<subseteq>
       {workspace_of ex job @ '':/workspace''} \<union> (\<lambda>dir. dir @ '':/cindral-cache'') ` set_option cache_root \<union>
       (if ct_docker c then docker_mounts ho (ex_docker ex) else {}) \<and>
     set (limit_options (ex_limits ex)) \<subseteq> set (container_options argv) \<and>
     fst ` set (container_options argv) \<subseteq>
       {''-d'', ''-e'', ''-v'', ''-w'', ''--name'', ''--network'', ''--network-alias'', ''--health-cmd'', ''--health-interval'', ''--health-timeout'',
        ''--health-retries'', ''--cpu-period'', ''--cpu-quota'', ''--memory'', ''--memory-swap'', ''--device-write-bps'', ''--device-read-bps''} \<union>
       (if ct_docker c then {''--group-add''} else {})"

lemma confined_service:
  assumes "\<not> prefix ''-'' (sv_image sv)"
  shows "confined ho ex job c cache_root (service_command ex job sv)"
proof -
  let ?net = "job_network (js_id job)"
  have o: "container_options (service_command ex job sv) = (''-d'', []) # service_options ex ?net sv"
    using service_container_options [OF assms] by (simp add: container_options_def)
  have "values_of ''--network'' (service_options ex ?net sv) = [?net]" "values_of ''-v'' (service_options ex ?net sv) = []"
    by (simp_all add: service_options_def split: option.split)
  moreover have "set (limit_options (ex_limits ex)) \<subseteq> set (service_options ex ?net sv)" by (auto simp: service_options_def)
  moreover have "fst ` set (service_options ex ?net sv) \<subseteq> {''-e'', ''--name'', ''--network'', ''--network-alias'', ''--health-cmd'',
      ''--health-interval'', ''--health-timeout'', ''--health-retries''} \<union> fst ` set (limit_options (ex_limits ex))"
    using env_keys [of "sv_env sv"] by (auto simp: service_options_def image_Un split: option.split)
  ultimately show ?thesis
    using limit_keys [of "ex_limits ex"] unfolding confined_def o by (auto 0 3)
qed

lemma docker_cli_facts:
  assumes "ho_which ho (ex_docker ex) = Some binary"
  shows "set (values_of ''-v'' (docker_cli_options ho binary gid)) \<subseteq> docker_mounts ho (ex_docker ex)"
    and "values_of ''--network'' (docker_cli_options ho binary gid) = []"
    and "values_of ''--name'' (docker_cli_options ho binary gid) = []"
    and "fst ` set (docker_cli_options ho binary gid) \<subseteq> {''-v'', ''--group-add''}"
  using assms by (auto simp: docker_cli_options_def docker_mounts_def DOCKER_PLUGIN_DIRS_def)

lemma cli_of_contract:
  assumes "(if ct_docker c then docker_cli_mounts ho (ex_docker ex) else Inr []) = Inr cli"
  shows "\<exists>opts. cli = spelled opts \<and> valued opts \<and> values_of ''--network'' opts = [] \<and> values_of ''--name'' opts = [] \<and>
    set (values_of ''-v'' opts) \<subseteq> (if ct_docker c then docker_mounts ho (ex_docker ex) else {}) \<and>
    fst ` set opts \<subseteq> (if ct_docker c then {''-v'', ''--group-add''} else {})"
proof (cases "ct_docker c")
  case True
  with assms have "docker_cli_mounts ho (ex_docker ex) = Inr cli" by simp
  then obtain binary gid where b: "cli = spelled (docker_cli_options ho binary gid)" "ho_which ho (ex_docker ex) = Some binary"
    using docker_cli_mounts_spelled by blast
  show ?thesis using docker_cli_facts [OF b(2)] True b(1) by (intro exI [of _ "docker_cli_options ho binary gid"]) simp
next
  case False
  then show ?thesis using assms by (intro exI [of _ "[]"]) auto
qed

lemma confined_job:
  assumes "\<not> prefix ''-'' img" and "(if ct_docker c then docker_cli_mounts ho (ex_docker ex) else Inr []) = Inr cli"
  shows "confined ho ex job c cache_root (job_container ex job img cli cache_root env)"
    and "values_of ''--name'' (container_options (job_container ex job img cli cache_root env)) = [job_network (js_id job) @ ''-job'']"
proof -
  obtain opts where k: "cli = spelled opts" "valued opts" "values_of ''--network'' opts = []" "values_of ''--name'' opts = []"
      "set (values_of ''-v'' opts) \<subseteq> (if ct_docker c then docker_mounts ho (ex_docker ex) else {})"
      "fst ` set opts \<subseteq> (if ct_docker c then {''-v'', ''--group-add''} else {})"
    using cli_of_contract [OF assms(2)] by blast
  let ?o = "job_options ex job opts cache_root env"
  have o: "container_options (job_container ex job img cli cache_root env) = ?o"
    using job_container_options [OF assms(1) k(2)] by (simp add: container_options_def k(1))
  have "values_of ''--network'' ?o = [job_network (js_id job)]"
    using k(3) by (simp add: job_options_def split: option.split)
  moreover have "set (values_of ''-v'' ?o) \<subseteq> {workspace_of ex job @ '':/workspace''} \<union> (\<lambda>dir. dir @ '':/cindral-cache'') ` set_option cache_root \<union>
      set (values_of ''-v'' opts)"
    by (auto simp: job_options_def split: option.split)
  moreover have "set (limit_options (ex_limits ex)) \<subseteq> set ?o" by (auto simp: job_options_def)
  moreover have "fst ` set ?o \<subseteq> {''-e'', ''-v'', ''-w'', ''--name'', ''--network''} \<union> fst ` set (limit_options (ex_limits ex)) \<union> fst ` set opts"
    using env_keys [of env] by (auto simp: job_options_def image_Un split: option.split)
  ultimately show "confined ho ex job c cache_root (job_container ex job img cli cache_root env)"
    using limit_keys [of "ex_limits ex"] k(5,6) unfolding confined_def o by (auto 0 3)
  show "values_of ''--name'' (container_options (job_container ex job img cli cache_root env)) = [job_network (js_id job) @ ''-job'']"
    unfolding o using k(4) by (simp add: job_options_def split: option.split)
qed

lemma service_container_name:
  assumes "\<not> prefix ''-'' (sv_image sv)"
  shows "values_of ''--name'' (container_options (service_command ex job sv)) = [service_name job sv]"
  using service_container_options [OF assms]
  by (simp add: container_options_def service_options_def service_name_def split: option.split)

lemma script_path_neq: "length w < 8 \<Longrightarrow> script_path ex job \<noteq> w"
  by (auto simp: script_path_def workspace_of_def)

lemma not_run:
  "inspection ex argv \<Longrightarrow> \<not> is_run ex argv" "argv \<in> {script_write ex job c nonce, network_create ex job} \<Longrightarrow> \<not> is_run ex argv"
  "argv \<in> set (cleanup_commands ex network started) \<Longrightarrow> \<not> is_run ex argv"
  using script_path_neq [of "''run''" ex job]
  by (auto simp: inspection_def is_run_def network_create_def cleanup_commands_def script_write_def write_of_def)

lemma found_later: "h @ P = pre @ a # zs \<Longrightarrow> length h \<le> length pre \<Longrightarrow> a \<in> set P"
  by (auto simp: append_eq_append_conv2 Cons_eq_append_conv)

lemma split_append:
  "xs @ a # ys = A @ B \<Longrightarrow> (\<exists>zs. A = xs @ a # zs \<and> ys = zs @ B) \<or> (\<exists>zs. xs = A @ zs \<and> B = zs @ a # ys)"
  by (auto simp: append_eq_append_conv2 Cons_eq_append_conv)

text \<open>The containers of a run, by what started them.\<close>

lemma run_job_steps_containers:
  assumes "run_job_steps ho ex job c img nonce cache_root cache_env h = (h', r)" and "h' = pre @ argv # post" and "length h \<le> length pre" and "is_run ex argv"
  shows "\<exists>started cli tl. post = tl @ cleanup_commands ex (job_network (js_id job)) started \<and>
    ((\<exists>sv \<in> set (ct_services c). argv = service_command ex job sv \<and> (ho_code ho pre argv = 0 \<longrightarrow> service_name job sv \<in> set started)) \<or>
     (if ct_docker c then docker_cli_mounts ho (ex_docker ex) else Inr []) = Inr cli \<and>
       argv = job_container ex job img cli cache_root (dict_update (ct_env c) cache_env))"
proof -
  let ?n = "[script_write ex job c nonce, network_create ex job]"
  have none: "\<not> (\<exists>zs. h @ P = pre @ argv # zs)" if "set P \<subseteq> {script_write ex job c nonce, network_create ex job}" for P
  proof
    assume "\<exists>zs. h @ P = pre @ argv # zs"
    then obtain zs where "h @ P = pre @ argv # zs" by blast
    then have "argv \<in> set P" by (rule found_later [OF _ assms(3)])
    then show False using that not_run(2) [of argv ex job c nonce] assms(4) by blast
  qed
  then have later: "\<not> (h' = h \<or> h' = h @ [script_write ex job c nonce] \<or> h' = h @ ?n)"
  proof (intro notI)
    assume "h' = h \<or> h' = h @ [script_write ex job c nonce] \<or> h' = h @ ?n"
    then have "h @ [] = h' \<or> h @ [script_write ex job c nonce] = h' \<or> h @ ?n = h'" by (elim disjE) simp_all
    then show False
      using none [of "[]"] none [of "[script_write ex job c nonce]"] none [of ?n] unfolding assms(2)
      by (elim disjE) (blast | simp)+
  qed
  then obtain cli started h1 where cli: "(if ct_docker c then docker_cli_mounts ho (ex_docker ex) else Inr []) = Inr cli"
      and i: "in_network ho ex job c img cli cache_root cache_env (h @ ?n) = (started, h1, r)"
      and h': "h' = h1 @ cleanup_commands ex (job_network (js_id job)) started"
    using run_job_steps_run [OF assms(1)] by blast
  let ?sv = "service_command ex job" and ?jc = "job_container ex job img cli cache_root (dict_update (ct_env c) cache_env)"
  obtain k failed asked last_part where k: "started = map (service_name job) (take k (ct_services c))"
      "h1 = (h @ ?n) @ map ?sv (take k (ct_services c)) @ failed @ asked @ last_part" "list_all (inspection ex) asked"
      "failed = [] \<or> (\<exists>sv \<in> set (ct_services c). failed = [?sv sv] \<and> ho_code ho ((h @ ?n) @ map ?sv (take k (ct_services c))) (?sv sv) \<noteq> 0)"
      "last_part = [] \<or> last_part = [?jc]"
    using in_network_run [OF i] by blast
  let ?C = "cleanup_commands ex (job_network (js_id job)) started"
  have "pre @ argv # post = h1 @ ?C" using assms(2) h' by simp
  moreover have "\<not> (\<exists>zs. ?C = zs @ argv # post)" using not_run(3) assms(4) by (metis in_set_conv_decomp)
  ultimately have "\<exists>tl1. h1 = pre @ argv # tl1 \<and> post = tl1 @ ?C" using split_append [of pre argv post h1 ?C] by blast
  then obtain tl1 where tl1: "h1 = pre @ argv # tl1" "post = tl1 @ ?C" by blast
  from tl1(1) k(2) have "pre @ argv # tl1 = (h @ ?n @ map ?sv (take k (ct_services c))) @ failed @ asked @ last_part" by simp
  from split_append [OF this] show ?thesis
  proof
    assume "\<exists>zs. h @ ?n @ map ?sv (take k (ct_services c)) = pre @ argv # zs \<and> tl1 = zs @ failed @ asked @ last_part"
    then obtain zs where zs: "pre @ argv # zs = (h @ ?n) @ map ?sv (take k (ct_services c))" by auto
    have "\<not> (\<exists>zs'. h @ ?n = pre @ argv # zs')" using none [of ?n] by simp
    with split_append [OF zs] have "\<exists>zs'. map ?sv (take k (ct_services c)) = zs' @ argv # zs" by blast
    then have "argv \<in> set (map ?sv (take k (ct_services c)))" by (metis in_set_conv_decomp)
    then obtain sv where "sv \<in> set (take k (ct_services c))" "argv = ?sv sv" by auto
    then show ?thesis using tl1(2) k(1) set_take_subset by fastforce
  next
    assume "\<exists>zs. pre = (h @ ?n @ map ?sv (take k (ct_services c))) @ zs \<and> failed @ asked @ last_part = zs @ argv # tl1"
    then obtain zs where zs: "pre = (h @ ?n @ map ?sv (take k (ct_services c))) @ zs" "zs @ argv # tl1 = failed @ asked @ last_part" by auto
    have "argv = ?jc \<or> (\<exists>sv \<in> set (ct_services c). argv = ?sv sv \<and> ho_code ho pre argv \<noteq> 0)"
    proof (cases "failed = []")
      case True
      then have "argv \<in> set asked \<or> argv \<in> set last_part" using zs(2) by (metis append_Nil in_set_conv_decomp Un_iff set_append)
      then show ?thesis using k(3,5) not_run(1) assms(4) by (auto simp: list_all_iff)
    next
      case False
      then obtain sv where sv: "sv \<in> set (ct_services c)" "failed = [?sv sv]"
          "ho_code ho ((h @ ?n) @ map ?sv (take k (ct_services c))) (?sv sv) \<noteq> 0" using k(4) by blast
      show ?thesis
      proof (cases zs)
        case Nil
        then show ?thesis using zs sv by auto
      next
        case (Cons z zs')
        then have "argv \<in> set asked \<or> argv \<in> set last_part" using zs(2) sv(2)
          by (metis append_Cons append_Nil in_set_conv_decomp Un_iff set_append list.inject)
        then show ?thesis using k(3,5) not_run(1) assms(4) by (auto simp: list_all_iff)
      qed
    qed
    then show ?thesis using tl1(2) cli by blast
  qed
qed

lemma step_containers_confined:
  assumes "run_job_steps ho ex job c img nonce cache_root cache_env h = (h', r)" and "plain_images img c"
    and "argv \<in> set (drop (length h) h')" and "is_run ex argv"
  shows "confined ho ex job c cache_root argv"
proof -
  obtain mid post where m: "drop (length h) h' = mid @ argv # post" using assms(3) by (meson in_set_conv_decomp)
  have "length h \<le> length h'" using assms(3) by (cases "length h \<le> length h'") auto
  then have "h' = (take (length h) h' @ mid) @ argv # post" "length h \<le> length (take (length h) h' @ mid)"
    using m append_take_drop_id [of "length h" h'] by auto
  from run_job_steps_containers [OF assms(1) this assms(4)] assms(2) show ?thesis
    by (auto simp: plain_images_def list_all_iff intro: confined_service confined_job(1))
qed

text \<open>
  C16: no container outlives its run. Where the images are plain, whatever happens after a service whose start
  exited with zero, or after the job's container, was started (a later service that fails or never becomes healthy, a
  cancelled run, a job that fails), the run's clean-up removes the container by name, after everything else, and then
  the network. A service whose start failed is not reached, which \<open>failed_service_is_not_removed\<close> below shows.
\<close>

theorem cleanup_reaches_every_container:
  assumes "run_job_steps ho ex job c img nonce cache_root cache_env h = (h', r)" and "plain_images img c"
    and "h' = pre @ argv # post" and "length h \<le> length pre" and "is_run ex argv"
    and "ho_code ho pre argv = 0 \<or> values_of ''--name'' (container_options argv) = [job_network (js_id job) @ ''-job'']"
  shows "\<exists>tl name names. post = tl @ map (\<lambda>n. [ex_docker ex, ''rm'', ''-f'', n]) names @ [[ex_docker ex, ''network'', ''rm'', job_network (js_id job)]] \<and>
    values_of ''--name'' (container_options argv) = [name] \<and> name \<in> set names"
proof -
  obtain started cli tl where t: "post = tl @ cleanup_commands ex (job_network (js_id job)) started"
      "(\<exists>sv \<in> set (ct_services c). argv = service_command ex job sv \<and> (ho_code ho pre argv = 0 \<longrightarrow> service_name job sv \<in> set started)) \<or>
       (if ct_docker c then docker_cli_mounts ho (ex_docker ex) else Inr []) = Inr cli \<and>
         argv = job_container ex job img cli cache_root (dict_update (ct_env c) cache_env)"
    using run_job_steps_containers [OF assms(1,3,4,5)] by blast
  have "\<exists>name. values_of ''--name'' (container_options argv) = [name] \<and> name \<in> set ((job_network (js_id job) @ ''-job'') # started)"
    using t(2)
  proof
    assume "\<exists>sv \<in> set (ct_services c). argv = service_command ex job sv \<and> (ho_code ho pre argv = 0 \<longrightarrow> service_name job sv \<in> set started)"
    then show ?thesis using assms(2,6) service_container_name by (fastforce simp: plain_images_def list_all_iff)
  next
    assume "(if ct_docker c then docker_cli_mounts ho (ex_docker ex) else Inr []) = Inr cli \<and>
      argv = job_container ex job img cli cache_root (dict_update (ct_env c) cache_env)"
    then show ?thesis using assms(2) confined_job(2) by (auto simp: plain_images_def)
  qed
  then show ?thesis using t(1) unfolding cleanup_commands_def by (metis append.assoc)
qed

text \<open>
  A service whose start fails is in no list: a container Docker created under the service's name and could not
  start is not removed, and the name is taken at the next attempt of the run.
\<close>

lemma failed_service_is_not_removed:
  assumes "in_network ho ex job c img cli cache_root cache_env h = (started, h', r)" and "ct_services c = sv # rest"
    and "ho_code ho h (service_command ex job sv) \<noteq> 0"
  shows "started = [] \<and> [ex_docker ex, ''rm'', ''-f'', service_name job sv] \<notin> set (cleanup_commands ex (job_network (js_id job)) started) \<or>
    sv_name sv = ''job''"
  using assms by (auto simp: in_network_def Let_def check_command_def run_command_def andthen_def cleanup_commands_def service_name_def)

text \<open>
  A service's image is written before its command without anything that ends the options, and the parser of the
  contract takes any text for it: an image that is an option is read as one, and the command's words supply its
  value and the image. The host's directories are then mounted in a contract that does not ask for Docker.
\<close>

lemma service_image_as_option:
  assumes "sv_image sv = ''-v''" and "sv_command sv = [source @ '':'' @ target, img]" and "\<not> prefix ''-'' img"
  shows "source @ '':'' @ target \<in> set (values_of ''-v'' (container_options (service_command ex job sv)))"
proof -
  let ?net = "job_network (js_id job)"
  have "drop 2 (service_command ex job sv) = ''-d'' # spelled (service_options ex ?net sv) @ [''-v'', source @ '':'' @ target, img]"
    by (simp add: service_container_def service_options_def run_args_spelled env_args_spelled assms split: option.split)
  moreover have "valued (service_options ex ?net sv)" by (simp add: service_options_def split: option.split)
  ultimately have "container_options (service_command ex job sv) = (''-d'', []) # service_options ex ?net sv @ [(''-v'', source @ '':'' @ target)]"
    using docker_options_spelled [of "service_options ex ?net sv"] docker_options_image [OF assms(3)] by (simp add: container_options_def)
  then show ?thesis by simp
qed

section \<open>What a reported success means\<close>

lemma andthen_appends:
  assumes "\<exists>a. fst r = h @ a" and "\<And>h1 x. \<exists>b. fst (f h1 x) = h1 @ b"
  shows "\<exists>a. fst (andthen r f) = h @ a"
proof (cases r)
  case (Pair h1 v)
  then show ?thesis using assms(1) assms(2) [of h1] by (cases v) (auto simp: andthen_def, metis append.assoc)
qed

lemma check_command_appends: "\<exists>a. fst (check_command ho argv h) = h @ a"
  by (simp add: check_command_def run_command_def)

lemma job_image_appends: "\<exists>a. fst (job_image ho ex job c style h) = h @ a"
proof -
  have b: "\<exists>a. fst (build_limit_args ho ex style h) = h @ a"
    by (auto simp: build_limit_args_def capture_command_def split: option.split prod.split)
  show ?thesis
  proof (cases "ct_dockerfile c")
    case None
    then show ?thesis
      by (cases "ct_image c") (auto simp: job_image_def run_command_def check_command_def andthen_def)
  next
    case (Some f)
    obtain h1 st args where p: "build_limit_args ho ex style h = (h1, st, args)" by (cases "build_limit_args ho ex style h") auto
    then show ?thesis using b Some by (auto simp: job_image_def check_command_def run_command_def andthen_def Let_def)
  qed
qed

lemma checkout_ran:
  assumes "checkout_commit ho ex job h = (h', Inr u)"
  shows "\<exists>pre. h' = h @ pre @ [git_in ex job [''checkout'', ''--detach'', js_sha job]] \<and>
    ho_code ho (h @ pre) (git_in ex job [''checkout'', ''--detach'', js_sha job]) = 0"
  using assms unfolding checkout_commit_def
  by (auto simp: andthen_def check_command_def run_command_def Let_def split: if_splits sum.splits prod.splits)

lemma make_readable_appends: "\<exists>a. fst (make_readable ho ex su img path h) = h @ a"
  by (auto simp: make_readable_def make_cache_readable_def check_command_def run_command_def)

lemma store_caches_appends: "\<exists>a. fst (store_caches ho ex su img paths h) = h @ a"
proof (induction paths arbitrary: h)
  case (Cons path paths)
  obtain a where a: "(if su_unreadable su h path then fst (make_readable ho ex su img path h) else h) = h @ a"
    using make_readable_appends [of ho ex su img path h] by (metis append_Nil2)
  show ?case using Cons.IH [of "h @ a"] unfolding store_caches.simps Let_def a by (auto split: option.split)
qed simp

lemma pack_artifacts_appends: "\<exists>a. fst (pack_artifacts ho ex su job img h) = h @ a"
proof -
  let ?d = "repo_of ex job @ ''/'' @ ARTIFACT_PATH"
  obtain h1 v where m: "make_readable ho ex su img ?d h = (h1, v)" by (cases "make_readable ho ex su img ?d h")
  then show ?thesis using make_readable_appends [of ho ex su img ?d h] by (cases v) (auto simp: pack_artifacts_def Let_def)
qed

text \<open>
  What the script of a contract is, read off its text: after \<open>set -e\<close> one block for each step, in order, which runs
  the step's own text in a subshell and leaves with its status where that is not zero.
\<close>

definition guarded :: "string \<Rightarrow> string \<Rightarrow> string" where
  "guarded said step =
     (let nl = [CHR 0x0A] in
      ''if ( '' @ step @ nl @ '') ; then'' @ nl @ ''  printf '' @ said @ nl @ ''else'' @ nl @ ''  cindral_step_status=$?'' @ nl @
      ''  exit '' @ [CHR 0x22] @ ''$cindral_step_status'' @ [CHR 0x22] @ nl @ ''fi'')"

definition step_in_block :: "string \<Rightarrow> string \<Rightarrow> bool" where
  "step_in_block step block \<longleftrightarrow>
     (\<exists>label said. block = ''printf '' @ [CHR 0x27] @ label @ [CHR 0x27] @ '' '' @ shell_quote step @ [CHR 0x0A] @ guarded said step)"

definition steps_script :: "string list \<Rightarrow> string \<Rightarrow> bool" where
  "steps_script steps content \<longleftrightarrow>
     (\<exists>blocks. content = join_with [CHR 0x0A] (''set -e'' # blocks) @ [CHR 0x0A] \<and> list_all2 step_in_block steps blocks)"

lemma step_block_runs: "step_in_block step (step_block nonce (index, step))"
proof -
  define mark where "mark = ''cindral: step '' @ nat_str index @ '' '' @ nonce"
  define esc where "esc = [CHR 0x5C] @ ''n''"
  have "step_block nonce (index, step) =
      ''printf '' @ [CHR 0x27] @ (esc @ mark @ '': %s'' @ esc) @ [CHR 0x27] @ '' '' @ shell_quote step @ [CHR 0x0A] @
      guarded ([CHR 0x27] @ esc @ mark @ '' end'' @ esc @ [CHR 0x27]) step"
    by (simp add: step_block_def guarded_def Let_def mark_def esc_def)
  then show ?thesis unfolding step_in_block_def by blast
qed

lemma run_script_steps: "steps_script steps (run_script steps nonce)"
proof -
  have "list_all2 step_in_block steps (map (step_block nonce) (zip [1..<Suc (length steps)] steps))"
    by (simp add: list_all2_conv_all_nth step_block_runs del: upt_Suc)
  then show ?thesis unfolding steps_script_def run_script_def by blast
qed

text \<open>Where a contract's image comes from: it is the one it names, or one built from its file after \<open>done\<close>.\<close>

definition made_image :: "host \<Rightarrow> executor \<Rightarrow> job_spec \<Rightarrow> contract \<Rightarrow> command list \<Rightarrow> command list \<Rightarrow> string \<Rightarrow> bool" where
  "made_image ho ex job c past built img \<longleftrightarrow>
     (case ct_dockerfile c of
        None \<Rightarrow> ct_image c = Some img
      | Some dockerfile \<Rightarrow>
          img = ''cindral-job-'' @ js_id job \<and>
          (\<exists>b1 args b2. let build = [ex_docker ex, ''build''] @ args @ [''-t'', img, ''-f'', repo_of ex job @ ''/'' @ dockerfile, repo_of ex job]
             in built = b1 @ [build] @ b2 \<and> ho_code ho (past @ b1) build = 0))"

lemma build_limit_args_appends: "\<exists>a. fst (build_limit_args ho ex style h) = h @ a"
  by (auto simp: build_limit_args_def capture_command_def split: option.split prod.split)

lemma job_image_made:
  assumes "job_image ho ex job c style h = (h', Inr img)"
  shows "\<exists>built. h' = h @ built \<and> made_image ho ex job c h built img"
proof (cases "ct_dockerfile c")
  case None
  then show ?thesis using assms
    by (cases "ct_image c") (auto simp: job_image_def run_command_def check_command_def andthen_def made_image_def split: if_splits)
next
  case (Some dockerfile)
  obtain h1 st args where p: "build_limit_args ho ex style h = (h1, st, args)" by (cases "build_limit_args ho ex style h") auto
  obtain a where a: "h1 = h @ a" using build_limit_args_appends [of ho ex style h] p by auto
  let ?build = "[ex_docker ex, ''build''] @ args @ [''-t'', ''cindral-job-'' @ js_id job, ''-f'', repo_of ex job @ ''/'' @ dockerfile, repo_of ex job]"
  have "img = ''cindral-job-'' @ js_id job \<and> h' = h @ a @ [?build] \<and> ho_code ho (h @ a) ?build = 0"
    using assms Some p a by (auto simp: job_image_def check_command_def run_command_def andthen_def Let_def split: if_splits)
  then show ?thesis unfolding made_image_def Some option.case Let_def by (intro exI [of _ "a @ [?build]"]) (metis append_Nil2)
qed

text \<open>Between the write of the script and the job's container, only Docker is called: nothing writes the script again.\<close>

definition docker_call :: "executor \<Rightarrow> command \<Rightarrow> bool" where
  "docker_call ex x \<longleftrightarrow> (\<exists>w rest. x = ex_docker ex # w # rest \<and> w \<in> {''network'', ''run'', ''inspect''})"

lemma docker_calls:
  "docker_call ex (network_create ex job)" "docker_call ex (service_command ex job sv)" "inspection ex x \<Longrightarrow> docker_call ex x"
  "docker_call ex (job_container ex job img cli cache_root env)"
proof -
  show "inspection ex x \<Longrightarrow> docker_call ex x"
    by (cases x; cases "tl x") (auto simp: inspection_def docker_call_def)
qed (simp_all add: docker_call_def network_create_def service_container_def job_container_def Let_def)

lemma no_rewrite: "docker_call ex x \<Longrightarrow> take 2 x \<noteq> [''>'', script_path ex job]"
  using script_path_neq [of "''network''" ex job] script_path_neq [of "''run''" ex job] script_path_neq [of "''inspect''" ex job]
  by (auto simp: docker_call_def)

lemma run_job_steps_zero:
  assumes "run_job_steps ho ex job c img nonce cache_root cache_env h = (h', Inr 0)"
    and "w = script_write ex job c nonce"
  shows "\<exists>cli mid post. (if ct_docker c then docker_cli_mounts ho (ex_docker ex) else Inr []) = Inr cli \<and>
    h' = h @ [w] @ mid @ [job_container ex job img cli cache_root (dict_update (ct_env c) cache_env)] @ post \<and>
    list_all (docker_call ex) mid \<and>
    ho_code ho (h @ [w] @ mid) (job_container ex job img cli cache_root (dict_update (ct_env c) cache_env)) = 0 \<and>
    \<not> ho_cancelled ho (h @ [w] @ mid @ [job_container ex job img cli cache_root (dict_update (ct_env c) cache_env)])"
proof -
  let ?n = "network_create ex job"
  obtain cli started h1 where cli: "(if ct_docker c then docker_cli_mounts ho (ex_docker ex) else Inr []) = Inr cli"
      and i: "in_network ho ex job c img cli cache_root cache_env (h @ [w, ?n]) = (started, h1, Inr 0)"
      "h' = h1 @ cleanup_commands ex (job_network (js_id job)) started"
    using run_job_steps_run [OF assms(1)] assms(2) by auto
  let ?jc = "job_container ex job img cli cache_root (dict_update (ct_env c) cache_env)"
  obtain pre where pre: "h1 = pre @ [?jc]" "ho_code ho pre ?jc = 0" "\<not> ho_cancelled ho h1"
    using in_network_run [OF i(1)] by auto
  obtain S where S: "h1 = (h @ [w, ?n]) @ S" "list_all (docker_call ex) S"
  proof -
    obtain k failed asked last_part where k: "h1 = (h @ [w, ?n]) @ map (service_command ex job) (take k (ct_services c)) @ failed @ asked @ last_part"
        "list_all (inspection ex) asked" "failed = [] \<or> (\<exists>sv \<in> set (ct_services c). failed = [service_command ex job sv])"
        "last_part = [] \<or> last_part = [?jc]"
      using in_network_run [OF i(1)] by blast
    have "list_all (docker_call ex) (map (service_command ex job) (take k (ct_services c)))" "list_all (docker_call ex) failed"
        "list_all (docker_call ex) asked" "list_all (docker_call ex) last_part"
      using k(2-4) docker_calls by (auto simp: list_all_iff)
    then show thesis using that k(1) by simp
  qed
  have "?jc \<noteq> ?n" by (simp add: job_container_def network_create_def Let_def)
  then have "S \<noteq> []" using S(1) pre(1) by (auto simp: append_eq_append_conv2 append_eq_Cons_conv Cons_eq_append_conv)
  then obtain S' where S': "S = S' @ [?jc]" using S(1) pre(1) by (metis append_assoc last_appendR last_snoc append_butlast_last_id)
  then have p: "pre = h @ [w] @ (?n # S')" using S(1) pre(1) by auto
  have "h' = h @ [w] @ (?n # S') @ [?jc] @ cleanup_commands ex (job_network (js_id job)) started" using i(2) pre(1) p by simp
  moreover have "ho_code ho (h @ [w] @ (?n # S')) ?jc = 0" "\<not> ho_cancelled ho (h @ [w] @ (?n # S') @ [?jc])" using pre p by simp_all
  moreover have "list_all (docker_call ex) (?n # S')" using S(2) S' docker_calls(1) by simp
  ultimately show ?thesis using cli by blast
qed

text \<open>
  What the history of a run shows, when its exit code is zero: the checkout of the commit, the image of the contract,
  the script of its steps in the workspace, and the job's container over that workspace, in this order.
\<close>

definition ran_to_zero :: "host \<Rightarrow> executor \<Rightarrow> job_spec \<Rightarrow> contract \<Rightarrow> string option \<Rightarrow> (string \<times> string) list \<Rightarrow> command list \<Rightarrow> bool" where
  "ran_to_zero ho ex job c cache_root env h \<longleftrightarrow>
     (\<exists>past built script mid after img cli.
        let co = git_in ex job [''checkout'', ''--detach'', js_sha job]; w = write_of (script_path ex job) script;
            jc = job_container ex job img cli cache_root env in
        h = past @ [co] @ built @ [w] @ mid @ [jc] @ after \<and> ho_code ho past co = 0 \<and>
        made_image ho ex job c (past @ [co]) built img \<and> steps_script (ct_steps c) script \<and>
        list_all (\<lambda>x. take 2 x \<noteq> [''>'', script_path ex job]) mid \<and>
        (if ct_docker c then docker_cli_mounts ho (ex_docker ex) else Inr []) = Inr cli \<and>
        ho_code ho (past @ [co] @ built @ [w] @ mid) jc = 0 \<and> \<not> ho_cancelled ho (past @ [co] @ built @ [w] @ mid @ [jc]))"

lemma execute_job_zero:
  assumes "execute_job py ck ho ex su job = (h, 0, i, archive)"
  shows "\<exists>c. load_contract py ck ex job = Inr c \<and>
    ran_to_zero ho ex job c (su_cache_root su) (dict_update (ct_env c) (su_cache_env su)) h"
proof -
  let ?co = "git_in ex job [''checkout'', ''--detach'', js_sha job]"
  obtain h1 u where h1: "checkout_commit ho ex job [] = (h1, Inr u)"
    using assms by (auto simp: execute_job_def split: prod.splits sum.splits)
  obtain c where c: "load_contract py ck ex job = Inr c"
    using assms h1 by (auto simp: execute_job_def split: prod.splits sum.splits)
  obtain h2 img where h2: "job_image ho ex job c (su_build_style su) h1 = (h2, Inr img)"
    using assms h1 c by (auto simp: execute_job_def split: prod.splits sum.splits)
  obtain h4 where cached: "run_cached_job ho ex su job c img h2 = (h4, Inr 0)" "fst (pack_artifacts ho ex su job img h4) = h"
    using assms h1 c h2 by (auto simp: execute_job_def split: prod.splits sum.splits)
  obtain h3 where steps: "run_job_steps ho ex job c img (su_nonce su) (su_cache_root su) (su_cache_env su) h2 = (h3, Inr 0)" and "\<exists>a. h4 = h3 @ a"
  proof -
    obtain h3 v where v: "run_job_steps ho ex job c img (su_nonce su) (su_cache_root su) (su_cache_env su) h2 = (h3, v)"
      by (metis surj_pair)
    have none: "su_cache_raises su = None" using cached(1) by (auto simp: run_cached_job_def split: option.splits)
    obtain a where a: "fst (store_caches ho ex su img (su_stored su) h3) = h3 @ a" using store_caches_appends by blast
    have "v = Inr 0 \<and> (h4 = h3 \<or> h4 = h3 @ a)"
      using cached(1) v a none by (cases v) (auto simp: run_cached_job_def andthen_def split: sum.splits if_splits prod.splits)
    then show thesis using that v by (metis append_Nil2)
  qed
  then obtain b where b: "h = h3 @ b" using pack_artifacts_appends [of ho ex su job img h4] cached(2) by auto
  obtain past where past: "h1 = past @ [?co]" "ho_code ho past ?co = 0" using checkout_ran [OF h1] by auto
  obtain built where built: "h2 = h1 @ built" "made_image ho ex job c h1 built img" using job_image_made [OF h2] by blast
  let ?jc = "\<lambda>cli. job_container ex job img cli (su_cache_root su) (dict_update (ct_env c) (su_cache_env su))"
  let ?w = "script_write ex job c (su_nonce su)"
  obtain cli mid post where m: "(if ct_docker c then docker_cli_mounts ho (ex_docker ex) else Inr []) = Inr cli"
      "h3 = h2 @ [?w] @ mid @ [?jc cli] @ post" "list_all (docker_call ex) mid" "ho_code ho (h2 @ [?w] @ mid) (?jc cli) = 0"
      "\<not> ho_cancelled ho (h2 @ [?w] @ mid @ [?jc cli])"
    using run_job_steps_zero [OF steps refl] by blast
  have "h = past @ [?co] @ built @ [?w] @ mid @ [?jc cli] @ (post @ b)" using b m(2) built(1) past(1) by simp
  moreover have "ho_code ho (past @ [?co] @ built @ [?w] @ mid) (?jc cli) = 0" "\<not> ho_cancelled ho (past @ [?co] @ built @ [?w] @ mid @ [?jc cli])"
    using m(4,5) built(1) past(1) by simp_all
  moreover have "list_all (\<lambda>x. take 2 x \<noteq> [''>'', script_path ex job]) mid" using m(3) no_rewrite by (auto simp: list_all_iff)
  moreover have "made_image ho ex job c (past @ [?co]) built img" using built(2) past(1) by simp
  ultimately have "ran_to_zero ho ex job c (su_cache_root su) (dict_update (ct_env c) (su_cache_env su)) h"
    unfolding ran_to_zero_def Let_def using past(2) m(1) run_script_steps unfolding script_write_def by blast
  then show ?thesis using c by blast
qed

lemma cache_does_not_decide:
  assumes "su_cache_raises su = None" and "\<And>path. su_store_raises su path = None"
  shows "snd (run_cached_job ho ex su job c img h) = snd (run_job_steps ho ex job c img (su_nonce su) (su_cache_root su) (su_cache_env su) h)"
proof -
  have "snd (store_caches ho ex su img paths h) = Inr ()" for paths h
    using assms(2) by (induction paths arbitrary: h) (auto simp: Let_def)
  then have s: "\<exists>h'. store_caches ho ex su img paths h = (h', Inr ())" for paths h by (metis prod.collapse)
  obtain h3 v where v: "run_job_steps ho ex job c img (su_nonce su) (su_cache_root su) (su_cache_env su) h = (h3, v)"
    by (metis surj_pair)
  obtain h4 where "store_caches ho ex su img (su_stored su) h3 = (h4, Inr ())" using s by blast
  then show ?thesis using v assms(1) by (cases v) (auto simp: run_cached_job_def andthen_def)
qed

text \<open>
  An exception of the cache that is not caught there is caught by the executor, which answers the exit code one: a
  broken archive in the cache makes a red run of a commit whose steps never started.
\<close>

lemma cache_exception_fails_the_run:
  assumes "checkout_commit ho ex job [] = (h1, Inr u)" and "load_contract py ck ex job = Inr c"
    and "job_image ho ex job c (su_build_style su) h1 = (h2, Inr img)" and "su_cache_raises su = Some m"
  shows "execute_job py ck ho ex su job = (h2, 1, Some img, [])"
  using assms by (simp add: execute_job_def run_cached_job_def)

text \<open>
  A device that could not check the commit out, or could not build or pull the image, answers with the exit code
  one, which the broker settles as a failed run of the commit.
\<close>

lemma device_failure_reads_as_failed_run:
  assumes "checkout_commit ho ex job [] = (h, Inl e)"
  shows "\<exists>h' l ss archive. run_job py ck ho ex su job = (h', Execution 1 l ss archive)"
proof -
  have e: "execute_job py ck ho ex su job = (h, 1, None, [])" by (simp add: execute_job_def assms)
  show ?thesis unfolding run_job_def e by (auto simp: completed_log_def result_for_def Let_def split: prod.split)
qed

lemma run_job_code: "\<exists>l ss a. snd (run_job py ck ho ex su job) = Execution (fst (snd (execute_job py ck ho ex su job))) l ss a"
  by (auto simp: run_job_def completed_log_def result_for_def Let_def split: prod.split)

lemma run_job_history: "\<exists>b. fst (run_job py ck ho ex su job) = fst (execute_job py ck ho ex su job) @ b"
  by (auto simp: run_job_def cleanup_workspace_def run_command_def Let_def split: prod.split option.split)

lemma ran_to_zero_more: "ran_to_zero ho ex job c cache_root env h \<Longrightarrow> ran_to_zero ho ex job c cache_root env (h @ b)"
  unfolding ran_to_zero_def Let_def by (metis append.assoc)

section \<open>Every container of a run\<close>

text \<open>
  The other containers of a run make a directory readable or empty the workspace: they are root's, without a network,
  and see one directory, which is one to store, the artifacts' or the workspace. The one that empties the workspace
  carries the limits of the device; the one that makes a directory readable does not.
\<close>

definition helper_container :: "executor \<Rightarrow> surroundings \<Rightarrow> job_spec \<Rightarrow> command \<Rightarrow> bool" where
  "helper_container ex su job argv \<longleftrightarrow>
     values_of ''--network'' (container_options argv) = [''none''] \<and>
     fst ` set (container_options argv) \<subseteq> {''--rm'', ''--network'', ''--user'', ''-v'', ''--entrypoint''} \<union> fst ` set (limit_options (ex_limits ex)) \<and>
     ((\<exists>dir \<in> set (su_stored su) \<union> {repo_of ex job @ ''/'' @ ARTIFACT_PATH}.
         values_of ''-v'' (container_options argv) = [dir @ '':/cindral-cache'']) \<or>
      values_of ''-v'' (container_options argv) = [workspace_of ex job @ '':/cleanup''] \<and>
        set (limit_options (ex_limits ex)) \<subseteq> set (container_options argv))"

lemma helper_options:
  assumes "\<not> prefix ''-'' img" and "valued opts"
  shows "container_options (docker # ''run'' # ''--rm'' # spelled opts @ img # rest) = (''--rm'', []) # opts"
  using docker_options_spelled [OF assms(2), of "img # rest"] docker_options_image [OF assms(1)] by (simp add: container_options_def)

text \<open>What a part of a run adds to the history, as far as its containers go.\<close>

definition adds :: "executor \<Rightarrow> (command \<Rightarrow> bool) \<Rightarrow> command list \<Rightarrow> command list \<Rightarrow> bool" where
  "adds ex P h h' \<longleftrightarrow> (\<exists>a. h' = h @ a \<and> list_all (\<lambda>x. is_run ex x \<longrightarrow> P x) a)"

lemma adds_refl [simp]: "adds ex P h h"
  by (simp add: adds_def)

lemma adds_trans: "adds ex P h h1 \<Longrightarrow> adds ex P h1 h2 \<Longrightarrow> adds ex P h h2"
  by (auto simp: adds_def)

lemma adds_one: "(is_run ex x \<Longrightarrow> P x) \<Longrightarrow> adds ex P h (h @ [x])"
  by (auto simp: adds_def)

lemma adds_andthen:
  assumes "adds ex P h (fst r)" and "\<And>h1 x. r = (h1, Inr x) \<Longrightarrow> adds ex P h1 (fst (f h1 x))"
  shows "adds ex P h (fst (andthen r f))"
proof (cases r)
  case (Pair h1 v)
  then show ?thesis using assms adds_trans [of ex P h h1] by (cases v) (auto simp: andthen_def)
qed

lemma check_adds: "(is_run ex x \<Longrightarrow> P x) \<Longrightarrow> adds ex P h (fst (check_command ho x h))"
  using adds_one [of ex x P h] by (simp add: check_command_def run_command_def)

lemma make_readable_adds:
  assumes "\<not> prefix ''-'' img" and "path \<in> set (su_stored su) \<union> {repo_of ex job @ ''/'' @ ARTIFACT_PATH}"
  shows "adds ex (helper_container ex su job) h (fst (make_readable ho ex su img path h))"
proof -
  let ?opts = "[(''--network'', ''none''), (''--user'', ''0:0''), (''-v'', path @ '':/cindral-cache''), (''--entrypoint'', ex_shell ex)]"
  define words where "words = [''-lc'', ''if ! chown -R '' @ nat_str (fst (su_owner su)) @ '':'' @ nat_str (snd (su_owner su)) @ '' /cindral-cache; then '' @
         ''echo 'cindral: warning: chown failed, falling back to chmod' >&2; '' @ ''chmod -R a+rX /cindral-cache; fi'']"
  define x where "x = ex_docker ex # ''run'' # ''--rm'' # spelled ?opts @ img # words"
  have o: "container_options x = (''--rm'', []) # ?opts" unfolding x_def by (rule helper_options [OF assms(1)]) simp
  have v: "values_of ''--network'' (container_options x) = [''none'']" "values_of ''-v'' (container_options x) = [path @ '':/cindral-cache'']"
    unfolding o by simp_all
  have k: "fst ` set (container_options x) \<subseteq> {''--rm'', ''--network'', ''--user'', ''-v'', ''--entrypoint''} \<union> fst ` set (limit_options (ex_limits ex))"
    unfolding o by simp
  have "helper_container ex su job x" using v k assms(2) unfolding helper_container_def by blast
  moreover have "fst (make_readable ho ex su img path h) = fst (check_command ho x h)"
    unfolding make_readable_def make_cache_readable_def x_def words_def
    by (auto simp: mount_def split: prod.splits sum.splits exec_error.splits)
  ultimately show ?thesis using check_adds [of ex x "helper_container ex su job"] by metis
qed

lemma store_caches_adds:
  assumes "\<not> prefix ''-'' img" and "set paths \<subseteq> set (su_stored su)"
  shows "adds ex (helper_container ex su job) h (fst (store_caches ho ex su img paths h))"
  using assms(2)
proof (induction paths arbitrary: h)
  case (Cons path paths)
  define h1 where "h1 = (if su_unreadable su h path then fst (make_readable ho ex su img path h) else h)"
  have one: "adds ex (helper_container ex su job) h h1" using make_readable_adds [OF assms(1)] Cons.prems by (simp add: h1_def)
  have "adds ex (helper_container ex su job) h1 (fst (store_caches ho ex su img paths h1))" using Cons by simp
  then have "adds ex (helper_container ex su job) h (fst (store_caches ho ex su img paths h1))" by (rule adds_trans [OF one])
  then show ?case using one by (simp add: Let_def flip: h1_def split: option.split)
qed simp

lemma pack_artifacts_adds:
  assumes "\<not> prefix ''-'' img"
  shows "adds ex (helper_container ex su job) h (fst (pack_artifacts ho ex su job img h))"
  using make_readable_adds [OF assms, of "repo_of ex job @ ''/'' @ ARTIFACT_PATH" su ex job h ho]
  by (auto simp: pack_artifacts_def Let_def split: prod.splits sum.splits)

lemma cleanup_workspace_adds:
  assumes "\<And>i. img = Some i \<Longrightarrow> \<not> prefix ''-'' i"
  shows "adds ex (helper_container ex su job) h (fst (cleanup_workspace ho ex job img h))"
proof -
  let ?opts = "[(''--network'', ''none''), (''--user'', ''0:0''), (''-v'', workspace_of ex job @ '':/cleanup'')] @ limit_options (ex_limits ex) @
      [(''--entrypoint'', ex_shell ex)]"
  let ?x = "\<lambda>i. ex_docker ex # ''run'' # ''--rm'' # spelled ?opts @ i # [''-lc'', ''rm -rf /cleanup/* /cleanup/.[!.]* /cleanup/..?*'']"
  have helper: "helper_container ex su job (?x i)" if "img = Some i" for i
  proof -
    have o: "container_options (?x i) = (''--rm'', []) # ?opts" by (rule helper_options [OF assms [OF that]]) simp
    have v: "values_of ''--network'' (container_options (?x i)) = [''none'']" "values_of ''-v'' (container_options (?x i)) = [workspace_of ex job @ '':/cleanup'']"
      unfolding o by simp_all
    have "set (limit_options (ex_limits ex)) \<subseteq> set (container_options (?x i))"
      "fst ` set (container_options (?x i)) \<subseteq> {''--rm'', ''--network'', ''--user'', ''-v'', ''--entrypoint''} \<union> fst ` set (limit_options (ex_limits ex))"
      unfolding o by auto
    then show ?thesis using v unfolding helper_container_def by blast
  qed
  have "fst (cleanup_workspace ho ex job img h) = h \<or> (\<exists>i. img = Some i \<and> fst (cleanup_workspace ho ex job img h) = h @ [?x i])"
    by (auto simp: cleanup_workspace_def run_command_def mount_def run_args_spelled Let_def split: option.split)
  then show ?thesis using helper adds_one [of ex _ "helper_container ex su job" h] by (metis adds_refl)
qed

lemma checkout_adds: "adds ex P h (fst (checkout_commit ho ex job h))"
proof -
  have g: "\<not> is_run ex (git_in ex job args)" "\<not> is_run ex [ex_git ex, ''init'', ''-q'', repo_of ex job]" for args
    by (simp_all add: git_in_def is_run_def)
  have fetched: "adds ex P h (fst (case run_command ho (git_in ex job x) h of (h, code) \<Rightarrow>
      if code \<noteq> 0 then check_command ho (git_in ex job y) h else (h, Inr ())))" for h x y
  proof -
    have a: "adds ex P h (h @ [git_in ex job x])" by (rule adds_one) (use g(1) in blast)
    have "adds ex P (h @ [git_in ex job x]) (fst (check_command ho (git_in ex job y) (h @ [git_in ex job x])))"
      by (rule check_adds) (use g(1) in blast)
    then show ?thesis using a adds_trans [OF a] by (simp add: run_command_def)
  qed
  show ?thesis unfolding checkout_commit_def Let_def
    by (intro adds_andthen check_adds fetched) (use g in blast)+
qed

lemma job_image_adds: "adds ex P h (fst (job_image ho ex job c style h))"
proof (cases "ct_dockerfile c")
  case None
  then show ?thesis using adds_one [of ex _ P] adds_trans [OF adds_one adds_one]
    by (cases "ct_image c") (auto simp: job_image_def run_command_def check_command_def andthen_def is_run_def adds_def)
next
  case (Some dockerfile)
  then show ?thesis
    by (auto simp: job_image_def run_command_def check_command_def andthen_def is_run_def adds_def build_limit_args_def capture_command_def Let_def
        split: option.split prod.split)
qed

text \<open>A contract whose images, its own and its services', cannot be read as an option.\<close>

definition plain_contract :: "contract \<Rightarrow> bool" where
  "plain_contract c \<longleftrightarrow> (\<forall>img. ct_image c = Some img \<longrightarrow> \<not> prefix ''-'' img) \<and> list_all (\<lambda>sv. \<not> prefix ''-'' (sv_image sv)) (ct_services c)"

lemma plain_image:
  assumes "plain_contract c" and "job_image ho ex job c style h = (h', Inr img)"
  shows "plain_images img c" "\<not> prefix ''-'' img"
proof -
  have "made_image ho ex job c h (drop (length h) h') img" using job_image_made [OF assms(2)] by auto
  then have "\<not> prefix ''-'' img" using assms(1) by (auto simp: made_image_def plain_contract_def split: option.splits)
  then show "plain_images img c" "\<not> prefix ''-'' img" using assms(1) by (simp_all add: plain_images_def plain_contract_def)
qed

lemma run_job_steps_adds:
  assumes "plain_images img c"
  shows "adds ex (confined ho ex job c cache_root) h (fst (run_job_steps ho ex job c img nonce cache_root cache_env h))"
proof -
  obtain h' r where r: "run_job_steps ho ex job c img nonce cache_root cache_env h = (h', r)" by (metis surj_pair)
  obtain a where a: "h' = h @ a"
  proof -
    consider "h' = h" | "h' = h @ [script_write ex job c nonce]" | "h' = h @ [script_write ex job c nonce, network_create ex job]"
      | cli started h1 where "in_network ho ex job c img cli cache_root cache_env (h @ [script_write ex job c nonce, network_create ex job]) = (started, h1, r)"
          "h' = h1 @ cleanup_commands ex (job_network (js_id job)) started"
      using run_job_steps_run [OF r] by blast
    then show thesis
    proof cases
      case 4
      then obtain b where "h1 = (h @ [script_write ex job c nonce, network_create ex job]) @ b" using in_network_run by blast
      then show thesis using that 4(2) by simp
    qed (use that in auto)
  qed
  show ?thesis unfolding r adds_def using a step_containers_confined [OF r assms] by (auto simp: list_all_iff)
qed

lemma adds_weaken: "adds ex P h h' \<Longrightarrow> (\<And>x. P x \<Longrightarrow> Q x) \<Longrightarrow> adds ex Q h h'"
  by (auto simp: adds_def list_all_iff)

lemma run_cached_job_adds:
  assumes "plain_images img c" and "\<not> prefix ''-'' img"
  shows "adds ex (\<lambda>x. confined ho ex job c (su_cache_root su) x \<or> helper_container ex su job x) h (fst (run_cached_job ho ex su job c img h))"
proof -
  let ?P = "\<lambda>x. confined ho ex job c (su_cache_root su) x \<or> helper_container ex su job x"
  have steps: "adds ex ?P h (fst (run_job_steps ho ex job c img nonce (su_cache_root su) env h))" for nonce env h
    by (rule adds_weaken [OF run_job_steps_adds [OF assms(1)]]) simp
  have stored: "adds ex ?P h (fst (store_caches ho ex su img (su_stored su) h))" for h
    by (rule adds_weaken [OF store_caches_adds [OF assms(2) subset_refl, where job = job]]) simp
  show ?thesis unfolding run_cached_job_def
    by (cases "su_cache_raises su") (auto intro!: adds_andthen steps stored)
qed

definition run_container :: "python \<Rightarrow> checkout \<Rightarrow> host \<Rightarrow> executor \<Rightarrow> surroundings \<Rightarrow> job_spec \<Rightarrow> command \<Rightarrow> bool" where
  "run_container py ck ho ex su job argv \<longleftrightarrow>
     (\<exists>c. load_contract py ck ex job = Inr c \<and> confined ho ex job c (su_cache_root su) argv) \<or> helper_container ex su job argv"

lemma execute_job_adds:
  assumes "\<And>c. load_contract py ck ex job = Inr c \<Longrightarrow> plain_contract c"
  shows "adds ex (run_container py ck ho ex su job) [] (fst (execute_job py ck ho ex su job)) \<and>
    (\<forall>img. fst (snd (snd (execute_job py ck ho ex su job))) = Some img \<longrightarrow> \<not> prefix ''-'' img)"
proof -
  let ?P = "run_container py ck ho ex su job"
  obtain h1 v1 where one: "checkout_commit ho ex job [] = (h1, v1)" by (metis surj_pair)
  have a1: "adds ex ?P [] h1" using checkout_adds [of ex ?P "[]" ho job] one by simp
  show ?thesis
  proof (cases "\<exists>u c. v1 = Inr u \<and> load_contract py ck ex job = Inr c")
    case False
    then show ?thesis using a1 one by (cases v1; cases "load_contract py ck ex job") (auto simp: execute_job_def)
  next
    case True
    then obtain u c where c: "v1 = Inr u" "load_contract py ck ex job = Inr c" by blast
    obtain h2 v2 where two: "job_image ho ex job c (su_build_style su) h1 = (h2, v2)" by (metis surj_pair)
    have a2: "adds ex ?P [] h2" using adds_trans [OF a1 job_image_adds [of ex ?P h1 ho job c "su_build_style su"]] two by simp
    show ?thesis
    proof (cases v2)
      case (Inl e)
      then show ?thesis using a2 one two c by (simp add: execute_job_def)
    next
      case (Inr img)
      note plain = plain_image [OF assms [OF c(2)] two [unfolded Inr]]
      obtain h3 v3 where three: "run_cached_job ho ex su job c img h2 = (h3, v3)" by (metis surj_pair)
      have "adds ex ?P h2 (fst (run_cached_job ho ex su job c img h2))"
        by (rule adds_weaken [OF run_cached_job_adds [OF plain]]) (use c(2) in \<open>auto simp: run_container_def\<close>)
      then have a3: "adds ex ?P [] h3" using adds_trans [OF a2] three by simp
      obtain h4 archive where four: "pack_artifacts ho ex su job img h3 = (h4, archive)" by (metis surj_pair)
      have "adds ex ?P h3 (fst (pack_artifacts ho ex su job img h3))"
        by (rule adds_weaken [OF pack_artifacts_adds [OF plain(2)]]) (simp add: run_container_def)
      then have a4: "adds ex ?P [] h4" using adds_trans [OF a3] four by simp
      show ?thesis using a3 a4 plain(2) one two three four c Inr by (cases v3) (auto simp: execute_job_def)
    qed
  qed
qed


text \<open>
  C14: a green commit was run. Where the report of a pass makes a run's row a success that was none, and what the
  agent ran is the executor, the row is the run the pass claimed and its contract was resolved from its own commit.
  The checkout of that commit exited with zero; the image is the contract's own, or was built from its file by a
  build that exited with zero; the script in the workspace, which nothing wrote again, holds one block for each of
  the contract's steps, in order; and after all that the container of that image over that workspace, with the
  contract's environment, exited with zero without the run being cancelled.
\<close>

theorem success_ran_to_exit_zero:
  assumes "db_wf d" and "run_once ag inp = (ag', acts, res)" and "Reports rq \<in> set acts"
    and "claim_reply (in_shown inp) (in_loads inp) (in_claim inp) = Inr (Some job)" and "plain_id (js_id job)"
    and "serve_jobs sha256 shown sv lease_seconds (at_broker (ag_client ag') rq) (Inr (hq_payload rq)) released_at now d = (d', posts, ans)"
    and "in_execution inp = snd (run_job py ck ho ex su job)"
    and "row_of d j = Some q" and "r_status q \<noteq> Success" and "row_of d' j = Some r" and "r_status r = Success"
  shows "j = js_id job \<and> (\<exists>c. snd (resolve_contract py ck job) = Inr c \<and> missing_labels ex c = [] \<and>
    ran_to_zero ho ex job c (su_cache_root su) (dict_update (ct_env c) (su_cache_env su)) (fst (run_job py ck ho ex su job)))"
proof -
  have o: "j = js_id job" "outcome_recorded (in_execution inp) r"
    using device_report_outcome [OF assms(1-6,8)] assms(9-11) by auto
  obtain h code i a where e: "execute_job py ck ho ex su job = (h, code, i, a)" by (cases "execute_job py ck ho ex su job") auto
  have "\<exists>l ss b. in_execution inp = Execution code l ss b"
    using assms(7) run_job_code [of py ck ho ex su job] e by auto
  then have "code = 0" using o(2) assms(11) by (auto split: if_splits)
  then obtain c where c: "load_contract py ck ex job = Inr c"
      "ran_to_zero ho ex job c (su_cache_root su) (dict_update (ct_env c) (su_cache_env su)) h"
    using execute_job_zero e by blast
  obtain b where "fst (run_job py ck ho ex su job) = h @ b" using run_job_history [of py ck ho ex su job] e by auto
  moreover have "snd (resolve_contract py ck job) = Inr c \<and> missing_labels ex c = []"
    using c(1) by (auto simp: load_contract_def split: sum.splits if_splits)
  ultimately show ?thesis using o(1) c(2) ran_to_zero_more by auto
qed

section \<open>A concrete run\<close>

definition example_ci :: json where
  "example_ci = JObj [(''image'', JObj [(''ref'', JStr ''alpine:3'')]), (''steps'', JList [JObj [(''run'', JStr ''make test'')]]),
     (''services'', JList [JObj [(''name'', JStr ''db''), (''image'', JStr ''postgres''), (''health_cmd'', JStr ''pg_isready'')]])]"

definition example_checkout :: checkout where
  "example_checkout =
     \<lparr>ck_repo = \<lparr>rp_entries = [], rp_files = [], rp_resolve = (\<lambda>_. None), rp_inside = (\<lambda>_. True), rp_text = (\<lambda>_. None), rp_package = None\<rparr>,
      ck_contract = Some (Some example_ci), ck_file = (\<lambda>_. False), ck_manifest = None\<rparr>"

definition example_host :: "int \<Rightarrow> host" where
  "example_host code =
     \<lparr>ho_code = (\<lambda>h argv. if ''make'' \<in> set argv then code else 0), ho_capture = (\<lambda>_ _. (0, ''healthy'')), ho_cancelled = (\<lambda>_. False),
      ho_round = (\<lambda>k. 2 * of_nat k), ho_socket = (\<lambda>_. None), ho_which = (\<lambda>_. None), ho_dir = (\<lambda>_. False), ho_file = (\<lambda>_. False),
      ho_remove = (\<lambda>_. None), ho_write = (\<lambda>_. None)\<rparr>"

definition example_executor :: executor where
  "example_executor =
     \<lparr>ex_token = [], ex_workspace_root = ''/w'', ex_docker = ''docker'', ex_git = ''git'', ex_github_base = ''https://g'', ex_shell = ''sh'',
      ex_cleanup = True, ex_limits = \<lparr>jl_cpus = None, jl_memory = Some ''1g'', jl_disk_write = None, jl_disk_read = None\<rparr>, ex_labels = []\<rparr>"

definition example_surroundings :: surroundings where
  "example_surroundings =
     \<lparr>su_cache_raises = None, su_cache_root = None, su_cache_env = [], su_stored = [], su_unreadable = (\<lambda>_ _. False),
      su_store_raises = (\<lambda>_. None), su_archive = [], su_owner = (0, 0),
      su_build_style = None, su_nonce = ''n'', su_log = (\<lambda>_. None)\<rparr>"

definition example_db :: service where
  "example_db = \<lparr>sv_name = ''db'', sv_image = ''postgres'', sv_env = [], sv_command = [], sv_health_cmd = Some ''pg_isready''\<rparr>"

definition example_limited :: contract where
  "example_limited =
     \<lparr>ct_steps = [''make test''], ct_image = Some ''alpine:3'', ct_dockerfile = None, ct_env = [],
      ct_services = [example_db],
      ct_timeout_minutes = None, ct_docker = False, ct_contract_only = False, ct_labels = []\<rparr>"

lemma example_contract_loaded: "load_contract example_python example_checkout example_executor example_spec = Inr example_limited"
  by code_simp

lemma example_checked_out:
  "checkout_commit (example_host 0) example_executor example_spec [] =
     ([[''git'', ''init'', ''-q'', ''/w/j1/repo''], git_in example_executor example_spec [''remote'', ''add'', ''origin'', ''https://g/o/r.git''],
       git_in example_executor example_spec [''fetch'', ''--depth'', ''1'', ''origin'', ''c0ffee''],
       git_in example_executor example_spec [''checkout'', ''--detach'', ''c0ffee'']], Inr ())"
  by code_simp

lemma example_imaged:
  "job_image (example_host 0) example_executor example_spec example_limited None h = (h @ [[''docker'', ''image'', ''inspect'', ''alpine:3'']], Inr ''alpine:3'')"
  by (simp add: job_image_def example_limited_def run_command_def example_host_def example_executor_def)

lemma example_waited:
  "wait_for_services (example_host 0) example_executor [''cindral-j1-db''] h =
     (h @ [[''docker'', ''inspect'', ''--format'', ''{{.State.Health.Status}}'', ''cindral-j1-db'']], Inr True)"
proof -
  have up: "strip ''healthy'' = ''healthy''" by code_simp
  have fuel: "WAIT_FUEL = Suc 45" by (simp add: WAIT_FUEL_def)
  show ?thesis unfolding wait_for_services_def fuel
    by (subst wait_rounds.simps)
       (simp del: wait_rounds.simps add: healthy_def capture_command_def example_host_def example_executor_def up Let_def)
qed

lemma example_steps_ran:
  "run_job_steps (example_host 0) example_executor example_spec example_limited ''alpine:3'' ''n'' None [] h =
     (h @ [script_write example_executor example_spec example_limited ''n'', network_create example_executor example_spec, service_command example_executor example_spec example_db,
       [''docker'', ''inspect'', ''--format'', ''{{.State.Health.Status}}'', ''cindral-j1-db''],
       job_container example_executor example_spec ''alpine:3'' [] None []] @
       cleanup_commands example_executor ''cindral-j1'' [''cindral-j1-db''], Inr 0)"
proof -
  let ?ho = "example_host 0" and ?sv = example_db
  have s: "ct_services example_limited = [?sv]" "sv_name ?sv = ''db''" "sv_health_cmd ?sv \<noteq> None" "\<not> ct_docker example_limited"
      "ct_env example_limited = []" by (simp_all add: example_limited_def example_db_def)
  have n: "job_network (js_id example_spec) = ''cindral-j1''" by (simp add: job_network_def example_spec_def)
  have ok: "check_command ?ho argv h = (h @ [argv], Inr ())" "run_command ?ho argv h = (h @ [argv], 0)" "\<not> ho_cancelled ?ho h" for argv h
    by (simp_all add: check_command_def run_command_def example_host_def)
  have i: "in_network ?ho example_executor example_spec example_limited ''alpine:3'' [] None [] h =
      ([''cindral-j1-db''], h @ [service_command example_executor example_spec ?sv,
       [''docker'', ''inspect'', ''--format'', ''{{.State.Health.Status}}'', ''cindral-j1-db''],
       job_container example_executor example_spec ''alpine:3'' [] None []], Inr 0)" for h
    unfolding in_network_def Let_def n by (simp add: s ok andthen_def example_waited dict_update_def n)
  have w: "write_file ?ho (script_path example_executor example_spec) (run_script (ct_steps example_limited) ''n'') h =
      (h @ [script_write example_executor example_spec example_limited ''n''], Inr ())" for h
    by (simp add: write_file_def script_write_def example_host_def)
  show ?thesis unfolding run_job_steps_def Let_def n by (simp add: s ok w andthen_def i run_all_append network_create_def n)
qed

lemma example_run_passes:
  "\<exists>h. execute_job example_python example_checkout (example_host 0) example_executor example_surroundings example_spec = (h, 0, Some ''alpine:3'', [])"
  by (simp add: execute_job_def example_contract_loaded example_checked_out example_imaged run_cached_job_def example_surroundings_def example_steps_ran
      pack_artifacts_def andthen_def)

lemma example_history:
  "service_command example_executor example_spec example_db \<in>
     set (fst (run_job example_python example_checkout (example_host 0) example_executor example_surroundings example_spec))"
proof -
  have "service_command example_executor example_spec example_db \<in>
      set (fst (execute_job example_python example_checkout (example_host 0) example_executor example_surroundings example_spec))"
    by (simp add: execute_job_def example_contract_loaded example_checked_out example_imaged run_cached_job_def example_surroundings_def example_steps_ran
        pack_artifacts_def andthen_def)
  then show ?thesis using run_job_history [of example_python example_checkout "example_host 0" example_executor example_surroundings example_spec] by auto
qed

lemma example_execution:
  "snd (run_job example_python example_checkout (example_host 0) example_executor example_surroundings example_spec) = Execution 0 [] [] []"
proof -
  obtain h where h: "execute_job example_python example_checkout (example_host 0) example_executor example_surroundings example_spec = (h, 0, Some ''alpine:3'', [])"
    using example_run_passes by blast
  have "completed_log None 0 None ''n'' [] = Execution 0 [] [] []" by code_simp
  then show ?thesis
    unfolding run_job_def h by (simp add: cleanup_workspace_def example_host_def example_executor_def example_surroundings_def)
qed

definition example_success :: http_request where
  "example_success =
     \<lparr>hq_method = ''POST'', hq_url = ''http://b/v1/jobs/j1/report'', hq_authorization = ''Bearer t1'',
      hq_payload = [(''device'', JStr ''dev''), (''exit_code'', JInt 0)]\<rparr>"

lemma example_success_pass:
  "\<exists>acts. run_once example_device (example_answers 1 (Execution 0 [] [] [])) = (example_device, acts, Inr True) \<and> Reports example_success \<in> set acts"
proof -
  have "run_once example_device (example_answers 1 (Execution 0 [] [] [])) =
     (example_device, [Claims (claim_request (ag_client example_device) ''dev'' [''linux''] 300), Executes example_spec, Reports example_success], Inr True)"
    by code_simp
  then show ?thesis by simp
qed


lemma example_success_served:
  "let d' = fst (serve_jobs id (\<lambda>_. []) example_agent_server 300 (at_broker (ag_client example_device) example_success)
     (Inr (hq_payload example_success)) 300 300 example_leased)
   in map_option (\<lambda>r. r_status r = Success) (row_of d' ''j1'') = Some True"
  by code_simp

theorem cleanup_reaches_every_container_witness:
  "\<exists>tl name names. cleanup_commands example_executor ''cindral-j1'' [''cindral-j1-db''] =
       tl @ map (\<lambda>n. [ex_docker example_executor, ''rm'', ''-f'', n]) names @
         [[ex_docker example_executor, ''network'', ''rm'', job_network (js_id example_spec)]] \<and>
     values_of ''--name'' (container_options (job_container example_executor example_spec ''alpine:3'' [] None [])) = [name] \<and>
     name \<in> set names"
proof (rule cleanup_reaches_every_container [OF example_steps_ran [of "[]"]])
  show "plain_images ''alpine:3'' example_limited" by (simp add: plain_images_def example_limited_def example_db_def)
  let ?b = "[script_write example_executor example_spec example_limited ''n'', network_create example_executor example_spec, service_command example_executor example_spec example_db,
       [''docker'', ''inspect'', ''--format'', ''{{.State.Health.Status}}'', ''cindral-j1-db'']]"
    and ?jc = "job_container example_executor example_spec ''alpine:3'' [] None []"
    and ?c = "cleanup_commands example_executor ''cindral-j1'' [''cindral-j1-db'']"
  show "[] @ [script_write example_executor example_spec example_limited ''n'', network_create example_executor example_spec, service_command example_executor example_spec example_db,
       [''docker'', ''inspect'', ''--format'', ''{{.State.Health.Status}}'', ''cindral-j1-db''], ?jc] @ ?c = ?b @ ?jc # ?c" by simp
  show "is_run example_executor ?jc" by (simp add: is_run_def job_container_def Let_def)
  show "ho_code (example_host 0) ?b ?jc = 0 \<or> values_of ''--name'' (container_options ?jc) = [job_network (js_id example_spec) @ ''-job'']"
    by (simp add: example_host_def)
qed simp

theorem success_ran_to_exit_zero_witness:
  "\<exists>c. snd (resolve_contract example_python example_checkout example_spec) = Inr c \<and> missing_labels example_executor c = [] \<and>
     ran_to_zero (example_host 0) example_executor example_spec c None (dict_update (ct_env c) [])
       (fst (run_job example_python example_checkout (example_host 0) example_executor example_surroundings example_spec))"
proof -
  let ?inp = "example_answers 1 (Execution 0 [] [] [])"
  obtain acts where pass: "run_once example_device ?inp = (example_device, acts, Inr True)" "Reports example_success \<in> set acts"
    using example_success_pass by blast
  have claimed: "claim_reply (in_shown ?inp) (in_loads ?inp) (in_claim ?inp) = Inr (Some example_spec)"
    unfolding example_answers_def by (simp add: example_claim_reply example_spec_def)
  have plain: "plain_id (js_id example_spec)" by (simp add: plain_id_def example_spec_def)
  have ran: "in_execution ?inp = snd (run_job example_python example_checkout (example_host 0) example_executor example_surroundings example_spec)"
    by (simp add: example_answers_def example_execution)
  obtain d' posts ans where d': "serve_jobs id (\<lambda>_. []) example_agent_server 300 (at_broker (ag_client example_device) example_success)
      (Inr (hq_payload example_success)) 300 300 example_leased = (d', posts, ans)"
    by (cases "serve_jobs id (\<lambda>_. []) example_agent_server 300 (at_broker (ag_client example_device) example_success)
      (Inr (hq_payload example_success)) 300 300 example_leased")
  then obtain r where r: "row_of d' ''j1'' = Some r" "r_status r = Success" using example_success_served by auto
  have q: "r_status (take_lease ''dev'' 500 example_row) \<noteq> Success" by (simp add: take_lease_def example_row_def new_row_def)
  show ?thesis
    using success_ran_to_exit_zero [OF example_wf(2) pass claimed plain d' ran example_leased_row(1) q r]
    by (simp add: example_surroundings_def)
qed

end
