(* ===== verification/Check_Summary.thy ===== *)
theory Check_Summary
  imports Verdict_Delivery
begin

text \<open>
  What a run's check run says (\<open>check_summary.py\<close>): its conclusion, title, summary, log and annotation, computed
  from the stored record. Redaction (\<open>redact.py\<close>) is a record of the two functions its patterns make, and no
  more is used of them than the theorems state.
\<close>

section \<open>Text\<close>

definition rstrip :: "string \<Rightarrow> string" where
  "rstrip s = rev (dropWhile is_space (rev s))"

text \<open>\<open>str.split()\<close>.\<close>

function words :: "string \<Rightarrow> string list" where
  "words s =
     (let t = dropWhile is_space s
      in if t = [] then [] else takeWhile (\<lambda>c. \<not> is_space c) t # words (dropWhile (\<lambda>c. \<not> is_space c) t))"
  by pat_completeness auto

termination
proof (relation "measure length")
  fix s t :: string assume t: "t = dropWhile is_space s" "t \<noteq> []"
  then have "\<not> is_space (hd t)" by (simp add: hd_dropWhile)
  then have "length (dropWhile (\<lambda>c. \<not> is_space c) t) < length t"
    using t(2) by (cases t) (auto simp: length_dropWhile_le le_imp_less_Suc)
  then show "(dropWhile (\<lambda>c. \<not> is_space c) t, s) \<in> measure length"
    using length_dropWhile_le [of is_space s] t(1) by simp
qed simp

declare words.simps [simp del]

abbreviation tick :: char where "tick \<equiv> CHR 0x60"

abbreviation nl :: string where "nl \<equiv> [CHR 0x0A]"

section \<open>Verdicts\<close>

definition DEFAULT_CHECK_NAME :: string where "DEFAULT_CHECK_NAME = ''cindral/ci''"
definition QUEUED_DESCRIPTION :: string where "QUEUED_DESCRIPTION = ''queued on the device pool''"
definition RUNNING_DESCRIPTION :: string where "RUNNING_DESCRIPTION = ''device pool run in progress''"
definition PASSED_DESCRIPTION :: string where "PASSED_DESCRIPTION = ''device pool run passed''"
definition MAX_OUTPUT_CHARS :: nat where "MAX_OUTPUT_CHARS = 65535"
definition MAX_ANNOTATION_TITLE :: nat where "MAX_ANNOTATION_TITLE = 255"
definition MAX_ANNOTATION_DETAILS :: nat where "MAX_ANNOTATION_DETAILS = 64 * 1024"
definition TIMED_OUT_EXIT :: int where "TIMED_OUT_EXIT = 130"

record check_verdict =
  cv_state :: string
  cv_conclusion :: "string option"
  cv_title :: string
  cv_summary :: string
  cv_text :: string
  cv_annotations :: "json list"

text \<open>\<open>redact\<close> and \<open>scrubbed\<close>.\<close>

record redaction =
  rd_redact :: "string \<Rightarrow> string"
  rd_scrubbed :: "string \<Rightarrow> bool"

text \<open>\<open>job.last_error\<close>, empty where there is none.\<close>

definition loss :: "job \<Rightarrow> string" where
  "loss j = (case job_last_error j of None \<Rightarrow> [] | Some e \<Rightarrow> e)"

definition redacted_job :: "redaction \<Rightarrow> job \<Rightarrow> job" where
  "redacted_job rd j =
     j\<lparr>job_log := rd_redact rd (job_log j),
       job_last_error := (if loss j \<noteq> [] then Some (rd_redact rd (loss j)) else job_last_error j),
       job_steps := map (\<lambda>s. s\<lparr>st_output := rd_redact rd (st_output s)\<rparr>) (job_steps j)\<rparr>"

definition state_for :: "job \<Rightarrow> string" where
  "state_for j =
     (case job_status_of j of
        Success \<Rightarrow> ''success''
      | Failure \<Rightarrow> ''failure''
      | Dead \<Rightarrow> if parked (job_attempts j) then ''error'' else ''pending''
      | _ \<Rightarrow> ''pending'')"

definition conclusion_for :: "job \<Rightarrow> string option" where
  "conclusion_for j =
     (if state_for j = ''pending'' then None
      else if job_status_of j = Success then Some ''success''
      else if job_status_of j = Failure then Some (if job_exit_code j = Some TIMED_OUT_EXIT then ''timed_out'' else ''failure'')
      else Some (if job_last_error j = Some LEASE_LOST then ''cancelled'' else ''failure''))"

definition title_for :: "job \<Rightarrow> string" where
  "title_for j =
     (case job_status_of j of
        Success \<Rightarrow> PASSED_DESCRIPTION
      | Failure \<Rightarrow> failure_description (case job_exit_code j of Some c \<Rightarrow> c | None \<Rightarrow> 1) (job_log j) (job_steps j)
      | Dead \<Rightarrow> snd (lost_description j (loss j))
      | _ \<Rightarrow>
          if loss j \<noteq> [] then snd (lost_description j (loss j))
          else if job_status_of j = Running then RUNNING_DESCRIPTION else QUEUED_DESCRIPTION)"

section \<open>The summary\<close>

definition failed_step :: "job \<Rightarrow> step option" where
  "failed_step j = (if state_for j \<noteq> ''failure'' then None else find (\<lambda>s. \<not> st_completed s) (rev (job_steps j)))"

definition running_step :: "job \<Rightarrow> step option" where
  "running_step j = (if job_status_of j \<noteq> Running then None else find (\<lambda>s. \<not> st_completed s) (job_steps j))"

definition ended :: "job \<Rightarrow> string" where
  "ended j = (if conclusion_for j = Some ''failure'' then ''failed'' else ''did not finish'')"

definition cell :: "string \<Rightarrow> string" where
  "cell name =
     concat (map (\<lambda>c. if c = tick then [CHR 0x27] else if c = CHR ''|'' then [CHR 0x5C, c] else [c]) (join_with '' '' (words name)))"

definition code_span :: "string \<Rightarrow> string" where
  "code_span s = [tick] @ s @ [tick]"

definition headline :: "job \<Rightarrow> string" where
  "headline j =
     (if state_for j = ''failure''
      then (case failed_step j of
              None \<Rightarrow> ''The run failed without a step record.''
            | Some s \<Rightarrow> ''Step '' @ int_str (st_index s) @ '' '' @ ended j @ '': '' @ code_span (cell (st_name s)) @ ''.'')
      else if loss j \<noteq> [] then ''The run did not finish: '' @ loss j
      else (case running_step j of
              Some s \<Rightarrow> ''Step '' @ int_str (st_index s) @ '' is running: '' @ code_span (cell (st_name s)) @ ''.''
            | None \<Rightarrow> if job_status_of j = Success then ''Every step passed.'' else ''Waiting for a device.''))"

definition tree_line :: "job \<Rightarrow> string" where
  "tree_line j =
     join_with '', ''
       ((''built '' @ code_span (job_sha j)) #
        (case job_status_sha j of
           Some s \<Rightarrow> if s \<noteq> [] \<and> s \<noteq> job_sha j then [''head '' @ code_span s] else []
         | None \<Rightarrow> []))"

definition where_line :: "job \<Rightarrow> string" where
  "where_line j =
     join_with '', ''
       ([code_span (job_ref j), tree_line j] @
        [case job_device j of Some dev \<Rightarrow> if dev \<noteq> [] then ''on '' @ code_span dev else ''not claimed yet'' | None \<Rightarrow> ''not claimed yet''] @
        (if job_attempts j \<noteq> 0 then [''attempt '' @ int_str (job_attempts j)] else []) @
        (if job_steps j \<noteq> []
         then [nat_str (length (filter st_completed (job_steps j))) @ '' of '' @ nat_str (length (job_steps j)) @ '' steps finished'']
         else []))"

definition step_result :: "step \<Rightarrow> step option \<Rightarrow> step option \<Rightarrow> string \<Rightarrow> string" where
  "step_result s failed running how =
     (if st_completed s then ''passed''
      else if map_option st_index failed = Some (st_index s) then ''**'' @ how @ ''**''
      else if map_option st_index running = Some (st_index s) then ''running''
      else ''not finished'')"

definition step_table :: "job \<Rightarrow> step list \<Rightarrow> string list" where
  "step_table j steps =
     [''| # | Step | Result |'', ''| - | ---- | ------ |''] @
     map (\<lambda>s. ''| '' @ int_str (st_index s) @ '' | '' @ code_span (cell (st_name s)) @ '' | '' @
        step_result s (failed_step j) (running_step j) (ended j) @ '' |'') steps"

definition no_steps :: "job \<Rightarrow> string" where
  "no_steps j =
     (if job_status_of j = Pending \<and> loss j = [] then ''The run has not started yet: it is waiting for a device.''
      else if job_status_of j = Running then ''No step has started: a device has the run and has not announced one yet.''
      else ''No step ran.'')"

definition disclosed :: "job \<Rightarrow> step list \<Rightarrow> string list" where
  "disclosed j steps =
     (let dropped = sum_list (map (\<lambda>s. if st_dropped s < 0 then 0 else st_dropped s) steps) in
      (if dropped \<noteq> 0 then [int_str dropped @ '' earlier steps were not kept in this record.''] else []) @
      (if list_ex st_truncated steps then [''Some step output was cut to its last '' @ nat_str MAX_STEP_CHARS @ '' characters.''] else []) @
      (if loss j = [] then []
       else if parked (job_attempts j) then [''Out of attempts after '' @ int_str MAX_ATTEMPTS @ '': this run will not be retried.'']
       else [''Waiting for attempt '' @ int_str (job_attempts j + 1) @ '' of '' @ int_str MAX_ATTEMPTS @ ''.'']))"

definition CUT_MARKER :: string where
  "CUT_MARKER = nl @ ''The rest of this summary was cut to fit GitHub's size limit.'' @ nl"

definition bounded :: "string \<Rightarrow> string" where
  "bounded s =
     (if length s \<le> MAX_OUTPUT_CHARS then s else rstrip (take (MAX_OUTPUT_CHARS - length CUT_MARKER) s) @ CUT_MARKER)"

definition summary_for :: "job \<Rightarrow> string" where
  "summary_for j =
     (let steps = job_steps j
      in bounded (rstrip (join_with nl
           ([headline j, [], where_line j, []] @ (if steps \<noteq> [] then step_table j steps @ [[]] else [no_steps j]) @ disclosed j steps)) @ nl))"

section \<open>The log\<close>

fun longest_ticks :: "nat \<Rightarrow> nat \<Rightarrow> string \<Rightarrow> nat" where
  "longest_ticks longest run [] = longest"
| "longest_ticks longest run (c # s) =
     (let run' = (if c = tick then run + 1 else 0) in longest_ticks (max longest run') run' s)"

definition fence :: "string \<Rightarrow> string" where
  "fence s = replicate (max 3 (longest_ticks 0 0 s + 1)) tick"

definition removal_note :: string where "removal_note = ''cindral: credentials in this log were removed'' @ nl"
definition cut_note :: string where "cut_note = ''cindral: the beginning of this log is not shown'' @ nl"

definition check_log_text :: "redaction \<Rightarrow> job \<Rightarrow> string" where
  "check_log_text rd j =
     (let full = rd_redact rd (job_log j) in
      if full = [] then []
      else
        let notes = (if rd_scrubbed rd (job_log j) then removal_note else []) @ (if length full > MAX_OUTPUT_CHARS then cut_note else []);
            shown = (if length full > MAX_OUTPUT_CHARS then tail_chars (MAX_OUTPUT_CHARS - length notes) full else full);
            mark = fence shown;
            excess = length notes + 2 * length mark + 2 + length shown - MAX_OUTPUT_CHARS;
            body = drop excess shown
        in notes @ mark @ nl @ rstrip body @ nl @ mark)"

section \<open>Annotations and the whole verdict\<close>

definition annotations_for :: "redaction \<Rightarrow> job \<Rightarrow> string \<Rightarrow> json list" where
  "annotations_for rd j path =
     (if conclusion_for j \<in> {None, Some ''success''} then []
      else
        let title = (case failed_step j of
                       Some s \<Rightarrow> ''cindral: step '' @ int_str (st_index s) @ '' '' @ ended j
                     | None \<Rightarrow> ''cindral: the run did not pass'');
            details = (case failed_step j of
                         Some s \<Rightarrow> st_output s
                       | None \<Rightarrow> if job_log j \<noteq> [] then job_log j else loss j)
        in [JObj [(''path'', JStr path), (''start_line'', JInt 1), (''end_line'', JInt 1), (''annotation_level'', JStr ''failure''),
                  (''title'', JStr (take MAX_ANNOTATION_TITLE title)), (''message'', JStr (rd_redact rd (title_for j))),
                  (''raw_details'', JStr (tail_chars MAX_ANNOTATION_DETAILS (rd_redact rd details)))]])"

definition verdict_for :: "redaction \<Rightarrow> job \<Rightarrow> string \<Rightarrow> check_verdict" where
  "verdict_for rd j annotation_path =
     (let conclusion = conclusion_for j; stored = redacted_job rd j
      in \<lparr>cv_state = state_for j, cv_conclusion = conclusion, cv_title = title_for stored, cv_summary = summary_for stored,
          cv_text = (if conclusion \<in> {None, Some ''success''} then [] else check_log_text rd stored),
          cv_annotations = (if conclusion = None then [] else annotations_for rd stored annotation_path)\<rparr>)"

section \<open>The fence\<close>

lemma longest_ticks_mono: "longest \<le> longest_ticks longest run s"
proof (induction s arbitrary: longest run)
  case (Cons c s)
  let ?run = "if c = tick then run + 1 else 0"
  have "longest \<le> max longest ?run" by simp
  also have "\<dots> \<le> longest_ticks (max longest ?run) ?run s" by (rule Cons.IH)
  finally show ?case by (simp only: longest_ticks.simps Let_def)
qed simp

lemma longest_ticks_le: "l \<le> l' \<Longrightarrow> r \<le> r' \<Longrightarrow> longest_ticks l r s \<le> longest_ticks l' r' s"
proof (induction s arbitrary: l r l' r')
  case (Cons c s)
  let ?run = "\<lambda>r. if c = tick then r + 1 else 0"
  have "longest_ticks (max l (?run r)) (?run r) s \<le> longest_ticks (max l' (?run r')) (?run r') s"
    using Cons.prems by (intro Cons.IH) auto
  then show ?case by (simp only: longest_ticks.simps Let_def)
qed simp

lemma longest_ticks_run: "0 < n \<Longrightarrow> run + n \<le> longest_ticks longest run (replicate n tick @ t)"
proof (induction n arbitrary: longest run)
  case (Suc n)
  show ?case
  proof (cases "n = 0")
    case True
    then show ?thesis using longest_ticks_mono [of "max longest (run + 1)" "run + 1" t] by (simp add: Let_def)
  next
    case False
    then show ?thesis using Suc.IH [of "run + 1" "max longest (run + 1)"] by (simp add: Let_def)
  qed
qed simp

lemma longest_ticks_append: "\<exists>l r. longest_ticks longest run (a @ s) = longest_ticks l r s"
proof (induction a arbitrary: longest run)
  case (Cons c a)
  show ?case using Cons.IH by (simp add: Let_def)
qed auto

lemma run_is_counted: "sublist (replicate n tick) s \<Longrightarrow> n \<le> longest_ticks 0 0 s"
proof (cases "n = 0")
  case False
  assume "sublist (replicate n tick) s"
  then obtain a b where s: "s = a @ replicate n tick @ b" by (auto simp: sublist_def)
  obtain l r where "longest_ticks 0 0 s = longest_ticks l r (replicate n tick @ b)"
    unfolding s using longest_ticks_append by blast
  then show ?thesis using longest_ticks_run [of n r l b] False by simp
qed simp

lemma fence_facts: "set (fence s) = {tick}" "3 \<le> length (fence s)" "length (fence s) = max 3 (longest_ticks 0 0 s + 1)" "fence s \<noteq> []"
  by (auto simp: fence_def)

lemma fence_not_inside: "sublist t s \<Longrightarrow> \<not> sublist (fence s) t"
  using run_is_counted [of "length (fence s)" s] sublist_order.order_trans
  unfolding fence_def by fastforce

lemma suffix_tail: "suffix (tail_chars n s) s" "suffix (drop n s) s" "prefix (rstrip s) s"
proof -
  show "suffix (tail_chars n s) s" "suffix (drop n s) s" by (simp_all add: tail_chars_def suffix_drop)
  show "prefix (rstrip s) s" unfolding rstrip_def
    by (metis rev_rev_ident suffix_dropWhile suffix_to_prefix)
qed

lemma longest_ticks_suffix: "suffix t s \<Longrightarrow> longest_ticks 0 0 t \<le> longest_ticks 0 0 s"
proof -
  assume "suffix t s"
  then obtain a where s: "s = a @ t" by (auto simp: suffix_def)
  obtain l r where "longest_ticks 0 0 (a @ t) = longest_ticks l r t" using longest_ticks_append by blast
  then show ?thesis unfolding s using longest_ticks_le [of 0 l 0 r t] by simp
qed

text \<open>The parts of a published log.\<close>

definition published_parts :: "string \<Rightarrow> string \<Rightarrow> string \<Rightarrow> string \<Rightarrow> string \<Rightarrow> bool" where
  "published_parts full t said mark body \<longleftrightarrow>
     t = said @ mark @ nl @ body @ nl @ mark \<and> said \<in> {[], removal_note, cut_note, removal_note @ cut_note} \<and>
     set mark = {tick} \<and> 3 \<le> length mark \<and> length mark \<le> max 3 (longest_ticks 0 0 full + 1) \<and>
     \<not> sublist mark body \<and> sublist body full \<and> length body \<le> MAX_OUTPUT_CHARS - (length said + 2 * length mark + 2)"

lemma log_text_parts:
  assumes "check_log_text rd j \<noteq> []"
  shows "\<exists>said mark body. published_parts (rd_redact rd (job_log j)) (check_log_text rd j) said mark body"
proof -
  define full where "full = rd_redact rd (job_log j)"
  define said where "said = (if rd_scrubbed rd (job_log j) then removal_note else []) @ (if length full > MAX_OUTPUT_CHARS then cut_note else [])"
  define shown where "shown = (if length full > MAX_OUTPUT_CHARS then tail_chars (MAX_OUTPUT_CHARS - length said) full else full)"
  define body where "body = rstrip (drop (length said + 2 * length (fence shown) + 2 + length shown - MAX_OUTPUT_CHARS) shown)"
  have "full \<noteq> []" using assms by (auto simp: check_log_text_def Let_def full_def)
  then have t: "check_log_text rd j = said @ fence shown @ nl @ body @ nl @ fence shown"
    unfolding check_log_text_def Let_def full_def [symmetric] said_def [symmetric] shown_def [symmetric] body_def [symmetric] by simp
  have suff: "suffix shown full" using suffix_tail(1) by (auto simp: shown_def)
  have bshown: "sublist body shown"
    unfolding body_def using suffix_tail(2,3) by (meson prefix_imp_sublist suffix_imp_sublist sublist_order.order_trans)
  have "length body \<le> length (drop (length said + 2 * length (fence shown) + 2 + length shown - MAX_OUTPUT_CHARS) shown)"
    unfolding body_def using suffix_tail(3) prefix_length_le by blast
  then have len: "length body \<le> MAX_OUTPUT_CHARS - (length said + 2 * length (fence shown) + 2)" by simp
  have "length (fence shown) \<le> max 3 (longest_ticks 0 0 full + 1)"
    using longest_ticks_suffix [OF suff] by (simp add: fence_facts(3))
  moreover have "said \<in> {[], removal_note, cut_note, removal_note @ cut_note}" by (simp add: said_def)
  moreover have "sublist body full" using bshown suff by (meson suffix_imp_sublist sublist_order.order_trans)
  ultimately have "published_parts full (check_log_text rd j) said (fence shown) body"
    unfolding published_parts_def using t len fence_facts(1,2) [of shown] fence_not_inside [OF bshown] by simp
  then show ?thesis unfolding full_def by blast
qed

lemma length_notes: "said \<in> {[], removal_note, cut_note, removal_note @ cut_note} \<Longrightarrow> length said \<le> 100"
  by (auto simp: removal_note_def cut_note_def)

lemma log_text_fits:
  assumes "longest_ticks 0 0 (rd_redact rd (job_log j)) \<le> 32000"
  shows "length (check_log_text rd j) \<le> MAX_OUTPUT_CHARS"
proof (cases "check_log_text rd j = []")
  case False
  then obtain said mark body where p: "published_parts (rd_redact rd (job_log j)) (check_log_text rd j) said mark body"
    using log_text_parts by blast
  then have "length said \<le> 100" using length_notes by (simp add: published_parts_def)
  moreover have "length mark \<le> 32001" using p assms unfolding published_parts_def by linarith
  ultimately have "length said + 2 * length mark + 2 \<le> MAX_OUTPUT_CHARS" by (simp add: MAX_OUTPUT_CHARS_def)
  moreover have "length (check_log_text rd j) = length said + 2 * length mark + 2 + length body" using p by (simp add: published_parts_def)
  moreover have "length body \<le> MAX_OUTPUT_CHARS - (length said + 2 * length mark + 2)" using p by (simp only: published_parts_def)
  ultimately show ?thesis by linarith
qed simp

text \<open>A log with a long enough line of backticks is published past the bound: the fence itself does not fit.\<close>

lemma long_fence_does_not_fit:
  assumes "rd_redact rd (job_log j) = replicate n tick" and "33000 \<le> n" and "n \<le> 60000"
  shows "MAX_OUTPUT_CHARS < length (check_log_text rd j)"
proof -
  have "n \<le> longest_ticks 0 0 (replicate n tick)" using run_is_counted [of n] by simp
  then have "n < length (fence (replicate n tick))" by (simp add: fence_facts(3))
  then show ?thesis using assms by (simp add: check_log_text_def Let_def MAX_OUTPUT_CHARS_def)
qed

lemma length_rstrip: "length (rstrip s) \<le> length s"
  using suffix_tail(3) prefix_length_le by blast

lemma bounded_fits: "length (bounded s) \<le> MAX_OUTPUT_CHARS"
proof -
  have "length CUT_MARKER \<le> MAX_OUTPUT_CHARS" by (simp add: CUT_MARKER_def MAX_OUTPUT_CHARS_def)
  moreover have "length (rstrip (take (MAX_OUTPUT_CHARS - length CUT_MARKER) s)) \<le> MAX_OUTPUT_CHARS - length CUT_MARKER"
    using length_rstrip [of "take (MAX_OUTPUT_CHARS - length CUT_MARKER) s"] by simp
  ultimately show ?thesis by (auto simp: bounded_def)
qed

lemma failure_description_bounded: "length (failure_description c l ss) \<le> MAX_STATUS_DESCRIPTION \<or> failure_description c l ss = ''device pool run failed (exit '' @ int_str c @ '')''"
  by (auto simp: failure_description_def bounded_description_def Let_def)

section \<open>Agreement with the commit status\<close>

lemma redacted_frame [simp]:
  "job_status_of (redacted_job rd j) = job_status_of j" "job_attempts (redacted_job rd j) = job_attempts j"
  "job_exit_code (redacted_job rd j) = job_exit_code j"
  by (simp_all add: redacted_job_def)

text \<open>The conclusion is green exactly for a run whose state is a success, and there is none exactly while the state is pending.\<close>

lemma conclusion_of_state:
  "conclusion_for j = None \<longleftrightarrow> state_for j = ''pending''" "conclusion_for j = Some ''success'' \<longleftrightarrow> state_for j = ''success''"
  by (auto simp: conclusion_for_def state_for_def split: job_status.splits)

text \<open>The sentence of a run that passed quotes nothing of it.\<close>

lemma passed_title_redacted: "state_for j = ''success'' \<Longrightarrow> title_for (redacted_job rd j) = title_for j"
  by (auto simp: state_for_def title_for_def split: job_status.splits if_splits)

lemma take_bounded: "take MAX_STATUS_DESCRIPTION (p @ take MAX_ERROR_CHARS e) = take MAX_STATUS_DESCRIPTION (p @ e)"
proof -
  have m: "min (MAX_STATUS_DESCRIPTION - length p) MAX_ERROR_CHARS = MAX_STATUS_DESCRIPTION - length p"
    by (simp add: MAX_STATUS_DESCRIPTION_def MAX_ERROR_CHARS_def)
  show ?thesis unfolding take_append take_take m ..
qed

lemma lost_description_take: "snd (lost_description j (take MAX_ERROR_CHARS e)) = snd (lost_description j e)"
proof -
  have b: "bounded_description (p @ take MAX_ERROR_CHARS e) = bounded_description (p @ e)" for p
    unfolding bounded_description_def by (rule take_bounded)
  show ?thesis unfolding lost_description_def by (simp only: b append_assoc [symmetric] split: if_split)
qed

lemma lost_description_job: "job_attempts j = job_attempts j' \<Longrightarrow> lost_description j e = lost_description j' e"
  by (simp add: lost_description_def)

text \<open>What the row of a settled run renders as is what its report told the commit.\<close>

lemma settled_renders_as_status:
  assumes "settle i device code now l err ss d = Inr d'" and "db_wf d" and "get d i = Some j" and "get d' i = Some j'"
    and "length l \<le> MAX_LOG_CHARS" and "ss = map step_as_dict (encode_steps raw)"
  shows "state_for j' = fst (report_status j err code l (encode_steps raw)) \<and> title_for j' = snd (report_status j err code l (encode_steps raw))"
  using assms(1) db_wf_distinct [OF assms(2)]
proof (cases rule: settle_cases)
  case (error r)
  have j: "j = row_job r" using assms(3) error(1) by (simp add: get_def)
  have "row_of d' i = Some (release_row (r_attempts r) now err None (supersede_row r))"
    using error(1) row_of_in [OF error(1)] by (simp add: error(6) row_of_on_update release_row_def supersede_row_def)
  then have j': "j' = row_job (release_row (r_attempts r) now err None (supersede_row r))" using assms(4) by (simp add: get_def)
  have a: "job_attempts j' = job_attempts j" by (simp add: j j' row_job_def release_row_def supersede_row_def)
  have e: "loss j' = take MAX_ERROR_CHARS err" by (simp add: loss_def j' row_job_def release_row_def)
  have st: "job_status_of j' = (if parked (job_attempts j) then Dead else Pending)" by (simp add: j j' row_job_def release_row_def)
  have "take MAX_ERROR_CHARS err \<noteq> []" using error(5) by (simp add: MAX_ERROR_CHARS_def)
  then have "title_for j' = snd (lost_description j' (take MAX_ERROR_CHARS err))" using st by (auto simp: title_for_def e)
  then have "title_for j' = snd (lost_description j err)" using lost_description_take lost_description_job [OF a] by metis
  moreover have "state_for j' = fst (lost_description j err)" using st a by (auto simp: state_for_def lost_description_def)
  ultimately show ?thesis using error(5) by (simp add: report_status_def)
next
  case (verdict r c)
  have steps: "encode_steps (JList ss) = encode_steps raw"
    using encode_steps_bounded_aux [of raw] encode_steps_as_dict [of "encode_steps raw"] unfolding assms(6) by blast
  have "row_of d' i = Some (verdict_row c l ss r)" using verdict(1) row_of_in [OF verdict(1)] by (simp add: verdict(7) row_of_on_update verdict_row_def)
  then have j': "j' = row_job (verdict_row c l ss r)" using assms(4) by (simp add: get_def)
  have log: "job_log j' = l" using assms(5) by (simp add: j' row_job_def verdict_row_def)
  have ss: "job_steps j' = encode_steps raw"
  proof (cases "ss = []")
    case True
    then show ?thesis using assms(6) by (simp add: j' row_job_def verdict_row_def)
  next
    case False
    then show ?thesis using steps by (simp add: j' row_job_def verdict_row_def)
  qed
  have st: "job_status_of j' = (if c = 0 then Success else Failure)" "job_exit_code j' = Some c"
    by (simp_all add: j' row_job_def verdict_row_def)
  show ?thesis using st log ss verdict(5,6) by (auto simp: state_for_def title_for_def report_status_def PASSED_DESCRIPTION_def)
qed

text \<open>
  C33: a check run and its commit status say one thing. After a report the broker accepted, with a log the store keeps
  whole, the check of the stored run has the state of the status the report produced, no conclusion exactly while
  that status is pending and a green one exactly when it is a success. Its title is the status's own sentence where
  the run passed or redaction leaves the run's texts alone, and otherwise the sentence of the redacted run, the run
  itself being described by the status's sentence.
\<close>

theorem check_agrees_with_status:
  assumes "db_wf d" and "get d i = Some j" and "length log_text \<le> MAX_LOG_CHARS"
    and "report_endpoint github speaks i device raw_error reported log_text raw_steps checked_at now d = (d', posts, Sent 200 (Some j'))"
  shows "let status = report_status j (strip raw_error) (if strip raw_error \<noteq> [] then None else reported) log_text (encode_steps raw_steps);
      v = verdict_for rd j' path
    in cv_state v = fst status \<and> title_for j' = snd status \<and> (cv_conclusion v = None \<longleftrightarrow> fst status = ''pending'') \<and>
      (cv_conclusion v = Some ''success'' \<longleftrightarrow> fst status = ''success'') \<and>
      cv_title v = title_for (redacted_job rd j') \<and>
      (fst status = ''success'' \<or> redacted_job rd j' = j' \<longrightarrow> cv_title v = snd status)"
proof -
  let ?err = "strip raw_error" and ?ss = "map step_as_dict (encode_steps raw_steps)"
  let ?code = "if ?err \<noteq> [] then None else reported"
  let ?status = "report_status j ?err ?code log_text (encode_steps raw_steps)"
  obtain d1 g where r: "report i device ?code now log_text ?err ?ss d = Inr (d1, g)" "get d1 i = Some j'"
    using assms(2,4) unfolding report_endpoint_def
    by (auto simp: Let_def conclude_report_def report_refusal_def token_refusal_def lease_refusal_def
        split: if_splits sum.splits py_exn.splits prod.splits elim!: error_response.elims)
  have "settle i device ?code now log_text ?err ?ss d = Inr d1" using r(1) by (auto simp: report_def rbind_Inr_conv)
  note same = settled_renders_as_status [OF this assms(1,2) r(2) assms(3) refl]
  have "state_for j' = ''success'' \<Longrightarrow> title_for (redacted_job rd j') = title_for j'"
    by (rule passed_title_redacted)
  then show ?thesis using same by (auto simp: verdict_for_def Let_def conclusion_of_state)
qed

text \<open>
  C34: GitHub takes every field a check run carries. Whatever a run printed, the summary is within the size GitHub
  accepts, and so is the log as long as it holds no run of 32000 backticks; the log is one fenced block: the
  notes about it, a fence, a piece of the redacted log that the fence does not occur in, and the fence again.
\<close>

theorem published_output_fits:
  assumes "longest_ticks 0 0 (rd_redact rd (rd_redact rd (job_log j))) \<le> 32000"
  shows "length (cv_summary (verdict_for rd j path)) \<le> MAX_OUTPUT_CHARS \<and> length (cv_text (verdict_for rd j path)) \<le> MAX_OUTPUT_CHARS \<and>
    (cv_text (verdict_for rd j path) = [] \<or>
     (\<exists>said mark body. published_parts (rd_redact rd (rd_redact rd (job_log j))) (cv_text (verdict_for rd j path)) said mark body))"
proof -
  let ?v = "verdict_for rd j path" and ?s = "redacted_job rd j"
  have l: "job_log ?s = rd_redact rd (job_log j)" by (simp add: redacted_job_def)
  have t: "cv_text ?v \<in> {[], check_log_text rd ?s}" by (simp add: verdict_for_def Let_def)
  have "length (cv_summary ?v) \<le> MAX_OUTPUT_CHARS" by (simp add: verdict_for_def Let_def summary_for_def bounded_fits)
  moreover have "length (cv_text ?v) \<le> MAX_OUTPUT_CHARS" using t log_text_fits [of rd ?s] assms l by auto
  moreover have "cv_text ?v = [] \<or> (\<exists>said mark body. published_parts (rd_redact rd (rd_redact rd (job_log j))) (cv_text ?v) said mark body)"
    using t log_text_parts [of rd ?s] l by (metis empty_iff insert_iff)
  ultimately show ?thesis by blast
qed

text \<open>
  The verdict renders the record after redaction, and the note that something was removed asks whether redaction
  would change that record again: what is removed and leaves nothing to match goes undisclosed.
\<close>

lemma removal_is_not_disclosed:
  assumes "\<not> rd_scrubbed rd (rd_redact rd (job_log j))" and "length (rd_redact rd (rd_redact rd (job_log j))) \<le> MAX_OUTPUT_CHARS"
    and "cv_text (verdict_for rd j path) \<noteq> []"
  shows "prefix (replicate 3 tick) (cv_text (verdict_for rd j path))"
proof -
  have "job_log (redacted_job rd j) = rd_redact rd (job_log j)" by (simp add: redacted_job_def)
  then have "\<exists>m t. cv_text (verdict_for rd j path) = fence m @ t"
    using assms by (auto simp: verdict_for_def Let_def check_log_text_def split: if_splits)
  then obtain m t where "cv_text (verdict_for rd j path) = fence m @ t" by blast
  moreover have "prefix (replicate 3 tick) (fence m)"
    unfolding fence_def by (metis le_add_diff_inverse max.cobounded1 prefixI replicate_add)
  ultimately show ?thesis by simp
qed

text \<open>A step's name, which is the command line it was declared with, is not among what is redacted.\<close>

lemma step_names_are_not_redacted: "map st_name (job_steps (redacted_job rd j)) = map st_name (job_steps j)"
  by (simp add: redacted_job_def)

section \<open>A concrete run\<close>

definition example_redaction :: redaction where
  "example_redaction = \<lparr>rd_redact = (\<lambda>s. if s = ''hunter2'' then ''[redacted]'' else s), rd_scrubbed = (\<lambda>s. s = ''hunter2'')\<rparr>"

lemma example_report_served:
  "case report_endpoint None (\<lambda>_. True) ''j1'' ''dev'' [] (Some 2) [] JNull 300 300 example_leased of
     (d', posts, Sent c (Some j')) \<Rightarrow> c = 200 \<and> state_for j' = ''failure'' | _ \<Rightarrow> False"
  by code_simp

lemma example_leased_job: "get example_leased ''j1'' = Some (row_job (take_lease ''dev'' 500 example_row))"
  using example_leased_row(1) by (simp add: get_def)

theorem check_agrees_with_status_witness:
  "\<exists>d' posts j'. report_endpoint None (\<lambda>_. True) ''j1'' ''dev'' [] (Some 2) [] JNull 300 300 example_leased =
       (d', posts, Sent 200 (Some j')) \<and>
     cv_state (verdict_for example_redaction j' []) = ''failure'' \<and> cv_conclusion (verdict_for example_redaction j' []) \<noteq> Some ''success'' \<and>
     cv_title (verdict_for example_redaction j' []) = title_for (redacted_job example_redaction j')"
proof -
  obtain d' posts j' where r: "report_endpoint None (\<lambda>_. True) ''j1'' ''dev'' [] (Some 2) [] JNull 300 300 example_leased =
      (d', posts, Sent 200 (Some j'))"
    using example_report_served
    by (cases "report_endpoint None (\<lambda>_. True) ''j1'' ''dev'' [] (Some 2) [] JNull 300 300 example_leased")
       (auto split: response.splits option.splits)
  have short: "length ([]::string) \<le> MAX_LOG_CHARS" "strip [] = []" by (simp_all add: strip_def)
  from check_agrees_with_status [OF example_wf(2) example_leased_job short(1) r, of example_redaction "[]"] r short(2)
  show ?thesis by (simp add: report_status_def Let_def)
qed

theorem published_output_fits_witness:
  "length (cv_text (verdict_for example_redaction ((row_job example_row)\<lparr>job_log := ''hunter2''\<rparr>) [])) \<le> MAX_OUTPUT_CHARS"
proof -
  let ?l = "job_log ((row_job example_row)\<lparr>job_log := ''hunter2''\<rparr>)"
  have r: "rd_redact example_redaction (rd_redact example_redaction ''hunter2'') = ''[redacted]''" by (simp add: example_redaction_def)
  have l: "?l = ''hunter2''" by simp
  have t: "longest_ticks 0 0 ''[redacted]'' = 0" by code_simp
  have "longest_ticks 0 0 (rd_redact example_redaction (rd_redact example_redaction ?l)) \<le> 32000"
    unfolding l r t by (rule le0)
  from published_output_fits [OF this, of "[]"] show ?thesis by (elim conjE) assumption
qed

end
