(* ===== verification/Check_Runs.thy ===== *)
theory Check_Runs
  imports Check_Summary Dispatch_Targets
begin

text \<open>
  The check run of a run (\<open>check_runs.py\<close>): the three requests to GitHub with their errors, and the publisher
  that opens a run's check, updates it and finds it again. GitHub is a parameter: a function from its state and
  a request to its next state and a reply. What the theorems use of it is \<open>honest_hub\<close>: a request changes nothing but what it
  asks for, whether or not the reply arrives, and a listing shows only checks that are there, some when there are any.
  The program asks for a listing without a \<open>filter\<close>, so it is not taken to show every check of the name: the last
  section proves what that costs.
\<close>

section \<open>Requests and replies\<close>

definition PER_PAGE :: nat where "PER_PAGE = 100"
definition MAX_FIND_PAGES :: nat where "MAX_FIND_PAGES = 5"
definition UNKNOWN_THROTTLE_SECONDS :: real where "UNKNOWN_THROTTLE_SECONDS = 60"

datatype check_request =
    Create_Check string json
  | Update_Check string int json
  | List_Checks string string string nat

datatype hub_reply =
    Answered "json option"
  | Answered_Empty
  | Http_Refused int string "string option"
  | Unreached string
  | Broken string

datatype check_error =
    Check_Refused string "int option" "real option"
  | Hub_Error string
  | Check_Value_Error string
  | Other_Error string

type_synonym 'g hub = "'g \<Rightarrow> check_request \<Rightarrow> 'g \<times> hub_reply"

fun status_code :: "check_error \<Rightarrow> int option" where
  "status_code (Check_Refused _ code _) = code"
| "status_code _ = None"

fun retryable :: "check_error \<Rightarrow> bool" where
  "retryable (Check_Refused _ code retry) \<longleftrightarrow> retry \<noteq> None \<or> code = None"
| "retryable _ \<longleftrightarrow> False"

text \<open>\<open>quote\<close> of an ASCII text: what is not unreserved or in \<open>safe\<close> becomes its two hexadecimal digits.\<close>

definition unreserved :: "char \<Rightarrow> bool" where
  "unreserved c \<longleftrightarrow> CHR ''A'' \<le> c \<and> c \<le> CHR ''Z'' \<or> CHR ''a'' \<le> c \<and> c \<le> CHR ''z'' \<or> CHR ''0'' \<le> c \<and> c \<le> CHR ''9'' \<or>
     c \<in> set ''_.-~''"

definition url_quote :: "string \<Rightarrow> string \<Rightarrow> string" where
  "url_quote safe s =
     concat (map (\<lambda>c. if unreserved c \<or> c \<in> set safe then [c]
                      else [CHR ''%'', ''0123456789ABCDEF'' ! (of_char c div 16), ''0123456789ABCDEF'' ! (of_char c mod 16)]) s)"

definition checks_path :: "string \<Rightarrow> string \<Rightarrow> string" where
  "checks_path repository rest = ''/repos/'' @ url_quote ''/'' repository @ ''/'' @ rest"

fun request_line :: "check_request \<Rightarrow> string \<times> string" where
  "request_line (Create_Check repository _) = (''POST'', checks_path repository ''check-runs'')"
| "request_line (Update_Check repository i _) = (''PATCH'', checks_path repository (''check-runs/'' @ int_str i))"
| "request_line (List_Checks repository sha name page) =
     (''GET'', checks_path repository (''commits/'' @ url_quote [] sha @ ''/check-runs'') @
        ''?check_name='' @ url_quote [] name @ ''&per_page='' @ nat_str PER_PAGE @ ''&page='' @ nat_str page)"

fun request_repository :: "check_request \<Rightarrow> string" where
  "request_repository (Create_Check repository _) = repository"
| "request_repository (Update_Check repository _ _) = repository"
| "request_repository (List_Checks repository _ _ _) = repository"

text \<open>The wait a throttled reply asks for; \<open>float\<close> is Python's reading of a text as a number.\<close>

definition retry_after :: "(string \<Rightarrow> real option) \<Rightarrow> string option \<Rightarrow> real option" where
  "retry_after float header =
     (case header of
        None \<Rightarrow> None
      | Some raw \<Rightarrow> (case float raw of Some x \<Rightarrow> Some (max 0 x) | None \<Rightarrow> Some UNKNOWN_THROTTLE_SECONDS))"

fun read_reply :: "(string \<Rightarrow> real option) \<Rightarrow> hub_reply \<Rightarrow> check_error + jobj" where
  "read_reply float (Answered (Some (JObj body))) = Inr body"
| "read_reply float (Answered _) = Inl (Hub_Error ''GitHub returned an invalid check run response'')"
| "read_reply float Answered_Empty = Inr []"
| "read_reply float (Http_Refused code detail header) =
     Inl (Check_Refused (''GitHub check run request failed with HTTP '' @ int_str code @ '': '' @ detail) (Some code) (retry_after float header))"
| "read_reply float (Unreached reason) = Inl (Check_Refused (''GitHub check run request failed: '' @ reason) None None)"
| "read_reply float (Broken m) = Inl (Other_Error m)"

definition send_check :: "(string \<Rightarrow> real option) \<Rightarrow> 'g hub \<Rightarrow> check_request \<Rightarrow> 'g \<Rightarrow> 'g \<times> (check_error + jobj)" where
  "send_check float hub rq g =
     (if \<not> is_repository_slug (request_repository rq) then (g, Inl (Check_Value_Error ''repository must use the owner/name format''))
      else case hub g rq of (g', reply) \<Rightarrow> (g', read_reply float reply))"

definition hbind :: "'s \<times> ('e + 'a) \<Rightarrow> ('s \<Rightarrow> 'a \<Rightarrow> 's \<times> ('e + 'b)) \<Rightarrow> 's \<times> ('e + 'b)" where
  "hbind r f = (case r of (s, Inl e) \<Rightarrow> (s, Inl e) | (s, Inr x) \<Rightarrow> f s x)"

section \<open>The client\<close>

definition create_check :: "(string \<Rightarrow> real option) \<Rightarrow> 'g hub \<Rightarrow> string \<Rightarrow> json \<Rightarrow> 'g \<Rightarrow> 'g \<times> (check_error + int)" where
  "create_check float hub repository payload g =
     hbind (send_check float hub (Create_Check repository payload) g) (\<lambda>g body.
       case map_of body ''id'' of
         Some (JInt i) \<Rightarrow> (g, Inr i)
       | _ \<Rightarrow> (g, Inl (Hub_Error ''GitHub created a check run without an id'')))"

definition update_check :: "(string \<Rightarrow> real option) \<Rightarrow> 'g hub \<Rightarrow> string \<Rightarrow> int \<Rightarrow> json \<Rightarrow> 'g \<Rightarrow> 'g \<times> (check_error + unit)" where
  "update_check float hub repository i payload g =
     hbind (send_check float hub (Update_Check repository i payload) g) (\<lambda>g _. (g, Inr ()))"

fun find_entry :: "string \<Rightarrow> json list \<Rightarrow> (check_error + int \<times> bool) option" where
  "find_entry external [] = None"
| "find_entry external (JObj entry # rest) =
     (if map_of entry ''external_id'' = Some (JStr external)
      then Some (case map_of entry ''id'' of
                   Some (JInt i) \<Rightarrow> Inr (i, map_of entry ''status'' = Some (JStr ''completed''))
                 | _ \<Rightarrow> Inl (Hub_Error ''GitHub returned a check run without a numeric id''))
      else find_entry external rest)"
| "find_entry external (_ # rest) = find_entry external rest"

definition listed_runs :: "jobj \<Rightarrow> check_error + json list" where
  "listed_runs body =
     (case map_of body ''check_runs'' of Some (JList runs) \<Rightarrow> Inr runs | _ \<Rightarrow> Inl (Hub_Error ''GitHub returned an invalid check run list''))"

fun find_pages ::
  "(string \<Rightarrow> real option) \<Rightarrow> 'g hub \<Rightarrow> string \<Rightarrow> string \<Rightarrow> string \<Rightarrow> string \<Rightarrow> nat list \<Rightarrow> 'g \<Rightarrow> 'g \<times> (check_error + (int \<times> bool) option)" where
  "find_pages float hub repository sha name external [] g =
     (g, Inl (Hub_Error (''GitHub returned more than '' @ nat_str (MAX_FIND_PAGES * PER_PAGE) @ '' check runs named '' @ name @ '' on '' @ take 7 sha)))"
| "find_pages float hub repository sha name external (page # pages) g =
     hbind (send_check float hub (List_Checks repository sha name page) g) (\<lambda>g body.
       case listed_runs body of
         Inl e \<Rightarrow> (g, Inl e)
       | Inr runs \<Rightarrow>
           (case find_entry external runs of
              Some (Inl e) \<Rightarrow> (g, Inl e)
            | Some (Inr found) \<Rightarrow> (g, Inr (Some found))
            | None \<Rightarrow> if length runs < PER_PAGE then (g, Inr None) else find_pages float hub repository sha name external pages g))"

definition find_check ::
  "(string \<Rightarrow> real option) \<Rightarrow> 'g hub \<Rightarrow> string \<Rightarrow> string \<Rightarrow> string \<Rightarrow> string \<Rightarrow> 'g \<Rightarrow> 'g \<times> (check_error + (int \<times> bool) option)" where
  "find_check float hub repository sha name external g = find_pages float hub repository sha name external [1..<MAX_FIND_PAGES + 1] g"

section \<open>The publisher\<close>

text \<open>\<open>pb_open\<close> is the publisher's memory: by repository, run and name, the check's id and whether it is finished.\<close>

record 'g publisher =
  pb_open :: "string \<times> string \<times> string \<Rightarrow> (int \<times> bool) option"
  pb_hub :: 'g

text \<open>What a publish is given besides the run; \<open>pa_iso\<close> is the text of a time.\<close>

record publish_args =
  pa_redaction :: redaction
  pa_float :: "string \<Rightarrow> real option"
  pa_iso :: "real \<Rightarrow> string"
  pa_name :: string
  pa_target :: string
  pa_path :: string
  pa_now :: real

definition check_payload :: "publish_args \<Rightarrow> job \<Rightarrow> check_verdict \<Rightarrow> json list \<Rightarrow> jobj" where
  "check_payload pa j v annotations =
     (let output = [(''title'', JStr (cv_title v)), (''summary'', JStr (cv_summary v)), (''text'', JStr (cv_text v))] @
            (if annotations = [] then [] else [(''annotations'', JList annotations)])
      in [(''name'', JStr (pa_name pa)), (''external_id'', JStr (job_id j)), (''output'', JObj output)] @
         (if pa_target pa = [] then [] else [(''details_url'', JStr (pa_target pa))]) @
         (case cv_conclusion v of
            None \<Rightarrow> [(''status'', JStr (if job_status_of j = Running then ''in_progress'' else ''queued''))]
          | Some c \<Rightarrow> [(''status'', JStr ''completed''), (''conclusion'', JStr c), (''completed_at'', JStr (pa_iso pa (pa_now pa)))]))"

definition check_key :: "publish_args \<Rightarrow> job \<Rightarrow> string \<times> string \<times> string" where
  "check_key pa j = (job_repository j, job_id j, pa_name pa)"

definition held_check :: "publish_args \<Rightarrow> 'g hub \<Rightarrow> job \<Rightarrow> string \<Rightarrow> 'g publisher \<Rightarrow> 'g publisher \<times> (check_error + (int \<times> bool) option)" where
  "held_check pa hub j sha pb =
     (case pb_open pb (check_key pa j) of
        Some held \<Rightarrow> (pb, Inr (Some held))
      | None \<Rightarrow>
          (case find_check (pa_float pa) hub (job_repository j) sha (pa_name pa) (job_id j) (pb_hub pb) of
             (g, Inl e) \<Rightarrow> (pb\<lparr>pb_hub := g\<rparr>, Inl e)
           | (g, Inr None) \<Rightarrow> (pb\<lparr>pb_hub := g\<rparr>, Inr None)
           | (g, Inr (Some found)) \<Rightarrow> (pb\<lparr>pb_hub := g, pb_open := (pb_open pb)(check_key pa j \<mapsto> found)\<rparr>, Inr (Some found))))"

definition write_check ::
  "publish_args \<Rightarrow> 'g hub \<Rightarrow> job \<Rightarrow> string \<Rightarrow> (int \<times> bool) option \<Rightarrow> check_verdict \<Rightarrow> 'g publisher \<Rightarrow> 'g publisher \<times> (check_error + int \<times> bool)" where
  "write_check pa hub j sha held v pb =
     (let annotations = (case held of Some (_, True) \<Rightarrow> [] | _ \<Rightarrow> cv_annotations v);
          payload = check_payload pa j v annotations;
          (g, sent) =
            (case held of
               None \<Rightarrow>
                 hbind (create_check (pa_float pa) hub (job_repository j)
                          (JObj (payload @ [(''head_sha'', JStr sha), (''started_at'', JStr (pa_iso pa (job_created_at j)))])) (pb_hub pb))
                   (\<lambda>g i. (g, Inr (i, True)))
             | Some (i, _) \<Rightarrow> hbind (update_check (pa_float pa) hub (job_repository j) i (JObj payload) (pb_hub pb)) (\<lambda>g _. (g, Inr (i, False))))
      in case sent of
           Inl e \<Rightarrow> (pb\<lparr>pb_hub := g\<rparr>, Inl e)
         | Inr (i, created) \<Rightarrow>
             (pb\<lparr>pb_hub := g, pb_open := (pb_open pb)(check_key pa j \<mapsto> (i, cv_conclusion v \<noteq> None))\<rparr>, Inr (i, created)))"

definition publish_check :: "publish_args \<Rightarrow> 'g hub \<Rightarrow> job \<Rightarrow> 'g publisher \<Rightarrow> 'g publisher \<times> (check_error + int \<times> bool)" where
  "publish_check pa hub j pb =
     (let sha = head_sha_for (job_sha j) (job_status_sha j); v = verdict_for (pa_redaction pa) j (pa_path pa) in
      if \<not> is_repository_slug (job_repository j) then (pb, Inl (Check_Value_Error ''repository must use the owner/name format''))
      else if sha = [] then (pb, Inl (Check_Value_Error ''a check run requires a commit sha''))
      else
        hbind (held_check pa hub j sha pb) (\<lambda>pb held.
          case (held, cv_conclusion v) of
            (Some (i, True), None) \<Rightarrow> (pb, Inr (i, False))
          | _ \<Rightarrow>
              (case write_check pa hub j sha held v pb of
                 (pb, Inr r) \<Rightarrow> (pb, Inr r)
               | (pb, Inl e) \<Rightarrow>
                   if status_code e \<noteq> Some 404 then (pb, Inl e)
                   else hbind (held_check pa hub j sha (pb\<lparr>pb_open := (pb_open pb)(check_key pa j := None)\<rparr>))
                          (\<lambda>pb held. write_check pa hub j sha held v pb))))"

definition publish_quietly :: "publish_args \<Rightarrow> 'g hub option \<Rightarrow> job \<Rightarrow> 'g publisher \<Rightarrow> 'g publisher \<times> bool" where
  "publish_quietly pa hub j pb =
     (case hub of
        None \<Rightarrow> (pb, False)
      | Some h \<Rightarrow> (case publish_check pa h j pb of (pb', Inl _) \<Rightarrow> (pb', False) | (pb', Inr _) \<Rightarrow> (pb', True)))"

section \<open>What GitHub promises\<close>

record hub_check =
  hc_id :: int
  hc_repository :: string
  hc_sha :: string
  hc_name :: string
  hc_external :: string
  hc_finished :: bool

type_synonym check_identity = "string \<times> string \<times> string \<times> string"

definition check_identity :: "hub_check \<Rightarrow> check_identity" where
  "check_identity c = (hc_repository c, hc_sha c, hc_name c, hc_external c)"

definition asked_for :: "json \<Rightarrow> hub_check \<Rightarrow> bool" where
  "asked_for payload c \<longleftrightarrow>
     (\<exists>p. payload = JObj p \<and> map_of p ''name'' = Some (JStr (hc_name c)) \<and> map_of p ''external_id'' = Some (JStr (hc_external c)) \<and>
        map_of p ''head_sha'' = Some (JStr (hc_sha c)))"

definition lists :: "json \<Rightarrow> hub_check \<Rightarrow> bool" where
  "lists e c \<longleftrightarrow>
     (\<exists>entry. e = JObj entry \<and> map_of entry ''external_id'' = Some (JStr (hc_external c)) \<and> map_of entry ''id'' = Some (JInt (hc_id c)) \<and>
        (map_of entry ''status'' = Some (JStr ''completed'') \<longleftrightarrow> hc_finished c))"

definition named_checks :: "string \<Rightarrow> string \<Rightarrow> string \<Rightarrow> hub_check list \<Rightarrow> hub_check list" where
  "named_checks repository sha name cs = filter (\<lambda>c. hc_repository c = repository \<and> hc_sha c = sha \<and> hc_name c = name) cs"

text \<open>
  The checks of a state are \<open>view\<close>. A request to open a check adds that check or, refused or lost on the way,
  nothing; the reply may be lost either way. An update, which the publisher sends with the name and external id the
  check has, leaves every check what it is a check of. A listing changes nothing and, when it is answered, is a page
  of what GitHub shows of the checks of that name on that commit: \<open>shows\<close>. Without a \<open>filter\<close> that is the most recent
  ones (\<open>filter=latest\<close> is the default), so all that is asked of \<open>shows\<close> is \<open>some_shown\<close>: it shows nothing that is not
  there, in whatever order, and not nothing when there is a check.
\<close>

definition some_shown :: "(hub_check list \<Rightarrow> hub_check list) \<Rightarrow> bool" where
  "some_shown shows \<longleftrightarrow> (\<forall>cs. set (shows cs) \<subseteq> set cs \<and> (cs \<noteq> [] \<longrightarrow> shows cs \<noteq> []))"

definition honest_hub :: "'g hub \<Rightarrow> ('g \<Rightarrow> hub_check list) \<Rightarrow> (hub_check list \<Rightarrow> hub_check list) \<Rightarrow> bool" where
  "honest_hub hub view shows \<longleftrightarrow> some_shown shows \<and>
     (\<forall>g g' reply repository payload. hub g (Create_Check repository payload) = (g', reply) \<longrightarrow>
        view g' = view g \<or> (\<exists>c. view g' = view g @ [c] \<and> hc_repository c = repository \<and> asked_for payload c)) \<and>
     (\<forall>g g' reply repository i payload. hub g (Update_Check repository i payload) = (g', reply) \<longrightarrow>
        map check_identity (view g') = map check_identity (view g)) \<and>
     (\<forall>g g' reply repository sha name page. hub g (List_Checks repository sha name page) = (g', reply) \<longrightarrow>
        view g' = view g \<and>
        (\<forall>body runs. reply = Answered (Some (JObj body)) \<and> map_of body ''check_runs'' = Some (JList runs) \<longrightarrow>
           list_all2 lists runs (take PER_PAGE (drop (PER_PAGE * (page - 1)) (shows (named_checks repository sha name (view g)))))))"

definition count_checks :: "('g \<Rightarrow> hub_check list) \<Rightarrow> 'g \<Rightarrow> check_identity \<Rightarrow> nat" where
  "count_checks view g k = count_list (map check_identity (view g)) k"

lemma honest_create:
  "honest_hub hub view shows \<Longrightarrow> hub g (Create_Check repository payload) = (g', reply) \<Longrightarrow>
   view g' = view g \<or> (\<exists>c. view g' = view g @ [c] \<and> hc_repository c = repository \<and> asked_for payload c)"
  unfolding honest_hub_def by blast

lemma honest_update:
  "honest_hub hub view shows \<Longrightarrow> hub g (Update_Check repository i payload) = (g', reply) \<Longrightarrow>
   map check_identity (view g') = map check_identity (view g)"
  unfolding honest_hub_def by blast

section \<open>The client against such a GitHub\<close>

lemma find_entry_lists:
  "list_all2 lists runs cs \<Longrightarrow>
   find_entry ext runs = map_option (\<lambda>c. Inr (hc_id c, hc_finished c)) (find (\<lambda>c. hc_external c = ext) cs)"
  by (induction rule: list_all2_induct) (auto simp: lists_def)

lemma send_list:
  assumes "honest_hub hub view shows" and "send_check float hub (List_Checks repository sha name page) g = (g', r)"
  shows "view g' = view g" and "r = Inr body \<Longrightarrow> listed_runs body = Inr runs \<Longrightarrow>
    list_all2 lists runs (take PER_PAGE (drop (PER_PAGE * (page - 1)) (shows (named_checks repository sha name (view g)))))"
proof -
  obtain g1 reply where h: "hub g (List_Checks repository sha name page) = (g1, reply)"
    by (cases "hub g (List_Checks repository sha name page)")
  have laws: "view g1 = view g" "\<And>body runs. reply = Answered (Some (JObj body)) \<Longrightarrow> map_of body ''check_runs'' = Some (JList runs) \<Longrightarrow>
      list_all2 lists runs (take PER_PAGE (drop (PER_PAGE * (page - 1)) (shows (named_checks repository sha name (view g)))))"
    using assms(1) h unfolding honest_hub_def by blast+
  show "view g' = view g" using assms(2) h laws(1) by (auto simp: send_check_def split: if_splits)
  assume r: "r = Inr body" "listed_runs body = Inr runs"
  then have "read_reply float reply = Inr body" using assms(2) h by (auto simp: send_check_def split: if_splits)
  then have "reply = Answered (Some (JObj body)) \<or> reply = Answered_Empty \<and> body = []"
    by (cases "(float, reply)" rule: read_reply.cases) auto
  then show "list_all2 lists runs (take PER_PAGE (drop (PER_PAGE * (page - 1)) (shows (named_checks repository sha name (view g)))))"
    using laws(2) [of body runs] r(2) by (auto simp: listed_runs_def split: option.splits json.splits)
qed

lemma find_pages_result:
  assumes "honest_hub hub view shows" and "1 \<le> p" and "find_pages float hub repository sha name ext [p..<q] g = (g', r)"
  shows "view g' = view g \<and>
    (r = Inr None \<longrightarrow> (\<forall>c \<in> set (drop (PER_PAGE * (p - 1)) (shows (named_checks repository sha name (view g)))). hc_external c \<noteq> ext)) \<and>
    (\<forall>i b. r = Inr (Some (i, b)) \<longrightarrow> (\<exists>c \<in> set (shows (named_checks repository sha name (view g))). hc_external c = ext \<and> hc_id c = i \<and> hc_finished c = b))"
  using assms(2,3)
proof (induction "q - p" arbitrary: p g)
  case 0
  then show ?case by auto
next
  case (Suc n)
  let ?m = "\<lambda>cs. shows (named_checks repository sha name cs)"
  have split: "[p..<q] = p # [Suc p..<q]" using Suc.hyps(2) by (simp add: upt_conv_Cons)
  obtain g1 s where sent: "send_check float hub (List_Checks repository sha name p) g = (g1, s)"
    by (cases "send_check float hub (List_Checks repository sha name p) g")
  note v = send_list(1) [OF assms(1) sent]
  show ?case
  proof (cases "\<exists>body runs. s = Inr body \<and> listed_runs body = Inr runs")
    case False
    then have "(g', r) = (g1, r) \<and> (\<exists>e. r = Inl e)"
      using Suc.prems(2) sent unfolding split by (auto simp: hbind_def split: sum.splits)
    then show ?thesis using v by auto
  next
    case True
    then obtain body runs where b: "s = Inr body" "listed_runs body = Inr runs" by blast
    let ?page = "take PER_PAGE (drop (PER_PAGE * (p - 1)) (?m (view g)))"
    have shown: "list_all2 lists runs ?page" using send_list(2) [OF assms(1) sent b] .
    have found: "find_entry ext runs = map_option (\<lambda>c. Inr (hc_id c, hc_finished c)) (find (\<lambda>c. hc_external c = ext) ?page)"
      using find_entry_lists [OF shown] .
    have rec: "find_pages float hub repository sha name ext (p # [Suc p..<q]) g =
        (case find_entry ext runs of
           Some (Inl e) \<Rightarrow> (g1, Inl e) | Some (Inr f) \<Rightarrow> (g1, Inr (Some f))
         | None \<Rightarrow> if length runs < PER_PAGE then (g1, Inr None) else find_pages float hub repository sha name ext [Suc p..<q] g1)"
      by (simp add: sent hbind_def b)
    show ?thesis
    proof (cases "find (\<lambda>c. hc_external c = ext) ?page")
      case (Some c)
      then have "(g', r) = (g1, Inr (Some (hc_id c, hc_finished c)))" using Suc.prems(2) rec found unfolding split by simp
      moreover have "c \<in> set (?m (view g))" "hc_external c = ext"
        using Some by (auto simp: find_Some_iff dest!: nth_mem dest: in_set_dropD in_set_takeD)
      ultimately show ?thesis using v by auto
    next
      case None
      then have none: "\<forall>c \<in> set ?page. hc_external c \<noteq> ext" by (simp add: find_None_iff)
      have len: "length runs = length ?page" using shown by (rule list_all2_lengthD)
      show ?thesis
      proof (cases "length runs < PER_PAGE")
        case True
        then have "?page = drop (PER_PAGE * (p - 1)) (?m (view g))" using len by simp
        then show ?thesis using Suc.prems(2) rec found None True v none unfolding split by auto
      next
        case False
        then have "find_pages float hub repository sha name ext [Suc p..<q] g1 = (g', r)"
          using Suc.prems(2) rec found None unfolding split by simp
        from Suc.hyps(1) [OF _ _ this] have IH: "view g' = view g1"
            "r = Inr None \<longrightarrow> (\<forall>c \<in> set (drop (PER_PAGE * p) (?m (view g1))). hc_external c \<noteq> ext)"
            "\<forall>i b. r = Inr (Some (i, b)) \<longrightarrow> (\<exists>c \<in> set (?m (view g1)). hc_external c = ext \<and> hc_id c = i \<and> hc_finished c = b)"
          using Suc.hyps(2) by auto
        have "PER_PAGE * p = PER_PAGE * (p - 1) + PER_PAGE" using Suc.prems(1) by (cases p) auto
        then have "set (drop (PER_PAGE * (p - 1)) (?m (view g))) = set ?page \<union> set (drop (PER_PAGE * p) (?m (view g)))"
          by (metis add.commute append_take_drop_id drop_drop set_append)
        then show ?thesis using IH v none by auto
      qed
    qed
  qed
qed

definition same_place :: "check_identity \<Rightarrow> check_identity \<Rightarrow> bool" where
  "same_place k i \<longleftrightarrow> fst i = fst k \<and> fst (snd i) = fst (snd k) \<and> fst (snd (snd i)) = fst (snd (snd k))"

text \<open>The checks of the name and the commit of \<open>k\<close>, whichever run they are of.\<close>

definition checks_beside :: "('g \<Rightarrow> hub_check list) \<Rightarrow> 'g \<Rightarrow> check_identity \<Rightarrow> check_identity list" where
  "checks_beside view g k = filter (same_place k) (map check_identity (view g))"

lemma checks_beside_named:
  "checks_beside view g (repository, sha, name, ext) = map check_identity (named_checks repository sha name (view g))"
  by (simp add: checks_beside_def named_checks_def same_place_def check_identity_def filter_map comp_def conj_commute conj_left_commute)

lemma shown_subset: "honest_hub hub view shows \<Longrightarrow> set (shows cs) \<subseteq> set cs"
  by (simp add: honest_hub_def some_shown_def)

lemma something_shown: "honest_hub hub view shows \<Longrightarrow> cs \<noteq> [] \<Longrightarrow> shows cs \<noteq> []"
  by (simp add: honest_hub_def some_shown_def)

text \<open>
  What is found is there. Nothing found means that there is nothing, when every check of the name on the commit is
  the run's own.
\<close>

lemma find_check_result:
  assumes "honest_hub hub view shows" and "find_check float hub repository sha name ext g = (g', r)"
  shows "view g' = view g \<and>
    (r = Inr None \<longrightarrow> set (checks_beside view g (repository, sha, name, ext)) \<subseteq> {(repository, sha, name, ext)} \<longrightarrow>
       checks_beside view g (repository, sha, name, ext) = []) \<and>
    (\<forall>i b. r = Inr (Some (i, b)) \<longrightarrow> (\<exists>c \<in> set (view g). check_identity c = (repository, sha, name, ext) \<and> hc_id c = i \<and> hc_finished c = b))"
proof -
  let ?n = "named_checks repository sha name (view g)"
  note res = find_pages_result [OF assms(1) order_refl assms(2) [unfolded find_check_def]]
  note sub = shown_subset [OF assms(1), of ?n]
  have "?n = []" if "r = Inr None" and alone: "set (map check_identity ?n) \<subseteq> {(repository, sha, name, ext)}"
  proof (rule ccontr)
    assume "?n \<noteq> []"
    from something_shown [OF assms(1) this] obtain c where c: "c \<in> set (shows ?n)" by (meson last_in_set)
    then have "check_identity c = (repository, sha, name, ext)" using sub alone by auto
    then have "hc_external c = ext" by (simp add: check_identity_def)
    then show False using res that(1) c by auto
  qed
  moreover have "\<exists>c \<in> set (view g). check_identity c = (repository, sha, name, ext) \<and> hc_id c = i \<and> hc_finished c = b"
    if found: "r = Inr (Some (i, b))" for i b
  proof -
    from res found obtain c where c: "c \<in> set (shows ?n)" "hc_external c = ext" "hc_id c = i" "hc_finished c = b" by blast
    then show ?thesis using sub by (auto simp: named_checks_def check_identity_def)
  qed
  ultimately show ?thesis using res by (simp add: checks_beside_named)
qed

section \<open>At most one check\<close>

text \<open>The identity a publish writes to.\<close>

definition run_identity :: "publish_args \<Rightarrow> job \<Rightarrow> check_identity" where
  "run_identity pa j = (job_repository j, head_sha_for (job_sha j) (job_status_sha j), pa_name pa, job_id j)"

lemma held_check_result:
  assumes "honest_hub hub view shows" and "held_check pa hub j (head_sha_for (job_sha j) (job_status_sha j)) pb = (pb', r)"
  shows "view (pb_hub pb') = view (pb_hub pb)"
    and "r = Inr None \<Longrightarrow> set (checks_beside view (pb_hub pb) (run_identity pa j)) \<subseteq> {run_identity pa j} \<Longrightarrow>
      checks_beside view (pb_hub pb) (run_identity pa j) = []"
    and "pb_open pb (check_key pa j) = None \<Longrightarrow> r = Inr (Some (i, b)) \<Longrightarrow>
      (\<exists>c \<in> set (view (pb_hub pb)). check_identity c = run_identity pa j \<and> hc_id c = i \<and> hc_finished c = b) \<and>
      pb_open pb' (check_key pa j) = Some (i, b)"
    and "pb_open pb (check_key pa j) = Some h \<Longrightarrow> pb' = pb \<and> r = Inr (Some h)"
    and "\<exists>e. r = Inl e \<Longrightarrow> pb_open pb' = pb_open pb"
proof -
  let ?sha = "head_sha_for (job_sha j) (job_status_sha j)"
  obtain g f where f: "find_check (pa_float pa) hub (job_repository j) ?sha (pa_name pa) (job_id j) (pb_hub pb) = (g, f)"
    by (cases "find_check (pa_float pa) hub (job_repository j) ?sha (pa_name pa) (job_id j) (pb_hub pb)")
  note res = find_check_result [OF assms(1) f]
  show "view (pb_hub pb') = view (pb_hub pb)"
    using assms(2) f res by (auto simp: held_check_def split: sum.splits option.splits)
  show "checks_beside view (pb_hub pb) (run_identity pa j) = []"
    if "r = Inr None" "set (checks_beside view (pb_hub pb) (run_identity pa j)) \<subseteq> {run_identity pa j}"
    using assms(2) f res that by (auto simp: held_check_def run_identity_def split: sum.splits option.splits)
  show "(\<exists>c \<in> set (view (pb_hub pb)). check_identity c = run_identity pa j \<and> hc_id c = i \<and> hc_finished c = b) \<and>
      pb_open pb' (check_key pa j) = Some (i, b)"
    if "pb_open pb (check_key pa j) = None" "r = Inr (Some (i, b))"
    using assms(2) f res that by (auto simp: held_check_def run_identity_def split: sum.splits option.splits)
  show "pb' = pb \<and> r = Inr (Some h)" if "pb_open pb (check_key pa j) = Some h"
    using assms(2) that by (auto simp: held_check_def)
  show "pb_open pb' = pb_open pb" if "\<exists>e. r = Inl e"
    using assms(2) that by (auto simp: held_check_def split: option.splits prod.splits sum.splits)
qed

lemma payload_names:
  "map_of (check_payload pa j v annotations) ''name'' = Some (JStr (pa_name pa))"
  "map_of (check_payload pa j v annotations) ''external_id'' = Some (JStr (job_id j))"
  "map_of (check_payload pa j v annotations) ''head_sha'' = None"
  by (auto simp: check_payload_def Let_def split: option.split)

lemma send_check_hub: "fst (send_check float hub rq g) = g \<or> (\<exists>reply. hub g rq = (fst (send_check float hub rq g), reply))"
  by (auto simp: send_check_def split: prod.split)

lemma write_check_view:
  assumes "honest_hub hub view shows" and "write_check pa hub j (head_sha_for (job_sha j) (job_status_sha j)) held v pb = (pb', r)"
  shows "map check_identity (view (pb_hub pb')) = map check_identity (view (pb_hub pb)) \<or>
    held = None \<and> map check_identity (view (pb_hub pb')) = map check_identity (view (pb_hub pb)) @ [run_identity pa j]"
proof (cases held)
  case (Some h)
  obtain i b where h: "held = Some (i, b)" using Some by (cases h) auto
  let ?rq = "Update_Check (job_repository j) i (JObj (check_payload pa j v (case b of True \<Rightarrow> [] | False \<Rightarrow> cv_annotations v)))"
  have "pb_hub pb' = fst (send_check (pa_float pa) hub ?rq (pb_hub pb))"
    using assms(2) h by (auto simp: write_check_def Let_def update_check_def hbind_def split: prod.splits sum.splits)
  then have "pb_hub pb' = pb_hub pb \<or> (\<exists>reply. hub (pb_hub pb) ?rq = (pb_hub pb', reply))"
    using send_check_hub by metis
  then show ?thesis using honest_update [OF assms(1)] by metis
next
  case None
  let ?sha = "head_sha_for (job_sha j) (job_status_sha j)"
  let ?p = "JObj (check_payload pa j v (cv_annotations v) @ [(''head_sha'', JStr ?sha), (''started_at'', JStr (pa_iso pa (job_created_at j)))])"
  have "pb_hub pb' = fst (send_check (pa_float pa) hub (Create_Check (job_repository j) ?p) (pb_hub pb))"
    using assms(2) None by (auto simp: write_check_def Let_def create_check_def hbind_def split: prod.splits sum.splits option.splits json.splits)
  then have "pb_hub pb' = pb_hub pb \<or> (\<exists>reply. hub (pb_hub pb) (Create_Check (job_repository j) ?p) = (pb_hub pb', reply))"
    using send_check_hub by metis
  then have "view (pb_hub pb') = view (pb_hub pb) \<or>
      (\<exists>c. view (pb_hub pb') = view (pb_hub pb) @ [c] \<and> hc_repository c = job_repository j \<and> asked_for ?p c)"
    using honest_create [OF assms(1)] by metis
  then show ?thesis using None by (auto simp: asked_for_def payload_names check_identity_def run_identity_def)
qed


lemma checks_beside_same:
  "map check_identity (view g') = map check_identity (view g) \<Longrightarrow> checks_beside view g' k = checks_beside view g k"
  by (simp add: checks_beside_def)

lemma checks_beside_more:
  "map check_identity (view g') = map check_identity (view g) @ [i] \<Longrightarrow>
   checks_beside view g' k = checks_beside view g k @ (if same_place k i then [i] else [])"
  by (simp add: checks_beside_def)

lemma write_check_beside:
  assumes "honest_hub hub view shows" and "write_check pa hub j (head_sha_for (job_sha j) (job_status_sha j)) held v pb = (pb', r)"
    and "same_place k (run_identity pa j) \<Longrightarrow> run_identity pa j = k"
    and "held = None \<Longrightarrow> run_identity pa j = k \<Longrightarrow> checks_beside view (pb_hub pb) k = []"
    and "checks_beside view (pb_hub pb) k \<in> {[], [k]}"
  shows "checks_beside view (pb_hub pb') k \<in> {[], [k]}"
proof (cases "map check_identity (view (pb_hub pb')) = map check_identity (view (pb_hub pb))")
  case True
  then show ?thesis using assms(5) checks_beside_same by metis
next
  case False
  then have h: "held = None" "map check_identity (view (pb_hub pb')) = map check_identity (view (pb_hub pb)) @ [run_identity pa j]"
    using write_check_view [OF assms(1,2)] by blast+
  note more = checks_beside_more [of view "pb_hub pb'" "pb_hub pb", OF h(2), of k]
  show ?thesis
  proof (cases "same_place k (run_identity pa j)")
    case True
    then show ?thesis using more assms(3,4) h(1) by simp
  next
    case False
    then show ?thesis using more assms(5) by simp
  qed
qed

lemma held_check_beside:
  assumes "honest_hub hub view shows" and "held_check pa hub j (head_sha_for (job_sha j) (job_status_sha j)) pb = (pb', r)"
    and "checks_beside view (pb_hub pb) k \<in> {[], [k]}"
  shows "checks_beside view (pb_hub pb') k \<in> {[], [k]}"
    and "r = Inr None \<Longrightarrow> run_identity pa j = k \<Longrightarrow> checks_beside view (pb_hub pb') k = []"
proof -
  have same: "checks_beside view (pb_hub pb') k = checks_beside view (pb_hub pb) k"
    by (rule checks_beside_same) (simp add: held_check_result(1) [OF assms(1,2)])
  then show "checks_beside view (pb_hub pb') k \<in> {[], [k]}" using assms(3) by simp
  have alone: "set (checks_beside view (pb_hub pb) k) \<subseteq> {k}" using assms(3) by auto
  show "checks_beside view (pb_hub pb') k = []" if "r = Inr None" "run_identity pa j = k"
    using held_check_result(2) [OF assms(1,2) that(1)] alone that(2) same by simp
qed

lemma publish_check_beside:
  assumes "honest_hub hub view shows" and "same_place k (run_identity pa j) \<Longrightarrow> run_identity pa j = k"
    and "checks_beside view (pb_hub pb) k \<in> {[], [k]}"
  shows "checks_beside view (pb_hub (fst (publish_check pa hub j pb))) k \<in> {[], [k]}"
proof -
  let ?sha = "head_sha_for (job_sha j) (job_status_sha j)" and ?v = "verdict_for (pa_redaction pa) j (pa_path pa)"
  let ?pb = "\<lambda>pb. pb\<lparr>pb_open := (pb_open pb)(check_key pa j := None)\<rparr>"
  obtain pb1 h where h1: "held_check pa hub j ?sha pb = (pb1, h)" by (cases "held_check pa hub j ?sha pb")
  note c1 = held_check_beside [OF assms(1) h1 assms(3)]
  obtain pb2 w where w1: "write_check pa hub j ?sha (case h of Inr x \<Rightarrow> x | Inl _ \<Rightarrow> None) ?v pb1 = (pb2, w)"
    by (cases "write_check pa hub j ?sha (case h of Inr x \<Rightarrow> x | Inl _ \<Rightarrow> None) ?v pb1")
  have c2: "checks_beside view (pb_hub pb2) k \<in> {[], [k]}" if "h = Inr held" for held
    by (rule write_check_beside [OF assms(1) w1 assms(2)]) (use c1 that in auto)
  obtain pb3 h' where h2: "held_check pa hub j ?sha (?pb pb2) = (pb3, h')" by (cases "held_check pa hub j ?sha (?pb pb2)")
  have c3: "checks_beside view (pb_hub pb3) k \<in> {[], [k]}" "h' = Inr None \<Longrightarrow> run_identity pa j = k \<Longrightarrow> checks_beside view (pb_hub pb3) k = []"
    if "h = Inr held" for held
    using held_check_beside [OF assms(1) h2, of k] c2 [OF that] by simp_all
  obtain pb4 w' where w2: "write_check pa hub j ?sha (case h' of Inr x \<Rightarrow> x | Inl _ \<Rightarrow> None) ?v pb3 = (pb4, w')"
    by (cases "write_check pa hub j ?sha (case h' of Inr x \<Rightarrow> x | Inl _ \<Rightarrow> None) ?v pb3")
  have c4: "checks_beside view (pb_hub pb4) k \<in> {[], [k]}" if "h = Inr held" "h' = Inr held'" for held held'
    by (rule write_check_beside [OF assms(1) w2 assms(2)]) (use c3 [OF that(1)] that(2) in auto)
  show ?thesis
  proof (cases h)
    case (Inl e)
    then show ?thesis using c1 assms(3) by (simp add: publish_check_def Let_def h1 hbind_def)
  next
    case (Inr held)
    have "fst (publish_check pa hub j pb) \<in> {pb, pb1, pb2, pb3} \<union> (if \<exists>x. h' = Inr x then {pb4} else {})"
      using h1 h2 w1 w2 unfolding Inr
      by (auto simp: publish_check_def Let_def hbind_def split: prod.splits sum.splits option.splits if_splits bool.splits)
    then show ?thesis using assms(3) c1(1) c2 [OF Inr] c3(1) [OF Inr] c4 [OF Inr] by (auto split: if_splits)
  qed
qed

text \<open>
  What happens to the checks around a run's: publishes of any run in any order, each whole, with whatever replies
  GitHub gives; restarts of the broker, which forgets every check it opened; and what others do to checks, which
  updates or removes those of this name on this commit and opens none. No other run is published under this name on
  this commit.
\<close>

inductive check_reach :: "'g hub \<Rightarrow> ('g \<Rightarrow> hub_check list) \<Rightarrow> check_identity \<Rightarrow> 'g publisher \<Rightarrow> bool"
  for hub view k where
  opened: "checks_beside view g k = [] \<Longrightarrow> check_reach hub view k \<lparr>pb_open = (\<lambda>_. None), pb_hub = g\<rparr>"
| published: "check_reach hub view k pb \<Longrightarrow> (same_place k (run_identity pa j) \<Longrightarrow> run_identity pa j = k) \<Longrightarrow>
    check_reach hub view k (fst (publish_check pa hub j pb))"
| restarted: "check_reach hub view k pb \<Longrightarrow> check_reach hub view k (pb\<lparr>pb_open := (\<lambda>_. None)\<rparr>)"
| elsewhere: "check_reach hub view k pb \<Longrightarrow> checks_beside view g k \<in> {[], checks_beside view (pb_hub pb) k} \<Longrightarrow>
    check_reach hub view k (pb\<lparr>pb_hub := g\<rparr>)"

text \<open>
  C17: a run that has its check's name and its commit to itself has one check. However publishes, restarts of the broker and
  removals of checks follow each other, and whether GitHub applies, refuses or never answers each request, there is
  at most one check of that name on that commit, and it is the run's: a check is opened only after a listing without
  the run's own, also where the reply to an earlier opening was lost. Where two runs share the name and the commit it
  fails after a restart: \<open>second_run_hides_the_first\<close>.
\<close>

theorem one_check_per_run:
  assumes "honest_hub hub view shows" and "check_reach hub view k pb"
  shows "checks_beside view (pb_hub pb) k \<in> {[], [k]}"
  using assms(2)
proof (induction rule: check_reach.induct)
  case (published pb pa j)
  then show ?case using publish_check_beside [OF assms(1)] by blast
next
  case (elsewhere pb g)
  then show ?case by auto
qed simp_all

section \<open>A finished check\<close>

text \<open>What comes later: publishes of records, and restarts.\<close>

fun publish_later :: "'g hub \<Rightarrow> (publish_args \<times> job) option list \<Rightarrow> 'g publisher \<Rightarrow> 'g publisher" where
  "publish_later hub [] pb = pb"
| "publish_later hub (None # later) pb = publish_later hub later (pb\<lparr>pb_open := (\<lambda>_. None)\<rparr>)"
| "publish_later hub (Some (pa, j) # later) pb = publish_later hub later (fst (publish_check pa hub j pb))"

definition without_verdict :: "check_identity \<Rightarrow> (publish_args \<times> job) option \<Rightarrow> bool" where
  "without_verdict k step \<longleftrightarrow>
     (case step of None \<Rightarrow> True
      | Some (pa, j) \<Rightarrow> run_identity pa j = k \<and> cv_conclusion (verdict_for (pa_redaction pa) j (pa_path pa)) = None)"

definition identity_key :: "check_identity \<Rightarrow> string \<times> string \<times> string" where
  "identity_key k = (case k of (repository, sha, name, external) \<Rightarrow> (repository, external, name))"

lemma check_key_identity: "check_key pa j = identity_key (run_identity pa j)"
  by (simp add: check_key_def identity_key_def run_identity_def)

text \<open>The check \<open>i\<close> is finished on GitHub and alone there, and the broker does not remember it as unfinished.\<close>

definition settled_check :: "('g \<Rightarrow> hub_check list) \<Rightarrow> check_identity \<Rightarrow> int \<Rightarrow> 'g publisher \<Rightarrow> bool" where
  "settled_check view k i pb \<longleftrightarrow>
     (\<exists>c \<in> set (view (pb_hub pb)). check_identity c = k \<and> hc_id c = i \<and> hc_finished c) \<and> checks_beside view (pb_hub pb) k = [k] \<and>
     pb_open pb (identity_key k) \<in> {None, Some (i, True)}"

lemma beside_unique:
  assumes "checks_beside view g k = [k]" and "c \<in> set (view g)" "check_identity c = k" and "c' \<in> set (view g)" "check_identity c' = k"
  shows "c' = c"
proof (rule ccontr)
  assume "c' \<noteq> c"
  obtain xs ys where xs: "view g = xs @ c # ys" using assms(2) by (meson in_set_conv_decomp)
  have self: "same_place k k" by (simp add: same_place_def)
  have "k \<in> set (filter (same_place k) (map check_identity xs)) \<or> k \<in> set (filter (same_place k) (map check_identity ys))"
    using assms(4,5) \<open>c' \<noteq> c\<close> xs self by force
  moreover have "filter (same_place k) (map check_identity xs) @ k # filter (same_place k) (map check_identity ys) = [k]"
    using assms(1,3) xs self by (simp add: checks_beside_def)
  ultimately show False by (cases "filter (same_place k) (map check_identity xs)") (simp_all del: filter_set set_filter)
qed

lemma settled_publish:
  assumes "honest_hub hub view shows" and "settled_check view k i pb" and "run_identity pa j = k"
    and "cv_conclusion (verdict_for (pa_redaction pa) j (pa_path pa)) = None" and "publish_check pa hub j pb = (pb', r)"
  shows "view (pb_hub pb') = view (pb_hub pb)" and "settled_check view k i pb'" and "r = Inr (i, False) \<or> (\<exists>e. r = Inl e)"
proof -
  let ?sha = "head_sha_for (job_sha j) (job_status_sha j)"
  obtain c where c: "c \<in> set (view (pb_hub pb))" "check_identity c = k" "hc_id c = i" "hc_finished c"
    and one: "checks_beside view (pb_hub pb) k = [k]" and memory: "pb_open pb (identity_key k) \<in> {None, Some (i, True)}"
    using assms(2) unfolding settled_check_def by (elim conjE bexE)
  have key: "check_key pa j = identity_key k" using assms(3) by (simp add: check_key_identity)
  obtain pb1 h where h1: "held_check pa hub j ?sha pb = (pb1, h)" by (cases "held_check pa hub j ?sha pb")
  note f = held_check_result [OF assms(1) h1]
  have "h = Inr (Some (i, True)) \<and> pb_open pb1 (identity_key k) = Some (i, True) \<or> (\<exists>e. h = Inl e) \<and> pb_open pb1 = pb_open pb"
  proof (cases h)
    case (Inr held)
    have "held \<noteq> None"
    proof
      assume "held = None"
      then have "h = Inr None" using Inr by simp
      from f(2) [OF this] one assms(3) show False by simp
    qed
    then obtain i' b where ib: "held = Some (i', b)" by (metis option.exhaust surj_pair)
    show ?thesis
    proof (cases "pb_open pb (identity_key k)")
      case None
      then have "\<exists>c' \<in> set (view (pb_hub pb)). check_identity c' = k \<and> hc_id c' = i' \<and> hc_finished c' = b"
        and m: "pb_open pb1 (identity_key k) = Some (i', b)"
        using f(3) [of i' b] Inr ib key assms(3) by auto
      then have "i' = i" "b = True" using beside_unique [OF one c(1,2)] c(3,4) by blast+
      then show ?thesis using Inr ib m by simp
    next
      case (Some x)
      then have "pb1 = pb" "h = Inr (Some x)" using f(4) [of x] key by auto
      then show ?thesis using memory Some by auto
    qed
  next
    case (Inl e)
    then show ?thesis using f(5) by simp
  qed
  moreover have "publish_check pa hub j pb =
      (if \<not> is_repository_slug (job_repository j) then (pb, Inl (Check_Value_Error ''repository must use the owner/name format''))
       else if ?sha = [] then (pb, Inl (Check_Value_Error ''a check run requires a commit sha''))
       else (pb1, Inr (i, False)))" if "h = Inr (Some (i, True))"
    using assms(4) h1 that by (simp add: publish_check_def Let_def hbind_def)
  moreover have "pb' \<in> {pb, pb1} \<and> (\<exists>e. r = Inl e)" if "h = Inl e" for e
    using assms(5) h1 that by (auto simp: publish_check_def Let_def hbind_def split: if_splits)
  ultimately have "(pb' = pb \<or> pb' = pb1) \<and> pb_open pb' (identity_key k) \<in> {None, Some (i, True)} \<and> (r = Inr (i, False) \<or> (\<exists>e. r = Inl e))"
    using assms(5) memory by (auto split: if_splits)
  then show "view (pb_hub pb') = view (pb_hub pb)" "settled_check view k i pb'" "r = Inr (i, False) \<or> (\<exists>e. r = Inl e)"
    using assms(2) f(1) unfolding settled_check_def checks_beside_def by auto
qed

lemma settled_restart: "settled_check view k i pb \<Longrightarrow> settled_check view k i (pb\<lparr>pb_open := (\<lambda>_. None)\<rparr>)"
  by (simp add: settled_check_def)

text \<open>
  C18: a finished check stays finished. Once the one check of its name on its commit is the run's and GitHub shows it
  completed, publishing records of the run that have no verdict yet, as often as may be and with restarts of the
  broker between them, changes nothing on GitHub, provided that the broker does not remember the check as unfinished,
  which it does only when the reply to the update that completed it was lost: \<open>lost_reply_reopens_the_check\<close>.
\<close>

theorem finished_check_stays_finished:
  assumes "honest_hub hub view shows" and "settled_check view k i pb" and "\<forall>step \<in> set later. without_verdict k step"
  shows "view (pb_hub (publish_later hub later pb)) = view (pb_hub pb) \<and> settled_check view k i (publish_later hub later pb)"
  using assms(2,3)
proof (induction later arbitrary: pb)
  case (Cons step later)
  have rest: "\<forall>step \<in> set later. without_verdict k step" using Cons.prems(2) by simp
  show ?case
  proof (cases step)
    case None
    from Cons.IH [OF settled_restart [OF Cons.prems(1)] rest] show ?thesis using None by simp
  next
    case (Some pj)
    obtain pa j where pj: "pj = (pa, j)" by (cases pj)
    obtain pb' r where p: "publish_check pa hub j pb = (pb', r)" by (cases "publish_check pa hub j pb")
    have "run_identity pa j = k" "cv_conclusion (verdict_for (pa_redaction pa) j (pa_path pa)) = None"
      using Cons.prems(2) Some pj by (auto simp: without_verdict_def)
    note one = settled_publish [OF assms(1) Cons.prems(1) this p]
    from Cons.IH [OF one(2) rest] show ?thesis using one(1) Some pj p by simp
  qed
qed simp

section \<open>A concrete GitHub\<close>

fun completes :: "json \<Rightarrow> bool" where
  "completes (JObj p) \<longleftrightarrow> map_of p ''status'' = Some (JStr ''completed'')"
| "completes _ \<longleftrightarrow> False"

definition rendered_check :: "hub_check \<Rightarrow> json" where
  "rendered_check c =
     JObj [(''id'', JInt (hc_id c)), (''external_id'', JStr (hc_external c)),
           (''status'', JStr (if hc_finished c then ''completed'' else ''queued''))]"

text \<open>\<open>filter=latest\<close>: of the checks of a name on a commit, the one opened last.\<close>

definition most_recent :: "hub_check list \<Rightarrow> hub_check list" where
  "most_recent cs = (if cs = [] then [] else [last cs])"

fun example_hub :: "hub_check list hub" where
  "example_hub cs (Create_Check repository (JObj p)) =
     (case (map_of p ''head_sha'', map_of p ''name'', map_of p ''external_id'') of
        (Some (JStr sha), Some (JStr name), Some (JStr ext)) \<Rightarrow>
          (cs @ [\<lparr>hc_id = int (length cs), hc_repository = repository, hc_sha = sha, hc_name = name, hc_external = ext, hc_finished = completes (JObj p)\<rparr>],
           Answered (Some (JObj [(''id'', JInt (int (length cs)))])))
      | _ \<Rightarrow> (cs, Http_Refused 422 [] None))"
| "example_hub cs (Create_Check repository _) = (cs, Http_Refused 400 [] None)"
| "example_hub cs (Update_Check repository i p) =
     (map (\<lambda>c. if hc_id c = i then c\<lparr>hc_finished := completes p\<rparr> else c) cs, Answered_Empty)"
| "example_hub cs (List_Checks repository sha name page) =
     (cs, Answered (Some (JObj [(''check_runs'',
        JList (map rendered_check (take PER_PAGE (drop (PER_PAGE * (page - 1)) (most_recent (named_checks repository sha name cs))))))])))"

lemma example_hub_honest: "honest_hub example_hub (\<lambda>cs. cs) most_recent"
proof -
  have l: "list_all2 lists (map rendered_check cs) cs" for cs
    by (induction cs) (auto simp: rendered_check_def lists_def)
  have c: "example_hub cs (Create_Check repository payload) = (cs', reply) \<Longrightarrow>
      cs' = cs \<or> (\<exists>c. cs' = cs @ [c] \<and> hc_repository c = repository \<and> asked_for payload c)" for cs cs' reply repository payload
    by (cases payload) (auto simp: asked_for_def split: option.splits json.splits)
  have u: "map check_identity (map (\<lambda>c. if hc_id c = i then c\<lparr>hc_finished := b\<rparr> else c) cs) = map check_identity cs" for i b cs
    by (simp add: check_identity_def)
  have s: "some_shown most_recent" by (simp add: some_shown_def most_recent_def)
  show ?thesis unfolding honest_hub_def using c u l s by auto
qed

definition example_args :: publish_args where
  "example_args = \<lparr>pa_redaction = example_redaction, pa_float = (\<lambda>_. None), pa_iso = (\<lambda>_. []), pa_name = DEFAULT_CHECK_NAME, pa_target = [],
     pa_path = [], pa_now = 0\<rparr>"

definition example_finished :: hub_check where
  "example_finished = \<lparr>hc_id = 7, hc_repository = ''o/r'', hc_sha = ''c0ffee'', hc_name = DEFAULT_CHECK_NAME, hc_external = ''j1'', hc_finished = True\<rparr>"

section \<open>What the default filter and a lost reply cost\<close>

definition publishable :: "job \<Rightarrow> bool" where
  "publishable j \<longleftrightarrow> is_repository_slug (job_repository j) \<and> head_sha_for (job_sha j) (job_status_sha j) \<noteq> []"

definition opened_check :: "publish_args \<Rightarrow> job \<Rightarrow> int \<Rightarrow> hub_check" where
  "opened_check pa j i =
     \<lparr>hc_id = i, hc_repository = job_repository j, hc_sha = head_sha_for (job_sha j) (job_status_sha j), hc_name = pa_name pa,
      hc_external = job_id j, hc_finished = cv_conclusion (verdict_for (pa_redaction pa) j (pa_path pa)) \<noteq> None\<rparr>"

lemma payload_completes: "map_of (check_payload pa j v annotations @ [(head_sha, a), (started_at, b)]) ''status'' = Some (JStr ''completed'') \<longleftrightarrow> cv_conclusion v \<noteq> None"
  "completes (JObj (check_payload pa j v annotations)) \<longleftrightarrow> cv_conclusion v \<noteq> None"
  by (auto simp: check_payload_def Let_def split: option.split)

text \<open>A run whose check is not the most recent of its name on its commit, and not remembered, gets a new one.\<close>

lemma hidden_check_is_opened_again:
  assumes "publishable j" and "pb_open pb (check_key pa j) = None"
    and "\<forall>c \<in> set (most_recent (named_checks (job_repository j) (head_sha_for (job_sha j) (job_status_sha j)) (pa_name pa) (pb_hub pb))).
      hc_external c \<noteq> job_id j"
  shows "pb_hub (fst (publish_check pa example_hub j pb)) = pb_hub pb @ [opened_check pa j (int (length (pb_hub pb)))]"
    and "key \<noteq> check_key pa j \<Longrightarrow> pb_open (fst (publish_check pa example_hub j pb)) key = pb_open pb key"
proof -
  let ?sha = "head_sha_for (job_sha j) (job_status_sha j)" and ?v = "verdict_for (pa_redaction pa) j (pa_path pa)"
  let ?p = "check_payload pa j ?v (cv_annotations ?v) @ [(''head_sha'', JStr ?sha), (''started_at'', JStr (pa_iso pa (job_created_at j)))]"
  have slug: "is_repository_slug (job_repository j)" and sha: "?sha \<noteq> []" using assms(1) by (simp_all add: publishable_def)
  let ?runs = "most_recent (named_checks (job_repository j) ?sha (pa_name pa) (pb_hub pb))"
  have short: "length ?runs < PER_PAGE" by (simp add: most_recent_def PER_PAGE_def)
  have "find_entry (job_id j) (map rendered_check ?runs) = None"
    using assms(3) by (auto simp: most_recent_def rendered_check_def)
  then have "find_check (pa_float pa) example_hub (job_repository j) ?sha (pa_name pa) (job_id j) (pb_hub pb) = (pb_hub pb, Inr None)"
    using short slug by (simp add: find_check_def MAX_FIND_PAGES_def upt_conv_Cons send_check_def hbind_def listed_runs_def)
  then have held: "held_check pa example_hub j ?sha pb = (pb, Inr None)" using assms(2) by (simp add: held_check_def)
  have names: "map_of ?p ''head_sha'' = Some (JStr ?sha)" "map_of ?p ''name'' = Some (JStr (pa_name pa))"
      "map_of ?p ''external_id'' = Some (JStr (job_id j))"
    by (simp_all add: map_of_append payload_names map_add_def)
  have finished: "completes (JObj ?p) \<longleftrightarrow> cv_conclusion ?v \<noteq> None" by (simp only: completes.simps payload_completes(1))
  have "example_hub (pb_hub pb) (Create_Check (job_repository j) (JObj ?p)) =
      (pb_hub pb @ [opened_check pa j (int (length (pb_hub pb)))], Answered (Some (JObj [(''id'', JInt (int (length (pb_hub pb))))])))"
    by (subst example_hub.simps(1)) (simp only: names finished option.case json.case prod.case opened_check_def)
  then have made: "create_check (pa_float pa) example_hub (job_repository j) (JObj ?p) (pb_hub pb) =
      (pb_hub pb @ [opened_check pa j (int (length (pb_hub pb)))], Inr (int (length (pb_hub pb))))"
    using slug by (simp add: create_check_def send_check_def hbind_def del: example_hub.simps)
  show "pb_hub (fst (publish_check pa example_hub j pb)) = pb_hub pb @ [opened_check pa j (int (length (pb_hub pb)))]"
    and "key \<noteq> check_key pa j \<Longrightarrow> pb_open (fst (publish_check pa example_hub j pb)) key = pb_open pb key"
    using held made slug sha by (simp_all add: publish_check_def write_check_def hbind_def Let_def)
qed

text \<open>
  Two runs of one commit under one name, and a restart: the newer run's check is all the listing shows, and the
  older run, published again, opens a second check. The other stays as it was.
\<close>

lemma second_run_hides_the_first:
  assumes "publishable j" and "publishable j'" and "job_repository j' = job_repository j"
    and "head_sha_for (job_sha j') (job_status_sha j') = head_sha_for (job_sha j) (job_status_sha j)" and "job_id j' \<noteq> job_id j"
  shows "pb_hub (publish_later example_hub [Some (pa, j), Some (pa, j'), None, Some (pa, j)] \<lparr>pb_open = (\<lambda>_. None), pb_hub = []\<rparr>) =
    [opened_check pa j 0, opened_check pa j' 1, opened_check pa j 2]"
proof -
  let ?pb0 = "\<lparr>pb_open = (\<lambda>_. None), pb_hub = []\<rparr> :: hub_check list publisher"
  let ?sha = "head_sha_for (job_sha j) (job_status_sha j)"
  define pb1 where "pb1 = fst (publish_check pa example_hub j ?pb0)"
  define pb2 where "pb2 = fst (publish_check pa example_hub j' pb1)"
  have k: "check_key pa j' \<noteq> check_key pa j" using assms(5) by (simp add: check_key_def)
  have one: "pb_hub pb1 = [opened_check pa j 0]" "pb_open pb1 (check_key pa j') = None"
    using hidden_check_is_opened_again [OF assms(1), of ?pb0 pa] k by (simp_all add: pb1_def most_recent_def named_checks_def)
  have two: "pb_hub pb2 = [opened_check pa j 0, opened_check pa j' 1]"
    using hidden_check_is_opened_again(1) [OF assms(2) one(2)] one(1) assms(5)
    by (simp add: pb2_def most_recent_def named_checks_def opened_check_def assms(3,4))
  have "pb_hub (fst (publish_check pa example_hub j (pb2\<lparr>pb_open := (\<lambda>_. None)\<rparr>))) =
      [opened_check pa j 0, opened_check pa j' 1, opened_check pa j 2]"
    using hidden_check_is_opened_again(1) [OF assms(1), of "pb2\<lparr>pb_open := (\<lambda>_. None)\<rparr>" pa] two assms(5)
    by (simp add: most_recent_def named_checks_def opened_check_def assms(3,4))
  then show ?thesis by (simp add: pb1_def pb2_def)
qed

text \<open>
  A check that is finished on GitHub and remembered as unfinished, which is what a lost reply to the completing
  update leaves, is put back by the next record of the run without a verdict.
\<close>

lemma lost_reply_reopens_the_check:
  assumes "publishable j" and "pb_open pb (check_key pa j) = Some (i, False)"
    and "cv_conclusion (verdict_for (pa_redaction pa) j (pa_path pa)) = None" and "c \<in> set (pb_hub pb)" "hc_id c = i" "hc_finished c"
  shows "c\<lparr>hc_finished := False\<rparr> \<in> set (pb_hub (fst (publish_check pa example_hub j pb)))"
proof -
  let ?sha = "head_sha_for (job_sha j) (job_status_sha j)" and ?v = "verdict_for (pa_redaction pa) j (pa_path pa)"
  have slug: "is_repository_slug (job_repository j)" and sha: "?sha \<noteq> []" using assms(1) by (simp_all add: publishable_def)
  have held: "held_check pa example_hub j ?sha pb = (pb, Inr (Some (i, False)))" using assms(2) by (simp add: held_check_def)
  have open_again: "\<not> completes (JObj (check_payload pa j ?v annotations))" for annotations
    using payload_completes(2) assms(3) by blast
  have "pb_hub (fst (publish_check pa example_hub j pb)) = map (\<lambda>c. if hc_id c = i then c\<lparr>hc_finished := False\<rparr> else c) (pb_hub pb)"
    using held slug sha assms(3) open_again
    by (simp add: publish_check_def write_check_def update_check_def send_check_def hbind_def Let_def del: completes.simps)
  then show ?thesis using assms(4,5) by auto
qed

section \<open>Witnesses\<close>

theorem one_check_per_run_witness:
  "checks_beside (\<lambda>cs. cs)
     (pb_hub (fst (publish_check example_args example_hub (row_job example_row)
        ((fst (publish_check example_args example_hub (row_job example_row) \<lparr>pb_open = (\<lambda>_. None), pb_hub = []\<rparr>))\<lparr>pb_open := (\<lambda>_. None)\<rparr>))))
     (run_identity example_args (row_job example_row)) \<in> {[], [run_identity example_args (row_job example_row)]}"
proof (rule one_check_per_run [OF example_hub_honest])
  show "check_reach example_hub (\<lambda>cs. cs) (run_identity example_args (row_job example_row))
        (fst (publish_check example_args example_hub (row_job example_row)
        ((fst (publish_check example_args example_hub (row_job example_row) \<lparr>pb_open = (\<lambda>_. None), pb_hub = []\<rparr>))\<lparr>pb_open := (\<lambda>_. None)\<rparr>)))"
    by (intro check_reach.published check_reach.restarted check_reach.opened) (simp_all add: checks_beside_def)
qed

theorem finished_check_stays_finished_witness:
  "pb_hub (publish_later example_hub [Some (example_args, row_job example_row), None, Some (example_args, row_job example_row)]
     \<lparr>pb_open = (\<lambda>_. None), pb_hub = [example_finished]\<rparr>) = [example_finished]"
proof -
  let ?j = "row_job example_row" and ?pb = "\<lparr>pb_open = (\<lambda>_. None), pb_hub = [example_finished]\<rparr>"
  let ?later = "[Some (example_args, ?j), None, Some (example_args, ?j)]"
  have i: "check_identity example_finished = run_identity example_args ?j"
    by (simp add: check_identity_def run_identity_def example_finished_def example_args_def example_row_def new_row_def row_job_def head_sha_for_def)
  have p: "cv_conclusion (verdict_for (pa_redaction example_args) ?j (pa_path example_args)) = None"
    by (simp add: verdict_for_def Let_def conclusion_of_state state_for_def example_row_def new_row_def row_job_def)
  have s: "settled_check (\<lambda>cs. cs) (run_identity example_args ?j) 7 ?pb"
    using i by (simp add: settled_check_def checks_beside_def same_place_def) (simp add: example_finished_def)
  have l: "\<forall>step \<in> set ?later. without_verdict (run_identity example_args ?j) step" using p by (simp add: without_verdict_def)
  show ?thesis using finished_check_stays_finished [OF example_hub_honest s l] by simp
qed

end
