(* ===== verification/Cache_Archive.thy ===== *)
theory Cache_Archive
  imports Run_Contract
begin

text \<open>
  The archive of a cached directory (\<open>cache_adapters.py\<close>): the walk that packs it, within the limits on files and
  bytes, and the extraction that restores it into a fresh directory. The bytes of a tar file are the standard
  library's; an archive here is the list of its members. Shown are that an extraction stays inside its directory
  and its limits whatever the archive holds, and that packing and extracting a directory restores it.
\<close>

section \<open>Limits and trees\<close>

definition MAX_CACHE_BLOB_BYTES :: int where "MAX_CACHE_BLOB_BYTES = 256 * 1024 * 1024"
definition MAX_RESTORED_CACHE_BYTES :: int where "MAX_RESTORED_CACHE_BYTES = 2 * 1024 * 1024 * 1024"
definition MAX_CACHE_FILES :: nat where "MAX_CACHE_FILES = 100000"
definition MAX_ARCHIVE_CONTENT_BYTES :: int where
  "MAX_ARCHIVE_CONTENT_BYTES = MAX_CACHE_BLOB_BYTES - 1024 * int MAX_CACHE_FILES"

datatype archive_error = Cache_Archive_Error string | Archive_OS_Error string | Zlib_Error string

text \<open>A directory's entries: a regular file with whether a bit of its mode makes it executable, a directory, or anything else.\<close>

datatype node = Regular string bool | Directory "(string \<times> node) list" | Special

type_synonym entries = "(string \<times> node) list"
type_synonym path = "string list"
type_synonym packed_file = "path \<times> string \<times> bool"

text \<open>
  Reading a member yields its bytes, or nothing to read from, or stops in compressed data that is broken, which is a
  \<open>zlib.error\<close> and none of the errors of the tar library. The members of an archive are those up to the first whose
  data is broken.
\<close>

datatype member_data = Data string | No_Data | Broken_Data string

datatype member_kind = Dir_Member | File_Member | Other_Member

record member =
  tm_name :: string
  tm_kind :: member_kind
  tm_size :: int
  tm_content :: member_data
  tm_executable :: bool

section \<open>Packing\<close>

definition sub_dirs :: "path \<Rightarrow> entries \<Rightarrow> path list" where
  "sub_dirs p es = List.map_filter (\<lambda>(n, node). case node of Directory _ \<Rightarrow> Some (p @ [n]) | _ \<Rightarrow> None) es"

definition sub_files :: "path \<Rightarrow> entries \<Rightarrow> packed_file list" where
  "sub_files p es = List.map_filter (\<lambda>(n, node). case node of Regular c x \<Rightarrow> Some (p @ [n], c, x) | _ \<Rightarrow> None) es"

text \<open>\<open>os.walk\<close> from the top down: what each directory holds, before what its directories hold.\<close>

function visits_below :: "path \<Rightarrow> entries \<Rightarrow> (path list \<times> packed_file list) list" where
  "visits_below p [] = []"
| "visits_below p ((n, Directory es') # es) =
     (sub_dirs (p @ [n]) es', sub_files (p @ [n]) es') # visits_below (p @ [n]) es' @ visits_below p es"
| "visits_below p ((n, Regular c x) # es) = visits_below p es"
| "visits_below p ((n, Special) # es) = visits_below p es"
  by pat_completeness auto

termination
  by (relation "measure (\<lambda>(_, es). size (Directory es))") auto

definition visits :: "entries \<Rightarrow> (path list \<times> packed_file list) list" where
  "visits es = (sub_dirs [] es, sub_files [] es) # visits_below [] es"

fun take_files :: "nat \<Rightarrow> packed_file list \<Rightarrow> int \<Rightarrow> packed_file list \<Rightarrow> archive_error + packed_file list \<times> int" where
  "take_files dirs taken bytes [] = Inr (taken, bytes)"
| "take_files dirs taken bytes ((p, c, x) # rest) =
     (let taken' = taken @ [(p, c, x)]; bytes' = bytes + int (length c); count = length taken' + dirs
      in if count > MAX_CACHE_FILES \<or> bytes' + 1024 * int count > MAX_ARCHIVE_CONTENT_BYTES
         then Inl (Cache_Archive_Error ''cache directory exceeds archive limits'')
         else take_files dirs taken' bytes' rest)"

fun gather :: "(path list \<times> packed_file list) list \<Rightarrow> path list \<Rightarrow> packed_file list \<Rightarrow> int \<Rightarrow> archive_error + path list \<times> packed_file list" where
  "gather [] dirs files bytes =
     (if length files + length dirs > MAX_CACHE_FILES then Inl (Cache_Archive_Error ''cache directory exceeds the file-count limit'')
      else Inr (dirs, files))"
| "gather ((ds, fs) # rest) dirs files bytes =
     (if length files + length (dirs @ ds) > MAX_CACHE_FILES then Inl (Cache_Archive_Error ''cache directory exceeds the file-count limit'')
      else rbind (take_files (length (dirs @ ds)) files bytes fs) (\<lambda>(files', bytes'). gather rest (dirs @ ds) files' bytes'))"

definition posix :: "path \<Rightarrow> string" where
  "posix p = join_with ''/'' p"

definition dir_member :: "path \<Rightarrow> member" where
  "dir_member p = \<lparr>tm_name = posix p, tm_kind = Dir_Member, tm_size = 0, tm_content = No_Data, tm_executable = True\<rparr>"

definition file_member :: "packed_file \<Rightarrow> member" where
  "file_member f =
     (case f of (p, c, x) \<Rightarrow>
        \<lparr>tm_name = posix p, tm_kind = File_Member, tm_size = int (length c), tm_content = Data c, tm_executable = x\<rparr>)"

definition write_archive :: "entries \<Rightarrow> archive_error + member list" where
  "write_archive es =
     rbind (gather (visits es) [] [] 0) (\<lambda>(dirs, files). Inr (map dir_member dirs @ map file_member files))"

text \<open>\<open>create_archive\<close>: an archive of a directory is worth storing if a file of it is not empty.\<close>

definition worth_storing :: "member list \<Rightarrow> bool" where
  "worth_storing ms \<longleftrightarrow> list_ex (\<lambda>m. tm_kind m = File_Member \<and> tm_size m > 0) ms"

definition create_archive :: "entries option \<Rightarrow> archive_error + (member list \<times> bool)" where
  "create_archive directory =
     (case directory of
        None \<Rightarrow> Inr ([], False)
      | Some es \<Rightarrow> rbind (write_archive es) (\<lambda>ms. Inr (ms, worth_storing ms)))"

section \<open>Extraction\<close>

text \<open>The directories and files under the destination, by their paths from it.\<close>

record tree =
  tr_dirs :: "path list"
  tr_files :: "packed_file list"

definition empty_tree :: tree where "empty_tree = \<lparr>tr_dirs = [], tr_files = []\<rparr>"

definition is_file_at :: "tree \<Rightarrow> path \<Rightarrow> bool" where
  "is_file_at t p \<longleftrightarrow> p \<in> fst ` set (tr_files t)"

definition parents :: "path \<Rightarrow> path list" where
  "parents p = filter (\<lambda>q. q \<noteq> []) (prefixes p)"

text \<open>\<open>mkdir(parents=True, exist_ok=True)\<close> of a path.\<close>

definition make_dirs :: "path \<Rightarrow> tree \<Rightarrow> archive_error + tree" where
  "make_dirs p t =
     (if list_ex (is_file_at t) (parents p) then Inl (Archive_OS_Error ''file exists'')
      else Inr (t\<lparr>tr_dirs := tr_dirs t @ filter (\<lambda>q. q \<notin> set (tr_dirs t)) (parents p)\<rparr>))"

definition make_file :: "path \<Rightarrow> string \<Rightarrow> bool \<Rightarrow> tree \<Rightarrow> archive_error + tree" where
  "make_file p c x t =
     rbind (make_dirs (butlast p) t) (\<lambda>t.
       if p \<in> set (tr_dirs t) \<or> is_file_at t p then Inl (Archive_OS_Error ''file exists'')
       else Inr (t\<lparr>tr_files := tr_files t @ [(p, c, x)]\<rparr>))"

definition extract_member :: "member \<Rightarrow> nat \<times> int \<times> tree \<Rightarrow> archive_error + nat \<times> int \<times> tree" where
  "extract_member m st =
     (case st of (count, bytes, t) \<Rightarrow>
        (let count' = count + 1; parts = path_parts (tm_name m) in
         if count' > MAX_CACHE_FILES \<or> tm_size m < 0 then Inl (Cache_Archive_Error ''cache archive exceeds extraction limits'')
         else if prefix ''/'' (tm_name m) \<or> ''..'' \<in> set parts \<or> parts = []
         then Inl (Cache_Archive_Error ''cache archive contains an unsafe path'')
         else case tm_kind m of
                Other_Member \<Rightarrow> Inl (Cache_Archive_Error ''cache archive contains an unsupported file type'')
              | Dir_Member \<Rightarrow> rbind (make_dirs parts t) (\<lambda>t. Inr (count', bytes, t))
              | File_Member \<Rightarrow>
                  (let bytes' = bytes + tm_size m in
                   if bytes' > MAX_RESTORED_CACHE_BYTES then Inl (Cache_Archive_Error ''cache archive expands beyond the extraction limit'')
                   else case tm_content m of
                          No_Data \<Rightarrow> Inl (Cache_Archive_Error ''cache archive entry could not be read'')
                        | Broken_Data e \<Rightarrow> rbind (make_file parts [] (tm_executable m) t) (\<lambda>_. Inl (Zlib_Error e))
                        | Data c \<Rightarrow> rbind (make_file parts c (tm_executable m) t) (\<lambda>t. Inr (count', bytes', t)))))"

fun extract_members :: "member list \<Rightarrow> nat \<times> int \<times> tree \<Rightarrow> archive_error + nat \<times> int \<times> tree" where
  "extract_members [] st = Inr st"
| "extract_members (m # ms) st = rbind (extract_member m st) (extract_members ms)"

definition extract_archive :: "member list \<Rightarrow> archive_error + tree" where
  "extract_archive ms = rbind (extract_members ms (0, 0, empty_tree)) (\<lambda>(_, _, t). Inr t)"

text \<open>\<open>restore_archive\<close>: the destination is replaced once the whole archive has been extracted beside it.\<close>

definition restore_archive :: "(archive_error + member list) \<Rightarrow> tree option \<Rightarrow> tree option \<times> (archive_error + unit)" where
  "restore_archive opened destination =
     (case rbind opened extract_archive of Inl e \<Rightarrow> (destination, Inl e) | Inr t \<Rightarrow> (Some t, Inr ()))"

section \<open>Extraction is contained\<close>

definition part_ok :: "string \<Rightarrow> bool" where
  "part_ok c \<longleftrightarrow> c \<noteq> [] \<and> c \<noteq> ''.'' \<and> c \<noteq> ''..'' \<and> CHR ''/'' \<notin> set c"

definition path_ok :: "path \<Rightarrow> bool" where
  "path_ok p \<longleftrightarrow> p \<noteq> [] \<and> list_all part_ok p"

text \<open>
  A tree inside its directory: every path goes down from it, no path is two things, and what holds a path is a
  directory of the tree.
\<close>

definition tree_ok :: "tree \<Rightarrow> bool" where
  "tree_ok t \<longleftrightarrow>
     (\<forall>p \<in> set (tr_dirs t) \<union> fst ` set (tr_files t). path_ok p \<and> set (parents (butlast p)) \<subseteq> set (tr_dirs t)) \<and>
     distinct (map fst (tr_files t)) \<and> set (tr_dirs t) \<inter> fst ` set (tr_files t) = {}"

definition tree_bytes :: "tree \<Rightarrow> int" where
  "tree_bytes t = sum_list (map (\<lambda>(_, c, _). int (length c)) (tr_files t))"

lemma parents_iff: "q \<in> set (parents p) \<longleftrightarrow> q \<noteq> [] \<and> prefix q p"
  by (auto simp: parents_def)

lemma path_ok_parent: "path_ok p \<Longrightarrow> q \<in> set (parents p) \<Longrightarrow> path_ok q"
  by (auto simp: parents_iff path_ok_def prefix_def)

lemma parents_trans: "q \<in> set (parents p) \<Longrightarrow> set (parents (butlast q)) \<subseteq> set (parents p)"
  by (auto simp: parents_iff) (meson prefix_order.trans prefixeq_butlast)

lemma make_dirs_ok:
  assumes "make_dirs p t = Inr t'" and "tree_ok t" and "p = [] \<or> path_ok p"
  shows "tree_ok t'" and "tr_files t' = tr_files t" and "set (tr_dirs t') = set (tr_dirs t) \<union> set (parents p)"
proof -
  have t': "t' = t\<lparr>tr_dirs := tr_dirs t @ filter (\<lambda>q. q \<notin> set (tr_dirs t)) (parents p)\<rparr>" and free: "\<not> list_ex (is_file_at t) (parents p)"
    using assms(1) by (auto simp: make_dirs_def split: if_splits)
  show "tr_files t' = tr_files t" "set (tr_dirs t') = set (tr_dirs t) \<union> set (parents p)" by (auto simp: t')
  have "path_ok q" if "q \<in> set (parents p)" for q using that assms(3) path_ok_parent by (auto simp: parents_iff)
  then show "tree_ok t'"
    using assms(2) free parents_trans unfolding tree_ok_def t'
    by (auto simp: list_ex_iff is_file_at_def) blast+
qed

lemma path_ok_butlast: "path_ok p \<Longrightarrow> butlast p = [] \<or> path_ok (butlast p)"
  by (cases p rule: rev_cases) (auto simp: path_ok_def)

lemma make_file_ok:
  assumes "make_file p c x t = Inr t'" and "tree_ok t" and "path_ok p"
  shows "tree_ok t'" and "tr_files t' = tr_files t @ [(p, c, x)]"
proof -
  obtain t1 where t1: "make_dirs (butlast p) t = Inr t1" and new: "p \<notin> set (tr_dirs t1)" "\<not> is_file_at t1 p"
      and t1eq: "t' = t1\<lparr>tr_files := tr_files t1 @ [(p, c, x)]\<rparr>"
    using assms(1) by (auto simp: make_file_def rbind_Inr_conv split: if_splits)
  note ok = make_dirs_ok [OF t1 assms(2) path_ok_butlast [OF assms(3)]]
  show "tr_files t' = tr_files t @ [(p, c, x)]" using ok(2) t1eq by simp
  show "tree_ok t'" using ok assms(3) new unfolding tree_ok_def t1eq by (auto simp: is_file_at_def)
qed

lemma path_parts_ok: "''..'' \<notin> set (path_parts s) \<Longrightarrow> path_parts s \<noteq> [] \<Longrightarrow> path_ok (path_parts s)"
  using split_char_parts by (auto simp: path_ok_def path_parts_def part_ok_def list_all_iff)

definition honest_member :: "member \<Rightarrow> bool" where
  "honest_member m \<longleftrightarrow> (\<forall>c. tm_content m = Data c \<longrightarrow> int (length c) = tm_size m)"

definition contained :: "nat \<times> int \<times> tree \<Rightarrow> bool" where
  "contained st \<longleftrightarrow> (case st of (count, bytes, t) \<Rightarrow>
     tree_ok t \<and> length (tr_files t) \<le> count \<and> count \<le> MAX_CACHE_FILES \<and> tree_bytes t = bytes \<and> bytes \<le> MAX_RESTORED_CACHE_BYTES)"

lemma extract_member_contained:
  assumes "extract_member m st = Inr st'" and "contained st" and "honest_member m"
  shows "contained st'"
proof -
  obtain count bytes t where st: "st = (count, bytes, t)" by (cases st)
  let ?p = "path_parts (tm_name m)"
  have p: "path_ok ?p" using assms(1) path_parts_ok by (auto simp: st extract_member_def Let_def split: if_splits)
  consider (dir) t' where "make_dirs ?p t = Inr t'" "st' = (count + 1, bytes, t')"
    | (regular) t' c where "make_file ?p c (tm_executable m) t = Inr t'" "st' = (count + 1, bytes + tm_size m, t')" "tm_content m = Data c"
        "bytes + tm_size m \<le> MAX_RESTORED_CACHE_BYTES"
    using assms(1) by (auto simp: st extract_member_def Let_def rbind_Inr_conv split: if_splits member_kind.splits member_data.splits)
  moreover have "count + 1 \<le> MAX_CACHE_FILES" using assms(1) by (auto simp: st extract_member_def Let_def split: if_splits)
  ultimately show ?thesis
  proof cases
    case dir
    then show ?thesis using make_dirs_ok(1,2) [OF dir(1) _ disjI2 [OF p]] assms(2) \<open>count + 1 \<le> MAX_CACHE_FILES\<close>
      by (auto simp: st contained_def tree_bytes_def)
  next
    case regular
    then show ?thesis using make_file_ok [OF regular(1) _ p] assms(2,3) \<open>count + 1 \<le> MAX_CACHE_FILES\<close>
      by (auto simp: st contained_def tree_bytes_def honest_member_def)
  qed
qed

lemma extract_members_contained:
  "extract_members ms st = Inr st' \<Longrightarrow> contained st \<Longrightarrow> list_all honest_member ms \<Longrightarrow> contained st'"
proof (induction ms arbitrary: st)
  case (Cons m ms)
  then obtain st1 where "extract_member m st = Inr st1" "extract_members ms st1 = Inr st'" by (auto simp: rbind_Inr_conv)
  then show ?case using Cons extract_member_contained by auto
qed simp

lemma contained_empty: "contained (0, 0, empty_tree)"
  by (simp add: contained_def empty_tree_def tree_ok_def tree_bytes_def MAX_RESTORED_CACHE_BYTES_def)

text \<open>
  Restoring an archive cannot leave its directory: whatever members an archive holds, a restore that succeeds
  leaves a tree whose every path goes down from the directory, through directories of its own, with at most the
  allowed number of files and bytes; a restore that fails leaves what was there.
\<close>

lemma extraction_is_contained:
  assumes "restore_archive opened destination = (destination', r)" and "\<And>ms. opened = Inr ms \<Longrightarrow> list_all honest_member ms"
  shows "(case r of
      Inl _ \<Rightarrow> destination' = destination
    | Inr _ \<Rightarrow> (\<exists>t. destination' = Some t \<and> tree_ok t \<and> length (tr_files t) \<le> MAX_CACHE_FILES \<and> tree_bytes t \<le> MAX_RESTORED_CACHE_BYTES))"
proof (cases "rbind opened extract_archive")
  case (Inl e)
  then show ?thesis using assms(1) by (auto simp: restore_archive_def)
next
  case (Inr t)
  then obtain ms count bytes where ms: "opened = Inr ms" "extract_members ms (0, 0, empty_tree) = Inr (count, bytes, t)"
    by (auto simp: rbind_Inr_conv extract_archive_def)
  from extract_members_contained [OF ms(2) contained_empty assms(2) [OF ms(1)]] Inr show ?thesis
    using assms(1) by (auto simp: restore_archive_def contained_def)
qed

section \<open>Packing and restoring\<close>

text \<open>What a directory holds at a path, and directories whose names are names.\<close>

fun node_at :: "entries \<Rightarrow> path \<Rightarrow> node option" where
  "node_at es [] = None"
| "node_at es [n] = map_of es n"
| "node_at es (n # m # p) = (case map_of es n of Some (Directory es') \<Rightarrow> node_at es' (m # p) | _ \<Rightarrow> None)"

function wf_entries :: "entries \<Rightarrow> bool" where
  "wf_entries [] \<longleftrightarrow> True"
| "wf_entries ((n, Directory es') # es) \<longleftrightarrow> part_ok n \<and> n \<notin> fst ` set es \<and> wf_entries es' \<and> wf_entries es"
| "wf_entries ((n, Regular c x) # es) \<longleftrightarrow> part_ok n \<and> n \<notin> fst ` set es \<and> wf_entries es"
| "wf_entries ((n, Special) # es) \<longleftrightarrow> part_ok n \<and> n \<notin> fst ` set es \<and> wf_entries es"
  by pat_completeness auto

termination
  by (relation "measure (\<lambda>es. size (Directory es))") auto

lemma wf_names: "wf_entries es \<Longrightarrow> distinct (map fst es) \<and> (\<forall>n \<in> fst ` set es. part_ok n)"
  by (induction es rule: wf_entries.induct) auto

lemma wf_below: "wf_entries es \<Longrightarrow> map_of es n = Some (Directory es') \<Longrightarrow> wf_entries es'"
  by (induction es rule: wf_entries.induct) (auto split: if_splits)

lemma node_at_path_ok: "node_at es p = Some v \<Longrightarrow> wf_entries es \<Longrightarrow> path_ok p"
proof (induction es p rule: node_at.induct)
  case (2 es n)
  then show ?case using wf_names [of es] by (auto simp: path_ok_def dest!: map_of_SomeD intro: rev_image_eqI)
next
  case (3 es n m p)
  then obtain es' where es': "map_of es n = Some (Directory es')" "node_at es' (m # p) = Some v"
    by (auto split: option.splits node.splits)
  then have "part_ok n" using wf_names [OF "3.prems"(2)] by (auto dest!: map_of_SomeD intro: rev_image_eqI)
  then show ?case using "3.IH" [OF es'(1) refl es'(2) wf_below [OF "3.prems"(2) es'(1)]] by (simp add: path_ok_def)
qed simp

lemma node_at_parent: "node_at es (p @ [n]) = Some v \<Longrightarrow> p \<noteq> [] \<Longrightarrow> \<exists>es'. node_at es p = Some (Directory es')"
proof (induction es p rule: node_at.induct)
  case (2 es m)
  then show ?case by (auto split: option.splits node.splits)
next
  case (3 es m k p)
  then show ?case by (auto split: option.splits node.splits)
qed simp

lemma node_at_parents: "node_at es p = Some v \<Longrightarrow> q \<in> set (parents (butlast p)) \<Longrightarrow> \<exists>es'. node_at es q = Some (Directory es')"
proof (induction p arbitrary: v rule: rev_induct)
  case (snoc n p)
  then have "p \<noteq> []" by (auto simp: parents_iff)
  then obtain es' where p: "node_at es p = Some (Directory es')" using node_at_parent [OF snoc.prems(1)] by blast
  show ?case
  proof (cases "q = p")
    case True
    then show ?thesis using p by blast
  next
    case False
    then have "q \<in> set (parents (butlast p))" using snoc.prems(2) by (auto simp: parents_iff prefix_def butlast_append)
    then show ?thesis using snoc.IH [OF p] by blast
  qed
qed simp

lemma set_map_filter: "set (List.map_filter f xs) = {y. \<exists>x \<in> set xs. f x = Some y}"
  by (induction xs) (auto simp: map_filter_simps split: option.splits)

text \<open>The walk for any selection of nodes: what it finds in a directory, and below its directories.\<close>

fun dir_node :: "node \<Rightarrow> unit option" where
  "dir_node (Directory _) = Some ()" | "dir_node _ = None"

fun file_node :: "node \<Rightarrow> (string \<times> bool) option" where
  "file_node (Regular c x) = Some (c, x)" | "file_node _ = None"

definition found_in :: "(node \<Rightarrow> 'a option) \<Rightarrow> path \<Rightarrow> entries \<Rightarrow> (path \<times> 'a) list" where
  "found_in sel p es = List.map_filter (\<lambda>(n, v). map_option (Pair (p @ [n])) (sel v)) es"

function found_below :: "(node \<Rightarrow> 'a option) \<Rightarrow> path \<Rightarrow> entries \<Rightarrow> (path \<times> 'a) list" where
  "found_below sel p [] = []"
| "found_below sel p ((n, Directory es') # es) = found_in sel (p @ [n]) es' @ found_below sel (p @ [n]) es' @ found_below sel p es"
| "found_below sel p ((n, Regular c x) # es) = found_below sel p es"
| "found_below sel p ((n, Special) # es) = found_below sel p es"
  by pat_completeness auto

termination
  by (relation "measure (\<lambda>(_, _, es). size (Directory es))") auto

definition selected :: "(node \<Rightarrow> 'a option) \<Rightarrow> entries \<Rightarrow> path \<Rightarrow> 'a option" where
  "selected sel es q = Option.bind (node_at es q) sel"

lemma selected_simps:
  "selected sel es [] = None" "selected sel es [n] = Option.bind (map_of es n) sel"
  "selected sel es (n # m # r) = (case map_of es n of Some (Directory es') \<Rightarrow> selected sel es' (m # r) | _ \<Rightarrow> None)"
  by (auto simp: selected_def split: option.splits node.splits)

lemma selected_dom: "selected sel es (n # r) = Some a \<Longrightarrow> n \<in> fst ` set es"
proof (rule ccontr)
  assume a: "selected sel es (n # r) = Some a" "n \<notin> fst ` set es"
  then have "map_of es n = None" by (simp add: map_of_eq_None_iff)
  then show False using a(1) by (cases r) (simp_all add: selected_simps)
qed

lemma in_found_in: "wf_entries es \<Longrightarrow> (q, a) \<in> set (found_in sel p es) \<longleftrightarrow> (\<exists>n. q = p @ [n] \<and> selected sel es [n] = Some a)"
proof -
  assume wf: "wf_entries es"
  have m: "map_of es n = Some v \<longleftrightarrow> (n, v) \<in> set es" for n v using wf_names [OF wf] by simp
  have "(q, a) \<in> set (found_in sel p es) \<longleftrightarrow> (\<exists>n v. (n, v) \<in> set es \<and> q = p @ [n] \<and> sel v = Some a)"
    unfolding found_in_def set_map_filter by force
  then show ?thesis by (auto simp: selected_simps bind_eq_Some_conv m)
qed

lemma in_found_below:
  "wf_entries es \<Longrightarrow> (q, a) \<in> set (found_below sel p es) \<longleftrightarrow> (\<exists>n m r. q = p @ n # m # r \<and> selected sel es (n # m # r) = Some a)"
proof (induction sel p es arbitrary: q rule: found_below.induct)
  case (2 sel p n sub es)
  have wf: "wf_entries sub" "wf_entries es" "n \<notin> fst ` set es" using "2.prems" by auto
  have sel: "selected sel ((n, Directory sub) # es) (n' # m # r) = (if n' = n then selected sel sub (m # r) else selected sel es (n' # m # r))"
    for n' m r by (simp add: selected_simps)
  have gone: "selected sel es (n # m # r) = None" for m r
    using wf(3) by (simp add: selected_simps map_of_eq_None_iff [THEN iffD2])
  have here: "(q, a) \<in> set (found_in sel (p @ [n]) sub) \<or> (q, a) \<in> set (found_below sel (p @ [n]) sub) \<longleftrightarrow>
      (\<exists>m r. q = p @ n # m # r \<and> selected sel sub (m # r) = Some a)"
  proof -
    have "(\<exists>m r. q = p @ n # m # r \<and> selected sel sub (m # r) = Some a) \<longleftrightarrow>
        (\<exists>m. q = p @ n # [m] \<and> selected sel sub [m] = Some a) \<or> (\<exists>m k r. q = p @ n # m # k # r \<and> selected sel sub (m # k # r) = Some a)"
      by (metis neq_Nil_conv)
    then show ?thesis unfolding in_found_in [OF wf(1)] "2.IH"(1) [OF wf(1)] by simp
  qed
  have "(q, a) \<in> set (found_below sel p ((n, Directory sub) # es)) \<longleftrightarrow>
      (\<exists>m r. q = p @ n # m # r \<and> selected sel sub (m # r) = Some a) \<or> (\<exists>n' m r. q = p @ n' # m # r \<and> selected sel es (n' # m # r) = Some a)"
    unfolding found_below.simps set_append Un_iff "2.IH"(2) [OF wf(2)] using here by blast
  also have "\<dots> \<longleftrightarrow> (\<exists>n' m r. q = p @ n' # m # r \<and> selected sel ((n, Directory sub) # es) (n' # m # r) = Some a)"
    unfolding sel using gone by (auto split: if_splits) (metis option.distinct(1))
  finally show ?case .
next
  case (3 sel p n c x es)
  then have "selected sel ((n, Regular c x) # es) (n' # m # r) = selected sel es (n' # m # r)" for n' m r
    by (simp add: selected_simps map_of_eq_None_iff [THEN iffD2])
  then show ?case using 3 by simp
next
  case (4 sel p n es)
  then have "selected sel ((n, Special) # es) (n' # m # r) = selected sel es (n' # m # r)" for n' m r
    by (simp add: selected_simps map_of_eq_None_iff [THEN iffD2])
  then show ?case using 4 by simp
qed (simp add: selected_simps)

definition found_all :: "(node \<Rightarrow> 'a option) \<Rightarrow> entries \<Rightarrow> (path \<times> 'a) list" where
  "found_all sel es = found_in sel [] es @ found_below sel [] es"

lemma in_found_all: "wf_entries es \<Longrightarrow> (q, a) \<in> set (found_all sel es) \<longleftrightarrow> selected sel es q = Some a"
proof -
  assume wf: "wf_entries es"
  have "selected sel es q = Some a \<longleftrightarrow> (\<exists>n. q = [n] \<and> selected sel es [n] = Some a) \<or> (\<exists>n m r. q = n # m # r \<and> selected sel es (n # m # r) = Some a)"
    by (cases "(es, q)" rule: node_at.cases) (auto simp: selected_simps(1))
  then show ?thesis by (simp add: found_all_def in_found_in [OF wf] in_found_below [OF wf])
qed

lemma distinct_found_in: "wf_entries es \<Longrightarrow> distinct (map fst (found_in sel p es))"
proof -
  assume "wf_entries es"
  then have "distinct (map fst es)" using wf_names by blast
  then show ?thesis
    by (induction es) (auto simp: found_in_def map_filter_simps set_map_filter image_iff split: option.splits)
qed

lemma distinct_found_below: "wf_entries es \<Longrightarrow> distinct (map fst (found_below sel p es))"
proof (induction sel p es rule: found_below.induct)
  case (2 sel p n sub es)
  have wf: "wf_entries sub" "wf_entries es" "n \<notin> fst ` set es" using "2.prems" by auto
  have one: "fst ` set (found_in sel (p @ [n]) sub) \<subseteq> {q. \<exists>m. q = p @ n # [m]}" by (auto simp: in_found_in [OF wf(1)])
  have two: "fst ` set (found_below sel (p @ [n]) sub) \<subseteq> {q. \<exists>m k r. q = p @ n # m # k # r}" by (auto simp: in_found_below [OF wf(1)])
  have three: "fst ` set (found_below sel p es) \<subseteq> {q. \<exists>n' m r. n' \<noteq> n \<and> q = p @ n' # m # r}"
  proof
    fix q assume "q \<in> fst ` set (found_below sel p es)"
    then obtain a where "(q, a) \<in> set (found_below sel p es)" by (rule imageE) (metis prod.collapse)
    then obtain n' m r where q: "q = p @ n' # m # r" "selected sel es (n' # m # r) = Some a" unfolding in_found_below [OF wf(2)] by (elim exE conjE)
    have "n' \<in> fst ` set es" by (rule selected_dom [OF q(2)])
    then have "n' \<noteq> n" using wf(3) by metis
    then show "q \<in> {q. \<exists>n' m r. n' \<noteq> n \<and> q = p @ n' # m # r}" using q(1) by auto
  qed
  have apart: "fst ` set (found_in sel (p @ [n]) sub) \<inter> fst ` set (found_below sel (p @ [n]) sub) = {}"
    "fst ` set (found_in sel (p @ [n]) sub) \<inter> fst ` set (found_below sel p es) = {}"
    "fst ` set (found_below sel (p @ [n]) sub) \<inter> fst ` set (found_below sel p es) = {}"
  proof -
    show "fst ` set (found_in sel (p @ [n]) sub) \<inter> fst ` set (found_below sel (p @ [n]) sub) = {}"
      by (rule equals0I, erule IntE) (drule subsetD [OF one], drule subsetD [OF two], clarsimp)
    show "fst ` set (found_in sel (p @ [n]) sub) \<inter> fst ` set (found_below sel p es) = {}"
      by (rule equals0I, erule IntE) (drule subsetD [OF one], drule subsetD [OF three], clarsimp)
    show "fst ` set (found_below sel (p @ [n]) sub) \<inter> fst ` set (found_below sel p es) = {}"
      by (rule equals0I, erule IntE) (drule subsetD [OF two], drule subsetD [OF three], clarsimp)
  qed
  then show ?case using "2.IH"(1) [OF wf(1)] "2.IH"(2) [OF wf(2)] distinct_found_in [OF wf(1), of sel "p @ [n]"]
    by (simp add: Int_Un_distrib image_Un)
qed simp_all

lemma distinct_found_all: "wf_entries es \<Longrightarrow> distinct (map fst (found_all sel es))"
proof -
  assume wf: "wf_entries es"
  have "fst ` set (found_in sel [] es) \<inter> fst ` set (found_below sel [] es) = {}"
    by (force simp: in_found_in [OF wf] in_found_below [OF wf])
  then show ?thesis using distinct_found_in [OF wf, of sel "[]"] distinct_found_below [OF wf, of sel "[]"] by (simp add: found_all_def)
qed

text \<open>The two lists of the walk are the directories and the regular files.\<close>

lemma sub_lists: "sub_dirs p es = map fst (found_in dir_node p es)" "sub_files p es = found_in file_node p es"
proof -
  show "sub_dirs p es = map fst (found_in dir_node p es)"
    by (induction es) (auto simp: sub_dirs_def found_in_def map_filter_simps split: node.split)
  show "sub_files p es = found_in file_node p es"
    by (induction es) (auto simp: sub_files_def found_in_def map_filter_simps split: node.split)
qed

lemma visits_found:
  "concat (map fst (visits_below p es)) = map fst (found_below dir_node p es)" "concat (map snd (visits_below p es)) = found_below file_node p es"
proof (induction p es rule: visits_below.induct)
  case (2 p n sub es)
  { case 1 from 2 show ?case by (simp add: sub_lists) }
  { case 2 from "2.IH" show ?case by (simp add: sub_lists) }
qed simp_all

lemma visits_all: "concat (map fst (visits es)) = map fst (found_all dir_node es)" "concat (map snd (visits es)) = found_all file_node es"
  by (simp_all add: visits_def visits_found found_all_def sub_lists)

definition file_bytes :: "packed_file list \<Rightarrow> int" where
  "file_bytes fs = sum_list (map (\<lambda>(_, c, _). int (length c)) fs)"

lemma take_files_result:
  "take_files dirs taken bytes fs = Inr (files, bytes') \<Longrightarrow> bytes \<le> MAX_ARCHIVE_CONTENT_BYTES \<Longrightarrow>
   files = taken @ fs \<and> bytes' = bytes + file_bytes fs \<and> bytes' \<le> MAX_ARCHIVE_CONTENT_BYTES"
proof (induction fs arbitrary: taken bytes)
  case (Cons f fs)
  obtain p c x where f: "f = (p, c, x)" by (cases f)
  have step: "take_files dirs (taken @ [f]) (bytes + int (length c)) fs = Inr (files, bytes')" "bytes + int (length c) \<le> MAX_ARCHIVE_CONTENT_BYTES"
    using Cons.prems by (auto simp: f Let_def split: if_splits)
  from Cons.IH [OF step] show ?case by (simp add: f file_bytes_def)
qed (simp add: file_bytes_def)

lemma gather_result:
  "gather vs dirs files bytes = Inr (dirs', files') \<Longrightarrow> bytes \<le> MAX_ARCHIVE_CONTENT_BYTES \<Longrightarrow> bytes = file_bytes files \<Longrightarrow>
   dirs' = dirs @ concat (map fst vs) \<and> files' = files @ concat (map snd vs) \<and> length files' + length dirs' \<le> MAX_CACHE_FILES \<and>
   file_bytes files' \<le> MAX_ARCHIVE_CONTENT_BYTES"
proof (induction vs arbitrary: dirs files bytes)
  case (Cons v vs)
  obtain ds fs where v: "v = (ds, fs)" by (cases v)
  obtain files1 bytes1 where t: "take_files (length (dirs @ ds)) files bytes fs = Inr (files1, bytes1)"
      "gather vs (dirs @ ds) files1 bytes1 = Inr (dirs', files')"
    using Cons.prems(1) by (auto simp: v rbind_Inr_conv split: if_splits)
  note taken = take_files_result [OF t(1) Cons.prems(2)]
  then have "bytes1 = file_bytes files1" using Cons.prems(3) by (simp add: file_bytes_def)
  from Cons.IH [OF t(2) _ this] taken show ?case by (auto simp: v)
qed (auto split: if_splits)


text \<open>Extracting what was packed: first the directories, then the files, none of which is in the way of another.\<close>

lemma posix_parts: "path_ok p \<Longrightarrow> path_parts (posix p) = p \<and> \<not> prefix ''/'' (posix p)"
proof -
  assume ok: "path_ok p"
  then have sp: "split_char CHR ''/'' (posix p) = p"
    unfolding posix_def by (intro split_char_join) (auto simp: path_ok_def part_ok_def list_all_iff)
  obtain n p' where p: "p = n # p'" using ok by (cases p) (auto simp: path_ok_def)
  have "part_ok n" using ok by (simp add: p path_ok_def)
  then obtain c n' where n: "n = c # n'" "c \<noteq> CHR ''/''" by (cases n) (auto simp: part_ok_def)
  have "hd (posix p) = c" by (cases p') (simp_all add: posix_def p n)
  moreover have "posix p \<noteq> []" by (cases p') (simp_all add: posix_def p n)
  ultimately have "\<not> prefix ''/'' (posix p)" using n(2) by (cases "posix p") auto
  moreover have "path_parts (posix p) = p"
    using ok unfolding path_parts_def sp by (auto simp: path_ok_def part_ok_def list_all_iff intro!: filter_True)
  ultimately show ?thesis by blast
qed

lemma no_dots: "path_ok p \<Longrightarrow> ''..'' \<notin> set p \<and> p \<noteq> []"
  by (auto simp: path_ok_def part_ok_def list_all_iff)

lemma extract_dirs:
  "list_all path_ok ds \<Longrightarrow> tr_files t = [] \<Longrightarrow> count + length ds \<le> MAX_CACHE_FILES \<Longrightarrow>
   \<exists>t'. extract_members (map dir_member ds) (count, bytes, t) = Inr (count + length ds, bytes, t') \<and> tr_files t' = [] \<and>
        set (tr_dirs t') = set (tr_dirs t) \<union> \<Union> (set ` parents ` set ds)"
proof (induction ds arbitrary: count t)
  case (Cons p ds)
  have p: "path_ok p" using Cons.prems(1) by simp
  let ?t = "t\<lparr>tr_dirs := tr_dirs t @ filter (\<lambda>q. q \<notin> set (tr_dirs t)) (parents p)\<rparr>"
  have "make_dirs p t = Inr ?t" using Cons.prems(2) by (simp add: make_dirs_def is_file_at_def list_ex_iff)
  then have step: "extract_member (dir_member p) (count, bytes, t) = Inr (Suc count, bytes, ?t)"
    using posix_parts [OF p] no_dots [OF p] Cons.prems(3) by (simp add: extract_member_def dir_member_def Let_def)
  obtain t' where t': "extract_members (map dir_member ds) (Suc count, bytes, ?t) = Inr (Suc count + length ds, bytes, t')" "tr_files t' = []"
      "set (tr_dirs t') = set (tr_dirs ?t) \<union> \<Union> (set ` parents ` set ds)"
    using Cons.IH [of ?t "Suc count"] Cons.prems by auto
  have "set (tr_dirs ?t) = set (tr_dirs t) \<union> set (parents p)" by auto
  then show ?case using t' by (simp add: step Un_assoc)
qed simp

lemma make_file_new:
  assumes "set (parents (butlast p)) \<subseteq> set (tr_dirs t)" and "p \<notin> set (tr_dirs t)" and "p \<notin> fst ` set (tr_files t)"
    and "set (tr_dirs t) \<inter> fst ` set (tr_files t) = {}"
  shows "make_file p c x t = Inr (t\<lparr>tr_files := tr_files t @ [(p, c, x)]\<rparr>)"
proof -
  have "filter (\<lambda>q. q \<notin> set (tr_dirs t)) (parents (butlast p)) = []" using assms(1) by (auto simp: filter_empty_conv)
  moreover have "\<not> list_ex (is_file_at t) (parents (butlast p))" using assms(1,4) by (auto simp: list_ex_iff is_file_at_def)
  ultimately have "make_dirs (butlast p) t = Inr t" by (simp add: make_dirs_def)
  then show ?thesis using assms(2,3) by (simp add: make_file_def is_file_at_def)
qed

lemma extract_files:
  assumes "list_all path_ok (map fst fs)" and "distinct (map fst (tr_files t @ fs))" and "count + length fs \<le> MAX_CACHE_FILES"
    and "bytes + file_bytes fs \<le> MAX_RESTORED_CACHE_BYTES"
    and "\<forall>p \<in> fst ` set fs. set (parents (butlast p)) \<subseteq> set (tr_dirs t)" and "set (tr_dirs t) \<inter> fst ` set (tr_files t @ fs) = {}"
  shows "extract_members (map file_member fs) (count, bytes, t) =
      Inr (count + length fs, bytes + file_bytes fs, t\<lparr>tr_files := tr_files t @ fs\<rparr>)"
  using assms
proof (induction fs arbitrary: count bytes t)
  case (Cons f fs)
  obtain p c x where f: "f = (p, c, x)" by (cases f)
  have p: "path_ok p" using Cons.prems(1) by (simp add: f)
  let ?t = "t\<lparr>tr_files := tr_files t @ [(p, c, x)]\<rparr>"
  have "file_bytes fs \<ge> 0" unfolding file_bytes_def by (rule sum_list_nonneg) auto
  then have b: "bytes + int (length c) \<le> MAX_RESTORED_CACHE_BYTES" using Cons.prems(4) by (simp add: f file_bytes_def)
  have "make_file p c x t = Inr ?t" using Cons.prems(2,5,6) by (intro make_file_new) (auto simp: f)
  then have step: "extract_member (file_member (p, c, x)) (count, bytes, t) = Inr (Suc count, bytes + int (length c), ?t)"
    using posix_parts [OF p] no_dots [OF p] Cons.prems(3) b by (simp add: f extract_member_def file_member_def Let_def)
  have "extract_members (map file_member fs) (Suc count, bytes + int (length c), ?t) =
      Inr (Suc count + length fs, bytes + int (length c) + file_bytes fs, ?t\<lparr>tr_files := tr_files ?t @ fs\<rparr>)"
    using Cons.prems by (intro Cons.IH) (auto simp: f file_bytes_def)
  then show ?case by (simp add: step f file_bytes_def algebra_simps)
qed (simp add: file_bytes_def)

lemma extract_members_append: "extract_members (ms @ ms') st = rbind (extract_members ms st) (extract_members ms')"
  by (induction ms arbitrary: st) (simp_all split: sum.splits add: rbind_def)

text \<open>
  A cached directory comes back as it was packed: if packing a directory stays within the limits, extracting
  the archive succeeds, within its own limits, and restores exactly the directories and the regular files, each
  with its content and whether it is executable, at the paths they had; links and special files are left out.
\<close>

lemma archive_roundtrip:
  assumes "wf_entries es" and "write_archive es = Inr ms"
  shows "\<exists>t. extract_archive ms = Inr t \<and>
      (\<forall>q. q \<in> set (tr_dirs t) \<longleftrightarrow> (\<exists>sub. node_at es q = Some (Directory sub))) \<and>
      (\<forall>q c x. (q, c, x) \<in> set (tr_files t) \<longleftrightarrow> node_at es q = Some (Regular c x))"
proof -
  obtain ds fs where g: "gather (visits es) [] [] 0 = Inr (ds, fs)" and ms: "ms = map dir_member ds @ map file_member fs"
    using assms(2) by (auto simp: write_archive_def rbind_Inr_conv)
  have limits: "ds = map fst (found_all dir_node es)" "fs = found_all file_node es" "length fs + length ds \<le> MAX_CACHE_FILES"
      "file_bytes fs \<le> MAX_ARCHIVE_CONTENT_BYTES"
  proof -
    have "0 \<le> MAX_ARCHIVE_CONTENT_BYTES" "0 = file_bytes []"
      by (simp_all add: file_bytes_def MAX_ARCHIVE_CONTENT_BYTES_def MAX_CACHE_BLOB_BYTES_def MAX_CACHE_FILES_def)
    from gather_result [OF g this] show "ds = map fst (found_all dir_node es)" "fs = found_all file_node es"
      "length fs + length ds \<le> MAX_CACHE_FILES" "file_bytes fs \<le> MAX_ARCHIVE_CONTENT_BYTES" by (auto simp: visits_all)
  qed
  have dirs: "q \<in> set ds \<longleftrightarrow> (\<exists>sub. node_at es q = Some (Directory sub))" for q
  proof -
    have "q \<in> set ds \<longleftrightarrow> (q, ()) \<in> set (found_all dir_node es)" unfolding limits(1) by force
    also have "\<dots> \<longleftrightarrow> (\<exists>sub. node_at es q = Some (Directory sub))"
      unfolding in_found_all [OF assms(1)] by (auto simp: selected_def bind_eq_Some_conv elim!: dir_node.elims)
    finally show ?thesis .
  qed
  have files: "(q, c, x) \<in> set fs \<longleftrightarrow> node_at es q = Some (Regular c x)" for q c x
    unfolding limits(2) in_found_all [OF assms(1)] by (auto simp: selected_def bind_eq_Some_conv elim!: file_node.elims)
  have ok: "list_all path_ok ds" "list_all path_ok (map fst fs)"
    using node_at_path_ok [OF _ assms(1)] dirs files by (auto simp: list_all_iff)
  obtain t where t: "extract_members (map dir_member ds) (0, 0, empty_tree) = Inr (length ds, 0, t)" "tr_files t = []"
      "set (tr_dirs t) = \<Union> (set ` parents ` set ds)"
    using extract_dirs [OF ok(1), of empty_tree 0 0] limits(3) by (auto simp: empty_tree_def)
  have split_parents: "q \<in> set (parents p) \<longleftrightarrow> p \<noteq> [] \<and> (q = p \<or> q \<in> set (parents (butlast p)))" for p q :: path
    by (cases p rule: rev_cases) (auto simp: parents_iff)
  have up: "set (parents (butlast p)) \<subseteq> set ds" if "node_at es p = Some v" for p v
    using node_at_parents [OF that] dirs by blast
  have td: "set (tr_dirs t) = set ds"
  proof
    show "set (tr_dirs t) \<subseteq> set ds"
    proof
      fix q assume "q \<in> set (tr_dirs t)"
      then obtain p where p: "p \<in> set ds" "q \<in> set (parents p)" unfolding t(3) by blast
      then obtain sub where "node_at es p = Some (Directory sub)" using dirs by blast
      from up [OF this] p show "q \<in> set ds" using split_parents [of q p] by blast
    qed
    show "set ds \<subseteq> set (tr_dirs t)"
    proof
      fix p assume p: "p \<in> set ds"
      then have "p \<noteq> []" using ok(1) by (auto simp: list_all_iff path_ok_def)
      then have "p \<in> set (parents p)" using split_parents [of p p] by simp
      then show "p \<in> set (tr_dirs t)" unfolding t(3) using p by blast
    qed
  qed
  have "extract_members (map file_member fs) (length ds, 0, t) = Inr (length ds + length fs, 0 + file_bytes fs, t\<lparr>tr_files := tr_files t @ fs\<rparr>)"
  proof (rule extract_files)
    show "list_all path_ok (map fst fs)" by (rule ok(2))
    show "distinct (map fst (tr_files t @ fs))" using distinct_found_all [OF assms(1)] by (simp add: t(2) limits(2))
    show "length ds + length fs \<le> MAX_CACHE_FILES" using limits(3) by simp
    show "0 + file_bytes fs \<le> MAX_RESTORED_CACHE_BYTES"
      using limits(4) by (simp add: MAX_ARCHIVE_CONTENT_BYTES_def MAX_CACHE_BLOB_BYTES_def MAX_CACHE_FILES_def MAX_RESTORED_CACHE_BYTES_def)
    show "\<forall>p \<in> fst ` set fs. set (parents (butlast p)) \<subseteq> set (tr_dirs t)"
    proof
      fix p assume "p \<in> fst ` set fs"
      then obtain c x where "(p, c, x) \<in> set fs" by auto
      then show "set (parents (butlast p)) \<subseteq> set (tr_dirs t)" unfolding td using up files by blast
    qed
    have "p \<notin> set ds" if "(p, c, x) \<in> set fs" for p c x using that dirs files by auto
    then show "set (tr_dirs t) \<inter> fst ` set (tr_files t @ fs) = {}" by (auto simp: t(2) td)
  qed
  then have "extract_archive ms = Inr (t\<lparr>tr_files := fs\<rparr>)"
    by (simp add: extract_archive_def ms extract_members_append t(1,2))
  then show ?thesis using dirs files by (simp add: td)
qed

end
