(* ===== verification/Cache_Client.thy ===== *)
theory Cache_Client
  imports Cache_Archive Cache_Store Device_Client Workflow_Jobs
begin

text \<open>
  Both ends of a run's dependency cache: the choice of the directories to keep and of their keys, and their restore
  and store around the steps (\<open>cache_adapters.py\<close>), the client (\<open>cache_client.py\<close>) and the broker's endpoints
  (\<open>cache_api.py\<close>). A request travels as a record; what answers it is an argument of the client, so that its
  lemmas hold of every broker, and the endpoints over a store are one of them. The JSON codec, the tar codec,
  SHA-256 and what the file system says of a path are arguments too. Most exceptions raised while a cache is restored
  or stored are caught and logged; two are not, the \<open>RecursionError\<close> of a reply nested too deeply and the
  \<open>zlib.error\<close> of broken compressed data, and they end the run.
\<close>

section \<open>The choice of caches\<close>

record cache_plan =
  cp_name :: string
  cp_architecture :: string
  cp_key :: string
  cp_prefixes :: "string list"
  cp_path :: string
  cp_environment :: "(string \<times> string) list"

text \<open>
  The regular files of a repository that resolve inside it, with what reading one yields, the names of its root
  that match \<open>requirements*.txt\<close>, and the decoder of its package file, which fails on bytes that are no text.
\<close>

record cache_files =
  cf_read :: "string \<Rightarrow> string result option"
  cf_requirements :: "string list"
  cf_json :: "string \<Rightarrow> decoded"

definition architecture_name :: "string \<Rightarrow> string" where
  "architecture_name machine =
     (let m = lower machine in if m = ''x86_64'' then ''amd64'' else if m = ''aarch64'' then ''arm64'' else m)"

fun lock_bytes :: "cache_files \<Rightarrow> string list \<Rightarrow> string result" where
  "lock_bytes cf [] = Inr []"
| "lock_bytes cf (name # names) =
     (case cf_read cf name of
        None \<Rightarrow> Inl (RuntimeError ''no such file'')
      | Some content \<Rightarrow> rbind content (\<lambda>b. rbind (lock_bytes cf names) (\<lambda>rest. Inr (name @ [CHR 0x00] @ b @ rest))))"

definition plan_of ::
  "(string \<Rightarrow> string) \<Rightarrow> cache_files \<Rightarrow> string \<Rightarrow> string list \<Rightarrow> string \<Rightarrow> string \<Rightarrow> (string \<times> string) list \<Rightarrow> cache_plan result" where
  "plan_of sha256 cf name lockfiles architecture path environment =
     rbind (lock_bytes cf lockfiles) (\<lambda>b.
       Inr \<lparr>cp_name = name, cp_architecture = architecture, cp_key = name @ ''-'' @ architecture @ ''-'' @ take 32 (sha256 b),
            cp_prefixes = [name @ ''-'' @ architecture @ ''-''], cp_path = path, cp_environment = environment\<rparr>)"

definition dependencies_of :: "json \<Rightarrow> string list" where
  "dependencies_of package =
     (case package of
        JObj kvs \<Rightarrow> concat (map (\<lambda>s. case field_or kvs s (JObj []) of JObj ds \<Rightarrow> map fst ds | _ \<Rightarrow> []) [''dependencies'', ''devDependencies''])
      | _ \<Rightarrow> [])"

definition uses_next :: "cache_files \<Rightarrow> string result \<Rightarrow> bool result" where
  "uses_next cf content =
     (case content of
        Inl _ \<Rightarrow> Inr False
      | Inr b \<Rightarrow>
          (case cf_json cf b of
             Json package \<Rightarrow> Inr (''next'' \<in> set (dependencies_of package))
           | Not_Json _ \<Rightarrow> Inr False
           | Not_Text m \<Rightarrow> Inl (ValueError m)
           | Too_Deep _ \<Rightarrow> Inl RecursionError))"

definition detect_cache_plans ::
  "(string \<Rightarrow> string) \<Rightarrow> cache_files \<Rightarrow> string \<Rightarrow> string \<Rightarrow> string \<Rightarrow> cache_plan list result" where
  "detect_cache_plans sha256 cf repository cache_root architecture =
     (let present = (\<lambda>name. cf_read cf name \<noteq> None);
          plan = plan_of sha256 cf;
          one = (\<lambda>r. rbind r (\<lambda>p. Inr [p]));
          npm_lock = find present [''package-lock.json'', ''npm-shrinkwrap.json''];
          node_lock = (if present ''pnpm-lock.yaml'' then Some ''pnpm-lock.yaml'' else npm_lock);
          requirements = filter present (cf_requirements cf)
      in
      rbind (if present ''pnpm-lock.yaml''
             then one (plan ''pnpm'' [''pnpm-lock.yaml''] architecture (cache_root @ ''/pnpm'') [(''npm_config_store_dir'', ''/cindral-cache/pnpm'')])
             else case npm_lock of
                    Some lock \<Rightarrow> one (plan ''npm'' [lock] architecture (cache_root @ ''/npm'') [(''npm_config_cache'', ''/cindral-cache/npm'')])
                  | None \<Rightarrow> Inr []) (\<lambda>node_plans.
      rbind (if present ''uv.lock''
             then one (plan ''uv'' [''uv.lock''] architecture (cache_root @ ''/uv'') [(''UV_CACHE_DIR'', ''/cindral-cache/uv'')])
             else if requirements \<noteq> []
             then one (plan ''pip'' requirements architecture (cache_root @ ''/pip'') [(''PIP_CACHE_DIR'', ''/cindral-cache/pip'')])
             else Inr []) (\<lambda>python_plans.
      rbind (if present ''go.sum''
             then one (plan ''go'' (filter present [''go.mod'', ''go.sum'']) architecture (cache_root @ ''/go'')
                         [(''GOMODCACHE'', ''/cindral-cache/go/mod''), (''GOCACHE'', ''/cindral-cache/go/build'')])
             else Inr []) (\<lambda>go_plans.
      rbind (case (node_lock, cf_read cf ''package.json'') of
               (Some lock, Some content) \<Rightarrow>
                 rbind (uses_next cf content) (\<lambda>next_used.
                   if next_used then one (plan ''next'' [lock, ''package.json''] architecture (repository @ ''/.next/cache'') []) else Inr [])
             | _ \<Rightarrow> Inr []) (\<lambda>next_plans.
        Inr (node_plans @ python_plans @ go_plans @ next_plans))))))"

text \<open>Every plan is one of a named tool, and keyed by its lock files.\<close>

definition planned :: "(string \<Rightarrow> string) \<Rightarrow> cache_files \<Rightarrow> string \<Rightarrow> cache_plan \<Rightarrow> bool" where
  "planned sha256 cf architecture p \<longleftrightarrow>
     (\<exists>name locks path env. name \<in> {''pnpm'', ''npm'', ''uv'', ''pip'', ''go'', ''next''} \<and> plan_of sha256 cf name locks architecture path env = Inr p)"

definition all_planned :: "(cache_plan \<Rightarrow> bool) \<Rightarrow> cache_plan list result \<Rightarrow> bool" where
  "all_planned P r \<longleftrightarrow> (\<forall>ps. r = Inr ps \<longrightarrow> list_all P ps)"

lemma all_planned_one:
  "name \<in> {''pnpm'', ''npm'', ''uv'', ''pip'', ''go'', ''next''} \<Longrightarrow>
   all_planned (planned sha256 cf architecture) (rbind (plan_of sha256 cf name locks architecture path env) (\<lambda>p. Inr [p]))"
proof -
  assume name: "name \<in> {''pnpm'', ''npm'', ''uv'', ''pip'', ''go'', ''next''}"
  have "planned sha256 cf architecture p" if "plan_of sha256 cf name locks architecture path env = Inr p" for p
    unfolding planned_def using name that by blast
  then show ?thesis by (cases "plan_of sha256 cf name locks architecture path env") (simp_all add: all_planned_def)
qed

lemma all_planned_intros:
  "all_planned P (Inr [])"
  "all_planned P r \<Longrightarrow> (\<And>ps. list_all P ps \<Longrightarrow> all_planned P (k ps)) \<Longrightarrow> all_planned P (rbind r k)"
  "(\<And>x. all_planned P (f x)) \<Longrightarrow> all_planned P (rbind (b :: bool result) f)"
  "all_planned P x \<Longrightarrow> all_planned P y \<Longrightarrow> all_planned P (if c then x else y)"
  "all_planned P y \<Longrightarrow> (\<And>v. all_planned P (g v)) \<Longrightarrow> all_planned P (case z of None \<Rightarrow> y | Some v \<Rightarrow> g v)"
  by (auto simp: all_planned_def rbind_Inr_conv split: option.split)

lemma detected_plans: "all_planned (planned sha256 cf architecture) (detect_cache_plans sha256 cf repository cache_root architecture)"
  unfolding detect_cache_plans_def Let_def prod.case
  by (intro all_planned_intros all_planned_one) (simp_all add: all_planned_def)

text \<open>Every plan has a key and prefixes the broker accepts, the prefixes are prefixes of its key, and the key is that of its lock files.\<close>

lemma detected_keys_are_valid:
  assumes "detect_cache_plans sha256 cf repository cache_root architecture = Inr plans" and "plan \<in> set plans"
    and "\<And>b. digest_ok (sha256 b)" and "sized 64 architecture" and "list_all slug_char architecture"
  shows "cache_key_ok (cp_key plan)" and "list_all cache_key_ok (cp_prefixes plan)" and "length (cp_prefixes plan) \<le> 20"
    and "\<forall>p \<in> set (cp_prefixes plan). prefix p (cp_key plan)"
proof -
  obtain name locks path env where name: "name \<in> {''pnpm'', ''npm'', ''uv'', ''pip'', ''go'', ''next''}" "plan_of sha256 cf name locks architecture path env = Inr plan"
    
  proof -
    have "list_all (planned sha256 cf architecture) plans"
      using detected_plans [of sha256 cf architecture repository cache_root] assms(1) by (simp add: all_planned_def)
    then show thesis using assms(2) that unfolding list_all_iff planned_def by blast
  qed
  obtain b where plan: "cp_key plan = name @ ''-'' @ architecture @ ''-'' @ take 32 (sha256 b)" "cp_prefixes plan = [name @ ''-'' @ architecture @ ''-'']"
    using name(2) by (auto simp: plan_of_def rbind_Inr_conv)
  have hex: "list_all slug_char (sha256 b)"
  proof -
    have "list_all slug_char ''0123456789abcdef''" by code_simp
    then show ?thesis using assms(3) [of b] unfolding digest_ok_def list_all_iff by blast
  qed
  have letters: "list_all slug_char ''pnpmuvigoext-''" by code_simp
  have n: "list_all slug_char name \<and> 1 \<le> length name \<and> length name \<le> 4 \<and> slug_char CHR ''-''"
    using name(1) letters by (elim insertE emptyE) simp_all
  have len: "length (sha256 b) = 64" using assms(3) by (simp add: digest_ok_def)
  show "cache_key_ok (cp_key plan)" "list_all cache_key_ok (cp_prefixes plan)"
    using n hex assms(4,5) len by (auto simp: plan cache_key_ok_def sized_def list_all_iff dest: in_set_takeD)
  show "length (cp_prefixes plan) \<le> 20" "\<forall>p \<in> set (cp_prefixes plan). prefix p (cp_key plan)" by (simp_all add: plan)
qed

section \<open>Requests and answers\<close>

text \<open>A header that is absent reads as the empty text where the endpoint gives it that default.\<close>

record cache_request =
  cq_command :: string
  cq_path :: string
  cq_authorization :: string
  cq_length :: "string option"
  cq_repository :: string
  cq_branch :: string
  cq_architecture :: string
  cq_key :: string
  cq_body :: string

datatype cache_answer = Json_Answer int jobj | Blob_Answer string string | No_Answer

definition failed :: "int \<Rightarrow> string \<Rightarrow> cache_answer" where
  "failed status m = Json_Answer status [(''error'', JStr m)]"

fun cache_refusal :: "py_exn \<Rightarrow> cache_answer" where
  "cache_refusal (ValueError m) = failed 400 m"
| "cache_refusal (KeyError k) = failed 400 ([CHR 0x27] @ k @ [CHR 0x27])"
| "cache_refusal (TypeError m) = failed 400 m"
| "cache_refusal _ = No_Answer"

definition url_path :: "string \<Rightarrow> string" where
  "url_path target = before CHR ''#'' (before CHR ''?'' target)"

definition entry_dict :: "cache_entry \<Rightarrow> jobj" where
  "entry_dict e =
     [(''repository'', JStr (ce_repository e)), (''branch'', JStr (ce_branch e)), (''architecture'', JStr (ce_architecture e)),
      (''key'', JStr (ce_key e)), (''digest'', JStr (ce_digest e)), (''size'', JInt (int (ce_size e))), (''created_at'', JFloat (ce_created e))]"

section \<open>The endpoints\<close>

definition text_field :: "jobj \<Rightarrow> string \<Rightarrow> string option" where
  "text_field kvs key = (case map_of kvs key of Some (JStr s) \<Rightarrow> Some s | _ \<Rightarrow> None)"

definition lookup_query :: "jobj \<Rightarrow> (string \<times> string \<times> string \<times> string \<times> string list) result" where
  "lookup_query payload =
     (case (text_field payload ''repository'', text_field payload ''branch'', text_field payload ''architecture'', text_field payload ''key'') of
        (Some repository, Some branch, Some architecture, Some key) \<Rightarrow>
          (case field_or payload ''restore_keys'' (JList []) of
             JList vs \<Rightarrow>
               (case strings_of vs of
                  Some restore_keys \<Rightarrow> Inr (repository, branch, architecture, key, restore_keys)
                | None \<Rightarrow> Inl (ValueError ''restore_keys must be an array of strings''))
           | _ \<Rightarrow> Inl (ValueError ''restore_keys must be an array of strings''))
      | _ \<Rightarrow> Inl (ValueError ''repository, branch, architecture, and key must be strings''))"

definition cache_lookup_path :: "(string \<Rightarrow> decoded) \<Rightarrow> cache_limits \<Rightarrow> cache_request \<Rightarrow> real \<Rightarrow> cache \<Rightarrow> (cache \<times> cache_answer) result" where
  "cache_lookup_path loads cl rq now c =
     rbind (read_json loads (cq_length rq) (cq_body rq)) (\<lambda>payload.
     rbind (lookup_query payload) (\<lambda>(repository, branch, architecture, key, restore_keys).
     rbind (cache_lookup cl repository branch architecture key restore_keys now c) (\<lambda>(c', found).
       Inr (c', Json_Answer 200 [(''hit'', JBool (found \<noteq> None)), (''entry'', case found of None \<Rightarrow> JNull | Some e \<Rightarrow> JObj (entry_dict e))]))))"

definition cache_put_path :: "(string \<Rightarrow> string) \<Rightarrow> cache_limits \<Rightarrow> cache_request \<Rightarrow> real \<Rightarrow> cache \<Rightarrow> (cache \<times> cache_answer) result" where
  "cache_put_path sha256 cl rq now c =
     (case int_value (JStr (case cq_length rq of None \<Rightarrow> ''-1'' | Some t \<Rightarrow> t)) of
        Inl _ \<Rightarrow> Inl (ValueError ''invalid Content-Length'')
      | Inr len \<Rightarrow>
          if len < 0 \<or> len > min (cl_max_blob cl) MAX_CACHE_BLOB_BYTES
          then Inr (c, failed 413 ''cache blob exceeds the configured size limit'')
          else rbind (cache_put sha256 cl (cq_repository rq) (cq_branch rq) (cq_architecture rq) (cq_key rq) (cq_body rq) len now c)
                 (\<lambda>(c', e, created).
                   Inr (c', Json_Answer (if created then 201 else 200) [(''created'', JBool created), (''entry'', JObj (entry_dict e))])))"

definition cache_blob_path :: "cache_limits \<Rightarrow> cache_request \<Rightarrow> string \<Rightarrow> real \<Rightarrow> cache \<Rightarrow> (cache \<times> cache_answer) result" where
  "cache_blob_path cl rq digest now c =
     (case open_blob cl digest (cq_repository rq) (cq_branch rq) (cq_architecture rq) (cq_key rq) now c of
        Inr blob \<Rightarrow> Inr (c, Blob_Answer (''sha256:'' @ digest) blob)
      | Inl Blob_Not_Found \<Rightarrow> Inr (c, failed 404 ''unknown cache blob'')
      | Inl (Cache_Error m) \<Rightarrow> Inl (ValueError m))"

definition LOOKUP_PATH :: string where "LOOKUP_PATH = ''/v1/cache/lookup''"
definition ENTRIES_PATH :: string where "ENTRIES_PATH = ''/v1/cache/entries''"
definition BLOBS_PATH :: string where "BLOBS_PATH = ''/v1/cache/blobs/''"

definition cache_endpoint ::
  "(string \<Rightarrow> string) \<Rightarrow> (string \<Rightarrow> decoded) \<Rightarrow> gate \<Rightarrow> cache_limits \<Rightarrow> real \<Rightarrow> cache_request \<Rightarrow> cache option \<Rightarrow> cache option \<times> cache_answer" where
  "cache_endpoint sha256 loads g cl now rq store =
     (case store of
        None \<Rightarrow> (None, failed 503 ''cache is not configured'')
      | Some c \<Rightarrow>
          (case agent_authorized sha256 g (cq_authorization rq) of
             Inl _ \<Rightarrow> (Some c, No_Answer)
           | Inr False \<Rightarrow> (Some c, failed 401 ''cache requests require a bearer token'')
           | Inr True \<Rightarrow>
               (let path = url_path (cq_path rq);
                    r = (if path = LOOKUP_PATH \<and> cq_command rq = ''POST'' then cache_lookup_path loads cl rq now c
                         else if path = ENTRIES_PATH \<and> cq_command rq = ''PUT'' then cache_put_path sha256 cl rq now c
                         else if prefix BLOBS_PATH path \<and> cq_command rq = ''GET''
                         then cache_blob_path cl rq (removeprefix BLOBS_PATH path) now c
                         else Inr (c, failed 404 ''not found''))
                in case r of Inl e \<Rightarrow> (Some c, cache_refusal e) | Inr (c', a) \<Rightarrow> (Some c', a))))"

section \<open>The client\<close>

record cache_codec =
  cx_loads :: "string \<Rightarrow> decoded"
  cx_dumps :: "jobj \<Rightarrow> string"
  cx_text :: "string \<Rightarrow> string"
  cx_shown :: "json \<Rightarrow> string"
  cx_sha256 :: "string \<Rightarrow> string"
  cx_tar :: "member list \<Rightarrow> string"
  cx_untar :: "string \<Rightarrow> archive_error + member list"

record cache_client =
  cc_base :: string
  cc_token :: string

text \<open>What comes back: nothing, for the reason given, or a status, the \<open>Content-Length\<close> header and the bytes read.\<close>

datatype cache_reply = No_Reply string | Reply int "string option" string

definition MAX_REPLY :: nat where "MAX_REPLY = 1024 * 1024"

text \<open>\<open>quote(digest, safe="")\<close> of bytes.\<close>

definition hex_digit :: "nat \<Rightarrow> char" where
  "hex_digit n = ''0123456789ABCDEF'' ! n"

definition quote_char :: "char \<Rightarrow> string" where
  "quote_char c =
     (if slug_char c \<or> c = CHR ''~'' then [c] else [CHR ''%'', hex_digit (of_char c div 16), hex_digit (of_char c mod 16)])"

definition url_quote :: "string \<Rightarrow> string" where
  "url_quote s = concat (map quote_char s)"

definition empty_request :: "cache_client \<Rightarrow> string \<Rightarrow> string \<Rightarrow> cache_request" where
  "empty_request cc command path =
     \<lparr>cq_command = command, cq_path = cc_base cc @ path, cq_authorization = ''Bearer '' @ cc_token cc, cq_length = None,
      cq_repository = [], cq_branch = [], cq_architecture = [], cq_key = [], cq_body = []\<rparr>"

definition lookup_payload :: "string \<Rightarrow> string \<Rightarrow> string \<Rightarrow> string \<Rightarrow> string list \<Rightarrow> jobj" where
  "lookup_payload repository branch architecture key restore_keys =
     [(''repository'', JStr repository), (''branch'', JStr branch), (''architecture'', JStr architecture), (''key'', JStr key),
      (''restore_keys'', JList (map JStr restore_keys))]"

definition lookup_request :: "cache_codec \<Rightarrow> cache_client \<Rightarrow> string \<Rightarrow> string \<Rightarrow> string \<Rightarrow> string \<Rightarrow> string list \<Rightarrow> cache_request" where
  "lookup_request cx cc repository branch architecture key restore_keys =
     (let body = cx_dumps cx (lookup_payload repository branch architecture key restore_keys)
      in (empty_request cc ''POST'' LOOKUP_PATH)\<lparr>cq_length := Some (nat_str (length body)), cq_body := body\<rparr>)"

definition blob_request :: "cache_client \<Rightarrow> string \<Rightarrow> string \<Rightarrow> string \<Rightarrow> string \<Rightarrow> string \<Rightarrow> cache_request" where
  "blob_request cc digest repository branch architecture key =
     (empty_request cc ''GET'' (BLOBS_PATH @ url_quote digest))
       \<lparr>cq_repository := repository, cq_branch := branch, cq_architecture := architecture, cq_key := key\<rparr>"

definition put_request :: "cache_client \<Rightarrow> string \<Rightarrow> string \<Rightarrow> string \<Rightarrow> string \<Rightarrow> string \<Rightarrow> cache_request" where
  "put_request cc repository branch architecture key archive =
     (empty_request cc ''PUT'' ENTRIES_PATH)
       \<lparr>cq_length := Some (nat_str (length archive)), cq_repository := repository, cq_branch := branch, cq_architecture := architecture,
        cq_key := key, cq_body := archive\<rparr>"

definition bad_status :: "cache_codec \<Rightarrow> string \<Rightarrow> int \<Rightarrow> string \<Rightarrow> string" where
  "bad_status cx what status body = ''cache '' @ what @ '' failed with HTTP '' @ int_str status @ '': '' @ cx_text cx body"

text \<open>A failure whose exception is caught and logged, and one whose exception is not.\<close>

datatype cache_failure = Skips string | Escapes string

definition read_lookup :: "cache_codec \<Rightarrow> cache_reply \<Rightarrow> cache_failure + jobj option" where
  "read_lookup cx reply =
     (case reply of
        No_Reply m \<Rightarrow> Inl (Skips (''cache request failed: '' @ m))
      | Reply status _ stream \<Rightarrow>
          (let body = take MAX_REPLY stream in
           if status \<noteq> 200 then Inl (Skips (bad_status cx ''lookup'' status body))
           else case cx_loads cx body of
                  Not_Json _ \<Rightarrow> Inl (Skips ''cache lookup returned invalid JSON'')
                | Not_Text m \<Rightarrow> Inl (Skips m)
                | Too_Deep m \<Rightarrow> Inl (Escapes m)
                | Json (JObj kvs) \<Rightarrow>
                    (case (map_of kvs ''hit'', map_of kvs ''entry'') of
                       (Some (JBool True), Some (JObj e)) \<Rightarrow> Inr (Some e)
                     | (Some (JBool True), _) \<Rightarrow> Inl (Skips ''cache lookup returned an invalid entry'')
                     | (Some (JBool False), _) \<Rightarrow> Inr None
                     | _ \<Rightarrow> Inl (Skips ''cache lookup returned an invalid response''))
                | Json _ \<Rightarrow> Inl (Skips ''cache lookup returned an invalid response'')))"

definition exn_text :: "py_exn \<Rightarrow> string" where
  "exn_text e = (case e of ValueError m \<Rightarrow> m | KeyError k \<Rightarrow> [CHR 0x27] @ k @ [CHR 0x27] | TypeError m \<Rightarrow> m | RuntimeError m \<Rightarrow> m | _ \<Rightarrow> [])"

definition read_download :: "cache_codec \<Rightarrow> string \<Rightarrow> cache_reply \<Rightarrow> cache_failure + string" where
  "read_download cx digest reply =
     (case reply of
        No_Reply m \<Rightarrow> Inl (Skips (''cache request failed: '' @ m))
      | Reply status len body \<Rightarrow>
          if status \<noteq> 200 then Inl (Skips (bad_status cx ''download'' status (take MAX_REPLY body)))
          else (case int_value (JStr (case len of None \<Rightarrow> ''-1'' | Some t \<Rightarrow> t)) of
                  Inl e \<Rightarrow> Inl (Skips (exn_text e))
                | Inr n \<Rightarrow>
                    if n < 0 \<or> n > MAX_CACHE_BLOB_BYTES then Inl (Skips ''cache download has an invalid size'')
                    else if int (length body) \<noteq> n \<or> cx_sha256 cx body \<noteq> digest then Inl (Skips ''cache blob failed its content digest check'')
                    else Inr body))"

definition read_upload :: "cache_codec \<Rightarrow> cache_reply \<Rightarrow> cache_failure + jobj" where
  "read_upload cx reply =
     (case reply of
        No_Reply m \<Rightarrow> Inl (Skips (''cache upload failed: '' @ m))
      | Reply status _ stream \<Rightarrow>
          (let body = take MAX_REPLY stream in
           if status \<notin> {200, 201} then Inl (Skips (bad_status cx ''upload'' status body))
           else case cx_loads cx body of
                  Not_Json _ \<Rightarrow> Inl (Skips ''cache upload returned invalid JSON'')
                | Not_Text m \<Rightarrow> Inl (Skips m)
                | Too_Deep m \<Rightarrow> Inl (Escapes m)
                | Json (JObj kvs) \<Rightarrow>
                    (case map_of kvs ''entry'' of
                       Some (JObj _) \<Rightarrow> Inr kvs
                     | _ \<Rightarrow> Inl (Skips ''cache upload returned an invalid response''))
                | Json _ \<Rightarrow> Inl (Skips ''cache upload returned an invalid response'')))"

section \<open>Restoring and storing\<close>

type_synonym 's broker = "cache_request \<Rightarrow> 's \<Rightarrow> 's \<times> cache_reply"

fun archive_failure :: "archive_error \<Rightarrow> cache_failure" where
  "archive_failure (Cache_Archive_Error m) = Skips m"
| "archive_failure (Archive_OS_Error m) = Skips m"
| "archive_failure (Zlib_Error m) = Escapes m"

text \<open>The line that is logged for a failure, or the text of the exception that is raised.\<close>

fun failure_line :: "string \<Rightarrow> cache_failure \<Rightarrow> string + string" where
  "failure_line what (Skips m) = Inr (what @ m)"
| "failure_line what (Escapes m) = Inl m"

definition entry_text :: "cache_codec \<Rightarrow> jobj \<Rightarrow> string \<Rightarrow> cache_failure + string" where
  "entry_text cx e field = (case item e field of Inl x \<Rightarrow> Inl (Skips (exn_text x)) | Inr v \<Rightarrow> Inr (py_str (cx_shown cx) v))"

definition fetch_blob :: "cache_codec \<Rightarrow> cache_client \<Rightarrow> 's broker \<Rightarrow> job_spec \<Rightarrow> cache_plan \<Rightarrow> jobj \<Rightarrow> 's \<Rightarrow> 's \<times> (cache_failure + string)" where
  "fetch_blob cx cc send job plan e s =
     (case rbind (entry_text cx e ''digest'') (\<lambda>d. rbind (entry_text cx e ''key'') (\<lambda>k. Inr (d, k))) of
        Inl m \<Rightarrow> (s, Inl m)
      | Inr (digest, key) \<Rightarrow>
          (let (s', reply) = send (blob_request cc digest (js_repository job) (js_ref job) (cp_architecture plan) key) s
           in (s', read_download cx digest reply)))"

text \<open>One plan of \<open>restore_caches\<close>: the broker, the directory of the plan, and the line of the log or the exception.\<close>

definition restore_plan ::
  "cache_codec \<Rightarrow> cache_client \<Rightarrow> 's broker \<Rightarrow> job_spec \<Rightarrow> cache_plan \<Rightarrow> 's \<Rightarrow> tree option \<Rightarrow> 's \<times> tree option \<times> (string + string)" where
  "restore_plan cx cc send job plan s dir =
     (let failed = failure_line (''cindral: cache restore skipped for '' @ cp_name plan @ '': '');
          (s1, reply) = send (lookup_request cx cc (js_repository job) (js_ref job) (cp_architecture plan) (cp_key plan) (cp_prefixes plan)) s
      in case read_lookup cx reply of
           Inl m \<Rightarrow> (s1, dir, failed m)
         | Inr None \<Rightarrow> (s1, dir, Inr (''cindral: cache miss '' @ cp_name plan))
         | Inr (Some e) \<Rightarrow>
             (case fetch_blob cx cc send job plan e s1 of
                (s2, Inl m) \<Rightarrow> (s2, dir, failed m)
              | (s2, Inr blob) \<Rightarrow>
                  (case restore_archive (cx_untar cx blob) dir of
                     (dir', Inl m) \<Rightarrow> (s2, dir', failed (archive_failure m))
                   | (dir', Inr _) \<Rightarrow>
                       (s2, dir', Inr (''cindral: cache hit '' @ cp_name plan @ '' ('' @ py_str (cx_shown cx) (field_or e ''key'' JNull) @ '')'')))))"

record 's cache_run =
  ru_broker :: 's
  ru_dirs :: "string \<rightharpoonup> tree"
  ru_env :: "(string \<times> string) list"
  ru_log :: "string list"
  ru_raised :: "string option"

text \<open>What stands in the way of a directory, if anything: a link on its path, or a file the directory cannot be made over.\<close>

definition prepared :: "string \<Rightarrow> (string \<rightharpoonup> tree) \<Rightarrow> (string \<rightharpoonup> tree)" where
  "prepared path dirs = (if dirs path = None then dirs(path \<mapsto> empty_tree) else dirs)"

definition run_restore ::
  "cache_codec \<Rightarrow> cache_client option \<Rightarrow> 's broker \<Rightarrow> (string \<Rightarrow> string option) \<Rightarrow> job_spec \<Rightarrow> cache_plan \<Rightarrow> 's cache_run \<Rightarrow> 's cache_run" where
  "run_restore cx client send obstacle job plan r =
     (case obstacle (cp_path plan) of
        Some m \<Rightarrow> r\<lparr>ru_log := ru_log r @ [''cindral: cache directory skipped for '' @ cp_name plan @ '': '' @ m]\<rparr>
      | None \<Rightarrow>
          (let r1 = r\<lparr>ru_dirs := prepared (cp_path plan) (ru_dirs r), ru_env := dict_update (ru_env r) (cp_environment plan)\<rparr>
           in case client of
                None \<Rightarrow> r1
              | Some cc \<Rightarrow>
                  (let (s, dir, line) = restore_plan cx cc send job plan (ru_broker r1) (ru_dirs r1 (cp_path plan))
                   in r1\<lparr>ru_broker := s, ru_dirs := (ru_dirs r1)(cp_path plan := dir),
                         ru_log := ru_log r1 @ (case line of Inl _ \<Rightarrow> [] | Inr l \<Rightarrow> [l]),
                         ru_raised := (case line of Inl m \<Rightarrow> Some m | Inr _ \<Rightarrow> None)\<rparr>)))"

text \<open>An exception that is not caught ends the loop over the plans.\<close>

fun restore_plans ::
  "cache_codec \<Rightarrow> cache_client option \<Rightarrow> 's broker \<Rightarrow> (string \<Rightarrow> string option) \<Rightarrow> job_spec \<Rightarrow> cache_plan list \<Rightarrow> 's cache_run \<Rightarrow> 's cache_run" where
  "restore_plans cx client send obstacle job [] r = r"
| "restore_plans cx client send obstacle job (plan # plans) r =
     (let r1 = run_restore cx client send obstacle job plan r
      in if ru_raised r1 \<noteq> None then r1 else restore_plans cx client send obstacle job plans r1)"

text \<open>
  One plan of \<open>store_caches\<close>: the line of the log, \<open>None\<close> for a plan with nothing worth storing, or the exception
  that is not caught.
\<close>

definition store_plan ::
  "cache_codec \<Rightarrow> cache_client \<Rightarrow> 's broker \<Rightarrow> job_spec \<Rightarrow> cache_plan \<Rightarrow> entries option \<Rightarrow> 's \<Rightarrow> 's \<times> (string + string option)" where
  "store_plan cx cc send job plan content s =
     (let failed = (\<lambda>m. map_sum (\<lambda>m. m) Some (failure_line (''cindral: cache write skipped for '' @ cp_name plan @ '': '') m))
      in case create_archive content of
           Inl m \<Rightarrow> (s, failed (archive_failure m))
         | Inr (_, False) \<Rightarrow> (s, Inr None)
         | Inr (ms, True) \<Rightarrow>
             (let archive = cx_tar cx ms in
              if int (length archive) > MAX_CACHE_BLOB_BYTES then (s, failed (Skips ''cache archive exceeds the upload size limit''))
              else let (s', reply) = send (put_request cc (js_repository job) (js_ref job) (cp_architecture plan) (cp_key plan) archive) s
                   in case read_upload cx reply of
                        Inl m \<Rightarrow> (s', failed m)
                      | Inr result \<Rightarrow>
                          (s', Inr (Some (''cindral: cache '' @ (if truthy (field_or result ''created'' JNull) then ''stored'' else ''already exists'') @
                             '' '' @ cp_name plan)))))"

fun store_plans ::
  "cache_codec \<Rightarrow> cache_client option \<Rightarrow> 's broker \<Rightarrow> job_spec \<Rightarrow> cache_plan list \<Rightarrow> (string \<Rightarrow> entries option) \<Rightarrow> 's \<Rightarrow> 's \<times> string list \<times> string option" where
  "store_plans cx client send job [] content s = (s, [], None)"
| "store_plans cx client send job (plan # plans) content s =
     (case client of
        None \<Rightarrow> (s, [], None)
      | Some cc \<Rightarrow>
          (case store_plan cx cc send job plan (content (cp_path plan)) s of
             (s1, Inl m) \<Rightarrow> (s1, [], Some m)
           | (s1, Inr line) \<Rightarrow>
               (let (s2, lines, raised) = store_plans cx client send job plans content s1
                in (s2, (case line of None \<Rightarrow> [] | Some l \<Rightarrow> [l]) @ lines, raised))))"

text \<open>
  \<open>run_cached_job\<close>: the detection, the restore, the steps with the mounted caches, and the store after a run that
  exited zero and was not cancelled. The steps answer their code and what the directories hold after them. The run
  ends with the code, or with the exception of the detection, the restore or the store that nothing here catches.
\<close>

definition cached_run ::
  "cache_codec \<Rightarrow> cache_files \<Rightarrow> cache_client option \<Rightarrow> 's broker \<Rightarrow> (string \<Rightarrow> string option) \<Rightarrow> job_spec \<Rightarrow> string \<Rightarrow> string \<Rightarrow> string \<Rightarrow> bool \<Rightarrow>
   (string option \<Rightarrow> (string \<times> string) list \<Rightarrow> (string \<rightharpoonup> tree) \<Rightarrow> int \<times> (string \<Rightarrow> entries option)) \<Rightarrow> (string \<rightharpoonup> tree) \<Rightarrow> 's \<Rightarrow>
   's \<times> string list \<times> (string + int)" where
  "cached_run cx cf client send obstacle job repository cache_root machine cancelled run_the_steps dirs s =
     (case (case detect_cache_plans (cx_sha256 cx) cf repository cache_root (architecture_name machine) of
              Inl RecursionError \<Rightarrow> Inl (exn_text RecursionError)
            | Inl e \<Rightarrow> Inr ([], [''cindral: cache detection skipped: '' @ exn_text e])
            | Inr plans \<Rightarrow> Inr (plans, [])) of
        Inl m \<Rightarrow> (s, [], Inl m)
      | Inr (plans, detected) \<Rightarrow>
          (let r = restore_plans cx client send obstacle job plans
                     \<lparr>ru_broker = s, ru_dirs = dirs, ru_env = [], ru_log = detected, ru_raised = None\<rparr>;
               mount_root = (if list_ex (\<lambda>p. cp_environment p \<noteq> []) plans then Some cache_root else None)
           in case ru_raised r of
                Some m \<Rightarrow> (ru_broker r, ru_log r, Inl m)
              | None \<Rightarrow>
                  (let (code, content) = run_the_steps mount_root (ru_env r) (ru_dirs r)
                   in if code = 0 \<and> \<not> cancelled
                      then (case store_plans cx client send job plans content (ru_broker r) of
                              (s', lines, None) \<Rightarrow> (s', ru_log r @ lines, Inr code)
                            | (s', lines, Some m) \<Rightarrow> (s', ru_log r @ lines, Inl m))
                      else (ru_broker r, ru_log r, Inr code))))"

text \<open>A broker that serves the endpoints: what it answers, as its reply.\<close>

definition reply_of :: "cache_codec \<Rightarrow> cache_answer \<Rightarrow> cache_reply" where
  "reply_of cx a =
     (case a of
        Json_Answer status kvs \<Rightarrow> Reply status (Some (nat_str (length (cx_dumps cx kvs)))) (cx_dumps cx kvs)
      | Blob_Answer _ body \<Rightarrow> Reply 200 (Some (nat_str (length body))) body
      | No_Answer \<Rightarrow> No_Reply ''Remote end closed connection without response'')"

definition served :: "cache_codec \<Rightarrow> gate \<Rightarrow> cache_limits \<Rightarrow> real \<Rightarrow> cache option broker" where
  "served cx g cl now rq store =
     (let (store', a) = cache_endpoint (cx_sha256 cx) (cx_loads cx) g cl now rq store in (store', reply_of cx a))"

section \<open>A cache costs nothing but itself\<close>

text \<open>The environment of a run: that of every plan whose directory can be made, whatever the broker says.\<close>

definition plan_environment :: "(string \<Rightarrow> string option) \<Rightarrow> cache_plan list \<Rightarrow> (string \<times> string) list \<Rightarrow> (string \<times> string) list" where
  "plan_environment obstacle plans env =
     foldl dict_update env (map cp_environment (filter (\<lambda>p. obstacle (cp_path p) = None) plans))"

text \<open>A directory as a restore may leave it, from the one that was there.\<close>

definition contained_restore :: "tree option \<Rightarrow> tree option \<Rightarrow> bool" where
  "contained_restore before_dir after_dir \<longleftrightarrow>
     after_dir = before_dir \<or>
     (\<exists>t. after_dir = Some t \<and> tree_ok t \<and> length (tr_files t) \<le> MAX_CACHE_FILES \<and> tree_bytes t \<le> MAX_RESTORED_CACHE_BYTES)"

definition honest_untar :: "cache_codec \<Rightarrow> bool" where
  "honest_untar cx \<longleftrightarrow> (\<forall>blob ms. cx_untar cx blob = Inr ms \<longrightarrow> list_all honest_member ms)"

lemma contained_restore_refl [simp]: "contained_restore d d"
  by (simp add: contained_restore_def)

lemma empty_tree_contained: "contained_restore d (Some empty_tree)"
  by (simp add: contained_restore_def empty_tree_def tree_ok_def tree_bytes_def MAX_RESTORED_CACHE_BYTES_def)

lemma contained_restore_trans: "contained_restore a b \<Longrightarrow> contained_restore b c \<Longrightarrow> contained_restore a c"
  unfolding contained_restore_def by auto

lemma restore_archive_contained:
  assumes "restore_archive opened d = (d', r)" and "\<And>ms. opened = Inr ms \<Longrightarrow> list_all honest_member ms"
  shows "contained_restore d d'"
  using extraction_is_contained [OF assms] by (cases r) (auto simp: contained_restore_def)

lemma restore_plan_contained: "honest_untar cx \<Longrightarrow> restore_plan cx cc send job plan s d = (s', d', line) \<Longrightarrow> contained_restore d d'"
  by (auto simp: restore_plan_def Let_def honest_untar_def
      split: prod.splits sum.splits option.splits elim!: restore_archive_contained)

lemma run_restore_effect:
  assumes "honest_untar cx" and "r' = run_restore cx client send obstacle job plan r"
  shows "ru_env r' = plan_environment obstacle [plan] (ru_env r)" and "q \<noteq> cp_path plan \<Longrightarrow> ru_dirs r' q = ru_dirs r q"
    and "contained_restore (ru_dirs r q) (ru_dirs r' q)"
proof -
  let ?d = "prepared (cp_path plan) (ru_dirs r)"
  have prep: "contained_restore (ru_dirs r q) (?d q)" for q
    using empty_tree_contained by (auto simp: prepared_def)
  show "ru_env r' = plan_environment obstacle [plan] (ru_env r)"
    using assms(2) by (auto simp: run_restore_def plan_environment_def Let_def split: option.split prod.split)
  show "ru_dirs r' q = ru_dirs r q" if "q \<noteq> cp_path plan"
    using assms(2) that by (auto simp: run_restore_def prepared_def Let_def split: option.split prod.split)
  show "contained_restore (ru_dirs r q) (ru_dirs r' q)"
  proof (cases "q = cp_path plan \<and> obstacle (cp_path plan) = None")
    case True
    show ?thesis
    proof (cases client)
      case None
      then show ?thesis using assms(2) True prep by (simp add: run_restore_def Let_def)
    next
      case (Some cc)
      obtain s d line where p: "restore_plan cx cc send job plan (ru_broker r) (?d q) = (s, d, line)" by (metis prod_cases3)
      have "ru_dirs r' q = d" using assms(2) True Some p by (simp add: run_restore_def Let_def)
      then show ?thesis using contained_restore_trans [OF prep restore_plan_contained [OF assms(1) p]] by simp
    qed
  next
    case False
    then show ?thesis using assms(2) prep
      by (auto simp: run_restore_def prepared_def Let_def contained_restore_def split: option.split prod.split)
  qed
qed

lemma plan_environment_Cons: "plan_environment obstacle (p # ps) env = plan_environment obstacle ps (plan_environment obstacle [p] env)"
  by (simp add: plan_environment_def)

text \<open>
  What no handler of the restore catches: a reply of the broker that is nested too deeply for \<open>json.loads\<close>, or one
  whose bytes are an archive with broken compressed data.
\<close>

definition breaks :: "cache_codec \<Rightarrow> 's broker \<Rightarrow> string \<Rightarrow> bool" where
  "breaks cx send m \<longleftrightarrow>
     (\<exists>rq s s' status len stream. send rq s = (s', Reply status len stream) \<and>
        (cx_loads cx (take MAX_REPLY stream) = Too_Deep m \<or> rbind (cx_untar cx stream) extract_archive = Inl (Zlib_Error m)))"

lemma failure_line_Inl [simp]: "failure_line what f = Inl m \<longleftrightarrow> f = Escapes m"
  by (cases f) auto

lemma archive_failure_Escapes [simp]: "archive_failure e = Escapes m \<longleftrightarrow> e = Zlib_Error m"
  by (cases e) auto

lemma read_lookup_Escapes: "read_lookup cx reply = Inl (Escapes m) \<Longrightarrow> \<exists>status len stream. reply = Reply status len stream \<and> cx_loads cx (take MAX_REPLY stream) = Too_Deep m"
  by (auto simp: read_lookup_def Let_def split: cache_reply.splits decoded.splits json.splits option.splits bool.splits if_splits)

lemma read_download_cases: "read_download cx digest reply = Inl (Escapes m) \<Longrightarrow> False" "read_download cx digest reply = Inr blob \<Longrightarrow> \<exists>len. reply = Reply 200 len blob"
  by (auto simp: read_download_def split: cache_reply.splits sum.splits if_splits)

lemma fetch_blob_Escapes: "fetch_blob cx cc send job plan e s \<noteq> (s', Inl (Escapes m))"
  by (auto simp: fetch_blob_def entry_text_def rbind_Inr_conv rbind_def split: sum.splits prod.splits dest: read_download_cases)

lemma fetch_blob_Inr: "fetch_blob cx cc send job plan e s = (s', Inr blob) \<Longrightarrow> \<exists>rq len. send rq s = (s', Reply 200 len blob)"
  by (auto simp: fetch_blob_def split: sum.splits prod.splits dest!: read_download_cases(2))

lemma restore_plan_raises: "restore_plan cx cc send job plan s d = (s', d', Inl m) \<Longrightarrow> breaks cx send m"
proof -
  assume r: "restore_plan cx cc send job plan s d = (s', d', Inl m)"
  obtain s1 reply where one: "send (lookup_request cx cc (js_repository job) (js_ref job) (cp_architecture plan) (cp_key plan) (cp_prefixes plan)) s = (s1, reply)"
    by (metis surj_pair)
  show ?thesis
  proof (cases "read_lookup cx reply")
    case (Inl f)
    then have "f = Escapes m" using r one by (simp add: restore_plan_def Let_def)
    then show ?thesis using read_lookup_Escapes Inl one unfolding breaks_def by metis
  next
    case (Inr found)
    then obtain e where e: "found = Some e" using r one by (auto simp: restore_plan_def Let_def split: option.splits)
    obtain s2 fetched where two: "fetch_blob cx cc send job plan e s1 = (s2, fetched)" by (metis surj_pair)
    show ?thesis
    proof (cases fetched)
      case (Inl f)
      then have "f = Escapes m" using r one two Inr e by (simp add: restore_plan_def Let_def)
      then show ?thesis using fetch_blob_Escapes two Inl by metis
    next
      case blob: (Inr blob)
      have "rbind (cx_untar cx blob) extract_archive = Inl (Zlib_Error m)"
        using r one two Inr e blob by (auto simp: restore_plan_def restore_archive_def Let_def split: sum.splits)
      then show ?thesis using fetch_blob_Inr [OF two [unfolded blob]] unfolding breaks_def by blast
    qed
  qed
qed

lemma run_restore_raises: "ru_raised r = None \<Longrightarrow> ru_raised (run_restore cx client send obstacle job plan r) = Some m \<Longrightarrow> breaks cx send m"
  by (auto simp: run_restore_def Let_def split: option.splits prod.splits sum.splits intro: restore_plan_raises)

text \<open>
  C32: a cache touches nothing but its own directories. Whatever a broker answers, and whether there is one, restoring
  the caches of a run ends and touches the directories of the plans only: each is what it was, or a tree inside its
  directory and the limits on its files and bytes. Unless the restore raises, it gives the steps the environment of
  the plans, the same whatever the broker said; and it raises only for a reply of the broker nested too deeply for
  the JSON decoder or holding an archive with broken compressed data.
\<close>

theorem cache_restore_is_contained:
  assumes "honest_untar cx" and "ru_raised r = None"
  shows "let r' = restore_plans cx client send obstacle job plans r in
     (\<forall>q. contained_restore (ru_dirs r q) (ru_dirs r' q)) \<and> {q. ru_dirs r' q \<noteq> ru_dirs r q} \<subseteq> cp_path ` set plans \<and>
     (case ru_raised r' of None \<Rightarrow> ru_env r' = plan_environment obstacle plans (ru_env r) | Some m \<Rightarrow> breaks cx send m)"
  using assms(2)
proof (induction plans arbitrary: r)
  case (Cons plan plans)
  define r1 where "r1 = run_restore cx client send obstacle job plan r"
  have e: "ru_env r1 = plan_environment obstacle [plan] (ru_env r)" "\<And>q. q \<noteq> cp_path plan \<Longrightarrow> ru_dirs r1 q = ru_dirs r q"
      "\<And>q. contained_restore (ru_dirs r q) (ru_dirs r1 q)"
    by (rule run_restore_effect [OF assms(1) r1_def], assumption?)+
  show ?case
  proof (cases "ru_raised r1")
    case (Some m)
    then have "restore_plans cx client send obstacle job (plan # plans) r = r1" by (simp add: Let_def flip: r1_def)
    moreover have "breaks cx send m" using run_restore_raises Cons.prems Some unfolding r1_def by blast
    moreover have "{q. ru_dirs r1 q \<noteq> ru_dirs r q} \<subseteq> cp_path ` set (plan # plans)" using e(2) by auto
    ultimately show ?thesis using e(3) Some by (simp add: Let_def)
  next
    case None
    have step: "restore_plans cx client send obstacle job (plan # plans) r = restore_plans cx client send obstacle job plans r1"
      using None by (simp add: Let_def flip: r1_def)
    note ih = Cons.IH [OF None, unfolded Let_def]
    have "ru_dirs (restore_plans cx client send obstacle job plans r1) q = ru_dirs r q" if "q \<notin> cp_path ` set (plan # plans)" for q
    proof -
      have "q \<notin> cp_path ` set plans" "q \<noteq> cp_path plan" using that by simp_all
      then show ?thesis using ih e(2) by (metis (mono_tags, lifting) mem_Collect_eq subsetD)
    qed
    moreover have "contained_restore (ru_dirs r q) (ru_dirs (restore_plans cx client send obstacle job plans r1) q)" for q
      using ih contained_restore_trans [OF e(3)] by blast
    ultimately show ?thesis unfolding step Let_def
      using ih e(1) by (auto simp: plan_environment_Cons [of obstacle plan plans] split: option.split)
  qed
qed (simp add: plan_environment_def)

text \<open>Both do raise: the plan's restore ends with the exception, and so does the run, before any of its steps.\<close>

lemma deep_reply_raises:
  assumes "send (lookup_request cx cc (js_repository job) (js_ref job) (cp_architecture plan) (cp_key plan) (cp_prefixes plan)) s = (s', Reply 200 len stream)"
    and "cx_loads cx (take MAX_REPLY stream) = Too_Deep m"
  shows "restore_plan cx cc send job plan s d = (s', d, Inl m)"
  using assms by (simp add: restore_plan_def read_lookup_def Let_def)

lemma broken_archive_raises:
  assumes "send (lookup_request cx cc (js_repository job) (js_ref job) (cp_architecture plan) (cp_key plan) (cp_prefixes plan)) s = (s1, reply)"
    and "read_lookup cx reply = Inr (Some e)" and "fetch_blob cx cc send job plan e s1 = (s2, Inr blob)"
    and "rbind (cx_untar cx blob) extract_archive = Inl (Zlib_Error m)"
  shows "restore_plan cx cc send job plan s d = (s2, d, Inl m)"
  using assms by (simp add: restore_plan_def restore_archive_def Let_def)

lemma raised_restore_loses_the_run:
  assumes "detect_cache_plans (cx_sha256 cx) cf repository cache_root (architecture_name machine) = Inr plans"
    and "ru_raised (restore_plans cx client send obstacle job plans \<lparr>ru_broker = s, ru_dirs = dirs, ru_env = [], ru_log = [], ru_raised = None\<rparr>) = Some m"
  shows "snd (snd (cached_run cx cf client send obstacle job repository cache_root machine cancelled run_the_steps dirs s)) = Inl m"
  using assms by (simp add: cached_run_def Let_def)

definition sample_job :: job_spec where
  "sample_job = \<lparr>js_id = ''7'', js_repository = ''o/r'', js_sha = [], js_ref = ''main'', js_command = [], js_timeout = 60\<rparr>"

definition sample_plan :: cache_plan where
  "sample_plan = \<lparr>cp_name = ''uv'', cp_architecture = ''arm64'', cp_key = ''uv-1'', cp_prefixes = [''uv-''], cp_path = ''/w/uv'',
     cp_environment = [(''UV_CACHE_DIR'', ''/cindral-cache/uv'')]\<rparr>"

definition silent_codec :: cache_codec where
  "silent_codec =
     \<lparr>cx_loads = (\<lambda>_. Not_Json []), cx_dumps = (\<lambda>_. []), cx_text = (\<lambda>s. s), cx_shown = (\<lambda>_. []), cx_sha256 = (\<lambda>s. s), cx_tar = (\<lambda>_. []),
      cx_untar = (\<lambda>_. Inl (Cache_Archive_Error []))\<rparr>"

theorem cache_restore_is_contained_witness:
  "ru_env (restore_plans silent_codec (Some \<lparr>cc_base = [], cc_token = []\<rparr>) (\<lambda>_ s. (s, Reply 200 None ''junk'')) (\<lambda>_. None) sample_job [sample_plan]
     \<lparr>ru_broker = (), ru_dirs = Map.empty, ru_env = [], ru_log = [], ru_raised = None\<rparr>) = [(''UV_CACHE_DIR'', ''/cindral-cache/uv'')]"
proof -
  let ?r = "\<lparr>ru_broker = (), ru_dirs = Map.empty, ru_env = [], ru_log = [], ru_raised = None\<rparr>"
  let ?r' = "restore_plans silent_codec (Some \<lparr>cc_base = [], cc_token = []\<rparr>) (\<lambda>_ s. (s, Reply 200 None ''junk'')) (\<lambda>_. None) sample_job [sample_plan] ?r"
  have honest: "honest_untar silent_codec" by (simp add: honest_untar_def silent_codec_def)
  have whole: "\<not> breaks silent_codec (\<lambda>_ s. (s :: unit, Reply 200 None ''junk'')) m" for m
    by (simp add: breaks_def silent_codec_def)
  have fresh: "ru_raised ?r = None" by simp
  note t = cache_restore_is_contained [OF honest fresh, of "Some \<lparr>cc_base = [], cc_token = []\<rparr>" "\<lambda>_ s. (s, Reply 200 None ''junk'')" "\<lambda>_. None" sample_job
      "[sample_plan]", unfolded Let_def]
  have "ru_raised ?r' = None" using t whole by (cases "ru_raised ?r'") simp_all
  then have "ru_env ?r' = plan_environment (\<lambda>_. None) [sample_plan] (ru_env ?r)" using t by simp
  then show ?thesis by (simp add: plan_environment_def sample_plan_def dict_update_def)
qed

end
