(* ===== verification/Cache_Exchange.thy ===== *)
theory Cache_Exchange
  imports Cache_Client
begin

text \<open>
  A run's cache and the broker together (\<open>cache_client.py\<close>, \<open>cache_api.py\<close>, \<open>cache.py\<close>, \<open>cache_adapters.py\<close>): with
  the endpoints over a store as the broker, whatever a run restores was uploaded for its own repository and ref,
  and what a run stores the next run of the branch gets back.
\<close>

section \<open>Where a restored cache comes from\<close>

text \<open>Decimal texts read back.\<close>

lemma digits_value_snoc: "Step_Records.digits_value (ds @ [d]) = 10 * Step_Records.digits_value ds + (int (of_char d) - 48)"
  by (simp add: Step_Records.digits_value_def)

lemma nat_str_digits: "nat_str n \<noteq> [] \<and> list_all is_digit (nat_str n) \<and> Step_Records.digits_value (nat_str n) = int n"
proof (induction n rule: nat_str.induct)
  case (1 n)
  have d: "is_digit (char_of (48 + n mod 10))" "int (of_char (char_of (48 + n mod 10) :: char)) = 48 + int (n mod 10)"
  proof -
    have le: "n mod 10 \<le> 9" using pos_mod_bound [of 10 "int n"] by linarith
    then have m: "(48 + n mod 10) mod 256 = 48 + n mod 10" by (intro mod_less) linarith
    show "is_digit (char_of (48 + n mod 10))" using le m by (simp add: is_digit_def less_eq_char_def)
    show "int (of_char (char_of (48 + n mod 10) :: char)) = 48 + int (n mod 10)" using m by simp
  qed
  show ?case
  proof (cases "n < 10")
    case True
    then have "nat_str n = [char_of (48 + n mod 10)]" by (simp add: nat_str.simps [of n])
    then show ?thesis using True d by (simp add: Step_Records.digits_value_def)
  next
    case False
    then have "nat_str n = nat_str (n div 10) @ [char_of (48 + n mod 10)]" by (simp add: nat_str.simps [of n])
    moreover have "10 * int (n div 10) + int (n mod 10) = int n" using mult_div_mod_eq [of 10 "int n"] by (simp add: zdiv_int zmod_int)
    ultimately show ?thesis using 1 False d by (simp add: digits_value_snoc)
  qed
qed


lemma int_value_nat_str: "int_value (JStr (nat_str n)) = Inr (int n)"
proof -
  note ds = nat_str_digits [of n]
  obtain c cs where c: "nat_str n = c # cs" using ds by (cases "nat_str n") auto
  have digit: "is_digit x \<Longrightarrow> \<not> is_space x \<and> x \<noteq> CHR ''-'' \<and> x \<noteq> CHR ''+'' \<and> x \<noteq> CHR ''_''" for x
    by (auto simp: is_digit_def is_space_def less_eq_char_def)
  have "dropWhile is_space (nat_str n) = nat_str n" using ds digit by (auto simp: c)
  moreover have "dropWhile is_space (rev (nat_str n)) = rev (nat_str n)"
    using ds digit by (cases "rev (nat_str n)") (auto simp: list_all_iff simp flip: set_rev [of "nat_str n"])
  ultimately have strip: "strip (nat_str n) = nat_str n" by (simp add: strip_def)
  have "CHR ''_'' \<notin> set (nat_str n)" using ds digit by (auto simp: list_all_iff)
  then have "split_char (CHR ''_'') (nat_str n) = [nat_str n]" by (rule split_char_single)
  then have "int_digits (nat_str n) = Some (int n)" using ds by (simp add: int_digits_def Let_def)
  then have "int_text (nat_str n) = Some (int n)" using ds digit strip by (auto simp: int_text_def c)
  then show ?thesis by simp
qed

text \<open>A codec whose texts are read as what they encode, or not at all; a client may see a text cut short.\<close>

definition codec_ok :: "cache_codec \<Rightarrow> bool" where
  "codec_ok cx \<longleftrightarrow> (\<forall>kvs n m. cx_loads cx (take n (cx_dumps cx kvs)) = Json m \<longrightarrow> m = JObj kvs)"

text \<open>A property of the scope and the digest of every entry.\<close>

definition all_from :: "(string \<times> string \<times> string \<times> string \<Rightarrow> string \<Rightarrow> bool) \<Rightarrow> cache \<Rightarrow> bool" where
  "all_from P c \<longleftrightarrow> (\<forall>r \<in> set (ch_rows c). P (c_id r) (c_digest r))"

lemma all_from_lookup:
  assumes "cache_lookup cl repository branch architecture key restore_keys now c = Inr (c', e)" and "all_from P c"
  shows "all_from P c'"
proof -
  have expired: "r \<in> set (expire_rows cl now (ch_rows c)) \<Longrightarrow> P (c_id r) (c_digest r)" for r
    using assms(2) by (auto simp: all_from_def expire_rows_def)
  have touched: "r \<in> set (update_where Q (touch_row now) rows) \<Longrightarrow> \<exists>s \<in> set rows. c_id r = c_id s \<and> c_digest r = c_digest s" for r Q rows
    by (auto simp: update_where_def touch_row_def c_id_def split: if_splits)
  show ?thesis unfolding all_from_def
  proof
    fix r assume r: "r \<in> set (ch_rows c')"
    have "\<exists>s \<in> set (expire_rows cl now (ch_rows c)). c_id r = c_id s \<and> c_digest r = c_digest s"
      using assms(1) r touched by (auto simp: cache_lookup_def rbind_Inr_conv Let_def delete_row_def split: option.splits if_splits)
    then show "P (c_id r) (c_digest r)" using expired by auto
  qed
qed

lemma lookup_answer:
  assumes "codec_ok cx" and "cx_loads cx = loads"
    and "rq = lookup_request cx cc repository branch architecture key restore_keys"
    and "cache_lookup_path loads cl rq now c = Inr (c', a)"
  obtains found where "cache_lookup cl repository branch architecture key restore_keys now c = Inr (c', found)"
    "a = Json_Answer 200 [(''hit'', JBool (found \<noteq> None)), (''entry'', case found of None \<Rightarrow> JNull | Some e \<Rightarrow> JObj (entry_dict e))]"
proof -
  let ?p = "lookup_payload repository branch architecture key restore_keys"
  have str: "strings_of (map JStr xs) = Some xs" for xs by (induction xs) auto
  have query: "lookup_query ?p = Inr (repository, branch, architecture, key, restore_keys)"
    by (simp add: lookup_query_def lookup_payload_def text_field_def field_or_def str)
  have "read_json loads (cq_length rq) (cq_body rq) = Inr kvs \<Longrightarrow> kvs = [] \<or> kvs = ?p" for kvs
    using assms(1,2) unfolding assms(3) codec_ok_def
    by (auto simp: lookup_request_def read_json_def int_value_nat_str Let_def empty_request_def rbind_Inr_conv nat_str_digits
        split: if_splits decoded.splits json.splits) (metis decoded.inject(1) json.inject(6) order_refl take_all)
  moreover have "lookup_query [] \<noteq> Inr q" for q by (simp add: lookup_query_def text_field_def)
  ultimately show ?thesis using assms(4) query that by (fastforce simp: cache_lookup_path_def rbind_Inr_conv)
qed


lemma served_lookup:
  assumes "codec_ok cx" and "served cx g cl now (lookup_request cx cc repository branch architecture key restore_keys) (Some c) = (s, reply)"
  obtains (none) "s = Some c" "\<And>e. read_lookup cx reply \<noteq> Inr (Some e)"
  | (found) c' e where "s = Some c'" "cache_lookup cl repository branch architecture key restore_keys now c = Inr (c', e)"
      "\<And>kvs. read_lookup cx reply = Inr (Some kvs) \<Longrightarrow> \<exists>entry. e = Some entry \<and> kvs = entry_dict entry"
proof -
  let ?rq = "lookup_request cx cc repository branch architecture key restore_keys"
  obtain store' a where a: "cache_endpoint (cx_sha256 cx) (cx_loads cx) g cl now ?rq (Some c) = (store', a)" "s = store'" "reply = reply_of cx a"
    using assms(2) by (auto simp: served_def split: prod.splits)
  have post: "cq_command ?rq = ''POST''" by (simp add: lookup_request_def empty_request_def Let_def)
  have error: "read_lookup cx (reply_of cx b) \<noteq> Inr (Some e)" if "b = No_Answer \<or> (\<exists>st m. b = failed st m \<and> st \<noteq> 200)" for b e
    using that by (auto simp: reply_of_def read_lookup_def failed_def Let_def)
  have refusal: "cache_refusal x = No_Answer \<or> (\<exists>st m. cache_refusal x = failed st m \<and> st \<noteq> 200)" for x by (cases x) auto
  consider (refused) "store' = Some c" "a = No_Answer \<or> (\<exists>st m. a = failed st m \<and> st \<noteq> 200)"
    | (ok) c' where "store' = Some c'" "cache_lookup_path (cx_loads cx) cl ?rq now c = Inr (c', a)"
    using a(1) post refusal by (auto simp: cache_endpoint_def Let_def split: sum.splits bool.splits if_splits) force+
  then show ?thesis
  proof cases
    case refused
    then show ?thesis using none error a(2,3) by metis
  next
    case (ok c')
    obtain e where e: "cache_lookup cl repository branch architecture key restore_keys now c = Inr (c', e)"
        "a = Json_Answer 200 [(''hit'', JBool (e \<noteq> None)), (''entry'', case e of None \<Rightarrow> JNull | Some x \<Rightarrow> JObj (entry_dict x))]"
      using lookup_answer [OF assms(1) refl refl ok(2)] by blast
    have "\<exists>entry. e = Some entry \<and> kvs = entry_dict entry" if "read_lookup cx reply = Inr (Some kvs)" for kvs
    proof -
      let ?kvs = "[(''hit'', JBool (e \<noteq> None)), (''entry'', case e of None \<Rightarrow> JNull | Some x \<Rightarrow> JObj (entry_dict x))]"
      have "cx_loads cx (take MAX_REPLY (cx_dumps cx ?kvs)) = Json m \<Longrightarrow> m = JObj ?kvs" for m using assms(1) unfolding codec_ok_def by blast
      then show ?thesis using that unfolding a(3) e(2)
        by (cases e) (auto simp: reply_of_def read_lookup_def Let_def split: decoded.splits json.splits option.splits bool.splits if_splits)
    qed
    then show ?thesis using found a(2) ok(1) e(1) by blast
  qed
qed

lemma served_blob:
  assumes "served cx g cl now (blob_request cc digest repository branch architecture key) (Some c) = (s, reply)"
  shows "s = Some c" and "read_download cx digest reply = Inr blob \<Longrightarrow>
    cx_sha256 cx blob = digest \<and> (\<exists>named. open_blob cl named repository branch architecture key now c = Inr blob)"
proof -
  let ?rq = "blob_request cc digest repository branch architecture key"
  obtain store' a where a: "cache_endpoint (cx_sha256 cx) (cx_loads cx) g cl now ?rq (Some c) = (store', a)" "s = store'" "reply = reply_of cx a"
    using assms by (auto simp: served_def split: prod.splits)
  have rq: "cq_command ?rq = ''GET''" "cq_repository ?rq = repository" "cq_branch ?rq = branch" "cq_architecture ?rq = architecture" "cq_key ?rq = key"
    by (simp_all add: blob_request_def empty_request_def)
  have refusal: "cache_refusal x = No_Answer \<or> (\<exists>st m. cache_refusal x = failed st m \<and> st \<noteq> 200)" for x by (cases x) auto
  have a_cases: "store' = Some c \<and> ((a = No_Answer \<or> (\<exists>st m. a = failed st m \<and> st \<noteq> 200)) \<or>
      (\<exists>named b. a = Blob_Answer (''sha256:'' @ named) b \<and> open_blob cl named repository branch architecture key now c = Inr b))"
    using a(1) rq refusal
    by (auto simp: cache_endpoint_def cache_blob_path_def Let_def split: sum.splits bool.splits if_splits cache_open_error.splits)
  then show "s = Some c" using a(2) by simp
  assume "read_download cx digest reply = Inr blob"
  then show "cx_sha256 cx blob = digest \<and> (\<exists>named. open_blob cl named repository branch architecture key now c = Inr blob)"
    using a_cases unfolding a(3)
    by (auto simp: reply_of_def read_download_def failed_def split: sum.splits if_splits)
qed


definition key_fits :: "cache_plan \<Rightarrow> string \<Rightarrow> bool" where
  "key_fits plan key \<longleftrightarrow> key = cp_key plan \<or> (\<exists>p \<in> set (cp_prefixes plan). prefix p key)"

text \<open>A tree that came out of an archive whose scope and digest have the property.\<close>

definition origin :: "cache_codec \<Rightarrow> (string \<times> string \<times> string \<times> string \<Rightarrow> string \<Rightarrow> bool) \<Rightarrow> job_spec \<Rightarrow> cache_plan \<Rightarrow> tree \<Rightarrow> bool" where
  "origin cx P job plan t \<longleftrightarrow>
     (\<exists>key blob ms. P (js_repository job, js_ref job, cp_architecture plan, key) (cx_sha256 cx blob) \<and> key_fits plan key \<and>
        cx_untar cx blob = Inr ms \<and> extract_archive ms = Inr t)"

definition honest_state :: "cache_codec \<Rightarrow> cache_limits \<Rightarrow> (string \<times> string \<times> string \<times> string \<Rightarrow> string \<Rightarrow> bool) \<Rightarrow> cache option \<Rightarrow> bool" where
  "honest_state cx cl P store \<longleftrightarrow> (\<exists>c. store = Some c \<and> cache_ok (cx_sha256 cx) cl c \<and> all_from P c)"

lemma blob_origin:
  assumes "cache_ok (cx_sha256 cx) cl c" and "all_from P c"
    and "served cx g cl now (blob_request cc digest repository branch architecture key) (Some c) = (s, reply)"
    and "read_download cx digest reply = Inr blob"
  shows "P (repository, branch, architecture, key) (cx_sha256 cx blob)"
proof -
  obtain named where named: "open_blob cl named repository branch architecture key now c = Inr blob"
    using served_blob(2) [OF assms(3,4)] by blast
  obtain row where row: "row \<in> set (ch_rows c)" "c_id row = (repository, branch, architecture, key)"
      "c_digest row = named" "ch_blobs c named = Some blob"
    using named by (auto simp: open_blob_def list_ex_iff split: if_splits sum.splits py_exn.splits option.splits)
  have "cx_sha256 cx blob = named" using row(4) assms(1) by (simp add: cache_ok_def)
  then show ?thesis using row(1-3) assms(2) by (auto simp: all_from_def)
qed

lemma restore_plan_cases:
  assumes "restore_plan cx cc send job plan s d = (s', d', line)"
    and "send (lookup_request cx cc (js_repository job) (js_ref job) (cp_architecture plan) (cp_key plan) (cp_prefixes plan)) s = (s1, reply)"
  obtains (unused) "\<And>e. read_lookup cx reply \<noteq> Inr (Some e)" "s' = s1" "d' = d"
  | (fetched) e r where "read_lookup cx reply = Inr (Some e)" "fetch_blob cx cc send job plan e s1 = (s', r)"
      "d' = d \<or> (\<exists>blob t. r = Inr blob \<and> d' = Some t \<and> rbind (cx_untar cx blob) extract_archive = Inr t)"
proof (cases "\<exists>e. read_lookup cx reply = Inr (Some e)")
  case True
  then obtain e where e: "read_lookup cx reply = Inr (Some e)" by blast
  obtain s2 r where r: "fetch_blob cx cc send job plan e s1 = (s2, r)" by (cases "fetch_blob cx cc send job plan e s1")
  have "s' = s2 \<and> (d' = d \<or> (\<exists>blob t. r = Inr blob \<and> d' = Some t \<and> rbind (cx_untar cx blob) extract_archive = Inr t))"
    using assms e r by (auto simp: restore_plan_def restore_archive_def Let_def split: sum.splits prod.splits)
  then show ?thesis using fetched e r by blast
next
  case False
  then have "s' = s1 \<and> d' = d" using assms by (auto simp: restore_plan_def Let_def split: sum.splits option.splits)
  then show ?thesis using unused False by blast
qed

lemma fetch_blob_served:
  assumes "fetch_blob cx cc (served cx g cl now) job plan (entry_dict e) (Some c) = (s', r)" and "cache_ok (cx_sha256 cx) cl c" and "all_from P c"
  shows "s' = Some c" and "r = Inr blob \<Longrightarrow> P (js_repository job, js_ref job, cp_architecture plan, ce_key e) (cx_sha256 cx blob)"
proof -
  let ?br = "blob_request cc (ce_digest e) (js_repository job) (js_ref job) (cp_architecture plan) (ce_key e)"
  obtain s2 reply where s2: "served cx g cl now ?br (Some c) = (s2, reply)" by (cases "served cx g cl now ?br (Some c)")
  then have r: "s' = s2" "r = read_download cx (ce_digest e) reply"
    using assms(1) by (auto simp: fetch_blob_def entry_text_def entry_dict_def item_def)
  then show "s' = Some c" using served_blob(1) [OF s2] by simp
  show "P (js_repository job, js_ref job, cp_architecture plan, ce_key e) (cx_sha256 cx blob)" if "r = Inr blob"
    using blob_origin [OF assms(2,3) s2] that r(2) by simp
qed

lemma restore_plan_origin:
  assumes "codec_ok cx" and "honest_state cx cl P store" and "restore_plan cx cc (served cx g cl now) job plan store d = (s', d', line)"
  shows "honest_state cx cl P s' \<and> (d' = d \<or> (\<exists>t. d' = Some t \<and> origin cx P job plan t))"
proof -
  obtain c where c: "store = Some c" "cache_ok (cx_sha256 cx) cl c" "all_from P c" using assms(2) by (auto simp: honest_state_def)
  let ?rq = "lookup_request cx cc (js_repository job) (js_ref job) (cp_architecture plan) (cp_key plan) (cp_prefixes plan)"
  obtain s1 reply where s1: "served cx g cl now ?rq (Some c) = (s1, reply)" by (cases "served cx g cl now ?rq (Some c)")
  have s1_ok: "honest_state cx cl P s1" using c(2,3)
    by (cases rule: served_lookup [OF assms(1) s1]) (auto simp: honest_state_def intro: cache_lookup_ok all_from_lookup)
  from s1 c(1) have sent: "served cx g cl now ?rq store = (s1, reply)" by simp
  from assms(3) sent show ?thesis
  proof (cases rule: restore_plan_cases)
    case unused
    then show ?thesis using s1_ok by simp
  next
    case (fetched kvs r)
    from served_lookup [OF assms(1) s1] fetched(1) obtain c' e where e: "s1 = Some c'" "kvs = entry_dict e"
        "cache_lookup cl (js_repository job) (js_ref job) (cp_architecture plan) (cp_key plan) (cp_prefixes plan) now c = Inr (c', Some e)"
      by metis
    have c': "cache_ok (cx_sha256 cx) cl c'" "all_from P c'" using s1_ok e(1) by (auto simp: honest_state_def)
    have key: "key_fits plan (ce_key e)" using e(3) by (cases rule: cache_lookup_hit) (auto simp: key_fits_def cache_entry_of_def)
    note blob = fetch_blob_served [OF fetched(2) [unfolded e(1,2)] c']
    have "d' = d \<or> (\<exists>t. d' = Some t \<and> origin cx P job plan t)"
      using fetched(3) blob(2) key by (auto simp: origin_def rbind_Inr_conv)
    then show ?thesis using blob(1) c' by (simp add: honest_state_def)
  qed
qed

lemma run_restore_origin:
  assumes "codec_ok cx" and "honest_state cx cl P (ru_broker r)" and "r' = run_restore cx (Some cc) (served cx g cl now) obstacle job plan r"
  shows "honest_state cx cl P (ru_broker r')"
    and "ru_dirs r' q \<noteq> ru_dirs r q \<Longrightarrow> q = cp_path plan \<and> (\<exists>t. ru_dirs r' q = Some t \<and> (t = empty_tree \<or> origin cx P job plan t))"
proof -
  let ?dirs = "prepared (cp_path plan) (ru_dirs r)"
  obtain s d line where p: "restore_plan cx cc (served cx g cl now) job plan (ru_broker r) (?dirs (cp_path plan)) = (s, d, line)"
    by (metis prod_cases3)
  note one = restore_plan_origin [OF assms(1,2) p]
  show "honest_state cx cl P (ru_broker r')"
    using assms(2,3) one p by (auto simp: run_restore_def Let_def split: option.split)
  show "q = cp_path plan \<and> (\<exists>t. ru_dirs r' q = Some t \<and> (t = empty_tree \<or> origin cx P job plan t))" if "ru_dirs r' q \<noteq> ru_dirs r q"
    using that assms(3) one p by (auto simp: run_restore_def prepared_def Let_def split: option.splits if_splits)
qed

lemma restore_plans_origin:
  "codec_ok cx \<Longrightarrow> honest_state cx cl P (ru_broker r) \<Longrightarrow> r' = restore_plans cx (Some cc) (served cx g cl now) obstacle job plans r \<Longrightarrow>
   ru_dirs r' q \<noteq> ru_dirs r q \<Longrightarrow>
   \<exists>t. ru_dirs r' q = Some t \<and> (t = empty_tree \<or> (\<exists>plan \<in> set plans. cp_path plan = q \<and> origin cx P job plan t))"
proof (induction plans arbitrary: r)
  case (Cons plan plans)
  define r1 where "r1 = run_restore cx (Some cc) (served cx g cl now) obstacle job plan r"
  note one = run_restore_origin [OF Cons.prems(1,2) r1_def]
  have r': "r' = r1 \<or> r' = restore_plans cx (Some cc) (served cx g cl now) obstacle job plans r1"
    using Cons.prems(3) by (simp add: Let_def flip: r1_def split: if_splits)
  show ?case
  proof (cases "ru_dirs r' q = ru_dirs r1 q")
    case True
    then show ?thesis using one(2) [of q] Cons.prems(4) by auto
  next
    case False
    then have "r' = restore_plans cx (Some cc) (served cx g cl now) obstacle job plans r1" using r' by auto
    from Cons.IH [OF Cons.prems(1) one(1) this False] show ?thesis by auto
  qed
qed simp

text \<open>The uploads of a history, as a property of scopes and digests.\<close>

definition uploaded :: "cache_codec \<Rightarrow> cache_event list \<Rightarrow> string \<times> string \<times> string \<times> string \<Rightarrow> string \<Rightarrow> bool" where
  "uploaded cx es scope digest \<longleftrightarrow>
     (case scope of (repository, branch, architecture, key) \<Rightarrow>
        \<exists>upload len on_time. Cache_Put repository branch architecture key upload len on_time \<in> set es \<and> cx_sha256 cx (take (nat len) upload) = digest)"

lemma all_from_put:
  assumes "cache_put sha256 cl repository branch architecture key upload len now c = Inr (c', e, created)" and "limits_ok cl" and "all_from P c"
    and "P (repository, branch, architecture, key) (sha256 (take (nat len) upload))"
  shows "all_from P c'"
  using assms(1,2)
proof (cases rule: cache_put_cases)
  case (kept r)
  then show ?thesis using assms(3) by (auto simp: all_from_def expire_rows_def)
next
  case (stored blobs r)
  obtain Q where "ch_rows c' = filter Q (expire_rows cl now (ch_rows c) @ [r])" using enforce_quota_filters stored(5) by metis
  then show ?thesis using assms(3,4) stored(3) by (auto simp: all_from_def expire_rows_def c_id_def)
qed

lemma uploaded_run: "limits_ok cl \<Longrightarrow> set es \<subseteq> set fs \<Longrightarrow> all_from (uploaded cx fs) c \<Longrightarrow>
    all_from (uploaded cx fs) (run_steps (cache_step (cx_sha256 cx) cl) c es)"
proof (induction es arbitrary: c)
  case (Cons e es)
  have "all_from (uploaded cx fs) (cache_step (cx_sha256 cx) cl c e)"
  proof (cases e)
    case (Cache_Lookup repository branch architecture key restore_keys now)
    then show ?thesis using Cons.prems(3) by (auto split: sum.split intro: all_from_lookup)
  next
    case (Cache_Put repository branch architecture key upload len now)
    then have "uploaded cx fs (repository, branch, architecture, key) (cx_sha256 cx (take (nat len) upload))"
      using Cons.prems(2) by (auto simp: uploaded_def)
    then show ?thesis using Cons.prems(1,3) Cache_Put by (auto split: sum.split intro: all_from_put)
  qed
  then show ?case using Cons by simp
qed simp

text \<open>
  C30: a restored cache comes from the branch that asks. In any history of the cache, where a run's restore leaves a
  directory other than it found it, the directory is one the restore made, or it holds an archive with the content
  of an upload that the history made for the very repository, ref and architecture of the run, under the plan's key
  or a key with one of its prefixes. A digest in an answer or a key of another branch does not make the client
  accept more.
\<close>

theorem restored_cache_was_uploaded_for_the_branch:
  assumes "new_cache cl = Inr c0" and "codec_ok cx" and "ru_broker r = Some (run_steps (cache_step (cx_sha256 cx) cl) c0 es)"
    and "r' = restore_plans cx (Some cc) (served cx g cl now) obstacle job plans r" and "ru_dirs r' q \<noteq> ru_dirs r q"
  shows "\<exists>t. ru_dirs r' q = Some t \<and> (t = empty_tree \<or>
     (\<exists>plan \<in> set plans. cp_path plan = q \<and> (\<exists>key upload len on_time blob ms.
        Cache_Put (js_repository job) (js_ref job) (cp_architecture plan) key upload len on_time \<in> set es \<and>
        (key = cp_key plan \<or> (\<exists>p \<in> set (cp_prefixes plan). prefix p key)) \<and>
        cx_sha256 cx blob = cx_sha256 cx (take (nat len) upload) \<and> cx_untar cx blob = Inr ms \<and> extract_archive ms = Inr t)))"
proof -
  have ok: "limits_ok cl" "c0 = empty_cache" using assms(1) by (simp_all add: new_cache_Inr)
  have "all_from (uploaded cx es) c0" by (simp add: ok(2) all_from_def empty_cache_def)
  then have "honest_state cx cl (uploaded cx es) (ru_broker r)"
    using uploaded_run [OF ok(1) subset_refl] cache_system.inv_run [of cl "cx_sha256 cx" es] ok by (simp add: honest_state_def assms(3))
  from restore_plans_origin [OF assms(2) this assms(4,5)] show ?thesis
    by (auto simp: origin_def uploaded_def key_fits_def) metis+
qed


text \<open>The newest entry outlives the eviction its own store starts.\<close>

lemma evict_keeps_newest:
  assumes "r \<in> set rows" and "\<And>s. s \<in> set rows \<Longrightarrow> s \<noteq> r \<Longrightarrow> c_accessed s < c_accessed r"
    and "distinct (map c_id rows)" and "int (c_size r) \<le> quota"
  shows "r \<in> set (evict_to_quota P quota rows)"
  using assms
proof (induction P quota rows rule: evict_to_quota.induct)
  case (1 P quota rows)
  show ?case
  proof (cases "int (stored_bytes (filter P rows)) \<le> quota")
    case True
    then show ?thesis using "1.prems"(1) by (simp add: evict_to_quota.simps [of P quota rows])
  next
    case over: False
    show ?thesis
    proof (cases "min_by (\<lambda>r. (c_accessed r, c_created r, c_key r)) (filter P rows)")
      case None
      then have "evict_to_quota P quota rows = rows" by (subst evict_to_quota.simps) (simp only: option.case if_cancel)
      then show ?thesis using "1.prems"(1) by simp
    next
      case (Some v)
      have v: "v \<in> set rows" "P v" using min_by_in [OF Some] by auto
      have "v \<noteq> r"
      proof
        assume vr: "v = r"
        have "s = r" if "s \<in> set (filter P rows)" for s
          using min_by_le [OF Some that] "1.prems"(2) [of s] that vr by (auto simp: less_eq_prod_def less_le_not_le)
        then have "set (filter P rows) \<subseteq> set [r]" by (metis list.set_intros(1) subsetI)
        then have "stored_bytes (filter P rows) \<le> stored_bytes [r]" by (rule stored_bytes_subset)
        moreover have "stored_bytes [r] = c_size r" by (simp add: stored_bytes_def)
        ultimately show False using over "1.prems"(4) by linarith
      qed
      then have "r \<in> set (delete_row v rows)"
        using "1.prems"(1,3) v(1) distinct_key_eq by (fastforce simp: delete_row_def)
      moreover have "distinct (map c_id (delete_row v rows))" using "1.prems"(3) by (simp add: delete_row_def distinct_map_filter)
      ultimately have "r \<in> set (evict_to_quota P quota (delete_row v rows))"
        using "1.IH" [OF over Some] "1.prems"(2,4) by (simp add: delete_row_def)
      then show ?thesis using over Some by (simp add: evict_to_quota.simps [of P quota rows])
    qed
  qed
qed

lemma enforce_keeps_newest:
  assumes "r \<in> set rows" and "\<And>s. s \<in> set rows \<Longrightarrow> s \<noteq> r \<Longrightarrow> c_accessed s < c_accessed r"
    and "distinct (map c_id rows)" and "int (c_size r) \<le> min (cl_repository_quota cl) (cl_storage_quota cl)"
  shows "r \<in> set (enforce_quota cl repository rows)"
proof -
  let ?inner = "evict_to_quota (\<lambda>r. c_repository r = repository) (cl_repository_quota cl) rows"
  obtain Q where Q: "?inner = filter Q rows" using evict_filters by blast
  have "r \<in> set ?inner" using assms by (intro evict_keeps_newest) auto
  then show ?thesis unfolding enforce_quota_def
    using assms(2-4) by (intro evict_keeps_newest) (auto simp: Q distinct_map_filter)
qed

text \<open>What a store needs to be new: a free key, no entry used later, and no other content with its digest.\<close>

definition fresh_store :: "(string \<Rightarrow> string) \<Rightarrow> cache_limits \<Rightarrow> string \<times> string \<times> string \<times> string \<Rightarrow> string \<Rightarrow> real \<Rightarrow> cache \<Rightarrow> bool" where
  "fresh_store sha256 cl scope body now c \<longleftrightarrow>
     scope \<notin> c_id ` set (ch_rows c) \<and> (\<forall>r \<in> set (ch_rows c). c_accessed r < now) \<and>
     (\<forall>b. ch_blobs c (sha256 body) = Some b \<longrightarrow> b = body) \<and> digest_ok (sha256 body) \<and>
     int (length body) \<le> min (cl_max_blob cl) (min (cl_repository_quota cl) (cl_storage_quota cl))"

lemma put_stores:
  assumes "limits_ok cl" and "cache_ok sha256 cl c" and "fresh_store sha256 cl (repository, branch, architecture, key) body now c"
    and "validate_scope repository branch architecture key = Inr ()"
  obtains c1 r where "cache_put sha256 cl repository branch architecture key body (int (length body)) now c = Inr (c1, cache_entry_of r, True)"
    "r \<in> set (ch_rows c1)" "c_id r = (repository, branch, architecture, key)" "c_digest r = sha256 body" "c_accessed r = now"
    "ch_blobs c1 (sha256 body) = Some body" "cache_ok sha256 cl c1"
proof -
  let ?put = "cache_put sha256 cl repository branch architecture key body (int (length body)) now c"
  have free: "(repository, branch, architecture, key) \<notin> c_id ` set (expire_rows cl now (ch_rows c))"
    using assms(3) by (auto simp: fresh_store_def expire_rows_def)
  obtain c1 e created where put: "?put = Inr (c1, e, created)"
  proof -
    have "?put \<noteq> Inl m" for m
      using assms(3,4) by (simp add: cache_put_def fresh_store_def Let_def split: option.split)
    then obtain x where "?put = Inr x" by (cases ?put) auto
    then show thesis using that by (cases x) auto
  qed
  have ok: "cache_ok sha256 cl c1" using cache_put_ok [OF assms(2,1) put] by simp
  from put assms(1) show ?thesis
  proof (cases rule: cache_put_cases)
    case (kept r)
    then show ?thesis using free lookup_by_Some_in [OF kept(3)] by (metis image_eqI)
  next
    case (stored blobs r)
    let ?rows = "expire_rows cl now (ch_rows c) @ [r]"
    have r: "c_id r = (repository, branch, architecture, key)" "c_digest r = sha256 body" "c_accessed r = now" "c_size r = length body"
      using stored(3) by (simp_all add: c_id_def)
    have "r \<in> set (enforce_quota cl repository ?rows)"
    proof (rule enforce_keeps_newest)
      show "c_accessed s < c_accessed r" if "s \<in> set ?rows" "s \<noteq> r" for s
        using that assms(3) r(3) by (auto simp: fresh_store_def expire_rows_def)
      show "distinct (map c_id ?rows)" using assms(2) free r(1) by (simp add: cache_ok_def expire_rows_def distinct_map_filter)
      show "int (c_size r) \<le> min (cl_repository_quota cl) (cl_storage_quota cl)" using assms(3) r(4) by (simp add: fresh_store_def)
    qed simp
    then have in_rows: "r \<in> set (ch_rows c1)" using stored(5) by simp
    then have "ch_blobs c1 (sha256 body) = blobs (sha256 body)" using stored(6) imageI [OF in_rows, of c_digest] r(2) by (simp add: collect_blobs_def restrict_map_def)
    moreover obtain b where "blobs (sha256 body) = Some b" using stored(8) by auto
    ultimately have "ch_blobs c1 (sha256 body) = Some body" using stored(9) assms(3) by (fastforce simp: fresh_store_def)
    moreover have "?put = Inr (c1, cache_entry_of r, True)" using put stored(1,4) by simp
    ultimately show ?thesis using that in_rows r(1-3) ok by blast
  qed
qed

lemma stored_is_served:
  assumes "limits_ok cl" and "cache_ok sha256 cl c" and "r \<in> set (ch_rows c)" and "c_id r = (repository, branch, architecture, key)"
    and "ch_blobs c (c_digest r) = Some body" and "digest_ok (c_digest r)"
    and "validate_scope repository branch architecture key = Inr ()" and "length restore_keys \<le> 20" and "list_all cache_key_ok restore_keys"
    and "now - of_int (cl_ttl cl) \<le> c_accessed r"
  obtains c' where "cache_lookup cl repository branch architecture key restore_keys now c = Inr (c', Some (cache_entry_of r))"
    "open_blob cl (c_digest r) repository branch architecture key now c' = Inr body"
proof -
  let ?rows = "expire_rows cl now (ch_rows c)"
  have r: "r \<in> set ?rows" using assms(3,10) by (simp add: expire_rows_def)
  moreover have "distinct (map c_id ?rows)" using assms(2) by (simp add: cache_ok_def expire_rows_def distinct_map_filter)
  ultimately have found: "lookup_by c_id (repository, branch, architecture, key) ?rows = Some r"
    using lookup_by_unique [of c_id ?rows r] assms(4) by simp
  have blob: "collect_blobs ?rows (ch_blobs c) (c_digest r) = Some body" using r assms(5) by (auto simp: collect_blobs_def restrict_map_def)
  let ?c' = "c\<lparr>ch_rows := update_where (\<lambda>s. c_id s = c_id r) (touch_row now) ?rows, ch_blobs := collect_blobs ?rows (ch_blobs c),
               ch_hits := ch_hits c + 1\<rparr>"
  have "cache_lookup cl repository branch architecture key restore_keys now c = Inr (?c', Some (cache_entry_of r))"
    using assms(7-9) found blob by (simp add: cache_lookup_def Let_def)
  moreover have "touch_row now r \<in> set (ch_rows ?c')" using r by (force simp: set_update_where)
  then have "list_ex (\<lambda>s. c_id s = (repository, branch, architecture, key) \<and> c_digest s = c_digest r \<and> c_accessed s \<ge> now - of_int (cl_ttl cl))
      (ch_rows ?c')"
    using assms(1,4) unfolding list_ex_iff by (intro bexI [of _ "touch_row now r"]) (simp_all add: touch_row_def c_id_def limits_ok_def)
  then have "open_blob cl (c_digest r) repository branch architecture key now ?c' = Inr body"
    using assms(6,7) blob by (simp add: open_blob_def)
  ultimately show ?thesis using that by blast
qed

section \<open>A stored cache comes back\<close>

definition encodes :: "cache_codec \<Rightarrow> jobj \<Rightarrow> bool" where
  "encodes cx kvs \<longleftrightarrow> cx_dumps cx kvs \<noteq> [] \<and> length (cx_dumps cx kvs) \<le> MAX_REPLY \<and> cx_loads cx (cx_dumps cx kvs) = Json (JObj kvs)"

definition lookup_json :: "cache_entry option \<Rightarrow> jobj" where
  "lookup_json e = [(''hit'', JBool (e \<noteq> None)), (''entry'', case e of None \<Rightarrow> JNull | Some x \<Rightarrow> JObj (entry_dict x))]"

definition put_json :: "bool \<Rightarrow> cache_entry \<Rightarrow> jobj" where
  "put_json created e = [(''created'', JBool created), (''entry'', JObj (entry_dict e))]"

definition accepted :: "cache_codec \<Rightarrow> gate \<Rightarrow> cache_client \<Rightarrow> bool" where
  "accepted cx g cc \<longleftrightarrow> cc_base cc = [] \<and> agent_authorized (cx_sha256 cx) g (''Bearer '' @ cc_token cc) = Inr True"

lemma MAX_BODY_REPLY: "int n \<le> MAX_BODY \<longleftrightarrow> n \<le> MAX_REPLY"
  by (simp add: MAX_BODY_def MAX_REPLY_def)

lemma fixed_paths:
  "url_path LOOKUP_PATH = LOOKUP_PATH" "url_path ENTRIES_PATH = ENTRIES_PATH" "ENTRIES_PATH \<noteq> LOOKUP_PATH" "\<not> prefix BLOBS_PATH LOOKUP_PATH"
  by (simp_all add: url_path_def LOOKUP_PATH_def ENTRIES_PATH_def BLOBS_PATH_def before_def)

lemma read_json_encoded: "encodes cx kvs \<Longrightarrow> read_json (cx_loads cx) (Some (nat_str (length (cx_dumps cx kvs)))) (cx_dumps cx kvs) = Inr kvs"
  using MAX_BODY_REPLY [of "length (cx_dumps cx kvs)"] by (auto simp: encodes_def read_json_def int_value_nat_str Let_def nat_str_digits simp del: int_value.simps)

lemma lookup_answered:
  assumes "accepted cx g cc" and "encodes cx (lookup_payload repository branch architecture key restore_keys)"
    and "cache_lookup cl repository branch architecture key restore_keys now c = Inr (c', Some e)" and "encodes cx (lookup_json (Some e))"
  obtains reply where "served cx g cl now (lookup_request cx cc repository branch architecture key restore_keys) (Some c) = (Some c', reply)"
    "read_lookup cx reply = Inr (Some (entry_dict e))"
proof -
  let ?rq = "lookup_request cx cc repository branch architecture key restore_keys"
  have str: "strings_of (map JStr xs) = Some xs" for xs by (induction xs) auto
  have query: "lookup_query (lookup_payload repository branch architecture key restore_keys) = Inr (repository, branch, architecture, key, restore_keys)"
    by (simp add: lookup_query_def lookup_payload_def text_field_def field_or_def str)
  have "cache_lookup_path (cx_loads cx) cl ?rq now c = Inr (c', Json_Answer 200 (lookup_json (Some e)))"
    using read_json_encoded [OF assms(2)] assms(3) query
    by (simp add: cache_lookup_path_def lookup_request_def empty_request_def Let_def lookup_json_def)
  then have "cache_endpoint (cx_sha256 cx) (cx_loads cx) g cl now ?rq (Some c) = (Some c', Json_Answer 200 (lookup_json (Some e)))"
    using assms(1) by (simp add: cache_endpoint_def accepted_def lookup_request_def empty_request_def Let_def fixed_paths)
  then have "served cx g cl now ?rq (Some c) = (Some c', reply_of cx (Json_Answer 200 (lookup_json (Some e))))" by (simp add: served_def)
  moreover have "read_lookup cx (reply_of cx (Json_Answer 200 (lookup_json (Some e)))) = Inr (Some (entry_dict e))"
    using assms(4) by (simp add: read_lookup_def reply_of_def encodes_def Let_def) (simp add: lookup_json_def)
  ultimately show ?thesis using that by blast
qed

lemma put_answered:
  assumes "accepted cx g cc" and "int (length body) \<le> min (cl_max_blob cl) MAX_CACHE_BLOB_BYTES"
    and "cache_put (cx_sha256 cx) cl repository branch architecture key body (int (length body)) now c = Inr (c', e, True)"
    and "encodes cx (put_json True e)"
  obtains reply where "served cx g cl now (put_request cc repository branch architecture key body) (Some c) = (Some c', reply)"
    "read_upload cx reply = Inr (put_json True e)"
proof -
  let ?rq = "put_request cc repository branch architecture key body"
  have "cache_put_path (cx_sha256 cx) cl ?rq now c = Inr (c', Json_Answer 201 (put_json True e))"
    using assms(2,3) leD [OF assms(2)] by (simp add: cache_put_path_def put_request_def empty_request_def int_value_nat_str put_json_def del: int_value.simps)
  then have "cache_endpoint (cx_sha256 cx) (cx_loads cx) g cl now ?rq (Some c) = (Some c', Json_Answer 201 (put_json True e))"
    using assms(1) by (simp add: cache_endpoint_def accepted_def put_request_def empty_request_def Let_def fixed_paths)
  then have "served cx g cl now ?rq (Some c) = (Some c', reply_of cx (Json_Answer 201 (put_json True e)))" by (simp add: served_def)
  moreover have "read_upload cx (reply_of cx (Json_Answer 201 (put_json True e))) = Inr (put_json True e)"
    using assms(4) by (simp add: read_upload_def reply_of_def encodes_def Let_def) (simp add: put_json_def)
  ultimately show ?thesis using that by blast
qed

lemma hex_text: "digest_ok d \<Longrightarrow> url_quote d = d \<and> url_path (BLOBS_PATH @ d) = BLOBS_PATH @ d"
proof -
  assume "digest_ok d"
  then have hex: "c \<in> set ''0123456789abcdef''" if "c \<in> set d" for c using that by (auto simp: digest_ok_def list_all_iff)
  have slug: "list_all (\<lambda>c. slug_char c \<and> c \<noteq> CHR ''?'' \<and> c \<noteq> CHR ''#'') ''0123456789abcdef''" by code_simp
  then have ok: "slug_char c \<and> c \<noteq> CHR ''?'' \<and> c \<noteq> CHR ''#''" if "c \<in> set d" for c using hex [OF that] unfolding list_all_iff by blast
  have "map quote_char d = map (\<lambda>c. [c]) d" using ok by (simp add: quote_char_def)
  then have "url_quote d = d" unfolding url_quote_def by (simp only: concat_map_singleton list.map_ident)
  moreover have "CHR ''?'' \<notin> set (BLOBS_PATH @ d)" "CHR ''#'' \<notin> set (BLOBS_PATH @ d)" using ok by (auto simp: BLOBS_PATH_def)
  then have "takeWhile (\<lambda>c. c \<noteq> CHR ''?'') (BLOBS_PATH @ d) = BLOBS_PATH @ d" "takeWhile (\<lambda>c. c \<noteq> CHR ''#'') (BLOBS_PATH @ d) = BLOBS_PATH @ d"
    unfolding takeWhile_eq_all_conv by metis+
  then have "url_path (BLOBS_PATH @ d) = BLOBS_PATH @ d" by (simp only: url_path_def before_def)
  ultimately show ?thesis by blast
qed

lemma blob_answered:
  assumes "accepted cx g cc" and "digest_ok digest" and "open_blob cl digest repository branch architecture key now c = Inr body"
    and "cx_sha256 cx body = digest" and "int (length body) \<le> MAX_CACHE_BLOB_BYTES"
  obtains reply where "served cx g cl now (blob_request cc digest repository branch architecture key) (Some c) = (Some c, reply)"
    "read_download cx digest reply = Inr body"
proof -
  let ?rq = "blob_request cc digest repository branch architecture key"
  have path: "BLOBS_PATH @ digest \<noteq> LOOKUP_PATH" "BLOBS_PATH @ digest \<noteq> ENTRIES_PATH" by (auto simp: BLOBS_PATH_def LOOKUP_PATH_def ENTRIES_PATH_def)
  have "cache_endpoint (cx_sha256 cx) (cx_loads cx) g cl now ?rq (Some c) = (Some c, Blob_Answer (''sha256:'' @ digest) body)"
    using assms(1,3) hex_text [OF assms(2)] path
    by (simp add: cache_endpoint_def accepted_def blob_request_def empty_request_def Let_def cache_blob_path_def removeprefix_def)
  then have "served cx g cl now ?rq (Some c) = (Some c, reply_of cx (Blob_Answer (''sha256:'' @ digest) body))" by (simp add: served_def)
  moreover have "read_download cx digest (reply_of cx (Blob_Answer (''sha256:'' @ digest) body)) = Inr body"
    using assms(4,5) by (simp add: read_download_def reply_of_def int_value_nat_str del: int_value.simps)
  ultimately show ?thesis using that by blast
qed

text \<open>
  What a store and a restore need of their surroundings: a codec that reads back the objects they exchange, an
  accepted token, a valid scope, and the archive as the tar codec wrote it.
\<close>

definition exchange_ok :: "cache_codec \<Rightarrow> gate \<Rightarrow> cache_client \<Rightarrow> job_spec \<Rightarrow> cache_plan \<Rightarrow> member list \<Rightarrow> real \<Rightarrow> bool" where
  "exchange_ok cx g cc job plan ms now \<longleftrightarrow>
     (let blob = cx_tar cx ms;
          e = \<lparr>ce_repository = js_repository job, ce_branch = js_ref job, ce_architecture = cp_architecture plan, ce_key = cp_key plan,
               ce_digest = cx_sha256 cx blob, ce_size = length blob, ce_created = now\<rparr>
      in accepted cx g cc \<and> validate_scope (js_repository job) (js_ref job) (cp_architecture plan) (cp_key plan) = Inr () \<and>
         length (cp_prefixes plan) \<le> 20 \<and> list_all cache_key_ok (cp_prefixes plan) \<and>
         encodes cx (lookup_payload (js_repository job) (js_ref job) (cp_architecture plan) (cp_key plan) (cp_prefixes plan)) \<and>
         encodes cx (lookup_json (Some e)) \<and> encodes cx (put_json True e) \<and>
         cx_untar cx blob = Inr ms \<and> int (length blob) \<le> MAX_CACHE_BLOB_BYTES)"

lemma store_plan_stored:
  assumes "limits_ok cl" and "cache_ok (cx_sha256 cx) cl c" and "exchange_ok cx g cc job plan ms now"
    and "fresh_store (cx_sha256 cx) cl (js_repository job, js_ref job, cp_architecture plan, cp_key plan) (cx_tar cx ms) now c"
    and "create_archive content = Inr (ms, True)"
  obtains c1 r where "store_plan cx cc (served cx g cl now) job plan content (Some c) = (Some c1, Inr (Some (''cindral: cache stored '' @ cp_name plan)))"
    "cache_ok (cx_sha256 cx) cl c1" "r \<in> set (ch_rows c1)" "c_id r = (js_repository job, js_ref job, cp_architecture plan, cp_key plan)"
    "c_digest r = cx_sha256 cx (cx_tar cx ms)" "c_accessed r = now" "ch_blobs c1 (c_digest r) = Some (cx_tar cx ms)"
    "encodes cx (lookup_json (Some (cache_entry_of r)))"
proof -
  let ?blob = "cx_tar cx ms"
  let ?r = "\<lparr>c_repository = js_repository job, c_branch = js_ref job, c_architecture = cp_architecture plan, c_key = cp_key plan,
      c_digest = cx_sha256 cx ?blob, c_size = length ?blob, c_created = now, c_accessed = now\<rparr>"
  note ex = assms(3) [unfolded exchange_ok_def Let_def]
  have scope: "validate_scope (js_repository job) (js_ref job) (cp_architecture plan) (cp_key plan) = Inr ()" using ex by blast
  obtain c1 r where put: "cache_put (cx_sha256 cx) cl (js_repository job) (js_ref job) (cp_architecture plan) (cp_key plan) ?blob (int (length ?blob)) now c =
        Inr (c1, cache_entry_of r, True)" "r \<in> set (ch_rows c1)" "c_id r = (js_repository job, js_ref job, cp_architecture plan, cp_key plan)"
      "c_digest r = cx_sha256 cx ?blob" "c_accessed r = now" "ch_blobs c1 (cx_sha256 cx ?blob) = Some ?blob" "cache_ok (cx_sha256 cx) cl c1"
    by (rule put_stores [OF assms(1,2,4) scope])
  have "cache_entry_of r = cache_entry_of ?r"
    using put(1) assms(1) by (cases rule: cache_put_cases) auto
  then have enc: "encodes cx (put_json True (cache_entry_of r))" "encodes cx (lookup_json (Some (cache_entry_of r)))"
    using ex by (simp_all add: cache_entry_of_def)
  have size: "int (length ?blob) \<le> min (cl_max_blob cl) MAX_CACHE_BLOB_BYTES" using assms(4) ex by (simp add: fresh_store_def)
  obtain reply where reply: "served cx g cl now (put_request cc (js_repository job) (js_ref job) (cp_architecture plan) (cp_key plan) ?blob) (Some c) =
        (Some c1, reply)" "read_upload cx reply = Inr (put_json True (cache_entry_of r))"
    using put_answered [OF _ size put(1) enc(1)] ex by blast
  have "truthy (field_or (put_json True (cache_entry_of r)) ''created'' JNull)" by (simp add: put_json_def field_or_def)
  then have "store_plan cx cc (served cx g cl now) job plan content (Some c) = (Some c1, Inr (Some (''cindral: cache stored '' @ cp_name plan)))"
    using assms(5) reply size by (simp add: store_plan_def Let_def)
  then show ?thesis using that put enc(2) by simp
qed

lemma restore_plan_stored:
  assumes "limits_ok cl" and "cache_ok (cx_sha256 cx) cl c" and "exchange_ok cx g cc job plan ms stored_at" and "digest_ok (cx_sha256 cx (cx_tar cx ms))"
    and "r \<in> set (ch_rows c)" and "c_id r = (js_repository job, js_ref job, cp_architecture plan, cp_key plan)"
    and "c_digest r = cx_sha256 cx (cx_tar cx ms)" and "ch_blobs c (c_digest r) = Some (cx_tar cx ms)"
    and "encodes cx (lookup_json (Some (cache_entry_of r)))" and "now - of_int (cl_ttl cl) \<le> c_accessed r"
    and "extract_archive ms = Inr t"
  shows "\<exists>s' line. restore_plan cx cc (served cx g cl now) job plan (Some c) d = (s', Some t, Inr line)"
proof -
  note ex = assms(3) [unfolded exchange_ok_def Let_def]
  let ?d = "cx_sha256 cx (cx_tar cx ms)"
  obtain c' where c': "cache_lookup cl (js_repository job) (js_ref job) (cp_architecture plan) (cp_key plan) (cp_prefixes plan) now c =
        Inr (c', Some (cache_entry_of r))" "open_blob cl (c_digest r) (js_repository job) (js_ref job) (cp_architecture plan) (cp_key plan) now c' = Inr (cx_tar cx ms)"
    using stored_is_served [OF assms(1,2,5,6,8), of "cp_prefixes plan" now] ex assms(4,7,10) by auto
  obtain reply where reply: "served cx g cl now (lookup_request cx cc (js_repository job) (js_ref job) (cp_architecture plan) (cp_key plan) (cp_prefixes plan)) (Some c) =
        (Some c', reply)" "read_lookup cx reply = Inr (Some (entry_dict (cache_entry_of r)))"
    using lookup_answered [OF _ _ c'(1) assms(9)] ex by blast
  obtain reply2 where reply2: "served cx g cl now (blob_request cc ?d (js_repository job) (js_ref job) (cp_architecture plan) (cp_key plan)) (Some c') = (Some c', reply2)"
      "read_download cx ?d reply2 = Inr (cx_tar cx ms)"
    using blob_answered [OF _ assms(4) c'(2) [unfolded assms(7)]] ex by blast
  have e: "entry_text cx (entry_dict (cache_entry_of r)) ''digest'' = Inr ?d" "entry_text cx (entry_dict (cache_entry_of r)) ''key'' = Inr (cp_key plan)"
    using assms(6,7) by (simp_all add: entry_text_def entry_dict_def item_def cache_entry_of_def c_id_def)
  have "fetch_blob cx cc (served cx g cl now) job plan (entry_dict (cache_entry_of r)) (Some c') = (Some c', Inr (cx_tar cx ms))"
    by (simp add: fetch_blob_def e reply2)
  then show ?thesis using reply ex assms(11) by (simp add: restore_plan_def restore_archive_def Let_def)
qed

text \<open>
  C31: a stored cache comes back. When a passing run stores a cached directory under a key the branch has no entry
  for, and the archive fits the limits, the store succeeds, although it may evict other entries; and the next run
  of the branch with the same plan, before the entry expires, finds its directory replaced by the stored one: the
  same directories and the same regular files, with their contents and whether they are executable.
\<close>

theorem stored_cache_comes_back:
  assumes "new_cache cl = Inr c0" and "c = run_steps (cache_step (cx_sha256 cx) cl) c0 es"
    and "wf_entries content" and "create_archive (Some content) = Inr (ms, True)" and "exchange_ok cx g cc job plan ms stored_at"
    and "fresh_store (cx_sha256 cx) cl (js_repository job, js_ref job, cp_architecture plan, cp_key plan) (cx_tar cx ms) stored_at c"
    and "now \<le> stored_at + of_int (cl_ttl cl)"
  shows "\<exists>s s' t line. store_plan cx cc (served cx g cl stored_at) job plan (Some content) (Some c) =
       (s, Inr (Some (''cindral: cache stored '' @ cp_name plan))) \<and>
     restore_plan cx cc (served cx g cl now) job plan s d = (s', Some t, Inr line) \<and>
     (\<forall>q. q \<in> set (tr_dirs t) \<longleftrightarrow> (\<exists>sub. node_at content q = Some (Directory sub))) \<and>
     (\<forall>q b x. (q, b, x) \<in> set (tr_files t) \<longleftrightarrow> node_at content q = Some (Regular b x))"
proof -
  have ok: "limits_ok cl" "cache_ok (cx_sha256 cx) cl c"
    using cache_system.inv_run [of cl "cx_sha256 cx" es] assms(1,2) by (auto simp: new_cache_Inr)
  have "write_archive content = Inr ms" using assms(4) by (auto simp: create_archive_def rbind_Inr_conv)
  from archive_roundtrip [OF assms(3) this] obtain t where t: "extract_archive ms = Inr t"
      "\<forall>q. q \<in> set (tr_dirs t) \<longleftrightarrow> (\<exists>sub. node_at content q = Some (Directory sub))"
      "\<forall>q b x. (q, b, x) \<in> set (tr_files t) \<longleftrightarrow> node_at content q = Some (Regular b x)" by blast
  obtain c1 r where s: "store_plan cx cc (served cx g cl stored_at) job plan (Some content) (Some c) =
        (Some c1, Inr (Some (''cindral: cache stored '' @ cp_name plan)))"
      "cache_ok (cx_sha256 cx) cl c1" "r \<in> set (ch_rows c1)" "c_id r = (js_repository job, js_ref job, cp_architecture plan, cp_key plan)"
      "c_digest r = cx_sha256 cx (cx_tar cx ms)" "c_accessed r = stored_at" "ch_blobs c1 (c_digest r) = Some (cx_tar cx ms)"
      "encodes cx (lookup_json (Some (cache_entry_of r)))"
    by (rule store_plan_stored [OF ok assms(5,6,4)])
  have "digest_ok (cx_sha256 cx (cx_tar cx ms))" using assms(6) by (simp add: fresh_store_def)
  from restore_plan_stored [OF ok(1) s(2) assms(5) this s(3,4,5,7,8) _ t(1), of now d] show ?thesis
    using s(1,6) t(2,3) assms(7) by auto
qed

section \<open>A concrete exchange\<close>

definition sample_content :: entries where "sample_content = [(''a'', Regular ''x'' False)]"

definition sample_archive :: "member list" where "sample_archive = [file_member ([''a''], ''x'', False)]"

definition sample_entry :: cache_entry where
  "sample_entry = \<lparr>ce_repository = ''o/r'', ce_branch = ''main'', ce_architecture = ''arm64'', ce_key = ''uv-1'', ce_digest = example_digest,
     ce_size = 1, ce_created = 0\<rparr>"

definition sample_lookup :: jobj where "sample_lookup = lookup_payload ''o/r'' ''main'' ''arm64'' ''uv-1'' [''uv-'']"

definition sample_codec :: cache_codec where
  "sample_codec =
     \<lparr>cx_loads = (\<lambda>s. if s = ''q'' then Json (JObj sample_lookup) else if s = ''a'' then Json (JObj (lookup_json (Some sample_entry)))
                   else if s = ''p'' then Json (JObj (put_json True sample_entry)) else Not_Json []),
      cx_dumps = (\<lambda>kvs. if kvs = sample_lookup then ''q'' else if kvs = lookup_json (Some sample_entry) then ''a''
                   else if kvs = put_json True sample_entry then ''p'' else []),
      cx_text = (\<lambda>s. s), cx_shown = (\<lambda>_. []), cx_sha256 = (\<lambda>_. example_digest), cx_tar = (\<lambda>_. ''t''),
      cx_untar = (\<lambda>_. Inr sample_archive)\<rparr>"

definition sample_gate :: gate where "sample_gate = \<lparr>g_agent_tokens = None, g_agent_token = Some ''k'', g_pool_token = None\<rparr>"

definition sample_client :: cache_client where "sample_client = \<lparr>cc_base = [], cc_token = ''k''\<rparr>"

lemma sample_apart: "lookup_json (Some sample_entry) \<noteq> sample_lookup" "put_json True sample_entry \<noteq> sample_lookup"
    "put_json True sample_entry \<noteq> lookup_json (Some sample_entry)"
  by (simp_all add: lookup_json_def put_json_def sample_lookup_def lookup_payload_def)

lemma sample_exchange: "exchange_ok sample_codec sample_gate sample_client sample_job sample_plan sample_archive 0"
proof -
  have enc: "encodes sample_codec sample_lookup" "encodes sample_codec (lookup_json (Some sample_entry))" "encodes sample_codec (put_json True sample_entry)"
    using sample_apart by (simp_all add: encodes_def sample_codec_def MAX_REPLY_def)
  have acc: "accepted sample_codec sample_gate sample_client"
    by (simp add: accepted_def sample_client_def sample_gate_def agent_authorized_def has_map_def token_authorized_def bearer_def strip_def is_space_def)
  have scope: "validate_scope ''o/r'' ''main'' ''arm64'' ''uv-1'' = Inr ()" "cache_key_ok ''uv-''" by code_simp+
  have e: "\<lparr>ce_repository = js_repository sample_job, ce_branch = js_ref sample_job, ce_architecture = cp_architecture sample_plan,
      ce_key = cp_key sample_plan, ce_digest = cx_sha256 sample_codec (cx_tar sample_codec sample_archive),
      ce_size = length (cx_tar sample_codec sample_archive), ce_created = 0\<rparr> = sample_entry"
    by (simp add: sample_job_def sample_plan_def sample_codec_def sample_entry_def)
  have p: "lookup_payload (js_repository sample_job) (js_ref sample_job) (cp_architecture sample_plan) (cp_key sample_plan) (cp_prefixes sample_plan) = sample_lookup"
    by (simp add: sample_job_def sample_plan_def sample_lookup_def)
  show ?thesis unfolding exchange_ok_def Let_def e p
    using enc acc scope by (simp add: sample_job_def sample_plan_def sample_codec_def MAX_CACHE_BLOB_BYTES_def)
qed

lemma sample_fresh: "fresh_store (cx_sha256 sample_codec) example_limits (js_repository sample_job, js_ref sample_job, cp_architecture sample_plan, cp_key sample_plan)
    (cx_tar sample_codec sample_archive) 0 empty_cache"
proof -
  have "digest_ok example_digest" by code_simp
  then show ?thesis by (simp add: fresh_store_def empty_cache_def sample_codec_def example_limits_def)
qed

lemma sample_created: "create_archive (Some sample_content) = Inr (sample_archive, True)"
  by (simp add: create_archive_def write_archive_def sample_content_def visits_def sub_dirs_def sub_files_def map_filter_simps Let_def
      MAX_CACHE_FILES_def MAX_ARCHIVE_CONTENT_BYTES_def MAX_CACHE_BLOB_BYTES_def sample_archive_def worth_storing_def file_member_def)

theorem stored_cache_comes_back_witness:
  "\<exists>s s' t line. store_plan sample_codec sample_client (served sample_codec sample_gate example_limits 0) sample_job sample_plan (Some sample_content)
       (Some empty_cache) = (s, Inr (Some ''cindral: cache stored uv'')) \<and>
     restore_plan sample_codec sample_client (served sample_codec sample_gate example_limits 5) sample_job sample_plan s None = (s', Some t, Inr line) \<and>
     ([''a''], ''x'', False) \<in> set (tr_files t)"
proof -
  have new: "new_cache example_limits = Inr empty_cache" by (simp add: new_cache_Inr limits_ok_def example_limits_def)
  have wf: "wf_entries sample_content" by (simp add: sample_content_def part_ok_def)
  have run: "empty_cache = run_steps (cache_step (cx_sha256 sample_codec) example_limits) empty_cache []" by simp
  have soon: "(5 :: real) \<le> 0 + of_int (cl_ttl example_limits)" by (simp add: example_limits_def)
  have n: "node_at sample_content [''a''] = Some (Regular ''x'' False)" by (simp add: sample_content_def)
  have name: "''cindral: cache stored '' @ cp_name sample_plan = ''cindral: cache stored uv''" by (simp add: sample_plan_def)
  from stored_cache_comes_back [OF new run wf sample_created sample_exchange sample_fresh soon, of None]
  obtain s s' t line where r: "store_plan sample_codec sample_client (served sample_codec sample_gate example_limits 0) sample_job sample_plan (Some sample_content)
       (Some empty_cache) = (s, Inr (Some (''cindral: cache stored '' @ cp_name sample_plan)))"
     "restore_plan sample_codec sample_client (served sample_codec sample_gate example_limits 5) sample_job sample_plan s None = (s', Some t, Inr line)"
     "\<forall>q b x. (q, b, x) \<in> set (tr_files t) \<longleftrightarrow> node_at sample_content q = Some (Regular b x)" by (elim exE conjE)
  have "([''a''], ''x'', False) \<in> set (tr_files t)" using r(3) n by simp
  with r(1,2) show ?thesis unfolding name by blast
qed

lemma sample_codec_ok: "codec_ok sample_codec"
proof -
  have "cx_loads sample_codec (take n (cx_dumps sample_codec kvs)) = Json m \<Longrightarrow> m = JObj kvs" for kvs n m
    by (cases n) (auto simp: sample_codec_def split: if_splits)
  then show ?thesis unfolding codec_ok_def by blast
qed

theorem restored_cache_was_uploaded_for_the_branch_witness:
  "\<exists>t. ru_dirs (restore_plans sample_codec (Some sample_client) (served sample_codec sample_gate example_limits 5) (\<lambda>_. None) sample_job [sample_plan]
       \<lparr>ru_broker = Some (run_steps (cache_step (cx_sha256 sample_codec) example_limits) empty_cache [Cache_Put ''o/r'' ''main'' ''arm64'' ''uv-1'' ''t'' 1 0]),
         ru_dirs = Map.empty, ru_env = [], ru_log = [], ru_raised = None\<rparr>) ''/w/uv'' = Some t \<and> t \<noteq> empty_tree \<and>
     (\<exists>ms. cx_untar sample_codec ''t'' = Inr ms \<and> extract_archive ms = Inr t)"
proof -
  let ?sha = "cx_sha256 sample_codec" and ?es = "[Cache_Put ''o/r'' ''main'' ''arm64'' ''uv-1'' ''t'' 1 0]"
  let ?c = "run_steps (cache_step ?sha example_limits) empty_cache ?es"
  let ?r = "\<lparr>ru_broker = Some ?c, ru_dirs = Map.empty, ru_env = [], ru_log = [], ru_raised = None\<rparr>"
  let ?r' = "restore_plans sample_codec (Some sample_client) (served sample_codec sample_gate example_limits 5) (\<lambda>_. None) sample_job [sample_plan] ?r"
  have new: "new_cache example_limits = Inr empty_cache" by (simp add: new_cache_Inr limits_ok_def example_limits_def)
  have ok: "limits_ok example_limits" "cache_ok ?sha example_limits empty_cache"
    using new by (simp_all add: new_cache_Inr cache_ok_def empty_cache_def limits_ok_def)
  have scope: "js_repository sample_job = ''o/r''" "js_ref sample_job = ''main''" "cp_architecture sample_plan = ''arm64''" "cp_key sample_plan = ''uv-1''"
      "cx_tar sample_codec sample_archive = ''t''" by (simp_all add: sample_job_def sample_plan_def sample_codec_def)
  have valid: "validate_scope ''o/r'' ''main'' ''arm64'' ''uv-1'' = Inr ()" by code_simp
  obtain c1 r where put: "cache_put ?sha example_limits ''o/r'' ''main'' ''arm64'' ''uv-1'' ''t'' (int (length ''t'')) 0 empty_cache = Inr (c1, cache_entry_of r, True)"
    "r \<in> set (ch_rows c1)" "c_id r = (''o/r'', ''main'', ''arm64'', ''uv-1'')" "c_digest r = ?sha ''t''" "c_accessed r = 0"
    "ch_blobs c1 (?sha ''t'') = Some ''t''" "cache_ok ?sha example_limits c1"
    by (rule put_stores [OF ok sample_fresh [unfolded scope] valid])
  have c: "?c = c1" using put(1) by simp
  have enc: "encodes sample_codec (lookup_json (Some (cache_entry_of r)))"
  proof -
    have "cache_entry_of r = sample_entry"
      using put(1) ok(1) by (cases rule: cache_put_cases) (auto simp: cache_entry_of_def sample_entry_def sample_codec_def)
    then show ?thesis using sample_apart by (simp add: encodes_def sample_codec_def MAX_REPLY_def)
  qed
  obtain t where t: "extract_archive sample_archive = Inr t" "t \<noteq> empty_tree"
    by (simp add: extract_archive_def sample_archive_def file_member_def posix_def extract_member_def
        path_parts_def Let_def make_dirs_def make_file_def parents_def is_file_at_def empty_tree_def MAX_CACHE_FILES_def MAX_RESTORED_CACHE_BYTES_def)
  have "digest_ok (?sha ''t'')" by (simp add: sample_codec_def) code_simp
  then obtain s line where restored: "restore_plan sample_codec sample_client (served sample_codec sample_gate example_limits 5) sample_job sample_plan (Some c1)
      (Some empty_tree) = (s, Some t, Inr line)"
    using restore_plan_stored [OF ok(1) put(7) sample_exchange _ put(2), unfolded scope, OF _ put(3,4) _ enc _ t(1), of 5 "Some empty_tree"] put(4,5,6)
    by (auto simp: example_limits_def)
  have path: "cp_path sample_plan = ''/w/uv''" by (simp add: sample_plan_def)
  have dirs: "ru_dirs ?r' ''/w/uv'' = Some t" unfolding c by (simp add: run_restore_def prepared_def path restored Let_def)
  have changed: "ru_dirs ?r' ''/w/uv'' \<noteq> ru_dirs ?r ''/w/uv''" using dirs by simp
  have broker: "ru_broker ?r = Some ?c" by simp
  from restored_cache_was_uploaded_for_the_branch [OF new sample_codec_ok broker refl changed] t(2) dirs show ?thesis
    by (auto simp: sample_codec_def)
qed

end
