(* ===== verification/Spec2Isabelle.thy ===== *)
theory Spec2Isabelle
  imports Step_Records Queue_Properties Verdict_Delivery Dispatch_Targets Route_Policy Delivery_Ledger Webhook_History
    Device_Api Pool_View Cache_Store Condition_Semantics Artifact_Store Workflow_Translation Device_Execution Check_Runs Cache_Exchange
begin

text \<open>
  A verification library for cindral, an allocator that places continuous-integration runs on
  GitHub-hosted runners or on a pool of devices. Paths below are relative to \<open>src/src/cindral/\<close>.

  \<^bold>\<open>The program.\<close> A broker (\<open>service.py\<close>) receives signed GitHub webhooks. A push or a pull request
  is either queued for direct execution on a device or dispatched to GitHub with
  \<open>workflow_dispatch\<close>; a policy chooses the lane from the request, the live runners, the hosted
  quota and a monthly ceiling on metered dispatches. Devices poll the broker: they announce
  themselves, claim a queued run under a lease, renew the lease and report a verdict. A lease that
  lapses is taken back and retried. Each verdict is owed to the commit as a status until GitHub has
  accepted it, and a check run on the commit follows the run as well. A device that claimed a run
  checks the commit out, resolves its contract from a workflow, a contract file or a lockfile,
  restores its caches from the broker, runs the contract's steps in one container beside its
  services, uploads the artifacts and reports. A job's own \<open>if:\<close> decides whether it runs.

  \<^bold>\<open>Theories, in the order of their imports.\<close>

  \<^item> \<open>Cindral_Prelude\<close>: exceptions as values, the string operations of the source, decoded JSON,
    keyed tables as lists of rows, and two interfaces: \<open>row_update\<close> (an update that keeps the key)
    and \<open>invariant_system\<close> (a transition system with an inductive invariant).
  \<^item> \<open>Step_Records\<close> (\<open>steps.py\<close>): the step markers of a run's log, the record a device reports and
    the one the broker stores, with its bounds and the round trip between the two.
  \<^item> \<open>Job_Queue\<close> (\<open>jobs.py\<close>, \<open>schema.py\<close>, \<open>jobrecord.py\<close>, \<open>retry.py\<close>, \<open>scheduling.py\<close>,
    \<open>agents_table.py\<close>, \<open>lease_reclaim.py\<close>, \<open>verdicts.py\<close>, \<open>status_ledger.py\<close>): the database as a
    record of tables, one function for each transaction, and the queue invariant \<open>db_wf\<close>.
    \<open>Queue_Properties\<close> runs the operations in any order: the invariant, final verdicts, exclusive
    leases, the bound on hand-outs, what each report records.
  \<^item> \<open>Status_Drain\<close> (\<open>lease_reclaim.py\<close>, \<open>status_text.py\<close>, \<open>jobapi.py\<close>): the drain of owed
    verdicts over the abstract queue protocol \<open>JobQueue\<close>, the reclaim tick, the agent endpoints, and
    an interleaved system in which several drains, reports and store operations mix.
    \<open>Verdict_Delivery\<close> states the protocol's laws as a locale, interprets it on the job store and
    proves order, single delivery and no loss of verdicts for every interleaving; the sequential
    drain is one run of that system.
  \<^item> \<open>Dispatch_Targets\<close> (\<open>dispatch_targets.py\<close>, \<open>dispatch_ref.py\<close>): the allowlist and its checks.
  \<^item> \<open>Metered_Budget\<close> (\<open>metering.py\<close>, \<open>budget.py\<close>): the ledger of metered dispatches and the monthly
    ceiling, with the calendar of UTC months.
  \<^item> \<open>Quota_Source\<close> (\<open>quota.py\<close>, \<open>billing.py\<close>): the billing readings and their cache.
  \<^item> \<open>Route_Policy\<close> (\<open>policy.py\<close>, \<open>models.py\<close>, \<open>dispatch_capacity.py\<close>): the choice of a lane, with the
    ledger threaded through it.
  \<^item> \<open>Delivery_Ledger\<close> (\<open>deliveries.py\<close>, \<open>delivery_*.py\<close>): the stored webhook deliveries as a state
    machine, and the one dispatch each may make.
  \<^item> \<open>Webhook_Events\<close> (\<open>webhook.py\<close>, \<open>merge_ref.py\<close>): signatures, parsed events, trust, and the commit
    a pull-request run builds. \<open>Webhook_Broker\<close> (\<open>service.py\<close>, \<open>webhook_dispatch.py\<close>,
    \<open>pull_request_dispatch.py\<close>, \<open>refusal.py\<close>) composes all of the above into the handlers, each a
    function from the broker's state to its next state, the writes to GitHub and the reply.
    \<open>Webhook_Safety\<close> proves what one handling does: which code reaches a device, that the month is
    charged only for dispatches that may have been made, and where an untrusted pull request goes.
    \<open>Webhook_History\<close> puts handlings, replays, handlings that were cut off and restarts into one
    history, shows that every handler changes the ledger by the statements of \<open>delivery_step\<close> only,
    and proves that a commit runs on one lane over all of it.
  \<^item> \<open>Device_Api\<close> (\<open>device_auth.py\<close>, \<open>jobapi.py\<close>): credentials, heartbeats and the routing of the
    device-facing paths; who may change the queue, and whose token a verdict needs.
  \<^item> \<open>Pool_View\<close> (\<open>pool.py\<close>, \<open>stalls.py\<close>): the snapshot of the pool; each stall it reports is real, and
    a pool it does not call stalled can move or is held back by the cap on a repository's runs.
  \<^item> \<open>Cache_Store\<close> (\<open>cache.py\<close>): the build cache, its quotas, its scopes and its blobs.
  \<^item> \<open>Job_Condition\<close> (\<open>jobcondition.py\<close>): the tokenizer and evaluator of job conditions, its
    termination and the stability of its verdicts. \<open>Condition_Semantics\<close>: a reference semantics in
    three-valued logic, and that the evaluator implements it.
  \<^item> \<open>Artifact_Store\<close> (\<open>artifact.py\<close>, \<open>artifactapi.py\<close>, \<open>artifact_staging.py\<close>): the archives of
    finished runs, their limits, expiry and paths, with uploads, reads and queue operations as one
    transition system; whose archive a reader gets, and that an upload that was accepted is served
    while its row stands.
  \<^item> \<open>Workflow_Triggers\<close> (\<open>triggers.py\<close>), \<open>Workflow_Context\<close> (\<open>workflow_context.py\<close>), \<open>Workflow_Jobs\<close>
    (\<open>discovery.py\<close>, \<open>workflow_inputs.py\<close>), \<open>Act_Engine\<close> (\<open>act.py\<close>), \<open>Toolchain_Install\<close>
    (\<open>toolchain.py\<close>) and \<open>Run_Contract\<close> (\<open>contract.py\<close>): which events a workflow answers, the values
    its expressions name, its jobs with the reusable workflows they call, the command line of the
    engine, the commands that install a toolchain, and the contract a device carries out.
    \<open>Workflow_Translation\<close> (\<open>actions.py\<close>) composes them: from a workflow file to a contract that runs
    each step of the job. \<open>Contract_Choice\<close> (\<open>inference.py\<close>): which definition answers for a run.
  \<^item> \<open>Device_Client\<close> (\<open>agent.py\<close>, \<open>artifact_client.py\<close>, \<open>build_info.py\<close>), \<open>Device_Readiness\<close>
    (\<open>freshness.py\<close>, \<open>preflight.py\<close>) and \<open>Device_Agent\<close> (\<open>agent.py\<close>, \<open>heartbeats.py\<close>,
    \<open>artifact_upload.py\<close>): both ends of a device's requests, whether a device may claim, the thread
    that keeps a lease, and one pass of the claim loop with what the broker records of its report.
  \<^item> \<open>Device_Execution\<close> (\<open>executor.py\<close>, \<open>limits.py\<close>, \<open>docker_support.py\<close>, \<open>process.py\<close>): the commands a
    run starts and the files it writes, in order; how its containers are confined and cleaned up, and
    what a success that reached the broker says was run.
  \<^item> \<open>Check_Summary\<close> (\<open>check_summary.py\<close>, \<open>redact.py\<close>) and \<open>Check_Runs\<close> (\<open>check_runs.py\<close>): what a run's
    check says, that it agrees with the commit status and fits, and the publisher that opens, finds
    and updates the check against a GitHub of which \<open>honest_hub\<close> is all that is assumed.
  \<^item> \<open>Cache_Archive\<close>, \<open>Cache_Client\<close> and \<open>Cache_Exchange\<close> (\<open>cache_adapters.py\<close>, \<open>cache_client.py\<close>,
    \<open>cache_api.py\<close>): the archive of a directory, the client and the endpoints of the cache, and both
    over one store: what is restored was uploaded for the branch, and what was stored comes back.

  \<^bold>\<open>Modelling.\<close> A class that keeps state is a record, a dataclass a record, an enumeration or a set of
  string constants a datatype where the code compares with nothing else. A SQLite table is a list of
  rows in rowid order; a transaction is one function and an exception inside it leaves the database
  as it was. Python integers are \<open>int\<close>, floats exact reals, strings lists of characters. Strings are
  ASCII: case mapping, \<open>isalnum\<close> (\<open>is_alnum\<close>) and the folding comparison of job conditions
  (\<open>equal_values\<close>) are the source's on ASCII text. A raised exception is a value of a sum type. What
  is read from the outside is an argument: the clock, fresh identifiers, GitHub's answer to a request,
  SHA-256 and HMAC, the JSON decoder, the YAML, TOML and tar readers, the resolution of a path,
  Python's \<open>float\<close> of a text, the patterns of redaction. A webhook's body, its decoded JSON and its
  fingerprint are three fields of one request record, so the theorems hold for any decoder and hash;
  the JSON decoder of the cache may answer \<open>Too_Deep\<close> and its tar reader broken data. Laws about
  these are hypotheses of the theorems that need them: the cache's hash answers hexadecimal digests,
  the token hash has no collisions, an extracted archive is what tar documents, GitHub's listing of
  checks shows only checks that are there and some when there are any.

  A transaction and the read that follows it on the same connection are one step (\<open>claim\<close>, \<open>report\<close>):
  what another writer does between the two is not told apart. \<open>delivery_step\<close> states the statements of
  the delivery store a second time, as events; \<open>Webhook_History\<close> proves that the handlers take only
  such steps. The host a run executes on is a record of answers: the exit code of each command after
  the commands before it, what a captured command prints, cancellation, the file system; a file that
  is written is an entry of the same history.

  \<^bold>\<open>Loops and fuel.\<close> Every loop is a total function, by structural recursion or by a measure; the
  eviction loop of the cache shortens its table, and the inlining of reusable workflows enters
  only files that are not being read. Two carry fuel. The evaluator of job conditions has eight
  units for a token and eight more, shown to be enough for every text. The wait for services has 46
  rounds, which \<open>wait_ends\<close> shows to be enough for its 90 seconds on a clock that a poll of two seconds
  moves. The timer loops of the broker and the slots of a device are not modelled; one pass of each
  is, and theorems over sequences of passes stand in.

  \<^bold>\<open>Not modelled.\<close> HTTP transport, threads beyond the interleavings above, process groups and signals,
  and the text of metrics and help. The GitHub client and the signing of app tokens, repository
  onboarding and the operator surfaces (command line, MCP server) have no model. Two publishes of one
  check at the same moment are not interleaved, which the source says may open two.

  \<^bold>\<open>What the proofs showed of the code.\<close> Theorems and lemmas without a claim number describe behaviour
  that contradicts the code's own comments or documents, or marks the edge of a claim:
  \<open>spent_budget_sends_fork_to_local_lane\<close>, \<open>preview_takes_a_hold\<close>,
  \<open>second_release_erases_another_hold\<close>, \<open>merge_lookup_asks_the_wrong_path\<close>,
  \<open>returned_adapter_runs_it_again\<close>, \<open>single_operand_group_takes_closings\<close>,
  \<open>upload_over_expired_archive_is_lost\<close>, \<open>unreadable_reply_ends_the_lease_thread\<close>,
  \<open>unreadable_upload_reply_loses_the_report\<close>, \<open>earlier_slot_renews_the_next_attempt\<close>,
  \<open>service_image_as_option\<close>, \<open>failed_service_is_not_removed\<close>, \<open>device_failure_reads_as_failed_run\<close>,
  \<open>cache_exception_fails_the_run\<close>, \<open>deep_reply_raises\<close>, \<open>broken_archive_raises\<close>,
  \<open>stored_log_loses_its_end\<close>, \<open>removal_is_not_disclosed\<close>, \<open>step_names_are_not_redacted\<close>,
  \<open>long_fence_does_not_fit\<close>, \<open>second_run_hides_the_first\<close> and \<open>lost_reply_reopens_the_check\<close>.
\<close>

end
